(* ===== verification/WX_Prelude.thy ===== *)
theory WX_Prelude
  imports Main "HOL-Library.Word"
begin

text \<open>
  Shared base of the WHITEX development: the C integer types at their widths, the faults a C
  operation can raise, sequencing of operations that may fault, C strings in fixed buffers, table
  scans (the \<open>for\<close> loops that stop at the first matching slot) and circular buffers.  Nothing
  here is specific to one component.
\<close>

unbundle bit_operations_syntax

named_theorems wx_defs \<open>definitions of small model operations, unfolded together\<close>
named_theorems wx_inv \<open>invariant preservation facts of the components\<close>

section \<open>C integers and faults\<close>

type_synonym u8 = "8 word"
type_synonym u16 = "16 word"
type_synonym u32 = "32 word"
type_synonym u64 = "64 word"

text \<open>
  The ways an operation of the kernel can fail to return: an access outside the object a pointer
  points into, a null dereference, the CPU's divide error (also \<open>INT_MIN / -1\<close>), a panic that
  carries its message, a loop that masks interrupts and halts, and a busy wait on a lock that
  nobody can release.
\<close>

datatype fault =
    Out_of_bounds
  | Null_deref
  | Divide_error
  | Panic string
  | Cpu_halted
  | Spin_forever

definition bindE :: "'e + 'a \<Rightarrow> ('a \<Rightarrow> 'e + 'b) \<Rightarrow> 'e + 'b" where
  "bindE m f = (case m of Inl e \<Rightarrow> Inl e | Inr x \<Rightarrow> f x)"

lemma bindE_simps [simp]:
  "bindE (Inl e) f = Inl e"
  "bindE (Inr x) f = f x"
  by (simp_all add: bindE_def)

lemma bindE_eq_Inr: "bindE m f = Inr y \<longleftrightarrow> (\<exists>x. m = Inr x \<and> f x = Inr y)"
  by (cases m) simp_all

lemma bindE_eq_Inl: "bindE m f = Inl e \<longleftrightarrow> m = Inl e \<or> (\<exists>x. m = Inr x \<and> f x = Inl e)"
  by (cases m) simp_all

lemma bindE_assoc: "bindE (bindE m f) g = bindE m (\<lambda>x. bindE (f x) g)"
  by (cases m) simp_all

text \<open>A sequence of calls of one operation, stopped by the first fault.\<close>

fun foldE :: "('x \<Rightarrow> 's \<Rightarrow> 'e + 's) \<Rightarrow> 'x list \<Rightarrow> 's \<Rightarrow> 'e + 's" where
  "foldE f [] s = Inr s"
| "foldE f (x # xs) s = bindE (f x s) (foldE f xs)"

lemma foldE_append: "foldE f (xs @ ys) s = bindE (foldE f xs s) (foldE f ys)"
  by (induction xs arbitrary: s) (simp_all add: bindE_def split: sum.split)

lemma foldE_inv:
  assumes "\<And>x s. P s \<Longrightarrow> x \<in> set xs \<Longrightarrow> \<exists>s'. f x s = Inr s' \<and> P s'" and "P s"
  shows "\<exists>s'. foldE f xs s = Inr s' \<and> P s'"
  using assms
proof (induction xs arbitrary: s)
  case (Cons x xs)
  from Cons.prems(1) [OF Cons.prems(2), of x] obtain u where u: "f x s = Inr u" "P u" by auto
  have "\<exists>s'. foldE f xs u = Inr s' \<and> P s'"
    using Cons.prems(1) u(2) by (intro Cons.IH) auto
  with u show ?case by simp
qed simp

text \<open>A \<open>char\<close> of the i386 ABI is signed: this is its value after integer promotion.\<close>

definition char_int :: "char \<Rightarrow> int" where
  "char_int c = (if (of_char c :: int) < 128 then of_char c else of_char c - 256)"

definition char_u32 :: "char \<Rightarrow> u32" where
  "char_u32 c = word_of_int (char_int c)"

definition char_u8 :: "char \<Rightarrow> u8" where
  "char_u8 c = of_char c"

abbreviation NUL :: char where
  "NUL \<equiv> CHR 0x00"

abbreviation newline :: char where
  "newline \<equiv> CHR 0x0A"

abbreviation carriage_return :: char where
  "carriage_return \<equiv> CHR 0x0D"

lemma char_u8_inj: "char_u8 c = char_u8 d \<longleftrightarrow> c = d"
proof
  assume h: "char_u8 c = char_u8 d"
  have u: "unat (char_u8 x) = of_char x" for x
  proof -
    have "char_u8 x = of_nat (of_char x)"
      by (simp only: char_u8_def of_nat_of_char)
    moreover have "(of_char x :: nat) < 2 ^ LENGTH(8)"
      using nat_of_char_less_256 [of x] by simp
    ultimately show ?thesis
      by (simp only: unat_of_nat mod_less)
  qed
  have "unat (char_u8 c) = unat (char_u8 d)"
    by (rule arg_cong [OF h])
  then have "(of_char c :: nat) = of_char d"
    by (simp only: u)
  then show "c = d"
    by (simp only: of_char_eq_iff)
qed simp


section \<open>C strings in buffers\<close>

text \<open>
  A buffer is the list of its bytes.  The string it holds is what precedes the first NUL; reading a
  buffer with no NUL runs off its end, so \<open>terminated\<close> is the precondition of the string routines.
\<close>

definition cstr :: "char list \<Rightarrow> string" where
  "cstr buf = takeWhile (\<lambda>c. c \<noteq> NUL) buf"

definition terminated :: "char list \<Rightarrow> bool" where
  "terminated buf \<longleftrightarrow> NUL \<in> set buf"

definition nul_free :: "string \<Rightarrow> bool" where
  "nul_free s \<longleftrightarrow> NUL \<notin> set s"

text \<open>The buffer of a string literal.\<close>

definition lit :: "string \<Rightarrow> char list" where
  "lit s = s @ [NUL]"

lemma cstr_Nil [simp]: "cstr [] = []"
  by (simp add: cstr_def)

lemma cstr_Cons [simp]: "cstr (c # cs) = (if c = NUL then [] else c # cstr cs)"
  by (simp add: cstr_def)

lemma cstr_append_NUL [simp]: "nul_free s \<Longrightarrow> cstr (s @ NUL # r) = s"
  by (induction s) (auto simp: nul_free_def)

lemma nul_free_cstr [simp]: "nul_free (cstr b)"
  by (auto simp: nul_free_def cstr_def dest: set_takeWhileD)

lemma cstr_nul_free [simp]: "nul_free s \<Longrightarrow> cstr s = s"
  by (induction s) (auto simp: nul_free_def)

lemma nul_free_Nil [simp]: "nul_free []"
  by (simp add: nul_free_def)

lemma nul_free_Cons [simp]: "nul_free (c # s) \<longleftrightarrow> c \<noteq> NUL \<and> nul_free s"
  by (auto simp: nul_free_def)

lemma nul_free_append [simp]: "nul_free (s @ t) \<longleftrightarrow> nul_free s \<and> nul_free t"
  by (auto simp: nul_free_def)

lemma nul_free_take [simp]: "nul_free s \<Longrightarrow> nul_free (take n s)"
  by (auto simp: nul_free_def dest: in_set_takeD)

lemma nul_free_drop [simp]: "nul_free s \<Longrightarrow> nul_free (drop n s)"
  by (auto simp: nul_free_def dest: in_set_dropD)

lemma terminated_Nil [simp]: "\<not> terminated []"
  by (simp add: terminated_def)

lemma terminated_Cons [simp]: "terminated (c # cs) \<longleftrightarrow> c = NUL \<or> terminated cs"
  by (auto simp: terminated_def)

lemma terminated_append_NUL [simp]: "terminated (s @ NUL # r)"
  by (simp add: terminated_def)

lemma terminated_lit [simp]: "terminated (lit s)"
  by (simp add: lit_def)

lemma cstr_lit [simp]: "nul_free s \<Longrightarrow> cstr (lit s) = s"
  by (simp add: lit_def)

lemma length_cstr_less: "terminated b \<Longrightarrow> length (cstr b) < length b"
  by (induction b) auto

lemma terminated_split:
  assumes "terminated b"
  obtains r where "b = cstr b @ NUL # r"
proof -
  have "\<exists>r. b = cstr b @ NUL # r"
    using assms by (induction b) auto
  then show thesis using that by blast
qed

section \<open>Table scans\<close>

text \<open>
  \<open>for (i = 0; i < N; i++) if (P(t[i])) ...\<close> with a \<open>return\<close> or \<open>break\<close> in the body: the index of
  the first entry that satisfies the test, if any.
\<close>

fun first_ix :: "('a \<Rightarrow> bool) \<Rightarrow> 'a list \<Rightarrow> nat option" where
  "first_ix P [] = None"
| "first_ix P (x # xs) = (if P x then Some 0 else map_option Suc (first_ix P xs))"

lemma first_ix_None: "first_ix P xs = None \<longleftrightarrow> (\<forall>x \<in> set xs. \<not> P x)"
  by (induction xs) auto

lemma first_ix_SomeD:
  "first_ix P xs = Some i \<Longrightarrow> i < length xs \<and> P (xs ! i) \<and> (\<forall>j < i. \<not> P (xs ! j))"
proof (induction xs arbitrary: i)
  case (Cons x xs)
  show ?case
  proof (cases "P x")
    case False
    with Cons.prems obtain k where k: "first_ix P xs = Some k" "i = Suc k" by auto
    with Cons.IH [OF k(1)] False show ?thesis
      by (auto simp: nth_Cons less_Suc_eq_0_disj split: nat.split)
  qed (use Cons.prems in auto)
qed simp

lemma first_ix_eq_Some:
  "first_ix P xs = Some i \<longleftrightarrow> i < length xs \<and> P (xs ! i) \<and> (\<forall>j < i. \<not> P (xs ! j))"
proof
  assume h: "i < length xs \<and> P (xs ! i) \<and> (\<forall>j < i. \<not> P (xs ! j))"
  then have "first_ix P xs \<noteq> None" by (auto simp: first_ix_None)
  then obtain k where k: "first_ix P xs = Some k" by blast
  with first_ix_SomeD [OF k] h have "k = i" by (meson linorder_neqE_nat)
  with k show "first_ix P xs = Some i" by simp
qed (rule first_ix_SomeD)

lemma first_ix_cong:
  "length xs = length ys \<Longrightarrow> (\<And>i. i < length xs \<Longrightarrow> P (xs ! i) = Q (ys ! i)) \<Longrightarrow>
   first_ix P xs = first_ix Q ys"
proof (induction xs ys rule: list_induct2)
  case (Cons x xs y ys)
  from Cons.prems [of 0] have "P x = Q y" by simp
  moreover have "first_ix P xs = first_ix Q ys"
    using Cons.prems [of "Suc _"] by (intro Cons.IH) auto
  ultimately show ?case by simp
qed simp

section \<open>Circular buffers\<close>

text \<open>
  The contents, oldest first, of a circular buffer kept in an array with the index of its first
  element and a count.
\<close>

definition ring_list :: "'a list \<Rightarrow> nat \<Rightarrow> nat \<Rightarrow> 'a list" where
  "ring_list q h n = map (\<lambda>i. q ! ((h + i) mod length q)) [0..<n]"

lemma length_ring_list [simp]: "length (ring_list q h n) = n"
  by (simp add: ring_list_def)

lemma ring_list_0 [simp]: "ring_list q h 0 = []"
  by (simp add: ring_list_def)

lemma ring_list_nth: "i < n \<Longrightarrow> ring_list q h n ! i = q ! ((h + i) mod length q)"
  by (simp add: ring_list_def)

lemma ring_ix_distinct:
  fixes i n len h :: nat
  assumes "i < n" "n < len"
  shows "(h + i) mod len \<noteq> (h + n) mod len"
proof
  assume "(h + i) mod len = (h + n) mod len"
  then have "len dvd (h + n) - (h + i)"
    by (metis add_le_cancel_left assms(1) less_imp_le mod_eq_dvd_iff_nat)
  with assms show False
    by (auto dest: dvd_imp_le)
qed

lemma ring_list_enq:
  assumes "n < length q"
  shows "ring_list (q[(h + n) mod length q := x]) h (Suc n) = ring_list q h n @ [x]"
proof (rule nth_equalityI)
  fix i assume "i < length (ring_list (q[(h + n) mod length q := x]) h (Suc n))"
  then have i: "i < Suc n" by simp
  from assms have pos: "(h + n) mod length q < length q" by (cases q) auto
  show "ring_list (q[(h + n) mod length q := x]) h (Suc n) ! i = (ring_list q h n @ [x]) ! i"
  proof (cases "i = n")
    case True
    then show ?thesis using pos by (simp add: ring_list_nth nth_append)
  next
    case False
    with i have "i < n" by simp
    then show ?thesis
      using ring_ix_distinct [OF \<open>i < n\<close> assms, of h] by (simp add: ring_list_nth nth_append)
  qed
qed simp

lemma ring_list_deq:
  assumes "0 < n"
  shows "ring_list q (Suc h mod length q) (n - 1) = tl (ring_list q h n)"
proof (rule nth_equalityI)
  fix i assume "i < length (ring_list q (Suc h mod length q) (n - 1))"
  then have i: "i < n - 1" "Suc i < n" by simp_all
  have "(Suc h mod length q + i) mod length q = (h + Suc i) mod length q"
    by (simp add: mod_add_left_eq)
  with i show "ring_list q (Suc h mod length q) (n - 1) ! i = tl (ring_list q h n) ! i"
    by (simp add: ring_list_nth nth_tl)
qed simp

lemma ring_list_hd: "0 < n \<Longrightarrow> h < length q \<Longrightarrow> hd (ring_list q h n) = q ! h"
  by (simp add: hd_conv_nth ring_list_nth flip: length_greater_0_conv)

section \<open>Words\<close>

lemma unat_inc:
  fixes a b :: "'a::len word"
  assumes "unat a < unat b"
  shows "unat (a + 1) = Suc (unat a)"
proof -
  have "unat a + unat (1 :: 'a word) \<le> unat b" using assms by simp
  also have "unat b < 2 ^ LENGTH('a)" by (rule unsigned_less)
  finally have "unat a + unat (1 :: 'a word) < 2 ^ LENGTH('a)" .
  then have "unat (a + 1) = unat a + unat (1 :: 'a word)"
    by (simp only: unat_add_lem)
  then show ?thesis by simp
qed

lemma unat_inc_bound:
  fixes a :: "'a::len word"
  assumes "Suc (unat a) < 2 ^ LENGTH('a)"
  shows "unat (a + 1) = Suc (unat a)"
  using assms unat_add_lem [of a 1] by simp

lemma unat_dec:
  fixes a :: "'a::len word"
  shows "0 < unat a \<Longrightarrow> unat (a - 1) = unat a - 1"
  by (simp add: unat_sub_if' Suc_leI)

end
