(* ===== verification/WX_Strings.thy ===== *)
theory WX_Strings
  imports WX_Prelude
begin

text \<open>
  String and number routines of the kernel: the \<open>sys_\<close> helpers of \<open>Kernel.c\<close>, \<open>strcmp.h\<close> (and its
  copy in \<open>notepad.h\<close>), the decimal printers of \<open>multitasking.h\<close>, \<open>malloc.h\<close>, \<open>ping.h\<close> and
  \<open>Kernel.c\<close>, \<open>parse_integer\<close> of \<open>sys_tools.h\<close>, the hexadecimal printers of \<open>hexdump.h\<close> and
  \<open>bot.h\<close>.  A byte loop over a buffer is a recursion over its bytes; an access past the end of the
  buffer is \<open>Out_of_bounds\<close>.
\<close>

section \<open>Buffer accesses\<close>

definition get :: "'a list \<Rightarrow> nat \<Rightarrow> fault + 'a" where
  "get b i = (if i < length b then Inr (b ! i) else Inl Out_of_bounds)"

definition put :: "'a list \<Rightarrow> nat \<Rightarrow> 'a \<Rightarrow> fault + 'a list" where
  "put b i x = (if i < length b then Inr (b[i := x]) else Inl Out_of_bounds)"

lemma get_in [simp]: "i < length b \<Longrightarrow> get b i = Inr (b ! i)"
  by (simp add: get_def)

lemma put_in [simp]: "i < length b \<Longrightarrow> put b i x = Inr (b[i := x])"
  by (simp add: put_def)

fun sys_memzero :: "'a::zero list \<Rightarrow> nat \<Rightarrow> fault + 'a list" where
  "sys_memzero b 0 = Inr b"
| "sys_memzero [] (Suc n) = Inl Out_of_bounds"
| "sys_memzero (x # b) (Suc n) = map_sum id (Cons 0) (sys_memzero b n)"

fun sys_memcpy :: "'a list \<Rightarrow> 'a list \<Rightarrow> nat \<Rightarrow> fault + 'a list" where
  "sys_memcpy d s 0 = Inr d"
| "sys_memcpy (x # d) (y # s) (Suc n) = map_sum id (Cons y) (sys_memcpy d s n)"
| "sys_memcpy d s (Suc n) = Inl Out_of_bounds"

lemma sys_memzero_eq:
  "n \<le> length b \<Longrightarrow> sys_memzero b n = Inr (replicate n 0 @ drop n b)"
  by (induction b n rule: sys_memzero.induct) auto

lemma sys_memcpy_eq:
  "n \<le> length d \<Longrightarrow> n \<le> length s \<Longrightarrow> sys_memcpy d s n = Inr (take n s @ drop n d)"
  by (induction d s n rule: sys_memcpy.induct) auto

lemma sys_memcpy_fault:
  "length d < n \<or> length s < n \<Longrightarrow> sys_memcpy d s n = Inl Out_of_bounds"
  by (induction d s n rule: sys_memcpy.induct) auto

section \<open>Kernel.c: checksum, comparison, bounded copy, sanitising\<close>

fun checksum_loop :: "u32 \<Rightarrow> char list \<Rightarrow> nat \<Rightarrow> fault + u32" where
  "checksum_loop hash str 0 = Inr hash"
| "checksum_loop hash [] (Suc n) = Inl Out_of_bounds"
| "checksum_loop hash (c # str) (Suc n) =
     (if c = NUL then Inr hash
      else checksum_loop ((push_bit 5 hash + hash) + char_u32 c) str n)"

definition sys_calculate_checksum :: "char list \<Rightarrow> nat \<Rightarrow> fault + u32" where
  "sys_calculate_checksum str len = checksum_loop 5381 str len"

text \<open>The hash of a string: multiply by 33 and add, modulo \<open>2 ^ 32\<close>.\<close>

definition djb2 :: "string \<Rightarrow> u32" where
  "djb2 s = foldl (\<lambda>h c. 33 * h + char_u32 c) 5381 s"

lemma push_bit_5: "push_bit 5 (h :: u32) + h = 33 * h"
  by (simp add: push_bit_eq_mult algebra_simps)

lemma checksum_loop_eq:
  "terminated str \<Longrightarrow>
   checksum_loop h str n = Inr (foldl (\<lambda>h c. 33 * h + char_u32 c) h (take n (cstr str)))"
  by (induction h str n rule: checksum_loop.induct) (auto simp: push_bit_5)

lemma sys_calculate_checksum_eq:
  "terminated str \<Longrightarrow> sys_calculate_checksum str n = Inr (djb2 (take n (cstr str)))"
  by (simp add: sys_calculate_checksum_def checksum_loop_eq djb2_def)

text \<open>
  \<open>while (s[l] != 0 && l < max_len) l++\<close>: the byte is read before the bound is tested, so the loop
  can read the byte at index \<open>max_len\<close>.
\<close>

fun bounded_len :: "char list \<Rightarrow> nat \<Rightarrow> fault + nat" where
  "bounded_len [] m = Inl Out_of_bounds"
| "bounded_len (c # s) m =
     (if c \<noteq> NUL \<and> 0 < m then map_sum id Suc (bounded_len s (m - 1)) else Inr 0)"

fun xor_loop :: "u8 \<Rightarrow> char list \<Rightarrow> char list \<Rightarrow> nat \<Rightarrow> fault + u8" where
  "xor_loop r a b 0 = Inr r"
| "xor_loop r (x # a) (y # b) (Suc n) = xor_loop (r OR (char_u8 x XOR char_u8 y)) a b n"
| "xor_loop r a b (Suc n) = Inl Out_of_bounds"

definition sys_constant_time_compare ::
    "char list option \<Rightarrow> char list option \<Rightarrow> nat \<Rightarrow> fault + bool" where
  "sys_constant_time_compare input expected max_len =
     (case (input, expected) of
        (Some inp, Some exp) \<Rightarrow>
          bindE (bounded_len inp max_len) (\<lambda>actual_len.
          bindE (bounded_len exp max_len) (\<lambda>expected_len.
            if actual_len \<noteq> expected_len then Inr False
            else bindE (xor_loop 0 inp exp actual_len) (\<lambda>result. Inr (result = 0))))
      | _ \<Rightarrow> Inr False)"

lemma bounded_len_eq: "terminated s \<Longrightarrow> bounded_len s m = Inr (length (take m (cstr s)))"
  by (induction s m rule: bounded_len.induct) (auto simp: min_def)

lemma or_eq_0: "(a OR b = 0) \<longleftrightarrow> a = 0 \<and> b = (0 :: u8)"
  by (metis or_eq_0_iff)

lemma xor_eq_0: "(a XOR b = 0) \<longleftrightarrow> a = (b :: u8)"
  by (metis xor.assoc xor.left_neutral xor_self_eq)

lemma xor_loop_eq:
  "n \<le> length a \<Longrightarrow> n \<le> length b \<Longrightarrow>
   \<exists>r'. xor_loop r a b n = Inr r' \<and> (r' = 0 \<longleftrightarrow> r = 0 \<and> take n a = take n b)"
proof (induction r a b n rule: xor_loop.induct)
  case (2 r x a y b n)
  then show ?case by (auto simp: or_eq_0 xor_eq_0 char_u8_inj)
qed auto

lemma length_cstr_le: "length (cstr s) \<le> length s"
  by (simp add: cstr_def length_takeWhile_le)

lemma take_cstr: "n \<le> length (cstr s) \<Longrightarrow> take n (cstr s) = take n s"
  by (metis append_Nil2 cstr_def diff_is_0_eq take0 take_append takeWhile_dropWhile_id)

lemma compare_eq:
  assumes "terminated a" "terminated b"
  shows "sys_constant_time_compare (Some a) (Some b) m = Inr (take m (cstr a) = take m (cstr b))"
proof (cases "length (take m (cstr a)) = length (take m (cstr b))")
  case True
  let ?n = "length (take m (cstr a))"
  have n: "?n \<le> length a" "?n \<le> length b" "?n \<le> length (cstr a)" "?n \<le> length (cstr b)"
    using True length_cstr_le [of a] length_cstr_le [of b] by auto
  have eq: "take ?n a = take m (cstr a)" "take ?n b = take m (cstr b)"
    using True take_cstr [OF n(3)] take_cstr [OF n(4)] by (auto simp: min_def split: if_splits)
  from xor_loop_eq [OF n(1,2), of 0] obtain r where
    r: "xor_loop 0 a b ?n = Inr r" "r = 0 \<longleftrightarrow> take ?n a = take ?n b" by auto
  show ?thesis
    using assms True r eq by (simp add: sys_constant_time_compare_def bounded_len_eq)
next
  case False
  then have "take m (cstr a) \<noteq> take m (cstr b)" by metis
  with False assms show ?thesis
    by (simp add: sys_constant_time_compare_def bounded_len_eq)
qed

fun strncpy_loop :: "nat \<Rightarrow> nat \<Rightarrow> char list \<Rightarrow> char list \<Rightarrow> fault + char list" where
  "strncpy_loop 0 i dest src = put dest i NUL"
| "strncpy_loop (Suc k) i dest src =
     bindE (get src i) (\<lambda>c.
       if c \<noteq> NUL then bindE (put dest i c) (\<lambda>dest'. strncpy_loop k (Suc i) dest' src)
       else put dest i NUL)"

definition sys_safe_strncpy ::
    "char list option \<Rightarrow> char list option \<Rightarrow> nat \<Rightarrow> fault + char list option" where
  "sys_safe_strncpy dest src max_len =
     (case (dest, src) of
        (Some d, Some s) \<Rightarrow>
          if max_len = 0 then Inr dest
          else map_sum id Some (strncpy_loop (max_len - 1) 0 d s)
      | _ \<Rightarrow> Inr dest)"

definition bad_char :: "char \<Rightarrow> bool" where
  "bad_char c \<longleftrightarrow> c = newline \<or> c = carriage_return \<or> c = CHR '';'' \<or> c = CHR ''&'' \<or> c = CHR ''|''"

fun sys_sanitize_string :: "char list \<Rightarrow> nat \<Rightarrow> fault + char list" where
  "sys_sanitize_string str 0 = Inr str"
| "sys_sanitize_string [] (Suc n) = Inl Out_of_bounds"
| "sys_sanitize_string (c # str) (Suc n) =
     (if c = NUL then Inr (c # str)
      else if bad_char c then Inr (NUL # str)
      else map_sum id (Cons c) (sys_sanitize_string str n))"

text \<open>
  The bounded copy leaves the truncated source, a NUL, and the rest of the destination untouched.
\<close>

lemma strncpy_loop_eq:
  assumes "i \<le> length src" "terminated (drop i src)" "i + k < length dest"
  shows "strncpy_loop k i dest src =
    Inr (take i dest @ take k (cstr (drop i src)) @
         NUL # drop (Suc (i + length (take k (cstr (drop i src))))) dest)"
  using assms
proof (induction k i dest src rule: strncpy_loop.induct)
  case (1 i dest src)
  then show ?case by (simp add: upd_conv_take_nth_drop)
next
  case (2 k i dest src)
  have lt: "i < length src" using "2.prems"(2) by (cases "i < length src") auto
  then have cons: "drop i src = src ! i # drop (Suc i) src" by (simp add: Cons_nth_drop_Suc)
  show ?case
  proof (cases "src ! i = NUL")
    case True
    then show ?thesis using lt cons "2.prems" by (simp add: upd_conv_take_nth_drop)
  next
    case False
    have "strncpy_loop k (Suc i) (dest[i := src ! i]) src =
      Inr (take (Suc i) (dest[i := src ! i]) @ take k (cstr (drop (Suc i) src)) @
        NUL # drop (Suc (Suc i + length (take k (cstr (drop (Suc i) src))))) (dest[i := src ! i]))"
      using lt False cons "2.prems" by (intro "2.IH") auto
    then show ?thesis
      using lt False cons "2.prems" by (simp add: take_Suc_conv_app_nth)
  qed
qed

lemma sys_safe_strncpy_eq:
  assumes "terminated src" "0 < m" "m \<le> length dest"
  shows "sys_safe_strncpy (Some dest) (Some src) m =
    Inr (Some (take (m - 1) (cstr src) @ NUL # drop (Suc (length (take (m - 1) (cstr src)))) dest))"
  using assms strncpy_loop_eq [of 0 src "m - 1" dest] by (simp add: sys_safe_strncpy_def)

lemma sys_sanitize_string_eq:
  assumes "terminated str" "length str \<le> n"
  shows "\<exists>str'. sys_sanitize_string str n = Inr str' \<and> length str' = length str \<and> terminated str' \<and>
     cstr str' = takeWhile (\<lambda>c. \<not> bad_char c) (cstr str)"
  using assms by (induction str n rule: sys_sanitize_string.induct) auto

section \<open>strcmp.h and notepad.h\<close>

text \<open>
  \<open>strcmp\<close> (and \<open>str_compare\<close>, the same code) walks both strings while the first has a byte and the
  bytes agree, and returns the difference of the two bytes it stopped at, read as unsigned.
\<close>

fun strcmp :: "char list \<Rightarrow> char list \<Rightarrow> fault + int" where
  "strcmp (x # a) (y # b) =
     (if x \<noteq> NUL \<and> x = y then strcmp a b else Inr (of_char x - of_char y))"
| "strcmp a b = Inl Out_of_bounds"

lemma strcmp_zero_iff:
  "terminated a \<Longrightarrow> terminated b \<Longrightarrow>
   \<exists>d. strcmp a b = Inr d \<and> (d = 0 \<longleftrightarrow> cstr a = cstr b)"
proof (induction a b rule: strcmp.induct)
  case (1 x a y b)
  have "(of_char x - of_char y = (0 :: int)) = (x = y)"
    by (simp only: right_minus_eq of_char_eq_iff)
  with 1 show ?case by auto
qed auto

section \<open>Decimal numbers\<close>

definition digit :: "nat \<Rightarrow> char" where
  "digit d = char_of (48 + d)"

text \<open>The usual decimal notation, most significant digit first.\<close>

fun dec_str :: "nat \<Rightarrow> string" where
  "dec_str n = (if n < 10 then [digit n] else dec_str (n div 10) @ [digit (n mod 10)])"

declare dec_str.simps [simp del]

text \<open>\<open>scheduler_integer_to_string\<close>: count the digits, then fill the buffer from its end.\<close>

function digit_count :: "u32 \<Rightarrow> nat" where
  "digit_count temporary = (if 0 < temporary then Suc (digit_count (temporary div 10)) else 0)"
  by pat_completeness auto
termination
  by (relation "measure unat") (auto simp: unat_div word_less_nat_alt intro!: div_less_dividend)

declare digit_count.simps [simp del]

fun its_loop :: "nat \<Rightarrow> u32 \<Rightarrow> char list \<Rightarrow> fault + char list" where
  "its_loop 0 value buffer = Inr buffer"
| "its_loop (Suc i) value buffer =
     bindE (put buffer i (digit (unat (value mod 10)))) (its_loop i (value div 10))"

definition scheduler_integer_to_string :: "u32 \<Rightarrow> char list \<Rightarrow> fault + char list" where
  "scheduler_integer_to_string value buffer =
     (if value = 0 then bindE (put buffer 0 (CHR ''0'')) (\<lambda>b. put b 1 NUL)
      else bindE (put buffer (digit_count value) NUL) (its_loop (digit_count value) value))"

text \<open>\<open>parse_integer\<close> of \<open>sys_tools.h\<close>: digits up to the first other byte, modulo \<open>2 ^ 32\<close>.\<close>

definition is_digit :: "char \<Rightarrow> bool" where
  "is_digit c \<longleftrightarrow> 48 \<le> char_int c \<and> char_int c \<le> 57"

fun parse_loop :: "u32 \<Rightarrow> char list \<Rightarrow> fault + u32" where
  "parse_loop result [] = Inl Out_of_bounds"
| "parse_loop result (c # str) =
     (if is_digit c then parse_loop (result * 10 + word_of_int (char_int c - 48)) str
      else Inr result)"

definition parse_integer :: "char list \<Rightarrow> fault + u32" where
  "parse_integer str = parse_loop 0 str"

text \<open>
  \<open>ram_print_number\<close> and \<open>printnum\<close> store the digits from the least significant one and send them
  to the console backwards.  The argument of \<open>ram_print_number\<close> is unsigned; \<open>printnum\<close> takes an
  \<open>int\<close> and prints nothing for a negative one.
\<close>

function rev_digits :: "u32 \<Rightarrow> string" where
  "rev_digits n = (if 0 < n then digit (unat (n mod 10)) # rev_digits (n div 10) else [])"
  by pat_completeness auto
termination
  by (relation "measure unat") (auto simp: unat_div word_less_nat_alt intro!: div_less_dividend)

declare rev_digits.simps [simp del]

definition ram_print_number :: "u32 \<Rightarrow> string" where
  "ram_print_number n = (if n = 0 then ''0'' else rev (rev_digits n))"

definition printnum :: "u32 \<Rightarrow> string" where
  "printnum n = (if n = 0 then ''0'' else if sint n < 0 then [] else rev (rev_digits n))"

subsection \<open>Facts about decimal notation\<close>

lemma of_char_digit: "d < 10 \<Longrightarrow> (of_char (digit d) :: nat) = 48 + d"
  by (simp add: digit_def)

lemma char_int_digit: "d < 10 \<Longrightarrow> char_int (digit d) = 48 + int d"
proof -
  assume d: "d < 10"
  have "(of_char (digit d) :: int) = int (of_char (digit d))"
    by (simp only: of_nat_of_char)
  with d show ?thesis
    by (simp add: char_int_def of_char_digit del: of_nat_of_char)
qed

lemma is_digit_digit [simp]: "d < 10 \<Longrightarrow> is_digit (digit d)"
  by (simp add: is_digit_def char_int_digit)

lemma digit_not_NUL [simp]: "d < 10 \<Longrightarrow> digit d \<noteq> NUL"
  by (auto simp: is_digit_def char_int_def dest: is_digit_digit)

lemma not_is_digit_NUL [simp]: "\<not> is_digit NUL"
  by (simp add: is_digit_def char_int_def)

lemma digit_0: "digit 0 = CHR ''0''"
  by code_simp

lemma dec_str_0 [simp]: "dec_str 0 = ''0''"
  by (subst dec_str.simps) (simp add: digit_0)

lemma dec_str_not_Nil [simp]: "dec_str n \<noteq> []"
  by (subst dec_str.simps) simp

lemma nul_free_dec_str [simp]: "nul_free (dec_str n)"
proof (induction n rule: dec_str.induct)
  case (1 n)
  then show ?case by (subst dec_str.simps) simp
qed

lemma dec_str_digits: "list_all is_digit (dec_str n)"
proof (induction n rule: dec_str.induct)
  case (1 n)
  then show ?case by (subst dec_str.simps) simp
qed

lemma length_dec_str: "n < 10 ^ k \<Longrightarrow> 0 < k \<Longrightarrow> length (dec_str n) \<le> k"
proof (induction k arbitrary: n)
  case (Suc k)
  show ?case
  proof (cases "n < 10")
    case True
    then show ?thesis by (subst dec_str.simps) simp
  next
    case False
    then have "0 < k" using Suc.prems by (cases k) auto
    moreover have "n div 10 < 10 ^ k" using Suc.prems(1) by (simp add: less_mult_imp_div_less)
    ultimately have "length (dec_str (n div 10)) \<le> k" by (intro Suc.IH)
    with False show ?thesis by (subst dec_str.simps) simp
  qed
qed simp

lemma length_dec_str_u32: "length (dec_str (unat (v :: u32))) \<le> 10"
proof (rule length_dec_str)
  have "unat v < 2 ^ LENGTH(32)" by (rule unsigned_less)
  then show "unat v < 10 ^ 10" by simp
qed simp

lemma digit_count_eq: "0 < v \<Longrightarrow> digit_count v = length (dec_str (unat v))"
proof (induction v rule: digit_count.induct)
  case (1 v)
  show ?case
  proof (cases "unat v < 10")
    case True
    then have "v div 10 = 0" by (simp add: word_arith_nat_div)
    with True "1.prems" show ?thesis
      by (subst digit_count.simps, subst dec_str.simps) (simp add: digit_count.simps [of 0])
  next
    case False
    then have "0 < v div 10" by (simp add: word_less_nat_alt unat_div)
    with "1.IH" "1.prems" have "digit_count (v div 10) = length (dec_str (unat v div 10))"
      by (simp add: unat_div)
    with False "1.prems" show ?thesis
      by (subst digit_count.simps, subst dec_str.simps) simp
  qed
qed

lemma its_loop_eq:
  "k = length (dec_str (unat v)) \<Longrightarrow> k \<le> length b \<Longrightarrow>
   its_loop k v b = Inr (dec_str (unat v) @ drop k b)"
proof (induction k arbitrary: v b)
  case (Suc i)
  show ?case
  proof (cases "unat v < 10")
    case True
    then have "i = 0" using Suc.prems(1) by (simp add: dec_str.simps [of "unat v"])
    with True Suc.prems show ?thesis
      by (cases b) (simp_all add: dec_str.simps [of "unat v"] unat_mod)
  next
    case False
    then have i: "i = length (dec_str (unat (v div 10)))"
      using Suc.prems(1) by (simp add: dec_str.simps [of "unat v"] unat_div)
    have "its_loop i (v div 10) (b[i := digit (unat (v mod 10))]) =
      Inr (dec_str (unat (v div 10)) @ drop i (b[i := digit (unat (v mod 10))]))"
      using i Suc.prems(2) by (intro Suc.IH) auto
    with False Suc.prems(2) show ?thesis
      by (simp add: dec_str.simps [of "unat v"] unat_div unat_mod upd_conv_take_nth_drop)
  qed
qed simp

lemma integer_to_string_eq:
  assumes "11 \<le> length b"
  shows "scheduler_integer_to_string v b =
    Inr (dec_str (unat v) @ NUL # drop (Suc (length (dec_str (unat v)))) b)"
proof (cases "v = 0")
  case True
  obtain x y r where "b = x # y # r" using assms by (cases b; cases "tl b") auto
  then show ?thesis using True by (simp add: scheduler_integer_to_string_def)
next
  case False
  let ?k = "length (dec_str (unat v))"
  have k: "?k < length b" using length_dec_str_u32 [of v] assms by linarith
  moreover have "digit_count v = ?k"
    using False by (intro digit_count_eq) (simp add: word_gt_0)
  ultimately show ?thesis
    using False by (simp add: scheduler_integer_to_string_def its_loop_eq upd_conv_take_nth_drop)
qed

lemma rev_digits_eq: "0 < v \<Longrightarrow> rev (rev_digits v) = dec_str (unat v)"
proof (induction v rule: rev_digits.induct)
  case (1 v)
  show ?case
  proof (cases "unat v < 10")
    case True
    then have "v div 10 = 0" by (simp add: word_arith_nat_div)
    with True "1.prems" show ?thesis
      by (subst rev_digits.simps, subst dec_str.simps) (simp add: rev_digits.simps [of 0] unat_mod)
  next
    case False
    then have "0 < v div 10" by (simp add: word_less_nat_alt unat_div)
    with "1.IH" "1.prems" have "rev (rev_digits (v div 10)) = dec_str (unat v div 10)"
      by (simp add: unat_div)
    with False "1.prems" show ?thesis
      by (subst rev_digits.simps, subst dec_str.simps) (simp add: unat_mod)
  qed
qed

lemma ram_print_number_eq: "ram_print_number v = dec_str (unat v)"
  by (cases "v = 0")
     (simp_all add: ram_print_number_def rev_digits_eq word_gt_0)

lemma parse_loop_append:
  "list_all is_digit ds \<Longrightarrow>
   parse_loop r (ds @ s) = parse_loop (foldl (\<lambda>a c. a * 10 + word_of_int (char_int c - 48)) r ds) s"
  by (induction ds arbitrary: r) auto

lemma foldl_dec_str:
  "foldl (\<lambda>a c. a * 10 + word_of_int (char_int c - 48)) 0 (dec_str n) = (of_nat n :: u32)"
proof (induction n rule: dec_str.induct)
  case (1 n)
  show ?case
  proof (cases "n < 10")
    case True
    then show ?thesis by (subst dec_str.simps) (simp add: char_int_digit)
  next
    case False
    have "(of_nat n :: u32) = of_nat (n div 10 * 10 + n mod 10)" by simp
    also have "\<dots> = of_nat (n div 10) * 10 + of_nat (n mod 10)"
      by (simp only: of_nat_add of_nat_mult of_nat_numeral)
    finally show ?thesis
      using False "1.IH" by (subst dec_str.simps) (simp add: char_int_digit)
  qed
qed

lemma parse_integer_dec_str:
  "\<not> is_digit c \<Longrightarrow> parse_integer (dec_str n @ c # s) = Inr (of_nat n)"
  by (simp only: parse_integer_def parse_loop_append [OF dec_str_digits] foldl_dec_str) simp

end
