(* ===== verification/WX_Vga.thy ===== *)
theory WX_Vga
  imports WX_Strings
begin

text \<open>
  The text console of \<open>vga.h\<close>: an 80 by 25 page of character cells, a cursor and a colour.  The
  components that print do so through a list of console requests (\<open>con\<close>), one per call of \<open>print\<close>,
  \<open>putchar\<close>, \<open>cls\<close> or \<open>terminal_backspace\<close>; \<open>con_run\<close> is what these calls do to the page.
\<close>

section \<open>The page and its operations\<close>

record vga =
  terminal_row :: nat
  terminal_column :: nat
  terminal_color :: u8
  vga_buffer :: "u16 list"

definition VGA_WIDTH :: nat where "VGA_WIDTH = 80"
definition VGA_HEIGHT :: nat where "VGA_HEIGHT = 25"

datatype vga_color = BLACK | BLUE | GREEN | CYAN | RED | MAGENTA | BROWN | GREY | WHITE

fun color_code :: "vga_color \<Rightarrow> u8" where
  "color_code BLACK = 0"
| "color_code BLUE = 1"
| "color_code GREEN = 2"
| "color_code CYAN = 3"
| "color_code RED = 4"
| "color_code MAGENTA = 5"
| "color_code BROWN = 6"
| "color_code GREY = 8"
| "color_code WHITE = 15"

definition vga_entry_color :: "vga_color \<Rightarrow> vga_color \<Rightarrow> u8" where
  "vga_entry_color fg bg = color_code fg OR push_bit 4 (color_code bg)"

definition vga_entry :: "char \<Rightarrow> u8 \<Rightarrow> u16" where
  "vga_entry uc color = ucast (char_u8 uc) OR push_bit 8 (ucast color)"

text \<open>
  The two loops of \<open>scroll\<close>: move every row up by one, then blank the last one.  Every read and every write
  of a cell is checked against the page: one outside it is \<open>Out_of_bounds\<close>.
\<close>

definition scroll_move :: "u16 list \<Rightarrow> fault + u16 list" where
  "scroll_move =
     foldE (\<lambda>y. foldE (\<lambda>x b.
         let src_index = (y + 1) * VGA_WIDTH + x; dest_index = y * VGA_WIDTH + x
         in bindE (get b src_index) (put b dest_index))
       [0..<VGA_WIDTH]) [0..<VGA_HEIGHT - 1]"

definition scroll :: "vga \<Rightarrow> fault + vga" where
  "scroll v =
     bindE (scroll_move (vga_buffer v)) (\<lambda>b.
       let last_row_start = (VGA_HEIGHT - 1) * VGA_WIDTH in
       bindE (foldE (\<lambda>x b. put b (last_row_start + x) (vga_entry (CHR '' '') (terminal_color v))) [0..<VGA_WIDTH] b)
         (\<lambda>b. Inr (v\<lparr>vga_buffer := b, terminal_row := VGA_HEIGHT - 1\<rparr>)))"

definition putchar :: "char \<Rightarrow> vga \<Rightarrow> fault + vga" where
  "putchar c v =
     bindE
       (if c = newline then Inr (v\<lparr>terminal_column := 0, terminal_row := terminal_row v + 1\<rparr>)
        else
          bindE (put (vga_buffer v) (terminal_row v * VGA_WIDTH + terminal_column v)
                   (vga_entry c (vga_entry_color WHITE BLUE))) (\<lambda>b.
            let v1 = v\<lparr>vga_buffer := b, terminal_column := terminal_column v + 1\<rparr>
            in Inr (if terminal_column v1 = VGA_WIDTH
                    then v1\<lparr>terminal_column := 0, terminal_row := terminal_row v1 + 1\<rparr> else v1)))
       (\<lambda>v'. if VGA_HEIGHT \<le> terminal_row v' then scroll v' else Inr v')"

definition print :: "string \<Rightarrow> vga \<Rightarrow> fault + vga" where
  "print data = foldE putchar data"

definition init :: "vga \<Rightarrow> fault + vga" where
  "init v =
     (let color = vga_entry_color WHITE BLACK
      in bindE (foldE (\<lambda>y. foldE (\<lambda>x b. put b (y * VGA_WIDTH + x) (vga_entry (CHR '' '') color)) [0..<VGA_WIDTH])
                 [0..<VGA_HEIGHT] (vga_buffer v))
           (\<lambda>b. Inr (v\<lparr>terminal_row := 0, terminal_column := 0, terminal_color := color, vga_buffer := b\<rparr>)))"

definition cls :: "vga \<Rightarrow> fault + vga" where
  "cls v = init v"

definition terminal_backspace :: "vga \<Rightarrow> fault + vga" where
  "terminal_backspace v =
     (let v1 = (if 0 < terminal_column v then v\<lparr>terminal_column := terminal_column v - 1\<rparr>
                else if 0 < terminal_row v
                then v\<lparr>terminal_row := terminal_row v - 1, terminal_column := VGA_WIDTH - 1\<rparr>
                else v)
      in bindE (put (vga_buffer v1) (terminal_row v1 * VGA_WIDTH + terminal_column v1)
                  (vga_entry (CHR '' '') (terminal_color v1)))
           (\<lambda>b. Inr (v1\<lparr>vga_buffer := b\<rparr>)))"

section \<open>Console requests\<close>

datatype con = Print string | Putchar char | Cls | Backspace

text \<open>Printing a buffer that holds no terminator reads past its end.\<close>

definition print_buffer :: "char list \<Rightarrow> fault + con list" where
  "print_buffer b = (if terminated b then Inr [Print (cstr b)] else Inl Out_of_bounds)"

fun con_step :: "con \<Rightarrow> vga \<Rightarrow> fault + vga" where
  "con_step (Print s) v = print s v"
| "con_step (Putchar c) v = putchar c v"
| "con_step Cls v = cls v"
| "con_step Backspace v = terminal_backspace v"

definition con_run :: "con list \<Rightarrow> vga \<Rightarrow> fault + vga" where
  "con_run = foldE con_step"

text \<open>The text a list of requests sends to the page.\<close>

fun con_text :: "con list \<Rightarrow> string" where
  "con_text [] = []"
| "con_text (Print s # es) = s @ con_text es"
| "con_text (Putchar c # es) = c # con_text es"
| "con_text (e # es) = con_text es"

lemma con_text_append: "con_text (xs @ ys) = con_text xs @ con_text ys"
  by (induction xs rule: con_text.induct) auto

section \<open>Loops in closed form\<close>

lemma fold_update_length [simp]:
  "length (fold (\<lambda>x b. b[f x := g x b]) xs b) = length b"
  by (induction xs arbitrary: b) auto

lemma fold_fold_update_length [simp]:
  "length (fold (\<lambda>y. fold (\<lambda>x b. b[f y x := g y x b]) (ys y)) xs b) = length b"
  by (induction xs arbitrary: b) auto

text \<open>Where every index of a loop is in the list, the checked loop is the plain one.\<close>

lemma foldE_total:
  assumes "\<And>x b. x \<in> set xs \<Longrightarrow> length b = n \<Longrightarrow> f x b = Inr (g x b) \<and> length (g x b) = n" "length b = n"
  shows "foldE f xs b = Inr (fold g xs b) \<and> length (fold g xs b) = n"
  using assms by (induction xs arbitrary: b) auto

text \<open>A copy from \<open>k\<close> cells further on, run left to right, shifts a segment down.\<close>

lemma shift_loop:
  assumes "a + n + k \<le> length b" "0 < k"
  shows "fold (\<lambda>x b. b[a + x := b ! (a + k + x)]) [0..<n] b =
         take a b @ take n (drop (a + k) b) @ drop (a + n) b"
  using assms(1)
proof (induction n)
  case (Suc n)
  let ?c = "take a b @ take n (drop (a + k) b) @ drop (a + n) b"
  have len: "length (take a b) = a" "length (take n (drop (a + k) b)) = n"
    using Suc.prems by auto
  have nth: "?c ! (a + k + n) = b ! (a + k + n)"
    using len assms(2) Suc.prems by (simp add: nth_append add.assoc add.commute [of k n])
  have "fold (\<lambda>x b. b[a + x := b ! (a + k + x)]) [0..<Suc n] b = ?c[a + n := b ! (a + k + n)]"
    using Suc nth by simp
  also have "\<dots> = take a b @ take n (drop (a + k) b) @ (drop (a + n) b)[0 := b ! (a + k + n)]"
    using len Suc.prems by (simp add: list_update_append)
  also have "(drop (a + n) b)[0 := b ! (a + k + n)] = b ! (a + k + n) # drop (a + Suc n) b"
    using Suc.prems by (simp add: Cons_nth_drop_Suc [symmetric])
  also have "take n (drop (a + k) b) @ b ! (a + k + n) # drop (a + Suc n) b =
             take (Suc n) (drop (a + k) b) @ drop (a + Suc n) b"
    using Suc.prems by (simp add: take_Suc_conv_app_nth)
  finally show ?case .
qed simp

lemma fill_loop:
  assumes "a + n \<le> length b"
  shows "fold (\<lambda>x b. b[a + x := v]) [0..<n] b = take a b @ replicate n v @ drop (a + n) b"
  using assms
proof (induction n)
  case (Suc n)
  have "fold (\<lambda>x b. b[a + x := v]) [0..<Suc n] b =
        (take a b @ replicate n v @ drop (a + n) b)[a + n := v]"
    using Suc by simp
  also have "\<dots> = take a b @ replicate n v @ (drop (a + n) b)[0 := v]"
    using Suc.prems by (simp add: list_update_append)
  also have "(drop (a + n) b)[0 := v] = v # drop (a + Suc n) b"
    using Suc.prems by (simp add: Cons_nth_drop_Suc [symmetric])
  finally show ?case by (simp add: replicate_app_Cons_same)
qed simp

lemma scroll_move_rows:
  assumes "length b = 2000" "m \<le> 24"
  shows "fold (\<lambda>y. fold (\<lambda>x b. b[y * 80 + x := b ! ((y + 1) * 80 + x)]) [0..<80]) [0..<m] b =
         take (m * 80) (drop 80 b) @ drop (m * 80) b"
  using assms(2)
proof (induction m)
  case (Suc m)
  let ?c = "take (m * 80) (drop 80 b) @ drop (m * 80) b"
  have len: "length ?c = 2000" using assms(1) Suc.prems by simp
  have "fold (\<lambda>y. fold (\<lambda>x b. b[y * 80 + x := b ! ((y + 1) * 80 + x)]) [0..<80]) [0..<Suc m] b =
        fold (\<lambda>x b. b[m * 80 + x := b ! (m * 80 + 80 + x)]) [0..<80] ?c"
    using Suc by (simp add: add.commute)
  also have "\<dots> = take (m * 80) ?c @ take 80 (drop (m * 80 + 80) ?c) @ drop (m * 80 + 80) ?c"
    using len Suc.prems by (intro shift_loop) auto
  also have "\<dots> = take (Suc m * 80) (drop 80 b) @ drop (Suc m * 80) b"
    using assms(1) Suc.prems by (simp add: take_add add.commute [of 80] drop_drop)
  finally show ?case .
qed simp

lemma scroll_move_eq:
  assumes "length b = 2000"
  shows "scroll_move b = Inr (drop 80 b @ drop 1920 b)"
proof -
  have row: "foldE (\<lambda>x b. bindE (get b ((y + 1) * 80 + x)) (put b (y * 80 + x))) [0..<80] b =
        Inr (fold (\<lambda>x b. b[y * 80 + x := b ! ((y + 1) * 80 + x)]) [0..<80] b) \<and>
      length (fold (\<lambda>x b. b[y * 80 + x := b ! ((y + 1) * 80 + x)]) [0..<80] b) = 2000"
    if "y < 24" "length b = 2000" for y and b :: "u16 list"
    by (rule foldE_total) (use that in auto)
  have "foldE (\<lambda>y. foldE (\<lambda>x b. bindE (get b ((y + 1) * 80 + x)) (put b (y * 80 + x))) [0..<80]) [0..<24] b =
        Inr (fold (\<lambda>y. fold (\<lambda>x b. b[y * 80 + x := b ! ((y + 1) * 80 + x)]) [0..<80]) [0..<24] b)"
    by (rule conjunct1 [OF foldE_total]) (use row assms in auto)
  with scroll_move_rows [OF assms, of 24] assms show ?thesis
    by (simp add: scroll_move_def VGA_WIDTH_def VGA_HEIGHT_def)
qed

text \<open>\<open>scroll\<close> drops the first row, keeps the others in order and appends a blank row.\<close>

lemma scroll_eq:
  assumes "length (vga_buffer v) = 2000"
  shows "scroll v = Inr (v\<lparr>terminal_row := 24,
    vga_buffer := drop 80 (vga_buffer v) @ replicate 80 (vga_entry (CHR '' '') (terminal_color v))\<rparr>)"
proof -
  let ?b = "drop 80 (vga_buffer v) @ drop 1920 (vga_buffer v)" and ?e = "vga_entry (CHR '' '') (terminal_color v)"
  have "foldE (\<lambda>x b. put b (1920 + x) ?e) [0..<80] ?b = Inr (fold (\<lambda>x b. b[1920 + x := ?e]) [0..<80] ?b)"
    by (rule conjunct1 [OF foldE_total [where n = 2000]]) (use assms in auto)
  then show ?thesis
    using assms fill_loop [of 1920 80 ?b ?e]
    by (simp add: scroll_def scroll_move_eq VGA_WIDTH_def VGA_HEIGHT_def)
qed

lemma fill_rows:
  assumes "length b = 2000" "m \<le> 25"
  shows "fold (\<lambda>y. fold (\<lambda>x b. b[y * 80 + x := c]) [0..<80]) [0..<m] b =
         replicate (m * 80) c @ drop (m * 80) b"
  using assms(2)
proof (induction m)
  case (Suc m)
  let ?c = "replicate (m * 80) c @ drop (m * 80) b"
  have "fold (\<lambda>y. fold (\<lambda>x b. b[y * 80 + x := c]) [0..<80]) [0..<Suc m] b =
        fold (\<lambda>x b. b[m * 80 + x := c]) [0..<80] ?c"
    using Suc by simp
  also have "\<dots> = take (m * 80) ?c @ replicate 80 c @ drop (m * 80 + 80) ?c"
    using assms(1) Suc.prems by (intro fill_loop) auto
  also have "\<dots> = replicate (Suc m * 80) c @ drop (Suc m * 80) b"
    using assms(1) Suc.prems by (simp add: replicate_add add.commute [of 80])
  finally show ?case .
qed simp

lemma init_eq:
  assumes "length (vga_buffer v) = 2000"
  shows "init v = Inr (v\<lparr>terminal_row := 0, terminal_column := 0, terminal_color := vga_entry_color WHITE BLACK,
    vga_buffer := replicate 2000 (vga_entry (CHR '' '') (vga_entry_color WHITE BLACK))\<rparr>)"
proof -
  let ?e = "vga_entry (CHR '' '') (vga_entry_color WHITE BLACK)"
  have row: "foldE (\<lambda>x b. put b (y * 80 + x) ?e) [0..<80] b = Inr (fold (\<lambda>x b. b[y * 80 + x := ?e]) [0..<80] b) \<and>
      length (fold (\<lambda>x b. b[y * 80 + x := ?e]) [0..<80] b) = 2000"
    if "y < 25" "length b = 2000" for y b
    by (rule foldE_total) (use that in auto)
  have "foldE (\<lambda>y. foldE (\<lambda>x b. put b (y * 80 + x) ?e) [0..<80]) [0..<25] (vga_buffer v) =
      Inr (fold (\<lambda>y. fold (\<lambda>x b. b[y * 80 + x := ?e]) [0..<80]) [0..<25] (vga_buffer v))"
    by (rule conjunct1 [OF foldE_total]) (use row assms in auto)
  with fill_rows [OF assms, of 25 ?e] assms show ?thesis
    by (simp add: init_def Let_def VGA_WIDTH_def VGA_HEIGHT_def)
qed

section \<open>The cursor stays on the page\<close>

definition vga_inv :: "vga \<Rightarrow> bool" where
  "vga_inv v \<longleftrightarrow>
     terminal_row v < VGA_HEIGHT \<and> terminal_column v < VGA_WIDTH \<and> length (vga_buffer v) = 2000"

lemma vga_inv_init: "length (vga_buffer v) = 2000 \<Longrightarrow> \<exists>v'. init v = Inr v' \<and> vga_inv v'"
  by (simp add: init_eq vga_inv_def VGA_WIDTH_def VGA_HEIGHT_def)

lemma putchar_inv:
  assumes "vga_inv v"
  shows "\<exists>v'. putchar c v = Inr v' \<and> vga_inv v' \<and> terminal_color v' = terminal_color v"
proof -
  have i: "terminal_row v * 80 + terminal_column v < length (vga_buffer v)"
    using assms by (auto simp: vga_inv_def VGA_WIDTH_def VGA_HEIGHT_def)
  show ?thesis
    using assms i by (auto simp: putchar_def vga_inv_def VGA_WIDTH_def VGA_HEIGHT_def Let_def scroll_eq)
qed

lemma print_inv: "vga_inv v \<Longrightarrow> \<exists>v'. print s v = Inr v' \<and> vga_inv v'"
  unfolding print_def by (rule foldE_inv) (auto dest: putchar_inv)

lemma backspace_inv: "vga_inv v \<Longrightarrow> \<exists>v'. terminal_backspace v = Inr v' \<and> vga_inv v' \<and>
    terminal_color v' = terminal_color v"
  by (auto simp: terminal_backspace_def vga_inv_def VGA_WIDTH_def VGA_HEIGHT_def put_def Let_def)

lemma con_step_inv: "vga_inv v \<Longrightarrow> \<exists>v'. con_step e v = Inr v' \<and> vga_inv v'"
  by (cases e) (use putchar_inv print_inv backspace_inv vga_inv_init in
      \<open>fastforce simp: cls_def vga_inv_def\<close>)+

lemma con_run_inv: "vga_inv v \<Longrightarrow> \<exists>v'. con_run es v = Inr v' \<and> vga_inv v'"
  unfolding con_run_def by (rule foldE_inv) (auto dest: con_step_inv)

text \<open>
  Where a character does not end its row, a backspace after it puts the cursor back and blanks the
  cell in the console's colour.
\<close>

lemma backspace_after_putchar:
  assumes "vga_inv v" "c \<noteq> newline" "Suc (terminal_column v) < VGA_WIDTH"
  shows "bindE (putchar c v) terminal_backspace =
    Inr (v\<lparr>vga_buffer := (vga_buffer v)
           [terminal_row v * VGA_WIDTH + terminal_column v := vga_entry (CHR '' '') (terminal_color v)]\<rparr>)"
proof -
  let ?i = "terminal_row v * VGA_WIDTH + terminal_column v"
  have i: "?i < length (vga_buffer v)" and r: "\<not> VGA_HEIGHT \<le> terminal_row v"
    using assms by (auto simp: vga_inv_def VGA_WIDTH_def VGA_HEIGHT_def)
  have "putchar c v = Inr (v\<lparr>vga_buffer := (vga_buffer v)[?i := vga_entry c (vga_entry_color WHITE BLUE)],
                            terminal_column := terminal_column v + 1\<rparr>)"
    using assms i r by (simp add: putchar_def Let_def)
  then show ?thesis
    using i by (simp add: terminal_backspace_def Let_def)
qed

section \<open>Properties\<close>

text \<open>
  C14: no sequence of prints, clears and backspaces moves the cursor off the page, or reads or writes a cell
  outside it: the loops of \<open>scroll\<close> and \<open>init\<close> and the single writes, all checked against the page, never fault.
\<close>

theorem console_stays_on_page:
  assumes "vga_inv v"
  shows "\<exists>v'. con_run es v = Inr v' \<and> vga_inv v'"
  using assms by (rule con_run_inv)

definition blank_page :: vga where
  "blank_page = \<lparr>terminal_row = 24, terminal_column = 79, terminal_color = 15,
     vga_buffer = replicate 2000 0\<rparr>"

theorem console_stays_on_page_witness:
  "\<exists>v'. con_run [Print ''hi'', Putchar newline, Backspace, Cls] blank_page = Inr v' \<and> vga_inv v'"
  by (rule console_stays_on_page) (simp add: vga_inv_def blank_page_def VGA_WIDTH_def VGA_HEIGHT_def)

text \<open>
  Printing one character past the end of the page scrolls: every row moves up by one, the first
  row is lost, and the last row is blank in the console's colour.
\<close>

lemma last_cell_scrolls:
  assumes "vga_inv v" "terminal_row v = 24" "terminal_column v = 79" "c \<noteq> newline"
  shows "putchar c v = Inr (v\<lparr>terminal_row := 24, terminal_column := 0, vga_buffer :=
     drop 80 ((vga_buffer v)[1999 := vga_entry c (vga_entry_color WHITE BLUE)]) @
     replicate 80 (vga_entry (CHR '' '') (terminal_color v))\<rparr>)"
  using assms by (simp add: putchar_def vga_inv_def VGA_WIDTH_def VGA_HEIGHT_def Let_def scroll_eq)

lemma last_cell_scrolls_witness:
  "putchar (CHR ''x'') blank_page = Inr (blank_page\<lparr>terminal_row := 24, terminal_column := 0, vga_buffer :=
     drop 80 ((vga_buffer blank_page)[1999 := vga_entry (CHR ''x'') (vga_entry_color WHITE BLUE)]) @
     replicate 80 (vga_entry (CHR '' '') (terminal_color blank_page))\<rparr>)"
  by (rule last_cell_scrolls)
     (simp_all add: vga_inv_def blank_page_def VGA_WIDTH_def VGA_HEIGHT_def)

end
