(* ===== verification/WX_Syslog.thy ===== *)
theory WX_Syslog
  imports WX_Strings
begin

text \<open>
  The kernel log of \<open>Kernel.c\<close>: a circular array of 128 entries guarded by a canary.  A write that
  finds the ring full drops the oldest entry.  The contract of a ring that overwrites is the locale
  \<open>sliding_log\<close>; it is interpreted on \<open>sys_log_write\<close>.
\<close>

section \<open>State and operations\<close>

record log_entry =
  log_level :: u32
  timestamp :: u64
  message :: "char list"
  integrity_checksum :: u32

record sys_log_ring =
  entries :: "log_entry list"
  log_head :: u32
  log_tail :: u32
  log_count :: u32
  structures_canary :: u32

definition SYS_LOG_CAPACITY :: u32 where
  "SYS_LOG_CAPACITY = 128"

text \<open>
  \<open>sys_log_write\<close>; \<open>canary\<close> is \<open>g_global_canary\<close>, \<open>tick\<close> is \<open>g_tick_counter\<close>.  The entry is filled
  in place: level, time stamp, truncated message, then the checksum of the message argument.
\<close>

definition sys_log_write ::
    "u32 \<Rightarrow> u64 \<Rightarrow> u32 \<Rightarrow> char list \<Rightarrow> sys_log_ring \<Rightarrow> fault + sys_log_ring" where
  "sys_log_write canary tick level msg l =
     (if structures_canary l \<noteq> canary then Inl Cpu_halted
      else
        let l1 = (if SYS_LOG_CAPACITY \<le> log_count l
                  then l\<lparr>log_head := (log_head l + 1) mod SYS_LOG_CAPACITY, log_count := log_count l - 1\<rparr>
                  else l);
            i = unat (log_tail l1)
        in bindE (get (entries l1) i) (\<lambda>e.
           let e1 = e\<lparr>log_level := level, timestamp := tick\<rparr> in
           bindE (sys_safe_strncpy (Some (message e1)) (Some msg) 128) (\<lambda>m.
           let e2 = e1\<lparr>message := (case m of Some b \<Rightarrow> b | None \<Rightarrow> message e1)\<rparr> in
           bindE (sys_calculate_checksum msg 128) (\<lambda>h.
           bindE (put (entries l1) i (e2\<lparr>integrity_checksum := h\<rparr>)) (\<lambda>es.
           Inr (l1\<lparr>entries := es, log_tail := (log_tail l1 + 1) mod SYS_LOG_CAPACITY,
                   log_count := log_count l1 + 1\<rparr>))))))"

text \<open>
  The tamper check of \<open>cmd_sys_logs\<close>: recompute the checksum of each stored message, oldest first;
  \<open>Inr False\<close> is the mismatch on which the command panics.
\<close>

fun log_check_loop :: "nat \<Rightarrow> u32 \<Rightarrow> log_entry list \<Rightarrow> fault + bool" where
  "log_check_loop 0 current es = Inr True"
| "log_check_loop (Suc n) current es =
     bindE (get es (unat current)) (\<lambda>e.
     bindE (sys_calculate_checksum (message e) 128) (\<lambda>calculated.
       if calculated \<noteq> integrity_checksum e then Inr False
       else log_check_loop n ((current + 1) mod SYS_LOG_CAPACITY) es))"

definition log_check :: "sys_log_ring \<Rightarrow> fault + bool" where
  "log_check l = log_check_loop (unat (log_count l)) (log_head l) (entries l)"

section \<open>Invariant and contents\<close>

definition log_inv :: "sys_log_ring \<Rightarrow> bool" where
  "log_inv l \<longleftrightarrow>
     length (entries l) = 128 \<and> (\<forall>e \<in> set (entries l). length (message e) = 128) \<and>
     unat (log_head l) < 128 \<and> unat (log_count l) \<le> 128 \<and>
     unat (log_tail l) = (unat (log_head l) + unat (log_count l)) mod 128"

definition log_list :: "sys_log_ring \<Rightarrow> log_entry list" where
  "log_list l = ring_list (entries l) (unat (log_head l)) (unat (log_count l))"

text \<open>What a reader of the log sees of an entry.\<close>

definition entry_view :: "log_entry \<Rightarrow> u32 \<times> u64 \<times> string \<times> u32" where
  "entry_view e = (log_level e, timestamp e, cstr (message e), integrity_checksum e)"

definition log_view :: "sys_log_ring \<Rightarrow> (u32 \<times> u64 \<times> string \<times> u32) list" where
  "log_view l = map entry_view (log_list l)"

text \<open>What a write records: the message cut to 127 bytes, the checksum of up to 128.\<close>

definition recorded :: "u64 \<Rightarrow> u32 \<Rightarrow> string \<Rightarrow> u32 \<times> u64 \<times> string \<times> u32" where
  "recorded tick level s = (level, tick, take 127 s, djb2 (take 128 s))"

section \<open>The contract of a ring that overwrites its oldest entry\<close>

locale sliding_log =
  fixes inv :: "'s \<Rightarrow> bool"
    and view :: "'s \<Rightarrow> 'v list"
    and push :: "'x \<Rightarrow> 's \<Rightarrow> 'e + 's"
    and rec :: "'x \<Rightarrow> 'v"
    and ok :: "'x \<Rightarrow> bool"
    and cap :: nat
  assumes cap_pos: "0 < cap"
    and view_bound: "inv s \<Longrightarrow> length (view s) \<le> cap"
    and push_ok: "inv s \<Longrightarrow> ok x \<Longrightarrow> \<exists>s'. push x s = Inr s' \<and> inv s' \<and>
          view s' = (if length (view s) < cap then view s else tl (view s)) @ [rec x]"
begin

lemma window_step:
  assumes "length v \<le> cap"
  shows "(if length v < cap then v else tl v) @ [y] = drop (length (v @ [y]) - cap) (v @ [y])"
  using assms cap_pos by (cases v) (auto simp: Suc_diff_le drop_Suc)

text \<open>A sequence of writes leaves the last \<open>cap\<close> entries of the old contents and the new ones.\<close>

lemma push_window:
  "inv s \<Longrightarrow> list_all ok xs \<Longrightarrow> \<exists>s'. foldE push xs s = Inr s' \<and> inv s' \<and>
     view s' = drop (length (view s @ map rec xs) - cap) (view s @ map rec xs)"
proof (induction xs arbitrary: s)
  case Nil
  then show ?case using view_bound [of s] by simp
next
  case (Cons x xs)
  from push_ok [OF Cons.prems(1), of x] Cons.prems(2) obtain u where
    u: "push x s = Inr u" "inv u"
      "view u = (if length (view s) < cap then view s else tl (view s)) @ [rec x]" by auto
  then have vu: "view u = drop (length (view s @ [rec x]) - cap) (view s @ [rec x])"
    using window_step [OF view_bound [OF Cons.prems(1)]] by simp
  from Cons.IH [OF u(2)] Cons.prems(2) obtain s' where
    s': "foldE push xs u = Inr s'" "inv s'"
      "view s' = drop (length (view u @ map rec xs) - cap) (view u @ map rec xs)" by auto
  have "length (view s) \<le> cap" by (rule view_bound [OF Cons.prems(1)])
  then have "view s' = drop (length (view s @ map rec (x # xs)) - cap) (view s @ map rec (x # xs))"
    using s'(3) vu cap_pos by (cases "length (view s) = cap") (auto simp: drop_Suc Suc_diff_le)
  with s' u show ?case by auto
qed

end

section \<open>\<open>sys_log_write\<close> keeps the contract\<close>

lemma unat_128 [simp]: "unat SYS_LOG_CAPACITY = 128"
  by (simp add: SYS_LOG_CAPACITY_def)

lemma unat_ring_succ:
  assumes "unat (a :: u32) < 128"
  shows "unat ((a + 1) mod SYS_LOG_CAPACITY) = Suc (unat a) mod 128"
proof -
  have "unat (a + 1) = Suc (unat a)"
    using assms by (intro unat_inc [where b = 128]) simp
  then show ?thesis by (simp add: unat_mod)
qed

text \<open>The entry a write stores.\<close>

definition log_made :: "u64 \<Rightarrow> u32 \<Rightarrow> char list \<Rightarrow> log_entry \<Rightarrow> log_entry" where
  "log_made tick level msg e =
     e\<lparr>log_level := level, timestamp := tick,
       message := take 127 (cstr msg) @ NUL # drop (Suc (length (take 127 (cstr msg)))) (message e),
       integrity_checksum := djb2 (take 128 (cstr msg))\<rparr>"

lemma log_made_view: "entry_view (log_made tick level msg e) = recorded tick level (cstr msg)"
  by (simp add: log_made_def entry_view_def recorded_def)

lemma log_made_length: "length (message e) = 128 \<Longrightarrow> length (message (log_made tick level msg e)) = 128"
  by (simp add: log_made_def min_def)

text \<open>The ring after making room for one entry.\<close>

definition log_room :: "sys_log_ring \<Rightarrow> sys_log_ring" where
  "log_room l = (if SYS_LOG_CAPACITY \<le> log_count l
     then l\<lparr>log_head := (log_head l + 1) mod SYS_LOG_CAPACITY, log_count := log_count l - 1\<rparr> else l)"

lemma log_room_inv:
  assumes "log_inv l"
  shows "log_inv (log_room l)" "unat (log_count (log_room l)) < 128"
    and "log_list (log_room l) = (if length (log_list l) < 128 then log_list l else tl (log_list l))"
proof -
  have "log_inv (log_room l) \<and> unat (log_count (log_room l)) < 128 \<and>
    log_list (log_room l) = (if length (log_list l) < 128 then log_list l else tl (log_list l))"
  proof (cases "SYS_LOG_CAPACITY \<le> log_count l")
    case True
    then have c: "unat (log_count l) = 128"
      using assms by (simp add: log_inv_def word_le_nat_alt)
    then have d: "unat (log_count l - 1) = 127" by (simp add: unat_dec)
    have h: "unat (log_head l) < 128" "length (entries l) = 128" using assms by (auto simp: log_inv_def)
    have "(Suc (unat (log_head l)) mod 128 + 127) mod 128 = (unat (log_head l) + 128) mod 128"
      by (simp add: mod_add_left_eq)
    then show ?thesis
      using True assms c d h ring_list_deq [of 128 "entries l" "unat (log_head l)"]
      by (simp add: log_room_def log_inv_def unat_ring_succ log_list_def)
  next
    case False
    then have "unat (log_count l) < 128" by (simp add: word_le_nat_alt)
    with False assms show ?thesis by (simp add: log_room_def log_list_def)
  qed
  then show "log_inv (log_room l)" "unat (log_count (log_room l)) < 128"
    "log_list (log_room l) = (if length (log_list l) < 128 then log_list l else tl (log_list l))"
    by auto
qed

lemma log_room_canary [simp]: "structures_canary (log_room l) = structures_canary l"
  by (simp add: log_room_def)

lemma sys_log_write_eq:
  assumes "log_inv l" "structures_canary l = canary" "terminated msg"
  shows "sys_log_write canary tick level msg l =
    (let r = log_room l; i = unat (log_tail r) in
     Inr (r\<lparr>entries := (entries r)[i := log_made tick level msg (entries r ! i)],
            log_tail := (log_tail r + 1) mod SYS_LOG_CAPACITY, log_count := log_count r + 1\<rparr>))"
proof -
  let ?r = "log_room l"
  have i: "unat (log_tail ?r) < length (entries ?r)"
    using log_room_inv(1) [OF assms(1)] by (simp add: log_inv_def)
  then have m: "length (message (entries ?r ! unat (log_tail ?r))) = 128"
    using log_room_inv(1) [OF assms(1)] by (simp add: log_inv_def)
  have "sys_log_write canary tick level msg l =
    bindE (get (entries ?r) (unat (log_tail ?r))) (\<lambda>e.
           let e1 = e\<lparr>log_level := level, timestamp := tick\<rparr> in
           bindE (sys_safe_strncpy (Some (message e1)) (Some msg) 128) (\<lambda>m.
           let e2 = e1\<lparr>message := (case m of Some b \<Rightarrow> b | None \<Rightarrow> message e1)\<rparr> in
           bindE (sys_calculate_checksum msg 128) (\<lambda>h.
           bindE (put (entries ?r) (unat (log_tail ?r)) (e2\<lparr>integrity_checksum := h\<rparr>)) (\<lambda>es.
           Inr (?r\<lparr>entries := es, log_tail := (log_tail ?r + 1) mod SYS_LOG_CAPACITY,
                   log_count := log_count ?r + 1\<rparr>)))))"
    using assms(2) by (simp add: sys_log_write_def log_room_def Let_def)
  then show ?thesis
    using i m assms(3)
    by (simp add: sys_safe_strncpy_eq sys_calculate_checksum_eq Let_def log_made_def)
qed

lemma sys_log_write_step:
  assumes "log_inv l" "structures_canary l = canary" "terminated msg"
  obtains l' e where "sys_log_write canary tick level msg l = Inr l'" "log_inv l'"
    "structures_canary l' = canary" "length (message e) = 128"
    "log_list l' = (if length (log_list l) < 128 then log_list l else tl (log_list l)) @
       [log_made tick level msg e]"
proof -
  let ?r = "log_room l"
  let ?i = "unat (log_tail ?r)"
  let ?e = "log_made tick level msg (entries ?r ! ?i)"
  let ?l = "?r\<lparr>entries := (entries ?r)[?i := ?e],
            log_tail := (log_tail ?r + 1) mod SYS_LOG_CAPACITY, log_count := log_count ?r + 1\<rparr>"
  note r = log_room_inv [OF assms(1)]
  have ri: "length (entries ?r) = 128" "?i = (unat (log_head ?r) + unat (log_count ?r)) mod 128"
    "unat (log_head ?r) < 128" "?i < 128" "length (message (entries ?r ! ?i)) = 128"
    using r(1) by (auto simp: log_inv_def)
  have c: "unat (log_count ?r + 1) = Suc (unat (log_count ?r))"
    using r(2) by (intro unat_inc [where b = 128]) simp
  have "log_inv ?l"
    using r(1,2) ri c log_made_length [OF ri(5)]
    by (auto simp: log_inv_def unat_ring_succ mod_Suc_eq dest: set_update_subset_insert [THEN subsetD])
  moreover have "log_list ?l =
      (if length (log_list l) < 128 then log_list l else tl (log_list l)) @ [?e]"
    using ring_list_enq [of "unat (log_count ?r)" "entries ?r" "unat (log_head ?r)" ?e] r(2) ri c
    unfolding r(3) [symmetric] by (simp add: log_list_def)
  moreover have "structures_canary ?l = canary" using assms(2) by simp
  ultimately show thesis
    using that sys_log_write_eq [OF assms, of tick level] ri(5) by (simp add: Let_def)
qed

lemma sys_log_write_view:
  assumes "log_inv l" "structures_canary l = canary" "terminated msg"
  shows "\<exists>l'. sys_log_write canary tick level msg l = Inr l' \<and> log_inv l' \<and>
    structures_canary l' = canary \<and>
    log_view l' = (if length (log_view l) < 128 then log_view l else tl (log_view l)) @
       [recorded tick level (cstr msg)]"
proof (rule sys_log_write_step [OF assms, of tick level])
  fix l' e
  assume l': "sys_log_write canary tick level msg l = Inr l'" "log_inv l'"
    "structures_canary l' = canary"
    and "log_list l' = (if length (log_list l) < 128 then log_list l else tl (log_list l)) @
       [log_made tick level msg e]"
  then have "log_view l' = (if length (log_view l) < 128 then log_view l else tl (log_view l)) @
       [recorded tick level (cstr msg)]"
    by (simp add: log_view_def log_made_view map_tl)
  with l' show ?thesis by blast
qed

text \<open>The calls made with one canary, as a sequence.\<close>

definition log_writes ::
    "u32 \<Rightarrow> (u64 \<times> u32 \<times> char list) list \<Rightarrow> sys_log_ring \<Rightarrow> fault + sys_log_ring" where
  "log_writes canary = foldE (\<lambda>(tick, level, msg). sys_log_write canary tick level msg)"

interpretation slog: sliding_log
  "\<lambda>l. log_inv l \<and> structures_canary l = canary" log_view
  "\<lambda>(tick, level, msg). sys_log_write canary tick level msg"
  "\<lambda>(tick, level, msg). recorded tick level (cstr msg)"
  "\<lambda>(tick, level, msg). terminated msg" 128
  for canary :: u32
proof unfold_locales
  fix l and x :: "u64 \<times> u32 \<times> char list"
  assume l: "log_inv l \<and> structures_canary l = canary" and
    x: "case x of (tick, level, msg) \<Rightarrow> terminated msg"
  obtain tick level msg where "x = (tick, level, msg)" by (metis prod_cases3)
  with l x show "\<exists>l'. (case x of (tick, level, msg) \<Rightarrow> sys_log_write canary tick level msg) l = Inr l' \<and>
       (log_inv l' \<and> structures_canary l' = canary) \<and>
       log_view l' = (if length (log_view l) < 128 then log_view l else tl (log_view l)) @
         [case x of (tick, level, msg) \<Rightarrow> recorded tick level (cstr msg)]"
    using sys_log_write_view [of l canary msg tick level] by simp
qed (auto simp: log_view_def log_list_def log_inv_def)

section \<open>The tamper check\<close>

text \<open>A sound entry is terminated and its checksum is the one of the message it stores.\<close>

definition sound_entry :: "log_entry \<Rightarrow> bool" where
  "sound_entry e \<longleftrightarrow> terminated (message e) \<and> length (cstr (message e)) < 128 \<and>
     integrity_checksum e = djb2 (cstr (message e))"

definition log_sound :: "sys_log_ring \<Rightarrow> bool" where
  "log_sound l \<longleftrightarrow> log_inv l \<and> list_all sound_entry (log_list l)"

lemma log_check_loop_eq:
  assumes "length es = 128" "unat current < 128" "n \<le> 128"
    "list_all (\<lambda>e. terminated (message e) \<and> length (cstr (message e)) < 128)
       (ring_list es (unat current) n)"
  shows "log_check_loop n current es =
    Inr (list_all (\<lambda>e. integrity_checksum e = djb2 (cstr (message e))) (ring_list es (unat current) n))"
  using assms
proof (induction n arbitrary: current)
  case (Suc n)
  let ?r = "ring_list es (unat current) (Suc n)"
  have hd: "hd ?r = es ! unat current" using Suc.prems by (simp add: ring_list_hd)
  have tl: "tl ?r = ring_list es (unat ((current + 1) mod SYS_LOG_CAPACITY)) n"
    using ring_list_deq [of "Suc n" es "unat current"] Suc.prems by (simp add: unat_ring_succ)
  have r: "?r = es ! unat current # ring_list es (unat ((current + 1) mod SYS_LOG_CAPACITY)) n"
    using hd tl by (metis length_ring_list list.collapse list.size(3) nat.distinct(1))
  have "unat ((current + 1) mod SYS_LOG_CAPACITY) < 128"
    using Suc.prems(2) by (simp add: unat_ring_succ)
  then have "log_check_loop n ((current + 1) mod SYS_LOG_CAPACITY) es =
    Inr (list_all (\<lambda>e. integrity_checksum e = djb2 (cstr (message e)))
          (ring_list es (unat ((current + 1) mod SYS_LOG_CAPACITY)) n))"
    using Suc.prems r by (intro Suc.IH) auto
  with Suc.prems r show ?case by (auto simp: sys_calculate_checksum_eq)
qed simp

lemma log_check_sound:
  assumes "log_sound l"
  shows "log_check l = Inr True"
proof -
  have "list_all (\<lambda>e. terminated (message e) \<and> length (cstr (message e)) < 128) (log_list l)"
    "list_all (\<lambda>e. integrity_checksum e = djb2 (cstr (message e))) (log_list l)"
    using assms by (auto simp: log_sound_def sound_entry_def list_all_iff)
  then show ?thesis
    using assms log_check_loop_eq [of "entries l" "log_head l" "unat (log_count l)"]
    by (simp add: log_check_def log_sound_def log_inv_def log_list_def)
qed

text \<open>A message shorter than 128 bytes keeps the log sound.\<close>

lemma sound_made:
  assumes "length (cstr msg) < 128"
  shows "sound_entry (log_made tick level msg e)"
  using assms by (simp add: sound_entry_def log_made_def)

lemma sys_log_write_sound:
  assumes "log_sound l" "structures_canary l = canary" "terminated msg" "length (cstr msg) < 128"
  obtains l' where "sys_log_write canary tick level msg l = Inr l'" "log_sound l'"
    "structures_canary l' = canary"
proof -
  from assms(1) have inv: "log_inv l" by (simp add: log_sound_def)
  from sys_log_write_step [OF inv assms(2,3), of tick level] obtain l' e where
    l': "sys_log_write canary tick level msg l = Inr l'" "log_inv l'" "structures_canary l' = canary"
      "log_list l' = (if length (log_list l) < 128 then log_list l else tl (log_list l)) @
         [log_made tick level msg e]" by metis
  have "list_all sound_entry (log_list l')"
    using assms(1) sound_made [OF assms(4)] unfolding l'(4)
    by (cases "log_list l") (auto simp: log_sound_def)
  then show thesis using that l' by (simp add: log_sound_def)
qed

section \<open>Properties\<close>

definition blank_entry :: log_entry where
  "blank_entry = \<lparr>log_level = 0, timestamp = 0, message = replicate 128 NUL, integrity_checksum = 0\<rparr>"

definition zero_log :: "u32 \<Rightarrow> sys_log_ring" where
  "zero_log canary = \<lparr>entries = replicate 128 blank_entry, log_head = 0, log_tail = 0, log_count = 0,
     structures_canary = canary\<rparr>"

lemma zero_log_sound: "log_sound (zero_log c)" "structures_canary (zero_log c) = c"
    "log_view (zero_log c) = []"
  by (simp_all add: log_sound_def log_inv_def zero_log_def log_list_def blank_entry_def log_view_def)

text \<open>Messages shorter than 128 bytes keep the log sound, however often the ring wraps.\<close>

lemma log_writes_sound:
  assumes "log_sound l" "structures_canary l = canary"
    and "\<forall>(tick, level, msg) \<in> set ws. terminated msg \<and> length (cstr msg) < 128"
  shows "\<exists>l'. log_writes canary ws l = Inr l' \<and> log_sound l' \<and> structures_canary l' = canary"
  unfolding log_writes_def
proof (rule foldE_inv)
  fix s and x :: "u64 \<times> u32 \<times> char list"
  assume s: "log_sound s \<and> structures_canary s = canary" and x: "x \<in> set ws"
  obtain tick level msg where "x = (tick, level, msg)" by (metis prod_cases3)
  with s x assms(3) show "\<exists>s'. (case x of (tick, level, msg) \<Rightarrow> sys_log_write canary tick level msg) s
      = Inr s' \<and> log_sound s' \<and> structures_canary s' = canary"
    by (auto elim: sys_log_write_sound [of s canary msg tick level])
qed (use assms in simp)

lemma log_check_accepts_short_messages:
  assumes "log_sound l" "structures_canary l = canary"
    and "\<forall>(tick, level, msg) \<in> set ws. terminated msg \<and> length (cstr msg) < 128"
  shows "\<exists>l'. log_writes canary ws l = Inr l' \<and> log_check l' = Inr True"
  using log_writes_sound [OF assms] log_check_sound by blast

lemma log_check_accepts_short_messages_witness:
  "\<exists>l'. log_writes 7 (replicate 200 (1, 0, lit ''TICK'')) (zero_log 7) = Inr l' \<and> log_check l' = Inr True"
  by (rule log_check_accepts_short_messages) (auto simp: zero_log_sound lit_def)

text \<open>
  C13: any sequence of writes through the right canary succeeds and leaves the log holding the last
  128 records of its old contents followed by the new ones, in order, each with its level, time
  stamp, the message cut to 127 bytes and the checksum of its first 128 bytes; a log that was sound and
  received only messages shorter than 128 bytes passes its tamper check (a longer message need not).
\<close>

theorem log_keeps_last_128:
  assumes "log_inv l" "structures_canary l = canary"
    and "\<forall>(tick, level, msg) \<in> set ws. terminated msg"
  shows "\<exists>l'. log_writes canary ws l = Inr l' \<and> log_inv l' \<and> structures_canary l' = canary \<and>
    log_view l' =
      (let all = log_view l @ map (\<lambda>(tick, level, msg). recorded tick level (cstr msg)) ws
       in drop (length all - 128) all) \<and>
    (log_sound l \<and> (\<forall>(tick, level, msg) \<in> set ws. length (cstr msg) < 128) \<longrightarrow> log_check l' = Inr True)"
proof -
  have ws: "list_all (\<lambda>(tick, level, msg). terminated msg) ws"
    using assms(3) by (auto simp: list_all_iff)
  from slog.push_window [OF conjI [OF assms(1,2)] ws] obtain l' where
    l': "log_writes canary ws l = Inr l'" "log_inv l'" "structures_canary l' = canary"
      "log_view l' = (let all = log_view l @ map (\<lambda>(tick, level, msg). recorded tick level (cstr msg)) ws
         in drop (length all - 128) all)" by (auto simp: log_writes_def Let_def)
  have "log_check l' = Inr True"
    if "log_sound l" "\<forall>(tick, level, msg) \<in> set ws. length (cstr msg) < 128"
    using log_check_accepts_short_messages [OF that(1) assms(2), of ws] assms(3) that(2) l'(1) by fastforce
  with l' show ?thesis by blast
qed

theorem log_keeps_last_128_witness:
  "\<exists>l'. log_writes 7 [(1, 0, lit ''BOOT''), (2, 1, lit ''LOGIN'')] (zero_log 7) = Inr l' \<and>
     log_view l' = [recorded 1 0 ''BOOT'', recorded 2 1 ''LOGIN''] \<and> log_check l' = Inr True"
proof -
  have "log_inv (zero_log 7)" using zero_log_sound(1) by (simp add: log_sound_def)
  from log_keeps_last_128 [OF this zero_log_sound(2), of "[(1, 0, lit ''BOOT''), (2, 1, lit ''LOGIN'')]"]
  show ?thesis by (auto simp: zero_log_sound)
qed

text \<open>
  A message of 128 bytes or more is stored cut to 127 bytes under the checksum of its first 128,
  so the log the kernel itself wrote fails its own tamper check (\<open>cmd_sys_logs\<close> then panics), unless
  the two checksums happen to coincide.
\<close>

lemma log_check_rejects_long_message:
  assumes "log_sound l" "structures_canary l = canary" "terminated msg" "128 \<le> length (cstr msg)"
    and "djb2 (take 127 (cstr msg)) \<noteq> djb2 (take 128 (cstr msg))"
  shows "\<exists>l'. sys_log_write canary tick level msg l = Inr l' \<and> log_check l' = Inr False"
proof -
  from assms(1) have inv: "log_inv l" by (simp add: log_sound_def)
  let ?m = "log_made tick level msg"
  from sys_log_write_step [OF inv assms(2,3), of tick level] obtain l' e where
    l': "sys_log_write canary tick level msg l = Inr l'" "log_inv l'" "length (message e) = 128"
      "log_list l' = (if length (log_list l) < 128 then log_list l else tl (log_list l)) @ [?m e]"
    by metis
  have e: "terminated (message (?m e))" "cstr (message (?m e)) = take 127 (cstr msg)"
    "integrity_checksum (?m e) = djb2 (take 128 (cstr msg))"
    by (simp_all add: log_made_def)
  have old: "list_all (\<lambda>e. terminated (message e) \<and> length (cstr (message e)) < 128) (log_list l)"
    using assms(1) by (auto simp: log_sound_def sound_entry_def list_all_iff)
  then have "list_all (\<lambda>e. terminated (message e) \<and> length (cstr (message e)) < 128) (log_list l')"
    using e unfolding l'(4) by (cases "log_list l") auto
  then have "log_check l' =
    Inr (list_all (\<lambda>e. integrity_checksum e = djb2 (cstr (message e))) (log_list l'))"
    using l'(2) log_check_loop_eq [of "entries l'" "log_head l'" "unat (log_count l')"]
    by (simp add: log_check_def log_inv_def log_list_def)
  moreover have "\<not> list_all (\<lambda>e. integrity_checksum e = djb2 (cstr (message e))) (log_list l')"
    using e assms(5) unfolding l'(4) by auto
  ultimately show ?thesis using l'(1) by simp
qed

lemma djb2_128_A: "djb2 (replicate 127 (CHR ''A'')) \<noteq> djb2 (replicate 128 (CHR ''A''))"
  by code_simp

lemma log_check_rejects_long_message_witness:
  "\<exists>l'. sys_log_write 7 1 0 (lit (replicate 128 (CHR ''A''))) (zero_log 7) = Inr l' \<and>
     log_check l' = Inr False"
proof -
  have n: "nul_free (replicate 128 (CHR ''A''))" by (simp add: nul_free_def)
  show ?thesis
    by (rule log_check_rejects_long_message) (use zero_log_sound djb2_128_A n in auto)
qed

end
