(* ===== verification/WX_Hex.thy ===== *)
theory WX_Hex
  imports WX_Vga
begin

text \<open>
  Hexadecimal output: \<open>to_hex\<close> and \<open>hexdump\<close> of \<open>hexdump.h\<close>, \<open>print_hex_32\<close> of \<open>bot.h\<close>, and the
  time-of-day conversions of \<open>clk.h\<close> and \<open>clock.h\<close>.
\<close>

section \<open>Eight hexadecimal digits\<close>

definition hex_digit :: "u32 \<Rightarrow> char" where
  "hex_digit d = ''0123456789ABCDEF'' ! unat (d AND 0xF)"

text \<open>\<open>to_hex\<close>: for \<open>i\<close> from 7 down to 0, cell \<open>i + 2\<close> takes the digit at bit \<open>(7 - i) * 4\<close>.\<close>

fun to_hex_loop :: "nat \<Rightarrow> u32 \<Rightarrow> char list \<Rightarrow> fault + char list" where
  "to_hex_loop 0 n buf = Inr buf"
| "to_hex_loop (Suc i) n buf =
     bindE (put buf (i + 2) (hex_digit (drop_bit ((7 - i) * 4) n))) (to_hex_loop i n)"

definition to_hex :: "u32 \<Rightarrow> char list \<Rightarrow> fault + char list" where
  "to_hex n buf =
     bindE (put buf 0 (CHR ''0'')) (\<lambda>b. bindE (put b 1 (CHR ''x'')) (\<lambda>b.
     bindE (to_hex_loop 8 n b) (\<lambda>b. put b 10 NUL)))"

text \<open>\<open>print_hex_32\<close>: the same digits, shifting the value right by four bits in each turn.\<close>

fun hex32_loop :: "nat \<Rightarrow> u32 \<Rightarrow> char list \<Rightarrow> fault + char list" where
  "hex32_loop 0 val buf = Inr buf"
| "hex32_loop (Suc i) val buf = bindE (put buf i (hex_digit val)) (hex32_loop i (drop_bit 4 val))"

definition print_hex_32 :: "u32 \<Rightarrow> char list \<Rightarrow> fault + con list" where
  "print_hex_32 val buf =
     bindE (hex32_loop 8 val buf) (\<lambda>b. bindE (put b 8 NUL) (\<lambda>b.
     Inr [Print ''0x'', Print (cstr b)]))"

text \<open>The digits of a 32-bit value, most significant first.\<close>

definition hex_str :: "u32 \<Rightarrow> string" where
  "hex_str n = map (\<lambda>k. hex_digit (drop_bit ((7 - k) * 4) n)) [0..<8]"

lemma length_hex_str [simp]: "length (hex_str n) = 8"
  by (simp add: hex_str_def)

lemma hex_digit_index: "unat ((d :: u32) AND 0xF) < 16"
proof -
  have "d AND 0xF \<le> 0xF" by (rule word_and_le1)
  then show ?thesis by (simp add: word_le_nat_alt)
qed

lemma hex_digit_not_NUL [simp]: "hex_digit d \<noteq> NUL"
proof -
  have "\<forall>c \<in> set ''0123456789ABCDEF''. c \<noteq> NUL" by simp
  moreover have "hex_digit d \<in> set ''0123456789ABCDEF''"
    unfolding hex_digit_def using hex_digit_index [of d] by (intro nth_mem) simp
  ultimately show ?thesis by blast
qed

lemma hex_str_unfold:
  "hex_str n = [hex_digit (drop_bit 28 n), hex_digit (drop_bit 24 n), hex_digit (drop_bit 20 n),
     hex_digit (drop_bit 16 n), hex_digit (drop_bit 12 n), hex_digit (drop_bit 8 n),
     hex_digit (drop_bit 4 n), hex_digit n]"
  by (simp add: hex_str_def upt_rec)

lemma nul_free_hex_str [simp]: "nul_free (hex_str n)"
  by (simp add: nul_free_def hex_str_unfold hex_digit_not_NUL [THEN not_sym])

lemma to_hex_eq:
  assumes "length buf = 11"
  shows "to_hex n buf = Inr (''0x'' @ hex_str n @ [NUL])"
proof -
  obtain b0 b1 b2 b3 b4 b5 b6 b7 b8 b9 b10 where
    "buf = [b0, b1, b2, b3, b4, b5, b6, b7, b8, b9, b10]"
    using assms by (auto simp: length_Suc_conv eval_nat_numeral)
  then show ?thesis by (simp add: to_hex_def hex_str_unfold eval_nat_numeral)
qed

lemma print_hex_32_eq:
  assumes "length buf = 9"
  shows "print_hex_32 val buf = Inr [Print ''0x'', Print (hex_str val)]"
proof -
  obtain b0 b1 b2 b3 b4 b5 b6 b7 b8 where "buf = [b0, b1, b2, b3, b4, b5, b6, b7, b8]"
    using assms by (auto simp: length_Suc_conv eval_nat_numeral)
  then show ?thesis by (simp add: print_hex_32_def hex_str_unfold eval_nat_numeral)
qed

section \<open>Reading the digits back\<close>

definition hex_val :: "char \<Rightarrow> u32" where
  "hex_val c = (if 65 \<le> char_int c then word_of_int (char_int c - 55) else word_of_int (char_int c - 48))"

lemma hex_val_digit: "hex_val (hex_digit d) = d AND 0xF"
proof -
  have "\<forall>i \<in> {..<16}. hex_val (''0123456789ABCDEF'' ! i) = of_nat i"
    by code_simp
  then have "hex_val (hex_digit d) = of_nat (unat (d AND 0xF))"
    unfolding hex_digit_def using hex_digit_index [of d] by blast
  then show ?thesis by simp
qed

lemma nibble_step: "16 * drop_bit (4 + k) n + (drop_bit k n AND 0xF) = drop_bit k (n :: u32)"
proof -
  have m: "(15 :: u32) = mask 4" by (simp add: mask_eq_exp_minus_1)
  have "16 * drop_bit (4 + k) n = push_bit 4 (drop_bit 4 (drop_bit k n))"
    by (simp add: push_bit_eq_mult)
  moreover have "drop_bit k n AND 15 = take_bit 4 (drop_bit k n)"
    by (simp add: m take_bit_eq_mask)
  ultimately show ?thesis using bits_ident [of 4 "drop_bit k n"] by (simp only:)
qed

lemma hex_str_value: "foldl (\<lambda>a c. 16 * a + hex_val c) 0 (hex_str n) = n"
proof -
  have top: "drop_bit 28 n AND 15 = drop_bit 28 n"
  proof -
    have "drop_bit 32 n = 0" by (rule bit_word_eqI) (auto simp: bit_drop_bit_eq dest: bit_imp_le_length)
    then show ?thesis using nibble_step [of 28 n] by simp
  qed
  show ?thesis
    using nibble_step [of 24 n] nibble_step [of 20 n] nibble_step [of 16 n] nibble_step [of 12 n]
      nibble_step [of 8 n] nibble_step [of 4 n] nibble_step [of 0 n]
    by (simp add: hex_str_unfold hex_val_digit top)
qed

section \<open>hexdump\<close>

text \<open>\<open>hexdump\<close> prints the registers \<open>eax\<close>, \<open>ebx\<close> and \<open>esp\<close> as the CPU holds them when it runs.\<close>

definition ln :: "string \<Rightarrow> string" where
  "ln s = s @ [newline]"

definition hexdump :: "u32 \<Rightarrow> u32 \<Rightarrow> u32 \<Rightarrow> char list \<Rightarrow> fault + con list" where
  "hexdump eax ebx esp hex_buf =
     bindE (to_hex eax hex_buf) (\<lambda>b1. bindE (to_hex ebx b1) (\<lambda>b2. bindE (to_hex esp b2) (\<lambda>b3.
     Inr [Print (newline # ln ''--- HEXDUMP ---''),
          Print ''EAX: '', Print (cstr b1), Print (ln []),
          Print ''EBX: '', Print (cstr b2), Print (ln []),
          Print ''ESP: '', Print (cstr b3), Print (newline # ln ''--------------------'')])))"

lemma hexdump_ok:
  assumes "length buf = 11"
  shows "\<exists>out. hexdump eax ebx esp buf = Inr out \<and>
    con_text out = newline # ln ''--- HEXDUMP ---'' @ ''EAX: 0x'' @ ln (hex_str eax) @
      ''EBX: 0x'' @ ln (hex_str ebx) @ ''ESP: 0x'' @ hex_str esp @ newline # ln ''--------------------''"
  using assms by (simp add: hexdump_def to_hex_eq ln_def)

section \<open>Clock conversions\<close>

definition bcd_to_bin :: "u8 \<Rightarrow> u8" where
  "bcd_to_bin val = (val AND 0x0F) + (val div 16) * 10"

text \<open>\<open>itoa\<close> of \<open>clk.h\<close>: two decimal digits and a NUL.\<close>

definition itoa :: "nat \<Rightarrow> char list" where
  "itoa n = [digit (n div 10), digit (n mod 10), NUL]"

lemma bcd_to_bin_digits:
  "\<forall>t \<in> {..<10}. \<forall>u \<in> {..<10}. bcd_to_bin (of_nat (16 * t + u)) = of_nat (10 * t + u)"
  by code_simp

text \<open>The wall clock of \<open>clk.h\<close> and one timer interrupt.\<close>

record wall_clock =
  ticks :: u32
  seconds :: nat
  minutes :: nat
  hours :: nat

definition boot_clock :: wall_clock where
  "boot_clock = \<lparr>ticks = 0, seconds = 0, minutes = 0, hours = 12\<rparr>"

definition timer_handler :: "wall_clock \<Rightarrow> wall_clock \<times> con list" where
  "timer_handler c =
     (let c = c\<lparr>ticks := ticks c + 1\<rparr> in
      if ticks c mod 100 = 0 then
        let c = c\<lparr>seconds := seconds c + 1\<rparr>;
            c = (if 60 \<le> seconds c then
                   let c = c\<lparr>seconds := 0, minutes := minutes c + 1\<rparr>
                   in if 60 \<le> minutes c then
                        let c = c\<lparr>minutes := 0, hours := hours c + 1\<rparr>
                        in if 24 \<le> hours c then c\<lparr>hours := 0\<rparr> else c
                      else c
                 else c)
        in (c, [Cls, Print (carriage_return # ''World Clock: ''), Print (cstr (itoa (hours c))),
                Print '':'', Print (cstr (itoa (minutes c))), Print '':'', Print (cstr (itoa (seconds c)))])
      else (c, []))"

definition clock_inv :: "wall_clock \<Rightarrow> bool" where
  "clock_inv c \<longleftrightarrow> seconds c < 60 \<and> minutes c < 60 \<and> hours c < 24"

text \<open>The time of day in seconds.\<close>

definition day_seconds :: "wall_clock \<Rightarrow> nat" where
  "day_seconds c = hours c * 3600 + minutes c * 60 + seconds c"

lemma timer_handler_clock:
  assumes "clock_inv c"
  shows "clock_inv (fst (timer_handler c)) \<and> ticks (fst (timer_handler c)) = ticks c + 1 \<and>
    day_seconds (fst (timer_handler c)) =
      (if (ticks c + 1) mod 100 = 0 then (day_seconds c + 1) mod 86400 else day_seconds c)"
proof (cases "(ticks c + 1) mod 100 = 0")
  case True
  consider "seconds c < 59" | "seconds c = 59" "minutes c < 59"
    | "seconds c = 59" "minutes c = 59" "hours c < 23"
    | "seconds c = 59" "minutes c = 59" "hours c = 23"
    using assms by (fastforce simp: clock_inv_def)
  then show ?thesis
    by cases (use True assms in \<open>auto simp: timer_handler_def clock_inv_def day_seconds_def Let_def\<close>)
next
  case False
  then show ?thesis using assms
    by (simp add: timer_handler_def clock_inv_def day_seconds_def Let_def)
qed

section \<open>Properties\<close>

text \<open>
  \<open>to_hex\<close> and \<open>print_hex_32\<close> write the same eight digits, and the digits of any 32-bit value
  read back as that value.
\<close>

lemma hex_output_round_trip:
  "to_hex n (replicate 11 NUL) = Inr (''0x'' @ hex_str n @ [NUL]) \<and>
   print_hex_32 n (replicate 9 NUL) = Inr [Print ''0x'', Print (hex_str n)] \<and>
   foldl (\<lambda>a c. 16 * a + hex_val c) 0 (hex_str n) = n"
  by (simp add: to_hex_eq print_hex_32_eq hex_str_value del: replicate.simps)

text \<open>A run of timer interrupts.\<close>

fun timer_run :: "nat \<Rightarrow> wall_clock \<Rightarrow> wall_clock" where
  "timer_run 0 c = c"
| "timer_run (Suc n) c = timer_run n (fst (timer_handler c))"

text \<open>
  The wall clock stays a time of day, and between two states of the 100 Hz tick counter that do
  not wrap, it advances by the whole seconds between them, modulo a day.
\<close>

lemma clock_counts_seconds:
  assumes "clock_inv c" "unat (ticks c) + n < 2 ^ 32"
  shows "clock_inv (timer_run n c) \<and>
    day_seconds (timer_run n c) =
      (day_seconds c + ((unat (ticks c) + n) div 100 - unat (ticks c) div 100)) mod 86400"
  using assms
proof (induction n arbitrary: c)
  case 0
  then have "day_seconds c < 86400" by (simp add: clock_inv_def day_seconds_def)
  with 0 show ?case by simp
next
  case (Suc n)
  let ?c = "fst (timer_handler c)"
  let ?t = "unat (ticks c)"
  note h = timer_handler_clock [OF Suc.prems(1)]
  have t: "unat (ticks ?c) = Suc ?t"
    using h Suc.prems(2) by (simp add: unat_inc_bound)
  have "(ticks c + 1) mod 100 = 0 \<longleftrightarrow> unat ((ticks c + 1) mod 100) = 0"
    by (simp only: unat_eq_zero)
  also have "unat ((ticks c + 1) mod 100) = Suc ?t mod 100"
    using h t by (simp add: unat_mod)
  finally have m: "(ticks c + 1) mod 100 = 0 \<longleftrightarrow> Suc ?t mod 100 = 0" .
  have IH: "clock_inv (timer_run n ?c) \<and> day_seconds (timer_run n ?c) =
      (day_seconds ?c + ((Suc ?t + n) div 100 - Suc ?t div 100)) mod 86400"
    using Suc.IH [of ?c] h t Suc.prems(2) by simp
  show ?case
  proof (cases "Suc ?t mod 100 = 0")
    case True
    then have d: "Suc ?t div 100 = Suc (?t div 100)" by (simp add: div_Suc)
    have "Suc ?t div 100 \<le> (Suc ?t + n) div 100" by (rule div_le_mono) simp
    then obtain e where e: "(Suc ?t + n) div 100 = Suc (?t div 100) + e"
      unfolding d by (auto dest: le_Suc_ex)
    have "day_seconds (timer_run n ?c) = (Suc (day_seconds c) mod 86400 + e) mod 86400"
      using IH h m True e d by simp
    also have "\<dots> = (Suc (day_seconds c) + e) mod 86400" by (rule mod_add_left_eq)
    finally show ?thesis using IH e by simp
  next
    case False
    then have "Suc ?t div 100 = ?t div 100" by (simp add: div_Suc)
    with False m h IH show ?thesis by simp
  qed
qed

lemma clock_counts_seconds_witness:
  "day_seconds (timer_run 360000 boot_clock) = 13 * 3600 \<and> clock_inv (timer_run 360000 boot_clock)"
proof -
  have "clock_inv boot_clock" "unat (ticks boot_clock) + 360000 < 2 ^ 32"
    by (simp_all add: clock_inv_def boot_clock_def)
  from clock_counts_seconds [OF this] show ?thesis
    by (simp add: boot_clock_def day_seconds_def)
qed

end
