(* ===== verification/WX_Kernel.thy ===== *)
theory WX_Kernel
  imports WX_Syslog WX_Hex
begin

text \<open>
  The kernel environment of \<open>Kernel.c\<close>: the integrity canaries, the privilege state, panic, bootstrap
  and the commands that change the privilege state (\<open>sudo\<close>, \<open>sys_kill_protect\<close>, \<open>sys_open_safe\<close>).
  An operation returns \<open>Inr\<close> of the next state, or \<open>Inl\<close> of the fault that stopped the kernel and
  the state it stopped in.  The operations work on any extension of the record \<open>kernel\<close>.
\<close>

section \<open>State\<close>

record cpu_state =
  cpu_gs :: u32  cpu_fs :: u32  cpu_es :: u32  cpu_ds :: u32  cpu_edi :: u32  cpu_esi :: u32
  cpu_ebp :: u32  cpu_esp :: u32  cpu_ebx :: u32  cpu_edx :: u32  cpu_ecx :: u32  cpu_eax :: u32
  cpu_eip :: u32  cpu_cs :: u32  cpu_eflags :: u32  cpu_useresp :: u32  cpu_ss :: u32

record memory_zone =
  base_address :: u32
  zone_limit :: u32
  zone_flags :: u32
  privilege_level :: u8
  is_present :: u8

record sys_environment =
  system_state :: u32
  memory_guard :: u32
  execution_cycles :: u32
  fault_detected :: u32
  last_known_state :: cpu_state
  kernel_zone :: memory_zone
  user_zone :: memory_zone
  is_root :: u8
  isolation_active :: u8
  aslr_offset :: u32
  structural_canary :: u32

text \<open>
  \<open>console\<close> is the list of console requests made so far; \<open>cpu_regs\<close> holds what \<open>eax\<close>, \<open>ebx\<close>, \<open>esp\<close>
  read when \<open>hexdump\<close> samples them.
\<close>

record kernel =
  g_env :: sys_environment
  g_sys_log :: sys_log_ring
  g_global_canary :: u32
  g_tick_counter :: u64
  fortune_index :: nat
  console :: "con list"
  cpu_regs :: "u32 \<times> u32 \<times> u32"

type_synonym 'z kres = "(fault \<times> 'z kernel_scheme) + 'z kernel_scheme"

definition SYS_STACK_GUARD :: u32 where "SYS_STACK_GUARD = 0xDEADBEEF"

text \<open>\<open>CANARY_VALUE\<close> is \<open>0xCAFEBABE0\<close>; the initialiser of a \<open>uint32_t\<close> keeps its low 32 bits.\<close>

definition CANARY_VALUE :: u32 where "CANARY_VALUE = word_of_int 0xCAFEBABE0"

definition emit :: "con list \<Rightarrow> 'z kernel_scheme \<Rightarrow> 'z kernel_scheme" where
  "emit out k = k\<lparr>console := console k @ out\<rparr>"

definition set_env :: "(sys_environment \<Rightarrow> sys_environment) \<Rightarrow> 'z kernel_scheme \<Rightarrow> 'z kernel_scheme" where
  "set_env f k = k\<lparr>g_env := f (g_env k)\<rparr>"

lemma emit_simps [simp]:
  "g_env (emit out k) = g_env k" "g_sys_log (emit out k) = g_sys_log k"
  "g_global_canary (emit out k) = g_global_canary k" "g_tick_counter (emit out k) = g_tick_counter k"
  "fortune_index (emit out k) = fortune_index k" "cpu_regs (emit out k) = cpu_regs k"
  "console (emit out k) = console k @ out"
  by (simp_all add: emit_def)

lemma set_env_simps [simp]:
  "g_env (set_env f k) = f (g_env k)" "g_sys_log (set_env f k) = g_sys_log k"
  "g_global_canary (set_env f k) = g_global_canary k" "g_tick_counter (set_env f k) = g_tick_counter k"
  "fortune_index (set_env f k) = fortune_index k" "cpu_regs (set_env f k) = cpu_regs k"
  "console (set_env f k) = console k"
  by (simp_all add: set_env_def)

section \<open>Log, panic, integrity\<close>

text \<open>\<open>sys_log_write\<close> on the kernel's own log, canary and tick counter.\<close>

definition k_log :: "u32 \<Rightarrow> char list \<Rightarrow> 'z kernel_scheme \<Rightarrow> 'z kres" where
  "k_log level msg k =
     (case sys_log_write (g_global_canary k) (g_tick_counter k) level msg (g_sys_log k) of
        Inl f \<Rightarrow> Inl (f, k)
      | Inr l \<Rightarrow> Inr (k\<lparr>g_sys_log := l\<rparr>))"

definition notgud :: "con list" where
  "notgud = map (\<lambda>s. Print (ln s))
     [''            !=x* '',
      ''      ~x-+-x/x++-/!!--+-! '',
      ''      x----------------+--- '',
      ''     v+-------------------x '',
      ''    *----X------X------/ '',
      ''  =/+++----x----x!+++--+++! '',
      ''  !!-----+FAULT--+-----++/'',
      ''    x--------------------+~ '',
      ''    ~+------------------++~ '',
      ''   xx-----------------+---+! '',
      ''  -x-----------------------+* '',
      '' *x-----xxxxxxxx------------+ '',
      '' !x---+xxxxxxxxxx+x-----+----**+--v '',
      '' v+----+xxxxxxx+x------+----+=v+--+ '',
      '' xx-++++-xxxxxxx+----++++----+! x--+ '',
      ''/xxx-+-x-xxxxxxxxxx-++++-------+v/---! '',
      ''++----------xxxxxxxxxx-++--+------+++--+! '',
      '' /+------++--xxxxxxx+----------++++-~ '',
      ''  *-+++++++++++++----++-------+= '',
      ''                 x++x! '']"

text \<open>
  \<open>sys_panic\<close>: clear, the fault picture, the fault flags, the report with a register dump, a log
  entry, and the halt.  It never returns \<open>Inr\<close>.
\<close>

definition sys_panic :: "string \<Rightarrow> 'z kernel_scheme \<Rightarrow> 'z kres" where
  "sys_panic error_code k =
     (let k1 = emit (Cls # notgud) k;
          k2 = set_env (\<lambda>e. e\<lparr>fault_detected := 1, system_state := 0\<rparr>) k1;
          k3 = emit [Print (newline # ln ''[CRITICAL KERNEL PANIC] HARDWARE MUTEX LOCK APPLIED.'' @ ''CODE: '')] k2;
          (eax, ebx, esp) = cpu_regs k
      in case hexdump eax ebx esp (replicate 11 NUL) of
           Inl f \<Rightarrow> Inl (f, k3)
         | Inr out \<Rightarrow>
             bindE (k_log 3 (lit error_code) (emit (out @ [Print error_code, Print (ln [])]) k3))
               (\<lambda>k4. Inl (Panic error_code, k4)))"

definition sys_verify_integrity :: "'z kernel_scheme \<Rightarrow> 'z kres" where
  "sys_verify_integrity k =
     (let e = g_env k in
      if structural_canary e \<noteq> g_global_canary k \<or> structures_canary (g_sys_log k) \<noteq> g_global_canary k
      then sys_panic ''ERR_INTEGRITY_VIOLATION_CANARY_BURST'' k
      else if memory_guard e \<noteq> SYS_STACK_GUARD \<and> isolation_active e \<noteq> 0
      then sys_panic ''ERR_INTEGRITY_VIOLATION_STACK_SMASH'' k
      else if base_address (kernel_zone e) \<noteq> 0 \<or> zone_limit (kernel_zone e) \<noteq> 0x000FFFFF
      then sys_panic ''ERR_INTEGRITY_VIOLATION_KERNEL_ZONE'' k
      else Inr k)"

definition zero_cpu_state :: cpu_state where
  "zero_cpu_state = \<lparr>cpu_gs = 0, cpu_fs = 0, cpu_es = 0, cpu_ds = 0, cpu_edi = 0, cpu_esi = 0,
     cpu_ebp = 0, cpu_esp = 0, cpu_ebx = 0, cpu_edx = 0, cpu_ecx = 0, cpu_eax = 0, cpu_eip = 0,
     cpu_cs = 0, cpu_eflags = 0, cpu_useresp = 0, cpu_ss = 0\<rparr>"

text \<open>
  \<open>sys_env_bootstrap\<close>.  The statement \<open>g_env.aslr_offset & 0xFFF;\<close> of the source has no effect.
\<close>

definition sys_env_bootstrap :: "'z kernel_scheme \<Rightarrow> 'z kres" where
  "sys_env_bootstrap k =
     (let canary = g_global_canary k XOR 0x55AA55AA;
          env = (g_env k)\<lparr>structural_canary := canary, system_state := 1,
                  memory_guard := SYS_STACK_GUARD, execution_cycles := 0, fault_detected := 0,
                  is_root := 0, isolation_active := 1,
                  kernel_zone := (kernel_zone (g_env k))\<lparr>base_address := 0, zone_limit := 0x000FFFFF,
                    zone_flags := 0x9A, privilege_level := 0, is_present := 1\<rparr>,
                  last_known_state := zero_cpu_state\<rparr>;
          log = zero_log canary
      in k_log 0 (lit ''KERNEL_BOOTSTRAP_INITIALIZED_WITH_ASLR'')
           (k\<lparr>g_global_canary := canary, g_env := env, g_sys_log := log\<rparr>))"

section \<open>Privilege commands\<close>

definition SYS_MAX_BUFFER :: nat where "SYS_MAX_BUFFER = 256"

text \<open>The last loop of \<open>scan\<close>: copy the typed line, up to its NUL, into the caller's buffer.\<close>

fun scan_copy :: "char list \<Rightarrow> char list \<Rightarrow> fault + char list" where
  "scan_copy [] buffer = Inl Out_of_bounds"
| "scan_copy (c # input) [] = Inl Out_of_bounds"
| "scan_copy (c # input) (b # buffer) =
     (if c \<noteq> NUL then map_sum id (Cons c) (scan_copy input buffer) else Inr (NUL # buffer))"

text \<open>
  Read a line into a zeroed 256-byte buffer and sanitise it.  \<open>line\<close> is what the keyboard driver
  holds when Enter is pressed.
\<close>

definition read_line :: "char list \<Rightarrow> fault + char list" where
  "read_line line =
     bindE (scan_copy line (replicate SYS_MAX_BUFFER NUL)) (\<lambda>b. sys_sanitize_string b SYS_MAX_BUFFER)"

definition equals :: "char list \<Rightarrow> string \<Rightarrow> fault + bool" where
  "equals buf s = sys_constant_time_compare (Some buf) (Some (lit s)) SYS_MAX_BUFFER"

definition k_lift :: "'z kernel_scheme \<Rightarrow> fault + 'a \<Rightarrow> (fault \<times> 'z kernel_scheme) + 'a" where
  "k_lift k m = map_sum (\<lambda>f. (f, k)) id m"

text \<open>
  \<open>cmd_sudo_handler\<close>; \<open>line1\<close> and \<open>line2\<close> are the two lines typed (the second is read only after a
  positive answer).
\<close>

definition cmd_sudo_handler :: "char list \<Rightarrow> char list \<Rightarrow> 'z kernel_scheme \<Rightarrow> 'z kres" where
  "cmd_sudo_handler line1 line2 k0 =
     bindE (sys_verify_integrity k0) (\<lambda>k.
     let k = emit [Print ''Do you have root privileges? (yes/no): ''] k in
     bindE (k_lift k (read_line line1)) (\<lambda>auth_query.
     bindE (k_lift k (equals auth_query ''yes'')) (\<lambda>a.
     bindE (if a then Inr True else k_lift k (equals auth_query ''y'')) (\<lambda>yes.
       if yes then
         let k = emit [Print ''Enter root authentication password: ''] k in
         bindE (k_lift k (read_line line2)) (\<lambda>cred_entry.
         bindE (k_lift k (equals cred_entry ''root'')) (\<lambda>root.
           if root then
             bindE (k_log 1 (lit ''PRIVILEGE_ESCALATION_SUCCESS_RING0'')
                (set_env (\<lambda>e. e\<lparr>is_root := 1, isolation_active := 0, memory_guard := 0\<rparr>) k)) (\<lambda>k.
             Inr (emit [Print (ln ''Authentication successful. Ring 0 overrides active.'')] k))
           else
             bindE (k_log 2 (lit ''PRIVILEGE_ESCALATION_FAILED_INVALID_CREDENTIAL'')
                (set_env (\<lambda>e. e\<lparr>is_root := 0\<rparr>) k)) (\<lambda>k.
             Inr (emit [Print (ln ''Authentication rejected. Invalid credential matrix context.'')] k))))
       else
         Inr (emit [Print (ln ''Access denied. Operational authority state remains unverified.'')]
               (set_env (\<lambda>e. e\<lparr>is_root := 0\<rparr>) k))))))"

definition sys_kill_protect :: "'z kernel_scheme \<Rightarrow> 'z kres" where
  "sys_kill_protect k0 =
     bindE (sys_verify_integrity k0) (\<lambda>k.
       if is_root (g_env k) = 0
       then Inr (emit [Print (ln ''Access denied. Insufficient security clearance.'')] k)
       else
         bindE (k_log 2 (lit ''SECURITY_PROTECTION_DISABLED_WARNING'')
            (set_env (\<lambda>e. e\<lparr>is_root := 1, memory_guard := 0, isolation_active := 0\<rparr>) k)) (\<lambda>k.
         Inr (emit [Print (ln ''System protection disabled. Ring 0 override active.'')] k)))"

definition sys_open_safe :: "'z kernel_scheme \<Rightarrow> 'z kres" where
  "sys_open_safe k =
     bindE (k_log 0 (lit ''SECURITY_PROTECTION_RESTORED'')
        (set_env (\<lambda>e. e\<lparr>memory_guard := SYS_STACK_GUARD, is_root := 0, isolation_active := 1\<rparr>) k)) (\<lambda>k.
     Inr (emit [Print (ln ''WARNING: System integrity restored. Protection routines re-enabled.'')] k))"

section \<open>The environment invariant\<close>

definition env_ok :: "'z kernel_scheme \<Rightarrow> bool" where
  "env_ok k \<longleftrightarrow>
     log_sound (g_sys_log k) \<and> structures_canary (g_sys_log k) = g_global_canary k \<and>
     structural_canary (g_env k) = g_global_canary k \<and>
     (memory_guard (g_env k) = SYS_STACK_GUARD \<or> isolation_active (g_env k) = 0) \<and>
     base_address (kernel_zone (g_env k)) = 0 \<and> zone_limit (kernel_zone (g_env k)) = 0x000FFFFF"

text \<open>A message the kernel logs: terminated and shorter than the message field.\<close>

definition loggable :: "char list \<Rightarrow> bool" where
  "loggable msg \<longleftrightarrow> terminated msg \<and> length (cstr msg) < 128"

lemma loggable_lit [simp]: "nul_free s \<Longrightarrow> loggable (lit s) \<longleftrightarrow> length s < 128"
  by (simp add: loggable_def)

lemma env_ok_emit [simp]: "env_ok (emit out k) = env_ok k"
  by (simp add: env_ok_def)

lemma verify_ok [simp]: "env_ok k \<Longrightarrow> sys_verify_integrity k = Inr k"
  by (auto simp: env_ok_def sys_verify_integrity_def Let_def)

lemma k_log_ok:
  assumes "env_ok k" "loggable msg"
  obtains l where "k_log level msg k = Inr (k\<lparr>g_sys_log := l\<rparr>)" "env_ok (k\<lparr>g_sys_log := l\<rparr>)"
    "log_sound l" "structures_canary l = g_global_canary k"
proof (rule sys_log_write_sound [of "g_sys_log k" "g_global_canary k" msg "g_tick_counter k" level])
  fix l assume l: "sys_log_write (g_global_canary k) (g_tick_counter k) level msg (g_sys_log k) = Inr l"
    "log_sound l" "structures_canary l = g_global_canary k"
  then have "k_log level msg k = Inr (k\<lparr>g_sys_log := l\<rparr>)" by (simp add: k_log_def)
  moreover have "env_ok (k\<lparr>g_sys_log := l\<rparr>)" using assms(1) l(2,3) by (simp add: env_ok_def)
  ultimately show thesis using l by (intro that)
qed (use assms in \<open>auto simp: env_ok_def loggable_def\<close>)

text \<open>The fields of the environment that the privilege commands work on.\<close>

lemma sys_panic_never_returns: "\<exists>f k'. sys_panic code k = Inl (f, k') \<and>
    fault_detected (g_env k') = 1 \<and> system_state (g_env k') = 0"
proof -
  obtain eax ebx esp where regs: "cpu_regs k = (eax, ebx, esp)" by (metis prod_cases3)
  obtain out where out: "hexdump eax ebx esp (replicate 11 NUL) = Inr out"
    using hexdump_ok [of "replicate 11 NUL" eax ebx esp] by auto
  show ?thesis
    by (simp add: sys_panic_def regs out Let_def k_log_def split: sum.split)
qed

section \<open>Reading and comparing typed lines\<close>

definition sanitized :: "char list \<Rightarrow> string" where
  "sanitized line = takeWhile (\<lambda>c. \<not> bad_char c) (cstr line)"

text \<open>What the keyboard driver hands over: a terminated line of at most 254 characters.\<close>

definition typed :: "char list \<Rightarrow> bool" where
  "typed line \<longleftrightarrow> terminated line \<and> length (cstr line) \<le> 254"

lemma typed_lit [simp]: "nul_free s \<Longrightarrow> typed (lit s) \<longleftrightarrow> length s \<le> 254"
  by (simp add: typed_def)

lemma scan_copy_eq:
  "terminated line \<Longrightarrow> length (cstr line) < length b \<Longrightarrow>
   scan_copy line b = Inr (cstr line @ NUL # drop (Suc (length (cstr line))) b)"
  by (induction line b rule: scan_copy.induct) auto

lemma scan_copy_overflow:
  "terminated line \<Longrightarrow> length b \<le> length (cstr line) \<Longrightarrow> scan_copy line b = Inl Out_of_bounds"
  by (induction line b rule: scan_copy.induct) (auto split: if_splits)

lemma read_line_eq:
  assumes "typed line"
  obtains b where "read_line line = Inr b" "terminated b" "length b = 256"
    "cstr b = sanitized line"
proof -
  let ?b = "cstr line @ NUL # drop (Suc (length (cstr line))) (replicate SYS_MAX_BUFFER NUL)"
  have l: "length (cstr line) < 256" "terminated line" using assms by (auto simp: typed_def)
  then have s: "scan_copy line (replicate SYS_MAX_BUFFER NUL) = Inr ?b"
    by (intro scan_copy_eq) (simp_all add: SYS_MAX_BUFFER_def)
  have len: "length ?b = 256" using l by (simp add: SYS_MAX_BUFFER_def)
  from sys_sanitize_string_eq [of ?b SYS_MAX_BUFFER] len obtain b where
    "sys_sanitize_string ?b SYS_MAX_BUFFER = Inr b" "length b = length ?b" "terminated b"
    "cstr b = takeWhile (\<lambda>c. \<not> bad_char c) (cstr ?b)" by (auto simp: SYS_MAX_BUFFER_def)
  then show thesis using that s len by (simp add: read_line_def sanitized_def)
qed

lemma equals_eq:
  assumes "terminated b" "length b = 256" "nul_free s" "length s < 256"
  shows "equals b s = Inr (cstr b = s)"
proof -
  have "length (cstr b) < 256" using length_cstr_less [OF assms(1)] assms(2) by simp
  then show ?thesis
    using assms by (simp add: equals_def compare_eq SYS_MAX_BUFFER_def)
qed

section \<open>The privilege machine\<close>

definition granted :: "char list \<Rightarrow> char list \<Rightarrow> bool" where
  "granted line1 line2 \<longleftrightarrow> sanitized line1 \<in> {''yes'', ''y''} \<and> sanitized line2 = ''root''"

text \<open>The abstract state: does the console run as root, and is the isolation in force?\<close>

definition priv_of :: "'z kernel_scheme \<Rightarrow> bool \<times> bool" where
  "priv_of k = (is_root (g_env k) \<noteq> 0, isolation_active (g_env k) \<noteq> 0)"

datatype priv_event = Sudo "char list" "char list" | Kill_protect | Open_safe

fun priv_step :: "priv_event \<Rightarrow> 'z kernel_scheme \<Rightarrow> 'z kres" where
  "priv_step (Sudo line1 line2) k = cmd_sudo_handler line1 line2 k"
| "priv_step Kill_protect k = sys_kill_protect k"
| "priv_step Open_safe k = sys_open_safe k"

definition priv_run :: "priv_event list \<Rightarrow> 'z kernel_scheme \<Rightarrow> 'z kres" where
  "priv_run = foldE priv_step"

fun priv_spec :: "priv_event \<Rightarrow> bool \<times> bool \<Rightarrow> bool \<times> bool" where
  "priv_spec (Sudo line1 line2) (root, isolated) =
     (if granted line1 line2 then (True, False) else (False, isolated))"
| "priv_spec Kill_protect (root, isolated) = (if root then (True, False) else (False, isolated))"
| "priv_spec Open_safe (root, isolated) = (False, True)"

fun typed_event :: "priv_event \<Rightarrow> bool" where
  "typed_event (Sudo line1 line2) \<longleftrightarrow> typed line1 \<and> typed line2"
| "typed_event e \<longleftrightarrow> True"

lemma env_ok_set_env:
  assumes "env_ok k" "structural_canary (f (g_env k)) = structural_canary (g_env k)"
    "memory_guard (f (g_env k)) = SYS_STACK_GUARD \<or> isolation_active (f (g_env k)) = 0"
    "kernel_zone (f (g_env k)) = kernel_zone (g_env k)"
  shows "env_ok (set_env f k)"
  using assms by (simp add: env_ok_def)

text \<open>A logged change of the environment followed by a message on the console.\<close>

lemma log_then_emit:
  assumes "env_ok k" "nul_free s" "length s < 128"
  obtains k' where "bindE (k_log level (lit s) k) (\<lambda>k. Inr (emit out k)) = Inr k'" "env_ok k'"
    "g_env k' = g_env k"
proof (rule k_log_ok [OF assms(1), of "lit s" level])
  show "loggable (lit s)" using assms by simp
next
  fix l assume "k_log level (lit s) k = Inr (k\<lparr>g_sys_log := l\<rparr>)" "env_ok (k\<lparr>g_sys_log := l\<rparr>)"
  then show thesis by (intro that [of "emit out (k\<lparr>g_sys_log := l\<rparr>)"]) simp_all
qed

lemma sudo_step:
  assumes "env_ok k" "typed line1" "typed line2"
  shows "\<exists>k'. cmd_sudo_handler line1 line2 k = Inr k' \<and> env_ok k' \<and>
    priv_of k' = priv_spec (Sudo line1 line2) (priv_of k)"
proof (rule read_line_eq [OF assms(2)], rule read_line_eq [OF assms(3)])
  fix b1 b2
  assume b1: "read_line line1 = Inr b1" "terminated b1" "length b1 = 256" "cstr b1 = sanitized line1"
    and b2: "read_line line2 = Inr b2" "terminated b2" "length b2 = 256" "cstr b2 = sanitized line2"
  let ?k1 = "emit [Print ''Do you have root privileges? (yes/no): ''] k"
  let ?k2 = "emit [Print ''Enter root authentication password: ''] ?k1"
  let ?win = "set_env (\<lambda>e. e\<lparr>is_root := 1, isolation_active := 0, memory_guard := 0\<rparr>) ?k2"
  let ?lose = "set_env (\<lambda>e. e\<lparr>is_root := 0\<rparr>) ?k2"
  have eq: "equals b1 ''yes'' = Inr (sanitized line1 = ''yes'')"
    "equals b1 ''y'' = Inr (sanitized line1 = ''y'')" "equals b2 ''root'' = Inr (sanitized line2 = ''root'')"
    using b1 b2 by (auto simp: equals_eq)
  have ok: "env_ok ?win" "env_ok ?lose"
    using assms(1) by (auto intro!: env_ok_set_env simp: env_ok_def)
  show ?thesis
  proof (cases "sanitized line1 \<in> {''yes'', ''y''}")
    case False
    then have "cmd_sudo_handler line1 line2 k = Inr (emit
        [Print (ln ''Access denied. Operational authority state remains unverified.'')]
        (set_env (\<lambda>e. e\<lparr>is_root := 0\<rparr>) ?k1))"
      using assms(1) b1 eq by (simp add: cmd_sudo_handler_def k_lift_def Let_def)
    moreover have "env_ok (set_env (\<lambda>e. e\<lparr>is_root := 0\<rparr>) ?k1)"
      using assms(1) by (auto intro!: env_ok_set_env simp: env_ok_def)
    ultimately show ?thesis using False by (simp add: priv_of_def granted_def)
  next
    case True
    show ?thesis
    proof (cases "sanitized line2 = ''root''")
      case r: True
      let ?out = "[Print (ln ''Authentication successful. Ring 0 overrides active.'')]"
      have "cmd_sudo_handler line1 line2 k =
          bindE (k_log 1 (lit ''PRIVILEGE_ESCALATION_SUCCESS_RING0'') ?win) (\<lambda>k. Inr (emit ?out k))"
        using True r assms(1) b1 b2 eq by (auto simp: cmd_sudo_handler_def k_lift_def Let_def)
      moreover obtain k' where
        "bindE (k_log 1 (lit ''PRIVILEGE_ESCALATION_SUCCESS_RING0'') ?win) (\<lambda>k. Inr (emit ?out k)) = Inr k'"
        "env_ok k'" "g_env k' = g_env ?win"
        by (rule log_then_emit [OF ok(1), of "''PRIVILEGE_ESCALATION_SUCCESS_RING0''" 1 ?out]) simp_all
      ultimately show ?thesis using True r by (simp add: priv_of_def granted_def)
    next
      case r: False
      let ?out = "[Print (ln ''Authentication rejected. Invalid credential matrix context.'')]"
      have "cmd_sudo_handler line1 line2 k =
          bindE (k_log 2 (lit ''PRIVILEGE_ESCALATION_FAILED_INVALID_CREDENTIAL'') ?lose) (\<lambda>k. Inr (emit ?out k))"
        using True r assms(1) b1 b2 eq by (auto simp: cmd_sudo_handler_def k_lift_def Let_def)
      moreover obtain k' where
        "bindE (k_log 2 (lit ''PRIVILEGE_ESCALATION_FAILED_INVALID_CREDENTIAL'') ?lose) (\<lambda>k. Inr (emit ?out k)) = Inr k'"
        "env_ok k'" "g_env k' = g_env ?lose"
        by (rule log_then_emit [OF ok(2), of "''PRIVILEGE_ESCALATION_FAILED_INVALID_CREDENTIAL''" 2 ?out]) simp_all
      ultimately show ?thesis using True r by (simp add: priv_of_def granted_def)
    qed
  qed
qed

lemma kill_protect_step:
  assumes "env_ok k"
  shows "\<exists>k'. sys_kill_protect k = Inr k' \<and> env_ok k' \<and> priv_of k' = priv_spec Kill_protect (priv_of k)"
proof (cases "is_root (g_env k) = 0")
  case True
  then show ?thesis using assms by (simp add: sys_kill_protect_def priv_of_def)
next
  case False
  let ?k = "set_env (\<lambda>e. e\<lparr>is_root := 1, memory_guard := 0, isolation_active := 0\<rparr>) k"
  let ?out = "[Print (ln ''System protection disabled. Ring 0 override active.'')]"
  have "env_ok ?k" using assms by (auto intro!: env_ok_set_env)
  then obtain k' where
    "bindE (k_log 2 (lit ''SECURITY_PROTECTION_DISABLED_WARNING'') ?k) (\<lambda>k. Inr (emit ?out k)) = Inr k'"
    "env_ok k'" "g_env k' = g_env ?k"
    by (rule log_then_emit [of ?k "''SECURITY_PROTECTION_DISABLED_WARNING''" 2 ?out]) simp_all
  then show ?thesis using False assms by (simp add: sys_kill_protect_def priv_of_def)
qed

lemma open_safe_step:
  assumes "env_ok k"
  shows "\<exists>k'. sys_open_safe k = Inr k' \<and> env_ok k' \<and> priv_of k' = priv_spec Open_safe (priv_of k)"
proof -
  let ?k = "set_env (\<lambda>e. e\<lparr>memory_guard := SYS_STACK_GUARD, is_root := 0, isolation_active := 1\<rparr>) k"
  let ?out = "[Print (ln ''WARNING: System integrity restored. Protection routines re-enabled.'')]"
  have "env_ok ?k" using assms by (auto intro!: env_ok_set_env)
  then obtain k' where
    "bindE (k_log 0 (lit ''SECURITY_PROTECTION_RESTORED'') ?k) (\<lambda>k. Inr (emit ?out k)) = Inr k'"
    "env_ok k'" "g_env k' = g_env ?k"
    by (rule log_then_emit [of ?k "''SECURITY_PROTECTION_RESTORED''" 0 ?out]) simp_all
  then show ?thesis by (simp add: sys_open_safe_def priv_of_def)
qed

lemma priv_step_refines:
  "env_ok k \<Longrightarrow> typed_event e \<Longrightarrow>
   \<exists>k'. priv_step e k = Inr k' \<and> env_ok k' \<and> priv_of k' = priv_spec e (priv_of k)"
  by (cases e) (simp_all add: sudo_step kill_protect_step open_safe_step)

lemma priv_run_refines:
  "env_ok k \<Longrightarrow> list_all typed_event es \<Longrightarrow>
   \<exists>k'. priv_run es k = Inr k' \<and> env_ok k' \<and> priv_of k' = fold priv_spec es (priv_of k)"
proof (induction es arbitrary: k)
  case (Cons e es)
  from priv_step_refines [OF Cons.prems(1), of e] Cons.prems(2) obtain u where
    "priv_step e k = Inr u" "env_ok u" "priv_of u = priv_spec e (priv_of k)" by auto
  with Cons.IH [of u] Cons.prems(2) show ?case by (simp add: priv_run_def)
qed (simp add: priv_run_def)

text \<open>Root needs a granted \<open>sudo\<close> that no later event undid.\<close>

lemma priv_spec_root:
  "fst (fold priv_spec es (False, i)) \<Longrightarrow> \<exists>l1 l2. Sudo l1 l2 \<in> set es \<and> granted l1 l2"
proof (induction es arbitrary: i)
  case (Cons e es)
  show ?case
  proof (cases e)
    case (Sudo l1 l2)
    show ?thesis
    proof (cases "granted l1 l2")
      case True
      then show ?thesis unfolding Sudo by (intro exI [of _ l1] exI [of _ l2]) simp
    next
      case False
      with Sudo Cons.prems have "fst (fold priv_spec es (False, i))" by simp
      from Cons.IH [OF this] show ?thesis by auto
    qed
  qed (use Cons in auto)
qed simp

section \<open>Bootstrap\<close>

lemma bootstrap_step:
  "\<exists>k'. sys_env_bootstrap k = Inr k' \<and> env_ok k' \<and> priv_of k' = (False, True) \<and>
     system_state (g_env k') = 1 \<and> fault_detected (g_env k') = 0 \<and>
     g_global_canary k' = g_global_canary k XOR 0x55AA55AA"
proof -
  let ?c = "g_global_canary k XOR 0x55AA55AA"
  let ?k = "k\<lparr>g_global_canary := ?c, g_env := (g_env k)\<lparr>structural_canary := ?c, system_state := 1,
                  memory_guard := SYS_STACK_GUARD, execution_cycles := 0, fault_detected := 0,
                  is_root := 0, isolation_active := 1,
                  kernel_zone := (kernel_zone (g_env k))\<lparr>base_address := 0, zone_limit := 0x000FFFFF,
                    zone_flags := 0x9A, privilege_level := 0, is_present := 1\<rparr>,
                  last_known_state := zero_cpu_state\<rparr>, g_sys_log := zero_log ?c\<rparr>"
  have ok: "env_ok ?k" by (simp add: env_ok_def zero_log_sound)
  have eq: "sys_env_bootstrap k = k_log 0 (lit ''KERNEL_BOOTSTRAP_INITIALIZED_WITH_ASLR'') ?k"
    by (simp add: sys_env_bootstrap_def Let_def)
  show ?thesis
  proof (rule k_log_ok [OF ok, of "lit ''KERNEL_BOOTSTRAP_INITIALIZED_WITH_ASLR''" 0])
    fix l assume "k_log 0 (lit ''KERNEL_BOOTSTRAP_INITIALIZED_WITH_ASLR'') ?k = Inr (?k\<lparr>g_sys_log := l\<rparr>)"
      "env_ok (?k\<lparr>g_sys_log := l\<rparr>)"
    then show ?thesis unfolding eq by (simp add: priv_of_def)
  qed simp
qed

section \<open>Properties\<close>

text \<open>
  C8: from any state in which the canaries, the stack guard, the kernel zone and the log are intact,
  no sequence of \<open>sudo\<close>, kill-protect and open-safe commands with typed input stops the kernel: every
  integrity check passes, the environment stays intact, and the privilege state follows the abstract
  machine \<open>priv_spec\<close>.
\<close>

theorem privilege_commands_refine_spec:
  assumes "env_ok k" "\<forall>e \<in> set es. typed_event e"
  shows "\<exists>k'. priv_run es k = Inr k' \<and> env_ok k' \<and> priv_of k' = fold priv_spec es (priv_of k)"
  using priv_run_refines [OF assms(1)] assms(2) by (simp add: list_all_iff)

text \<open>The image at load time: the static storage is zero but for the canary.\<close>

definition zero_zone :: memory_zone where
  "zero_zone = \<lparr>base_address = 0, zone_limit = 0, zone_flags = 0, privilege_level = 0, is_present = 0\<rparr>"

definition zero_env :: sys_environment where
  "zero_env = \<lparr>system_state = 0, memory_guard = 0, execution_cycles = 0, fault_detected = 0,
     last_known_state = zero_cpu_state, kernel_zone = zero_zone, user_zone = zero_zone, is_root = 0,
     isolation_active = 0, aslr_offset = 0, structural_canary = 0\<rparr>"

definition load_image :: "kernel" where
  "load_image = \<lparr>g_env = zero_env, g_sys_log = zero_log 0, g_global_canary = CANARY_VALUE,
     g_tick_counter = 0, fortune_index = 0, console = [], cpu_regs = (0, 0, 0)\<rparr>"

definition booted :: "kernel" where
  "booted = (case sys_env_bootstrap load_image of Inr k \<Rightarrow> k | Inl (f, k) \<Rightarrow> k)"

lemma booted: "sys_env_bootstrap load_image = Inr booted" "env_ok booted" "priv_of booted = (False, True)"
  using bootstrap_step [of load_image] by (auto simp: booted_def)

theorem privilege_commands_refine_spec_witness:
  "\<exists>k'. priv_run [Sudo (lit ''yes'') (lit ''toor''), Sudo (lit ''y'') (lit ''root''), Open_safe] booted = Inr k' \<and>
     priv_of k' = (False, True)"
proof -
  have "\<forall>e \<in> set [Sudo (lit ''yes'') (lit ''toor''), Sudo (lit ''y'') (lit ''root''), Open_safe]. typed_event e"
    by simp
  from privilege_commands_refine_spec [OF booted(2) this] show ?thesis by (auto simp: booted(3))
qed

text \<open>
  After bootstrap the console is root only if some \<open>sudo\<close> was answered with \<open>yes\<close> or \<open>y\<close> and the
  password \<open>root\<close> (after sanitising): no other command, and no wrong password, grants root.
\<close>

lemma root_needs_the_password:
  assumes "sys_env_bootstrap k0 = Inr k" "\<forall>e \<in> set es. typed_event e" "priv_run es k = Inr k'"
    and "is_root (g_env k') \<noteq> 0"
  shows "\<exists>l1 l2. Sudo l1 l2 \<in> set es \<and> sanitized l1 \<in> {''yes'', ''y''} \<and> sanitized l2 = ''root''"
proof -
  from bootstrap_step [of k0] assms(1) have k: "env_ok k" "priv_of k = (False, True)" by auto
  from priv_run_refines [OF k(1), of es] assms(2,3) have
    p: "fold priv_spec es (False, True) = priv_of k'" by (auto simp: list_all_iff k(2))
  then have "fst (fold priv_spec es (False, True)) = (is_root (g_env k') \<noteq> 0)"
    unfolding p by (simp add: priv_of_def)
  with assms(4) have "fst (fold priv_spec es (False, True))" by simp
  from priv_spec_root [OF this] show ?thesis by (auto simp: granted_def)
qed

lemma root_needs_the_password_witness:
  "\<exists>k'. priv_run [Sudo (lit ''y'') (lit ''root;x'')] booted = Inr k' \<and> is_root (g_env k') \<noteq> 0 \<and>
    (\<exists>l1 l2. Sudo l1 l2 \<in> set [Sudo (lit ''y'') (lit ''root;x'')] \<and>
       sanitized l1 \<in> {''yes'', ''y''} \<and> sanitized l2 = ''root'')"
proof -
  let ?es = "[Sudo (lit ''y'') (lit ''root;x'')]"
  have t: "\<forall>e \<in> set ?es. typed_event e" by simp
  have g: "granted (lit ''y'') (lit ''root;x'')" by (simp add: granted_def sanitized_def bad_char_def)
  from priv_run_refines [OF booted(2), of ?es] obtain k' where
    k': "priv_run ?es booted = Inr k'" "priv_of k' = fold priv_spec ?es (priv_of booted)"
    by (auto simp: list_all_iff)
  then have "is_root (g_env k') \<noteq> 0" using g by (simp add: booted(3) priv_of_def)
  with root_needs_the_password [OF booted(1) t k'(1)] k'(1) show ?thesis by blast
qed

text \<open>
  A rejected \<open>sudo\<close> after a successful one takes root away but leaves the isolation off: the
  system stays unprotected with nobody privileged.
\<close>

lemma rejected_sudo_leaves_isolation_off:
  assumes "env_ok k" "typed l1" "typed l2" "typed m1" "typed m2" "granted l1 l2" "\<not> granted m1 m2"
  shows "\<exists>k'. priv_run [Sudo l1 l2, Sudo m1 m2] k = Inr k' \<and>
    is_root (g_env k') = 0 \<and> isolation_active (g_env k') = 0"
proof -
  obtain r i where "priv_of k = (r, i)" by (cases "priv_of k")
  with priv_run_refines [OF assms(1), of "[Sudo l1 l2, Sudo m1 m2]"] assms show ?thesis
    by (auto simp: priv_of_def)
qed

lemma rejected_sudo_leaves_isolation_off_witness:
  "\<exists>k'. priv_run [Sudo (lit ''yes'') (lit ''root''), Sudo (lit ''no'') (lit [])] booted = Inr k' \<and>
    is_root (g_env k') = 0 \<and> isolation_active (g_env k') = 0"
  by (rule rejected_sudo_leaves_isolation_off)
     (simp_all add: booted(2) granted_def sanitized_def bad_char_def)

text \<open>A log of the right shape takes a write, or halts the processor when its canary is burst.\<close>

lemma k_log_cases:
  assumes "log_inv (g_sys_log k)" "terminated msg"
  shows "if structures_canary (g_sys_log k) = g_global_canary k
     then \<exists>l. k_log level msg k = Inr (k\<lparr>g_sys_log := l\<rparr>) \<and>
       log_view l = (if length (log_view (g_sys_log k)) < 128 then log_view (g_sys_log k) else tl (log_view (g_sys_log k))) @
         [recorded (g_tick_counter k) level (cstr msg)]
     else k_log level msg k = Inl (Cpu_halted, k)"
proof (cases "structures_canary (g_sys_log k) = g_global_canary k")
  case True
  then show ?thesis using sys_log_write_view [OF assms(1) True assms(2), of "g_tick_counter k" level] by (auto simp: k_log_def)
next
  case False
  then show ?thesis by (simp add: k_log_def sys_log_write_def)
qed

text \<open>
  C15: a panic never returns, whatever the state of the environment: the console is cleared and ends with the
  code, the fault flag is set and the system state cleared.  With the canary of the log intact the panic is the
  newest record of the log, at level 3; with the canary burst the processor is halted with the log as it was.
\<close>

theorem panic_stops_and_logs:
  assumes "log_inv (g_sys_log k)" "nul_free code"
  shows "\<exists>k' out. console k' = console k @ Cls # out @ [Print code, Print (ln [])] \<and>
    fault_detected (g_env k') = 1 \<and> system_state (g_env k') = 0 \<and>
    (if structures_canary (g_sys_log k) = g_global_canary k
     then sys_panic code k = Inl (Panic code, k') \<and>
       log_view (g_sys_log k') =
         (if length (log_view (g_sys_log k)) < 128 then log_view (g_sys_log k) else tl (log_view (g_sys_log k))) @
         [recorded (g_tick_counter k) 3 code]
     else sys_panic code k = Inl (Cpu_halted, k') \<and> g_sys_log k' = g_sys_log k)"
proof -
  obtain eax ebx esp where regs: "cpu_regs k = (eax, ebx, esp)" by (metis prod_cases3)
  obtain out where out: "hexdump eax ebx esp (replicate 11 NUL) = Inr out"
    using hexdump_ok [of "replicate 11 NUL" eax ebx esp] by auto
  let ?report = "Print (newline # ln ''[CRITICAL KERNEL PANIC] HARDWARE MUTEX LOCK APPLIED.'' @ ''CODE: '')"
  let ?k = "emit (out @ [Print code, Print (ln [])]) (emit [?report]
    (set_env (\<lambda>e. e\<lparr>fault_detected := 1, system_state := 0\<rparr>) (emit (Cls # notgud) k)))"
  have run: "sys_panic code k = bindE (k_log 3 (lit code) ?k) (\<lambda>k4. Inl (Panic code, k4))"
    by (simp add: sys_panic_def regs out Let_def)
  have con: "console ?k = console k @ Cls # (notgud @ ?report # out) @ [Print code, Print (ln [])]" by simp
  have l: "log_inv (g_sys_log ?k)" "terminated (lit code)" using assms by simp_all
  show ?thesis
  proof (cases "structures_canary (g_sys_log k) = g_global_canary k")
    case True
    with k_log_cases [OF l, of 3] obtain lg where lg: "k_log 3 (lit code) ?k = Inr (?k\<lparr>g_sys_log := lg\<rparr>)"
      "log_view lg = (if length (log_view (g_sys_log k)) < 128 then log_view (g_sys_log k) else tl (log_view (g_sys_log k))) @
         [recorded (g_tick_counter k) 3 code]" using assms(2) by auto
    with True con show ?thesis unfolding run
      by (intro exI [of _ "?k\<lparr>g_sys_log := lg\<rparr>"] exI [of _ "notgud @ ?report # out"]) simp
  next
    case False
    with k_log_cases [OF l, of 3] have "k_log 3 (lit code) ?k = Inl (Cpu_halted, ?k)" by simp
    with False con show ?thesis unfolding run
      by (intro exI [of _ ?k] exI [of _ "notgud @ ?report # out"]) simp
  qed
qed

text \<open>A kernel whose log canary was overwritten: the first integrity check panics, and the panic cannot be logged.\<close>

definition burst :: kernel where
  "burst = booted\<lparr>g_sys_log := (g_sys_log booted)\<lparr>structures_canary := g_global_canary booted + 1\<rparr>\<rparr>"

theorem panic_stops_and_logs_witness:
  "(\<exists>k'. sys_panic ''ERR_MAIN_LOOP_EXIT'' booted = Inl (Panic ''ERR_MAIN_LOOP_EXIT'', k') \<and>
      fault_detected (g_env k') = 1 \<and> last (log_view (g_sys_log k')) = recorded (g_tick_counter booted) 3 ''ERR_MAIN_LOOP_EXIT'') \<and>
   (\<exists>k'. sys_verify_integrity burst = Inl (Cpu_halted, k') \<and> fault_detected (g_env k') = 1 \<and>
      g_sys_log k' = g_sys_log burst)"
proof -
  have ok: "log_inv (g_sys_log booted)" "structures_canary (g_sys_log booted) = g_global_canary booted"
    using booted(2) by (simp_all add: env_ok_def log_sound_def)
  then have b: "log_inv (g_sys_log burst)" "structures_canary (g_sys_log burst) \<noteq> g_global_canary burst"
    by (simp_all add: burst_def log_inv_def)
  have n: "nul_free ''ERR_MAIN_LOOP_EXIT''" "nul_free ''ERR_INTEGRITY_VIOLATION_CANARY_BURST''" by simp_all
  have v: "sys_verify_integrity burst = sys_panic ''ERR_INTEGRITY_VIOLATION_CANARY_BURST'' burst"
    using b(2) by (simp add: sys_verify_integrity_def Let_def)
  from panic_stops_and_logs [OF ok(1) n(1), unfolded if_P [OF ok(2)]] obtain k' where
    "sys_panic ''ERR_MAIN_LOOP_EXIT'' booted = Inl (Panic ''ERR_MAIN_LOOP_EXIT'', k')" "fault_detected (g_env k') = 1"
    "\<exists>v. log_view (g_sys_log k') = v @ [recorded (g_tick_counter booted) 3 ''ERR_MAIN_LOOP_EXIT'']" by blast
  then have 1: "\<exists>k'. sys_panic ''ERR_MAIN_LOOP_EXIT'' booted = Inl (Panic ''ERR_MAIN_LOOP_EXIT'', k') \<and>
      fault_detected (g_env k') = 1 \<and> last (log_view (g_sys_log k')) = recorded (g_tick_counter booted) 3 ''ERR_MAIN_LOOP_EXIT''"
    by (intro exI [of _ k']) auto
  from panic_stops_and_logs [OF b(1) n(2)] b(2)
  have 2: "\<exists>k'. sys_verify_integrity burst = Inl (Cpu_halted, k') \<and> fault_detected (g_env k') = 1 \<and>
      g_sys_log k' = g_sys_log burst" unfolding v by auto
  from 1 2 show ?thesis ..
qed

end
