(* ===== verification/WX_Oom.thy ===== *)
theory WX_Oom
  imports WX_Strings
begin

text \<open>
  The physical page accounting and the out-of-memory killer of \<open>oomk.h\<close>.  A \<open>sys_task_t*\<close> is an
  address; \<open>tasks\<close> is the memory that holds the task structures, so that two entries of
  \<open>task_array\<close> with the same address share one structure, as in the code.  Atomic operations are
  single steps; the zone spin locks are flags, and waiting for a lock that is held is
  \<open>Spin_forever\<close> (nothing else runs).
\<close>

section \<open>State\<close>

record sys_task =
  pid :: u32
  ppid :: u32
  uid :: u32
  task_state :: u8
  task_flags :: u32
  oom_score_adj :: u16
  rss_pages :: u32
  virtual_pages :: u32
  page_faults :: u32
  cpu_time_ms :: u64
  nice_value :: u8

record sys_mem_zone =
  managed_pages :: u32
  free_pages :: u32
  wm_min :: u32
  wm_low :: u32
  wm_high :: u32
  zone_lock :: bool

record hw_oom_regs =
  PANIC_CTRL :: u32
  RECLAIM_TRIG :: u32
  KILL_SIG_VEC :: u32
  OOM_VICTIM_PID :: u32

record sys_oom_ctrl =
  zones :: "sys_mem_zone list"
  total_reclaimed :: u32
  total_oom_kills :: u32
  task_array :: "u32 list"
  active_task_count :: u32
  tasks :: "u32 \<Rightarrow> sys_task option"
  hw :: hw_oom_regs
  auto_pid :: u32

type_synonym 'a ores = "(fault \<times> sys_oom_ctrl) + ('a \<times> sys_oom_ctrl)"

abbreviation (input) ZONE_DMA :: nat where "ZONE_DMA \<equiv> 0"
abbreviation (input) ZONE_NORMAL :: nat where "ZONE_NORMAL \<equiv> 1"
abbreviation (input) ZONE_HIGHMEM :: nat where "ZONE_HIGHMEM \<equiv> 2"

definition PAGE_SIZE :: u32 where "PAGE_SIZE = 4096"
definition SYS_MAX_TASKS :: u32 where "SYS_MAX_TASKS = 1024"

definition TASK_STATE_RUNNING :: u8 where "TASK_STATE_RUNNING = 0x01"
definition TASK_STATE_SLEEPING :: u8 where "TASK_STATE_SLEEPING = 0x02"
definition TASK_STATE_ZOMBIE :: u8 where "TASK_STATE_ZOMBIE = 0x04"
definition TASK_STATE_DEAD :: u8 where "TASK_STATE_DEAD = 0x08"

definition OOM_FLAG_CRITICAL :: u32 where "OOM_FLAG_CRITICAL = 1"
definition OOM_FLAG_UNKILLABLE :: u32 where "OOM_FLAG_UNKILLABLE = 2"

definition upd_zone :: "nat \<Rightarrow> (sys_mem_zone \<Rightarrow> sys_mem_zone) \<Rightarrow> sys_oom_ctrl \<Rightarrow> sys_oom_ctrl" where
  "upd_zone i f s = s\<lparr>zones := (zones s)[i := f (zones s ! i)]\<rparr>"

definition upd_hw :: "(hw_oom_regs \<Rightarrow> hw_oom_regs) \<Rightarrow> sys_oom_ctrl \<Rightarrow> sys_oom_ctrl" where
  "upd_hw f s = s\<lparr>hw := f (hw s)\<rparr>"

section \<open>Locks, panic, initialisation\<close>

definition sys_zone_lock :: "nat \<Rightarrow> sys_oom_ctrl \<Rightarrow> unit ores" where
  "sys_zone_lock i s =
     (if zone_lock (zones s ! i) then Inl (Spin_forever, s)
      else Inr ((), upd_zone i (\<lambda>z. z\<lparr>zone_lock := True\<rparr>) s))"

definition sys_zone_unlock :: "nat \<Rightarrow> sys_oom_ctrl \<Rightarrow> sys_oom_ctrl" where
  "sys_zone_unlock i s = upd_zone i (\<lambda>z. z\<lparr>zone_lock := False\<rparr>) s"

definition sys_oom_panic :: "string \<Rightarrow> u32 \<Rightarrow> sys_oom_ctrl \<Rightarrow> 'a ores" where
  "sys_oom_panic reason code s =
     Inl (Panic reason, upd_hw (\<lambda>h. h\<lparr>OOM_VICTIM_PID := code, PANIC_CTRL := 0xDEAD0000 OR code\<rparr>) s)"

definition init_zone :: "u32 \<Rightarrow> u32 \<Rightarrow> u32 \<Rightarrow> u32 \<Rightarrow> sys_mem_zone" where
  "init_zone pages dmin dlow dhigh =
     \<lparr>managed_pages = pages, free_pages = pages, wm_min = pages div dmin, wm_low = pages div dlow,
      wm_high = pages div dhigh, zone_lock = False\<rparr>"

definition sys_oom_init :: "u32 \<Rightarrow> u32 \<Rightarrow> u32 \<Rightarrow> sys_oom_ctrl \<Rightarrow> sys_oom_ctrl" where
  "sys_oom_init dma_pages normal_pages highmem_pages s =
     s\<lparr>zones := [init_zone dma_pages 64 32 16, init_zone normal_pages 128 64 32,
                 init_zone highmem_pages 256 128 64],
       total_reclaimed := 0, total_oom_kills := 0, active_task_count := 0\<rparr>"

section \<open>Reclaim\<close>

text \<open>One turn of the loop of \<open>sys_shrink_slab_caches\<close>: at most 100 pages for a zone below its low mark.\<close>

definition shrink_zone :: "nat \<Rightarrow> sys_oom_ctrl \<times> u32 \<Rightarrow> sys_oom_ctrl \<times> u32" where
  "shrink_zone i = (\<lambda>(s, reclaimed).
     let z = zones s ! i; free_val = free_pages z in
     if free_val < wm_low z then
       let target = wm_high z - free_val;
           actual = (if 100 < target then 100 else target)
       in (upd_zone i (\<lambda>z. z\<lparr>free_pages := free_pages z + actual\<rparr>) s, reclaimed + actual)
     else (s, reclaimed))"

definition sys_shrink_slab_caches :: "sys_oom_ctrl \<Rightarrow> sys_oom_ctrl" where
  "sys_shrink_slab_caches s =
     (let (s, reclaimed) =
        shrink_zone 2 (shrink_zone 1 (shrink_zone 0 (upd_hw (\<lambda>h. h\<lparr>RECLAIM_TRIG := 1\<rparr>) s, 0)))
      in s\<lparr>total_reclaimed := total_reclaimed s + reclaimed\<rparr>)"

definition sys_shrink_page_cache :: "sys_oom_ctrl \<Rightarrow> sys_oom_ctrl" where
  "sys_shrink_page_cache s0 =
     (let s = upd_hw (\<lambda>h. h\<lparr>RECLAIM_TRIG := 2\<rparr>) s0;
          target = wm_high (zones s ! ZONE_NORMAL);
          current = free_pages (zones s ! ZONE_NORMAL)
      in if current < target then
           let reclaimed = (target - current) div 2;
               s = upd_zone ZONE_NORMAL (\<lambda>z. z\<lparr>free_pages := free_pages z + reclaimed\<rparr>) s
           in s\<lparr>total_reclaimed := total_reclaimed s + reclaimed\<rparr>
         else s)"

section \<open>Choosing and killing a victim\<close>

text \<open>
  \<open>sys_calculate_badness\<close>.  All arithmetic is 32-bit; the division by \<open>total_pages\<close> is the CPU's and
  traps on zero.  \<open>adjusted_score\<close> is read as signed.
\<close>

definition clamp_score :: "u32 \<Rightarrow> u32" where
  "clamp_score adjusted_score =
     (if sint adjusted_score \<le> 0 then 1
      else if 10000 < sint adjusted_score then 10000 else adjusted_score)"

definition sys_calculate_badness :: "sys_task \<Rightarrow> u32 \<Rightarrow> fault + u32" where
  "sys_calculate_badness task total_pages =
     (if task_flags task AND OOM_FLAG_UNKILLABLE \<noteq> 0 then Inr 0
      else if task_state task = TASK_STATE_DEAD \<or> task_state task = TASK_STATE_ZOMBIE then Inr 0
      else if oom_score_adj task = -1000 then Inr 0
      else if total_pages = 0 then Inl Divide_error
      else
        let score = (rss_pages task * 10000) div total_pages;
            score = (if 0 < sint (nice_value task)
                     then score + (score * scast (nice_value task)) div 20
                     else if sint (nice_value task) < 0
                     then score - (score * (- scast (nice_value task))) div 20
                     else score);
            score = (if task_flags task AND OOM_FLAG_CRITICAL \<noteq> 0 then score div 4 else score);
            adjusted_score = score + scast (oom_score_adj task) * 10 :: u32
        in Inr (clamp_score adjusted_score))"

fun select_loop ::
    "(u32 \<Rightarrow> sys_task option) \<Rightarrow> u32 \<Rightarrow> u32 list \<Rightarrow> u32 \<Rightarrow> u32 \<Rightarrow> fault + u32" where
  "select_loop mem total_pages [] chosen highest = Inr chosen"
| "select_loop mem total_pages (p # ps) chosen highest =
     (if p = 0 then select_loop mem total_pages ps chosen highest
      else case mem p of
        None \<Rightarrow> Inl Out_of_bounds
      | Some task \<Rightarrow>
          bindE (sys_calculate_badness task total_pages) (\<lambda>current_score.
            if highest < current_score then select_loop mem total_pages ps p current_score
            else select_loop mem total_pages ps chosen highest))"

definition total_sys_pages :: "sys_oom_ctrl \<Rightarrow> u32" where
  "total_sys_pages s = managed_pages (zones s ! ZONE_DMA) + managed_pages (zones s ! ZONE_NORMAL) +
     managed_pages (zones s ! ZONE_HIGHMEM)"

text \<open>The address of the chosen task, 0 for \<open>NULL\<close>.\<close>

definition sys_select_bad_process :: "sys_oom_ctrl \<Rightarrow> fault + u32" where
  "sys_select_bad_process s =
     (if length (task_array s) < unat (active_task_count s) then Inl Out_of_bounds
      else select_loop (tasks s) (total_sys_pages s)
             (take (unat (active_task_count s)) (task_array s)) 0 0)"

definition sys_send_sigkill :: "u32 \<Rightarrow> sys_task \<Rightarrow> sys_oom_ctrl \<Rightarrow> unit ores" where
  "sys_send_sigkill p victim s0 =
     (let v = victim\<lparr>task_state := TASK_STATE_DEAD\<rparr>;
          s = upd_hw (\<lambda>h. h\<lparr>OOM_VICTIM_PID := pid v, KILL_SIG_VEC := 9\<rparr>)
                (s0\<lparr>tasks := (tasks s0)(p \<mapsto> v)\<rparr>);
          rss_reclaim = rss_pages v
      in bindE (sys_zone_lock ZONE_NORMAL s) (\<lambda>(_, s).
         let s = sys_zone_unlock ZONE_NORMAL
                   (upd_zone ZONE_NORMAL (\<lambda>z. z\<lparr>free_pages := free_pages z + rss_reclaim\<rparr>) s)
         in Inr ((), s\<lparr>tasks := (tasks s)(p \<mapsto> v\<lparr>rss_pages := 0, virtual_pages := 0\<rparr>),
                       total_oom_kills := total_oom_kills s + 1\<rparr>)))"

text \<open>\<open>sys_trigger_oom_killer\<close>: the \<open>false\<close> it could return is never reached, the panic halts.\<close>

definition sys_trigger_oom_killer :: "sys_oom_ctrl \<Rightarrow> unit ores" where
  "sys_trigger_oom_killer s =
     (case sys_select_bad_process s of
        Inl f \<Rightarrow> Inl (f, s)
      | Inr p \<Rightarrow>
          if p = 0 then sys_oom_panic ''OOM_NO_VICTIM_FOUND'' 0xDEAD0001 s
          else case tasks s p of
            None \<Rightarrow> Inl (Out_of_bounds, s)
          | Some victim \<Rightarrow>
              if pid victim = 1 \<or> task_flags victim AND OOM_FLAG_CRITICAL \<noteq> 0
              then sys_oom_panic ''OOM_KILLED_INIT_OR_CRITICAL'' (pid victim) s
              else sys_send_sigkill p victim s)"

section \<open>Allocation and registration\<close>

text \<open>
  One attempt of \<open>sys_alloc_pages\<close>: the check without the lock, then the check and the subtraction
  under it.  \<open>Some\<close> carries the address returned.
\<close>

definition alloc_try :: "nat \<Rightarrow> u32 \<Rightarrow> sys_oom_ctrl \<Rightarrow> u32 option ores" where
  "alloc_try i cnt s =
     (if cnt + wm_min (zones s ! i) \<le> free_pages (zones s ! i) then
        bindE (sys_zone_lock i s) (\<lambda>(_, s).
          if cnt + wm_min (zones s ! i) \<le> free_pages (zones s ! i) then
            let s = sys_zone_unlock i (upd_zone i (\<lambda>z. z\<lparr>free_pages := free_pages z - cnt\<rparr>) s)
            in Inr (Some (0x10000000 + total_reclaimed s * PAGE_SIZE), s)
          else Inr (None, sys_zone_unlock i s))
      else Inr (None, s))"

function alloc_retry :: "nat \<Rightarrow> nat \<Rightarrow> u32 \<Rightarrow> sys_oom_ctrl \<Rightarrow> u32 ores" where
  "alloc_retry retry_count i cnt s =
     bindE (alloc_try i cnt s) (\<lambda>(r, s).
       case r of
         Some p \<Rightarrow> Inr (p, s)
       | None \<Rightarrow>
           if retry_count = 0 then alloc_retry 1 i cnt (sys_shrink_slab_caches s)
           else if retry_count = 1 then alloc_retry 2 i cnt (sys_shrink_page_cache s)
           else if retry_count = 2 then
             bindE (sys_trigger_oom_killer s) (\<lambda>(_, s). alloc_retry 3 i cnt s)
           else sys_oom_panic ''OOM_ALLOC_FAILED_COMPLETELY'' 0xDEAD0002 s)"
  by pat_completeness auto
termination
  by (relation "measure (\<lambda>(r, _). 3 - r)") auto

declare alloc_retry.simps [simp del]

definition sys_alloc_pages :: "int \<Rightarrow> u32 \<Rightarrow> sys_oom_ctrl \<Rightarrow> u32 ores" where
  "sys_alloc_pages zone_idx cnt s =
     (if zone_idx < 0 \<or> 3 \<le> zone_idx then Inr (0, s) else alloc_retry 0 (nat zone_idx) cnt s)"

definition sys_register_task :: "u32 \<Rightarrow> sys_oom_ctrl \<Rightarrow> unit ores" where
  "sys_register_task p s =
     (if active_task_count s < SYS_MAX_TASKS then
        case put (task_array s) (unat (active_task_count s)) p of
          Inl f \<Rightarrow> Inl (f, s)
        | Inr a \<Rightarrow> Inr ((), s\<lparr>task_array := a, active_task_count := active_task_count s + 1\<rparr>)
      else sys_oom_panic ''TASK_LIMIT_REACHED'' 0xDEAD0003 s)"

text \<open>
  \<open>new_task\<close>: \<open>p\<close> is what \<open>whitex_malloc\<close> returned (0 for \<open>NULL\<close>) and \<open>old\<close> what that memory held;
  the fields the code does not set keep it.
\<close>

definition new_task :: "u32 \<Rightarrow> sys_task \<Rightarrow> sys_oom_ctrl \<Rightarrow> unit ores" where
  "new_task p old s =
     (if p = 0 then Inr ((), s)
      else
        let task = old\<lparr>pid := auto_pid s, ppid := 1, task_state := TASK_STATE_RUNNING, rss_pages := 100,
                       task_flags := 0, oom_score_adj := 0, nice_value := 0\<rparr>
        in sys_register_task p (s\<lparr>auto_pid := auto_pid s + 1, tasks := (tasks s)(p \<mapsto> task)\<rparr>))"

definition monitor_zone :: "nat \<Rightarrow> sys_oom_ctrl \<Rightarrow> (fault \<times> sys_oom_ctrl) + sys_oom_ctrl" where
  "monitor_zone i s =
     (if free_pages (zones s ! i) < wm_min (zones s ! i)
      then map_sum id snd (sys_trigger_oom_killer s) else Inr s)"

definition sys_oom_monitor_check :: "sys_oom_ctrl \<Rightarrow> (fault \<times> sys_oom_ctrl) + sys_oom_ctrl" where
  "sys_oom_monitor_check = foldE monitor_zone [0, 1, 2]"

section \<open>Field lemmas and the invariant\<close>

lemma upd_zone_simps [simp]:
  "zones (upd_zone i f s) = (zones s)[i := f (zones s ! i)]"
  "total_reclaimed (upd_zone i f s) = total_reclaimed s"
  "total_oom_kills (upd_zone i f s) = total_oom_kills s"
  "task_array (upd_zone i f s) = task_array s" "active_task_count (upd_zone i f s) = active_task_count s"
  "tasks (upd_zone i f s) = tasks s" "hw (upd_zone i f s) = hw s" "auto_pid (upd_zone i f s) = auto_pid s"
  by (simp_all add: upd_zone_def)

lemma upd_hw_simps [simp]:
  "zones (upd_hw f s) = zones s" "total_reclaimed (upd_hw f s) = total_reclaimed s"
  "total_oom_kills (upd_hw f s) = total_oom_kills s"
  "task_array (upd_hw f s) = task_array s" "active_task_count (upd_hw f s) = active_task_count s"
  "tasks (upd_hw f s) = tasks s" "hw (upd_hw f s) = f (hw s)" "auto_pid (upd_hw f s) = auto_pid s"
  by (simp_all add: upd_hw_def)

definition zones_ok :: "sys_mem_zone list \<Rightarrow> bool" where
  "zones_ok zs \<longleftrightarrow> length zs = 3 \<and> (\<forall>z \<in> set zs. \<not> zone_lock z)"

text \<open>The limits of the zones, which no operation but the initialisation changes.\<close>

definition limits :: "sys_mem_zone \<Rightarrow> u32 \<times> u32 \<times> u32 \<times> u32" where
  "limits z = (managed_pages z, wm_min z, wm_low z, wm_high z)"

definition tasks_ok :: "sys_oom_ctrl \<Rightarrow> bool" where
  "tasks_ok s \<longleftrightarrow> length (task_array s) = 1024 \<and> unat (active_task_count s) \<le> 1024 \<and>
     (\<forall>p \<in> set (take (unat (active_task_count s)) (task_array s)). p = 0 \<or> tasks s p \<noteq> None)"

definition oom_inv :: "sys_oom_ctrl \<Rightarrow> bool" where
  "oom_inv s \<longleftrightarrow> zones_ok (zones s) \<and> tasks_ok s"

lemma zones_ok_update [simp]:
  "zones_ok zs \<Longrightarrow> \<not> zone_lock z \<Longrightarrow> zones_ok (zs[i := z])"
  by (auto simp: zones_ok_def dest: set_update_subset_insert [THEN subsetD])

lemma zones_okD: "zones_ok zs \<Longrightarrow> length zs = 3" "zones_ok zs \<Longrightarrow> i < 3 \<Longrightarrow> \<not> zone_lock (zs ! i)"
  by (auto simp: zones_ok_def)

lemma tasks_ok_cong:
  "task_array s' = task_array s \<Longrightarrow> active_task_count s' = active_task_count s \<Longrightarrow>
   (\<And>p. tasks s p \<noteq> None \<Longrightarrow> tasks s' p \<noteq> None) \<Longrightarrow> tasks_ok s \<Longrightarrow> tasks_ok s'"
  by (fastforce simp: tasks_ok_def)

lemma limits_update [simp]:
  "i < length zs \<Longrightarrow> limits z = limits (zs ! i) \<Longrightarrow> map limits (zs[i := z]) = map limits zs"
  by (simp add: map_update list_update_same_conv)

text \<open>A state change that leaves the locks free, the zone limits and the task table alone.\<close>

definition keeps :: "sys_oom_ctrl \<Rightarrow> sys_oom_ctrl \<Rightarrow> bool" where
  "keeps s s' \<longleftrightarrow> zones_ok (zones s') \<and> map limits (zones s') = map limits (zones s) \<and>
     task_array s' = task_array s \<and> active_task_count s' = active_task_count s \<and>
     (\<forall>p. tasks s p \<noteq> None \<longrightarrow> tasks s' p \<noteq> None)"

lemma keeps_inv: "keeps s s' \<Longrightarrow> oom_inv s \<Longrightarrow> oom_inv s'"
  by (auto simp: keeps_def oom_inv_def intro: tasks_ok_cong)

lemma keeps_trans: "keeps s t \<Longrightarrow> keeps t u \<Longrightarrow> keeps s u"
  by (auto simp: keeps_def)

lemma keeps_wm_min:
  assumes "keeps s s'" "i < 3" "zones_ok (zones s)"
  shows "wm_min (zones s' ! i) = wm_min (zones s ! i)"
proof -
  have m: "map limits (zones s') ! i = map limits (zones s) ! i" using assms by (simp add: keeps_def)
  have "i < length (zones s')" "i < length (zones s)" using assms by (simp_all add: keeps_def zones_ok_def)
  from m [unfolded nth_map [OF this(1)] nth_map [OF this(2)]] show ?thesis by (simp add: limits_def)
qed

lemma keeps_update:
  "zones_ok (zones s) \<Longrightarrow> i < 3 \<Longrightarrow> \<not> zone_lock z \<Longrightarrow> limits z = limits (zones s ! i) \<Longrightarrow>
   zones s' = (zones s)[i := z] \<Longrightarrow> task_array s' = task_array s \<Longrightarrow>
   active_task_count s' = active_task_count s \<Longrightarrow> (\<forall>p. tasks s p \<noteq> None \<longrightarrow> tasks s' p \<noteq> None) \<Longrightarrow>
   keeps s s'"
  by (simp add: keeps_def zones_okD)

section \<open>Reclaim keeps the accounting in its limits\<close>

lemma shrink_zone_keeps:
  assumes "zones_ok (zones s)" "i < 3"
  shows "keeps s (fst (shrink_zone i (s, r)))"
  using assms
  by (auto simp: shrink_zone_def Let_def limits_def zones_okD keeps_def intro!: keeps_update [of s i])

lemma shrink_slab_keeps:
  assumes "zones_ok (zones s)"
  shows "keeps s (sys_shrink_slab_caches s)"
proof -
  let ?s0 = "upd_hw (\<lambda>h. h\<lparr>RECLAIM_TRIG := 1\<rparr>) s"
  obtain s1 r1 where 1: "shrink_zone 0 (?s0, 0) = (s1, r1)" by (cases "shrink_zone 0 (?s0, 0)")
  obtain s2 r2 where 2: "shrink_zone (Suc 0) (s1, r1) = (s2, r2)" by (cases "shrink_zone (Suc 0) (s1, r1)")
  obtain s3 r3 where 3: "shrink_zone 2 (s2, r2) = (s3, r3)" by (cases "shrink_zone 2 (s2, r2)")
  have k0: "keeps s ?s0" using assms by (simp add: keeps_def)
  have "keeps ?s0 s1" using shrink_zone_keeps [of ?s0 0 0] assms 1 by simp
  with k0 have k1: "keeps s s1" by (rule keeps_trans)
  have "keeps s1 s2" using shrink_zone_keeps [of s1 "Suc 0" r1] k1 2 by (simp add: keeps_def)
  with k1 have k2: "keeps s s2" by (rule keeps_trans)
  have "keeps s2 s3" using shrink_zone_keeps [of s2 2 r2] k2 3 by (simp add: keeps_def)
  with k2 have "keeps s s3" by (rule keeps_trans)
  then show ?thesis by (simp add: sys_shrink_slab_caches_def 1 2 3 keeps_def)
qed

lemma shrink_page_cache_keeps:
  assumes "zones_ok (zones s)"
  shows "keeps s (sys_shrink_page_cache s)"
  using assms
  by (auto simp: sys_shrink_page_cache_def Let_def limits_def zones_okD keeps_def
      intro!: keeps_update [of s 1])

section \<open>The victim\<close>

text \<open>Tasks the killer never considers.\<close>

definition exempt :: "sys_task \<Rightarrow> bool" where
  "exempt t \<longleftrightarrow> task_flags t AND OOM_FLAG_UNKILLABLE \<noteq> 0 \<or>
     task_state t = TASK_STATE_DEAD \<or> task_state t = TASK_STATE_ZOMBIE \<or> oom_score_adj t = -1000"

lemma unat_pos_sint:
  fixes a :: u32
  assumes "0 < sint a" "sint a \<le> 10000"
  shows "0 < unat a" "unat a \<le> 10000"
proof -
  obtain k where k: "sint a = int k" "0 < k" "k \<le> 10000"
    using assms by (metis of_nat_0_less_iff of_nat_le_iff of_nat_numeral pos_int_cases)
  have "a = word_of_int (sint a)" by simp
  then have "a = word_of_nat k" using k(1) by simp
  then have "unat a = k" using k(3) by (simp add: unat_of_nat)
  with k show "0 < unat a" "unat a \<le> 10000" by auto
qed

lemma badness_range:
  assumes "sys_calculate_badness t n = Inr b"
  shows "unat b \<le> 10000" "b = 0 \<longleftrightarrow> exempt t"
proof -
  have "unat b \<le> 10000 \<and> (b = 0 \<longleftrightarrow> exempt t)"
  proof (cases "exempt t")
    case True
    with assms show ?thesis
      by (auto simp: sys_calculate_badness_def exempt_def split: if_splits)
  next
    case False
    then have "\<exists>a. b = clamp_score a"
      using assms unfolding sys_calculate_badness_def exempt_def Let_def
      by (simp only: de_Morgan_disj if_False split: if_splits) auto
    then obtain a where "b = clamp_score a" ..
    then show ?thesis
      using False unat_pos_sint [of a] by (auto simp: clamp_score_def unat_eq_0 [symmetric])
  qed
  then show "unat b \<le> 10000" "b = 0 \<longleftrightarrow> exempt t" by auto
qed

lemma badness_defined:
  "(\<exists>b. sys_calculate_badness t n = Inr b) \<or> n = 0 \<and> sys_calculate_badness t n = Inl Divide_error"
  by (simp add: sys_calculate_badness_def Let_def)

text \<open>The score the killer gives to a table entry.\<close>

definition score_of :: "(u32 \<Rightarrow> sys_task option) \<Rightarrow> u32 \<Rightarrow> u32 \<Rightarrow> u32" where
  "score_of mem n p =
     (if p = 0 then 0 else case mem p of None \<Rightarrow> 0 | Some t \<Rightarrow>
        (case sys_calculate_badness t n of Inl _ \<Rightarrow> 0 | Inr b \<Rightarrow> b))"

lemma select_loop_max:
  assumes "select_loop mem n ps c h = Inr r"
  shows "(r = c \<and> (\<forall>p \<in> set ps. score_of mem n p \<le> h)) \<or>
     (\<exists>i < length ps. r = ps ! i \<and> h < score_of mem n r \<and>
        (\<forall>p \<in> set ps. score_of mem n p \<le> score_of mem n r) \<and>
        (\<forall>j < i. score_of mem n (ps ! j) < score_of mem n r))"
  using assms
proof (induction ps arbitrary: c h)
  case (Cons p ps)
  let ?f = "score_of mem n"
  consider (skip) "select_loop mem n ps c h = Inr r" "?f p \<le> h"
    | (take) "select_loop mem n ps p (?f p) = Inr r" "h < ?f p"
    using Cons.prems
    by (fastforce simp: score_of_def bindE_eq_Inr split: option.splits if_splits)
  then show ?case
  proof cases
    case skip
    from Cons.IH [OF skip(1)] show ?thesis
    proof
      assume "\<exists>i < length ps. r = ps ! i \<and> h < ?f r \<and> (\<forall>p \<in> set ps. ?f p \<le> ?f r) \<and> (\<forall>j < i. ?f (ps ! j) < ?f r)"
      then obtain i where i: "i < length ps" "r = ps ! i" "h < ?f r" "\<forall>p \<in> set ps. ?f p \<le> ?f r"
        "\<forall>j < i. ?f (ps ! j) < ?f r" by blast
      have "\<forall>j < Suc i. ?f ((p # ps) ! j) < ?f r"
        using i(3,5) skip(2) by (auto simp: less_Suc_eq_0_disj)
      with i skip(2) show ?thesis by (intro disjI2 exI [of _ "Suc i"]) auto
    qed (use skip(2) in auto)
  next
    case take
    from Cons.IH [OF take(1)] show ?thesis
    proof
      assume "r = p \<and> (\<forall>q \<in> set ps. ?f q \<le> ?f p)"
      with take(2) show ?thesis by (intro disjI2 exI [of _ 0]) auto
    next
      assume "\<exists>i < length ps. r = ps ! i \<and> ?f p < ?f r \<and> (\<forall>q \<in> set ps. ?f q \<le> ?f r) \<and> (\<forall>j < i. ?f (ps ! j) < ?f r)"
      then obtain i where i: "i < length ps" "r = ps ! i" "?f p < ?f r" "\<forall>q \<in> set ps. ?f q \<le> ?f r"
        "\<forall>j < i. ?f (ps ! j) < ?f r" by blast
      have "\<forall>j < Suc i. ?f ((p # ps) ! j) < ?f r"
        using i(3,5) by (auto simp: less_Suc_eq_0_disj)
      with i take(2) show ?thesis by (intro disjI2 exI [of _ "Suc i"]) auto
    qed
  qed
qed simp


lemma select_bad_process_SomeD:
  assumes "sys_select_bad_process s = Inr p" "p \<noteq> 0"
  shows "\<exists>i < unat (active_task_count s). p = task_array s ! i \<and>
     0 < score_of (tasks s) (total_sys_pages s) p \<and>
     (\<forall>j < unat (active_task_count s).
        score_of (tasks s) (total_sys_pages s) (task_array s ! j) \<le> score_of (tasks s) (total_sys_pages s) p) \<and>
     (\<forall>j < i. score_of (tasks s) (total_sys_pages s) (task_array s ! j) <
        score_of (tasks s) (total_sys_pages s) p)"
proof -
  let ?ps = "take (unat (active_task_count s)) (task_array s)" and ?f = "score_of (tasks s) (total_sys_pages s)"
  have len: "length ?ps = unat (active_task_count s)"
    and sel: "select_loop (tasks s) (total_sys_pages s) ?ps 0 0 = Inr p"
    using assms(1) by (auto simp: sys_select_bad_process_def split: if_splits)
  obtain i where i: "i < length ?ps" "p = ?ps ! i" "0 < ?f p" "\<forall>q \<in> set ?ps. ?f q \<le> ?f p"
    "\<forall>j < i. ?f (?ps ! j) < ?f p"
    using select_loop_max [OF sel] assms(2) by auto
  have "\<forall>j < unat (active_task_count s). ?f (task_array s ! j) \<le> ?f p"
    using i(4) len by (metis nth_mem nth_take)
  moreover have "\<forall>j < i. ?f (task_array s ! j) < ?f p"
    using i(1,5) len by auto
  ultimately show ?thesis using i len by (intro exI [of _ i]) auto
qed

lemma score_pos_task:
  "0 < score_of mem n p \<Longrightarrow> \<exists>t. p \<noteq> 0 \<and> mem p = Some t \<and> \<not> exempt t"
  by (auto simp: score_of_def dest!: badness_range(2) split: if_splits option.splits sum.splits)

lemma sigkill_ok:
  assumes "zones_ok (zones s)" "tasks s p = Some v"
  shows "\<exists>s'. sys_send_sigkill p v s = Inr ((), s') \<and> keeps s s' \<and>
     tasks s' = (tasks s)(p \<mapsto> v\<lparr>task_state := TASK_STATE_DEAD, rss_pages := 0, virtual_pages := 0\<rparr>) \<and>
     free_pages (zones s' ! ZONE_NORMAL) = free_pages (zones s ! ZONE_NORMAL) + rss_pages v \<and>
     (\<forall>i. i \<noteq> ZONE_NORMAL \<longrightarrow> zones s' ! i = zones s ! i) \<and>
     total_oom_kills s' = total_oom_kills s + 1 \<and> total_reclaimed s' = total_reclaimed s \<and>
     OOM_VICTIM_PID (hw s') = pid v"
  using assms zones_okD(1) [OF assms(1)] zones_okD(2) [OF assms(1), of "Suc 0"]
  by (simp add: sys_send_sigkill_def Let_def sys_zone_lock_def sys_zone_unlock_def keeps_def limits_def
      nth_list_update)

lemma trigger_InrD:
  assumes "oom_inv s" "sys_trigger_oom_killer s = Inr ((), s')"
  shows "\<exists>i v. i < unat (active_task_count s) \<and> tasks s (task_array s ! i) = Some v \<and>
     sys_select_bad_process s = Inr (task_array s ! i) \<and> task_array s ! i \<noteq> 0 \<and>
     pid v \<noteq> 1 \<and> task_flags v AND OOM_FLAG_CRITICAL = 0 \<and> \<not> exempt v \<and>
     sys_send_sigkill (task_array s ! i) v s = Inr ((), s')"
proof -
  from assms(2) obtain p v where p: "sys_select_bad_process s = Inr p" "p \<noteq> 0" "tasks s p = Some v"
    "pid v \<noteq> 1" "task_flags v AND OOM_FLAG_CRITICAL = 0" "sys_send_sigkill p v s = Inr ((), s')"
    by (auto simp: sys_trigger_oom_killer_def sys_oom_panic_def split: sum.splits option.splits if_splits)
  from select_bad_process_SomeD [OF p(1,2)] obtain i where
    i: "i < unat (active_task_count s)" "p = task_array s ! i" "0 < score_of (tasks s) (total_sys_pages s) p"
    by blast
  from score_pos_task [OF i(3)] p(3) have "\<not> exempt v" by auto
  with i p show ?thesis by (intro exI [of _ i] exI [of _ v]) simp
qed

lemma trigger_keeps: "oom_inv s \<Longrightarrow> sys_trigger_oom_killer s = Inr ((), s') \<Longrightarrow> keeps s s'"
  using trigger_InrD sigkill_ok by (fastforce simp: oom_inv_def)

text \<open>The killer does not fault on memory: it divides by zero, panics, or kills.\<close>

lemma select_loop_defined:
  "\<forall>p \<in> set ps. p = 0 \<or> mem p \<noteq> None \<Longrightarrow>
   (\<exists>r. select_loop mem n ps c h = Inr r) \<or> n = 0 \<and> select_loop mem n ps c h = Inl Divide_error"
proof (induction ps arbitrary: c h)
  case (Cons p ps)
  show ?case
  proof (cases "p = 0")
    case False
    with Cons.prems obtain t where t: "mem p = Some t" by auto
    have ps: "\<forall>p \<in> set ps. p = 0 \<or> mem p \<noteq> None" using Cons.prems by simp
    show ?thesis
    proof (cases "sys_calculate_badness t n")
      case (Inr b)
      with t False Cons.IH [OF ps, of p b] Cons.IH [OF ps, of c h] show ?thesis by (cases "h < b") simp_all
    qed (use t False badness_defined [of t n] in auto)
  qed (use Cons in simp)
qed simp

lemma trigger_cases:
  assumes "oom_inv s"
  obtains s' where "sys_trigger_oom_killer s = Inr ((), s')"
    | m s' where "sys_trigger_oom_killer s = Inl (Panic m, s')"
    | s' where "sys_trigger_oom_killer s = Inl (Divide_error, s')" "total_sys_pages s = 0"
proof -
  have len: "\<not> length (task_array s) < unat (active_task_count s)" using assms by (auto simp: oom_inv_def tasks_ok_def)
  have "(\<exists>p. sys_select_bad_process s = Inr p) \<or>
      total_sys_pages s = 0 \<and> sys_select_bad_process s = Inl Divide_error"
    unfolding sys_select_bad_process_def if_not_P [OF len]
    using assms by (intro select_loop_defined) (auto simp: oom_inv_def tasks_ok_def)
  then consider (p) p where "sys_select_bad_process s = Inr p"
    | (div) "total_sys_pages s = 0" "sys_select_bad_process s = Inl Divide_error" by blast
  then show thesis
  proof cases
    case p
    show thesis
    proof (cases "p = 0")
      case False
      from select_bad_process_SomeD [OF p False] score_pos_task obtain v where v: "tasks s p = Some v" by blast
      obtain s' where s': "sys_send_sigkill p v s = Inr ((), s')"
        using sigkill_ok [of s p v] v assms by (auto simp: oom_inv_def)
      show thesis
      proof (cases "pid v = 1 \<or> task_flags v AND OOM_FLAG_CRITICAL \<noteq> 0")
        case True
        with p False v that(2) show thesis by (simp add: sys_trigger_oom_killer_def sys_oom_panic_def)
      next
        case alive: False
        with p False v s' that(1) show thesis by (simp add: sys_trigger_oom_killer_def)
      qed
    qed (use p that(2) in \<open>simp add: sys_trigger_oom_killer_def sys_oom_panic_def\<close>)
  qed (use that(3) in \<open>simp add: sys_trigger_oom_killer_def\<close>)
qed

section \<open>Allocation\<close>

text \<open>The zone can give \<open>cnt\<close> pages and keep its reserve.\<close>

definition can_alloc :: "nat \<Rightarrow> u32 \<Rightarrow> sys_oom_ctrl \<Rightarrow> bool" where
  "can_alloc i cnt s \<longleftrightarrow> cnt + wm_min (zones s ! i) \<le> free_pages (zones s ! i)"

definition take_pages :: "nat \<Rightarrow> u32 \<Rightarrow> sys_oom_ctrl \<Rightarrow> sys_oom_ctrl" where
  "take_pages i cnt s = upd_zone i (\<lambda>z. z\<lparr>free_pages := free_pages z - cnt\<rparr>) s"

definition page_address :: "sys_oom_ctrl \<Rightarrow> u32" where
  "page_address s = 0x10000000 + total_reclaimed s * PAGE_SIZE"

lemma unlock_lock_id:
  "i < length (zones s) \<Longrightarrow> \<not> zone_lock (zones s ! i) \<Longrightarrow>
   upd_zone i (\<lambda>z. z\<lparr>zone_lock := False\<rparr>) (upd_zone i (\<lambda>z. f z\<lparr>zone_lock := True\<rparr>) s) =
   upd_zone i (\<lambda>z. f z\<lparr>zone_lock := False\<rparr>) s"
  by (simp add: upd_zone_def)

lemma alloc_try_eq:
  assumes "zones_ok (zones s)" "i < 3"
  shows "alloc_try i cnt s =
     (if can_alloc i cnt s then Inr (Some (page_address s), take_pages i cnt s) else Inr (None, s))"
proof -
  have l: "i < length (zones s)" "\<not> zone_lock (zones s ! i)" using zones_okD [OF assms(1)] assms(2) by auto
  have un: "(zones s ! i)\<lparr>free_pages := n, zone_lock := False\<rparr> = (zones s ! i)\<lparr>free_pages := n\<rparr>"
    "(zones s ! i)\<lparr>zone_lock := False\<rparr> = zones s ! i" for n
    using l by (cases "zones s ! i"; simp)+
  from l show ?thesis
    by (simp add: un alloc_try_def can_alloc_def sys_zone_lock_def sys_zone_unlock_def take_pages_def
        page_address_def Let_def upd_zone_def)
qed

lemma take_pages_keeps: "zones_ok (zones s) \<Longrightarrow> i < 3 \<Longrightarrow> keeps s (take_pages i cnt s)"
  by (rule keeps_update [where i = i]) (auto simp: take_pages_def zones_okD limits_def)

lemma take_pages_watermark:
  assumes "can_alloc i cnt s" "unat cnt + unat (wm_min (zones s ! i)) < 2 ^ 32" "i < length (zones s)"
  shows "wm_min (zones (take_pages i cnt s) ! i) \<le> free_pages (zones (take_pages i cnt s) ! i)"
    "unat (free_pages (zones (take_pages i cnt s) ! i)) + unat cnt = unat (free_pages (zones s ! i))"
proof -
  let ?w = "wm_min (zones s ! i)" and ?f = "free_pages (zones s ! i)"
  have "unat (cnt + ?w) = unat cnt + unat ?w" using assms(2) unat_add_lem [of cnt ?w] by simp
  then have le: "unat cnt + unat ?w \<le> unat ?f" using assms(1) by (simp add: can_alloc_def word_le_nat_alt)
  then have "unat (?f - cnt) = unat ?f - unat cnt" by (simp add: unat_sub_if')
  with le assms(3) show "wm_min (zones (take_pages i cnt s) ! i) \<le> free_pages (zones (take_pages i cnt s) ! i)"
    "unat (free_pages (zones (take_pages i cnt s) ! i)) + unat cnt = unat ?f"
    by (simp_all add: take_pages_def word_le_nat_alt)
qed

lemma keeps_total: "keeps s t \<Longrightarrow> zones_ok (zones s) \<Longrightarrow> total_sys_pages t = total_sys_pages s"
proof -
  assume k: "keeps s t" and z: "zones_ok (zones s)"
  have "managed_pages (zones t ! i) = managed_pages (zones s ! i)" if "i < 3" for i
  proof -
    have m: "map limits (zones t) ! i = map limits (zones s) ! i" using k by (simp add: keeps_def)
    have "i < length (zones t)" "i < length (zones s)" using k z that by (simp_all add: keeps_def zones_ok_def)
    from m [unfolded nth_map [OF this(1)] nth_map [OF this(2)]] show ?thesis by (simp add: limits_def)
  qed
  then show ?thesis by (simp add: total_sys_pages_def)
qed

lemma cannot_alloc_iff:
  assumes "unat cnt + unat (wm_min (zones s ! i)) < 2 ^ 32"
  shows "\<not> can_alloc i cnt s \<longleftrightarrow> unat (free_pages (zones s ! i)) < unat cnt + unat (wm_min (zones s ! i))"
  using assms unat_add_lem [of cnt "wm_min (zones s ! i)"] by (auto simp: can_alloc_def word_le_nat_alt)

text \<open>
  The states an attempt may find: the state of the call, then what the slab caches, the page cache and
  the killer made of it, in the order they are tried.
\<close>

definition relieved :: "nat \<Rightarrow> sys_oom_ctrl \<Rightarrow> sys_oom_ctrl \<Rightarrow> bool" where
  "relieved n s t =
     (if n = 0 then t = s
      else if n = 1 then t = sys_shrink_slab_caches s
      else if n = 2 then t = sys_shrink_page_cache (sys_shrink_slab_caches s)
      else n = 3 \<and> sys_trigger_oom_killer (sys_shrink_page_cache (sys_shrink_slab_caches s)) = Inr ((), t))"

lemma relieved_keeps:
  assumes "relieved n s t" "oom_inv s"
  shows "keeps s t"
proof -
  have z: "zones_ok (zones s)" using assms(2) by (simp add: oom_inv_def)
  let ?a = "sys_shrink_slab_caches s" and ?b = "sys_shrink_page_cache (sys_shrink_slab_caches s)"
  have a: "keeps s ?a" using shrink_slab_keeps [OF z] .
  then have "keeps ?a ?b" using shrink_page_cache_keeps by (simp add: keeps_def)
  with a have b: "keeps s ?b" by (rule keeps_trans)
  with z a b keeps_trans [OF b trigger_keeps [OF keeps_inv [OF b assms(2)]]] assms(1) show ?thesis
    by (auto simp: relieved_def keeps_def [of s s] split: if_splits)
qed

lemma alloc_retry_eq:
  assumes "zones_ok (zones s)" "i < 3"
  shows "alloc_retry r i cnt s =
     (if can_alloc i cnt s then Inr (page_address s, take_pages i cnt s)
      else if r = 0 then alloc_retry 1 i cnt (sys_shrink_slab_caches s)
      else if r = 1 then alloc_retry 2 i cnt (sys_shrink_page_cache s)
      else if r = 2 then bindE (sys_trigger_oom_killer s) (\<lambda>(_, s). alloc_retry 3 i cnt s)
      else sys_oom_panic ''OOM_ALLOC_FAILED_COMPLETELY'' 0xDEAD0002 s)"
  by (subst alloc_retry.simps) (simp add: alloc_try_eq [OF assms])

text \<open>The pages come from the first of those states that has them.\<close>

lemma alloc_retry_cases:
  assumes "oom_inv s" "i < 3"
  obtains n t where "n < 4" "relieved n s t" "\<forall>m < n. \<forall>u. relieved m s u \<longrightarrow> \<not> can_alloc i cnt u"
      "can_alloc i cnt t" "alloc_retry 0 i cnt s = Inr (page_address t, take_pages i cnt t)"
    | m s' where "alloc_retry 0 i cnt s = Inl (Panic m, s')"
    | s' where "alloc_retry 0 i cnt s = Inl (Divide_error, s')" "total_sys_pages s = 0"
proof -
  define a where "a = sys_shrink_slab_caches s"
  define b where "b = sys_shrink_page_cache a"
  have r: "relieved 0 s s" "relieved 1 s a" "relieved 2 s b" by (simp_all add: relieved_def a_def b_def)
  note k = r [THEN relieved_keeps, OF assms(1)]
  have z: "zones_ok (zones s)" "zones_ok (zones a)" "zones_ok (zones b)" using k by (simp_all add: keeps_def)
  have u: "relieved 0 s u \<longleftrightarrow> u = s" "relieved 1 s u \<longleftrightarrow> u = a" "relieved 2 s u \<longleftrightarrow> u = b" for u
    by (simp_all add: relieved_def a_def b_def)
  note e = alloc_retry_eq [OF z(1) assms(2), of 0 cnt] alloc_retry_eq [OF z(2) assms(2), of 1 cnt]
    alloc_retry_eq [OF z(3) assms(2), of 2 cnt]
  consider "can_alloc i cnt s" | "\<not> can_alloc i cnt s" "can_alloc i cnt a"
    | "\<not> can_alloc i cnt s" "\<not> can_alloc i cnt a" "can_alloc i cnt b"
    | (kill) "\<not> can_alloc i cnt s" "\<not> can_alloc i cnt a" "\<not> can_alloc i cnt b" by blast
  then show thesis
  proof cases
    case 1
    with that(1) [OF _ r(1)] e show thesis by simp
  next
    case 2
    with that(1) [OF _ r(2)] e u show thesis by (simp add: a_def less_Suc_eq)
  next
    case 3
    with that(1) [OF _ r(3)] e u show thesis by (simp add: a_def b_def less_Suc_eq numeral_2_eq_2)
  next
    case kill
    then have step: "alloc_retry 0 i cnt s = bindE (sys_trigger_oom_killer b) (\<lambda>(_, s). alloc_retry 3 i cnt s)"
      using e by (simp add: a_def b_def)
    have "oom_inv b" using keeps_inv [OF k(3) assms(1)] .
    then show thesis
    proof (cases rule: trigger_cases)
      case (1 t)
      then have t: "relieved 3 s t" by (simp add: relieved_def a_def b_def)
      have zt: "zones_ok (zones t)" using relieved_keeps [OF t assms(1)] by (simp add: keeps_def)
      show thesis
      proof (cases "can_alloc i cnt t")
        case True
        with that(1) [OF _ t] step 1 alloc_retry_eq [OF zt assms(2), of 3 cnt] kill u show thesis
          by (simp add: less_Suc_eq numeral_3_eq_3 numeral_2_eq_2)
      next
        case False
        with that(2) step 1 alloc_retry_eq [OF zt assms(2), of 3 cnt] show thesis by (simp add: sys_oom_panic_def)
      qed
    next
      case (2 m s')
      with that(2) step show thesis by simp
    next
      case (3 s')
      with that(3) step keeps_total [OF k(3) z(1)] show thesis by simp
    qed
  qed
qed

section \<open>Properties\<close>

definition zone_of :: "u32 \<Rightarrow> u32 \<Rightarrow> u32 \<Rightarrow> sys_mem_zone" where
  "zone_of m f w = \<lparr>managed_pages = m, free_pages = f, wm_min = w, wm_low = w, wm_high = w, zone_lock = False\<rparr>"

definition task_of :: "u32 \<Rightarrow> u32 \<Rightarrow> sys_task" where
  "task_of p rss = \<lparr>pid = p, ppid = 1, uid = 0, task_state = TASK_STATE_RUNNING, task_flags = 0,
     oom_score_adj = 0, rss_pages = rss, virtual_pages = rss, page_faults = 0, cpu_time_ms = 0, nice_value = 0\<rparr>"

definition oom_example :: "sys_oom_ctrl" where
  "oom_example = \<lparr>zones = [zone_of 100 0 0, zone_of 1000 20 10, zone_of 0 0 0], total_reclaimed = 0,
     total_oom_kills = 0, task_array = [0x100, 0x200] @ replicate 1022 0, active_task_count = 2,
     tasks = [0x100 \<mapsto> task_of 100 30, 0x200 \<mapsto> task_of 101 60],
     hw = \<lparr>PANIC_CTRL = 0, RECLAIM_TRIG = 0, KILL_SIG_VEC = 0, OOM_VICTIM_PID = 0\<rparr>, auto_pid = 102\<rparr>"

lemma oom_example_inv: "oom_inv oom_example"
  by (simp add: oom_inv_def zones_ok_def tasks_ok_def oom_example_def zone_of_def)

text \<open>
  C9: on a sound task table, when the out-of-memory killer returns, its victim is the first registered task
  of the highest badness (all before it score less, none after it more), never init, a critical, unkillable, dead or zombie task; it is marked dead with
  no pages, its pages went back to the normal zone, the kill was counted, and no other task changed.
\<close>
theorem oom_killer_takes_the_worst_task:
  assumes "oom_inv s" "sys_trigger_oom_killer s = Inr ((), s')"
  shows "\<exists>i v. i < unat (active_task_count s) \<and> tasks s (task_array s ! i) = Some v \<and>
     pid v \<noteq> 1 \<and> task_flags v AND OOM_FLAG_CRITICAL = 0 \<and> \<not> exempt v \<and>
     (\<forall>j < unat (active_task_count s). score_of (tasks s) (total_sys_pages s) (task_array s ! j)
        \<le> score_of (tasks s) (total_sys_pages s) (task_array s ! i)) \<and>
     (\<forall>j < i. score_of (tasks s) (total_sys_pages s) (task_array s ! j)
        < score_of (tasks s) (total_sys_pages s) (task_array s ! i)) \<and>
     tasks s' = (tasks s)(task_array s ! i \<mapsto>
        v\<lparr>task_state := TASK_STATE_DEAD, rss_pages := 0, virtual_pages := 0\<rparr>) \<and>
     free_pages (zones s' ! ZONE_NORMAL) = free_pages (zones s ! ZONE_NORMAL) + rss_pages v \<and>
     total_oom_kills s' = total_oom_kills s + 1"
proof -
  from trigger_InrD [OF assms] obtain i v where i: "i < unat (active_task_count s)"
    "tasks s (task_array s ! i) = Some v" "sys_select_bad_process s = Inr (task_array s ! i)"
    "task_array s ! i \<noteq> 0" "pid v \<noteq> 1" "task_flags v AND OOM_FLAG_CRITICAL = 0" "\<not> exempt v"
    "sys_send_sigkill (task_array s ! i) v s = Inr ((), s')" by blast
  have z: "zones_ok (zones s)" using assms(1) by (simp add: oom_inv_def)
  let ?f = "score_of (tasks s) (total_sys_pages s)"
  from select_bad_process_SomeD [OF i(3,4)] obtain k where k: "k < unat (active_task_count s)"
    "task_array s ! k = task_array s ! i"
    "\<forall>j < unat (active_task_count s). ?f (task_array s ! j) \<le> ?f (task_array s ! i)"
    "\<forall>j < k. ?f (task_array s ! j) < ?f (task_array s ! i)" by metis
  with sigkill_ok [OF z i(2)] i show ?thesis by (intro exI [of _ k] exI [of _ v]) auto
qed

lemma oom_example_trigger: "\<exists>s'. sys_trigger_oom_killer oom_example = Inr ((), s')"
  by (simp add: sys_trigger_oom_killer_def sys_select_bad_process_def oom_example_def total_sys_pages_def
      zone_of_def task_of_def sys_calculate_badness_def TASK_STATE_RUNNING_def TASK_STATE_DEAD_def
      TASK_STATE_ZOMBIE_def OOM_FLAG_UNKILLABLE_def OOM_FLAG_CRITICAL_def clamp_score_def
      sys_send_sigkill_def sys_zone_lock_def Let_def)

theorem oom_killer_takes_the_worst_task_witness:
  "\<exists>s' i. sys_trigger_oom_killer oom_example = Inr ((), s') \<and> i < (2 :: nat) \<and>
     tasks s' (task_array oom_example ! i) \<noteq> None"
proof -
  from oom_example_trigger obtain s' where s: "sys_trigger_oom_killer oom_example = Inr ((), s')" ..
  from oom_killer_takes_the_worst_task [OF oom_example_inv s] obtain i where
    "i < unat (active_task_count oom_example)" "tasks s' (task_array oom_example ! i) \<noteq> None" by auto
  with s show ?thesis by (intro exI [of _ s'] exI [of _ i]) (simp add: oom_example_def)
qed

text \<open>
  C11: on sound zones and task table, an allocation comes back, panics, or divides by zero when no zone has a
  page; it never spins on a lock or leaves the task table.  When it comes back, it was served from the first
  state that had the pages beside the reserve: the state of the call, or what the slab caches, the page cache
  and the killer, tried in this order, made of it.  Exactly the requested pages left the zone, its reserve is
  still there, and nothing else changed; the address depends on the pages reclaimed only.
\<close>
theorem alloc_pages_respects_the_reserve:
  assumes "oom_inv s" "0 \<le> zi" "zi < 3" "unat cnt + unat (wm_min (zones s ! nat zi)) < 2 ^ 32"
  shows "(\<exists>m s'. sys_alloc_pages zi cnt s = Inl (Panic m, s')) \<or>
     total_sys_pages s = 0 \<and> (\<exists>s'. sys_alloc_pages zi cnt s = Inl (Divide_error, s')) \<or>
     (\<exists>n t s'. n < 4 \<and> relieved n s t \<and>
        (\<forall>m < n. \<forall>u. relieved m s u \<longrightarrow>
           unat (free_pages (zones u ! nat zi)) < unat cnt + unat (wm_min (zones s ! nat zi))) \<and>
        sys_alloc_pages zi cnt s = Inr (0x10000000 + total_reclaimed t * PAGE_SIZE, s') \<and>
        unat (free_pages (zones s' ! nat zi)) + unat cnt = unat (free_pages (zones t ! nat zi)) \<and>
        wm_min (zones s ! nat zi) \<le> free_pages (zones s' ! nat zi) \<and>
        s' = t\<lparr>zones := (zones t)[nat zi := (zones t ! nat zi)\<lparr>free_pages := free_pages (zones s' ! nat zi)\<rparr>]\<rparr> \<and>
        keeps s s' \<and> oom_inv s')"
proof -
  have i: "nat zi < 3" using assms by auto
  have e: "sys_alloc_pages zi cnt s = alloc_retry 0 (nat zi) cnt s" using assms by (simp add: sys_alloc_pages_def)
  have z: "zones_ok (zones s)" using assms by (simp add: oom_inv_def)
  from assms(1) i show ?thesis
  proof (cases rule: alloc_retry_cases [where cnt = cnt])
    case (1 n t)
    have t: "keeps s t" using relieved_keeps [OF 1(2) assms(1)] .
    have zt: "zones_ok (zones t)" using t by (simp add: keeps_def)
    note len = zones_okD(1) [OF zt] and wm = keeps_wm_min [OF t i z]
    note w = take_pages_watermark [OF 1(4), unfolded len wm, OF assms(4) i]
    have k: "keeps s (take_pages (nat zi) cnt t)" using keeps_trans [OF t take_pages_keeps [OF zt i]] .
    have none: "unat (free_pages (zones u ! nat zi)) < unat cnt + unat (wm_min (zones s ! nat zi))"
      if "m < n" "relieved m s u" for m u
      using 1(3) that keeps_wm_min [OF relieved_keeps [OF that(2) assms(1)] i z] cannot_alloc_iff assms(4) by metis
    show ?thesis
      using 1(1,2,5) e w none k keeps_inv [OF k assms(1)] i len keeps_wm_min [OF k i z]
      by (intro disjI2 exI [of _ n] exI [of _ t] exI [of _ "take_pages (nat zi) cnt t"])
        (auto simp: page_address_def take_pages_def upd_zone_def)
  qed (use e in auto)
qed

theorem alloc_pages_respects_the_reserve_witness:
  "(\<exists>m s'. sys_alloc_pages 1 100 oom_example = Inl (Panic m, s')) \<or>
     (\<exists>t s'. sys_alloc_pages 1 100 oom_example = Inr (page_address t, s') \<and> oom_inv s' \<and>
        unat (free_pages (zones s' ! 1)) + 100 = unat (free_pages (zones t ! 1)))"
proof -
  have h: "0 \<le> (1 :: int)" "(1 :: int) < 3" "unat (100 :: u32) + unat (wm_min (zones oom_example ! nat 1)) < 2 ^ 32"
    by (simp_all add: oom_example_def zone_of_def)
  have "total_sys_pages oom_example \<noteq> 0" by (simp add: oom_example_def total_sys_pages_def zone_of_def)
  with alloc_pages_respects_the_reserve [OF oom_example_inv h] show ?thesis by (fastforce simp: page_address_def)
qed

text \<open>
  The address an allocation returns depends only on how many pages were ever reclaimed, so two
  allocations that need no reclaim are given the same address.
\<close>
lemma allocations_share_an_address:
  assumes "oom_inv s" "0 \<le> zi" "zi < 3" "sys_alloc_pages zi cnt s = Inr (a, s')"
    "can_alloc (nat zi) cnt s" "can_alloc (nat zi) cnt' s'"
  shows "\<exists>s''. sys_alloc_pages zi cnt' s' = Inr (a, s'')"
proof -
  have i: "nat zi < 3" using assms by auto
  have z: "zones_ok (zones s)" using assms by (simp add: oom_inv_def)
  have r: "alloc_retry 0 (nat zi) c u = Inr (page_address u, take_pages (nat zi) c u)"
    if "zones_ok (zones u)" "can_alloc (nat zi) c u" for c u
    using that i by (subst alloc_retry.simps) (simp add: alloc_try_eq)
  have s': "a = page_address s" "s' = take_pages (nat zi) cnt s"
    using assms(2-4) r [OF z assms(5)] by (simp_all add: sys_alloc_pages_def)
  have "zones_ok (zones s')" using take_pages_keeps [OF z i] s' by (simp add: keeps_def)
  from r [OF this assms(6)] assms(2,3) s' show ?thesis
    by (simp add: sys_alloc_pages_def page_address_def take_pages_def)
qed

lemma allocations_share_an_address_witness:
  "\<exists>s' s''. sys_alloc_pages 1 4 oom_example = Inr (0x10000000, s') \<and> sys_alloc_pages 1 4 s' = Inr (0x10000000, s'')"
proof -
  obtain s' where s': "sys_alloc_pages 1 4 oom_example = Inr (0x10000000, s')" "can_alloc 1 4 s'"
    by (simp add: sys_alloc_pages_def alloc_retry.simps [of 0] alloc_try_def oom_example_def zone_of_def
        sys_zone_lock_def sys_zone_unlock_def can_alloc_def Let_def)
  have "can_alloc 1 4 oom_example" by (simp add: can_alloc_def oom_example_def zone_of_def)
  with allocations_share_an_address [OF oom_example_inv _ _ s'(1), of 4] s' show ?thesis by simp
qed

text \<open>
  Nothing calls the zone initialisation, and with the zeroed zones of the boot image no allocation
  of a page ever returns: it panics, or traps on the division by the total number of pages.
\<close>
lemma boot_zones_cannot_allocate:
  assumes "zones s = replicate 3 (zone_of 0 0 0)" "tasks_ok s" "cnt \<noteq> 0" "0 \<le> zi" "zi < 3"
  shows "\<exists>f s'. sys_alloc_pages zi cnt s = Inl (f, s')"
proof (rule ccontr)
  assume "\<nexists>f s'. sys_alloc_pages zi cnt s = Inl (f, s')"
  then obtain a s' where a: "alloc_retry 0 (nat zi) cnt s = Inr (a, s')"
    using assms by (cases "alloc_retry 0 (nat zi) cnt s") (auto simp: sys_alloc_pages_def)
  let ?i = "nat zi"
  have i: "?i < 3" using assms by auto
  have z: "zones_ok (zones u)" "\<not> can_alloc ?i cnt u" "total_sys_pages u = 0"
    if "zones u = replicate 3 (zone_of 0 0 0)" for u
    using that assms(3) i by (simp_all add: zones_ok_def zone_of_def can_alloc_def total_sys_pages_def word_le_nat_alt unat_eq_0)
  have shr: "zones (sys_shrink_slab_caches u) = zones u" "tasks_ok (sys_shrink_slab_caches u) = tasks_ok u"
    "zones (sys_shrink_page_cache u) = zones u" "tasks_ok (sys_shrink_page_cache u) = tasks_ok u"
    if "zones u = replicate 3 (zone_of 0 0 0)" for u
    using that by (simp_all add: sys_shrink_slab_caches_def sys_shrink_page_cache_def shrink_zone_def zone_of_def
        Let_def tasks_ok_def eval_nat_numeral)
  have none: "alloc_try ?i cnt u = Inr (None, u)" if "zones u = replicate 3 (zone_of 0 0 0)" for u
    using alloc_try_eq [OF z(1) [OF that] i] z(2) [OF that] by simp
  let ?u = "sys_shrink_page_cache (sys_shrink_slab_caches s)"
  have u: "zones ?u = replicate 3 (zone_of 0 0 0)" "tasks_ok ?u" using assms(1,2) by (simp_all add: shr)
  have "alloc_retry 0 ?i cnt s = alloc_retry 1 ?i cnt (sys_shrink_slab_caches s)"
    by (subst alloc_retry.simps) (simp add: none assms)
  also have "\<dots> = alloc_retry 2 ?i cnt ?u"
    by (subst alloc_retry.simps) (simp add: none assms shr)
  also have "\<dots> = bindE (sys_trigger_oom_killer ?u) (\<lambda>(_, s). alloc_retry 3 ?i cnt s)"
    by (subst alloc_retry.simps) (simp add: none u)
  finally have "bindE (sys_trigger_oom_killer ?u) (\<lambda>(_, s). alloc_retry 3 ?i cnt s) = Inr (a, s')"
    using a by simp
  then obtain v where v: "sys_trigger_oom_killer ?u = Inr ((), v)" by (auto simp: bindE_eq_Inr)
  have "oom_inv ?u" using u z(1) by (simp add: oom_inv_def)
  from trigger_InrD [OF this v] select_bad_process_SomeD obtain p where
    p: "0 < score_of (tasks ?u) (total_sys_pages ?u) p" by blast
  from score_pos_task [OF this] obtain t where "tasks ?u p = Some t" "\<not> exempt t" by blast
  with p show False using z(3) [OF u(1)]
    by (auto simp: score_of_def sys_calculate_badness_def exempt_def split: if_splits)
qed

lemma boot_zones_cannot_allocate_witness:
  "\<exists>f s'. sys_alloc_pages 1 1 (oom_example\<lparr>zones := replicate 3 (zone_of 0 0 0)\<rparr>) = Inl (f, s')"
  using oom_example_inv by (intro boot_zones_cannot_allocate) (auto simp: oom_inv_def tasks_ok_def)

end
