(* ===== verification/WX_Ipc.thy ===== *)
theory WX_Ipc
  imports WX_Strings
begin

text \<open>
  The message channel of a process (\<open>multitasking.h\<close>): a circular buffer of 32 messages of at most
  128 bytes, and the halves of \<open>scheduler_ipc_send\<close> and \<open>scheduler_ipc_receive\<close> that work on it once their
  tests for a full and for an empty channel have passed.
\<close>

section \<open>Channels\<close>

record ipc_message =
  msg_data :: "char list"
  sender_id :: u32
  msg_length :: u32
  msg_type :: u32

record ipc_channel =
  ch_queue :: "ipc_message list"
  ch_head :: u32
  ch_tail :: u32
  ch_count :: u32
  ch_lock :: u32

definition SCHED_IPC_MAX_MESSAGES :: u32 where "SCHED_IPC_MAX_MESSAGES = 32"
definition SCHED_IPC_MSG_SIZE :: u32 where "SCHED_IPC_MSG_SIZE = 128"

text \<open>The cleared channel \<open>scheduler_memory_set\<close> leaves.\<close>

definition zero_message :: ipc_message where
  "zero_message = \<lparr>msg_data = replicate 128 NUL, sender_id = 0, msg_length = 0, msg_type = 0\<rparr>"

definition zero_channel :: ipc_channel where
  "zero_channel = \<lparr>ch_queue = replicate 32 zero_message, ch_head = 0, ch_tail = 0, ch_count = 0, ch_lock = 0\<rparr>"

text \<open>Lines 420-426 of \<open>scheduler_ipc_send\<close>: fill the slot at the tail, advance, count.\<close>

definition channel_push :: "u32 \<Rightarrow> char list \<Rightarrow> u32 \<Rightarrow> u32 \<Rightarrow> ipc_channel \<Rightarrow> fault + ipc_channel" where
  "channel_push sender message_ptr len type channel =
     bindE (get (ch_queue channel) (unat (ch_tail channel))) (\<lambda>msg.
     bindE (sys_memcpy (msg_data msg) message_ptr (unat len)) (\<lambda>d.
     bindE (put (ch_queue channel) (unat (ch_tail channel))
              (msg\<lparr>sender_id := sender, msg_length := len, msg_type := type, msg_data := d\<rparr>)) (\<lambda>q.
       Inr (channel\<lparr>ch_queue := q, ch_tail := (ch_tail channel + 1) mod SCHED_IPC_MAX_MESSAGES,
              ch_count := ch_count channel + 1\<rparr>))))"

text \<open>
  Lines 447-458 of \<open>scheduler_ipc_receive\<close>: copy at most \<open>max_length\<close> bytes of the oldest message and
  drop it.  The result is the caller's buffer, the copied length, the sender and the type.
\<close>

definition channel_pop ::
    "char list \<Rightarrow> u32 \<Rightarrow> ipc_channel \<Rightarrow> fault + (char list \<times> u32 \<times> u32 \<times> u32) \<times> ipc_channel" where
  "channel_pop buffer max_length channel =
     bindE (get (ch_queue channel) (unat (ch_head channel))) (\<lambda>msg.
       let copy_length = (if max_length < msg_length msg then max_length else msg_length msg) in
       bindE (sys_memcpy buffer (msg_data msg) (unat copy_length)) (\<lambda>b.
         Inr ((b, copy_length, sender_id msg, msg_type msg),
              channel\<lparr>ch_head := (ch_head channel + 1) mod SCHED_IPC_MAX_MESSAGES,
                      ch_count := ch_count channel - 1\<rparr>)))"

section \<open>Invariant and contents\<close>

definition message_ok :: "ipc_message \<Rightarrow> bool" where
  "message_ok m \<longleftrightarrow> length (msg_data m) = 128 \<and> unat (msg_length m) \<le> 128"

definition channel_inv :: "ipc_channel \<Rightarrow> bool" where
  "channel_inv c \<longleftrightarrow> length (ch_queue c) = 32 \<and> unat (ch_head c) < 32 \<and> unat (ch_count c) \<le> 32 \<and>
     unat (ch_tail c) = (unat (ch_head c) + unat (ch_count c)) mod 32 \<and>
     (\<forall>m \<in> set (ch_queue c). message_ok m)"

text \<open>What a receiver can see of a message: who sent it, of which type, which bytes.\<close>

definition message_view :: "ipc_message \<Rightarrow> u32 \<times> u32 \<times> char list" where
  "message_view m = (sender_id m, msg_type m, take (unat (msg_length m)) (msg_data m))"

definition channel_list :: "ipc_channel \<Rightarrow> (u32 \<times> u32 \<times> char list) list" where
  "channel_list c = map message_view (ring_list (ch_queue c) (unat (ch_head c)) (unat (ch_count c)))"

lemma channel_inv_zero: "channel_inv zero_channel"
  by (simp add: channel_inv_def zero_channel_def message_ok_def zero_message_def)

lemma channel_list_zero: "channel_list zero_channel = []"
  by (simp add: channel_list_def zero_channel_def)

lemma length_channel_list [simp]: "length (channel_list c) = unat (ch_count c)"
  by (simp add: channel_list_def)

lemma unat_mod_32: "unat ((x :: u32) mod SCHED_IPC_MAX_MESSAGES) = unat x mod 32"
  by (simp add: SCHED_IPC_MAX_MESSAGES_def unat_mod)

lemma channel_push_ok:
  assumes c: "channel_inv c" "unat (ch_count c) < 32" and m: "unat len \<le> 128" "unat len \<le> length msg"
  shows "\<exists>c'. channel_push s msg len ty c = Inr c' \<and> channel_inv c' \<and>
     channel_list c' = channel_list c @ [(s, ty, take (unat len) msg)] \<and> ch_count c' = ch_count c + 1"
proof -
  let ?t = "unat (ch_tail c)" and ?h = "unat (ch_head c)" and ?n = "unat (ch_count c)"
  have len: "length (ch_queue c) = 32" and t: "?t < 32" "?t = (?h + ?n) mod 32" and h: "?h < 32"
    using c by (auto simp: channel_inv_def)
  let ?old = "ch_queue c ! ?t"
  have old: "message_ok ?old" using c(1) t(1) len by (simp add: channel_inv_def)
  let ?new = "?old\<lparr>sender_id := s, msg_length := len, msg_type := ty,
    msg_data := take (unat len) msg @ drop (unat len) (msg_data ?old)\<rparr>"
  let ?c = "c\<lparr>ch_queue := (ch_queue c)[?t := ?new], ch_tail := (ch_tail c + 1) mod SCHED_IPC_MAX_MESSAGES,
    ch_count := ch_count c + 1\<rparr>"
  have new: "message_ok ?new" using old m by (simp add: message_ok_def)
  have cnt: "unat (ch_count c + 1) = Suc ?n" by (rule unat_inc_bound) (use c(2) in simp)
  have tail: "unat (ch_tail c + 1) = Suc ?t" by (rule unat_inc_bound) (use t(1) in simp)
  have run: "channel_push s msg len ty c = Inr ?c"
    using t(1) len m old by (simp add: channel_push_def sys_memcpy_eq message_ok_def)
  have inv: "channel_inv ?c"
    using c len h t(2) new cnt tail
    by (auto simp: channel_inv_def unat_mod_32 mod_Suc_eq dest: set_update_subset_insert [THEN subsetD])
  have ring: "ring_list ((ch_queue c)[?t := ?new]) ?h (Suc ?n) = ring_list (ch_queue c) ?h ?n @ [?new]"
    using ring_list_enq [of ?n "ch_queue c" ?h ?new] len c(2) t(2) by simp
  have "message_view ?new = (s, ty, take (unat len) msg)"
    using m by (simp add: message_view_def)
  with ring cnt have "channel_list ?c = channel_list c @ [(s, ty, take (unat len) msg)]"
    by (simp add: channel_list_def)
  with run inv show ?thesis by simp
qed

lemma channel_pop_ok:
  assumes c: "channel_inv c" "0 < unat (ch_count c)" and b: "128 \<le> length buffer \<or> unat mx \<le> length buffer"
  shows "\<exists>c' s ty bytes. channel_list c = (s, ty, bytes) # channel_list c' \<and> channel_inv c' \<and>
     ch_count c' = ch_count c - 1 \<and> length bytes \<le> 128 \<and>
     channel_pop buffer mx c =
       Inr ((take (unat mx) bytes @ drop (min (unat mx) (length bytes)) buffer,
             of_nat (min (unat mx) (length bytes)), s, ty), c')"
proof -
  let ?h = "unat (ch_head c)" and ?n = "unat (ch_count c)"
  have len: "length (ch_queue c) = 32" and h: "?h < 32" using c by (auto simp: channel_inv_def)
  let ?m = "ch_queue c ! ?h"
  have m: "message_ok ?m" using c(1) h len by (simp add: channel_inv_def)
  let ?c = "c\<lparr>ch_head := (ch_head c + 1) mod SCHED_IPC_MAX_MESSAGES, ch_count := ch_count c - 1\<rparr>"
  let ?bytes = "take (unat (msg_length ?m)) (msg_data ?m)"
  have cnt: "unat (ch_count c - 1) = ?n - 1" using c(2) by (rule unat_dec)
  have hd: "unat (ch_head c + 1) = Suc ?h" by (rule unat_inc_bound) (use h in simp)
  let ?cl = "if mx < msg_length ?m then mx else msg_length ?m"
  have cl1: "unat ?cl = min (unat mx) (length ?bytes)"
    using m by (auto simp: message_ok_def min_def word_less_nat_alt)
  have cl: "unat ?cl = min (unat mx) (length ?bytes)" "?cl = of_nat (min (unat mx) (length ?bytes))"
    by (fact cl1) (unfold cl1 [symmetric], simp)
  have le: "unat ?cl \<le> length buffer" "unat ?cl \<le> length (msg_data ?m)"
    using b m by (auto simp: message_ok_def cl(1))
  have "take (unat ?cl) (msg_data ?m) = take (unat mx) ?bytes"
    using m by (simp add: cl(1) message_ok_def min_def)
  with le cl have run: "channel_pop buffer mx c =
      Inr ((take (unat mx) ?bytes @ drop (min (unat mx) (length ?bytes)) buffer,
            of_nat (min (unat mx) (length ?bytes)), sender_id ?m, msg_type ?m), ?c)"
    unfolding channel_pop_def Let_def get_in [OF h [folded len]]
    by (simp add: sys_memcpy_eq)
  have ring: "ring_list (ch_queue c) ?h ?n = ?m # ring_list (ch_queue c) (Suc ?h mod 32) (?n - 1)"
    using ring_list_deq [OF c(2), of "ch_queue c" ?h] ring_list_hd [OF c(2), of ?h "ch_queue c"] len h c(2)
    by (cases "ring_list (ch_queue c) ?h ?n") (auto dest: arg_cong [of _ _ length])
  have "(Suc ?h mod 32 + (?n - 1)) mod 32 = (Suc ?h + (?n - 1)) mod 32" by (rule mod_add_left_eq)
  then have wrap: "(Suc ?h mod 32 + (?n - 1)) mod 32 = (?h + ?n) mod 32" using c(2) by simp
  have inv: "channel_inv ?c"
    using c h cnt hd wrap by (auto simp: channel_inv_def unat_mod_32)
  have "channel_list c = (sender_id ?m, msg_type ?m, ?bytes) # channel_list ?c"
    using ring cnt hd by (simp add: channel_list_def unat_mod_32 message_view_def)
  with run inv m show ?thesis
    by (intro exI [of _ ?c] exI [of _ "sender_id ?m"] exI [of _ "msg_type ?m"] exI [of _ ?bytes])
       (simp add: message_ok_def)
qed

lemma unat_small: "n \<le> 128 \<Longrightarrow> unat (of_nat n :: u32) = n"
  by (simp add: unat_of_nat)

end
