(* ===== verification/WX_Sched.thy ===== *)
theory WX_Sched
  imports WX_Ipc WX_Oom WX_Hex
begin

text \<open>
  The process scheduler of \<open>multitasking.h\<close>: the process table, priority selection with aging, the
  context switch, registration, sleeping, signals, messages, termination and waiting.

  The CPU is its general registers (\<open>cpu\<close>) and the words of stack memory (\<open>ram\<close>, by address); every
  stack access of the code is a whole aligned word.  Table indices are read with \<open>!\<close>: all of them
  are below \<open>active_process_count\<close>, at most 1024, which \<open>sched_inv\<close> states and every operation keeps.
\<close>

section \<open>State\<close>

record context_frame =
  r_edi :: u32
  r_esi :: u32
  r_ebp :: u32
  r_esp :: u32
  r_ebx :: u32
  r_edx :: u32
  r_ecx :: u32
  r_eax :: u32
  r_eflags :: u32

record signal_context =
  pending_signals :: u32
  blocked_signals :: u32
  handlers :: "u32 list"

record performance_metrics =
  execution_start_tick :: u32
  total_execution_ticks :: u32
  context_switches :: u32
  last_scheduled_tick :: u32
  syscall_count :: u32
  memory_allocations :: u32

record process_control_block =
  context_frame :: context_frame
  task_id :: u32
  parent_id :: u32
  execution_state :: u32
  memory_footprint_pages :: u32
  base_priority :: u32
  dynamic_priority :: u32
  accumulation_cycles :: u32
  allocation_flags :: u32
  stack_memory_block :: u32
  signal_subsystem :: signal_context
  metrics :: performance_metrics
  communication_channel :: ipc_channel
  waiting_on_pid :: u32
  sleep_until_tick :: u32

record scheduler_state =
  process_table :: "process_control_block list"
  active_process_count :: u32
  running_process_index :: u32
  scheduler_cycles :: u32
  process_identifier_seed :: u32
  idle_ticks :: u32
  kernel_elapsed_ticks :: u32
  cpu :: context_frame
  ram :: "u32 \<Rightarrow> u32"

definition SCHED_MAX_PRIORITY :: u32 where "SCHED_MAX_PRIORITY = 100"
definition SCHED_DEFAULT_PRIORITY :: u32 where "SCHED_DEFAULT_PRIORITY = 20"
definition SCHED_PRIORITY_AGING_LIMIT :: u32 where "SCHED_PRIORITY_AGING_LIMIT = 500"
definition SCHED_STACK_SIZE :: u32 where "SCHED_STACK_SIZE = 4096"

definition ST_RUNNING :: u32 where "ST_RUNNING = 0x01"
definition ST_DEAD :: u32 where "ST_DEAD = 0x08"
definition ST_BLOCKED :: u32 where "ST_BLOCKED = 0x10"
definition ST_STOPPED :: u32 where "ST_STOPPED = 0x20"

definition SIGNAL_SIGKILL :: u32 where "SIGNAL_SIGKILL = 9"
definition SIGNAL_SIGCONT :: u32 where "SIGNAL_SIGCONT = 18"
definition SIGNAL_SIGSTOP :: u32 where "SIGNAL_SIGSTOP = 19"

definition ERR_OK :: u32 where "ERR_OK = 0x00"
definition ERR_BUSY :: u32 where "ERR_BUSY = 0x04"
definition ERR_OVERFLOW :: u32 where "ERR_OVERFLOW = 0x11"
definition ERR_INVALID_OP :: u32 where "ERR_INVALID_OP = 0x13"
definition ERR_MEM_FAULT :: u32 where "ERR_MEM_FAULT = 0x20"
definition ERR_MEM_OUT_OF_MEM :: u32 where "ERR_MEM_OUT_OF_MEM = 0x21"
definition ERR_IO_NOT_FOUND :: u32 where "ERR_IO_NOT_FOUND = 0x32"
definition ERR_IO_PERMISSION :: u32 where "ERR_IO_PERMISSION = 0x34"

lemmas state_codes = ST_RUNNING_def ST_DEAD_def ST_BLOCKED_def ST_STOPPED_def

lemmas err_codes = ERR_OK_def ERR_BUSY_def ERR_OVERFLOW_def ERR_INVALID_OP_def ERR_MEM_FAULT_def
  ERR_MEM_OUT_OF_MEM_def ERR_IO_NOT_FOUND_def ERR_IO_PERMISSION_def

definition upd_pcb ::
    "nat \<Rightarrow> (process_control_block \<Rightarrow> process_control_block) \<Rightarrow> scheduler_state \<Rightarrow> scheduler_state" where
  "upd_pcb i f s = s\<lparr>process_table := (process_table s)[i := f (process_table s ! i)]\<rparr>"

definition active :: "scheduler_state \<Rightarrow> process_control_block list" where
  "active s = take (unat (active_process_count s)) (process_table s)"

definition running :: "scheduler_state \<Rightarrow> nat" where
  "running s = unat (running_process_index s)"

definition current :: "scheduler_state \<Rightarrow> process_control_block" where
  "current s = process_table s ! running s"

section \<open>Initialisation\<close>

definition zero_signals :: signal_context where
  "zero_signals = \<lparr>pending_signals = 0, blocked_signals = 0, handlers = replicate 32 0\<rparr>"

definition zero_metrics :: performance_metrics where
  "zero_metrics = \<lparr>execution_start_tick = 0, total_execution_ticks = 0, context_switches = 0,
     last_scheduled_tick = 0, syscall_count = 0, memory_allocations = 0\<rparr>"

definition clear_slot :: "process_control_block \<Rightarrow> process_control_block" where
  "clear_slot p = p\<lparr>task_id := 0, execution_state := ST_DEAD,
     context_frame := (context_frame p)\<lparr>r_esp := 0, r_eflags := 0\<rparr>, stack_memory_block := 0,
     signal_subsystem := zero_signals, metrics := zero_metrics, communication_channel := zero_channel,
     waiting_on_pid := 0, sleep_until_tick := 0\<rparr>"

definition master_slot :: "process_control_block \<Rightarrow> process_control_block" where
  "master_slot p = p\<lparr>task_id := 100, parent_id := 0, execution_state := ST_RUNNING,
     memory_footprint_pages := 512, base_priority := SCHED_DEFAULT_PRIORITY,
     dynamic_priority := SCHED_DEFAULT_PRIORITY, accumulation_cycles := 0,
     allocation_flags := OOM_FLAG_CRITICAL, stack_memory_block := 0\<rparr>"

definition scheduler_initialize :: "scheduler_state \<Rightarrow> scheduler_state" where
  "scheduler_initialize s =
     upd_pcb 0 master_slot
       (s\<lparr>process_table := map clear_slot (process_table s), active_process_count := 1,
          running_process_index := 0, scheduler_cycles := 0, process_identifier_seed := 100,
          idle_ticks := 0, kernel_elapsed_ticks := 0\<rparr>)"

section \<open>Selection and the context switch\<close>

definition age_pcb :: "process_control_block \<Rightarrow> process_control_block" where
  "age_pcb p =
     (let c = accumulation_cycles p + 1 in
      if SCHED_PRIORITY_AGING_LIMIT \<le> c
      then p\<lparr>dynamic_priority := (if dynamic_priority p < SCHED_MAX_PRIORITY then dynamic_priority p + 1
                                  else dynamic_priority p),
             accumulation_cycles := 0\<rparr>
      else p\<lparr>accumulation_cycles := c\<rparr>)"

text \<open>The loop over the first \<open>n\<close> slots; \<open>run\<close> is the slot that is running, \<open>i\<close> the loop counter.\<close>

fun age_loop :: "nat \<Rightarrow> nat \<Rightarrow> nat \<Rightarrow> process_control_block list \<Rightarrow> process_control_block list" where
  "age_loop run i 0 ps = ps"
| "age_loop run i (Suc n) [] = []"
| "age_loop run i (Suc n) (p # ps) =
     (if execution_state p = ST_RUNNING \<and> i \<noteq> run then age_pcb p else p) # age_loop run (Suc i) n ps"

definition scheduler_apply_aging :: "scheduler_state \<Rightarrow> scheduler_state" where
  "scheduler_apply_aging s =
     s\<lparr>process_table := age_loop (running s) 0 (unat (active_process_count s)) (process_table s)\<rparr>"

text \<open>
  The search loop: \<open>best\<close> is \<open>Some (index, priority)\<close> once something was found.  A process whose sleep
  is over has its \<open>sleep_until_tick\<close> cleared on the way.
\<close>

definition asleep :: "u32 \<Rightarrow> process_control_block \<Rightarrow> bool" where
  "asleep now p \<longleftrightarrow> 0 < sleep_until_tick p \<and> now < sleep_until_tick p"

definition eligible :: "u32 \<Rightarrow> process_control_block \<Rightarrow> bool" where
  "eligible now p \<longleftrightarrow> execution_state p = ST_RUNNING \<and> \<not> asleep now p"

fun select_scan ::
    "u32 \<Rightarrow> nat \<Rightarrow> nat \<Rightarrow> process_control_block list \<Rightarrow> (nat \<times> u32) option \<Rightarrow>
     process_control_block list \<times> (nat \<times> u32) option" where
  "select_scan now i 0 ps best = (ps, best)"
| "select_scan now i (Suc n) [] best = ([], best)"
| "select_scan now i (Suc n) (p # ps) best =
     (if eligible now p then
        let (ps', r) = select_scan now (Suc i) n ps
              (case best of
                 None \<Rightarrow> Some (i, dynamic_priority p)
               | Some (b, hi) \<Rightarrow> if hi < dynamic_priority p then Some (i, dynamic_priority p) else best)
        in (p\<lparr>sleep_until_tick := 0\<rparr> # ps', r)
      else let (ps', r) = select_scan now (Suc i) n ps best in (p # ps', r))"

definition scheduler_select_next_candidate :: "scheduler_state \<Rightarrow> nat \<times> scheduler_state" where
  "scheduler_select_next_candidate s0 =
     (if active_process_count s0 = 0 then (0, s0)
      else
        let s = scheduler_apply_aging s0;
            (ps, best) = select_scan (kernel_elapsed_ticks s) 0 (unat (active_process_count s)) (process_table s) None;
            s = s\<lparr>process_table := ps\<rparr>
        in case best of
             None \<Rightarrow> (0, s)
           | Some (b, _) \<Rightarrow>
               (b, upd_pcb b (\<lambda>p. p\<lparr>dynamic_priority := base_priority p, accumulation_cycles := 0\<rparr>) s))"

text \<open>\<open>pushfl; pushal\<close>: the new stack pointer and memory.  \<open>pushal\<close> stores the pointer it started from.\<close>

fun push_all :: "u32 list \<Rightarrow> u32 \<Rightarrow> (u32 \<Rightarrow> u32) \<Rightarrow> u32 \<times> (u32 \<Rightarrow> u32)" where
  "push_all [] sp m = (sp, m)"
| "push_all (v # vs) sp m = push_all vs (sp - 4) (m(sp - 4 := v))"

definition save_frame :: "context_frame \<Rightarrow> (u32 \<Rightarrow> u32) \<Rightarrow> u32 \<times> (u32 \<Rightarrow> u32)" where
  "save_frame c m =
     push_all [r_eflags c, r_eax c, r_ecx c, r_edx c, r_ebx c, r_esp c - 4, r_ebp c, r_esi c, r_edi c]
       (r_esp c) m"

text \<open>\<open>popal; popfl\<close> from \<open>sp\<close>: the popped stack pointer slot is skipped.\<close>

definition load_frame :: "u32 \<Rightarrow> (u32 \<Rightarrow> u32) \<Rightarrow> context_frame" where
  "load_frame sp m =
     \<lparr>r_edi = m sp, r_esi = m (sp + 4), r_ebp = m (sp + 8), r_esp = sp + 36, r_ebx = m (sp + 16),
      r_edx = m (sp + 20), r_ecx = m (sp + 24), r_eax = m (sp + 28), r_eflags = m (sp + 32)\<rparr>"

definition switch_stacks :: "nat \<Rightarrow> nat \<Rightarrow> scheduler_state \<Rightarrow> scheduler_state" where
  "switch_stacks cur nxt s =
     (let (sp, m) = save_frame (cpu s) (ram s);
          s = upd_pcb cur (\<lambda>p. p\<lparr>context_frame := (context_frame p)\<lparr>r_esp := sp\<rparr>\<rparr>) (s\<lparr>ram := m\<rparr>)
      in s\<lparr>cpu := load_frame (r_esp (context_frame (process_table s ! nxt))) m\<rparr>)"

definition scheduler_yield :: "scheduler_state \<Rightarrow> scheduler_state" where
  "scheduler_yield s0 =
     (let s = s0\<lparr>kernel_elapsed_ticks := kernel_elapsed_ticks s0 + 1\<rparr> in
      if active_process_count s \<le> 1 then s
      else
        let cur = running s;
            (nxt, s) = scheduler_select_next_candidate s
        in if cur = nxt then s
           else
             let now = kernel_elapsed_ticks s;
                 s = s\<lparr>running_process_index := of_nat nxt, scheduler_cycles := scheduler_cycles s + 1\<rparr>;
                 s = upd_pcb cur (\<lambda>p. p\<lparr>metrics := (metrics p)\<lparr>total_execution_ticks :=
                       total_execution_ticks (metrics p) + (now - last_scheduled_tick (metrics p))\<rparr>\<rparr>) s;
                 s = upd_pcb nxt (\<lambda>p. p\<lparr>metrics := (metrics p)\<lparr>last_scheduled_tick := now,
                       context_switches := context_switches (metrics p) + 1\<rparr>\<rparr>) s
             in switch_stacks cur nxt s)"

section \<open>Registration\<close>

definition scheduler_allocate_memory :: "u32 \<Rightarrow> sys_oom_ctrl \<Rightarrow> u32 ores" where
  "scheduler_allocate_memory sz o1 = sys_alloc_pages (int ZONE_NORMAL) ((sz + PAGE_SIZE - 1) div PAGE_SIZE) o1"

text \<open>Size of \<open>sys_task_t\<close> on i386.\<close>

definition SIZEOF_SYS_TASK :: u32 where "SIZEOF_SYS_TASK = 48"

definition with_sched :: "scheduler_state \<Rightarrow> 'a ores \<Rightarrow> (fault \<times> scheduler_state \<times> sys_oom_ctrl) + ('a \<times> sys_oom_ctrl)" where
  "with_sched s m = map_sum (\<lambda>(f, o1). (f, s, o1)) id m"

text \<open>The slot of a new process (lines 297-315 and 331), and the frame put on its stack (lines 317-329).\<close>

definition init_pcb ::
    "u32 \<Rightarrow> u32 \<Rightarrow> u32 \<Rightarrow> u32 \<Rightarrow> u32 \<Rightarrow> u32 \<Rightarrow> u32 \<Rightarrow> u32 \<Rightarrow> process_control_block \<Rightarrow> process_control_block" where
  "init_pcb generated_pid parent priority initial_rss flags stack_raw now sp p =
     p\<lparr>task_id := generated_pid, parent_id := parent,
       execution_state := ST_RUNNING, memory_footprint_pages := initial_rss,
       base_priority := priority, dynamic_priority := priority,
       accumulation_cycles := 0, allocation_flags := flags,
       stack_memory_block := stack_raw, waiting_on_pid := 0, sleep_until_tick := 0,
       signal_subsystem := zero_signals,
       metrics := zero_metrics\<lparr>execution_start_tick := now, last_scheduled_tick := now\<rparr>,
       communication_channel := zero_channel,
       context_frame := (context_frame p)\<lparr>r_esp := sp\<rparr>\<rparr>"

definition initial_stack :: "u32 \<Rightarrow> u32 \<Rightarrow> u32 \<Rightarrow> (u32 \<Rightarrow> u32) \<Rightarrow> u32 \<times> (u32 \<Rightarrow> u32)" where
  "initial_stack exit_stub entry_point stack_raw m =
     push_all ([exit_stub, entry_point, 0x202] @ replicate 8 0) (stack_raw + SCHED_STACK_SIZE) m"

text \<open>
  \<open>exit_stub\<close> is the address of \<open>scheduler_exit_stub\<close>, \<open>raw\<close> what fresh memory holds where the task
  node is put; both come from outside the code.  The result carries the status returned.
\<close>

definition scheduler_register_process ::
    "u32 \<Rightarrow> sys_task \<Rightarrow> u32 \<Rightarrow> u32 \<Rightarrow> u32 \<Rightarrow> u32 \<Rightarrow> scheduler_state \<Rightarrow> sys_oom_ctrl \<Rightarrow>
     (fault \<times> scheduler_state \<times> sys_oom_ctrl) + (u32 \<times> scheduler_state \<times> sys_oom_ctrl)" where
  "scheduler_register_process exit_stub raw entry_point priority initial_rss flags s o0 =
     (if SYS_MAX_TASKS \<le> active_process_count s then Inr (ERR_MEM_OUT_OF_MEM, s, o0)
      else
        let target = unat (active_process_count s);
            generated_pid = process_identifier_seed s;
            s = s\<lparr>process_identifier_seed := process_identifier_seed s + 1\<rparr>;
            o0 = o0\<lparr>auto_pid := process_identifier_seed s\<rparr>
        in bindE (with_sched s (scheduler_allocate_memory SIZEOF_SYS_TASK o0)) (\<lambda>(node, o1).
           if node = 0 then Inr (ERR_MEM_FAULT, s, o1)
           else
             let old = (case tasks o1 node of Some t \<Rightarrow> t | None \<Rightarrow> raw);
                 task = old\<lparr>pid := generated_pid, ppid := task_id (current s),
                            task_state := TASK_STATE_RUNNING, rss_pages := initial_rss,
                            virtual_pages := initial_rss * 2, task_flags := flags,
                            oom_score_adj := 0, nice_value := 0\<rparr>
             in bindE (with_sched s (sys_register_task node (o1\<lparr>tasks := (tasks o1)(node \<mapsto> task)\<rparr>))) (\<lambda>(_, o1).
                bindE (with_sched s (scheduler_allocate_memory SCHED_STACK_SIZE o1)) (\<lambda>(stack_raw, o1).
                if stack_raw = 0 then Inr (ERR_MEM_FAULT, s, o1)
                else
                  let (sp, m) = initial_stack exit_stub entry_point stack_raw (ram s);
                      s = upd_pcb target
                            (init_pcb generated_pid (task_id (current s)) priority initial_rss flags stack_raw
                               (kernel_elapsed_ticks s) sp)
                            (s\<lparr>ram := m\<rparr>)
                  in Inr (ERR_OK, s\<lparr>active_process_count := active_process_count s + 1\<rparr>, o1)))))"

section \<open>Sleep, signals, messages, termination\<close>

definition scheduler_sleep :: "u32 \<Rightarrow> scheduler_state \<Rightarrow> scheduler_state" where
  "scheduler_sleep duration s =
     scheduler_yield (upd_pcb (running s) (\<lambda>p. p\<lparr>sleep_until_tick := kernel_elapsed_ticks s + duration\<rparr>) s)"

definition alive_with :: "u32 \<Rightarrow> process_control_block \<Rightarrow> bool" where
  "alive_with target p \<longleftrightarrow> task_id p = target \<and> execution_state p \<noteq> ST_DEAD"

definition scheduler_send_signal :: "u32 \<Rightarrow> u32 \<Rightarrow> scheduler_state \<Rightarrow> u32 \<times> scheduler_state" where
  "scheduler_send_signal target_pid signal s0 =
     (if 31 < signal then (ERR_INVALID_OP, s0)
      else case first_ix (alive_with target_pid) (active s0) of
        None \<Rightarrow> (ERR_IO_NOT_FOUND, s0)
      | Some i \<Rightarrow>
          let s = upd_pcb i (\<lambda>p. p\<lparr>signal_subsystem := (signal_subsystem p)\<lparr>pending_signals :=
                    pending_signals (signal_subsystem p) OR push_bit (unat signal) 1\<rparr>\<rparr>) s0;
              stop = (\<lambda>st. let s = upd_pcb i (\<lambda>p. p\<lparr>execution_state := st\<rparr>) s
                       in if running s = i then scheduler_yield s else s)
          in (ERR_OK,
              if signal = SIGNAL_SIGKILL then stop ST_DEAD
              else if signal = SIGNAL_SIGSTOP then stop ST_STOPPED
              else if signal = SIGNAL_SIGCONT then upd_pcb i (\<lambda>p. p\<lparr>execution_state := ST_RUNNING\<rparr>) s
              else s))"

text \<open>
  \<open>call h i\<close> is the effect of the handler at address \<open>h\<close> on signal \<open>i\<close>.  The signals are those pending
  when the function was entered.
\<close>

fun signal_loop ::
    "(u32 \<Rightarrow> nat \<Rightarrow> scheduler_state \<Rightarrow> scheduler_state) \<Rightarrow> nat \<Rightarrow> u32 \<Rightarrow> nat list \<Rightarrow> scheduler_state \<Rightarrow> scheduler_state" where
  "signal_loop call cur sigs [] s = s"
| "signal_loop call cur sigs (i # is) s =
     (if sigs AND push_bit i 1 \<noteq> 0 then
        let s = upd_pcb cur (\<lambda>p. p\<lparr>signal_subsystem := (signal_subsystem p)\<lparr>pending_signals :=
                  pending_signals (signal_subsystem p) AND NOT (push_bit i 1)\<rparr>\<rparr>) s;
            h = handlers (signal_subsystem (process_table s ! cur)) ! i
        in signal_loop call cur sigs is (if h \<noteq> 0 then call h i s else s)
      else signal_loop call cur sigs is s)"

definition scheduler_check_pending_signals ::
    "(u32 \<Rightarrow> nat \<Rightarrow> scheduler_state \<Rightarrow> scheduler_state) \<Rightarrow> scheduler_state \<Rightarrow> scheduler_state" where
  "scheduler_check_pending_signals call s =
     (let ss = signal_subsystem (current s);
          active_signals = pending_signals ss AND NOT (blocked_signals ss)
      in if active_signals = 0 then s else signal_loop call (running s) active_signals [0..<32] s)"

definition scheduler_register_signal_handler :: "u32 \<Rightarrow> u32 \<Rightarrow> scheduler_state \<Rightarrow> u32 \<times> scheduler_state" where
  "scheduler_register_signal_handler signal handler s =
     (if 31 < signal \<or> signal = SIGNAL_SIGKILL \<or> signal = SIGNAL_SIGSTOP then (ERR_IO_PERMISSION, s)
      else (ERR_OK, upd_pcb (running s) (\<lambda>p. p\<lparr>signal_subsystem := (signal_subsystem p)\<lparr>handlers :=
              (handlers (signal_subsystem p))[unat signal := handler]\<rparr>\<rparr>) s))"

definition scheduler_ipc_send ::
    "u32 \<Rightarrow> char list \<Rightarrow> u32 \<Rightarrow> u32 \<Rightarrow> scheduler_state \<Rightarrow> fault + (u32 \<times> scheduler_state)" where
  "scheduler_ipc_send destination_pid message_ptr len type s =
     (if SCHED_IPC_MSG_SIZE < len then Inr (ERR_OVERFLOW, s)
      else case first_ix (alive_with destination_pid) (active s) of
        None \<Rightarrow> Inr (ERR_IO_NOT_FOUND, s)
      | Some i \<Rightarrow>
          let channel = communication_channel (process_table s ! i) in
          if SCHED_IPC_MAX_MESSAGES \<le> ch_count channel then Inr (ERR_BUSY, s)
          else bindE (channel_push (task_id (current s)) message_ptr len type channel) (\<lambda>c.
            Inr (ERR_OK, upd_pcb i (\<lambda>p. p\<lparr>communication_channel := c,
              execution_state := (if execution_state p = ST_BLOCKED \<and> waiting_on_pid p = 0
                                  then ST_RUNNING else execution_state p)\<rparr>) s)))"

text \<open>
  The wait of \<open>scheduler_ipc_receive\<close>: block and yield until the channel holds a message.  \<open>world\<close> is
  what the other processes do before control is back; the loop may never end, hence the option.
\<close>

partial_function (option) receive_wait ::
    "(scheduler_state \<Rightarrow> scheduler_state) \<Rightarrow> nat \<Rightarrow> scheduler_state \<Rightarrow> scheduler_state option" where
  "receive_wait world cur s =
     (if ch_count (communication_channel (process_table s ! cur)) = 0
      then receive_wait world cur
             (world (scheduler_yield (upd_pcb cur (\<lambda>p. p\<lparr>execution_state := ST_BLOCKED, waiting_on_pid := 0\<rparr>) s)))
      else Some s)"

declare receive_wait.simps [code]

definition scheduler_ipc_receive ::
    "(scheduler_state \<Rightarrow> scheduler_state) \<Rightarrow> char list \<Rightarrow> u32 \<Rightarrow> scheduler_state \<Rightarrow>
     (fault + (char list \<times> u32 \<times> u32 \<times> u32) \<times> scheduler_state) option" where
  "scheduler_ipc_receive world buffer max_length s =
     (let cur = running s in
      map_option (\<lambda>s. bindE (channel_pop buffer max_length (communication_channel (process_table s ! cur))) (\<lambda>(r, c).
        Inr (r, upd_pcb cur (\<lambda>p. p\<lparr>communication_channel := c\<rparr>) s))) (receive_wait world cur s))"

definition wake_waiter :: "u32 \<Rightarrow> process_control_block \<Rightarrow> process_control_block" where
  "wake_waiter target p =
     (if execution_state p = ST_BLOCKED \<and> waiting_on_pid p = target
      then p\<lparr>execution_state := ST_RUNNING, waiting_on_pid := 0\<rparr> else p)"

definition scheduler_terminate_process :: "u32 \<Rightarrow> scheduler_state \<Rightarrow> u32 \<times> scheduler_state" where
  "scheduler_terminate_process target_pid s0 =
     (case first_ix (\<lambda>p. task_id p = target_pid) (active s0) of
        None \<Rightarrow> (ERR_IO_NOT_FOUND, s0)
      | Some i \<Rightarrow>
          if target_pid = 100 \<or> allocation_flags (process_table s0 ! i) AND OOM_FLAG_CRITICAL \<noteq> 0
          then (ERR_IO_PERMISSION, s0)
          else
            let s = upd_pcb i (\<lambda>p. p\<lparr>execution_state := ST_DEAD\<rparr>) s0;
                n = unat (active_process_count s)
            in (ERR_OK, s\<lparr>process_table :=
                  map (wake_waiter target_pid) (take n (process_table s)) @ drop n (process_table s)\<rparr>))"

definition scheduler_terminate_current :: "scheduler_state \<Rightarrow> scheduler_state" where
  "scheduler_terminate_current s =
     scheduler_yield (snd (scheduler_terminate_process (task_id (current s)) s))"

definition scheduler_wait_pid :: "u32 \<Rightarrow> scheduler_state \<Rightarrow> u32 \<times> scheduler_state" where
  "scheduler_wait_pid target_pid s =
     (if first_ix (alive_with target_pid) (active s) = None then (ERR_IO_NOT_FOUND, s)
      else (ERR_OK, scheduler_yield (upd_pcb (running s) (\<lambda>p. p\<lparr>execution_state := ST_BLOCKED,
              waiting_on_pid := target_pid\<rparr>) s)))"

section \<open>Process listing\<close>

fun catE :: "(fault + con list) list \<Rightarrow> fault + con list" where
  "catE [] = Inr []"
| "catE (m # ms) = bindE m (\<lambda>out. map_sum id (\<lambda>outs. out @ outs) (catE ms))"

definition print_u32 :: "u32 \<Rightarrow> fault + con list" where
  "print_u32 v = bindE (scheduler_integer_to_string v (replicate 32 NUL)) (\<lambda>b. Inr [Print (cstr b)])"

definition state_name :: "u32 \<Rightarrow> string" where
  "state_name st =
     (if st = ST_RUNNING then ''RUNNING     '' else if st = ST_BLOCKED then ''BLOCKED     ''
      else if st = ST_STOPPED then ''STOPPED     '' else ''SLEEPING    '')"

definition ps_line :: "process_control_block \<Rightarrow> fault + con list" where
  "ps_line p =
     (if execution_state p = ST_DEAD then Inr []
      else catE [print_u32 (task_id p), Inr [Print ''       ''], print_u32 (parent_id p), Inr [Print ''       ''],
                 Inr [Print (state_name (execution_state p))],
                 print_u32 (memory_footprint_pages p), Inr [Print ''               ''],
                 print_u32 (base_priority p), Inr [Print ''         ''],
                 print_u32 (context_switches (metrics p)), Inr [Print (ln '''')]])"

definition ps :: "scheduler_state \<Rightarrow> fault + con list" where
  "ps s = catE
     (Inr [Print (ln ''''),
           Print (ln ''PID       PPID      STATE       MEMORY (PAGES)    PRIORITY   CON-SW''),
           Print (ln ''-------------------------------------------------------------------'')]
      # map ps_line (active s))"

end
