(* ===== verification/WX_Sched_Inv.thy ===== *)
theory WX_Sched_Inv
  imports WX_Sched
begin

text \<open>
  What the scheduler keeps (\<open>sched_inv\<close>), the step relation of its operations, and the invariant of
  every reachable state.
\<close>

section \<open>The invariant and slot updates\<close>

definition pcb_ok :: "process_control_block \<Rightarrow> bool" where
  "pcb_ok p \<longleftrightarrow> channel_inv (communication_channel p) \<and> length (handlers (signal_subsystem p)) = 32"

definition sched_inv :: "scheduler_state \<Rightarrow> bool" where
  "sched_inv s \<longleftrightarrow> length (process_table s) = 1024 \<and> 0 < unat (active_process_count s) \<and>
     unat (active_process_count s) \<le> 1024 \<and> running s < unat (active_process_count s) \<and>
     task_id (process_table s ! 0) = 100 \<and> (\<forall>p \<in> set (process_table s). pcb_ok p)"

lemma upd_pcb_simps [simp]:
  "process_table (upd_pcb i f s) = (process_table s)[i := f (process_table s ! i)]"
  "active_process_count (upd_pcb i f s) = active_process_count s"
  "running_process_index (upd_pcb i f s) = running_process_index s"
  "scheduler_cycles (upd_pcb i f s) = scheduler_cycles s"
  "process_identifier_seed (upd_pcb i f s) = process_identifier_seed s"
  "idle_ticks (upd_pcb i f s) = idle_ticks s"
  "kernel_elapsed_ticks (upd_pcb i f s) = kernel_elapsed_ticks s"
  "cpu (upd_pcb i f s) = cpu s" "ram (upd_pcb i f s) = ram s"
  "running (upd_pcb i f s) = running s"
  by (simp_all add: upd_pcb_def running_def)

lemma running_simps [simp]:
  "running (s\<lparr>process_table := t\<rparr>) = running s" "running (s\<lparr>kernel_elapsed_ticks := k\<rparr>) = running s"
  "running (s\<lparr>scheduler_cycles := k\<rparr>) = running s" "running (s\<lparr>cpu := c\<rparr>) = running s"
  "running (s\<lparr>ram := m\<rparr>) = running s" "running (s\<lparr>process_identifier_seed := k\<rparr>) = running s"
  "running (s\<lparr>active_process_count := k\<rparr>) = running s"
  "running (s\<lparr>running_process_index := r\<rparr>) = unat r"
  by (simp_all add: running_def)

lemma sched_invD:
  assumes "sched_inv s"
  shows "length (process_table s) = 1024" "running s < 1024" "0 < unat (active_process_count s)"
    "unat (active_process_count s) \<le> 1024" "running s < unat (active_process_count s)"
    "length (active s) = unat (active_process_count s)" "pcb_ok (current s)" "task_id (process_table s ! 0) = 100"
  using assms by (auto simp: sched_inv_def active_def current_def)

lemma sched_inv_pcb: "sched_inv s \<Longrightarrow> i < 1024 \<Longrightarrow> pcb_ok (process_table s ! i)"
  by (auto simp: sched_inv_def)

text \<open>An update of a slot the invariant does not see.\<close>

lemma sched_inv_upd:
  assumes "sched_inv s" "\<And>p. pcb_ok p \<Longrightarrow> pcb_ok (f p)" "\<And>p. task_id (f p) = task_id p"
  shows "sched_inv (upd_pcb i f s)"
proof -
  have "pcb_ok p" if "p \<in> set ((process_table s)[i := f (process_table s ! i)])" for p
  proof (cases "i < 1024")
    case True
    with that assms(1,2) show ?thesis
      by (auto simp: sched_inv_def dest!: set_update_subset_insert [THEN subsetD])
  qed (use that assms(1) in \<open>auto simp: sched_inv_def list_update_beyond\<close>)
  with assms show ?thesis by (cases "i = 0") (auto simp: sched_inv_def nth_list_update)
qed

lemma pcb_ok_simps [simp]:
  "pcb_ok (p\<lparr>execution_state := x\<rparr>) = pcb_ok p" "pcb_ok (p\<lparr>sleep_until_tick := t\<rparr>) = pcb_ok p"
  "pcb_ok (p\<lparr>waiting_on_pid := t\<rparr>) = pcb_ok p" "pcb_ok (p\<lparr>metrics := m\<rparr>) = pcb_ok p"
  "pcb_ok (p\<lparr>context_frame := c\<rparr>) = pcb_ok p" "pcb_ok (p\<lparr>dynamic_priority := d\<rparr>) = pcb_ok p"
  "pcb_ok (p\<lparr>accumulation_cycles := d\<rparr>) = pcb_ok p" "pcb_ok (p\<lparr>base_priority := d\<rparr>) = pcb_ok p"
  "pcb_ok (p\<lparr>task_id := d\<rparr>) = pcb_ok p" "pcb_ok (p\<lparr>parent_id := d\<rparr>) = pcb_ok p"
  "pcb_ok (p\<lparr>memory_footprint_pages := d\<rparr>) = pcb_ok p" "pcb_ok (p\<lparr>allocation_flags := d\<rparr>) = pcb_ok p"
  "pcb_ok (p\<lparr>stack_memory_block := d\<rparr>) = pcb_ok p"
  by (simp_all add: pcb_ok_def)

section \<open>Selection\<close>

lemma age_pcb_simps [simp]:
  "pcb_ok (age_pcb p) = pcb_ok p" "task_id (age_pcb p) = task_id p" "execution_state (age_pcb p) = execution_state p"
  "sleep_until_tick (age_pcb p) = sleep_until_tick p" "base_priority (age_pcb p) = base_priority p"
  "context_frame (age_pcb p) = context_frame p" "eligible now (age_pcb p) = eligible now p"
  by (simp_all add: age_pcb_def Let_def eligible_def asleep_def)

lemma length_age_loop [simp]: "length (age_loop run i n tbl) = length tbl"
  by (induction run i n tbl rule: age_loop.induct) auto

lemma age_loop_nth:
  "j < length tbl \<Longrightarrow> age_loop run i n tbl ! j =
     (if j < n \<and> execution_state (tbl ! j) = ST_RUNNING \<and> i + j \<noteq> run then age_pcb (tbl ! j) else tbl ! j)"
proof (induction run i n tbl arbitrary: j rule: age_loop.induct)
  case (3 run i n p tbl)
  then show ?case by (cases j) auto
qed auto

lemma select_scan_length [simp]: "length (fst (select_scan now i n tbl best)) = length tbl"
  by (induction now i n tbl best rule: select_scan.induct) (auto simp: Let_def split_beta)

lemma select_scan_nth:
  "j < length tbl \<Longrightarrow> fst (select_scan now i n tbl best) ! j =
     (if j < n \<and> eligible now (tbl ! j) then (tbl ! j)\<lparr>sleep_until_tick := 0\<rparr> else tbl ! j)"
proof (induction now i n tbl best arbitrary: j rule: select_scan.induct)
  case (3 now i n p tbl best)
  then show ?case by (cases j) (auto simp: Let_def split_beta)
qed auto

text \<open>The best candidate: the first one of the highest dynamic priority among the eligible ones.\<close>

definition best_of :: "u32 \<Rightarrow> nat \<Rightarrow> process_control_block list \<Rightarrow> nat \<Rightarrow> bool" where
  "best_of now n tbl j \<longleftrightarrow> j < n \<and> eligible now (tbl ! j) \<and>
     (\<forall>k < n. eligible now (tbl ! k) \<longrightarrow> dynamic_priority (tbl ! k) \<le> dynamic_priority (tbl ! j)) \<and>
     (\<forall>k < j. eligible now (tbl ! k) \<longrightarrow> dynamic_priority (tbl ! k) < dynamic_priority (tbl ! j))"

lemma select_scan_best:
  assumes "n \<le> length tbl" "snd (select_scan now i n tbl best) = r"
  shows "(r = best \<and> (\<forall>k < n. eligible now (tbl ! k) \<longrightarrow>
            (\<exists>b hi. best = Some (b, hi) \<and> dynamic_priority (tbl ! k) \<le> hi))) \<or>
     (\<exists>j. r = Some (i + j, dynamic_priority (tbl ! j)) \<and> best_of now n tbl j \<and>
        (\<forall>b hi. best = Some (b, hi) \<longrightarrow> hi < dynamic_priority (tbl ! j)))"
  using assms
proof (induction now i n tbl best arbitrary: r rule: select_scan.induct)
  case (3 now i n p tbl best)
  have len: "n \<le> length tbl" using 3 by simp
  show ?case
  proof (cases "eligible now p")
    case False
    then have r: "snd (select_scan now (Suc i) n tbl best) = r" using 3 by (simp add: Let_def split_beta)
    from 3(2) [OF False len r] show ?thesis
    proof (elim disjE exE conjE)
      fix j assume j: "r = Some (Suc i + j, dynamic_priority (tbl ! j))" "best_of now n tbl j"
        "\<forall>b hi. best = Some (b, hi) \<longrightarrow> hi < dynamic_priority (tbl ! j)"
      have "best_of now (Suc n) (p # tbl) (Suc j)"
        using j(2) False by (auto simp: best_of_def less_Suc_eq_0_disj)
      with j show ?thesis by (intro disjI2 exI [of _ "Suc j"]) simp
    qed (use False in \<open>auto simp: less_Suc_eq_0_disj\<close>)
  next
    case True
    let ?best = "case best of None \<Rightarrow> Some (i, dynamic_priority p)
      | Some (b, hi) \<Rightarrow> if hi < dynamic_priority p then Some (i, dynamic_priority p) else best"
    have r: "snd (select_scan now (Suc i) n tbl ?best) = r" using 3(4) True by (simp add: Let_def split_beta)
    have "?best \<noteq> None" by (auto split: option.splits)
    then obtain b hi where bh: "?best = Some (b, hi)" by (cases "?best") (simp, force)
    then have hi: "dynamic_priority p \<le> hi" by (auto split: option.splits prod.splits if_splits)
    from 3(1) [OF True len r] show ?thesis
    proof (elim disjE exE conjE)
      fix j assume j: "r = Some (Suc i + j, dynamic_priority (tbl ! j))" "best_of now n tbl j"
        "\<forall>b hi. ?best = Some (b, hi) \<longrightarrow> hi < dynamic_priority (tbl ! j)"
      have gt: "hi < dynamic_priority (tbl ! j)" using j(3) bh by blast
      then have "best_of now (Suc n) (p # tbl) (Suc j)"
        using j(2) hi by (auto simp: best_of_def less_Suc_eq_0_disj)
      moreover have "hi' < dynamic_priority (tbl ! j)" if "best = Some (b', hi')" for b' hi'
        using that gt bh hi by (auto split: if_splits)
      ultimately show ?thesis using j(1) by (intro disjI2 exI [of _ "Suc j"]) simp
    next
      assume k: "r = ?best" "\<forall>k < n. eligible now (tbl ! k) \<longrightarrow>
        (\<exists>b hi. ?best = Some (b, hi) \<and> dynamic_priority (tbl ! k) \<le> hi)"
      then have le: "\<forall>k < Suc n. eligible now ((p # tbl) ! k) \<longrightarrow> dynamic_priority ((p # tbl) ! k) \<le> hi"
        using bh hi by (auto simp: less_Suc_eq_0_disj)
      show ?thesis
      proof (cases "?best = best")
        case True
        with k(1) le bh show ?thesis by auto
      next
        case False
        then have e: "?best = Some (i, dynamic_priority p)"
          "\<forall>b hi. best = Some (b, hi) \<longrightarrow> hi < dynamic_priority p"
          by (auto split: option.splits prod.splits if_splits)
        then have "best_of now (Suc n) (p # tbl) 0" using le bh True by (auto simp: best_of_def)
        with k(1) e show ?thesis by (intro disjI2 exI [of _ 0]) simp
      qed
    qed
  qed
qed auto


text \<open>The table after the aging loop and after the search loop.\<close>

definition aged :: "scheduler_state \<Rightarrow> process_control_block list" where
  "aged s = process_table (scheduler_apply_aging s)"

definition scanned :: "scheduler_state \<Rightarrow> process_control_block list" where
  "scanned s = fst (select_scan (kernel_elapsed_ticks s) 0 (unat (active_process_count s)) (aged s) None)"

definition reset_priority :: "process_control_block \<Rightarrow> process_control_block" where
  "reset_priority p = p\<lparr>dynamic_priority := base_priority p, accumulation_cycles := 0\<rparr>"

lemma length_aged [simp]: "length (aged s) = length (process_table s)"
  by (simp add: aged_def scheduler_apply_aging_def)

lemma length_scanned [simp]: "length (scanned s) = length (process_table s)"
  by (simp add: scanned_def)

lemma aged_nth:
  "j < length (process_table s) \<Longrightarrow> aged s ! j =
     (if j < unat (active_process_count s) \<and> execution_state (process_table s ! j) = ST_RUNNING \<and> j \<noteq> running s
      then age_pcb (process_table s ! j) else process_table s ! j)"
  by (simp add: aged_def scheduler_apply_aging_def age_loop_nth)

lemma aged_simps [simp]:
  "j < length (process_table s) \<Longrightarrow> eligible now (aged s ! j) = eligible now (process_table s ! j)"
  "j < length (process_table s) \<Longrightarrow> pcb_ok (aged s ! j) = pcb_ok (process_table s ! j)"
  "j < length (process_table s) \<Longrightarrow> task_id (aged s ! j) = task_id (process_table s ! j)"
  "j < length (process_table s) \<Longrightarrow> execution_state (aged s ! j) = execution_state (process_table s ! j)"
  "j < length (process_table s) \<Longrightarrow> base_priority (aged s ! j) = base_priority (process_table s ! j)"
  "j < length (process_table s) \<Longrightarrow> context_frame (aged s ! j) = context_frame (process_table s ! j)"
  "j < length (process_table s) \<Longrightarrow> sleep_until_tick (aged s ! j) = sleep_until_tick (process_table s ! j)"
  by (simp_all add: aged_nth)

lemma scanned_nth:
  "j < length (process_table s) \<Longrightarrow> scanned s ! j =
     (if j < unat (active_process_count s) \<and> eligible (kernel_elapsed_ticks s) (process_table s ! j)
      then (aged s ! j)\<lparr>sleep_until_tick := 0\<rparr> else aged s ! j)"
  by (simp add: scanned_def select_scan_nth)

lemma scanned_simps [simp]:
  "j < length (process_table s) \<Longrightarrow> pcb_ok (scanned s ! j) = pcb_ok (process_table s ! j)"
  "j < length (process_table s) \<Longrightarrow> task_id (scanned s ! j) = task_id (process_table s ! j)"
  "j < length (process_table s) \<Longrightarrow> execution_state (scanned s ! j) = execution_state (process_table s ! j)"
  "j < length (process_table s) \<Longrightarrow> base_priority (scanned s ! j) = base_priority (process_table s ! j)"
  "j < length (process_table s) \<Longrightarrow> context_frame (scanned s ! j) = context_frame (process_table s ! j)"
  by (simp_all add: scanned_nth)

text \<open>Selection finds the best candidate of the aged table, or nothing and returns slot 0.\<close>

lemma select_next_cases:
  assumes "sched_inv s" "scheduler_select_next_candidate s = (b, s')"
  obtains (none) "b = 0" "\<forall>j < unat (active_process_count s). \<not> eligible (kernel_elapsed_ticks s) (process_table s ! j)"
      "s' = s\<lparr>process_table := scanned s\<rparr>"
    | (best) "best_of (kernel_elapsed_ticks s) (unat (active_process_count s)) (aged s) b"
      "s' = s\<lparr>process_table := (scanned s)[b := reset_priority (scanned s ! b)]\<rparr>"
proof -
  let ?n = "unat (active_process_count s)" and ?now = "kernel_elapsed_ticks s"
  have pos: "active_process_count s \<noteq> 0" and n: "?n \<le> length (aged s)" using sched_invD [OF assms(1)] by auto
  obtain r where r: "snd (select_scan ?now 0 ?n (aged s) None) = r" by simp
  have scan: "select_scan ?now 0 ?n (aged s) None = (scanned s, r)" using r by (simp add: scanned_def prod_eq_iff)
  have f: "active_process_count (scheduler_apply_aging s) = active_process_count s"
    "kernel_elapsed_ticks (scheduler_apply_aging s) = ?now" "process_table (scheduler_apply_aging s) = aged s"
    "(scheduler_apply_aging s)\<lparr>process_table := t\<rparr> = s\<lparr>process_table := t\<rparr>" for t
    by (simp_all add: scheduler_apply_aging_def aged_def)
  have e: "(b, s') = (case r of None \<Rightarrow> (0, s\<lparr>process_table := scanned s\<rparr>)
      | Some (b, _) \<Rightarrow> (b, s\<lparr>process_table := (scanned s)[b := reset_priority (scanned s ! b)]\<rparr>))"
    using assms(2) pos
    by (simp add: scheduler_select_next_candidate_def Let_def f scan upd_pcb_def reset_priority_def
        split: option.splits prod.splits)
  from select_scan_best [OF n r] show thesis
  proof (elim disjE exE conjE)
    assume "r = None" "\<forall>k < ?n. eligible ?now (aged s ! k) \<longrightarrow>
      (\<exists>b hi. None = Some (b, hi) \<and> dynamic_priority (aged s ! k) \<le> hi)"
    then show thesis using none e n by simp
  next
    fix j assume "r = Some (0 + j, dynamic_priority (aged s ! j))" "best_of ?now ?n (aged s) j"
    then show thesis using best e by simp
  qed
qed

lemma sched_inv_table:
  assumes "sched_inv s" "length t = length (process_table s)"
    "\<And>j. j < length t \<Longrightarrow> pcb_ok (t ! j) \<and> task_id (t ! j) = task_id (process_table s ! j)"
  shows "sched_inv (s\<lparr>process_table := t\<rparr>)"
proof -
  have "\<forall>p \<in> set t. pcb_ok p" using assms by (metis in_set_conv_nth)
  moreover have "0 < length t" using assms(1,2) by (simp add: sched_inv_def)
  from assms(3) [OF this] have "task_id (t ! 0) = 100" using assms(1) by (simp add: sched_inv_def)
  ultimately show ?thesis using assms(1,2) by (simp add: sched_inv_def)
qed

lemma reset_priority_simps [simp]:
  "pcb_ok (reset_priority p) = pcb_ok p" "task_id (reset_priority p) = task_id p"
  "execution_state (reset_priority p) = execution_state p" "context_frame (reset_priority p) = context_frame p"
  "base_priority (reset_priority p) = base_priority p" "dynamic_priority (reset_priority p) = base_priority p"
  "sleep_until_tick (reset_priority p) = sleep_until_tick p" "accumulation_cycles (reset_priority p) = 0"
  by (simp_all add: reset_priority_def)

lemma select_next_inv:
  assumes "sched_inv s" "scheduler_select_next_candidate s = (b, s')"
  shows "sched_inv s'" "b < unat (active_process_count s)" "\<exists>t. s' = s\<lparr>process_table := t\<rparr>"
    "\<forall>j < 1024. context_frame (process_table s' ! j) = context_frame (process_table s ! j) \<and>
       task_id (process_table s' ! j) = task_id (process_table s ! j) \<and>
       execution_state (process_table s' ! j) = execution_state (process_table s ! j) \<and>
       base_priority (process_table s' ! j) = base_priority (process_table s ! j)"
proof -
  have len: "length (process_table s) = 1024" using sched_invD [OF assms(1)] by simp
  have ok: "pcb_ok (process_table s ! j)" if "j < 1024" for j using sched_inv_pcb [OF assms(1) that] .
  have "sched_inv s' \<and> b < unat (active_process_count s) \<and> (\<exists>t. s' = s\<lparr>process_table := t\<rparr>) \<and>
    (\<forall>j < 1024. context_frame (process_table s' ! j) = context_frame (process_table s ! j) \<and>
       task_id (process_table s' ! j) = task_id (process_table s ! j) \<and>
       execution_state (process_table s' ! j) = execution_state (process_table s ! j) \<and>
       base_priority (process_table s' ! j) = base_priority (process_table s ! j))"
    using assms
  proof (cases rule: select_next_cases)
    case none
    then show ?thesis using sched_invD(3) [OF assms(1)] len ok
      by (auto intro!: sched_inv_table [OF assms(1)])
  next
    case best
    have b: "b < unat (active_process_count s)" "b < 1024"
      using best(1) sched_invD(4) [OF assms(1)] by (auto simp: best_of_def)
    then show ?thesis unfolding best(2) using len ok
      by (auto intro!: sched_inv_table [OF assms(1)] simp: nth_list_update)
  qed
  then show "sched_inv s'" "b < unat (active_process_count s)" "\<exists>t. s' = s\<lparr>process_table := t\<rparr>"
    "\<forall>j < 1024. context_frame (process_table s' ! j) = context_frame (process_table s ! j) \<and>
       task_id (process_table s' ! j) = task_id (process_table s ! j) \<and>
       execution_state (process_table s' ! j) = execution_state (process_table s ! j) \<and>
       base_priority (process_table s' ! j) = base_priority (process_table s ! j)" by blast+
qed


section \<open>Yielding\<close>

definition tick :: "scheduler_state \<Rightarrow> scheduler_state" where
  "tick s = s\<lparr>kernel_elapsed_ticks := kernel_elapsed_ticks s + 1\<rparr>"

lemma tick_simps [simp]:
  "process_table (tick s) = process_table s" "active_process_count (tick s) = active_process_count s"
  "running (tick s) = running s" "kernel_elapsed_ticks (tick s) = kernel_elapsed_ticks s + 1"
  "cpu (tick s) = cpu s" "ram (tick s) = ram s" "sched_inv (tick s) = sched_inv s"
  "process_identifier_seed (tick s) = process_identifier_seed s" "active (tick s) = active s"
  by (simp_all add: tick_def sched_inv_def active_def)

text \<open>The accounting done for the process that stops and the one that starts.\<close>

definition account_out :: "u32 \<Rightarrow> process_control_block \<Rightarrow> process_control_block" where
  "account_out now p = p\<lparr>metrics := (metrics p)\<lparr>total_execution_ticks :=
     total_execution_ticks (metrics p) + (now - last_scheduled_tick (metrics p))\<rparr>\<rparr>"

definition account_in :: "u32 \<Rightarrow> process_control_block \<Rightarrow> process_control_block" where
  "account_in now p = p\<lparr>metrics := (metrics p)\<lparr>last_scheduled_tick := now,
     context_switches := context_switches (metrics p) + 1\<rparr>\<rparr>"

definition save_esp :: "u32 \<Rightarrow> process_control_block \<Rightarrow> process_control_block" where
  "save_esp sp p = p\<lparr>context_frame := (context_frame p)\<lparr>r_esp := sp\<rparr>\<rparr>"

lemma account_simps [simp]:
  "pcb_ok (account_out now p) = pcb_ok p" "task_id (account_out now p) = task_id p"
  "pcb_ok (account_in now p) = pcb_ok p" "task_id (account_in now p) = task_id p"
  "pcb_ok (save_esp sp p) = pcb_ok p" "task_id (save_esp sp p) = task_id p"
  "context_frame (account_out now p) = context_frame p" "context_frame (account_in now p) = context_frame p"
  "r_esp (context_frame (save_esp sp p)) = sp"
  "execution_state (account_out now p) = execution_state p" "execution_state (account_in now p) = execution_state p"
  "execution_state (save_esp sp p) = execution_state p" "base_priority (account_out now p) = base_priority p"
  "base_priority (account_in now p) = base_priority p" "base_priority (save_esp sp p) = base_priority p"
  "dynamic_priority (account_out now p) = dynamic_priority p" "dynamic_priority (account_in now p) = dynamic_priority p"
  "dynamic_priority (save_esp sp p) = dynamic_priority p"
  "accumulation_cycles (account_out now p) = accumulation_cycles p"
  "accumulation_cycles (account_in now p) = accumulation_cycles p"
  "accumulation_cycles (save_esp sp p) = accumulation_cycles p"
  "sleep_until_tick (account_out now p) = sleep_until_tick p"
  "sleep_until_tick (account_in now p) = sleep_until_tick p"
  "sleep_until_tick (save_esp sp p) = sleep_until_tick p"
  by (simp_all add: account_out_def account_in_def save_esp_def)

text \<open>A yield as: stay, or account for both processes and switch stacks.\<close>

definition hand_over :: "nat \<Rightarrow> nat \<Rightarrow> scheduler_state \<Rightarrow> scheduler_state" where
  "hand_over cur nxt s =
     switch_stacks cur nxt
       (upd_pcb nxt (account_in (kernel_elapsed_ticks s)) (upd_pcb cur (account_out (kernel_elapsed_ticks s))
          (s\<lparr>running_process_index := of_nat nxt, scheduler_cycles := scheduler_cycles s + 1\<rparr>)))"

lemma yield_eq:
  "scheduler_yield s =
     (if active_process_count s \<le> 1 then tick s
      else let (nxt, s') = scheduler_select_next_candidate (tick s)
           in if running s = nxt then s' else hand_over (running s) nxt s')"
proof -
  have "kernel_elapsed_ticks (s'\<lparr>running_process_index := n, scheduler_cycles := c\<rparr>) = kernel_elapsed_ticks s'" for s' n c
    by simp
  then show ?thesis
    by (simp add: scheduler_yield_def hand_over_def tick_def [symmetric] Let_def account_in_def [abs_def] account_out_def [abs_def]
        split: prod.split)
qed

lemma switch_stacks_simps [simp]:
  "process_table (switch_stacks cur nxt s) =
     (process_table s)[cur := save_esp (fst (save_frame (cpu s) (ram s))) (process_table s ! cur)]"
  "active_process_count (switch_stacks cur nxt s) = active_process_count s"
  "running (switch_stacks cur nxt s) = running s"
  "kernel_elapsed_ticks (switch_stacks cur nxt s) = kernel_elapsed_ticks s"
  "process_identifier_seed (switch_stacks cur nxt s) = process_identifier_seed s"
  "ram (switch_stacks cur nxt s) = snd (save_frame (cpu s) (ram s))"
  by (simp_all add: switch_stacks_def Let_def split_beta save_esp_def)

lemma switch_stacks_cpu:
  "cur \<noteq> nxt \<Longrightarrow> cpu (switch_stacks cur nxt s) =
     load_frame (r_esp (context_frame (process_table s ! nxt))) (snd (save_frame (cpu s) (ram s)))"
  by (simp add: switch_stacks_def Let_def split_beta)

text \<open>The slots after a hand over.\<close>

lemma hand_over_nth:
  assumes "cur < length (process_table s)" "nxt < length (process_table s)" "cur \<noteq> nxt"
  shows "process_table (hand_over cur nxt s) ! j =
     (if j = cur then save_esp (fst (save_frame (cpu s) (ram s))) (account_out (kernel_elapsed_ticks s) (process_table s ! j))
      else if j = nxt then account_in (kernel_elapsed_ticks s) (process_table s ! j)
      else process_table s ! j)"
  using assms by (simp add: hand_over_def nth_list_update)

lemma hand_over_simps [simp]:
  "length (process_table (hand_over cur nxt s)) = length (process_table s)"
  "active_process_count (hand_over cur nxt s) = active_process_count s"
  "kernel_elapsed_ticks (hand_over cur nxt s) = kernel_elapsed_ticks s"
  "ram (hand_over cur nxt s) = snd (save_frame (cpu s) (ram s))"
  "process_identifier_seed (hand_over cur nxt s) = process_identifier_seed s"
  by (simp_all add: hand_over_def)

lemma unat_index: "n < 1024 \<Longrightarrow> unat (of_nat n :: u32) = n"
  by (simp add: unat_of_nat)

lemma hand_over_running [simp]: "nxt < 1024 \<Longrightarrow> running (hand_over cur nxt s) = nxt"
  by (simp add: hand_over_def unat_index)

lemma hand_over_inv:
  assumes "sched_inv s" "nxt < unat (active_process_count s)" "cur < 1024" "cur \<noteq> nxt"
  shows "sched_inv (hand_over cur nxt s)"
proof -
  have l: "length (process_table s) = 1024" "nxt < 1024" using sched_invD [OF assms(1)] assms(2) by auto
  note nth = hand_over_nth [of cur s nxt, unfolded l(1), OF assms(3) l(2) assms(4)]
  have "pcb_ok (process_table (hand_over cur nxt s) ! j)" if "j < 1024" for j
    using sched_inv_pcb [OF assms(1) that] assms(4) by (cases "j = nxt"; cases "j = cur") (auto simp: nth)
  then have "\<forall>p \<in> set (process_table (hand_over cur nxt s)). pcb_ok p" using l by (simp add: all_set_conv_all_nth)
  moreover have "task_id (process_table (hand_over cur nxt s) ! 0) = 100"
    using sched_invD(8) [OF assms(1)] by (simp add: nth)
  ultimately show ?thesis using assms l by (simp add: sched_inv_def)
qed

lemma yield_inv: "sched_inv s \<Longrightarrow> sched_inv (scheduler_yield s)"
proof -
  assume i: "sched_inv s"
  obtain nxt s' where sel: "scheduler_select_next_candidate (tick s) = (nxt, s')" by (cases "scheduler_select_next_candidate (tick s)")
  have "sched_inv (tick s)" using i by simp
  note n = select_next_inv [OF this sel]
  have "active_process_count s' = active_process_count s" "running s' = running s" using n(3) by auto
  with n i sched_invD(2) [OF i] show ?thesis
    by (auto simp: yield_eq sel intro!: hand_over_inv)
qed

lemma yield_running:
  "sched_inv s \<Longrightarrow> running (scheduler_yield s) =
     (if active_process_count s \<le> 1 then running s else fst (scheduler_select_next_candidate (tick s)))"
proof -
  assume i: "sched_inv s"
  obtain nxt s' where sel: "scheduler_select_next_candidate (tick s) = (nxt, s')" by (cases "scheduler_select_next_candidate (tick s)")
  have "sched_inv (tick s)" using i by simp
  note n = select_next_inv [OF this sel]
  have "nxt < 1024" "running s' = running s" using n(2,3) sched_invD(4) [OF i] by auto
  then show ?thesis by (simp add: yield_eq sel)
qed

text \<open>Everything a yield that changes the running process does to the registers and the stacks.\<close>

lemma yield_switch:
  assumes i: "sched_inv s" and sw: "running (scheduler_yield s) \<noteq> running s"
  shows "ram (scheduler_yield s) = snd (save_frame (cpu s) (ram s))"
    "r_esp (context_frame (process_table (scheduler_yield s) ! running s)) = fst (save_frame (cpu s) (ram s))"
    "cpu (scheduler_yield s) =
       load_frame (r_esp (context_frame (process_table s ! running (scheduler_yield s)))) (snd (save_frame (cpu s) (ram s)))"
proof -
  obtain nxt s' where sel: "scheduler_select_next_candidate (tick s) = (nxt, s')" by (cases "scheduler_select_next_candidate (tick s)")
  have "sched_inv (tick s)" using i by simp
  note n = select_next_inv [OF this sel]
  have cnt: "\<not> active_process_count s \<le> 1" using sw yield_running [OF i] by (auto split: if_splits)
  have run: "running (scheduler_yield s) = nxt" "nxt \<noteq> running s" using sw yield_running [OF i] cnt sel by auto
  have len: "length (process_table s') = 1024" "nxt < 1024" "running s < 1024"
    using sched_invD [OF n(1)] n(2) sched_invD [OF i] by auto
  have same: "cpu s' = cpu s" "ram s' = ram s" using n(3) by auto
  have y: "scheduler_yield s = hand_over (running s) nxt s'" using cnt sel run(2) by (simp add: yield_eq)
  have cf: "context_frame (process_table s' ! nxt) = context_frame (process_table s ! nxt)" using n(4) len(2) by simp
  show "ram (scheduler_yield s) = snd (save_frame (cpu s) (ram s))" by (simp add: y same)
  show "r_esp (context_frame (process_table (scheduler_yield s) ! running s)) = fst (save_frame (cpu s) (ram s))"
    using len run(2) by (simp add: y hand_over_nth same)
  show "cpu (scheduler_yield s) = load_frame (r_esp (context_frame (process_table s ! running (scheduler_yield s)))) (snd (save_frame (cpu s) (ram s)))"
    unfolding run(1) using len run(2) cf by (simp add: y hand_over_def switch_stacks_cpu same nth_list_update)
qed


section \<open>The other operations keep the invariant\<close>

lemma initialize_inv:
  assumes "length (process_table s) = 1024"
  shows "sched_inv (scheduler_initialize s)"
proof -
  have ok: "pcb_ok (clear_slot p)" "pcb_ok (master_slot (clear_slot p))" for p
    by (simp_all add: pcb_ok_def clear_slot_def master_slot_def zero_signals_def channel_inv_zero)
  have "0 < length (process_table s)" using assms by simp
  then have e: "process_table (scheduler_initialize s) =
      (map clear_slot (process_table s))[0 := master_slot (clear_slot (process_table s ! 0))]"
    unfolding scheduler_initialize_def by simp
  have "\<forall>p \<in> set (process_table (scheduler_initialize s)). pcb_ok p"
    unfolding e using ok by (auto dest!: set_update_subset_insert [THEN subsetD])
  moreover have "task_id (process_table (scheduler_initialize s) ! 0) = 100"
    unfolding e using assms by (simp add: master_slot_def)
  ultimately show ?thesis using assms
    by (simp add: sched_inv_def e) (simp add: scheduler_initialize_def running_def)
qed

text \<open>A change of a slot the invariant does not see, before or instead of a yield.\<close>

lemma signal_field_ok:
  "length (handlers ss) = 32 \<Longrightarrow> pcb_ok p \<Longrightarrow> pcb_ok (p\<lparr>signal_subsystem := ss\<rparr>)"
  by (simp add: pcb_ok_def)

lemma sleep_inv: "sched_inv s \<Longrightarrow> sched_inv (scheduler_sleep n s)"
  unfolding scheduler_sleep_def by (intro yield_inv sched_inv_upd) auto

lemma sched_inv_if: "sched_inv a \<Longrightarrow> sched_inv b \<Longrightarrow> sched_inv (if c then a else b)"
  by simp

lemma send_signal_inv:
  assumes "sched_inv s"
  shows "sched_inv (snd (scheduler_send_signal t g s))"
proof (cases "31 < g \<or> first_ix (alive_with t) (active s) = None")
  case False
  then obtain i where i: "first_ix (alive_with t) (active s) = Some i" and g: "\<not> 31 < g" by auto
  let ?s = "upd_pcb i (\<lambda>p. p\<lparr>signal_subsystem := (signal_subsystem p)\<lparr>pending_signals :=
      pending_signals (signal_subsystem p) OR push_bit (unat g) 1\<rparr>\<rparr>) s"
  have s: "sched_inv ?s" using assms by (rule sched_inv_upd) (auto simp: pcb_ok_def)
  then have st: "sched_inv (upd_pcb i (\<lambda>p. p\<lparr>execution_state := st\<rparr>) ?s)" for st by (rule sched_inv_upd) auto
  show ?thesis
    unfolding scheduler_send_signal_def i if_not_P [OF g] option.case Let_def snd_conv
    by (intro sched_inv_if yield_inv s st)
qed (use assms in \<open>auto simp: scheduler_send_signal_def split: option.split\<close>)

lemma register_handler_inv:
  assumes "sched_inv s"
  shows "sched_inv (snd (scheduler_register_signal_handler g h s))"
proof -
  have "sched_inv (upd_pcb (running s) (\<lambda>p. p\<lparr>signal_subsystem := (signal_subsystem p)\<lparr>handlers :=
      (handlers (signal_subsystem p))[unat g := h]\<rparr>\<rparr>) s)"
    using assms by (rule sched_inv_upd) (auto simp: pcb_ok_def)
  with assms show ?thesis by (simp add: scheduler_register_signal_handler_def)
qed

lemma signal_loop_inv:
  assumes "\<And>h i s. sched_inv s \<Longrightarrow> sched_inv (call h i s)"
  shows "sched_inv s \<Longrightarrow> sched_inv (signal_loop call cur sigs is s)"
proof (induction "is" arbitrary: s)
  case (Cons i "is")
  have clear: "sched_inv (upd_pcb cur (\<lambda>p. p\<lparr>signal_subsystem := (signal_subsystem p)\<lparr>pending_signals :=
      pending_signals (signal_subsystem p) AND NOT (push_bit i 1)\<rparr>\<rparr>) s)"
    using Cons.prems by (rule sched_inv_upd) (auto simp: pcb_ok_def)
  show ?case
    unfolding signal_loop.simps Let_def
    by (auto intro!: Cons.IH assms clear Cons.prems simp del: push_bit_of_1)
qed simp

lemma check_signals_inv:
  "(\<And>h i s. sched_inv s \<Longrightarrow> sched_inv (call h i s)) \<Longrightarrow> sched_inv s \<Longrightarrow>
   sched_inv (scheduler_check_pending_signals call s)"
  by (simp add: scheduler_check_pending_signals_def Let_def signal_loop_inv)

lemma active_nth: "i < length (active s) \<Longrightarrow> active s ! i = process_table s ! i"
  by (simp add: active_def)

lemma active_first_ix:
  assumes "sched_inv s" "first_ix P (active s) = Some i"
  shows "i < unat (active_process_count s)" "i < 1024" "P (process_table s ! i)"
    "\<forall>j < i. \<not> P (process_table s ! j)"
proof -
  have i: "i < length (active s)" "P (active s ! i)" "\<forall>j < i. \<not> P (active s ! j)"
    using first_ix_SomeD [OF assms(2)] by auto
  with sched_invD [OF assms(1)]
  show "i < unat (active_process_count s)" "i < 1024" "P (process_table s ! i)" "\<forall>j < i. \<not> P (process_table s ! j)"
    by (auto simp: active_nth)
qed

text \<open>A send either changes nothing, or appends to the channel of the first live process with that pid.\<close>

definition woken :: "process_control_block \<Rightarrow> u32" where
  "woken p = (if execution_state p = ST_BLOCKED \<and> waiting_on_pid p = 0 then ST_RUNNING else execution_state p)"

lemma ipc_send_cases:
  assumes "sched_inv s" "unat len \<le> length msg"
  shows "(\<exists>st. st \<noteq> ERR_OK \<and> scheduler_ipc_send d msg len ty s = Inr (st, s)) \<or>
     (\<exists>i c. first_ix (alive_with d) (active s) = Some i \<and> channel_inv c \<and> unat len \<le> 128 \<and>
        channel_list c = channel_list (communication_channel (process_table s ! i)) @
          [(task_id (current s), ty, take (unat len) msg)] \<and>
        ch_count c = ch_count (communication_channel (process_table s ! i)) + 1 \<and>
        scheduler_ipc_send d msg len ty s =
          Inr (ERR_OK, upd_pcb i (\<lambda>p. p\<lparr>communication_channel := c, execution_state := woken p\<rparr>) s))"
proof (cases "SCHED_IPC_MSG_SIZE < len")
  case True
  then show ?thesis by (simp add: scheduler_ipc_send_def err_codes)
next
  case False
  then have len: "unat len \<le> 128" by (simp add: SCHED_IPC_MSG_SIZE_def word_less_nat_alt)
  show ?thesis
  proof (cases "first_ix (alive_with d) (active s)")
    case None
    with False show ?thesis by (simp add: scheduler_ipc_send_def err_codes)
  next
    case (Some i)
    let ?ch = "communication_channel (process_table s ! i)"
    have ci: "channel_inv ?ch"
      using sched_inv_pcb [OF assms(1) active_first_ix(2) [OF assms(1) Some]] by (simp add: pcb_ok_def)
    show ?thesis
    proof (cases "SCHED_IPC_MAX_MESSAGES \<le> ch_count ?ch")
      case True
      with False Some show ?thesis by (simp add: scheduler_ipc_send_def err_codes)
    next
      case room: False
      then have "unat (ch_count ?ch) < 32"
        by (simp add: SCHED_IPC_MAX_MESSAGES_def word_le_nat_alt)
      from channel_push_ok [OF ci this len assms(2), of "task_id (current s)" ty] obtain c where
        "channel_push (task_id (current s)) msg len ty ?ch = Inr c" "channel_inv c"
        "channel_list c = channel_list ?ch @ [(task_id (current s), ty, take (unat len) msg)]"
        "ch_count c = ch_count ?ch + 1" by blast
      with False Some room len show ?thesis
        by (intro disjI2 exI [of _ i] exI [of _ c]) (simp add: scheduler_ipc_send_def woken_def [abs_def])
    qed
  qed
qed

lemma channel_field_ok: "channel_inv c \<Longrightarrow> pcb_ok p \<Longrightarrow> pcb_ok (p\<lparr>communication_channel := c\<rparr>)"
  by (simp add: pcb_ok_def)

lemma ipc_send_inv:
  "sched_inv s \<Longrightarrow> unat len \<le> length msg \<Longrightarrow> scheduler_ipc_send d msg len ty s = Inr (st, s') \<Longrightarrow> sched_inv s'"
  using ipc_send_cases [of s len msg d ty] by (auto intro!: sched_inv_upd channel_field_ok)

lemma wake_waiter_simps [simp]:
  "pcb_ok (wake_waiter t p) = pcb_ok p" "task_id (wake_waiter t p) = task_id p"
  by (simp_all add: wake_waiter_def)

lemma terminate_inv:
  assumes "sched_inv s"
  shows "sched_inv (snd (scheduler_terminate_process t s))"
proof -
  have "sched_inv (snd (scheduler_terminate_process t s))"
    if "first_ix (\<lambda>p. task_id p = t) (active s) = Some i" for i
  proof -
    let ?s = "upd_pcb i (\<lambda>p. p\<lparr>execution_state := ST_DEAD\<rparr>) s"
    have s: "sched_inv ?s" using assms by (rule sched_inv_upd) auto
    let ?n = "unat (active_process_count ?s)" and ?t = "process_table ?s"
    let ?t' = "map (wake_waiter t) (take ?n ?t) @ drop ?n ?t"
    have n: "?n \<le> length ?t" using sched_invD [OF s] by simp
    have len: "length ?t' = length ?t" using n by simp
    have nth: "?t' ! j = (if j < ?n then wake_waiter t (?t ! j) else ?t ! j)" if "j < length ?t" for j
      using that n by (simp add: nth_append)
    have "sched_inv (?s\<lparr>process_table := ?t'\<rparr>)"
      using s len
    proof (rule sched_inv_table)
      fix j assume "j < length ?t'"
      then have j: "j < length ?t" using len by simp
      have "pcb_ok (?t ! j)" using sched_inv_pcb [OF s, of j] j sched_invD(1) [OF s] by simp
      then show "pcb_ok (?t' ! j) \<and> task_id (?t' ! j) = task_id (?t ! j)" unfolding nth [OF j] by simp
    qed
    with assms that show ?thesis
      by (simp add: scheduler_terminate_process_def Let_def)
  qed
  with assms show ?thesis by (cases "first_ix (\<lambda>p. task_id p = t) (active s)")
    (simp_all add: scheduler_terminate_process_def)
qed

lemma terminate_current_inv: "sched_inv s \<Longrightarrow> sched_inv (scheduler_terminate_current s)"
  by (simp add: scheduler_terminate_current_def yield_inv terminate_inv)

lemma block_inv: "sched_inv s \<Longrightarrow> sched_inv (upd_pcb i (\<lambda>p. p\<lparr>execution_state := x, waiting_on_pid := w\<rparr>) s)"
  by (rule sched_inv_upd) auto

lemma wait_pid_inv: "sched_inv s \<Longrightarrow> sched_inv (snd (scheduler_wait_pid t s))"
  by (simp add: scheduler_wait_pid_def yield_inv block_inv)


section \<open>Registration\<close>

lemma init_pcb_simps [simp]:
  "task_id (init_pcb g pa pr rss fl st now sp p) = g" "parent_id (init_pcb g pa pr rss fl st now sp p) = pa"
  "execution_state (init_pcb g pa pr rss fl st now sp p) = ST_RUNNING"
  "base_priority (init_pcb g pa pr rss fl st now sp p) = pr"
  "dynamic_priority (init_pcb g pa pr rss fl st now sp p) = pr"
  "stack_memory_block (init_pcb g pa pr rss fl st now sp p) = st"
  "r_esp (context_frame (init_pcb g pa pr rss fl st now sp p)) = sp"
  "allocation_flags (init_pcb g pa pr rss fl st now sp p) = fl"
  "sleep_until_tick (init_pcb g pa pr rss fl st now sp p) = 0"
  "pcb_ok (init_pcb g pa pr rss fl st now sp p)"
  by (simp_all add: init_pcb_def pcb_ok_def zero_signals_def channel_inv_zero)

text \<open>A registration that returns: refused, or a new slot after the active ones, with a fresh stack frame.\<close>

definition registered :: "u32 \<Rightarrow> u32 \<Rightarrow> u32 \<Rightarrow> u32 \<Rightarrow> u32 \<Rightarrow> u32 \<Rightarrow> scheduler_state \<Rightarrow> scheduler_state" where
  "registered stub e pr rss fl st s =
     (let (sp, m) = initial_stack stub e st (ram s)
      in s\<lparr>process_identifier_seed := process_identifier_seed s + 1, ram := m,
           process_table := (process_table s)[unat (active_process_count s) :=
             init_pcb (process_identifier_seed s) (task_id (current s)) pr rss fl st (kernel_elapsed_ticks s) sp
               (process_table s ! unat (active_process_count s))],
           active_process_count := active_process_count s + 1\<rparr>)"

lemma register_InrD:
  assumes "scheduler_register_process stub raw e pr rss fl s o0 = Inr (st, s', o')"
  shows "(st \<noteq> ERR_OK \<and> (s' = s \<or> s' = s\<lparr>process_identifier_seed := process_identifier_seed s + 1\<rparr>)) \<or>
     (\<exists>stack. st = ERR_OK \<and> unat (active_process_count s) < 1024 \<and> stack \<noteq> 0 \<and> s' = registered stub e pr rss fl stack s)"
proof (cases "SYS_MAX_TASKS \<le> active_process_count s")
  case True
  with assms show ?thesis by (auto simp: scheduler_register_process_def err_codes)
next
  case False
  then have "unat (active_process_count s) < 1024" by (simp add: SYS_MAX_TASKS_def word_le_nat_alt)
  with False assms show ?thesis
    by (auto simp: scheduler_register_process_def Let_def bindE_eq_Inr registered_def split_beta err_codes
        upd_pcb_def current_def running_def split: if_splits)
qed

lemma registered_simps [simp]:
  "active_process_count (registered stub e pr rss fl st s) = active_process_count s + 1"
  "running (registered stub e pr rss fl st s) = running s"
  "process_identifier_seed (registered stub e pr rss fl st s) = process_identifier_seed s + 1"
  "ram (registered stub e pr rss fl st s) = snd (initial_stack stub e st (ram s))"
  "cpu (registered stub e pr rss fl st s) = cpu s"
  "kernel_elapsed_ticks (registered stub e pr rss fl st s) = kernel_elapsed_ticks s"
  "process_table (registered stub e pr rss fl st s) =
     (process_table s)[unat (active_process_count s) :=
        init_pcb (process_identifier_seed s) (task_id (current s)) pr rss fl st (kernel_elapsed_ticks s)
          (fst (initial_stack stub e st (ram s))) (process_table s ! unat (active_process_count s))]"
  by (simp_all add: registered_def split_beta running_def)

lemma registered_inv:
  assumes "sched_inv s" "unat (active_process_count s) < 1024"
  shows "sched_inv (registered stub e pr rss fl st s)"
proof -
  let ?n = "unat (active_process_count s)"
  have cnt: "unat (active_process_count s + 1) = Suc ?n" by (rule unat_inc_bound) (use assms(2) in simp)
  have "\<forall>p \<in> set (process_table (registered stub e pr rss fl st s)). pcb_ok p"
    using assms(1) by (auto simp: sched_inv_def dest!: set_update_subset_insert [THEN subsetD])
  with assms cnt show ?thesis by (simp add: sched_inv_def)
qed

lemma sched_inv_seed [simp]: "sched_inv (s\<lparr>process_identifier_seed := n\<rparr>) = sched_inv s"
  by (simp add: sched_inv_def)

lemma register_inv:
  "sched_inv s \<Longrightarrow> scheduler_register_process stub raw e pr rss fl s o0 = Inr (st, s', o') \<Longrightarrow> sched_inv s'"
  by (drule register_InrD) (auto intro: registered_inv)

section \<open>Reachable states\<close>

inductive sched_step :: "scheduler_state \<Rightarrow> scheduler_state \<Rightarrow> bool" where
  yield: "sched_step s (scheduler_yield s)"
| sleep: "sched_step s (scheduler_sleep n s)"
| signal: "sched_step s (snd (scheduler_send_signal target sig s))"
| set_handler: "sched_step s (snd (scheduler_register_signal_handler sig h s))"
| deliver: "(\<And>h i t. sched_inv t \<Longrightarrow> sched_inv (call h i t)) \<Longrightarrow>
    sched_step s (scheduler_check_pending_signals call s)"
| send: "unat len \<le> length msg \<Longrightarrow> scheduler_ipc_send d msg len ty s = Inr (st, s') \<Longrightarrow> sched_step s s'"
| block: "ch_count (communication_channel (current s)) = 0 \<Longrightarrow>
    sched_step s (scheduler_yield
      (upd_pcb (running s) (\<lambda>p. p\<lparr>execution_state := ST_BLOCKED, waiting_on_pid := 0\<rparr>) s))"
| receive: "0 < ch_count (communication_channel (current s)) \<Longrightarrow> unat mx \<le> length b \<Longrightarrow>
    channel_pop b mx (communication_channel (current s)) = Inr (r, c) \<Longrightarrow>
    sched_step s (upd_pcb (running s) (\<lambda>p. p\<lparr>communication_channel := c\<rparr>) s)"
| kill: "sched_step s (snd (scheduler_terminate_process target s))"
| exit: "sched_step s (scheduler_terminate_current s)"
| wait: "sched_step s (snd (scheduler_wait_pid target s))"
| register: "scheduler_register_process stub raw e pr rss fl s o0 = Inr (st, s', o1) \<Longrightarrow> sched_step s s'"

inductive sched_reachable :: "scheduler_state \<Rightarrow> bool" where
  boot: "length (process_table s) = 1024 \<Longrightarrow> sched_reachable (scheduler_initialize s)"
| step: "sched_reachable s \<Longrightarrow> sched_step s s' \<Longrightarrow> sched_reachable s'"

lemma sched_step_inv: "sched_step s s' \<Longrightarrow> sched_inv s \<Longrightarrow> sched_inv s'"
proof (induction rule: sched_step.induct)
  case (deliver call s)
  show ?case by (rule check_signals_inv) (use deliver in auto)
next
  case (block s)
  then show ?case by (intro yield_inv block_inv)
next
  case (receive s mx b r c)
  have ci: "channel_inv (communication_channel (current s))"
    using sched_invD(7) [OF receive(4)] by (simp add: pcb_ok_def)
  have "0 < unat (ch_count (communication_channel (current s)))"
    using receive(1) by (simp add: word_less_nat_alt)
  from channel_pop_ok [OF ci this, of b mx] receive(2,3) have "channel_inv c" by auto
  with receive(4) show ?case by (intro sched_inv_upd channel_field_ok) auto
qed (rule yield_inv sleep_inv send_signal_inv register_handler_inv terminate_inv terminate_current_inv
      wait_pid_inv, assumption | erule (2) ipc_send_inv [rotated 1] | erule (1) register_inv [rotated 1])+

lemma reachable_inv: "sched_reachable s \<Longrightarrow> sched_inv s"
  by (induction rule: sched_reachable.induct) (auto intro: initialize_inv sched_step_inv)

end
