(* ===== verification/WX_Sched_Props.thy ===== *)
theory WX_Sched_Props
  imports WX_Sched_Inv
begin

text \<open>
  The properties of the scheduler: the invariant of reachable states, selection, the context switch,
  termination, waiting for messages, starvation, and what two registrations in a row do to each other.
\<close>

section \<open>Saved frames\<close>

lemma save_frame_esp: "fst (save_frame c m) = r_esp c - 36"
  by (simp add: save_frame_def)

lemma save_frame_ram:
  "snd (save_frame c m) = m(r_esp c - 4 := r_eflags c, r_esp c - 8 := r_eax c, r_esp c - 12 := r_ecx c,
     r_esp c - 16 := r_edx c, r_esp c - 20 := r_ebx c, r_esp c - 24 := r_esp c - 4, r_esp c - 28 := r_ebp c,
     r_esp c - 32 := r_esi c, r_esp c - 36 := r_edi c)"
  by (simp add: save_frame_def)

text \<open>The nine words of the frame at \<open>sp\<close> are the same in both memories.\<close>

definition same_frame :: "u32 \<Rightarrow> (u32 \<Rightarrow> u32) \<Rightarrow> (u32 \<Rightarrow> u32) \<Rightarrow> bool" where
  "same_frame sp m m' \<longleftrightarrow> (\<forall>k \<in> set [0..<9]. m (sp + 4 * of_nat k) = m' (sp + 4 * of_nat k))"

lemma load_frame_same: "same_frame sp m m' \<Longrightarrow> load_frame sp m = load_frame sp m'"
  by (simp add: same_frame_def load_frame_def upt_rec)

lemma load_save_frame: "load_frame (fst (save_frame c m)) (snd (save_frame c m)) = c"
  by (simp add: save_frame_esp save_frame_ram load_frame_def)

section \<open>The invariant of the scheduler\<close>

definition empty_sched :: scheduler_state where
  "empty_sched = \<lparr>process_table = replicate 1024
       \<lparr>context_frame = load_frame 0 (\<lambda>_. 0), task_id = 0, parent_id = 0, execution_state = 0,
        memory_footprint_pages = 0, base_priority = 0, dynamic_priority = 0, accumulation_cycles = 0,
        allocation_flags = 0, stack_memory_block = 0, signal_subsystem = zero_signals, metrics = zero_metrics,
        communication_channel = zero_channel, waiting_on_pid = 0, sleep_until_tick = 0\<rparr>,
     active_process_count = 0, running_process_index = 0, scheduler_cycles = 0, process_identifier_seed = 0,
     idle_ticks = 0, kernel_elapsed_ticks = 0, cpu = load_frame 0 (\<lambda>_. 0), ram = (\<lambda>_. 0)\<rparr>"

definition boot_sched :: scheduler_state where
  "boot_sched = scheduler_initialize empty_sched"

lemma boot_sched_reachable: "sched_reachable boot_sched"
  unfolding boot_sched_def by (rule sched_reachable.boot) (simp add: empty_sched_def)

lemma boot_sched_inv: "sched_inv boot_sched"
  by (rule reachable_inv [OF boot_sched_reachable])

text \<open>
  C2: in every state the scheduler can reach, the running process is one of the at most 1024 registered
  ones, slot 0 is the master with pid 100, every channel holds at most 32 messages of at most 128 bytes,
  and a send whose length does not exceed the caller's buffer never leaves a buffer or the table.
\<close>
theorem scheduler_reachable_states_are_sound:
  assumes "sched_reachable s"
  shows "running s < unat (active_process_count s) \<and> unat (active_process_count s) \<le> 1024 \<and>
     task_id (process_table s ! 0) = 100 \<and>
     (\<forall>i < 1024. length (channel_list (communication_channel (process_table s ! i))) \<le> 32 \<and>
        (\<forall>(_, _, bytes) \<in> set (channel_list (communication_channel (process_table s ! i))). length bytes \<le> 128)) \<and>
     (\<forall>len msg d ty. unat len \<le> length msg \<longrightarrow> (\<exists>r. scheduler_ipc_send d msg len ty s = Inr r))"
proof -
  note i = reachable_inv [OF assms]
  have "length (channel_list c) \<le> 32 \<and> (\<forall>(_, _, bytes) \<in> set (channel_list c). length bytes \<le> 128)"
    if "channel_inv c" for c
  proof -
    have "message_ok m" if "m \<in> set (ring_list (ch_queue c) h n)" for m h n
    proof -
      from that have "m \<in> set (ch_queue c)"
        using \<open>channel_inv c\<close> by (auto simp: ring_list_def channel_inv_def)
      with \<open>channel_inv c\<close> show ?thesis by (simp add: channel_inv_def)
    qed
    with that show ?thesis by (fastforce simp: channel_list_def message_view_def message_ok_def channel_inv_def)
  qed
  moreover have "channel_inv (communication_channel (process_table s ! i))" if "i < 1024" for i
    using sched_inv_pcb [OF i that] by (simp add: pcb_ok_def)
  moreover have "\<exists>r. scheduler_ipc_send d msg len ty s = Inr r" if "unat len \<le> length msg" for len msg d ty
    using ipc_send_cases [OF i that, of d ty] by blast
  ultimately show ?thesis using sched_invD [OF i] by blast
qed

theorem scheduler_reachable_states_are_sound_witness:
  "running (scheduler_sleep 10 (scheduler_yield boot_sched)) < 1024 \<and>
   task_id (process_table (scheduler_sleep 10 (scheduler_yield boot_sched)) ! 0) = 100"
proof -
  have "sched_reachable (scheduler_sleep 10 (scheduler_yield boot_sched))"
    by (rule sched_reachable.step [OF sched_reachable.step [OF boot_sched_reachable sched_step.yield] sched_step.sleep])
  from scheduler_reachable_states_are_sound [OF this] show ?thesis by auto
qed

section \<open>Selection and the context switch\<close>

text \<open>
  C5: a yield gives the CPU to the first process of the highest dynamic priority, after aging, among
  those that are runnable and whose sleep is over; when there is none it falls back to slot 0.
\<close>
theorem yield_runs_the_best_candidate:
  assumes "sched_inv s" "1 < active_process_count s"
  shows "let now = kernel_elapsed_ticks s + 1; n = unat (active_process_count s) in
     if \<exists>j < n. eligible now (process_table s ! j)
     then best_of now n (aged (tick s)) (running (scheduler_yield s))
     else running (scheduler_yield s) = 0"
proof -
  obtain nxt s' where sel: "scheduler_select_next_candidate (tick s) = (nxt, s')"
    by (cases "scheduler_select_next_candidate (tick s)")
  have i: "sched_inv (tick s)" using assms by simp
  have "\<not> active_process_count s \<le> 1" using assms(2) by (simp add: not_le)
  then have "running (scheduler_yield s) = nxt" using yield_running [OF assms(1)] sel by simp
  moreover have "length (process_table s) = 1024" "unat (active_process_count s) \<le> 1024"
    using sched_invD [OF assms(1)] by auto
  ultimately show ?thesis
    by (cases rule: select_next_cases [OF i sel]) (auto simp: best_of_def Let_def)
qed

text \<open>Two processes, one blocked and one runnable, to apply the properties to.\<close>

definition slot_of :: "u32 \<Rightarrow> u32 \<Rightarrow> u32 \<Rightarrow> u32 \<Rightarrow> process_control_block" where
  "slot_of p st prio sp = \<lparr>context_frame = (load_frame 0 (\<lambda>_. 0))\<lparr>r_esp := sp\<rparr>, task_id = p, parent_id = 0,
     execution_state = st, memory_footprint_pages = 1, base_priority = prio, dynamic_priority = prio,
     accumulation_cycles = 0, allocation_flags = 0, stack_memory_block = 0, signal_subsystem = zero_signals,
     metrics = zero_metrics, communication_channel = zero_channel, waiting_on_pid = 0, sleep_until_tick = 0\<rparr>"

definition sched_of :: "process_control_block list \<Rightarrow> nat \<Rightarrow> scheduler_state" where
  "sched_of slots run = empty_sched\<lparr>process_table := slots @ replicate (1024 - length slots) (slot_of 0 ST_DEAD 0 0),
     active_process_count := of_nat (length slots), running_process_index := of_nat run,
     process_identifier_seed := 101\<rparr>"

lemma state_distinct [simp]:
  "ST_BLOCKED \<noteq> ST_RUNNING" "ST_DEAD \<noteq> ST_RUNNING" "ST_STOPPED \<noteq> ST_RUNNING" "ST_DEAD \<noteq> ST_BLOCKED"
  by (simp_all add: state_codes)

lemma slot_of_ok: "pcb_ok (slot_of p st prio sp)"
  by (simp add: pcb_ok_def slot_of_def channel_inv_zero zero_signals_def)

lemma sched_of_simps:
  "length slots \<le> 1024 \<Longrightarrow> length (process_table (sched_of slots run)) = 1024"
  "length slots \<le> 1024 \<Longrightarrow> unat (active_process_count (sched_of slots run)) = length slots"
  "j < length slots \<Longrightarrow> process_table (sched_of slots run) ! j = slots ! j"
  "run < 1024 \<Longrightarrow> running (sched_of slots run) = run"
  by (simp_all add: sched_of_def nth_append unat_of_nat running_def)

lemma sched_of_inv:
  assumes "slots \<noteq> []" "length slots \<le> 1024" "run < length slots" "task_id (slots ! 0) = 100"
    "\<forall>p \<in> set slots. pcb_ok p"
  shows "sched_inv (sched_of slots run)"
proof -
  have "\<forall>p \<in> set (process_table (sched_of slots run)). pcb_ok p"
    using assms(5) by (auto simp: sched_of_def slot_of_ok)
  with assms show ?thesis by (simp add: sched_inv_def sched_of_simps)
qed

definition pair_sched :: "u32 \<Rightarrow> u32 \<Rightarrow> scheduler_state" where
  "pair_sched a b = sched_of [slot_of 100 a 20 0x2000, slot_of 101 b 20 0x1000] 0"

lemma pair_sched_inv: "sched_inv (pair_sched a b)"
  unfolding pair_sched_def by (rule sched_of_inv) (auto simp: slot_of_ok, simp add: slot_of_def)

lemma pair_sched_count: "active_process_count (pair_sched a b) = 2"
  by (simp add: pair_sched_def sched_of_def)

lemma pair_sched_slots:
  "process_table (pair_sched a b) ! 0 = slot_of 100 a 20 0x2000"
  "process_table (pair_sched a b) ! Suc 0 = slot_of 101 b 20 0x1000"
  "running (pair_sched a b) = 0"
  by (simp_all add: pair_sched_def sched_of_simps)

theorem yield_runs_the_best_candidate_witness:
  "running (scheduler_yield (pair_sched ST_BLOCKED ST_RUNNING)) = 1"
proof -
  let ?s = "pair_sched ST_BLOCKED ST_RUNNING"
  have e: "eligible now (process_table ?s ! 1)" "\<not> eligible now (process_table ?s ! 0)" for now
    by (simp_all add: pair_sched_slots slot_of_def eligible_def asleep_def state_codes)
  have "1 < active_process_count ?s" by (simp add: pair_sched_count)
  moreover have "\<exists>j < 2. eligible (kernel_elapsed_ticks ?s + 1) (process_table ?s ! j)"
    using e(1) by (intro exI [of _ 1]) simp
  ultimately have "best_of (kernel_elapsed_ticks ?s + 1) 2 (aged (tick ?s)) (running (scheduler_yield ?s))"
    using yield_runs_the_best_candidate [OF pair_sched_inv] by (simp add: Let_def pair_sched_count)
  then have "running (scheduler_yield ?s) < 2" "eligible (kernel_elapsed_ticks ?s + 1) (aged (tick ?s) ! running (scheduler_yield ?s))"
    by (auto simp: best_of_def)
  with e sched_invD(1) [OF pair_sched_inv] show ?thesis by (auto simp: less_2_cases_iff)
qed

lemma only_eligible_runs:
  assumes "sched_inv s" "1 < active_process_count s" "j < unat (active_process_count s)"
    "eligible (kernel_elapsed_ticks s + 1) (process_table s ! j)"
    "\<forall>k < unat (active_process_count s). k \<noteq> j \<longrightarrow> \<not> eligible (kernel_elapsed_ticks s + 1) (process_table s ! k)"
  shows "running (scheduler_yield s) = j"
proof -
  obtain nxt s' where sel: "scheduler_select_next_candidate (tick s) = (nxt, s')"
    by (cases "scheduler_select_next_candidate (tick s)")
  have i: "sched_inv (tick s)" using assms by simp
  have "\<not> active_process_count s \<le> 1" using assms(2) by (simp add: not_le)
  then have "running (scheduler_yield s) = nxt" using yield_running [OF assms(1)] sel by simp
  moreover have "length (process_table s) = 1024" "unat (active_process_count s) \<le> 1024"
    using sched_invD [OF assms(1)] by auto
  ultimately show ?thesis using assms(3-5)
    by (cases rule: select_next_cases [OF i sel]) (auto simp: best_of_def)
qed

text \<open>
  C3: a process that yields the CPU gets its registers back: whatever happened in between, if the nine
  words saved on its stack and its saved stack pointer are untouched, the yield that switches back to it
  restores every register and the stack pointer exactly.
\<close>
theorem context_switch_restores_registers:
  assumes "sched_inv s" "running (scheduler_yield s) \<noteq> running s"
    and "sched_inv t" "running t \<noteq> running s" "running (scheduler_yield t) = running s"
    and "r_esp (context_frame (process_table t ! running s)) =
         r_esp (context_frame (process_table (scheduler_yield s) ! running s))"
    and "same_frame (r_esp (cpu s) - 36) (ram (scheduler_yield t)) (ram (scheduler_yield s))"
  shows "cpu (scheduler_yield t) = cpu s"
proof -
  note a = yield_switch [OF assms(1,2)]
  have "running (scheduler_yield t) \<noteq> running t" using assms(4,5) by simp
  note b = yield_switch [OF assms(3) this]
  have "cpu (scheduler_yield t) = load_frame (fst (save_frame (cpu s) (ram s))) (ram (scheduler_yield t))"
    by (simp only: b(3) assms(5,6) a(2) b(1))
  also have "\<dots> = load_frame (fst (save_frame (cpu s) (ram s))) (ram (scheduler_yield s))"
    using assms(7) by (intro load_frame_same) (simp add: save_frame_esp)
  also have "\<dots> = cpu s" unfolding a(1) by (rule load_save_frame)
  finally show ?thesis .
qed


theorem context_switch_restores_registers_witness:
  "\<exists>s t. running (scheduler_yield s) = 1 \<and> running (scheduler_yield t) = 0 \<and> cpu (scheduler_yield t) = cpu s"
proof -
  let ?s = "pair_sched ST_BLOCKED ST_RUNNING"
  let ?t = "upd_pcb 1 (\<lambda>p. p\<lparr>execution_state := ST_BLOCKED\<rparr>)
     (upd_pcb 0 (\<lambda>p. p\<lparr>execution_state := ST_RUNNING, sleep_until_tick := 0\<rparr>) (scheduler_yield ?s))"
  have s: "sched_inv ?s" by (rule pair_sched_inv)
  have t: "sched_inv ?t" by (intro sched_inv_upd yield_inv s) auto
  have ys: "running (scheduler_yield ?s) = 1"
    by (rule only_eligible_runs [OF s])
       (auto simp: pair_sched_count pair_sched_slots slot_of_def eligible_def asleep_def state_codes less_2_cases_iff)
  have sw: "running (scheduler_yield ?s) \<noteq> running ?s" using ys by (simp add: pair_sched_slots)
  have len: "length (process_table (scheduler_yield ?s)) = 1024" using sched_invD(1) [OF yield_inv [OF s]] .
  have cnt: "active_process_count (scheduler_yield u) = active_process_count u" if "sched_inv u" for u
  proof -
    obtain nxt s' where sel: "scheduler_select_next_candidate (tick u) = (nxt, s')"
      by (cases "scheduler_select_next_candidate (tick u)")
    have "sched_inv (tick u)" using that by simp
    from select_next_inv(3) [OF this sel] show ?thesis by (auto simp: yield_eq sel)
  qed
  have yt: "running (scheduler_yield ?t) = 0"
    by (rule only_eligible_runs [OF t])
       (auto simp: cnt [OF s] pair_sched_count len eligible_def asleep_def less_2_cases_iff)
  have tr: "running ?t = 1" using ys by simp
  note a = yield_switch [OF s sw]
  have tsw: "running (scheduler_yield ?t) \<noteq> running ?t" using tr yt by simp
  note b = yield_switch [OF t tsw]
  have cs: "cpu ?s = load_frame 0 (\<lambda>_. 0)"
    by (simp add: pair_sched_def sched_of_def empty_sched_def)
  have esp1: "r_esp (context_frame (process_table ?s ! 1)) = 0x1000"
    by (simp add: pair_sched_slots slot_of_def)
  have ct: "r_esp (cpu ?t) = 0x1024"
    using a(3) esp1 ys by (simp add: load_frame_def)
  have "same_frame (r_esp (cpu ?s) - 36) (ram (scheduler_yield ?t)) (ram (scheduler_yield ?s))"
    unfolding same_frame_def b(1) save_frame_ram ct cs by (simp add: load_frame_def upt_rec)
  with context_switch_restores_registers [OF s sw t] ys yt tr len
  have "cpu (scheduler_yield ?t) = cpu ?s" by (simp add: pair_sched_slots)
  with ys yt show ?thesis by blast
qed

section \<open>Termination\<close>

text \<open>
  C12: terminating a pid succeeds exactly when a registered process has it and the first such process is
  neither the master (pid 100) nor critical; then that process is dead, every process blocked on that pid
  is runnable again and no other slot changes; otherwise nothing changes at all.
\<close>
theorem terminate_process_contract:
  assumes "sched_inv s" "scheduler_terminate_process target s = (st, s')"
  shows "(case first_ix (\<lambda>p. task_id p = target) (active s) of
       None \<Rightarrow> st = ERR_IO_NOT_FOUND \<and> s' = s
     | Some i \<Rightarrow>
         if target = 100 \<or> allocation_flags (process_table s ! i) AND OOM_FLAG_CRITICAL \<noteq> 0
         then st = ERR_IO_PERMISSION \<and> s' = s
         else st = ERR_OK \<and> execution_state (process_table s' ! i) = ST_DEAD \<and>
           (\<forall>j < unat (active_process_count s). j \<noteq> i \<longrightarrow>
              process_table s' ! j = (let p = process_table s ! j in
                if execution_state p = ST_BLOCKED \<and> waiting_on_pid p = target
                then p\<lparr>execution_state := ST_RUNNING, waiting_on_pid := 0\<rparr> else p)) \<and>
           (\<forall>j. unat (active_process_count s) \<le> j \<longrightarrow> j < 1024 \<longrightarrow> process_table s' ! j = process_table s ! j))"
proof (cases "first_ix (\<lambda>p. task_id p = target) (active s)")
  case None
  with assms(2) show ?thesis by (simp add: scheduler_terminate_process_def)
next
  case (Some i)
  note i = active_first_ix [OF assms(1) Some]
  show ?thesis
  proof (cases "target = 100 \<or> allocation_flags (process_table s ! i) AND OOM_FLAG_CRITICAL \<noteq> 0")
    case True
    with assms(2) Some show ?thesis by (auto simp: scheduler_terminate_process_def)
  next
    case False
    let ?n = "unat (active_process_count s)"
    let ?t = "(process_table s)[i := (process_table s ! i)\<lparr>execution_state := ST_DEAD\<rparr>]"
    have st: "st = ERR_OK" "process_table s' = map (wake_waiter target) (take ?n ?t) @ drop ?n ?t"
      using assms(2) Some False by (auto simp: scheduler_terminate_process_def Let_def)
    have len: "length ?t = 1024" "?n \<le> 1024" using sched_invD [OF assms(1)] by simp_all
    have nth: "process_table s' ! j = (if j < ?n then wake_waiter target (?t ! j) else ?t ! j)" if "j < 1024" for j
      unfolding st(2) using that len by (simp add: nth_append)
    have "process_table s' ! i = (process_table s ! i)\<lparr>execution_state := ST_DEAD\<rparr>"
      using nth [OF i(2)] i len by (simp add: wake_waiter_def state_codes)
    with st(1) nth i len Some False show ?thesis by (auto simp: nth_list_update wake_waiter_def Let_def)
  qed
qed

theorem terminate_process_contract_witness:
  "fst (scheduler_terminate_process 100 (pair_sched ST_RUNNING ST_RUNNING)) = ERR_IO_PERMISSION \<and>
   fst (scheduler_terminate_process 101 (pair_sched ST_RUNNING ST_RUNNING)) = ERR_OK"
proof -
  let ?s = "pair_sched ST_RUNNING ST_RUNNING"
  have a: "active ?s = [slot_of 100 ST_RUNNING 20 0x2000, slot_of 101 ST_RUNNING 20 0x1000]"
    by (simp add: active_def pair_sched_def sched_of_def)
  have f: "first_ix (\<lambda>p. task_id p = 100) (active ?s) = Some 0" "first_ix (\<lambda>p. task_id p = 101) (active ?s) = Some 1"
    by (simp_all add: a slot_of_def)
  obtain st1 s1 st2 s2 where r: "scheduler_terminate_process 100 ?s = (st1, s1)"
      "scheduler_terminate_process 101 ?s = (st2, s2)" by fastforce
  from terminate_process_contract [OF pair_sched_inv r(1)] terminate_process_contract [OF pair_sched_inv r(2)]
  show ?thesis by (simp add: f r pair_sched_slots slot_of_def)
qed

section \<open>Waiting for a message alone\<close>

text \<open>
  When a process is the only one registered and its channel is empty, receiving a message never
  returns: every yield comes straight back and nobody is left to send.
\<close>
lemma receive_alone_never_returns:
  assumes "active_process_count s = 1" "ch_count (communication_channel (current s)) = 0"
    "running s < length (process_table s)"
  shows "scheduler_ipc_receive id buffer mx s = None"
proof -
  have lonely: "w = id \<longrightarrow> ch_count (communication_channel (process_table t ! cur)) = 0 \<longrightarrow>
      active_process_count t = 1 \<longrightarrow> cur < length (process_table t) \<longrightarrow> False"
    if "receive_wait w cur t = Some u" for w cur t u
  proof (rule receive_wait.raw_induct [where P = "\<lambda>w cur t u. w = id \<longrightarrow>
      ch_count (communication_channel (process_table t ! cur)) = 0 \<longrightarrow> active_process_count t = 1 \<longrightarrow>
      cur < length (process_table t) \<longrightarrow> False", OF _ that], intro impI)
    fix f w cur t u
    assume IH: "\<And>w cur t u. f w cur t = Some u \<Longrightarrow> w = id \<longrightarrow>
        ch_count (communication_channel (process_table t ! cur)) = 0 \<longrightarrow> active_process_count t = 1 \<longrightarrow>
        cur < length (process_table t) \<longrightarrow> False"
      and body: "(if ch_count (communication_channel (process_table t ! cur)) = 0
        then f w cur (w (scheduler_yield (upd_pcb cur (\<lambda>p. p\<lparr>execution_state := ST_BLOCKED, waiting_on_pid := 0\<rparr>) t)))
        else Some t) = Some u"
      and h: "w = id" "ch_count (communication_channel (process_table t ! cur)) = 0" "active_process_count t = 1"
        "cur < length (process_table t)"
    have y: "scheduler_yield (upd_pcb cur g t) = tick (upd_pcb cur g t)" for g
      using h(3) by (simp add: yield_eq)
    from IH [of w cur "tick (upd_pcb cur (\<lambda>p. p\<lparr>execution_state := ST_BLOCKED, waiting_on_pid := 0\<rparr>) t)" u]
      body h show False by (simp add: y)
  qed
  show ?thesis
    using lonely [of id "running s" s] assms
    by (cases "receive_wait id (running s) s") (auto simp: scheduler_ipc_receive_def current_def Let_def)
qed


lemma receive_alone_never_returns_witness:
  "scheduler_ipc_receive id (replicate 128 NUL) 127 boot_sched = None"
  by (rule receive_alone_never_returns)
     (simp_all add: boot_sched_def scheduler_initialize_def empty_sched_def current_def running_def
        clear_slot_def master_slot_def zero_channel_def)

section \<open>Waiting time\<close>

text \<open>What one yield does to the fields selection looks at, when somebody is eligible.\<close>

lemma yield_slots:
  assumes "sched_inv s" "1 < active_process_count s"
    "j < unat (active_process_count s)" "eligible (kernel_elapsed_ticks s + 1) (process_table s ! j)"
  shows "best_of (kernel_elapsed_ticks s + 1) (unat (active_process_count s)) (aged (tick s)) (running (scheduler_yield s))"
    "active_process_count (scheduler_yield s) = active_process_count s"
    "\<forall>i < 1024. let p = process_table (scheduler_yield s) ! i; q = process_table s ! i in
       execution_state p = execution_state q \<and> base_priority p = base_priority q \<and>
       (sleep_until_tick q = 0 \<longrightarrow> sleep_until_tick p = 0) \<and>
       (if i = running (scheduler_yield s) then dynamic_priority p = base_priority q \<and> accumulation_cycles p = 0
        else dynamic_priority p = dynamic_priority (aged (tick s) ! i) \<and>
             accumulation_cycles p = accumulation_cycles (aged (tick s) ! i))"
proof -
  let ?now = "kernel_elapsed_ticks s + 1" and ?n = "unat (active_process_count s)"
  obtain nxt s' where sel: "scheduler_select_next_candidate (tick s) = (nxt, s')"
    by (cases "scheduler_select_next_candidate (tick s)")
  have i: "sched_inv (tick s)" using assms by simp
  have many: "\<not> active_process_count s \<le> 1" using assms(2) by (simp add: not_le)
  have run: "running (scheduler_yield s) = nxt" using yield_running [OF assms(1)] sel many by simp
  have len: "length (process_table s) = 1024" "?n \<le> 1024" "running s < 1024" using sched_invD [OF assms(1)] by auto
  note inv = select_next_inv [OF i sel]
  have y: "scheduler_yield s = (if running s = nxt then s' else hand_over (running s) nxt s')"
    using many sel by (simp add: yield_eq)
  have "best_of ?now ?n (aged (tick s)) nxt \<and>
      s' = (tick s)\<lparr>process_table := (scanned (tick s))[nxt := reset_priority (scanned (tick s) ! nxt)]\<rparr>"
    by (rule select_next_cases [OF i sel]) (use assms(3,4) in auto)
  then have best: "best_of ?now ?n (aged (tick s)) nxt"
    and s': "s' = (tick s)\<lparr>process_table := (scanned (tick s))[nxt := reset_priority (scanned (tick s) ! nxt)]\<rparr>"
    by blast+
  have nxt: "nxt < 1024" using best len by (auto simp: best_of_def)
  show "best_of ?now ?n (aged (tick s)) (running (scheduler_yield s))" using best run by simp
  show "active_process_count (scheduler_yield s) = active_process_count s" by (simp add: y s')
  have tab: "process_table s' ! i = (if i = nxt then reset_priority (scanned (tick s) ! i) else scanned (tick s) ! i)"
    if "i < 1024" for i
    using that len nxt by (simp add: s' nth_list_update)
  have lens': "length (process_table s') = 1024" by (simp add: s' len)
  have sel_fields: "execution_state (process_table (scheduler_yield s) ! i) = execution_state (process_table s' ! i)"
    "base_priority (process_table (scheduler_yield s) ! i) = base_priority (process_table s' ! i)"
    "sleep_until_tick (process_table (scheduler_yield s) ! i) = sleep_until_tick (process_table s' ! i)"
    "dynamic_priority (process_table (scheduler_yield s) ! i) = dynamic_priority (process_table s' ! i)"
    "accumulation_cycles (process_table (scheduler_yield s) ! i) = accumulation_cycles (process_table s' ! i)"
    if "i < 1024" for i
    using that len nxt lens' by (auto simp: y hand_over_nth)
  show "\<forall>i < 1024. let p = process_table (scheduler_yield s) ! i; q = process_table s ! i in
       execution_state p = execution_state q \<and> base_priority p = base_priority q \<and>
       (sleep_until_tick q = 0 \<longrightarrow> sleep_until_tick p = 0) \<and>
       (if i = running (scheduler_yield s) then dynamic_priority p = base_priority q \<and> accumulation_cycles p = 0
        else dynamic_priority p = dynamic_priority (aged (tick s) ! i) \<and>
             accumulation_cycles p = accumulation_cycles (aged (tick s) ! i))"
    unfolding Let_def run using len by (auto simp: sel_fields tab scanned_nth)
qed

text \<open>Distance walked towards priority 100: each round of waiting adds one.\<close>

definition progress :: "process_control_block \<Rightarrow> nat" where
  "progress p = unat (dynamic_priority p) * 500 + unat (accumulation_cycles p)"

lemma age_progress:
  assumes "unat (accumulation_cycles p) < 500"
  shows "unat (accumulation_cycles (age_pcb p)) < 500" "progress (age_pcb p) \<le> Suc (progress p)"
    "unat (dynamic_priority p) < 100 \<Longrightarrow> progress (age_pcb p) = Suc (progress p)"
    "dynamic_priority p \<le> dynamic_priority (age_pcb p)"
proof -
  have acc: "unat (accumulation_cycles p + 1) = Suc (unat (accumulation_cycles p))"
    by (rule unat_inc_bound) (use assms in simp)
  have dyn: "unat (dynamic_priority p + 1) = Suc (unat (dynamic_priority p))" if "unat (dynamic_priority p) < 100"
    by (rule unat_inc_bound) (use that in simp)
  have lim: "SCHED_PRIORITY_AGING_LIMIT \<le> accumulation_cycles p + 1 \<longleftrightarrow> unat (accumulation_cycles p) = 499"
    using assms by (auto simp: SCHED_PRIORITY_AGING_LIMIT_def word_le_nat_alt acc)
  have cap: "dynamic_priority p < SCHED_MAX_PRIORITY \<longleftrightarrow> unat (dynamic_priority p) < 100"
    by (simp add: SCHED_MAX_PRIORITY_def word_less_nat_alt)
  have e: "age_pcb p = (if unat (accumulation_cycles p) = 499
      then p\<lparr>dynamic_priority := (if unat (dynamic_priority p) < 100 then dynamic_priority p + 1 else dynamic_priority p),
             accumulation_cycles := 0\<rparr>
      else p\<lparr>accumulation_cycles := accumulation_cycles p + 1\<rparr>)"
    by (simp add: age_pcb_def Let_def lim cap)
  show "unat (accumulation_cycles (age_pcb p)) < 500" "progress (age_pcb p) \<le> Suc (progress p)"
    "dynamic_priority p \<le> dynamic_priority (age_pcb p)"
    using assms acc dyn by (auto simp: e progress_def word_le_nat_alt)
  assume "unat (dynamic_priority p) < 100"
  then show "progress (age_pcb p) = Suc (progress p)"
    using assms acc dyn by (auto simp: e progress_def)
qed


text \<open>
  At most 500 processes, all of base priority below 100, and process \<open>j\<close> runnable and awake.
\<close>

definition fair_sched :: "nat \<Rightarrow> scheduler_state \<Rightarrow> bool" where
  "fair_sched j s \<longleftrightarrow> sched_inv s \<and> 1 < active_process_count s \<and> unat (active_process_count s) \<le> 500 \<and>
     j < unat (active_process_count s) \<and> execution_state (process_table s ! j) = ST_RUNNING \<and>
     sleep_until_tick (process_table s ! j) = 0 \<and>
     (\<forall>i < unat (active_process_count s). unat (accumulation_cycles (process_table s ! i)) < 500 \<and>
        unat (base_priority (process_table s ! i)) < 100)"

lemma fair_step:
  assumes f: "fair_sched j s"
  defines "b \<equiv> running (scheduler_yield s)" and "n \<equiv> unat (active_process_count s)"
  shows "fair_sched j (scheduler_yield s)" "b < n" "active_process_count (scheduler_yield s) = active_process_count s"
    "progress (process_table (scheduler_yield s) ! b) \<le> 49500"
    "\<And>i. i < n \<Longrightarrow> i \<noteq> b \<Longrightarrow> progress (process_table (scheduler_yield s) ! i) \<le> Suc (progress (process_table s ! i))"
    "b \<noteq> j \<Longrightarrow> running s \<noteq> j \<Longrightarrow> 100 \<le> unat (dynamic_priority (process_table s ! j)) \<Longrightarrow>
       100 \<le> unat (dynamic_priority (process_table (scheduler_yield s) ! j))"
    "b \<noteq> j \<Longrightarrow> running s \<noteq> j \<Longrightarrow> unat (dynamic_priority (process_table s ! j)) < 100 \<Longrightarrow>
       progress (process_table (scheduler_yield s) ! j) = Suc (progress (process_table s ! j))"
    "100 \<le> unat (dynamic_priority (process_table s ! j)) \<Longrightarrow> 49999 \<le> progress (process_table s ! b)"
proof -
  have i: "sched_inv s" and many: "1 < active_process_count s" and j: "j < n"
    and jr: "execution_state (process_table s ! j) = ST_RUNNING" "sleep_until_tick (process_table s ! j) = 0"
    and acc: "\<And>i. i < n \<Longrightarrow> unat (accumulation_cycles (process_table s ! i)) < 500"
    and base: "\<And>i. i < n \<Longrightarrow> unat (base_priority (process_table s ! i)) < 100"
    using f by (auto simp: fair_sched_def n_def)
  have el: "eligible (kernel_elapsed_ticks s + 1) (process_table s ! j)"
    using jr by (simp add: eligible_def asleep_def)
  note y = yield_slots [OF i many j [unfolded n_def] el, folded b_def n_def]
  have len: "length (process_table s) = 1024" "n \<le> 1024" using sched_invD [OF i] by (auto simp: n_def)
  show b: "b < n" using y(1) by (simp add: best_of_def)
  show cnt: "active_process_count (scheduler_yield s) = active_process_count s" by (rule y(2))
  have slot: "dynamic_priority (process_table (scheduler_yield s) ! i) =
        (if i = b then base_priority (process_table s ! i) else dynamic_priority (aged (tick s) ! i))"
      "accumulation_cycles (process_table (scheduler_yield s) ! i) =
        (if i = b then 0 else accumulation_cycles (aged (tick s) ! i))"
      "base_priority (process_table (scheduler_yield s) ! i) = base_priority (process_table s ! i)"
    if "i < n" for i
    using y(3) that len(2) by (auto simp: Let_def)
  have ag: "aged (tick s) ! i = (if execution_state (process_table s ! i) = ST_RUNNING \<and> i \<noteq> running s
      then age_pcb (process_table s ! i) else process_table s ! i)" if "i < n" for i
    using that len by (simp add: aged_nth n_def)
  have ap: "unat (accumulation_cycles (aged (tick s) ! i)) < 500"
      "progress (aged (tick s) ! i) \<le> Suc (progress (process_table s ! i))"
      "dynamic_priority (process_table s ! i) \<le> dynamic_priority (aged (tick s) ! i)" if "i < n" for i
    using age_progress [OF acc [OF that]] acc [OF that] ag [OF that] by auto
  have pr: "progress (process_table (scheduler_yield s) ! i) =
      (if i = b then unat (base_priority (process_table s ! i)) * 500 else progress (aged (tick s) ! i))" if "i < n" for i
    using slot [OF that] by (simp add: progress_def)
  show "progress (process_table (scheduler_yield s) ! b) \<le> 49500" using pr [OF b] base [OF b] by simp
  show "progress (process_table (scheduler_yield s) ! i) \<le> Suc (progress (process_table s ! i))"
    if "i < n" "i \<noteq> b" for i
    using pr [OF that(1)] ap(2) [OF that(1)] that(2) by simp
  have "execution_state (process_table (scheduler_yield s) ! j) = ST_RUNNING \<and>
      sleep_until_tick (process_table (scheduler_yield s) ! j) = 0"
    using y(3) j len(2) jr by (auto simp: Let_def)
  then show "fair_sched j (scheduler_yield s)"
    using f slot ap(1) base yield_inv [OF i] by (auto simp: fair_sched_def cnt n_def)
  show "100 \<le> unat (dynamic_priority (process_table (scheduler_yield s) ! j))"
    if "b \<noteq> j" "running s \<noteq> j" "100 \<le> unat (dynamic_priority (process_table s ! j))"
    using slot(1) [OF j] ap(3) [OF j] that by (simp add: word_le_nat_alt)
  show "progress (process_table (scheduler_yield s) ! j) = Suc (progress (process_table s ! j))"
    if "b \<noteq> j" "running s \<noteq> j" "unat (dynamic_priority (process_table s ! j)) < 100"
    using pr [OF j] ag [OF j] age_progress(3) [OF acc [OF j] that(3)] that jr by simp
  show "49999 \<le> progress (process_table s ! b)" if "100 \<le> unat (dynamic_priority (process_table s ! j))"
  proof -
    have "dynamic_priority (aged (tick s) ! j) \<le> dynamic_priority (aged (tick s) ! b)"
      using y(1) j el len by (simp add: best_of_def)
    with that ap(3) [OF j] have "100 \<le> unat (dynamic_priority (aged (tick s) ! b))"
      by (simp add: word_le_nat_alt)
    then have "50000 \<le> progress (aged (tick s) ! b)" by (simp add: progress_def)
    with ap(2) [OF b] show ?thesis by simp
  qed
qed

lemma fair_run: "fair_sched j s \<Longrightarrow> fair_sched j ((scheduler_yield ^^ k) s) \<and>
    active_process_count ((scheduler_yield ^^ k) s) = active_process_count s"
  by (induction k) (auto intro: fair_step(1) simp: fair_step(3))

text \<open>A process that was just run is at most a round a yield on its way back to the top.\<close>

lemma progress_after_run:
  assumes "fair_sched j s" "k < m"
  shows "progress (process_table ((scheduler_yield ^^ m) s) ! running ((scheduler_yield ^^ Suc k) s)) \<le> 49500 + (m - Suc k)"
  using assms(2)
proof (induction m)
  case (Suc m)
  let ?b = "running ((scheduler_yield ^^ Suc k) s)" and ?S = "(scheduler_yield ^^ m) s"
  note fair = fair_run [OF assms(1)]
  note st = fair_step [OF fair [of m, THEN conjunct1]]
  show ?case
  proof (cases "k = m \<or> running (scheduler_yield ?S) = ?b")
    case True
    then show ?thesis using st(4) by auto
  next
    case False
    then have km: "k < m" using Suc.prems by auto
    have "?b < unat (active_process_count ?S)"
      using fair_step(2) [OF fair [of k, THEN conjunct1]] fair [THEN conjunct2, of k] fair [THEN conjunct2, of m] by simp
    then have "progress (process_table (scheduler_yield ?S) ! ?b) \<le> Suc (progress (process_table ?S ! ?b))"
      using False by (intro st(5)) auto
    with Suc.IH [OF km] km show ?thesis by simp
  qed
qed simp

text \<open>A runnable process that waits climbs by a round a yield, reaches priority 100 and stays there.\<close>

lemma waiting_climbs:
  assumes "fair_sched j s" "\<And>k. k \<le> m \<Longrightarrow> running ((scheduler_yield ^^ k) s) \<noteq> j" "k \<le> m"
  shows "100 \<le> unat (dynamic_priority (process_table ((scheduler_yield ^^ k) s) ! j)) \<or>
    k \<le> progress (process_table ((scheduler_yield ^^ k) s) ! j)"
  using assms(3)
proof (induction k)
  case (Suc k)
  let ?S = "(scheduler_yield ^^ k) s"
  have nj: "running (scheduler_yield ?S) \<noteq> j" "running ?S \<noteq> j" using assms(2) [of "Suc k"] assms(2) [of k] Suc.prems by simp_all
  note st = fair_step [OF fair_run [OF assms(1), of k, THEN conjunct1]]
  show ?case using Suc st(6) [OF nj] st(7) [OF nj] by (cases "unat (dynamic_priority (process_table ?S ! j)) < 100") auto
qed simp

lemma waiting_reaches_top:
  assumes "fair_sched j s" "\<And>k. k \<le> m \<Longrightarrow> running ((scheduler_yield ^^ k) s) \<noteq> j" "50000 \<le> k" "k \<le> m"
  shows "100 \<le> unat (dynamic_priority (process_table ((scheduler_yield ^^ k) s) ! j))"
  using assms(3,4)
proof (induction k rule: dec_induct)
  case base
  have "unat (accumulation_cycles (process_table ((scheduler_yield ^^ 50000) s) ! j)) < 500"
    using fair_run [OF assms(1), of 50000] by (auto simp: fair_sched_def)
  with waiting_climbs [OF assms(1,2) base] show ?case by (auto simp: progress_def)
next
  case (step k)
  let ?S = "(scheduler_yield ^^ k) s"
  have nj: "running (scheduler_yield ?S) \<noteq> j" "running ?S \<noteq> j" using assms(2) [of "Suc k"] assms(2) [of k] step by simp_all
  from fair_step(6) [OF fair_run [OF assms(1), of k, THEN conjunct1] nj] step show ?case by simp
qed

text \<open>
  C1: with at most 500 processes of base priorities below 100, a runnable process that is not asleep gets
  the CPU within 50500 yields, whatever the priorities of the others: aging lifts it to priority 100, and
  a process that was just run needs 500 rounds to come back there.
\<close>
theorem runnable_process_runs_within_bound:
  assumes "fair_sched j s"
  shows "\<exists>k \<le> 50500. running ((scheduler_yield ^^ k) s) = j"
proof (rule ccontr)
  assume "\<not> (\<exists>k \<le> 50500. running ((scheduler_yield ^^ k) s) = j)"
  then have no: "running ((scheduler_yield ^^ k) s) \<noteq> j" if "k \<le> 50500" for k using that by blast
  define b where "b k = running ((scheduler_yield ^^ Suc k) s)" for k
  let ?n = "unat (active_process_count s)"
  note fair = fair_run [OF assms]
  have "inj_on b {50000..<50500}"
  proof (rule linorder_inj_onI)
    fix k m :: nat assume km: "k < m" "k \<in> {50000..<50500}" "m \<in> {50000..<50500}"
    have "49999 \<le> progress (process_table ((scheduler_yield ^^ m) s) ! b m)"
      using fair_step(8) [OF fair [of m, THEN conjunct1]] waiting_reaches_top [OF assms no, of m] km(3) by (simp add: b_def)
    then show "b k \<noteq> b m" using progress_after_run [OF assms km(1)] km by (auto simp: b_def)
  qed auto
  then have "card (b ` {50000..<50500}) = 500" by (simp add: card_image)
  moreover have "b k \<in> {0..<?n} - {j}" if "k \<in> {50000..<50500}" for k
    using fair_step(2) [OF fair [of k, THEN conjunct1]] fair [THEN conjunct2, of k] no [of "Suc k"] that by (simp add: b_def)
  then have "b ` {50000..<50500} \<subseteq> {0..<?n} - {j}" by blast
  moreover have "card ({0..<?n} - {j}) < 500" using assms by (auto simp: fair_sched_def)
  ultimately show False by (metis card_mono finite_Diff finite_atLeastLessThan not_le)
qed

theorem runnable_process_runs_within_bound_witness:
  "\<exists>k \<le> 50500. running ((scheduler_yield ^^ k) (pair_sched ST_RUNNING ST_RUNNING)) = 1"
  by (rule runnable_process_runs_within_bound)
     (auto simp: fair_sched_def pair_sched_inv pair_sched_count pair_sched_slots slot_of_def less_2_cases_iff)

text \<open>The state a process of priority 100 in slot 0 starves the others in.\<close>

definition hogged :: "scheduler_state \<Rightarrow> bool" where
  "hogged s \<longleftrightarrow> sched_inv s \<and> running s = 0 \<and> execution_state (process_table s ! 0) = ST_RUNNING \<and>
     sleep_until_tick (process_table s ! 0) = 0 \<and> base_priority (process_table s ! 0) = 100 \<and>
     dynamic_priority (process_table s ! 0) = 100 \<and>
     (\<forall>i < unat (active_process_count s). dynamic_priority (process_table s ! i) \<le> 100)"

lemma age_cap: "dynamic_priority p \<le> 100 \<Longrightarrow> dynamic_priority (age_pcb p) \<le> 100"
  by (auto simp: age_pcb_def Let_def SCHED_MAX_PRIORITY_def inc_le)

lemma hogged_step:
  assumes "hogged s"
  shows "hogged (scheduler_yield s)"
proof (cases "active_process_count s \<le> 1")
  case True
  with assms show ?thesis by (simp add: yield_eq hogged_def)
next
  case False
  then have many: "1 < active_process_count s" by (simp add: not_le)
  let ?n = "unat (active_process_count s)" and ?now = "kernel_elapsed_ticks s + 1"
  have i: "sched_inv s" using assms by (simp add: hogged_def)
  have len: "length (process_table s) = 1024" "?n \<le> 1024" "0 < ?n" using sched_invD [OF i] by auto
  have el: "eligible ?now (process_table s ! 0)" using assms by (simp add: hogged_def eligible_def asleep_def)
  note y = yield_slots [OF i many len(3) el]
  have ag: "aged (tick s) ! k = (if execution_state (process_table s ! k) = ST_RUNNING \<and> k \<noteq> 0
      then age_pcb (process_table s ! k) else process_table s ! k)" if "k < ?n" for k
    using that len assms by (simp add: aged_nth hogged_def)
  have cap: "dynamic_priority (aged (tick s) ! k) \<le> 100" if "k < ?n" for k
    using ag [OF that] assms that by (auto simp: hogged_def intro: age_cap)
  have z: "dynamic_priority (aged (tick s) ! 0) = 100" using ag [OF len(3)] assms by (simp add: hogged_def)
  have run: "running (scheduler_yield s) = 0"
  proof (rule ccontr)
    assume "running (scheduler_yield s) \<noteq> 0"
    then have "dynamic_priority (aged (tick s) ! 0) < dynamic_priority (aged (tick s) ! running (scheduler_yield s))"
      using y(1) el len by (auto simp: best_of_def)
    moreover have "running (scheduler_yield s) < ?n" using y(1) by (simp add: best_of_def)
    ultimately show False using z cap by (metis not_le)
  qed
  have "dynamic_priority (process_table (scheduler_yield s) ! k) \<le> 100" if "k < ?n" for k
    using y(3) that len cap [OF that] assms run by (cases "k = 0") (auto simp: Let_def hogged_def)
  with y(2,3) run assms yield_inv [OF i] len show ?thesis by (auto simp: hogged_def Let_def)
qed

text \<open>
  A process in slot 0 of base priority 100 that stays runnable keeps the CPU for ever: the others age
  to priority 100 at most, and ties go to the lower slot.
\<close>
lemma top_priority_in_slot_0_starves_the_rest:
  assumes "hogged s"
  shows "running ((scheduler_yield ^^ k) s) = 0"
proof -
  have "hogged ((scheduler_yield ^^ k) s)" using assms by (induction k) (auto intro: hogged_step)
  then show ?thesis by (simp add: hogged_def)
qed

lemma top_priority_in_slot_0_starves_the_rest_witness:
  "running ((scheduler_yield ^^ 100000) (sched_of [slot_of 100 ST_RUNNING 100 0, slot_of 101 ST_RUNNING 99 0x1000] 0)) = 0"
proof (rule top_priority_in_slot_0_starves_the_rest)
  have "sched_inv (sched_of [slot_of 100 ST_RUNNING 100 0, slot_of 101 ST_RUNNING 99 0x1000] 0)"
    by (rule sched_of_inv) (auto simp: slot_of_ok, simp add: slot_of_def)
  then show "hogged (sched_of [slot_of 100 ST_RUNNING 100 0, slot_of 101 ST_RUNNING 99 0x1000] 0)"
    by (auto simp: hogged_def sched_of_simps less_Suc_eq slot_of_def)
qed


section \<open>New processes\<close>

text \<open>The normal zone has \<open>k\<close> pages above its reserve.\<close>

definition room :: "nat \<Rightarrow> sys_oom_ctrl \<Rightarrow> bool" where
  "room k c \<longleftrightarrow> zones_ok (zones c) \<and> unat (wm_min (zones c ! 1)) + k \<le> unat (free_pages (zones c ! 1))"

lemma alloc_one_page:
  assumes "room (Suc k) c"
  shows "sys_alloc_pages 1 1 c = Inr (page_address c, take_pages 1 1 c)" "room k (take_pages 1 1 c)"
proof -
  have z: "zones_ok (zones c)" and le: "unat (wm_min (zones c ! 1)) + Suc k \<le> unat (free_pages (zones c ! 1))"
    using assms by (auto simp: room_def)
  have len: "length (zones c) = 3" using z by (simp add: zones_ok_def)
  have "unat (wm_min (zones c ! 1)) < unat (free_pages (zones c ! 1))" using le by simp
  then have "unat (wm_min (zones c ! 1) + 1) = Suc (unat (wm_min (zones c ! 1)))" by (rule unat_inc)
  then have can: "can_alloc 1 1 c" using le by (simp add: can_alloc_def word_le_nat_alt add.commute)
  have "alloc_try 1 1 c = Inr (Some (page_address c), take_pages 1 1 c)" using alloc_try_eq [OF z, of 1 1] can by simp
  then show "sys_alloc_pages 1 1 c = Inr (page_address c, take_pages 1 1 c)"
    by (simp add: sys_alloc_pages_def alloc_retry.simps [of 0])
  have "unat (free_pages (zones c ! 1) - 1) = unat (free_pages (zones c ! 1)) - 1"
    by (rule unat_dec) (use le in simp)
  with le len z zones_okD(2) [OF z, of 1] show "room k (take_pages 1 1 c)"
    by (simp add: room_def take_pages_def)
qed

lemma take_pages_simps [simp]:
  "page_address (take_pages i cnt c) = page_address c" "task_array (take_pages i cnt c) = task_array c"
  "active_task_count (take_pages i cnt c) = active_task_count c" "tasks (take_pages i cnt c) = tasks c"
  by (simp_all add: take_pages_def page_address_def)

lemma room_cong: "zones c' = zones c \<Longrightarrow> room k c' = room k c"
  by (simp add: room_def)

lemma register_succeeds:
  assumes "unat (active_process_count s) < 1024" "room (Suc (Suc k)) c" "page_address c \<noteq> 0"
    "unat (active_task_count c) < 1024" "length (task_array c) = 1024"
  shows "\<exists>c'. scheduler_register_process stub raw e pr rss fl s c =
       Inr (ERR_OK, registered stub e pr rss fl (page_address c) s, c') \<and> room k c' \<and>
     page_address c' = page_address c \<and> active_task_count c' = active_task_count c + 1 \<and> length (task_array c') = 1024"
proof -
  let ?c0 = "c\<lparr>auto_pid := process_identifier_seed s + 1\<rparr>"
  have r0: "room (Suc (Suc k)) ?c0" using assms(2) by (simp add: room_def)
  have pa: "page_address ?c0 = page_address c" by (simp add: page_address_def)
  note a1 = alloc_one_page [OF r0, unfolded pa]
  let ?c1 = "take_pages 1 1 ?c0"
  let ?node = "page_address c"
  let ?task = "(case tasks ?c1 ?node of Some t \<Rightarrow> t | None \<Rightarrow> raw)
    \<lparr>pid := process_identifier_seed s, ppid := task_id (current s), task_state := TASK_STATE_RUNNING,
     rss_pages := rss, virtual_pages := rss * 2, task_flags := fl, oom_score_adj := 0, nice_value := 0\<rparr>"
  let ?c2 = "?c1\<lparr>tasks := (tasks ?c1)(?node \<mapsto> ?task)\<rparr>"
  let ?c3 = "?c2\<lparr>task_array := (task_array c)[unat (active_task_count c) := ?node],
    active_task_count := active_task_count c + 1\<rparr>"
  have reg: "sys_register_task ?node ?c2 = Inr ((), ?c3)"
    using assms(4,5) by (simp add: sys_register_task_def SYS_MAX_TASKS_def word_less_nat_alt)
  have r3: "room (Suc k) ?c3" using a1(2) by (simp add: room_def)
  have pa3: "page_address ?c3 = page_address c" by (simp add: page_address_def take_pages_def)
  note a3 = alloc_one_page [OF r3, unfolded pa3]
  have mem: "scheduler_allocate_memory SIZEOF_SYS_TASK u = sys_alloc_pages 1 1 u"
    "scheduler_allocate_memory SCHED_STACK_SIZE u = sys_alloc_pages 1 1 u" for u
    by (simp_all add: scheduler_allocate_memory_def SIZEOF_SYS_TASK_def SCHED_STACK_SIZE_def PAGE_SIZE_def)
  have few: "\<not> SYS_MAX_TASKS \<le> active_process_count s" using assms(1) by (simp add: SYS_MAX_TASKS_def word_le_nat_alt)
  have "scheduler_register_process stub raw e pr rss fl s c =
      Inr (ERR_OK, registered stub e pr rss fl (page_address c) s, take_pages 1 1 ?c3)"
    using few assms(3) a1(1) reg a3(1)
    by (simp add: scheduler_register_process_def Let_def mem with_sched_def current_def running_def
        registered_def split_beta upd_pcb_def)
  moreover have "page_address (take_pages 1 1 ?c3) = page_address c" using pa3 by simp
  ultimately show ?thesis using a3(2) assms(5) by auto
qed

lemma eight_zeros: "replicate 8 (0 :: u32) = [0, 0, 0, 0, 0, 0, 0, 0]"
  by (simp add: eval_nat_numeral)

lemma push_all_at: "push_all (v # vs) (st + k) m = push_all vs (st + (k - 4)) (m(st + (k - 4) := v))"
  by (simp only: push_all.simps add_diff_eq)

lemma initial_stack_eq:
  "initial_stack stub e st m = (st + 4052, m(st + 4092 := stub, st + 4088 := e, st + 4084 := 0x202,
     st + 4080 := 0, st + 4076 := 0, st + 4072 := 0, st + 4068 := 0, st + 4064 := 0, st + 4060 := 0,
     st + 4056 := 0, st + 4052 := 0))"
  unfolding initial_stack_def SCHED_STACK_SIZE_def eight_zeros append_Cons append_Nil push_all_at by simp

lemma initial_stack_esp: "fst (initial_stack stub e st m) = st + 4052"
  by (simp add: initial_stack_eq)

lemma initial_stack_ram:
  "load_frame (st + 4052) (snd (initial_stack stub e st m)) =
     \<lparr>r_edi = 0, r_esi = 0, r_ebp = 0, r_esp = st + 4088, r_ebx = 0, r_edx = 0, r_ecx = 0, r_eax = 0, r_eflags = 0x202\<rparr>"
  "snd (initial_stack stub e st m) (st + 4088) = e" "snd (initial_stack stub e st m) (st + 4092) = stub"
  by (simp_all add: initial_stack_eq load_frame_def)

text \<open>
  While the normal zone needs no reclaim, two processes registered in a row are given the same stack:
  each registration prepares a frame that starts its own entry point with interrupts on and zeroed
  registers, and the second one overwrites the frame of the first, which will start the wrong procedure.
\<close>
lemma processes_registered_in_a_row_share_a_stack:
  assumes "unat (active_process_count s) + 2 \<le> 1024" "room 4 c" "page_address c \<noteq> 0"
    "unat (active_task_count c) + 2 \<le> 1024" "length (task_array c) = 1024" "length (process_table s) = 1024"
  shows "\<exists>s1 c1 s2 c2. scheduler_register_process stub raw e1 p1 r1 f1 s c = Inr (ERR_OK, s1, c1) \<and>
     scheduler_register_process stub raw e2 p2 r2 f2 s1 c1 = Inr (ERR_OK, s2, c2) \<and>
     (let n = unat (active_process_count s); sp = r_esp (context_frame (process_table s1 ! n));
          A = process_table s2 ! n; B = process_table s2 ! Suc n in
        r_eflags (load_frame sp (ram s1)) = 0x202 \<and> ram s1 (r_esp (load_frame sp (ram s1))) = e1 \<and>
        stack_memory_block A = stack_memory_block B \<and> r_esp (context_frame A) = sp \<and>
        r_esp (context_frame B) = sp \<and> ram s2 (r_esp (load_frame sp (ram s2))) = e2)"
proof -
  let ?n = "unat (active_process_count s)" and ?st = "page_address c"
  have r4: "room (Suc (Suc 2)) c" using assms(2) by simp
  have n: "?n < 1024" "unat (active_task_count c) < 1024" using assms(1,4) by simp_all
  from register_succeeds [OF n(1) r4 assms(3) n(2) assms(5), of stub raw e1 p1 r1 f1] obtain c1 where
    c1: "scheduler_register_process stub raw e1 p1 r1 f1 s c = Inr (ERR_OK, registered stub e1 p1 r1 f1 ?st s, c1)"
      "room 2 c1" "page_address c1 = ?st" "active_task_count c1 = active_task_count c + 1" "length (task_array c1) = 1024"
    by blast
  let ?s1 = "registered stub e1 p1 r1 f1 ?st s"
  have cnt: "unat (active_process_count s + 1) = Suc ?n" "unat (active_task_count c + 1) = Suc (unat (active_task_count c))"
    using assms(1,4) by (intro unat_inc_bound, simp)+
  have m: "unat (active_process_count ?s1) < 1024" "unat (active_task_count c1) < 1024" "room (Suc (Suc 0)) c1"
    "page_address c1 \<noteq> 0"
    using cnt c1(2,3,4) assms(1,3,4) by (simp_all add: numeral_2_eq_2)
  from register_succeeds [OF m(1,3,4,2) c1(5), of stub raw e2 p2 r2 f2] c1(3) obtain c2 where
    c2: "scheduler_register_process stub raw e2 p2 r2 f2 ?s1 c1 = Inr (ERR_OK, registered stub e2 p2 r2 f2 ?st ?s1, c2)"
    by auto
  let ?s2 = "registered stub e2 p2 r2 f2 ?st ?s1"
  have slots: "process_table ?s1 ! ?n = process_table ?s2 ! ?n"
    "r_esp (context_frame (process_table ?s1 ! ?n)) = ?st + 4052" "stack_memory_block (process_table ?s1 ! ?n) = ?st"
    "r_esp (context_frame (process_table ?s2 ! Suc ?n)) = ?st + 4052" "stack_memory_block (process_table ?s2 ! Suc ?n) = ?st"
    using assms(1,6) cnt by (simp_all add: initial_stack_esp)
  have frames: "r_eflags (load_frame (?st + 4052) (ram ?s1)) = 0x202"
    "ram ?s1 (r_esp (load_frame (?st + 4052) (ram ?s1))) = e1" "ram ?s2 (r_esp (load_frame (?st + 4052) (ram ?s2))) = e2"
    unfolding registered_simps initial_stack_ram by (simp_all add: initial_stack_ram(2))
  have "let n = ?n; sp = r_esp (context_frame (process_table ?s1 ! n)); A = process_table ?s2 ! n;
      B = process_table ?s2 ! Suc n in
        r_eflags (load_frame sp (ram ?s1)) = 0x202 \<and> ram ?s1 (r_esp (load_frame sp (ram ?s1))) = e1 \<and>
        stack_memory_block A = stack_memory_block B \<and> r_esp (context_frame A) = sp \<and>
        r_esp (context_frame B) = sp \<and> ram ?s2 (r_esp (load_frame sp (ram ?s2))) = e2"
    unfolding Let_def slots(1) [symmetric] slots(2-) by (intro conjI refl frames)
  with c1(1) c2 show ?thesis by (intro exI conjI)
qed

definition roomy :: sys_oom_ctrl where
  "roomy = oom_example\<lparr>zones := [zone_of 100 0 0, zone_of 1000 900 10, zone_of 0 0 0]\<rparr>"

lemma processes_registered_in_a_row_share_a_stack_witness:
  "\<exists>s1 c1 s2 c2. scheduler_register_process 0x500 (task_of 0 0) 0x100 20 1 0 boot_sched roomy = Inr (ERR_OK, s1, c1) \<and>
     scheduler_register_process 0x500 (task_of 0 0) 0x200 20 1 0 s1 c1 = Inr (ERR_OK, s2, c2) \<and>
     ram s2 (r_esp (load_frame (r_esp (context_frame (process_table s1 ! 1))) (ram s2))) = 0x200"
proof -
  have b: "active_process_count boot_sched = 1" "length (process_table boot_sched) = 1024"
    by (simp_all add: boot_sched_def scheduler_initialize_def empty_sched_def)
  have c: "room 4 roomy" "page_address roomy \<noteq> 0" "unat (active_task_count roomy) + 2 \<le> 1024" "length (task_array roomy) = 1024"
    by (simp_all add: room_def roomy_def zones_ok_def zone_of_def page_address_def oom_example_def)
  have "unat (active_process_count boot_sched) + 2 \<le> 1024" using b by simp
  from processes_registered_in_a_row_share_a_stack [OF this c b(2), of "0x500" "task_of 0 0" "0x100" 20 1 0 "0x200" 20 1 0]
  show ?thesis by (fastforce simp: Let_def b)
qed

text \<open>
  The first process registered after the scheduler is initialised gets pid 100, the pid of the master
  process itself: a termination of pid 100 is refused and a signal to it reaches the master, so no
  command by pid can end that process.
\<close>
lemma first_process_gets_the_master_pid:
  assumes "length (process_table s0) = 1024"
    "scheduler_register_process stub raw e pr rss fl (scheduler_initialize s0) c = Inr (ERR_OK, s', c')"
  shows "task_id (process_table s' ! 1) = task_id (process_table s' ! 0) \<and>
     scheduler_terminate_process (task_id (process_table s' ! 1)) s' = (ERR_IO_PERMISSION, s') \<and>
     first_ix (alive_with (task_id (process_table s' ! 1))) (active s') = Some 0"
proof -
  let ?s = "scheduler_initialize s0"
  have inv: "sched_inv ?s" by (rule initialize_inv [OF assms(1)])
  have f: "active_process_count ?s = 1" "process_identifier_seed ?s = 100" by (simp_all add: scheduler_initialize_def)
  from register_InrD [OF assms(2)] obtain st where s': "s' = registered stub e pr rss fl st ?s" by auto
  have len: "length (process_table ?s) = 1024" using sched_invD(1) [OF inv] .
  have m: "process_table ?s ! 0 = master_slot (clear_slot (process_table s0 ! 0))"
    using assms(1) by (simp add: scheduler_initialize_def)
  have t: "task_id (process_table s' ! 1) = 100" "process_table s' ! 0 = master_slot (clear_slot (process_table s0 ! 0))"
    using len by (simp_all add: s' f m)
  have "active s' = process_table s' ! 0 # take 1 (tl (process_table s'))"
    using len by (cases "process_table s'") (auto simp: active_def s' f)
  then have a: "first_ix (\<lambda>p. task_id p = 100) (active s') = Some 0" "first_ix (alive_with 100) (active s') = Some 0"
    using t(2) by (simp_all add: alive_with_def master_slot_def state_codes)
  with t show ?thesis by (simp add: scheduler_terminate_process_def master_slot_def)
qed

lemma first_process_gets_the_master_pid_witness:
  "\<exists>s' c'. scheduler_register_process 0x500 (task_of 0 0) 0x100 20 1 0 boot_sched roomy = Inr (ERR_OK, s', c') \<and>
     task_id (process_table s' ! 1) = task_id (process_table s' ! 0)"
proof -
  have b: "unat (active_process_count boot_sched) < 1024"
    by (simp add: boot_sched_def scheduler_initialize_def)
  have c: "room (Suc (Suc 0)) roomy" "page_address roomy \<noteq> 0" "unat (active_task_count roomy) < 1024" "length (task_array roomy) = 1024"
    by (simp_all add: room_def roomy_def zones_ok_def zone_of_def page_address_def oom_example_def)
  from register_succeeds [OF b c, of "0x500" "task_of 0 0" "0x100" 20 1 0] obtain s' c' where
    r: "scheduler_register_process 0x500 (task_of 0 0) 0x100 20 1 0 boot_sched roomy = Inr (ERR_OK, s', c')" by blast
  have "length (process_table empty_sched) = 1024" by (simp add: empty_sched_def)
  from first_process_gets_the_master_pid [OF this r [unfolded boot_sched_def]] r show ?thesis by blast
qed

end
