(* ===== verification/WX_Bytes.thy ===== *)
theory WX_Bytes
  imports WX_Strings
begin

text \<open>Memory as bytes: little-endian words in byte buffers, and ranges written and read back.\<close>

section \<open>Little-endian words\<close>

definition le32 :: "u32 \<Rightarrow> u8 list" where
  "le32 w = [ucast w, ucast (drop_bit 8 w), ucast (drop_bit 16 w), ucast (drop_bit 24 w)]"

definition un32 :: "u8 \<Rightarrow> u8 \<Rightarrow> u8 \<Rightarrow> u8 \<Rightarrow> u32" where
  "un32 a b c d = ucast a OR push_bit 8 (ucast b) OR push_bit 16 (ucast c) OR push_bit 24 (ucast d)"

lemma un32_le32: "un32 (ucast w) (ucast (drop_bit 8 w)) (ucast (drop_bit 16 w)) (ucast (drop_bit 24 w)) = w"
proof (rule bit_eqI)
  fix n assume "possible_bit TYPE(u32) n"
  then have "n < 8 \<or> (8 \<le> n \<and> n < 16) \<or> (16 \<le> n \<and> n < 24) \<or> (24 \<le> n \<and> n < 32)" by auto
  then show "bit (un32 (ucast w) (ucast (drop_bit 8 w)) (ucast (drop_bit 16 w)) (ucast (drop_bit 24 w))) n = bit w n"
    by (auto simp: un32_def bit_simps)
qed

lemma un32_0 [simp]: "un32 0 0 0 0 = 0"
  by (simp add: un32_def)

lemma length_le32 [simp]: "length (le32 w) = 4"
  by (simp add: le32_def)

definition read32 :: "u8 list \<Rightarrow> nat \<Rightarrow> fault + u32" where
  "read32 h i =
     bindE (get h i) (\<lambda>a. bindE (get h (i + 1)) (\<lambda>b. bindE (get h (i + 2)) (\<lambda>c. bindE (get h (i + 3)) (\<lambda>d.
       Inr (un32 a b c d)))))"

section \<open>Ranges\<close>

text \<open>Overwrite the bytes from \<open>i\<close> on; a write that leaves the buffer faults.\<close>

definition write_range :: "'a list \<Rightarrow> nat \<Rightarrow> 'a list \<Rightarrow> fault + 'a list" where
  "write_range h i bs =
     (if i + length bs \<le> length h then Inr (take i h @ bs @ drop (i + length bs) h) else Inl Out_of_bounds)"

definition write32 :: "u8 list \<Rightarrow> nat \<Rightarrow> u32 \<Rightarrow> fault + u8 list" where
  "write32 h i w = write_range h i (le32 w)"

lemma length_write_range: "write_range h i bs = Inr h' \<Longrightarrow> length h' = length h"
  by (auto simp: write_range_def split: if_splits)

lemma write_range_nth:
  "write_range h i bs = Inr h' \<Longrightarrow> j < length h \<Longrightarrow>
   h' ! j = (if i \<le> j \<and> j < i + length bs then bs ! (j - i) else h ! j)"
  by (auto simp: write_range_def nth_append split: if_splits)

lemma read32_in: "i + 3 < length h \<Longrightarrow> read32 h i = Inr (un32 (h ! i) (h ! (i + 1)) (h ! (i + 2)) (h ! (i + 3)))"
  by (simp add: read32_def)

lemma read32_out: "\<not> i + 3 < length h \<Longrightarrow> read32 h i = Inl Out_of_bounds"
  by (auto simp: read32_def get_def)

lemma read32_cong:
  "length h' = length h \<Longrightarrow> (\<And>j. i \<le> j \<Longrightarrow> j < i + 4 \<Longrightarrow> j < length h \<Longrightarrow> h' ! j = h ! j) \<Longrightarrow> read32 h' i = read32 h i"
  by (cases "i + 3 < length h") (simp_all add: read32_in read32_out)

lemma read32_write32: "write32 h i w = Inr h' \<Longrightarrow> read32 h' i = Inr w"
proof -
  assume w: "write32 h i w = Inr h'"
  then have r: "write_range h i (le32 w) = Inr h'" by (simp add: write32_def)
  have len: "length h' = length h" by (rule length_write_range [OF r])
  have b: "i + 4 \<le> length h" using r by (auto simp: write_range_def split: if_splits)
  have "h' ! (i + k) = le32 w ! k" if "k < 4" for k
    using write_range_nth [OF r, of "i + k"] b that by simp
  from this [of 0] this [of 1] this [of 2] this [of 3] show ?thesis
    using b len by (simp add: read32_in le32_def un32_le32)
qed

end
