(* ===== verification/WX_Malloc.thy ===== *)
theory WX_Malloc
  imports WX_Bytes WX_Hex
begin

text \<open>
  The heap of \<open>malloc.h\<close>: 65536 bytes holding a chain of blocks, each an 8-byte header (a size word, a
  status byte, three bytes of padding) and its payload.  The walks over the chain are loops that may
  not end (a size near \<open>2 ^ 32\<close> takes the offset back), hence partial functions.
\<close>

section \<open>The allocator\<close>

definition HEAP_SIZE :: u32 where "HEAP_SIZE = 65536"
definition BLOCK_FREE :: u8 where "BLOCK_FREE = 0"
definition BLOCK_USED :: u8 where "BLOCK_USED = 1"

text \<open>Size of \<open>block_header_t\<close>.\<close>

definition HDR :: u32 where "HDR = 8"

record block_header =
  blk_size :: u32
  blk_status :: u8

definition read_header :: "u8 list \<Rightarrow> u32 \<Rightarrow> fault + block_header" where
  "read_header h off =
     bindE (read32 h (unat off)) (\<lambda>sz. bindE (get h (unat off + 4)) (\<lambda>st.
       Inr \<lparr>blk_size = sz, blk_status = st\<rparr>))"

partial_function (option) free_walk :: "u8 list \<Rightarrow> u32 \<Rightarrow> u32 \<Rightarrow> (fault + u32) option" where
  "free_walk h off free_ram =
     (if off < HEAP_SIZE then
        case read_header h off of
          Inl f \<Rightarrow> Some (Inl f)
        | Inr hdr \<Rightarrow>
            if blk_size hdr = 0 then Some (Inr free_ram)
            else free_walk h (off + (HDR + blk_size hdr))
                   (if blk_status hdr = BLOCK_USED then free_ram - (blk_size hdr + HDR) else free_ram)
      else Some (Inr free_ram))"

declare free_walk.simps [code]

definition get_free_ram :: "u8 list \<Rightarrow> (fault + u32) option" where
  "get_free_ram h = free_walk h 0 HEAP_SIZE"

text \<open>The offset of the header taken, \<open>None\<close> when the walk reaches the end of the heap.\<close>

partial_function (option) malloc_walk :: "u8 list \<Rightarrow> u32 \<Rightarrow> u32 \<Rightarrow> (fault + u32 option) option" where
  "malloc_walk h sz off =
     (if off < HEAP_SIZE then
        case read_header h off of
          Inl f \<Rightarrow> Some (Inl f)
        | Inr hdr \<Rightarrow>
            if blk_size hdr = 0 \<or> (blk_status hdr = BLOCK_FREE \<and> sz \<le> blk_size hdr) then Some (Inr (Some off))
            else malloc_walk h sz (off + (HDR + blk_size hdr))
      else Some (Inr None))"

declare malloc_walk.simps [code]

text \<open>
  \<open>whitex_malloc\<close>: the heap offset of the payload (\<open>None\<close> is \<open>NULL\<close>, after a message), and the heap.  The
  address of a payload past the end of the heap is returned like any other.
\<close>

definition whitex_malloc :: "u32 \<Rightarrow> u8 list \<Rightarrow> (fault + u32 option \<times> u8 list) option" where
  "whitex_malloc sz h =
     map_option (\<lambda>r. bindE r (\<lambda>off.
       case off of
         None \<Rightarrow> Inr (None, h)
       | Some off \<Rightarrow>
           bindE (write32 h (unat off) sz) (\<lambda>h. bindE (put h (unat off + 4) BLOCK_USED) (\<lambda>h.
             Inr (Some (off + HDR), h))))) (malloc_walk h sz 0)"

definition whitex_free :: "u32 option \<Rightarrow> u8 list \<Rightarrow> fault + u8 list" where
  "whitex_free ptr h =
     (case ptr of None \<Rightarrow> Inr h | Some p \<Rightarrow> put h (unat (p - HDR) + 4) BLOCK_FREE)"

text \<open>\<open>ram\<close> clears the heap the first time it runs.\<close>

definition ram_cmd :: "bool \<Rightarrow> u8 list \<Rightarrow> (fault + con list \<times> bool \<times> u8 list) option" where
  "ram_cmd fst_time h =
     (let h = (if fst_time then replicate 65536 0 else h) in
      map_option (\<lambda>r. bindE r (\<lambda>n.
        Inr ([Print ''Free RAM: ''] @ map Putchar (ram_print_number n) @ [Print (ln '' bytes'')], False, h)))
        (get_free_ram h))"

section \<open>Chains\<close>

text \<open>The blocks laid out from offset \<open>off\<close>, each with its size and whether it is in use.\<close>

fun blocks :: "u8 list \<Rightarrow> nat \<Rightarrow> (nat \<times> bool) list \<Rightarrow> bool" where
  "blocks h off [] \<longleftrightarrow> True"
| "blocks h off ((n, used) # bs) \<longleftrightarrow> 0 < n \<and> read32 h off = Inr (of_nat n) \<and>
     h ! (off + 4) = (if used then BLOCK_USED else BLOCK_FREE) \<and> blocks h (off + 8 + n) bs"

definition span :: "(nat \<times> bool) list \<Rightarrow> nat" where
  "span bs = (\<Sum>(n, _) \<leftarrow> bs. 8 + n)"

text \<open>A heap whose chain is \<open>bs\<close>, with room for one more header and nothing written past it.\<close>

definition heap_ok :: "u8 list \<Rightarrow> (nat \<times> bool) list \<Rightarrow> bool" where
  "heap_ok h bs \<longleftrightarrow> length h = 65536 \<and> blocks h 0 bs \<and> span bs + 8 \<le> 65536 \<and>
     (\<forall>i. span bs \<le> i \<longrightarrow> i < 65536 \<longrightarrow> h ! i = 0)"

lemma span_simps [simp]: "span [] = 0" "span ((n, u) # bs) = 8 + n + span bs" "span (as @ bs) = span as + span bs"
  by (simp_all add: span_def)

lemma blocks_append: "blocks h off (as @ bs) \<longleftrightarrow> blocks h off as \<and> blocks h (off + span as) bs"
  by (induction h off as rule: blocks.induct) (auto simp: add.assoc)

lemma blocks_cong:
  "length h' = length h \<Longrightarrow> (\<And>i. off \<le> i \<Longrightarrow> i < off + span bs \<Longrightarrow> h' ! i = h ! i) \<Longrightarrow> blocks h off bs \<Longrightarrow> blocks h' off bs"
proof (induction h off bs rule: blocks.induct)
  case (2 h off n used bs)
  have "read32 h' off = read32 h off" using 2(2,3) by (intro read32_cong) auto
  with 2 show ?case by auto
qed simp

lemma blocks_in: "blocks h off (as @ (n, u) # bs) \<Longrightarrow> off + span as + 3 < length h"
  by (auto simp: blocks_append) (metis Inl_Inr_False read32_out)

lemma end_header: "heap_ok h bs \<Longrightarrow> read32 h (span bs) = Inr 0"
  by (simp add: heap_ok_def read32_in)

text \<open>The walk stops at the first free block that is large enough, or at the end of the chain.\<close>

definition too_small :: "nat \<Rightarrow> nat \<times> bool \<Rightarrow> bool" where
  "too_small n = (\<lambda>(m, used). used \<or> m < n)"

lemma status_distinct [simp]: "BLOCK_USED \<noteq> BLOCK_FREE"
  by (simp add: BLOCK_USED_def BLOCK_FREE_def)

lemma u32_nat: "n < 2 ^ 32 \<Longrightarrow> unat (of_nat n :: u32) = n"
  by (simp add: unat_of_nat)

lemma read_header_eq:
  "length h = 65536 \<Longrightarrow> off + 8 \<le> 65536 \<Longrightarrow> read32 h off = Inr sz \<Longrightarrow>
   read_header h (of_nat off) = Inr \<lparr>blk_size = sz, blk_status = h ! (off + 4)\<rparr>"
  by (simp add: read_header_def unat_of_nat)

lemma walk_chain:
  assumes "length h = 65536" "off + span bs + 8 \<le> 65536" "blocks h off bs" "read32 h (off + span bs) = Inr 0"
    "n < 2 ^ 32"
  shows "malloc_walk h (of_nat n) (of_nat off) =
     Some (Inr (Some (of_nat (off + span (takeWhile (too_small n) bs)))))"
  using assms
proof (induction h off bs rule: blocks.induct)
  case (1 h off)
  have "(of_nat off :: u32) < HEAP_SIZE" using 1(2) by (simp add: HEAP_SIZE_def word_less_nat_alt unat_of_nat)
  with 1 read_header_eq [of h off 0] show ?case by (subst malloc_walk.simps) simp
next
  case (2 h off m used bs)
  have off: "(of_nat off :: u32) < HEAP_SIZE" using 2(3) by (simp add: HEAP_SIZE_def word_less_nat_alt unat_of_nat)
  have m: "0 < m" "m < 2 ^ 32" using 2(3,4) by auto
  have rh: "read_header h (of_nat off) = Inr \<lparr>blk_size = of_nat m, blk_status = (if used then BLOCK_USED else BLOCK_FREE)\<rparr>"
    using read_header_eq [of h off "of_nat m"] 2(2-4) by simp
  have nz: "(of_nat m :: u32) \<noteq> 0" using m u32_nat [OF m(2)] by (metis less_irrefl unat_0)
  have le: "(of_nat n :: u32) \<le> of_nat m \<longleftrightarrow> n \<le> m"
    using u32_nat [OF m(2)] u32_nat [OF 2(6)] by (simp add: word_le_nat_alt)
  have nxt: "(of_nat off :: u32) + (HDR + of_nat m) = of_nat (off + 8 + m)" by (simp add: HDR_def)
  show ?case
  proof (cases "too_small n (m, used)")
    case False
    with off rh nz le show ?thesis by (subst malloc_walk.simps) (simp add: too_small_def)
  next
    case True
    have "malloc_walk h (of_nat n) (of_nat (off + 8 + m)) =
        Some (Inr (Some (of_nat (off + 8 + m + span (takeWhile (too_small n) bs)))))"
      using 2(2-6) by (intro 2(1)) (auto simp: add.assoc)
    with True off rh nz le nxt show ?thesis
      by (subst malloc_walk.simps) (auto simp: too_small_def add.assoc)
  qed
qed

text \<open>What an allocation writes: a header of the requested size, marked used, at the offset found.\<close>

lemma malloc_writes:
  assumes "heap_ok h bs" "n < 2 ^ 32"
  shows "\<exists>h'. whitex_malloc (of_nat n) h = Some (Inr (Some (of_nat (span (takeWhile (too_small n) bs) + 8)), h')) \<and>
     length h' = 65536 \<and> read32 h' (span (takeWhile (too_small n) bs)) = Inr (of_nat n) \<and>
     h' ! (span (takeWhile (too_small n) bs) + 4) = BLOCK_USED \<and>
     (\<forall>i < 65536. i < span (takeWhile (too_small n) bs) \<or> span (takeWhile (too_small n) bs) + 5 \<le> i \<longrightarrow> h' ! i = h ! i)"
proof -
  let ?pre = "takeWhile (too_small n) bs"
  let ?o = "span ?pre"
  have len: "length h = 65536" using assms(1) by (simp add: heap_ok_def)
  have "bs = ?pre @ dropWhile (too_small n) bs" by simp
  then have o: "?o + 8 \<le> 65536" using assms(1) unfolding heap_ok_def by (metis add.assoc add_leD1 add_le_mono1 le_add1 le_trans span_simps(3))
  have walk: "malloc_walk h (of_nat n) 0 = Some (Inr (Some (of_nat ?o)))"
    using walk_chain [of h 0 bs n] assms end_header [OF assms(1)] by (simp add: heap_ok_def)
  have uo: "unat (of_nat ?o :: u32) = ?o" using o by (intro u32_nat) simp
  obtain h1 where h1: "write32 h ?o (of_nat n) = Inr h1" using o len by (simp add: write32_def write_range_def)
  then have r1: "write_range h ?o (le32 (of_nat n)) = Inr h1" by (simp add: write32_def)
  have len1: "length h1 = 65536" using length_write_range [OF r1] len by simp
  let ?h2 = "h1[?o + 4 := BLOCK_USED]"
  have "whitex_malloc (of_nat n) h = Some (Inr (Some (of_nat (?o + 8)), ?h2))"
    using o len1 by (simp add: whitex_malloc_def walk uo h1 HDR_def)
  moreover have "read32 ?h2 ?o = read32 h1 ?o" by (rule read32_cong) auto
  moreover have "read32 h1 ?o = Inr (of_nat n)" by (rule read32_write32 [OF h1])
  moreover have "?h2 ! (?o + 4) = BLOCK_USED" using o len1 by simp
  moreover have "?h2 ! i = h ! i" if "i < 65536" "i < ?o \<or> ?o + 5 \<le> i" for i
    using that write_range_nth [OF r1, of i] len by auto
  ultimately show ?thesis using len1 by (intro exI [of _ ?h2]) auto
qed


text \<open>Replacing the header of a block by one of the same size, and growing the chain at its end.\<close>

lemma heap_okD:
  assumes "heap_ok h bs"
  shows "length h = 65536" "blocks h 0 bs" "span bs + 8 \<le> 65536" "\<And>i. span bs \<le> i \<Longrightarrow> i < 65536 \<Longrightarrow> h ! i = 0"
  using assms by (auto simp: heap_ok_def)

lemma heap_ok_replace:
  assumes ok: "heap_ok h (pre @ (n, u) # post)" and len: "length h' = 65536"
    and hd: "read32 h' (span pre) = Inr (of_nat n)" "h' ! (span pre + 4) = (if v then BLOCK_USED else BLOCK_FREE)"
    and same: "\<And>i. i < 65536 \<Longrightarrow> i < span pre \<or> span pre + 5 \<le> i \<Longrightarrow> h' ! i = h ! i"
  shows "heap_ok h' (pre @ (n, v) # post)"
proof -
  note d = heap_okD [OF ok]
  have b: "blocks h 0 pre" "0 < n" "blocks h (span pre + 8 + n) post" using d(2) by (auto simp: blocks_append)
  have "blocks h' 0 pre" by (rule blocks_cong [OF _ _ b(1)]) (use len d(1,3) same in auto)
  moreover have "blocks h' (span pre + 8 + n) post"
    by (rule blocks_cong [OF _ _ b(3)]) (use len d(1,3) same in auto)
  ultimately show ?thesis using d len hd b(2) same by (auto simp: heap_ok_def blocks_append)
qed

lemma malloc_extend:
  assumes ok: "heap_ok h bs" and "0 < n" "n < 2 ^ 32" "\<forall>b \<in> set bs. too_small n b" "span bs + 8 + n + 8 \<le> 65536"
  shows "\<exists>h'. whitex_malloc (of_nat n) h = Some (Inr (Some (of_nat (span bs + 8)), h')) \<and>
     heap_ok h' (bs @ [(n, True)]) \<and> (\<forall>i < 65536. i < span bs \<or> span bs + 5 \<le> i \<longrightarrow> h' ! i = h ! i)"
proof -
  have tw: "takeWhile (too_small n) bs = bs" using assms(4) by simp
  note d = heap_okD [OF ok]
  from malloc_writes [OF assms(1,3)] obtain h' where h':
    "whitex_malloc (of_nat n) h = Some (Inr (Some (of_nat (span bs + 8)), h'))" "length h' = 65536"
    "read32 h' (span bs) = Inr (of_nat n)" "h' ! (span bs + 4) = BLOCK_USED"
    "\<forall>i < 65536. i < span bs \<or> span bs + 5 \<le> i \<longrightarrow> h' ! i = h ! i" unfolding tw by blast
  have "blocks h' 0 bs" by (rule blocks_cong [OF _ _ d(2)]) (use d h' in auto)
  with h' d assms(2,5) have "heap_ok h' (bs @ [(n, True)])" by (auto simp: heap_ok_def blocks_append)
  with h' show ?thesis by blast
qed

text \<open>A free block of a chain is apart from the blocks in use.\<close>

lemma blocks_apart:
  assumes "as @ (m, True) # cs = pre @ (n, False) # post"
  shows "span as + 8 + m \<le> span pre \<or> span pre + 8 + n \<le> span as"
proof -
  from assms obtain us where "as = pre @ us \<and> us @ (m, True) # cs = (n, False) # post \<or>
      as @ us = pre \<and> (m, True) # cs = us @ (n, False) # post" by (auto simp: append_eq_append_conv2)
  then show ?thesis by (cases us) auto
qed

text \<open>The chain up to the block an allocation takes, when that block has another size.\<close>

lemma blocks_taken:
  assumes "heap_ok h (pre @ post)" "length h' = 65536" "0 < n" "read32 h' (span pre) = Inr (of_nat n)"
    "h' ! (span pre + 4) = BLOCK_USED" "\<forall>i < 65536. i < span pre \<or> span pre + 5 \<le> i \<longrightarrow> h' ! i = h ! i"
  shows "blocks h' 0 (pre @ [(n, True)])"
proof -
  note d = heap_okD [OF assms(1)]
  have b: "blocks h 0 pre" using d(2) by (simp add: blocks_append)
  have "blocks h' 0 pre" by (rule blocks_cong [OF _ _ b]) (use assms d in auto)
  with assms show ?thesis by (simp add: blocks_append)
qed

lemma payload_apart:
  assumes "as @ (k, True) # cs = pre @ post" "post = [] \<or> (\<exists>m rest. post = (m, False) # rest \<and> n \<le> m)"
  shows "span as + 8 + k \<le> span pre \<or> span pre + 8 + n \<le> span as"
proof (cases "post = []")
  case True
  with assms(1) have "span pre = span as + (8 + k + span cs)" by (metis append_Nil2 span_simps(2,3))
  then show ?thesis by simp
next
  case False
  with assms(2) obtain m rest where "post = (m, False) # rest" "n \<le> m" by auto
  with blocks_apart [OF assms(1) [unfolded this(1)]] show ?thesis by auto
qed

text \<open>
  C16: on a well-formed heap an allocation takes the first free block that is large enough (all blocks
  before it are in use or too small), or the end of the chain when there is none.  Only the five header bytes
  are written, the payload is apart from every block in use, and the chain up to the new block is as before.
  The whole chain stays well formed when the block had exactly the requested size, and when the chain grew
  and room is left for one more header.
\<close>
theorem malloc_first_fit:
  assumes "heap_ok h bs" "0 < n" "n < 2 ^ 32"
  shows "\<exists>pre post h'. bs = pre @ post \<and> (\<forall>(m, used) \<in> set pre. used \<or> m < n) \<and>
     (post = [] \<or> (\<exists>m rest. post = (m, False) # rest \<and> n \<le> m)) \<and>
     whitex_malloc (of_nat n) h = Some (Inr (Some (of_nat (span pre + 8)), h')) \<and> length h' = 65536 \<and>
     (\<forall>i < 65536. i < span pre \<or> span pre + 5 \<le> i \<longrightarrow> h' ! i = h ! i) \<and>
     blocks h' 0 (pre @ [(n, True)]) \<and>
     (\<forall>as k cs. bs = as @ (k, True) # cs \<longrightarrow> span as + 8 + k \<le> span pre \<or> span pre + 8 + n \<le> span as) \<and>
     (\<forall>rest. post = (n, False) # rest \<longrightarrow> heap_ok h' (pre @ (n, True) # rest)) \<and>
     (post = [] \<longrightarrow> span bs + 8 + n + 8 \<le> 65536 \<longrightarrow> heap_ok h' (bs @ [(n, True)]))"
proof -
  define pre where "pre = takeWhile (too_small n) bs"
  define post where "post = dropWhile (too_small n) bs"
  have bs: "bs = pre @ post" by (simp add: pre_def post_def)
  have pre: "\<forall>b \<in> set pre. too_small n b" by (auto simp: pre_def dest: set_takeWhileD)
  have post: "post = [] \<or> (\<exists>m rest. post = (m, False) # rest \<and> n \<le> m)"
  proof (cases post)
    case (Cons b rest)
    then have "\<not> too_small n b" by (simp add: post_def dropWhile_eq_Cons_conv)
    with Cons show ?thesis by (cases b) (simp add: too_small_def)
  qed simp
  note d = heap_okD [OF assms(1)]
  from malloc_writes [OF assms(1,3)] obtain h' where h':
    "whitex_malloc (of_nat n) h = Some (Inr (Some (of_nat (span pre + 8)), h'))" "length h' = 65536"
    "read32 h' (span pre) = Inr (of_nat n)" "h' ! (span pre + 4) = BLOCK_USED"
    and w: "\<forall>i < 65536. i < span pre \<or> span pre + 5 \<le> i \<longrightarrow> h' ! i = h ! i"
    unfolding pre_def by blast
  have chain: "blocks h' 0 (pre @ [(n, True)])"
    using blocks_taken [OF assms(1) [unfolded bs] h'(2) assms(2) h'(3,4) w] .
  have apart: "span as + 8 + k \<le> span pre \<or> span pre + 8 + n \<le> span as" if "bs = as @ (k, True) # cs" for as k cs
    by (rule payload_apart [OF _ post]) (use that bs in simp)
  have reuse: "heap_ok h' (pre @ (n, True) # rest)" if "post = (n, False) # rest" for rest
  proof (rule heap_ok_replace [OF _ h'(2,3)])
    show "heap_ok h (pre @ (n, False) # rest)" using assms(1) bs that by simp
    show "h' ! i = h ! i" if "i < 65536" "i < span pre \<or> span pre + 5 \<le> i" for i using w that by blast
  qed (simp add: h'(4))
  have grow: "heap_ok h' (bs @ [(n, True)])" if "post = []" "span bs + 8 + n + 8 \<le> 65536"
  proof -
    have "pre = bs" using bs that(1) by simp
    then have "blocks h' 0 (bs @ [(n, True)])" using chain by simp
    moreover have "h' ! i = 0" if "span bs + 8 + n \<le> i" "i < 65536" for i
      using w d(4) [of i] that \<open>pre = bs\<close> by simp
    ultimately show ?thesis using h'(2) that(2) by (simp add: heap_ok_def)
  qed
  have "\<forall>(m, used) \<in> set pre. used \<or> m < n" using pre by (auto simp: too_small_def)
  moreover note bs post h'(1,2) w chain
  moreover have "\<forall>as k cs. bs = as @ (k, True) # cs \<longrightarrow> span as + 8 + k \<le> span pre \<or> span pre + 8 + n \<le> span as"
    using apart by blast
  moreover have "\<forall>rest. post = (n, False) # rest \<longrightarrow> heap_ok h' (pre @ (n, True) # rest)" using reuse by blast
  moreover have "post = [] \<longrightarrow> span bs + 8 + n + 8 \<le> 65536 \<longrightarrow> heap_ok h' (bs @ [(n, True)])" using grow by blast
  ultimately show ?thesis by (intro exI [of _ pre] exI [of _ post] exI [of _ h'] conjI)
qed

definition zero_heap :: "u8 list" where
  "zero_heap = replicate 65536 0"

lemma zero_heap_ok: "heap_ok zero_heap []"
  by (simp add: heap_ok_def zero_heap_def)

theorem malloc_first_fit_witness:
  "\<exists>h'. whitex_malloc 48 zero_heap = Some (Inr (Some 8, h')) \<and> heap_ok h' [(48, True)]"
  using malloc_first_fit [OF zero_heap_ok, of 48] by auto

text \<open>Freeing the block at a payload pointer.\<close>

lemma free_block:
  assumes ok: "heap_ok h (pre @ (n, u) # post)"
  shows "\<exists>h'. whitex_free (Some (of_nat (span pre + 8))) h = Inr h' \<and> heap_ok h' (pre @ (n, False) # post) \<and>
     (\<forall>i < 65536. i \<noteq> span pre + 4 \<longrightarrow> h' ! i = h ! i)"
proof -
  note d = heap_okD [OF ok]
  have o: "unat (of_nat (span pre + 8) - HDR) = span pre"
    using d(3) by (simp add: HDR_def u32_nat)
  have l: "span pre + 4 < length h" using d(1,3) by simp
  let ?h' = "h[span pre + 4 := BLOCK_FREE]"
  have hd: "read32 h (span pre) = Inr (of_nat n)" using d(2) by (simp add: blocks_append)
  have "read32 ?h' (span pre) = read32 h (span pre)" by (rule read32_cong) auto
  then have "heap_ok ?h' (pre @ (n, False) # post)"
    using d(1) l hd by (intro heap_ok_replace [OF ok]) auto
  with o l show ?thesis by (simp add: whitex_free_def)
qed

text \<open>
  An allocation that takes a larger free block rewrites its size to the smaller request, so the next
  walk reads a header out of the block's old payload; when those bytes are zero the following allocation is
  put there, and its payload runs into the next block, which is still in use.
\<close>
lemma malloc_reuse_corrupts_the_chain:
  assumes "heap_ok h (pre @ (m, False) # (k, True) # post)" "\<forall>b \<in> set pre. too_small n b \<and> too_small l b"
    "0 < n" "n + 8 \<le> m" "m < n + l" "n < l" "l < 65536" "\<forall>i < 4. h ! (span pre + 8 + n + i) = 0"
  shows "\<exists>h1 h2. whitex_malloc (of_nat n) h = Some (Inr (Some (of_nat (span pre + 8)), h1)) \<and>
     whitex_malloc (of_nat l) h1 = Some (Inr (Some (of_nat (span pre + 8 + n + 8)), h2)) \<and>
     span pre + 8 + n + 8 < span pre + 8 + m + 8 \<and>
     span pre + 8 + m + 8 < span pre + 8 + n + 8 + l"
proof -
  note d = heap_okD [OF assms(1)]
  let ?o = "span pre"
  have n: "n < 2 ^ 32" "l < 2 ^ 32" using assms(7) d(3) assms(4) by auto
  have tw: "takeWhile (too_small n) (pre @ (m, False) # (k, True) # post) = pre"
    using assms(2,4) by (simp add: takeWhile_append2) (simp add: too_small_def)
  from malloc_writes [OF assms(1) n(1)] obtain h1 where h1:
    "whitex_malloc (of_nat n) h = Some (Inr (Some (of_nat (?o + 8)), h1))" "length h1 = 65536"
    "read32 h1 ?o = Inr (of_nat n)" "h1 ! (?o + 4) = BLOCK_USED"
    "\<forall>i < 65536. i < ?o \<or> ?o + 5 \<le> i \<longrightarrow> h1 ! i = h ! i" unfolding tw by blast
  have b: "blocks h 0 pre" using d(2) by (simp add: blocks_append)
  have "blocks h1 0 pre" by (rule blocks_cong [OF _ _ b]) (use h1 d in auto)
  then have b1: "blocks h1 0 (pre @ [(n, True)])" using h1 assms(3) by (simp add: blocks_append)
  have z: "read32 h1 (?o + 8 + n) = Inr 0"
  proof -
    have "h1 ! (?o + 8 + n + i) = 0" if "i < 4" for i
      using that h1(5) assms(4,8) d(3) by auto
    from this [of 0] this [of 1] this [of 2] this [of 3] show ?thesis
      using h1(2) d(3) assms(4) by (simp add: read32_in)
  qed
  have tw1: "takeWhile (too_small l) (pre @ [(n, True)]) = pre @ [(n, True)]"
    using assms(2) by (simp add: too_small_def)
  have walk: "malloc_walk h1 (of_nat l) 0 = Some (Inr (Some (of_nat (?o + 8 + n))))"
    using walk_chain [of h1 0 "pre @ [(n, True)]" l] h1(2) b1 z n(2) d(3) assms(4) tw1 by (simp add: add.assoc)
  have uo: "unat (of_nat (?o + 8 + n) :: u32) = ?o + 8 + n" using d(3) assms(4) by (intro u32_nat) simp
  obtain g where g: "write32 h1 (?o + 8 + n) (of_nat l) = Inr g"
    using d(3) assms(4) h1(2) by (simp add: write32_def write_range_def)
  then have "length g = 65536" using length_write_range [of h1] h1(2) by (auto simp: write32_def)
  then have "whitex_malloc (of_nat l) h1 = Some (Inr (Some (of_nat (?o + 8 + n + 8)), g[?o + 8 + n + 4 := BLOCK_USED]))"
    unfolding whitex_malloc_def walk using d(3) assms(4) by (simp add: uo g HDR_def del: of_nat_add)
      (simp add: HDR_def)
  with h1(1) assms(4,5) show ?thesis by auto
qed

lemma malloc_reuse_corrupts_the_chain_witness:
  "\<exists>h h1 h2. heap_ok h [(16, False), (8, True)] \<and>
     whitex_malloc 4 h = Some (Inr (Some 8, h1)) \<and> whitex_malloc 20 h1 = Some (Inr (Some 20, h2))"
proof -
  from malloc_extend [OF zero_heap_ok, of 16] obtain h1 where
    h1: "heap_ok h1 [(16, True)]" "\<forall>i < 65536. 5 \<le> i \<longrightarrow> h1 ! i = zero_heap ! i" by auto
  from malloc_extend [OF h1(1), of 8] obtain h2 where
    h2: "heap_ok h2 [(16, True), (8, True)]" "\<forall>i < 65536. i < 24 \<or> 29 \<le> i \<longrightarrow> h2 ! i = h1 ! i"
    by (auto simp: too_small_def)
  from free_block [of h2 "[]" 16 True "[(8, True)]"] h2(1) obtain h3 where
    h3: "heap_ok h3 [(16, False), (8, True)]" "\<forall>i < 65536. i \<noteq> 4 \<longrightarrow> h3 ! i = h2 ! i" by auto
  have "\<forall>i < 4. h3 ! (span [] + 8 + 4 + i) = 0"
    using h1(2) h2(2) h3(2) by (auto simp: zero_heap_def)
  from malloc_reuse_corrupts_the_chain [of h3 "[]" 16 8 "[]" 4 20] h3(1) this show ?thesis by auto
qed

end
