(* ===== verification/WX_Tools.thy ===== *)
theory WX_Tools
  imports WX_Sched_Props
begin

text \<open>
  The process tools of \<open>sys_tools.h\<close> (mutex, \<open>kill\<close>, \<open>top\<close>, \<open>msgsend\<close>, \<open>msgrecv\<close>) and the daemons of
  \<open>tasks.h\<close>.  Where a routine waits for other processes, \<open>world\<close> is what they do before control is back.
\<close>

section \<open>Mutex\<close>

record mutex =
  mtx_state :: u32
  owner_pid :: u32

definition mutex_init :: mutex where
  "mutex_init = \<lparr>mtx_state = 0, owner_pid = 0\<rparr>"

text \<open>The wait for a free mutex; it may never end.\<close>

partial_function (option) mutex_wait ::
    "(mutex \<times> scheduler_state \<Rightarrow> mutex \<times> scheduler_state) \<Rightarrow> mutex \<Rightarrow> scheduler_state \<Rightarrow>
     (mutex \<times> scheduler_state) option" where
  "mutex_wait world m s =
     (if mtx_state m = 1 then (case world (m, scheduler_yield s) of (m, s) \<Rightarrow> mutex_wait world m s)
      else Some (m, s))"

declare mutex_wait.simps [code]

definition mutex_lock ::
    "(mutex \<times> scheduler_state \<Rightarrow> mutex \<times> scheduler_state) \<Rightarrow> mutex \<Rightarrow> scheduler_state \<Rightarrow>
     (mutex \<times> scheduler_state) option" where
  "mutex_lock world m s =
     (let current_pid = task_id (current s)
      in map_option (\<lambda>(m, s). (m\<lparr>mtx_state := 1, owner_pid := current_pid\<rparr>, s)) (mutex_wait world m s))"

definition mutex_unlock :: "mutex \<Rightarrow> scheduler_state \<Rightarrow> mutex" where
  "mutex_unlock m s =
     (if owner_pid m = task_id (current s) then m\<lparr>mtx_state := 0, owner_pid := 0\<rparr> else m)"

section \<open>Commands\<close>

definition cmd_kill :: "char list \<Rightarrow> scheduler_state \<Rightarrow> fault + (con list \<times> scheduler_state)" where
  "cmd_kill arg s =
     bindE (get arg 0) (\<lambda>c.
       if c = NUL then Inr ([Print (ln ''Usage: kill <pid>'')], s)
       else bindE (parse_integer arg) (\<lambda>target_pid.
         let (status, s) = scheduler_terminate_process target_pid s
         in Inr ([Print (ln (if status = ERR_OK then ''Process terminated successfully.''
                             else if status = ERR_IO_PERMISSION
                             then ''Error: System critical processes cannot be terminated!''
                             else ''Error: Specified PID not found.''))], s)))"

text \<open>
  \<open>cmd_top\<close>: \<open>keys\<close> is what the keyboard port delivers at the start of each refresh, \<open>None\<close> when it has
  nothing.  Every refresh redraws the table and yields 10000 times; the loop ends at \<open>q\<close> or Escape, or
  (in the model) with the inputs.
\<close>

definition top_frame :: "scheduler_state \<Rightarrow> fault + con list" where
  "top_frame s = catE
     (Inr (map (\<lambda>l. Print (ln l))
            [''================= WHITEX LIVE SYSTEM MONITOR ================='',
             ''Press 'q' or 'ESC' to exit system monitor.'',
             ''----------------------------------------------------------------'',
             ''PID       PPID      STATE       MEMORY (PAGES)    PRIORITY   CON-SW'',
             ''----------------------------------------------------------------''])
      # map ps_line (active s))"

fun top_loop :: "u8 option list \<Rightarrow> scheduler_state \<Rightarrow> fault + (con list \<times> scheduler_state)" where
  "top_loop [] s = Inr ([], s)"
| "top_loop (k # keys) s =
     (if k = Some 0x10 \<or> k = Some 0x01 then Inr ([Cls], s)
      else bindE (top_frame s) (\<lambda>out.
        map_sum id (\<lambda>(rest, s). (out @ rest, s)) (top_loop keys ((scheduler_yield ^^ 10000) s))))"

definition cmd_top :: "u8 option list \<Rightarrow> scheduler_state \<Rightarrow> fault + (con list \<times> scheduler_state)" where
  "cmd_top keys s = map_sum id (\<lambda>(out, s). (Cls # out, s)) (top_loop keys s)"

text \<open>The pid is copied to a 16-byte buffer: at most 15 characters, up to a space.\<close>

fun copy_pid :: "nat \<Rightarrow> char list \<Rightarrow> fault + (char list \<times> char list)" where
  "copy_pid n [] = Inl Out_of_bounds"
| "copy_pid n (c # args) =
     (if c \<noteq> CHR '' '' \<and> c \<noteq> NUL \<and> 0 < n then map_sum id (\<lambda>(p, r). (c # p, r)) (copy_pid (n - 1) args)
      else Inr ([], c # args))"

fun c_strlen :: "char list \<Rightarrow> fault + nat" where
  "c_strlen [] = Inl Out_of_bounds"
| "c_strlen (c # s) = (if c = NUL then Inr 0 else map_sum id Suc (c_strlen s))"

definition cmd_msgsend :: "char list \<Rightarrow> scheduler_state \<Rightarrow> fault + (con list \<times> scheduler_state)" where
  "cmd_msgsend args s =
     bindE (get args 0) (\<lambda>c.
       if c = NUL then Inr ([Print (ln ''Usage: msgsend <target_pid> <message>'')], s)
       else bindE (copy_pid 15 args) (\<lambda>(pid_str, rest).
         bindE (get rest 0) (\<lambda>d.
         let message = (if d = CHR '' '' then tl rest else rest) in
         bindE (parse_integer (pid_str @ [NUL])) (\<lambda>dest_pid.
         bindE (c_strlen message) (\<lambda>len.
         bindE (scheduler_ipc_send dest_pid message (of_nat len + 1) 1 s) (\<lambda>(status, s).
           Inr ([Print (ln (if status = ERR_OK then ''Message sent successfully.''
                            else ''Error: Message could not be sent.''))], s)))))))"

text \<open>
  \<open>cmd_msgrecv\<close>; \<open>junk\<close> is what the 128 bytes of the stack buffer held.  A buffer with no NUL is read
  past its end by \<open>print\<close>.
\<close>

definition cmd_msgrecv ::
    "(scheduler_state \<Rightarrow> scheduler_state) \<Rightarrow> char list \<Rightarrow> scheduler_state \<Rightarrow>
     (fault + (con list \<times> scheduler_state)) option" where
  "cmd_msgrecv world junk s =
     map_option (\<lambda>m. bindE m (\<lambda>((buffer, received, sender, type), s).
       if 0 < received then
         bindE (catE [print_u32 sender, Inr [Print (newline # ''Message: '')], print_buffer buffer]) (\<lambda>out.
           Inr ([Print (ln ''Waiting for message...''), Print ''Sender PID: ''] @ out @ [Print (ln '''')], s))
       else Inr ([Print (ln ''Waiting for message...''), Print (ln ''Error: Message could not be received.'')], s)))
       (scheduler_ipc_receive world junk 127 s)"

section \<open>Daemons\<close>

record system_lifecycle_ctx =
  active_daemon_count :: u32
  total_system_entropy :: u32
  kernel_load_index :: u32
  daemon_pids :: "u32 list"

text \<open>One turn of the endless loop of \<open>kernel_daemon_worker\<close>: the packet buffer keeps its bytes.\<close>

definition kernel_daemon_worker ::
    "(u32 \<Rightarrow> nat \<Rightarrow> scheduler_state \<Rightarrow> scheduler_state) \<Rightarrow> (scheduler_state \<Rightarrow> scheduler_state) \<Rightarrow>
     char list \<Rightarrow> scheduler_state \<Rightarrow> (fault + char list \<times> scheduler_state) option" where
  "kernel_daemon_worker call world packet_buffer s =
     map_option (\<lambda>m. bindE m (\<lambda>((packet_buffer, received, sender_id, message_type), s).
       bindE (if 0 < received
              then map_sum id snd (scheduler_ipc_send sender_id packet_buffer SCHED_IPC_MSG_SIZE message_type s)
              else Inr s) (\<lambda>s. Inr (packet_buffer, scheduler_yield s))))
       (scheduler_ipc_receive world packet_buffer SCHED_IPC_MSG_SIZE (scheduler_check_pending_signals call s))"

text \<open>One turn of \<open>kernel_lifecycle_auditor\<close>.\<close>

definition kernel_lifecycle_auditor ::
    "(u32 \<Rightarrow> nat \<Rightarrow> scheduler_state \<Rightarrow> scheduler_state) \<Rightarrow> system_lifecycle_ctx \<Rightarrow> scheduler_state \<Rightarrow>
     system_lifecycle_ctx \<times> scheduler_state" where
  "kernel_lifecycle_auditor call l s =
     (let l = l\<lparr>kernel_load_index := kernel_load_index l + 1\<rparr>;
          s = (if kernel_load_index l mod 250 = 0 then scheduler_check_pending_signals call s else s);
          l = l\<lparr>total_system_entropy := (total_system_entropy l + 1) XOR 0xDEADBEEF\<rparr>
      in (l, scheduler_yield (scheduler_sleep 100 s)))"

text \<open>
  \<open>system_lifecycle_bootstrap\<close>: \<open>auditor\<close> and \<open>worker\<close> are the addresses of the two procedures.
\<close>

type_synonym lifecycle_state = "system_lifecycle_ctx \<times> scheduler_state \<times> sys_oom_ctrl"

fun spawn_workers ::
    "u32 \<Rightarrow> sys_task \<Rightarrow> u32 \<Rightarrow> nat list \<Rightarrow> lifecycle_state \<Rightarrow> (fault \<times> scheduler_state \<times> sys_oom_ctrl) + lifecycle_state" where
  "spawn_workers stub raw worker [] st = Inr st"
| "spawn_workers stub raw worker (i # is) (l, s, c) =
     bindE (scheduler_register_process stub raw worker SCHED_DEFAULT_PRIORITY 512 0 s c) (\<lambda>(pid, s, c).
       spawn_workers stub raw worker is
         (l\<lparr>daemon_pids := (daemon_pids l)[i := pid], active_daemon_count := active_daemon_count l + 1\<rparr>, s, c))"

definition system_lifecycle_bootstrap ::
    "u32 \<Rightarrow> sys_task \<Rightarrow> u32 \<Rightarrow> u32 \<Rightarrow> lifecycle_state \<Rightarrow> (fault \<times> scheduler_state \<times> sys_oom_ctrl) + lifecycle_state" where
  "system_lifecycle_bootstrap stub raw auditor worker st =
     (case st of (l, s, c) \<Rightarrow>
        bindE (scheduler_register_process stub raw auditor SCHED_MAX_PRIORITY 2048 1 s c) (\<lambda>(_, s, c).
          spawn_workers stub raw worker [0..<16]
            (l\<lparr>active_daemon_count := 0, kernel_load_index := 0, total_system_entropy := 0\<rparr>, s, c)))"

definition cmd_lifecycle_telemetry :: "system_lifecycle_ctx \<Rightarrow> fault + con list" where
  "cmd_lifecycle_telemetry l = catE
     [Inr [Print (ln ''--- WhiteX System Lifecycle Telemetry ---''), Print ''Active Daemons: ''],
      print_u32 (active_daemon_count l), Inr [Print (newline # ''Load Index: '')],
      print_u32 (kernel_load_index l), Inr [Print (newline # ''System Entropy: '')],
      print_u32 (total_system_entropy l), Inr [Print (newline # ln ''-----------------------------------------'')]]"

definition cmd_lifecycle_reset ::
    "u32 \<Rightarrow> sys_task \<Rightarrow> u32 \<Rightarrow> u32 \<Rightarrow> lifecycle_state \<Rightarrow>
     (fault \<times> scheduler_state \<times> sys_oom_ctrl) + (con list \<times> lifecycle_state)" where
  "cmd_lifecycle_reset stub raw auditor worker st =
     map_sum id (\<lambda>st. ([Print (ln ''Lifecycle manager resetting kernel threads...'')], st))
       (system_lifecycle_bootstrap stub raw auditor worker st)"


section \<open>Sending to oneself and reading it back\<close>

lemma copy_pid_digits:
  "list_all is_digit ds \<Longrightarrow> length ds \<le> n \<Longrightarrow> copy_pid n (ds @ CHR '' '' # r) = Inr (ds, CHR '' '' # r)"
proof (induction ds arbitrary: n)
  case (Cons d ds)
  have "d \<noteq> CHR '' ''" "d \<noteq> NUL"
    using Cons.prems(1) by (auto simp: is_digit_def char_int_def)
  with Cons show ?case by simp
qed simp

lemma c_strlen_eq: "nul_free t \<Longrightarrow> c_strlen (t @ NUL # r) = Inr (length t)"
  by (induction t) auto

lemma ipc_send_ok:
  assumes "sched_inv s" "first_ix (alive_with d) (active s) = Some i" "unat len \<le> 128" "unat len \<le> length msg"
    "unat (ch_count (communication_channel (process_table s ! i))) < 32"
  shows "\<exists>c. scheduler_ipc_send d msg len ty s =
       Inr (ERR_OK, upd_pcb i (\<lambda>p. p\<lparr>communication_channel := c, execution_state := woken p\<rparr>) s) \<and>
     channel_inv c \<and> ch_count c = ch_count (communication_channel (process_table s ! i)) + 1 \<and>
     channel_list c = channel_list (communication_channel (process_table s ! i)) @
       [(task_id (current s), ty, take (unat len) msg)]"
proof -
  have "channel_inv (communication_channel (process_table s ! i))"
    using sched_inv_pcb [OF assms(1) active_first_ix(2) [OF assms(1,2)]] by (simp add: pcb_ok_def)
  from channel_push_ok [OF this assms(5,3,4), of "task_id (current s)" ty] assms show ?thesis
    by (auto simp: scheduler_ipc_send_def SCHED_IPC_MSG_SIZE_def SCHED_IPC_MAX_MESSAGES_def word_less_nat_alt
        word_le_nat_alt woken_def [abs_def])
qed

text \<open>What \<open>cmd_msgsend\<close> does with a well-formed line.\<close>

lemma msgsend_line:
  assumes "nul_free text" "length text \<le> 127"
  shows "cmd_msgsend (dec_str (unat p) @ CHR '' '' # text @ NUL # r) s =
     bindE (scheduler_ipc_send p (text @ NUL # r) (of_nat (Suc (length text))) 1 s) (\<lambda>(status, s).
       Inr ([Print (ln (if status = ERR_OK then ''Message sent successfully.''
                        else ''Error: Message could not be sent.''))], s))"
proof -
  let ?d = "dec_str (unat p)"
  have d: "?d \<noteq> []" "list_all is_digit ?d" "length ?d \<le> 15"
    using dec_str_digits length_dec_str_u32 [of p] by auto
  then have hd: "get (?d @ CHR '' '' # text @ NUL # r) 0 = Inr (hd ?d)" "is_digit (hd ?d)"
    by (cases ?d; simp)+
  then have "hd ?d \<noteq> NUL" by auto
  moreover have "parse_integer (?d @ [NUL]) = Inr p"
    using parse_integer_dec_str [of NUL "unat p" "[]"] by simp
  ultimately show ?thesis
    using hd(1) copy_pid_digits [OF d(2,3), of "text @ NUL # r"] c_strlen_eq [OF assms(1), of r]
    by (simp add: cmd_msgsend_def add.commute)
qed

text \<open>What \<open>cmd_msgrecv\<close> prints for the oldest message.\<close>

lemma msgrecv_line:
  assumes "sched_inv s" "length junk = 128"
    "channel_list (communication_channel (current s)) = (sd, ty, bytes) # ms" "0 < length bytes"
  shows "\<exists>s'. sched_inv s' \<and> channel_list (communication_channel (current s')) = ms \<and>
     cmd_msgrecv world junk s = Some (
       bindE (print_buffer (take 127 bytes @ drop (min 127 (length bytes)) junk)) (\<lambda>out.
         Inr ([Print (ln ''Waiting for message...''), Print ''Sender PID: '', Print (dec_str (unat sd)),
               Print (newline # ''Message: '')] @ out @ [Print (ln '''')], s')))"
proof -
  let ?c = "communication_channel (current s)"
  have ci: "channel_inv ?c" using sched_invD(7) [OF assms(1)] by (simp add: pcb_ok_def)
  have cnt: "0 < unat (ch_count ?c)" using assms(3) by (metis length_Cons length_channel_list zero_less_Suc)
  have mx: "unat (127 :: u32) = 127" by simp
  from channel_pop_ok [OF ci cnt, of junk 127] assms(2,3) obtain c' where
    c': "channel_inv c'" "channel_list c' = ms" "length bytes \<le> 128"
      "channel_pop junk 127 ?c = Inr ((take 127 bytes @ drop (min 127 (length bytes)) junk,
         of_nat (min 127 (length bytes)), sd, ty), c')"
    by (auto simp: mx)
  let ?s' = "upd_pcb (running s) (\<lambda>p. p\<lparr>communication_channel := c'\<rparr>) s"
  have run: "running s < length (process_table s)" using sched_invD [OF assms(1)] by simp
  have "receive_wait world (running s) s = Some s"
    using cnt by (subst receive_wait.simps) (auto simp: current_def)
  then have rcv: "scheduler_ipc_receive world junk 127 s =
      Some (Inr ((take 127 bytes @ drop (min 127 (length bytes)) junk, of_nat (min 127 (length bytes)), sd, ty), ?s'))"
    using c'(4) by (simp add: scheduler_ipc_receive_def current_def)
  have pos: "0 < (of_nat (min 127 (length bytes)) :: u32)"
    using assms(4) by (simp add: word_less_nat_alt unat_of_nat)
  have num: "print_u32 sd = Inr [Print (dec_str (unat sd))]"
    using integer_to_string_eq [of "replicate 32 NUL" sd] by (simp add: print_u32_def)
  have "sched_inv ?s'" using assms(1) c'(1) by (intro sched_inv_upd channel_field_ok) auto
  moreover have "channel_list (communication_channel (current ?s')) = ms"
    using c'(2) run by (simp add: current_def)
  ultimately show ?thesis
    by (intro exI [of _ ?s'])
       (simp add: cmd_msgrecv_def rcv pos num bindE_def split: sum.split)
qed

text \<open>
  A message of at most 126 characters that a process sends to its own pid with \<open>msgsend\<close> is accepted,
  and the next \<open>msgrecv\<close> prints that pid and exactly that text and leaves the channel empty again.
\<close>
lemma message_commands_round_trip:
  assumes "sched_inv s" "first_ix (alive_with (task_id (current s))) (active s) = Some (running s)"
    "channel_list (communication_channel (current s)) = []" "nul_free text" "length text \<le> 126" "length junk = 128"
  shows "\<exists>s' s''. cmd_msgsend (dec_str (unat (task_id (current s))) @ CHR '' '' # text @ NUL # r) s =
       Inr ([Print (ln ''Message sent successfully.'')], s') \<and>
     cmd_msgrecv world junk s' = Some (Inr ([Print (ln ''Waiting for message...''), Print ''Sender PID: '',
         Print (dec_str (unat (task_id (current s)))), Print (newline # ''Message: ''), Print text, Print (ln '''')], s'')) \<and>
     channel_list (communication_channel (current s'')) = []"
proof -
  let ?p = "task_id (current s)" and ?len = "of_nat (Suc (length text)) :: u32"
  have len: "unat ?len = Suc (length text)" using assms(5) by (intro unat_small) simp
  have ch: "communication_channel (process_table s ! running s) = communication_channel (current s)"
    by (simp add: current_def)
  have "length (channel_list (communication_channel (current s))) = 0" using assms(3) by simp
  then have "unat (ch_count (communication_channel (process_table s ! running s))) < 32" by (simp add: ch)
  from ipc_send_ok [OF assms(1,2) _ _ this, of ?len "text @ NUL # r" 1] obtain c where
    c: "scheduler_ipc_send ?p (text @ NUL # r) ?len 1 s =
          Inr (ERR_OK, upd_pcb (running s) (\<lambda>p. p\<lparr>communication_channel := c, execution_state := woken p\<rparr>) s)"
      "channel_inv c" "channel_list c = [(?p, 1, text @ [NUL])]"
    using assms(3,5) len by (auto simp: ch)
  let ?s' = "upd_pcb (running s) (\<lambda>p. p\<lparr>communication_channel := c, execution_state := woken p\<rparr>) s"
  have send: "cmd_msgsend (dec_str (unat ?p) @ CHR '' '' # text @ NUL # r) s =
      Inr ([Print (ln ''Message sent successfully.'')], ?s')"
    using msgsend_line [OF assms(4), of ?p r s] assms(5) c(1) by simp
  have i': "sched_inv ?s'" using assms(1) c(2) by (intro sched_inv_upd) (auto simp: pcb_ok_def)
  have run: "running s < length (process_table s)" using sched_invD [OF assms(1)] by simp
  have "channel_list (communication_channel (current ?s')) = [(?p, 1, text @ [NUL])]"
    using c(3) run by (simp add: current_def)
  from msgrecv_line [OF i' assms(6) this, of world] obtain s'' where
    s'': "channel_list (communication_channel (current s'')) = []"
      "cmd_msgrecv world junk ?s' = Some (
         bindE (print_buffer (take 127 (text @ [NUL]) @ drop (min 127 (Suc (length text))) junk)) (\<lambda>out.
           Inr ([Print (ln ''Waiting for message...''), Print ''Sender PID: '', Print (dec_str (unat ?p)),
                 Print (newline # ''Message: '')] @ out @ [Print (ln '''')], s'')))"
    by auto
  have "print_buffer (take 127 (text @ [NUL]) @ drop (min 127 (Suc (length text))) junk) = Inr [Print text]"
    using assms(4,5) by (simp add: print_buffer_def)
  with send s'' show ?thesis by (intro exI [of _ ?s'] exI [of _ s'']) simp
qed

lemma message_commands_round_trip_witness:
  "\<exists>s' s''. cmd_msgsend (dec_str 100 @ '' hi'' @ [NUL]) boot_sched = Inr ([Print (ln ''Message sent successfully.'')], s') \<and>
     cmd_msgrecv id (replicate 128 NUL) s' = Some (Inr ([Print (ln ''Waiting for message...''), Print ''Sender PID: '',
       Print (dec_str 100), Print (newline # ''Message: ''), Print ''hi'', Print (ln '''')], s''))"
proof -
  have c: "current boot_sched = master_slot (clear_slot (process_table empty_sched ! 0))"
    by (simp add: current_def running_def boot_sched_def scheduler_initialize_def empty_sched_def)
  have p: "task_id (current boot_sched) = 100" "communication_channel (current boot_sched) = zero_channel"
    by (simp_all add: c master_slot_def clear_slot_def)
  have run: "running boot_sched = 0" "active_process_count boot_sched = 1"
    by (simp_all add: running_def boot_sched_def scheduler_initialize_def)
  have "active boot_sched = [current boot_sched]"
    using sched_invD(1) [OF boot_sched_inv] by (cases "process_table boot_sched") (auto simp: active_def current_def run)
  with run have f: "first_ix (alive_with (task_id (current boot_sched))) (active boot_sched) = Some (running boot_sched)"
    by (simp add: alive_with_def c master_slot_def state_codes)
  show ?thesis
    using message_commands_round_trip [OF boot_sched_inv f, of "''hi''" "replicate 128 NUL" "[]" id] p
    by (auto simp: channel_list_zero)
qed

text \<open>
  A message of 127 characters is accepted too (it fills the 128 bytes with its NUL), but \<open>msgrecv\<close> copies
  only 127 bytes, so the text printed has no terminator of its own.
\<close>

lemma longest_message_is_printed_unterminated:
  assumes "sched_inv s" "length junk = 128" "nul_free text" "length text = 127" "junk ! 127 \<noteq> NUL"
    "channel_list (communication_channel (current s)) = (sd, ty, text @ [NUL]) # ms"
  shows "cmd_msgrecv world junk s = Some (Inl Out_of_bounds)"
proof -
  have "drop 127 junk = [junk ! 127]"
    using Cons_nth_drop_Suc [of 127 junk] assms(2) by simp
  moreover have "NUL \<notin> set text" using assms(3) by (simp add: nul_free_def)
  ultimately have "print_buffer (take 127 (text @ [NUL]) @ drop (min 127 128) junk) = Inl Out_of_bounds"
    using assms(4,5) by (auto simp: print_buffer_def terminated_def)
  with msgrecv_line [OF assms(1,2,6), of world] assms(4) show ?thesis by auto
qed


section \<open>Background task\<close>

text \<open>
  One turn of the loop of \<open>dummy_task_procedure\<close>, its registration by \<open>newtask2\<close> (\<open>entry\<close> is its address),
  and \<open>scheduler_exit_stub\<close>, to which a task's entry point returns: should the terminated task run again, it halts.
\<close>

definition dummy_task_turn :: "scheduler_state \<Rightarrow> con list \<times> scheduler_state" where
  "dummy_task_turn s = ([Print (ln '' [PROCESS] Background execution loop running...'')], scheduler_yield s)"

definition newtask2 :: "u32 \<Rightarrow> sys_task \<Rightarrow> u32 \<Rightarrow> scheduler_state \<Rightarrow> sys_oom_ctrl \<Rightarrow>
     (fault \<times> scheduler_state \<times> sys_oom_ctrl) + (scheduler_state \<times> sys_oom_ctrl)" where
  "newtask2 exit_stub raw entry s o0 =
     map_sum id snd (scheduler_register_process exit_stub raw entry SCHED_DEFAULT_PRIORITY 128 0 s o0)"

definition scheduler_exit_stub :: "scheduler_state \<Rightarrow> scheduler_state \<times> fault" where
  "scheduler_exit_stub s = (scheduler_terminate_current s, Cpu_halted)"

end
