(* ===== verification/WX_Ipc_Props.thy ===== *)
theory WX_Ipc_Props
  imports WX_Tools
begin

text \<open>
  Message passing between processes as a queue.  The contract a bounded first-in first-out queue gives its
  users is the locale \<open>bounded_fifo\<close>; it is interpreted on \<open>scheduler_ipc_send\<close> and
  \<open>scheduler_ipc_receive\<close>, whose own tests decide when a message is refused and when a receiver waits.
\<close>

section \<open>The contract of a bounded queue\<close>

datatype 'x fifo_op = Send 'x | Receive

datatype ('c, 'm) fifo_outcome = Status 'c | Received 'm | Waits

text \<open>
  A sequence of calls: a send answers with a status; a receive that does not come back (\<open>None\<close>) is a receiver
  that waits, and takes nothing.
\<close>

fun fifo_run ::
    "('x \<Rightarrow> 's \<Rightarrow> 'e + 'c \<times> 's) \<Rightarrow> ('s \<Rightarrow> ('e + 'm \<times> 's) option) \<Rightarrow> 'x fifo_op list \<Rightarrow> 's \<Rightarrow>
     'e + ('c, 'm) fifo_outcome list \<times> 's" where
  "fifo_run enq deq [] s = Inr ([], s)"
| "fifo_run enq deq (Send x # ops) s =
     bindE (enq x s) (\<lambda>(st, s). map_sum id (\<lambda>(out, s). (Status st # out, s)) (fifo_run enq deq ops s))"
| "fifo_run enq deq (Receive # ops) s =
     (case deq s of
        None \<Rightarrow> map_sum id (\<lambda>(out, s). (Waits # out, s)) (fifo_run enq deq ops s)
      | Some r \<Rightarrow> bindE r (\<lambda>(m, s). map_sum id (\<lambda>(out, s). (Received m # out, s)) (fifo_run enq deq ops s)))"

text \<open>The same calls on a queue of at most \<open>cap\<close> items.\<close>

fun queue_run ::
    "nat \<Rightarrow> 'c \<Rightarrow> 'c \<Rightarrow> ('x \<Rightarrow> 'm) \<Rightarrow> 'x fifo_op list \<Rightarrow> 'm list \<Rightarrow> ('c, 'm) fifo_outcome list \<times> 'm list" where
  "queue_run cap done busy item [] q = ([], q)"
| "queue_run cap done busy item (Send x # ops) q =
     (if length q < cap
      then apfst (Cons (Status done)) (queue_run cap done busy item ops (q @ [item x]))
      else apfst (Cons (Status busy)) (queue_run cap done busy item ops q))"
| "queue_run cap done busy item (Receive # ops) q =
     (case q of
        [] \<Rightarrow> apfst (Cons Waits) (queue_run cap done busy item ops [])
      | m # ms \<Rightarrow> apfst (Cons (Received m)) (queue_run cap done busy item ops ms))"

locale bounded_fifo =
  fixes inv :: "'s \<Rightarrow> bool"
    and contents :: "'s \<Rightarrow> 'm list"
    and cap :: nat
    and accepted :: 'c
    and busy :: 'c
    and ok :: "'x \<Rightarrow> bool"
    and item :: "'x \<Rightarrow> 'm"
    and enq :: "'x \<Rightarrow> 's \<Rightarrow> 'e + 'c \<times> 's"
    and deq :: "'s \<Rightarrow> ('e + 'm \<times> 's) option"
  assumes enq_ok: "inv s \<Longrightarrow> ok x \<Longrightarrow> length (contents s) < cap \<Longrightarrow>
            \<exists>s'. enq x s = Inr (accepted, s') \<and> inv s' \<and> contents s' = contents s @ [item x]"
    and enq_full: "inv s \<Longrightarrow> ok x \<Longrightarrow> length (contents s) = cap \<Longrightarrow>
            \<exists>s'. enq x s = Inr (busy, s') \<and> inv s' \<and> contents s' = contents s"
    and deq_ok: "inv s \<Longrightarrow> contents s = m # ms \<Longrightarrow> \<exists>s'. deq s = Some (Inr (m, s')) \<and> inv s' \<and> contents s' = ms"
    and deq_empty: "inv s \<Longrightarrow> contents s = [] \<Longrightarrow> deq s = None"
    and contents_bound: "inv s \<Longrightarrow> length (contents s) \<le> cap"
begin

lemma run_refines:
  assumes "inv s" "\<forall>x. Send x \<in> set ops \<longrightarrow> ok x"
  shows "\<exists>out s'. fifo_run enq deq ops s = Inr (out, s') \<and> inv s' \<and>
     queue_run cap accepted busy item ops (contents s) = (out, contents s')"
  using assms
proof (induction ops arbitrary: s)
  case (Cons op ops)
  have IH: "\<exists>out s'. fifo_run enq deq ops t = Inr (out, s') \<and> inv s' \<and>
      queue_run cap accepted busy item ops (contents t) = (out, contents s')" if "inv t" for t
    using Cons.IH [OF that] Cons.prems(2) by simp
  show ?case
  proof (cases op)
    case (Send x)
    then have x: "ok x" using Cons.prems(2) by simp
    show ?thesis
    proof (cases "length (contents s) < cap")
      case True
      from enq_ok [OF Cons.prems(1) x True] obtain t where
        t: "enq x s = Inr (accepted, t)" "inv t" "contents t = contents s @ [item x]" by blast
      from IH [OF t(2)] t(1) t(3) True show ?thesis by (auto simp: Send)
    next
      case False
      then have "length (contents s) = cap" using contents_bound [OF Cons.prems(1)] by simp
      from enq_full [OF Cons.prems(1) x this] obtain t where
        t: "enq x s = Inr (busy, t)" "inv t" "contents t = contents s" by blast
      from IH [OF t(2)] t(1) t(3) False show ?thesis by (auto simp: Send)
    qed
  next
    case Receive
    show ?thesis
    proof (cases "contents s")
      case c: (Cons m ms)
      from deq_ok [OF Cons.prems(1) c] obtain t where
        t: "deq s = Some (Inr (m, t))" "inv t" "contents t = ms" by blast
      from IH [OF t(2)] t(1) t(3) c show ?thesis by (auto simp: Receive)
    next
      case Nil
      from IH [OF Cons.prems(1)] deq_empty [OF Cons.prems(1) Nil] Nil show ?thesis by (auto simp: Receive)
    qed
  qed
qed simp

end

section \<open>A yield leaves the channels alone\<close>

definition channels :: "scheduler_state \<Rightarrow> ipc_channel list" where
  "channels s = map communication_channel (process_table s)"

lemma channels_upd:
  assumes "communication_channel (f (process_table s ! i)) = communication_channel (process_table s ! i)"
  shows "channels (upd_pcb i f s) = channels s"
  using assms by (cases "i < length (process_table s)")
    (simp_all add: channels_def map_update list_update_beyond list_update_same_conv)

lemma channels_more [simp]:
  "channels (s\<lparr>running_process_index := n\<rparr>) = channels s" "channels (s\<lparr>scheduler_cycles := n\<rparr>) = channels s"
  "channels (tick s) = channels s" "channels (s\<lparr>ram := m\<rparr>) = channels s" "channels (s\<lparr>cpu := c\<rparr>) = channels s"
  by (simp_all add: channels_def)

lemma age_loop_channels [simp]:
  "map communication_channel (age_loop run i n tbl) = map communication_channel tbl"
  by (induction run i n tbl rule: age_loop.induct) (auto simp: age_pcb_def Let_def)

lemma select_scan_channels [simp]:
  "map communication_channel (fst (select_scan now i n tbl best)) = map communication_channel tbl"
  by (induction now i n tbl best rule: select_scan.induct) (auto simp: Let_def split_beta)

lemma select_next_channels: "channels (snd (scheduler_select_next_candidate s)) = channels s"
  by (auto simp: scheduler_select_next_candidate_def Let_def split_beta scheduler_apply_aging_def channels_upd
      split: option.split) (auto simp: channels_def)

lemma hand_over_channels: "channels (hand_over cur nxt s) = channels s"
  by (simp add: hand_over_def switch_stacks_def Let_def split_beta channels_upd account_in_def account_out_def)

lemma yield_channels: "channels (scheduler_yield s) = channels s"
  using select_next_channels [of "tick s"]
  by (auto simp: yield_eq hand_over_channels split: prod.split)

text \<open>So a receiver whose channel is empty waits as long as nobody sends.\<close>

lemma receive_waits:
  assumes "ch_count (communication_channel (current s)) = 0" "running s < length (process_table s)"
  shows "scheduler_ipc_receive id buffer mx s = None"
proof -
  have lonely: "w = id \<longrightarrow> cur < length (channels t) \<longrightarrow> ch_count (channels t ! cur) = 0 \<longrightarrow> False"
    if "receive_wait w cur t = Some u" for w cur t u
  proof (rule receive_wait.raw_induct [where P = "\<lambda>w cur t u. w = id \<longrightarrow> cur < length (channels t) \<longrightarrow>
      ch_count (channels t ! cur) = 0 \<longrightarrow> False", OF _ that], intro impI)
    fix f w cur t u
    assume IH: "\<And>w cur t u. f w cur t = Some u \<Longrightarrow> w = id \<longrightarrow> cur < length (channels t) \<longrightarrow>
        ch_count (channels t ! cur) = 0 \<longrightarrow> False"
      and body: "(if ch_count (communication_channel (process_table t ! cur)) = 0
        then f w cur (w (scheduler_yield (upd_pcb cur (\<lambda>p. p\<lparr>execution_state := ST_BLOCKED, waiting_on_pid := 0\<rparr>) t)))
        else Some t) = Some u"
      and h: "w = id" "cur < length (channels t)" "ch_count (channels t ! cur) = 0"
    have "ch_count (communication_channel (process_table t ! cur)) = 0" using h(2,3) by (simp add: channels_def)
    with body IH [of w cur "scheduler_yield (upd_pcb cur (\<lambda>p. p\<lparr>execution_state := ST_BLOCKED, waiting_on_pid := 0\<rparr>) t)" u] h
    show False by (simp add: yield_channels channels_upd)
  qed
  show ?thesis
    using lonely [of id "running s" s] assms
    by (cases "receive_wait id (running s) s") (auto simp: scheduler_ipc_receive_def current_def channels_def Let_def)
qed

section \<open>The channel of a process as a queue\<close>

text \<open>Process \<open>k\<close> has the processor.\<close>

definition runs :: "nat \<Rightarrow> scheduler_state \<Rightarrow> scheduler_state" where
  "runs k s = s\<lparr>running_process_index := of_nat k\<rparr>"

text \<open>Process \<open>k\<close> sends bytes of a type to the process with pid \<open>d\<close>.\<close>

definition send_to :: "u32 \<Rightarrow> nat \<times> u32 \<times> char list \<Rightarrow> scheduler_state \<Rightarrow> fault + u32 \<times> scheduler_state" where
  "send_to d = (\<lambda>(k, ty, bytes) s. scheduler_ipc_send d bytes (of_nat (length bytes)) ty (runs k s))"

text \<open>Process \<open>i\<close> receives into a buffer of 128 bytes: the sender, the type and the bytes.\<close>

definition receive_by :: "nat \<Rightarrow> scheduler_state \<Rightarrow> (fault + (u32 \<times> u32 \<times> char list) \<times> scheduler_state) option" where
  "receive_by i s =
     map_option (map_sum id (\<lambda>((b, n, sender, ty), s). ((sender, ty, take (unat n) b), s)))
       (scheduler_ipc_receive id (replicate 128 NUL) SCHED_IPC_MSG_SIZE (runs i s))"

definition mailbox :: "nat \<Rightarrow> scheduler_state \<Rightarrow> (u32 \<times> u32 \<times> char list) list" where
  "mailbox i s = channel_list (communication_channel (process_table s ! i))"

text \<open>The pid \<open>d\<close> is that of the live process \<open>i\<close>, one of \<open>n\<close> processes with the pids \<open>ids\<close>.\<close>

definition addressed :: "u32 \<Rightarrow> nat \<Rightarrow> nat \<Rightarrow> (nat \<Rightarrow> u32) \<Rightarrow> scheduler_state \<Rightarrow> bool" where
  "addressed d i n ids s \<longleftrightarrow> sched_inv s \<and> unat (active_process_count s) = n \<and>
     first_ix (alive_with d) (active s) = Some i \<and> (\<forall>k < n. task_id (process_table s ! k) = ids k)"

lemma runs_simps [simp]:
  "process_table (runs k s) = process_table s" "active_process_count (runs k s) = active_process_count s"
  "active (runs k s) = active s"
  by (simp_all add: runs_def active_def)

lemma running_runs: "k < 1024 \<Longrightarrow> running (runs k s) = k"
  by (simp add: runs_def running_def unat_of_nat)

lemma addressedD:
  assumes "addressed d i n ids s"
  shows "sched_inv s" "first_ix (alive_with d) (active s) = Some i" "n \<le> 1024" "unat (active_process_count s) = n"
    "length (process_table s) = 1024" "i < n" "channel_inv (communication_channel (process_table s ! i))"
proof -
  show s: "sched_inv s" "first_ix (alive_with d) (active s) = Some i" "unat (active_process_count s) = n"
    using assms by (simp_all add: addressed_def)
  show "n \<le> 1024" "length (process_table s) = 1024" "i < n"
    using sched_invD [OF s(1)] s(3) active_first_ix(1) [OF s(1,2)] by auto
  then show "channel_inv (communication_channel (process_table s ! i))"
    using sched_inv_pcb [OF s(1), of i] by (simp add: pcb_ok_def)
qed

lemma addressed_runs:
  assumes "addressed d i n ids s" "k < n"
  shows "addressed d i n ids (runs k s)"
proof -
  have "running (runs k s) = k" by (rule running_runs) (use addressedD(3) [OF assms(1)] assms(2) in simp)
  then show ?thesis using assms by (simp add: addressed_def sched_inv_def)
qed

text \<open>A new channel for process \<open>i\<close>, with or without waking it.\<close>

lemma addressed_upd:
  assumes "addressed d i n ids s" "channel_inv c"
    and f: "\<And>p. task_id (f p) = task_id p" "\<And>p. communication_channel (f p) = c"
      "\<And>p. signal_subsystem (f p) = signal_subsystem p"
      "\<And>p. execution_state (f p) = ST_DEAD \<longleftrightarrow> execution_state p = ST_DEAD"
  shows "addressed d i n ids (upd_pcb i f s)" "mailbox i (upd_pcb i f s) = channel_list c"
proof -
  note D = addressedD [OF assms(1)]
  have l: "i < length (process_table s)" using D(3,5,6) by simp
  have inv: "sched_inv (upd_pcb i f s)"
    by (rule sched_inv_upd [OF D(1)]) (use assms(2) f in \<open>simp_all add: pcb_ok_def\<close>)
  have same: "alive_with d (process_table (upd_pcb i f s) ! k) = alive_with d (process_table s ! k)" for k
    using f(1,4) l by (cases "k = i") (simp_all add: alive_with_def)
  have "first_ix (alive_with d) (active (upd_pcb i f s)) = first_ix (alive_with d) (active s)"
  proof (rule first_ix_cong)
    fix k assume "k < length (active (upd_pcb i f s))"
    then show "alive_with d (active (upd_pcb i f s) ! k) = alive_with d (active s ! k)"
      using same [of k] by (simp add: active_def)
  qed (simp add: active_def)
  moreover have "task_id (process_table (upd_pcb i f s) ! k) = task_id (process_table s ! k)" for k
    using f(1) l by (cases "k = i") simp_all
  ultimately show "addressed d i n ids (upd_pcb i f s)"
    using assms(1) inv by (simp add: addressed_def)
  show "mailbox i (upd_pcb i f s) = channel_list c" using f(2) l by (simp add: mailbox_def)
qed

lemma send_to_room:
  assumes "addressed d i n ids s" "k < n" "length bytes \<le> 128" "length (mailbox i s) < 32"
  shows "\<exists>s'. send_to d (k, ty, bytes) s = Inr (ERR_OK, s') \<and> addressed d i n ids s' \<and>
     mailbox i s' = mailbox i s @ [(ids k, ty, bytes)]"
proof -
  let ?s = "runs k s"
  have a: "addressed d i n ids ?s" by (rule addressed_runs [OF assms(1,2)])
  note D = addressedD [OF a]
  have len: "unat (of_nat (length bytes) :: u32) = length bytes" by (rule unat_small [OF assms(3)])
  have cur: "task_id (current ?s) = ids k"
    using a assms(2) D(3) running_runs [of k s] by (simp add: current_def addressed_def)
  from ipc_send_ok [OF D(1,2), of "of_nat (length bytes)" bytes ty] obtain c where
    c: "scheduler_ipc_send d bytes (of_nat (length bytes)) ty ?s =
         Inr (ERR_OK, upd_pcb i (\<lambda>p. p\<lparr>communication_channel := c, execution_state := woken p\<rparr>) ?s)"
      "channel_inv c" "channel_list c = mailbox i s @ [(ids k, ty, bytes)]"
    using assms(3,4) len cur by (auto simp: mailbox_def)
  have "addressed d i n ids (upd_pcb i (\<lambda>p. p\<lparr>communication_channel := c, execution_state := woken p\<rparr>) ?s)"
    "mailbox i (upd_pcb i (\<lambda>p. p\<lparr>communication_channel := c, execution_state := woken p\<rparr>) ?s) = channel_list c"
    by (rule addressed_upd [OF a c(2)]; simp add: woken_def state_codes)+
  with c show ?thesis by (simp add: send_to_def)
qed

lemma send_to_full:
  assumes "addressed d i n ids s" "k < n" "length bytes \<le> 128" "length (mailbox i s) = 32"
  shows "send_to d (k, ty, bytes) s = Inr (ERR_BUSY, runs k s)"
proof -
  note D = addressedD [OF addressed_runs [OF assms(1,2)]]
  have len: "unat (of_nat (length bytes) :: u32) = length bytes" by (rule unat_small [OF assms(3)])
  then have "\<not> SCHED_IPC_MSG_SIZE < of_nat (length bytes)"
    using assms(3) by (simp add: SCHED_IPC_MSG_SIZE_def word_less_nat_alt)
  moreover have "SCHED_IPC_MAX_MESSAGES \<le> ch_count (communication_channel (process_table s ! i))"
    using assms(4) by (simp add: mailbox_def SCHED_IPC_MAX_MESSAGES_def word_le_nat_alt)
  ultimately show ?thesis using D(2) by (simp add: send_to_def scheduler_ipc_send_def Let_def)
qed

lemma receive_by_message:
  assumes "addressed d i n ids s" "mailbox i s = m # ms"
  shows "\<exists>s'. receive_by i s = Some (Inr (m, s')) \<and> addressed d i n ids s' \<and> mailbox i s' = ms"
proof -
  let ?s = "runs i s" and ?c = "communication_channel (process_table s ! i)"
  note D = addressedD [OF assms(1)]
  have a: "addressed d i n ids ?s" by (rule addressed_runs [OF assms(1) D(6)])
  have run: "running ?s = i" by (rule running_runs) (use D(3,6) in simp)
  have pos: "0 < unat (ch_count ?c)" using assms(2) by (metis length_Cons length_channel_list mailbox_def zero_less_Suc)
  obtain sd ty bytes where m: "m = (sd, ty, bytes)" by (cases m)
  from channel_pop_ok [OF D(7) pos, of "replicate 128 NUL" SCHED_IPC_MSG_SIZE] assms(2) obtain c where
    c: "channel_inv c" "channel_list c = ms" "length bytes \<le> 128"
      "channel_pop (replicate 128 NUL) SCHED_IPC_MSG_SIZE ?c =
        Inr ((take 128 bytes @ drop (min 128 (length bytes)) (replicate 128 NUL), of_nat (min 128 (length bytes)), sd, ty), c)"
    by (auto simp: mailbox_def m SCHED_IPC_MSG_SIZE_def)
  have "receive_wait id i ?s = Some ?s" using pos by (subst receive_wait.simps) auto
  then have "receive_by i s = Some (Inr (m, upd_pcb i (\<lambda>p. p\<lparr>communication_channel := c\<rparr>) ?s))"
    using c(3,4) by (simp add: receive_by_def scheduler_ipc_receive_def run Let_def m unat_small min_absorb2)
  moreover have "addressed d i n ids (upd_pcb i (\<lambda>p. p\<lparr>communication_channel := c\<rparr>) ?s)"
    "mailbox i (upd_pcb i (\<lambda>p. p\<lparr>communication_channel := c\<rparr>) ?s) = channel_list c"
    by (rule addressed_upd [OF a c(1)]; simp)+
  ultimately show ?thesis using c(2) by simp
qed

lemma receive_by_empty:
  assumes "addressed d i n ids s" "mailbox i s = []"
  shows "receive_by i s = None"
proof -
  note D = addressedD [OF assms(1)]
  have run: "running (runs i s) = i" by (rule running_runs) (use D(3,6) in simp)
  have "unat (ch_count (communication_channel (process_table s ! i))) = 0"
    using assms(2) by (metis length_channel_list list.size(3) mailbox_def)
  then have "scheduler_ipc_receive id (replicate 128 NUL) SCHED_IPC_MSG_SIZE (runs i s) = None"
    by (intro receive_waits) (use run D(3,5,6) in \<open>simp_all add: current_def unat_eq_0\<close>)
  then show ?thesis by (simp add: receive_by_def)
qed

interpretation ipc_fifo: bounded_fifo "addressed d i n ids" "mailbox i" 32 ERR_OK ERR_BUSY
  "\<lambda>(k, ty, bytes). k < n \<and> length bytes \<le> 128" "\<lambda>(k, ty, bytes). (ids k, ty, bytes)" "send_to d" "receive_by i"
  for d :: u32 and i n :: nat and ids :: "nat \<Rightarrow> u32"
proof unfold_locales
  fix s and x :: "nat \<times> u32 \<times> char list"
  assume h: "addressed d i n ids s" "case x of (k, ty, bytes) \<Rightarrow> k < n \<and> length bytes \<le> 128"
  obtain k ty bytes where x: "x = (k, ty, bytes)" by (metis prod_cases3)
  show "\<exists>s'. send_to d x s = Inr (ERR_OK, s') \<and> addressed d i n ids s' \<and>
      mailbox i s' = mailbox i s @ [case x of (k, ty, bytes) \<Rightarrow> (ids k, ty, bytes)]" if "length (mailbox i s) < 32"
    using send_to_room [OF h(1), of k bytes ty] h(2) that x by simp
  show "\<exists>s'. send_to d x s = Inr (ERR_BUSY, s') \<and> addressed d i n ids s' \<and> mailbox i s' = mailbox i s"
    if "length (mailbox i s) = 32"
    using send_to_full [OF h(1), of k bytes ty] addressed_runs [OF h(1), of k] h(2) that x by (simp add: mailbox_def)
next
  fix s m ms
  assume "addressed d i n ids s" "mailbox i s = m # ms"
  then show "\<exists>s'. receive_by i s = Some (Inr (m, s')) \<and> addressed d i n ids s' \<and> mailbox i s' = ms"
    by (rule receive_by_message)
next
  fix s assume "addressed d i n ids s"
  from addressedD(7) [OF this] show "length (mailbox i s) \<le> 32" by (simp add: mailbox_def channel_inv_def)
qed (rule receive_by_empty)

section \<open>The property\<close>

text \<open>
  C6: message passing is a bounded first-in first-out queue.  For any interleaving of sends by the processes to a live
  process and of receives by it, no call faults, and every outcome is that of a queue of 32 items: a send is
  answered \<open>ERR_OK\<close> while fewer than 32 messages wait and \<open>ERR_BUSY\<close> otherwise, a receive hands over the oldest
  message with its sender, type and bytes, and on an empty channel it waits.
\<close>
theorem ipc_channel_is_fifo:
  assumes "sched_inv s" "first_ix (alive_with d) (active s) = Some i"
    "\<forall>k ty bytes. Send (k, ty, bytes) \<in> set ops \<longrightarrow> k < unat (active_process_count s) \<and> length bytes \<le> 128"
  shows "\<exists>out s'. fifo_run (send_to d) (receive_by i) ops s = Inr (out, s') \<and> sched_inv s' \<and>
     queue_run 32 ERR_OK ERR_BUSY (\<lambda>(k, ty, bytes). (task_id (process_table s ! k), ty, bytes)) ops (mailbox i s) =
       (out, mailbox i s')"
proof -
  let ?n = "unat (active_process_count s)" and ?ids = "\<lambda>k. task_id (process_table s ! k)"
  have "addressed d i ?n ?ids s" using assms(1,2) by (simp add: addressed_def)
  from ipc_fifo.run_refines [OF this, of ops] assms(3) show ?thesis by (auto simp: addressed_def)
qed

theorem ipc_channel_is_fifo_witness:
  "\<exists>s'. fifo_run (send_to 101) (receive_by 1)
       (Receive # replicate 32 (Send (0, 7, ''ab'')) @ [Send (0, 7, ''cd''), Receive, Send (0, 7, ''ef'')])
       (pair_sched ST_RUNNING ST_RUNNING) =
     Inr (Waits # replicate 32 (Status ERR_OK) @ [Status ERR_BUSY, Received (100, 7, ''ab''), Status ERR_OK], s') \<and>
     sched_inv s'"
proof -
  let ?s = "pair_sched ST_RUNNING ST_RUNNING"
  let ?ops = "Receive # replicate 32 (Send (0, 7 :: u32, ''ab'')) @ [Send (0, 7, ''cd''), Receive, Send (0, 7, ''ef'')]"
  have f: "first_ix (alive_with 101) (active ?s) = Some 1"
    by (simp add: first_ix_eq_Some active_def pair_sched_count pair_sched_def sched_of_simps)
       (simp add: alive_with_def slot_of_def state_codes)
  have ok: "\<forall>k ty bytes. Send (k, ty, bytes) \<in> set ?ops \<longrightarrow> k < unat (active_process_count ?s) \<and> length bytes \<le> 128"
    by (auto simp: pair_sched_count)
  have m: "mailbox 1 ?s = []" "task_id (process_table ?s ! 0) = 100"
    by (simp_all add: mailbox_def pair_sched_slots slot_of_def channel_list_zero)
  let ?out = "Waits # replicate 32 (Status ERR_OK) @ [Status ERR_BUSY, Received (100, 7, ''ab''), Status ERR_OK]"
  let ?item = "\<lambda>(k, ty, bytes). (task_id (process_table ?s ! k), ty, bytes)"
  have q: "fst (queue_run 32 ERR_OK ERR_BUSY ?item ?ops []) = ?out" by (simp add: m(2) numeral_eq_Suc)
  from ipc_channel_is_fifo [OF pair_sched_inv f ok] obtain out s' where
    r: "fifo_run (send_to 101) (receive_by 1) ?ops ?s = Inr (out, s')" "sched_inv s'"
      "queue_run 32 ERR_OK ERR_BUSY ?item ?ops [] = (out, mailbox 1 s')" unfolding m(1) by blast
  have "out = ?out" using q unfolding r(3) by (simp only: fst_conv)
  with r(1,2) show ?thesis by blast
qed

end
