(* ===== verification/WX_Disk.thy ===== *)
theory WX_Disk
  imports WX_Kernel
begin

text \<open>
  The ATA driver of \<open>sdd.h\<close>.  The drive is hardware: its latched registers, a store of sectors by
  28-bit address, and the number of status polls it takes to raise its data-request bit.  The contract of
  a block device is the locale \<open>block_device\<close>, interpreted on the driver.
\<close>

section \<open>The drive and the driver\<close>

record ata_drive =
  reg_select :: u8
  reg_lba_low :: u8
  reg_lba_mid :: u8
  reg_lba_high :: u8
  reg_sectors :: u8
  reg_command :: u8
  ready_after :: nat
  sectors :: "u32 \<Rightarrow> u16 list"

text \<open>The address the drive decodes from its registers.\<close>

definition lba28 :: "ata_drive \<Rightarrow> u32" where
  "lba28 d = ucast (reg_lba_low d) OR push_bit 8 (ucast (reg_lba_mid d)) OR
     push_bit 16 (ucast (reg_lba_high d)) OR push_bit 24 (ucast (reg_select d) AND 0x0F)"

text \<open>
  The data port: 256 words of the addressed sector after the command 0x20 (read), taken for it after 0x30 (write).
\<close>

definition data_in :: "ata_drive \<Rightarrow> u16 list" where
  "data_in d = (if reg_command d = 0x20 then take 256 (sectors d (lba28 d)) else [])"

definition data_out :: "u16 list \<Rightarrow> ata_drive \<Rightarrow> ata_drive" where
  "data_out ws d = (if reg_command d = 0x30 then d\<lparr>sectors := (sectors d)(lba28 d := ws)\<rparr> else d)"

text \<open>The six port writes that start a transfer of one sector.\<close>

definition select_sector :: "u8 \<Rightarrow> u64 \<Rightarrow> ata_drive \<Rightarrow> ata_drive" where
  "select_sector command lba d =
     d\<lparr>reg_select := ucast (0xE0 OR (drop_bit 24 lba AND 0x0F)), reg_sectors := 1, reg_lba_low := ucast lba,
       reg_lba_mid := ucast (drop_bit 8 lba), reg_lba_high := ucast (drop_bit 16 lba), reg_command := command\<rparr>"

text \<open>The wait gives up on the poll number 1000001.\<close>

definition drq_in_time :: "ata_drive \<Rightarrow> bool" where
  "drq_in_time d \<longleftrightarrow> ready_after d \<le> 1000000"

fun ata_read_sectors :: "u64 \<Rightarrow> nat \<Rightarrow> ata_drive \<Rightarrow> (u16 list \<times> ata_drive) option" where
  "ata_read_sectors lba 0 d = Some ([], d)"
| "ata_read_sectors lba (Suc n) d =
     (let d = select_sector 0x20 lba d in
      if drq_in_time d then
        map_option (\<lambda>(rest, d'). (data_in d @ rest, d')) (ata_read_sectors (lba + 1) n d)
      else None)"

text \<open>The buffer is a list of 16-bit words; \<open>None\<close> is the return value \<open>-1\<close>.\<close>

fun ata_write_sectors :: "u64 \<Rightarrow> nat \<Rightarrow> u16 list \<Rightarrow> ata_drive \<Rightarrow> fault + ata_drive option" where
  "ata_write_sectors lba 0 buf d = Inr (Some d)"
| "ata_write_sectors lba (Suc n) buf d =
     (let d = select_sector 0x30 lba d in
      if drq_in_time d then
        if length buf < 256 then Inl Out_of_bounds
        else ata_write_sectors (lba + 1) n (drop 256 buf) (data_out (take 256 buf) d)
      else Inr None)"

text \<open>\<open>primary_dev\<close>: present when the status port does not float at 0xFF.\<close>

datatype storage_device = DEV_NONE | DEV_ATA ata_drive

definition Sdd :: "u8 \<Rightarrow> ata_drive \<Rightarrow> con list \<times> storage_device" where
  "Sdd status d = (if status \<noteq> 0xFF then ([Print (ln ''ATA Ready.'')], DEV_ATA d) else ([], DEV_NONE))"

definition read_block :: "u64 \<Rightarrow> storage_device \<Rightarrow> (u16 list \<times> storage_device) option" where
  "read_block block_id dev =
     (case dev of DEV_NONE \<Rightarrow> None
      | DEV_ATA d \<Rightarrow> map_option (\<lambda>(b, d). (b, DEV_ATA d)) (ata_read_sectors block_id 1 d))"

text \<open>A failed write leaves the device; its callers ignore the result.\<close>

definition write_block :: "u64 \<Rightarrow> u16 list \<Rightarrow> storage_device \<Rightarrow> fault + storage_device" where
  "write_block block_id buf dev =
     (case dev of DEV_NONE \<Rightarrow> Inr DEV_NONE
      | DEV_ATA d \<Rightarrow> map_sum id (\<lambda>r. case r of None \<Rightarrow> DEV_ATA (select_sector 0x30 block_id d) | Some d \<Rightarrow> DEV_ATA d)
          (ata_write_sectors block_id 1 buf d))"

section \<open>The contract of a block device\<close>

locale block_device =
  fixes usable :: "'d \<Rightarrow> bool"
    and addr :: "'a \<Rightarrow> bool"
    and blk :: "'b \<Rightarrow> bool"
    and rd :: "'a \<Rightarrow> 'd \<Rightarrow> ('b \<times> 'd) option"
    and wr :: "'a \<Rightarrow> 'b \<Rightarrow> 'd \<Rightarrow> 'e + 'd"
    and content :: "'d \<Rightarrow> 'a \<Rightarrow> 'b"
  assumes wr_ok: "usable d \<Longrightarrow> addr a \<Longrightarrow> blk b \<Longrightarrow> \<exists>d'. wr a b d = Inr d' \<and> usable d' \<and>
            content d' a = b \<and> (\<forall>a'. addr a' \<longrightarrow> a' \<noteq> a \<longrightarrow> content d' a' = content d a')"
    and rd_ok: "usable d \<Longrightarrow> addr a \<Longrightarrow> blk (content d a) \<Longrightarrow> \<exists>d'. rd a d = Some (content d a, d') \<and> usable d'"
begin

text \<open>Writing distinct blocks one after the other leaves each of them with its last content.\<close>

lemma write_all:
  assumes "usable d" "\<forall>(a, b) \<in> set w. addr a \<and> blk b" "distinct (map fst w)"
  shows "\<exists>d'. foldE (\<lambda>(a, b). wr a b) w d = Inr d' \<and> usable d' \<and> (\<forall>(a, b) \<in> set w. content d' a = b) \<and>
     (\<forall>a. addr a \<longrightarrow> a \<notin> fst ` set w \<longrightarrow> content d' a = content d a)"
  using assms
proof (induction w arbitrary: d)
  case (Cons x w)
  obtain a b where x: "x = (a, b)" by (cases x)
  with wr_ok [of d a b] Cons.prems obtain d1 where
    d1: "wr a b d = Inr d1" "usable d1" "content d1 a = b" "\<forall>a'. addr a' \<longrightarrow> a' \<noteq> a \<longrightarrow> content d1 a' = content d a'"
    by auto
  from Cons.IH [OF d1(2)] Cons.prems obtain d' where
    d': "foldE (\<lambda>(a, b). wr a b) w d1 = Inr d'" "usable d'" "\<forall>(a, b) \<in> set w. content d' a = b"
    "\<forall>a. addr a \<longrightarrow> a \<notin> fst ` set w \<longrightarrow> content d' a = content d1 a" by auto
  have "a \<notin> fst ` set w" using Cons.prems(3) x by simp
  then have "content d' a = b" using d' d1(3) Cons.prems(2) x by auto
  with d' d1 x show ?case by (intro exI [of _ d']) auto
qed simp

end

lemma lba28_select:
  assumes "lba < 2 ^ 28"
  shows "lba28 (select_sector c lba d) = ucast lba"
proof (rule bit_eqI)
  fix n assume "possible_bit TYPE(u32) n"
  then have n: "n < 32" by simp
  have "unat (take_bit 28 lba) = unat lba"
    using assms by (simp add: unsigned_take_bit_eq take_bit_nat_eq_self word_less_nat_alt)
  then have "take_bit 28 lba = lba" by (simp only: word_unat_eq_iff)
  then have hi: "\<not> bit lba k" if "28 \<le> k" for k
    using that by (metis bit_take_bit_iff linorder_not_le)
  show "bit (lba28 (select_sector c lba d)) n = bit (ucast lba :: u32) n"
  proof (cases "n < 24")
    case True
    then have "n < 8 \<or> (8 \<le> n \<and> n < 16) \<or> (16 \<le> n \<and> n < 24)" by auto
    then show ?thesis by (auto simp: lba28_def select_sector_def bit_simps)
  next
    case False
    with n have "n = 24 \<or> n = 25 \<or> n = 26 \<or> n = 27 \<or> n = 28 \<or> n = 29 \<or> n = 30 \<or> n = 31" by auto
    then show ?thesis using hi [of n] by (elim disjE) (simp_all add: lba28_def select_sector_def bit_simps)
  qed
qed


text \<open>The driver on a drive that answers in time: single-sector transfers below \<open>2 ^ 28\<close>.\<close>

definition disk_content :: "storage_device \<Rightarrow> u64 \<Rightarrow> u16 list" where
  "disk_content dev a = (case dev of DEV_NONE \<Rightarrow> [] | DEV_ATA d \<Rightarrow> take 256 (sectors d (ucast a)))"

definition disk_usable :: "storage_device \<Rightarrow> bool" where
  "disk_usable dev \<longleftrightarrow> (case dev of DEV_NONE \<Rightarrow> False | DEV_ATA d \<Rightarrow> drq_in_time d)"

lemma select_sector_simps [simp]:
  "sectors (select_sector c lba d) = sectors d" "drq_in_time (select_sector c lba d) = drq_in_time d"
  "reg_command (select_sector c lba d) = c"
  by (simp_all add: select_sector_def drq_in_time_def)

lemma ucast_28_inj:
  assumes "a < 2 ^ 28" "b < 2 ^ 28" "ucast (a :: u64) = (ucast (b :: u64) :: u32)"
  shows "a = b"
proof -
  have small: "unat (ucast c :: u32) = unat c" if "c < 2 ^ 28" for c :: u64
    using that by (simp add: unsigned_ucast_eq take_bit_nat_eq_self word_less_nat_alt)
  have "unat a = unat b" using small [OF assms(1)] small [OF assms(2)] assms(3) by metis
  then show ?thesis by (simp only: word_unat_eq_iff)
qed

interpretation ata: block_device disk_usable "\<lambda>a. a < 2 ^ 28" "\<lambda>b. length b = 256" read_block write_block disk_content
proof unfold_locales
  fix dev a and b :: "u16 list"
  assume h: "disk_usable dev" "a < (2 :: u64) ^ 28" "length b = 256"
  then obtain d where d: "dev = DEV_ATA d" "drq_in_time d" by (cases dev) (auto simp: disk_usable_def)
  let ?d' = "select_sector 0x30 a d"
  let ?new = "DEV_ATA (?d'\<lparr>sectors := (sectors d)(ucast a := b)\<rparr>)"
  have "write_block a b dev = Inr ?new"
    using h d lba28_select [OF h(2)] by (simp add: write_block_def data_out_def Let_def)
  moreover have "disk_usable ?new" using d(2) by (simp add: disk_usable_def drq_in_time_def select_sector_def)
  moreover have "\<forall>a'. a' < 2 ^ 28 \<longrightarrow> a' \<noteq> a \<longrightarrow> disk_content ?new a' = disk_content dev a'"
    using h(2) d(1) ucast_28_inj by (fastforce simp: disk_content_def)
  ultimately show "\<exists>dev'. write_block a b dev = Inr dev' \<and> disk_usable dev' \<and> disk_content dev' a = b \<and>
      (\<forall>a'. a' < 2 ^ 28 \<longrightarrow> a' \<noteq> a \<longrightarrow> disk_content dev' a' = disk_content dev a')"
    using h(3) by (intro exI [of _ ?new]) (simp add: disk_content_def)
next
  fix dev a
  assume h: "disk_usable dev" "a < (2 :: u64) ^ 28" "length (disk_content dev a) = 256"
  then obtain d where d: "dev = DEV_ATA d" "drq_in_time d" by (cases dev) (auto simp: disk_usable_def)
  then show "\<exists>dev'. read_block a dev = Some (disk_content dev a, dev') \<and> disk_usable dev'"
    using lba28_select [OF h(2)] by (simp add: read_block_def data_in_def Let_def disk_content_def disk_usable_def)
qed

end
