(* ===== verification/WX_Fs.thy ===== *)
theory WX_Fs
  imports WX_Disk WX_Bytes
begin

text \<open>
  The in-memory file system of \<open>fs.h\<close> and \<open>fssdd.h\<close> and its second copy of some commands in \<open>sdd.h\<close>:
  a table of 128 nodes with parent links, the current directory, the commands, the two file shells, and
  the copy of the table to the disk.  A command that asks for a name takes the typed line as an argument;
  \<open>scan\<close> writes it into a 32-byte (shell: 16-byte) buffer and does not check its length.
\<close>

section \<open>State\<close>

datatype node_type = DIR_NODE | FILE_NODE

record vfs_node =
  node_name :: "char list"
  node_type :: node_type
  parent_idx :: nat
  is_used :: bool

record vfs =
  storage :: "vfs_node list"
  current_dir :: nat

definition NAME_LEN :: nat where "NAME_LEN = 32"
definition MAX_NODES :: nat where "MAX_NODES = 128"

text \<open>Bytes after the NUL that \<open>scan\<close> writes are never read.\<close>

definition scan_into :: "nat \<Rightarrow> char list \<Rightarrow> fault + char list" where
  "scan_into n line = scan_copy line (replicate n NUL)"

fun fs_strcpy_loop :: "nat \<Rightarrow> char list \<Rightarrow> char list \<Rightarrow> fault + char list" where
  "fs_strcpy_loop n dest [] = Inl Out_of_bounds"
| "fs_strcpy_loop n [] (c # src) = Inl Out_of_bounds"
| "fs_strcpy_loop n (d # dest) (c # src) =
     (if c \<noteq> NUL \<and> 0 < n then map_sum id (Cons c) (fs_strcpy_loop (n - 1) dest src) else Inr (NUL # dest))"

definition fs_strcpy :: "char list \<Rightarrow> char list \<Rightarrow> fault + char list" where
  "fs_strcpy dest src = fs_strcpy_loop (NAME_LEN - 1) dest src"

definition upd_node :: "nat \<Rightarrow> (vfs_node \<Rightarrow> vfs_node) \<Rightarrow> vfs \<Rightarrow> vfs" where
  "upd_node i f v = v\<lparr>storage := (storage v)[i := f (storage v ! i)]\<rparr>"

section \<open>Commands\<close>

definition init_fs :: "vfs \<Rightarrow> fault + (con list \<times> vfs)" where
  "init_fs v0 =
     (let v = v0\<lparr>storage := map (\<lambda>n. n\<lparr>is_used := False\<rparr>) (storage v0)\<rparr>
      in bindE (get (storage v) 0) (\<lambda>root.
         bindE (fs_strcpy (node_name root) (lit ''root'')) (\<lambda>name.
           Inr ([Print (ln ''FS Ready.'')],
                upd_node 0 (\<lambda>n. n\<lparr>is_used := True, node_type := DIR_NODE, parent_idx := 0, node_name := name\<rparr>)
                  (v\<lparr>current_dir := 0\<rparr>)))))"

fun ls_loop :: "nat \<Rightarrow> nat \<Rightarrow> vfs_node list \<Rightarrow> con list" where
  "ls_loop cur i [] = []"
| "ls_loop cur i (n # ns) =
     (if is_used n \<and> parent_idx n = cur \<and> i \<noteq> cur
      then [Print (if node_type n = DIR_NODE then ''[D] '' else ''[F] ''), Print (cstr (node_name n)), Print (ln '''')]
      else []) @ ls_loop cur (Suc i) ns"

definition ls :: "vfs \<Rightarrow> con list" where
  "ls v = Print (ln '''') # ls_loop (current_dir v) 0 (storage v)"

text \<open>The loop that \<open>mkdir\<close>, \<open>touch\<close> and \<open>whitex_touch\<close> share: \<open>None\<close> when every slot is used.\<close>

definition new_node :: "node_type \<Rightarrow> char list \<Rightarrow> vfs \<Rightarrow> fault + vfs option" where
  "new_node ty name v =
     (case first_ix (\<lambda>n. \<not> is_used n) (storage v) of
        None \<Rightarrow> Inr None
      | Some i \<Rightarrow>
          bindE (fs_strcpy (node_name (storage v ! i)) name) (\<lambda>copied.
            Inr (Some (upd_node i (\<lambda>n. n\<lparr>is_used := True, node_type := ty, parent_idx := current_dir v,
              node_name := copied\<rparr>) v))))"

definition mkdir :: "char list \<Rightarrow> vfs \<Rightarrow> fault + (con list \<times> vfs)" where
  "mkdir line v =
     bindE (scan_into NAME_LEN line) (\<lambda>name. bindE (new_node DIR_NODE name v) (\<lambda>r.
       Inr ([Print ''Name: ''], case r of None \<Rightarrow> v | Some v' \<Rightarrow> v')))"

definition touch :: "char list \<Rightarrow> vfs \<Rightarrow> fault + (con list \<times> vfs)" where
  "touch line v =
     bindE (scan_into NAME_LEN line) (\<lambda>name. bindE (new_node FILE_NODE name v) (\<lambda>r.
       Inr (case r of None \<Rightarrow> ([Print ''File Name: '', Print (ln ''FS Full!'')], v)
            | Some v' \<Rightarrow> ([Print ''File Name: '', Print (ln ''File created.'')], v'))))"

definition whitex_touch :: "char list \<Rightarrow> vfs \<Rightarrow> fault + (con list \<times> vfs)" where
  "whitex_touch line v =
     bindE (scan_into NAME_LEN line) (\<lambda>name. bindE (new_node FILE_NODE name v) (\<lambda>r.
       Inr ([Print ''File: ''], case r of None \<Rightarrow> v | Some v' \<Rightarrow> v')))"

text \<open>
  The search loops: the first used node of the current directory with that name (\<open>cd\<close>: that is a
  directory).  The tests run in the order of the code, so \<open>strcmp\<close> only sees used nodes.
\<close>

fun find_node :: "bool \<Rightarrow> nat \<Rightarrow> char list \<Rightarrow> nat \<Rightarrow> vfs_node list \<Rightarrow> fault + nat option" where
  "find_node dirs cur name i [] = Inr None"
| "find_node dirs cur name i (n # ns) =
     (if is_used n \<and> (dirs \<longrightarrow> node_type n = DIR_NODE) then
        bindE (strcmp (node_name n) name) (\<lambda>d.
          if d = 0 \<and> parent_idx n = cur then Inr (Some i) else find_node dirs cur name (Suc i) ns)
      else find_node dirs cur name (Suc i) ns)"

definition cd :: "char list \<Rightarrow> vfs \<Rightarrow> fault + (con list \<times> vfs)" where
  "cd line v =
     bindE (scan_into NAME_LEN line) (\<lambda>name. bindE (strcmp name (lit ''..'')) (\<lambda>d.
       if d = 0 then
         bindE (get (storage v) (current_dir v)) (\<lambda>n. Inr ([Print ''To: ''], v\<lparr>current_dir := parent_idx n\<rparr>))
       else
         bindE (find_node True (current_dir v) name 0 (storage v)) (\<lambda>r.
           Inr ([Print ''To: ''], case r of None \<Rightarrow> v | Some i \<Rightarrow> v\<lparr>current_dir := i\<rparr>))))"

definition pwd :: "vfs \<Rightarrow> fault + con list" where
  "pwd v = bindE (get (storage v) (current_dir v)) (\<lambda>n.
     if terminated (node_name n) then Inr [Print ''/'', Print (cstr (node_name n)), Print (ln '''')]
     else Inl Out_of_bounds)"

definition rm :: "char list \<Rightarrow> vfs \<Rightarrow> fault + (con list \<times> vfs)" where
  "rm line v =
     bindE (scan_into NAME_LEN line) (\<lambda>name. bindE (find_node False (current_dir v) name 0 (storage v)) (\<lambda>r.
       Inr (case r of
          None \<Rightarrow> ([Print ''Remove: '', Print (ln ''Not found.'')], v)
        | Some i \<Rightarrow> if i = 0 then ([Print ''Remove: ''], v)
                    else ([Print ''Remove: '', Print (ln ''Deleted.'')], upd_node i (\<lambda>n. n\<lparr>is_used := False\<rparr>) v))))"

definition whitex_rm :: "char list \<Rightarrow> vfs \<Rightarrow> fault + (con list \<times> vfs)" where
  "whitex_rm line v =
     bindE (scan_into NAME_LEN line) (\<lambda>name. bindE (find_node False (current_dir v) name 0 (storage v)) (\<lambda>r.
       Inr ([Print ''RM: ''], case r of
          None \<Rightarrow> v
        | Some i \<Rightarrow> if i \<noteq> 0 then upd_node i (\<lambda>n. n\<lparr>is_used := False\<rparr>) v else v)))"

section \<open>The table on disk\<close>

definition node_bytes :: "vfs_node \<Rightarrow> u8 list" where
  "node_bytes n = map char_u8 (node_name n) @ le32 (case node_type n of DIR_NODE \<Rightarrow> 0 | FILE_NODE \<Rightarrow> 1) @
     le32 (of_nat (parent_idx n)) @ le32 (if is_used n then 1 else 0)"

fun to_words :: "u8 list \<Rightarrow> u16 list" where
  "to_words (a # b # bs) = (ucast a OR push_bit 8 (ucast b)) # to_words bs"
| "to_words _ = []"

text \<open>
  \<open>Sdd_Sync\<close> and \<open>fs_sync\<close>: \<open>sizeof(storage) / 512 + 1\<close> sectors from block 100 on.  \<open>beyond\<close> is the memory
  that follows the table in the image.
\<close>

definition storage_image :: "vfs \<Rightarrow> u8 list" where
  "storage_image v = concat (map node_bytes (storage v))"

definition sync_blocks :: "u8 list \<Rightarrow> vfs \<Rightarrow> (u64 \<times> u16 list) list" where
  "sync_blocks beyond v =
     (let image = storage_image v; mem = image @ beyond
      in map (\<lambda>i. (100 + of_nat i, take 256 (to_words (drop (i * 512) mem)))) [0..<length image div 512 + 1])"

definition Sdd_Sync :: "u8 list \<Rightarrow> vfs \<Rightarrow> storage_device \<Rightarrow> fault + (con list \<times> storage_device)" where
  "Sdd_Sync beyond v dev =
     map_sum id (\<lambda>dev. ([Print (ln ''FS Synced to Disk.'')], dev))
       (foldE (\<lambda>(i, b). write_block i b) (sync_blocks beyond v) dev)"

definition fs_sync :: "u8 list \<Rightarrow> vfs \<Rightarrow> storage_device \<Rightarrow> fault + (con list \<times> storage_device)" where
  "fs_sync beyond v dev =
     map_sum id (\<lambda>dev. ([Print (ln ''Disk Synced.'')], dev))
       (foldE (\<lambda>(i, b). write_block i b) (sync_blocks beyond v) dev)"

section \<open>The file shells\<close>

text \<open>
  \<open>shellfs\<close> and \<open>fsshell\<close> on the list of lines typed: a command that asks for a name takes the next line.
  The loop ends at \<open>q\<close> with the lines not yet read; \<open>None\<close> for them means that it still waits for a line.
\<close>

type_synonym fs_state = "vfs \<times> storage_device"

definition with_vfs :: "storage_device \<Rightarrow> fault + (con list \<times> vfs) \<Rightarrow> fault + (con list \<times> fs_state)" where
  "with_vfs dev m = map_sum id (\<lambda>(out, v). (out, v, dev)) m"

definition shell_simple :: "u8 list \<Rightarrow> string \<Rightarrow> fs_state \<Rightarrow> fault + (con list \<times> fs_state)" where
  "shell_simple beyond c = (\<lambda>(v, dev).
     if c = ''ls'' then Inr (ls v, v, dev)
     else if c = ''pwd'' then map_sum id (\<lambda>out. (out, v, dev)) (pwd v)
     else if c = ''sync'' then map_sum id (\<lambda>(out, dev). (out, v, dev)) (Sdd_Sync beyond v dev)
     else Inr ([Print (ln ''Unknown command.'')], v, dev))"

definition shell_named :: "string \<Rightarrow> char list \<Rightarrow> fs_state \<Rightarrow> fault + (con list \<times> fs_state)" where
  "shell_named c nm = (\<lambda>(v, dev).
     with_vfs dev (if c = ''mkdir'' then mkdir nm v else if c = ''cd'' then cd nm v
                   else if c = ''touch'' then touch nm v else rm nm v))"

fun shellfs :: "u8 list \<Rightarrow> char list list \<Rightarrow> fs_state \<Rightarrow>
    fault + (con list \<times> fs_state \<times> char list list option)" where
  "shellfs beyond [] st = Inr ([], st, None)"
| "shellfs beyond (line # lines) st =
     bindE (get (storage (fst st)) (current_dir (fst st))) (\<lambda>n.
     bindE (scan_into 16 line) (\<lambda>cmd.
       let prompt = [Print (cstr (node_name n)), Print ''> '']; c = cstr cmd in
       if c = ''q'' then Inr (prompt, st, Some lines)
       else if c \<in> set [''mkdir'', ''cd'', ''touch'', ''rm''] then
         case lines of
           [] \<Rightarrow> Inr (prompt, st, None)
         | nm # rest \<Rightarrow>
             bindE (shell_named c nm st) (\<lambda>(out, st).
               map_sum id (\<lambda>(o2, st, w). (prompt @ out @ o2, st, w)) (shellfs beyond rest st))
       else
         bindE (shell_simple beyond c st) (\<lambda>(out, st).
           map_sum id (\<lambda>(o2, st, w). (prompt @ out @ o2, st, w)) (shellfs beyond lines st))))"

text \<open>The second shell, of \<open>sdd.h\<close>; \<open>quit\<close> resets the machine through the keyboard controller.\<close>

definition fsshell_simple :: "u8 list \<Rightarrow> string \<Rightarrow> fs_state \<Rightarrow> fault + (con list \<times> fs_state)" where
  "fsshell_simple beyond c = (\<lambda>(v, dev).
     if c = ''ls'' then Inr (ls v, v, dev)
     else if c = ''quit'' then Inl Cpu_halted
     else if c = ''pwd'' then map_sum id (\<lambda>out. (out, v, dev)) (pwd v)
     else if c = ''sync'' then map_sum id (\<lambda>(out, dev). (out, v, dev)) (fs_sync beyond v dev)
     else if c = ''help'' then Inr ([Print (ln ''ls, mkdir, cd, pwd, touch, rm, sync'')], v, dev)
     else Inr ([Print (ln ''Error: Cmd not found.'')], v, dev))"

definition fsshell_named :: "string \<Rightarrow> char list \<Rightarrow> fs_state \<Rightarrow> fault + (con list \<times> fs_state)" where
  "fsshell_named c nm = (\<lambda>(v, dev).
     with_vfs dev (if c = ''mkdir'' then mkdir nm v else if c = ''cd'' then cd nm v
                   else if c = ''touch'' then whitex_touch nm v else whitex_rm nm v))"

fun fsshell :: "u8 list \<Rightarrow> char list list \<Rightarrow> fs_state \<Rightarrow>
    fault + (con list \<times> fs_state \<times> char list list option)" where
  "fsshell beyond [] st = Inr ([], st, None)"
| "fsshell beyond (line # lines) st =
     bindE (get (storage (fst st)) (current_dir (fst st))) (\<lambda>n.
     bindE (scan_into 32 line) (\<lambda>cmd.
       let prompt = [Print ''WhiteX:'', Print (cstr (node_name n)), Print ''> '']; c = cstr cmd in
       if c = ''q'' then Inr (prompt, st, Some lines)
       else if c \<in> set [''mkdir'', ''cd'', ''touch'', ''rm''] then
         case lines of
           [] \<Rightarrow> Inr (prompt, st, None)
         | nm # rest \<Rightarrow>
             bindE (fsshell_named c nm st) (\<lambda>(out, st).
               map_sum id (\<lambda>(o2, st, w). (prompt @ out @ o2, st, w)) (fsshell beyond rest st))
       else
         bindE (fsshell_simple beyond c st) (\<lambda>(out, st).
           map_sum id (\<lambda>(o2, st, w). (prompt @ out @ o2, st, w)) (fsshell beyond lines st))))"

section \<open>The invariant\<close>

definition dir_at :: "vfs_node list \<Rightarrow> nat \<Rightarrow> bool" where
  "dir_at st i \<longleftrightarrow> i < length st \<and> is_used (st ! i) \<and> node_type (st ! i) = DIR_NODE"

text \<open>The \<open>k\<close>-th ancestor.\<close>

fun up :: "vfs_node list \<Rightarrow> nat \<Rightarrow> nat \<Rightarrow> nat" where
  "up st 0 i = i"
| "up st (Suc k) i = up st k (parent_idx (st ! i))"

text \<open>Going up from \<open>i\<close> reaches the root through directories in use.\<close>

definition rooted :: "vfs_node list \<Rightarrow> nat \<Rightarrow> bool" where
  "rooted st i \<longleftrightarrow> (\<exists>k. up st k i = 0 \<and> (\<forall>j \<le> k. dir_at st (up st j i)))"

definition node_ok :: "vfs_node \<Rightarrow> bool" where
  "node_ok n \<longleftrightarrow> length (node_name n) = 32 \<and> (is_used n \<longrightarrow> terminated (node_name n) \<and> parent_idx n < 128)"

definition vfs_inv :: "vfs \<Rightarrow> bool" where
  "vfs_inv v \<longleftrightarrow> length (storage v) = 128 \<and> (\<forall>n \<in> set (storage v). node_ok n) \<and>
     parent_idx (storage v ! 0) = 0 \<and> dir_at (storage v) 0 \<and> rooted (storage v) (current_dir v)"

lemma rooted_dir: "rooted st i \<Longrightarrow> dir_at st i"
  by (auto simp: rooted_def dest: spec [of _ 0])

lemma rooted_root: "dir_at st 0 \<Longrightarrow> rooted st 0"
  unfolding rooted_def by (rule exI [of _ 0]) simp

lemma rooted_child:
  assumes "dir_at st i" "rooted st (parent_idx (st ! i))"
  shows "rooted st i"
proof -
  from assms(2) obtain k where k: "up st k (parent_idx (st ! i)) = 0" "\<forall>j \<le> k. dir_at st (up st j (parent_idx (st ! i)))"
    by (auto simp: rooted_def)
  have "dir_at st (up st j i)" if "j \<le> Suc k" for j
    using that k(2) assms(1) by (cases j) auto
  with k(1) show ?thesis unfolding rooted_def by (intro exI [of _ "Suc k"]) simp
qed

lemma rooted_parent:
  assumes "rooted st i" "parent_idx (st ! 0) = 0"
  shows "rooted st (parent_idx (st ! i))"
proof -
  from assms(1) obtain k where k: "up st k i = 0" "\<forall>j \<le> k. dir_at st (up st j i)" by (auto simp: rooted_def)
  show ?thesis
  proof (cases k)
    case 0
    with k assms show ?thesis by (auto intro: rooted_root simp: rooted_dir)
  next
    case (Suc m)
    with k have "up st m (parent_idx (st ! i)) = 0" "\<forall>j \<le> m. dir_at st (up st j (parent_idx (st ! i)))" by auto
    then show ?thesis unfolding rooted_def by blast
  qed
qed

lemma up_add: "up st (j + k) i = up st k (up st j i)"
  by (induction j arbitrary: i) auto

text \<open>The way up from a rooted directory avoids its own children.\<close>

lemma shortest_way:
  assumes "rooted st i"
  obtains k where "up st k i = 0" "\<forall>j \<le> k. dir_at st (up st j i)" "\<forall>j < k. up st j i \<noteq> 0"
proof -
  let ?P = "\<lambda>k. up st k i = 0"
  from assms obtain k where k: "?P k" "\<forall>j \<le> k. dir_at st (up st j i)" by (auto simp: rooted_def)
  have "(LEAST k. ?P k) \<le> k" by (rule Least_le) (rule k(1))
  with k show thesis using LeastI [of ?P k] not_less_Least [of _ ?P] by (intro that [of "LEAST k. ?P k"]) auto
qed

lemma way_avoids_children:
  assumes "up st k i = 0" "\<forall>j < k. up st j i \<noteq> 0" "j \<le> k" "c \<noteq> 0" "parent_idx (st ! c) = i"
  shows "up st j i \<noteq> c"
proof
  assume c: "up st j i = c"
  then have "j \<noteq> k" using assms(1,4) by auto
  with assms(3) have jk: "Suc j \<le> k" by simp
  have "up st (Suc j) i = up st 1 (up st j i)" using up_add [of st j 1 i] by simp
  then have loop: "up st (Suc j) i = i" using c assms(5) by simp
  have "up st k i = up st (k - Suc j) (up st (Suc j) i)" using up_add [of st "Suc j" "k - Suc j" i] jk by simp
  then have "up st (k - Suc j) i = 0" using assms(1) loop by simp
  moreover have "k - Suc j < k" using jk by simp
  ultimately show False using assms(2) by blast
qed

lemma up_cong:
  assumes "\<forall>j < k. parent_idx (st' ! up st j i) = parent_idx (st ! up st j i)"
  shows "up st' k i = up st k i"
  using assms
proof (induction k arbitrary: i)
  case (Suc k)
  have "up st' k (parent_idx (st ! i)) = up st k (parent_idx (st ! i))"
    using Suc.prems by (intro Suc.IH allI impI) (use Suc.prems in \<open>auto dest: spec [of _ "Suc _"]\<close>)
  moreover have "parent_idx (st' ! i) = parent_idx (st ! i)" using Suc.prems by (auto dest: spec [of _ 0])
  ultimately show ?case by simp
qed simp

lemma rooted_change:
  assumes "up st k i = 0" "\<forall>j \<le> k. dir_at st (up st j i)"
    and "\<And>j. j \<le> k \<Longrightarrow> st' ! up st j i = st ! up st j i" "length st' = length st"
  shows "rooted st' i"
proof -
  have u: "up st' j i = up st j i" if "j \<le> k" for j
    using assms(3) that by (intro up_cong) auto
  have "dir_at st' (up st' j i)" if "j \<le> k" for j
    using assms(2,3,4) that by (simp add: u dir_at_def)
  with u [of k] assms(1) show ?thesis unfolding rooted_def by (intro exI [of _ k]) simp
qed


section \<open>Every command keeps the invariant\<close>

lemma vfs_invD:
  assumes "vfs_inv v"
  shows "length (storage v) = 128" "\<And>i. i < 128 \<Longrightarrow> node_ok (storage v ! i)" "parent_idx (storage v ! 0) = 0"
    "dir_at (storage v) 0" "rooted (storage v) (current_dir v)" "current_dir v < 128"
  using assms rooted_dir [of "storage v" "current_dir v"] by (auto simp: vfs_inv_def dir_at_def)

lemma fs_strcpy_loop_eq:
  "terminated src \<Longrightarrow> n < length dest \<Longrightarrow>
   \<exists>r. fs_strcpy_loop n dest src = Inr (take n (cstr src) @ NUL # r) \<and>
       length (take n (cstr src) @ NUL # r) = length dest"
proof (induction n dest src rule: fs_strcpy_loop.induct)
  case (3 n d dest c src)
  show ?case
  proof (cases "c \<noteq> NUL \<and> 0 < n")
    case True
    then obtain m where m: "n = Suc m" by (cases n) auto
    with 3 True obtain r where "fs_strcpy_loop m dest src = Inr (take m (cstr src) @ NUL # r)"
      "length (take m (cstr src) @ NUL # r) = length dest" by auto
    with True m show ?thesis by auto
  next
    case False
    then show ?thesis by auto
  qed
qed auto

lemma fs_strcpy_eq:
  assumes "terminated src" "length dest = 32"
  obtains b where "fs_strcpy dest src = Inr b" "length b = 32" "terminated b" "nul_free (take 31 (cstr src)) \<longrightarrow> cstr b = take 31 (cstr src)"
proof -
  from fs_strcpy_loop_eq [OF assms(1), of 31 dest] assms(2) obtain r where
    r: "fs_strcpy_loop 31 dest src = Inr (take 31 (cstr src) @ NUL # r)" "length (take 31 (cstr src) @ NUL # r) = 32"
    by auto
  show thesis
    by (rule that [of "take 31 (cstr src) @ NUL # r"]) (use r in \<open>auto simp: fs_strcpy_def NAME_LEN_def\<close>)
qed

lemma scan_copy_fits:
  "terminated line \<Longrightarrow> length (cstr line) < length b \<Longrightarrow>
   \<exists>r. scan_copy line b = Inr (cstr line @ NUL # r) \<and> length (cstr line @ NUL # r) = length b"
proof (induction line b rule: scan_copy.induct)
  case (3 c line b bs)
  then show ?case by (cases "c = NUL") auto
qed auto

text \<open>A typed name fits its buffer.\<close>

definition fits :: "nat \<Rightarrow> char list \<Rightarrow> bool" where
  "fits n line \<longleftrightarrow> terminated line \<and> length (cstr line) < n"

lemma scan_into_eq:
  assumes "fits n line"
  obtains b where "scan_into n line = Inr b" "terminated b" "cstr b = cstr line" "length b = n"
proof -
  from scan_copy_fits [of line "replicate n NUL"] assms obtain r where
    "scan_copy line (replicate n NUL) = Inr (cstr line @ NUL # r)" "length (cstr line @ NUL # r) = n"
    by (auto simp: fits_def)
  then show thesis by (intro that [of "cstr line @ NUL # r"]) (auto simp: scan_into_def)
qed

text \<open>What the search finds.\<close>

definition matches :: "bool \<Rightarrow> nat \<Rightarrow> string \<Rightarrow> vfs_node \<Rightarrow> bool" where
  "matches dirs cur name n \<longleftrightarrow> is_used n \<and> (dirs \<longrightarrow> node_type n = DIR_NODE) \<and> cstr (node_name n) = name \<and>
     parent_idx n = cur"

lemma find_node_eq:
  assumes "terminated name" "\<forall>n \<in> set ns. node_ok n"
  shows "find_node dirs cur name i ns = Inr (map_option (\<lambda>k. i + k) (first_ix (matches dirs cur (cstr name)) ns))"
  using assms(2)
proof (induction ns arbitrary: i)
  case (Cons n ns)
  have shift: "(+) (Suc i) = (\<lambda>x. Suc (i + x))" by auto
  show ?case
  proof (cases "is_used n \<and> (dirs \<longrightarrow> node_type n = DIR_NODE)")
    case True
    then have "terminated (node_name n)" using Cons.prems by (simp add: node_ok_def)
    from strcmp_zero_iff [OF this assms(1)] obtain d where
      d: "strcmp (node_name n) name = Inr d" "d = 0 \<longleftrightarrow> cstr (node_name n) = cstr name" by blast
    with True Cons show ?thesis
      by (auto simp: matches_def option.map_comp comp_def shift)
  next
    case False
    with Cons show ?thesis by (auto simp: matches_def option.map_comp comp_def shift)
  qed
qed simp

lemma find_node_storage:
  assumes "vfs_inv v" "terminated name"
  shows "find_node dirs cur name 0 (storage v) = Inr (first_ix (matches dirs cur (cstr name)) (storage v))"
  using find_node_eq [OF assms(2), of "storage v" dirs cur 0] assms(1)
  by (simp add: vfs_inv_def option.map_ident)

text \<open>A node put into a free slot under the current directory.\<close>

lemma new_node_inv:
  assumes "vfs_inv v" "terminated name"
  shows "(first_ix (\<lambda>n. \<not> is_used n) (storage v) = None \<and> new_node ty name v = Inr None) \<or>
     (\<exists>i b. first_ix (\<lambda>n. \<not> is_used n) (storage v) = Some i \<and> i < 128 \<and> i \<noteq> 0 \<and> length b = 32 \<and> terminated b \<and>
        cstr b = take 31 (cstr name) \<and>
        new_node ty name v = Inr (Some (upd_node i (\<lambda>n. n\<lparr>is_used := True, node_type := ty,
          parent_idx := current_dir v, node_name := b\<rparr>) v)) \<and>
        vfs_inv (upd_node i (\<lambda>n. n\<lparr>is_used := True, node_type := ty, parent_idx := current_dir v, node_name := b\<rparr>) v))"
proof (cases "first_ix (\<lambda>n. \<not> is_used n) (storage v)")
  case None
  then show ?thesis by (simp add: new_node_def)
next
  case (Some i)
  note d = vfs_invD [OF assms(1)]
  have i: "i < 128" "\<not> is_used (storage v ! i)" using first_ix_SomeD [OF Some] d(1) by auto
  have i0: "i \<noteq> 0"
  proof
    assume "i = 0"
    with i d(4) show False by (simp add: dir_at_def)
  qed
  have "length (node_name (storage v ! i)) = 32" using d(2) [OF i(1)] by (simp add: node_ok_def)
  from fs_strcpy_eq [OF assms(2) this] obtain b where
    b: "fs_strcpy (node_name (storage v ! i)) name = Inr b" "length b = 32" "terminated b" "cstr b = take 31 (cstr name)"
    by auto
  let ?n = "(storage v ! i)\<lparr>is_used := True, node_type := ty, parent_idx := current_dir v, node_name := b\<rparr>"
  let ?v = "upd_node i (\<lambda>n. n\<lparr>is_used := True, node_type := ty, parent_idx := current_dir v, node_name := b\<rparr>) v"
  have run: "new_node ty name v = Inr (Some ?v)" using Some b(1) by (simp add: new_node_def)
  have st: "storage ?v = (storage v)[i := ?n]" "current_dir ?v = current_dir v" by (simp_all add: upd_node_def)
  obtain k where k: "up (storage v) k (current_dir v) = 0" "\<forall>j \<le> k. dir_at (storage v) (up (storage v) j (current_dir v))"
    using d(5) by (auto simp: rooted_def)
  have "rooted (storage ?v) (current_dir ?v)"
    unfolding st
  proof (rule rooted_change [OF k])
    fix j assume "j \<le> k"
    with k(2) have "dir_at (storage v) (up (storage v) j (current_dir v))" by blast
    then have "up (storage v) j (current_dir v) \<noteq> i" using i(2) by (auto simp: dir_at_def)
    then show "(storage v)[i := ?n] ! up (storage v) j (current_dir v) = storage v ! up (storage v) j (current_dir v)"
      by simp
  qed simp
  moreover have "\<forall>n \<in> set (storage ?v). node_ok n"
    using assms(1) b d(6) unfolding st
    by (auto simp: vfs_inv_def node_ok_def dest!: set_update_subset_insert [THEN subsetD])
  ultimately have "vfs_inv ?v" using d i0 by (simp add: vfs_inv_def st dir_at_def)
  with Some i i0 b run show ?thesis by blast
qed

lemma remove_node_inv:
  assumes "vfs_inv v" "i < 128" "i \<noteq> 0" "parent_idx (storage v ! i) = current_dir v"
  shows "vfs_inv (upd_node i (\<lambda>n. n\<lparr>is_used := False\<rparr>) v)"
proof -
  note d = vfs_invD [OF assms(1)]
  let ?n = "(storage v ! i)\<lparr>is_used := False\<rparr>"
  from shortest_way [OF d(5)] obtain k where
    k: "up (storage v) k (current_dir v) = 0" "\<forall>j \<le> k. dir_at (storage v) (up (storage v) j (current_dir v))"
      "\<forall>j < k. up (storage v) j (current_dir v) \<noteq> 0" by blast
  have "rooted ((storage v)[i := ?n]) (current_dir v)"
  proof (rule rooted_change [OF k(1,2)])
    fix j assume "j \<le> k"
    from way_avoids_children [OF k(1,3) this assms(3,4)]
    show "(storage v)[i := ?n] ! up (storage v) j (current_dir v) = storage v ! up (storage v) j (current_dir v)" by simp
  qed simp
  moreover have "\<forall>n \<in> set ((storage v)[i := ?n]). node_ok n"
    using assms(1) d(2) [OF assms(2)]
    by (auto simp: vfs_inv_def node_ok_def dest!: set_update_subset_insert [THEN subsetD])
  ultimately show ?thesis using d assms(3) by (simp add: vfs_inv_def upd_node_def dir_at_def)
qed

end
