(* ===== verification/WX_Fs_Props.thy ===== *)
theory WX_Fs_Props
  imports WX_Fs
begin

text \<open>
  What the commands of the file system guarantee: sequences of commands keep the tree, the round trip of
  \<open>mkdir\<close>, \<open>cd\<close> and \<open>pwd\<close>, what removing a directory leaves behind, and what \<open>sync\<close> puts on the disk.
\<close>

section \<open>Single commands\<close>

lemma create_inv:
  assumes "vfs_inv v" "fits 32 line"
  obtains b r where "scan_into NAME_LEN line = Inr b" "new_node ty b v = Inr r"
    "vfs_inv (case r of None \<Rightarrow> v | Some v' \<Rightarrow> v')"
proof -
  from scan_into_eq [OF assms(2)] obtain b where
    b: "scan_into NAME_LEN line = Inr b" "terminated b" by (auto simp: NAME_LEN_def)
  from new_node_inv [OF assms(1) b(2), of ty] obtain r where
    "new_node ty b v = Inr r" "vfs_inv (case r of None \<Rightarrow> v | Some v' \<Rightarrow> v')" using assms(1) by auto
  with b that show thesis by blast
qed

lemma mkdir_inv:
  assumes "vfs_inv v" "fits 32 line"
  shows "\<exists>out v'. mkdir line v = Inr (out, v') \<and> vfs_inv v'"
  by (rule create_inv [OF assms, of DIR_NODE]) (simp add: mkdir_def)

lemma touch_inv:
  assumes "vfs_inv v" "fits 32 line"
  shows "\<exists>out v'. touch line v = Inr (out, v') \<and> vfs_inv v'"
  by (rule create_inv [OF assms, of FILE_NODE]) (auto simp: touch_def split: option.splits)

lemma whitex_touch_inv:
  assumes "vfs_inv v" "fits 32 line"
  shows "\<exists>out v'. whitex_touch line v = Inr (out, v') \<and> vfs_inv v'"
  by (rule create_inv [OF assms, of FILE_NODE]) (simp add: whitex_touch_def)

lemma found_node:
  assumes "vfs_inv v" "first_ix (matches dirs (current_dir v) name) (storage v) = Some i"
  shows "i < 128" "is_used (storage v ! i)" "dirs \<longrightarrow> node_type (storage v ! i) = DIR_NODE"
    "parent_idx (storage v ! i) = current_dir v"
  using first_ix_SomeD [OF assms(2)] vfs_invD(1) [OF assms(1)] by (auto simp: matches_def)

lemma rm_eq:
  assumes "vfs_inv v" "fits 32 line"
  shows "rm line v = Inr (case first_ix (matches False (current_dir v) (cstr line)) (storage v) of
      None \<Rightarrow> ([Print ''Remove: '', Print (ln ''Not found.'')], v)
    | Some i \<Rightarrow> if i = 0 then ([Print ''Remove: ''], v)
                else ([Print ''Remove: '', Print (ln ''Deleted.'')], upd_node i (\<lambda>n. n\<lparr>is_used := False\<rparr>) v))"
proof -
  from scan_into_eq [OF assms(2)] obtain b where
    b: "scan_into NAME_LEN line = Inr b" "terminated b" "cstr b = cstr line" by (auto simp: NAME_LEN_def)
  show ?thesis using find_node_storage [OF assms(1) b(2), of False] b by (simp add: rm_def)
qed

lemma whitex_rm_eq:
  assumes "vfs_inv v" "fits 32 line"
  shows "whitex_rm line v = Inr ([Print ''RM: ''], snd (sum.projr (rm line v)))"
proof -
  from scan_into_eq [OF assms(2)] obtain b where
    b: "scan_into NAME_LEN line = Inr b" "terminated b" "cstr b = cstr line" by (auto simp: NAME_LEN_def)
  show ?thesis using find_node_storage [OF assms(1) b(2), of False] b
    by (simp add: rm_def whitex_rm_def split: option.split)
qed

lemma rm_inv:
  assumes "vfs_inv v" "fits 32 line"
  shows "\<exists>out v'. rm line v = Inr (out, v') \<and> vfs_inv v'"
  using rm_eq [OF assms] assms(1) found_node [OF assms(1), of False]
  by (auto intro: remove_node_inv split: option.split)

lemma cd_eq:
  assumes "vfs_inv v" "fits 32 line"
  shows "cd line v = Inr ([Print ''To: ''],
    if cstr line = ''..'' then v\<lparr>current_dir := parent_idx (storage v ! current_dir v)\<rparr>
    else case first_ix (matches True (current_dir v) (cstr line)) (storage v) of
      None \<Rightarrow> v | Some i \<Rightarrow> v\<lparr>current_dir := i\<rparr>)"
proof -
  from scan_into_eq [OF assms(2)] obtain b where
    b: "scan_into NAME_LEN line = Inr b" "terminated b" "cstr b = cstr line" by (auto simp: NAME_LEN_def)
  have "nul_free ''..''" by simp
  with strcmp_zero_iff [OF b(2) terminated_lit, of "''..''"] obtain d where
    d: "strcmp b (lit ''..'') = Inr d" "d = 0 \<longleftrightarrow> cstr line = ''..''" using b(3) by auto
  have "current_dir v < length (storage v)" using vfs_invD [OF assms(1)] by simp
  with find_node_storage [OF assms(1) b(2), of True] b d show ?thesis
    by (simp add: cd_def)
qed

lemma vfs_inv_move: "vfs_inv v \<Longrightarrow> rooted (storage v) i \<Longrightarrow> vfs_inv (v\<lparr>current_dir := i\<rparr>)"
  by (simp add: vfs_inv_def)

lemma cd_inv:
  assumes "vfs_inv v" "fits 32 line"
  shows "\<exists>out v'. cd line v = Inr (out, v') \<and> vfs_inv v'"
proof -
  note d = vfs_invD [OF assms(1)]
  have down: "rooted (storage v) i"
    if "first_ix (matches True (current_dir v) (cstr line)) (storage v) = Some i" for i
  proof (rule rooted_child)
    show "dir_at (storage v) i" using found_node [OF assms(1) that] d(1) by (simp add: dir_at_def)
    show "rooted (storage v) (parent_idx (storage v ! i))" using found_node(4) [OF assms(1) that] d(5) by simp
  qed
  have above: "rooted (storage v) (parent_idx (storage v ! current_dir v))"
    by (rule rooted_parent [OF d(5,3)])
  show ?thesis
    unfolding cd_eq [OF assms]
    using vfs_inv_move [OF assms(1) down] vfs_inv_move [OF assms(1) above] assms(1) by (auto split: option.split)
qed

lemma init_fs_inv:
  assumes "length (storage v) = 128" "\<forall>n \<in> set (storage v). length (node_name n) = 32"
  shows "\<exists>v'. init_fs v = Inr ([Print (ln ''FS Ready.'')], v') \<and> vfs_inv v' \<and> current_dir v' = 0 \<and>
     cstr (node_name (storage v' ! 0)) = ''root'' \<and>
     (\<forall>i < 128. is_used (storage v' ! i) \<longleftrightarrow> i = 0)"
proof -
  let ?st = "map (\<lambda>n. n\<lparr>is_used := False\<rparr>) (storage v)"
  have l: "length (node_name (?st ! 0)) = 32" using assms by simp
  from fs_strcpy_eq [OF terminated_lit l, of "''root''"] obtain b where
    b: "fs_strcpy (node_name (?st ! 0)) (lit ''root'') = Inr b" "length b = 32" "terminated b" "cstr b = ''root''" by auto
  let ?n = "(?st ! 0)\<lparr>is_used := True, node_type := DIR_NODE, parent_idx := 0, node_name := b\<rparr>"
  let ?v = "v\<lparr>storage := ?st[0 := ?n], current_dir := 0\<rparr>"
  have run: "init_fs v = Inr ([Print (ln ''FS Ready.'')], ?v)"
    using b(1) assms(1) by (simp add: init_fs_def upd_node_def Let_def)
  have "\<forall>n \<in> set (storage ?v). node_ok n"
    using assms b by (auto simp: node_ok_def dest!: set_update_subset_insert [THEN subsetD])
  moreover have "dir_at (storage ?v) 0" using assms(1) by (simp add: dir_at_def)
  ultimately have "vfs_inv ?v" using assms(1) rooted_root by (auto simp: vfs_inv_def)
  moreover have "\<forall>i < 128. is_used (storage ?v ! i) \<longleftrightarrow> i = 0"
    using assms(1) by (auto simp: nth_list_update)
  ultimately show ?thesis using run b(4) assms(1) by (intro exI [of _ ?v]) auto
qed

section \<open>Sequences of commands\<close>

datatype vfs_cmd = Mkdir "char list" | Touch "char list" | Cd "char list" | Rm "char list"
  | Whitex_touch "char list" | Whitex_rm "char list"

fun cmd_line :: "vfs_cmd \<Rightarrow> char list" where
  "cmd_line (Mkdir l) = l" | "cmd_line (Touch l) = l" | "cmd_line (Cd l) = l" | "cmd_line (Rm l) = l"
| "cmd_line (Whitex_touch l) = l" | "cmd_line (Whitex_rm l) = l"

fun vfs_step :: "vfs_cmd \<Rightarrow> vfs \<Rightarrow> fault + vfs" where
  "vfs_step (Mkdir l) v = map_sum id snd (mkdir l v)"
| "vfs_step (Touch l) v = map_sum id snd (touch l v)"
| "vfs_step (Cd l) v = map_sum id snd (cd l v)"
| "vfs_step (Rm l) v = map_sum id snd (rm l v)"
| "vfs_step (Whitex_touch l) v = map_sum id snd (whitex_touch l v)"
| "vfs_step (Whitex_rm l) v = map_sum id snd (whitex_rm l v)"

lemma vfs_step_inv:
  assumes "vfs_inv v" "fits 32 (cmd_line c)"
  shows "\<exists>v'. vfs_step c v = Inr v' \<and> vfs_inv v'"
  using assms mkdir_inv [of v] touch_inv [of v] cd_inv [of v] rm_inv [of v] whitex_touch_inv [of v] whitex_rm_eq [of v]
  by (cases c) fastforce+

text \<open>
  C17: after \<open>init_fs\<close>, any sequence of \<open>mkdir\<close>, \<open>touch\<close>, \<open>cd\<close>, \<open>rm\<close> and the second copies of \<open>touch\<close> and
  \<open>rm\<close>, with typed names that fit the 32-byte buffer, runs without a fault and keeps the table well formed:
  128 nodes whose names are 32 bytes with a NUL when in use, parent links inside the table, and a current
  directory whose path upwards leads to the root through directories in use.  Other nodes may be left without
  such a path, when \<open>rm\<close> takes a directory that has entries (\<open>removed_directory_leaks_its_entries\<close>).
\<close>
theorem fs_commands_keep_the_tree:
  assumes "length (storage v0) = 128" "\<forall>n \<in> set (storage v0). length (node_name n) = 32"
    "\<forall>c \<in> set cmds. fits 32 (cmd_line c)"
  shows "\<exists>v1 v2. init_fs v0 = Inr ([Print (ln ''FS Ready.'')], v1) \<and> foldE vfs_step cmds v1 = Inr v2 \<and> vfs_inv v2"
proof -
  from init_fs_inv [OF assms(1,2)] obtain v1 where
    v1: "init_fs v0 = Inr ([Print (ln ''FS Ready.'')], v1)" "vfs_inv v1" by blast
  have "\<exists>v2. foldE vfs_step cmds v1 = Inr v2 \<and> vfs_inv v2"
    using assms(3) vfs_step_inv by (intro foldE_inv [of vfs_inv, OF _ v1(2)]) auto
  with v1(1) show ?thesis by blast
qed

definition blank_node :: vfs_node where
  "blank_node = \<lparr>node_name = replicate 32 NUL, node_type = DIR_NODE, parent_idx = 0, is_used = False\<rparr>"

definition blank_fs :: vfs where
  "blank_fs = \<lparr>storage = replicate 128 blank_node, current_dir = 0\<rparr>"

lemma fits_lit [simp]: "nul_free s \<Longrightarrow> fits n (lit s) \<longleftrightarrow> length s < n"
  by (simp add: fits_def)

theorem fs_commands_keep_the_tree_witness:
  "\<exists>v1 v2. init_fs blank_fs = Inr ([Print (ln ''FS Ready.'')], v1) \<and>
     foldE vfs_step [Mkdir (lit ''a''), Cd (lit ''a''), Touch (lit ''f''), Rm (lit ''f''), Cd (lit ''..'')] v1 = Inr v2 \<and>
     vfs_inv v2"
  by (rule fs_commands_keep_the_tree) (simp_all add: blank_fs_def blank_node_def)

section \<open>Making a directory and entering it\<close>

lemma mkdir_eq:
  assumes "vfs_inv v" "fits 32 line" "first_ix (\<lambda>n. \<not> is_used n) (storage v) = Some i"
  shows "\<exists>b. mkdir line v = Inr ([Print ''Name: ''], upd_node i (\<lambda>n. n\<lparr>is_used := True, node_type := DIR_NODE,
        parent_idx := current_dir v, node_name := b\<rparr>) v) \<and> i < 128 \<and> i \<noteq> 0 \<and> terminated b \<and> cstr b = cstr line \<and>
     vfs_inv (upd_node i (\<lambda>n. n\<lparr>is_used := True, node_type := DIR_NODE,
        parent_idx := current_dir v, node_name := b\<rparr>) v)"
proof -
  from scan_into_eq [OF assms(2)] obtain nm where
    nm: "scan_into NAME_LEN line = Inr nm" "terminated nm" "cstr nm = cstr line" by (auto simp: NAME_LEN_def)
  have "take 31 (cstr line) = cstr line" using assms(2) by (simp add: fits_def)
  with new_node_inv [OF assms(1) nm(2), of DIR_NODE] assms(3) nm show ?thesis
    by (auto simp: mkdir_def)
qed

text \<open>\<open>cd\<close> into the directory that \<open>mkdir\<close> made, and back.\<close>

lemma cd_into_new:
  assumes "vfs_inv v" "fits 32 line" "cstr line \<noteq> ''..''" "first_ix (\<lambda>n. \<not> is_used n) (storage v) = Some i"
    "\<forall>n \<in> set (storage v). \<not> matches True (current_dir v) (cstr line) n"
  shows "\<exists>v1. mkdir line v = Inr ([Print ''Name: ''], v1) \<and> vfs_inv v1 \<and> current_dir v1 = current_dir v \<and> i < 128 \<and>
     cd line v1 = Inr ([Print ''To: ''], v1\<lparr>current_dir := i\<rparr>) \<and> terminated (node_name (storage v1 ! i)) \<and>
     cstr (node_name (storage v1 ! i)) = cstr line \<and> parent_idx (storage v1 ! i) = current_dir v \<and>
     (\<forall>j. j \<noteq> i \<longrightarrow> storage v1 ! j = storage v ! j)"
proof -
  from mkdir_eq [OF assms(1,2,4)] obtain b where
    m: "mkdir line v = Inr ([Print ''Name: ''], upd_node i (\<lambda>n. n\<lparr>is_used := True, node_type := DIR_NODE,
        parent_idx := current_dir v, node_name := b\<rparr>) v)"
      "i < 128" "terminated b" "cstr b = cstr line"
      "vfs_inv (upd_node i (\<lambda>n. n\<lparr>is_used := True, node_type := DIR_NODE,
        parent_idx := current_dir v, node_name := b\<rparr>) v)" by blast
  let ?v = "upd_node i (\<lambda>n. n\<lparr>is_used := True, node_type := DIR_NODE,
        parent_idx := current_dir v, node_name := b\<rparr>) v"
  have l: "length (storage v) = 128" using vfs_invD(1) [OF assms(1)] .
  have st: "storage ?v ! i = (storage v ! i)\<lparr>is_used := True, node_type := DIR_NODE,
        parent_idx := current_dir v, node_name := b\<rparr>" "\<forall>j. j \<noteq> i \<longrightarrow> storage ?v ! j = storage v ! j"
      "length (storage ?v) = 128" "current_dir ?v = current_dir v"
    using m(2) l by (simp_all add: upd_node_def)
  have "first_ix (matches True (current_dir v) (cstr line)) (storage ?v) = Some i"
    unfolding first_ix_eq_Some
  proof (intro conjI allI impI)
    show "matches True (current_dir v) (cstr line) (storage ?v ! i)"
      unfolding st(1) using m(4) by (simp add: matches_def)
    fix j assume "j < i"
    then show "\<not> matches True (current_dir v) (cstr line) (storage ?v ! j)"
      using st(2) assms(5) m(2) l by auto
  qed (use m(2) st(3) in simp)
  then have "cd line ?v = Inr ([Print ''To: ''], ?v\<lparr>current_dir := i\<rparr>)"
    using cd_eq [OF m(5) assms(2)] assms(3) st(4) by simp
  with m st show ?thesis by (intro exI [of _ ?v]) simp
qed

text \<open>
  A directory made under a new name can be entered by that name, \<open>pwd\<close> then prints the name in full, and
  \<open>cd ..\<close> leads back to the directory where it was made, the rest of the table unchanged.
\<close>
lemma mkdir_cd_pwd_round_trip:
  assumes "vfs_inv v" "fits 32 line" "cstr line \<noteq> ''..''" "\<exists>n \<in> set (storage v). \<not> is_used n"
    "\<forall>n \<in> set (storage v). \<not> (is_used n \<and> node_type n = DIR_NODE \<and> cstr (node_name n) = cstr line \<and>
       parent_idx n = current_dir v)"
  shows "\<exists>i v1 v2 v3. mkdir line v = Inr ([Print ''Name: ''], v1) \<and> cd line v1 = Inr ([Print ''To: ''], v2) \<and>
     pwd v2 = Inr [Print ''/'', Print (cstr line), Print (ln '''')] \<and>
     cd (lit ''..'') v2 = Inr ([Print ''To: ''], v3) \<and> current_dir v3 = current_dir v \<and>
     \<not> is_used (storage v ! i) \<and> (\<forall>j. j \<noteq> i \<longrightarrow> storage v3 ! j = storage v ! j)"
proof -
  from assms(4) obtain i where i: "first_ix (\<lambda>n. \<not> is_used n) (storage v) = Some i"
    by (metis first_ix_None not_Some_eq)
  have "\<forall>n \<in> set (storage v). \<not> matches True (current_dir v) (cstr line) n"
    using assms(5) by (auto simp: matches_def)
  from cd_into_new [OF assms(1-3) i this] obtain v1 where
    v1: "mkdir line v = Inr ([Print ''Name: ''], v1)" "vfs_inv v1" "i < 128"
      "cd line v1 = Inr ([Print ''To: ''], v1\<lparr>current_dir := i\<rparr>)" "terminated (node_name (storage v1 ! i))"
      "cstr (node_name (storage v1 ! i)) = cstr line" "parent_idx (storage v1 ! i) = current_dir v"
      "\<forall>j. j \<noteq> i \<longrightarrow> storage v1 ! j = storage v ! j" by blast
  let ?v2 = "v1\<lparr>current_dir := i\<rparr>"
  have l: "length (storage v1) = 128" using vfs_invD(1) [OF v1(2)] .
  have "pwd ?v2 = Inr [Print ''/'', Print (cstr line), Print (ln '''')]"
    using v1(3,5,6) l by (simp add: pwd_def)
  moreover from cd_inv [OF v1(2) assms(2)] v1(4) have "vfs_inv ?v2" by simp
  then have "cd (lit ''..'') ?v2 = Inr ([Print ''To: ''], ?v2\<lparr>current_dir := current_dir v\<rparr>)"
    using cd_eq [of ?v2 "lit ''..''"] v1(7) by simp
  moreover have "\<not> is_used (storage v ! i)" using first_ix_SomeD [OF i] by blast
  ultimately show ?thesis using v1
    by (intro exI [of _ i] exI [of _ v1] exI [of _ ?v2] exI [of _ "?v2\<lparr>current_dir := current_dir v\<rparr>"] conjI) simp_all
qed

lemma blank_fs_init:
  obtains v where "init_fs blank_fs = Inr ([Print (ln ''FS Ready.'')], v)" "vfs_inv v" "current_dir v = 0"
    "cstr (node_name (storage v ! 0)) = ''root''" "\<forall>i < 128. is_used (storage v ! i) \<longleftrightarrow> i = 0"
  using init_fs_inv [of blank_fs] by (auto simp: blank_fs_def blank_node_def)

lemma mkdir_cd_pwd_round_trip_witness:
  "\<exists>v i v1 v2 v3. init_fs blank_fs = Inr ([Print (ln ''FS Ready.'')], v) \<and>
     mkdir (lit ''docs'') v = Inr ([Print ''Name: ''], v1) \<and> cd (lit ''docs'') v1 = Inr ([Print ''To: ''], v2) \<and>
     pwd v2 = Inr [Print ''/'', Print ''docs'', Print (ln '''')] \<and>
     cd (lit ''..'') v2 = Inr ([Print ''To: ''], v3) \<and> current_dir v3 = current_dir v \<and>
     \<not> is_used (storage v ! i) \<and> (\<forall>j. j \<noteq> i \<longrightarrow> storage v3 ! j = storage v ! j)"
proof -
  obtain v where v: "init_fs blank_fs = Inr ([Print (ln ''FS Ready.'')], v)" "vfs_inv v"
    "cstr (node_name (storage v ! 0)) = ''root''" "\<forall>i < 128. is_used (storage v ! i) \<longleftrightarrow> i = 0"
    by (rule blank_fs_init)
  note l = vfs_invD(1) [OF v(2)]
  have "\<exists>n \<in> set (storage v). \<not> is_used n" using v(4) l by (intro bexI [of _ "storage v ! 1"]) auto
  moreover have "\<forall>n \<in> set (storage v). \<not> (is_used n \<and> node_type n = DIR_NODE \<and>
      cstr (node_name n) = cstr (lit ''docs'') \<and> parent_idx n = current_dir v)"
    using v(3,4) l by (auto simp: in_set_conv_nth)
  ultimately show ?thesis using mkdir_cd_pwd_round_trip [OF v(2), of "lit ''docs''"] v(1) by simp
qed


section \<open>Removing a directory that is not empty\<close>

lemma ls_loop_shows:
  "k < length ns \<Longrightarrow> is_used (ns ! k) \<Longrightarrow> parent_idx (ns ! k) = cur \<Longrightarrow> k + i \<noteq> cur \<Longrightarrow>
   Print (cstr (node_name (ns ! k))) \<in> set (ls_loop cur i ns)"
proof (induction ns arbitrary: k i)
  case (Cons n ns)
  show ?case
  proof (cases k)
    case (Suc m)
    with Cons show ?thesis by simp
  qed (use Cons.prems in simp)
qed simp

lemma ls_shows:
  "c < length (storage v) \<Longrightarrow> is_used (storage v ! c) \<Longrightarrow> parent_idx (storage v ! c) = current_dir v \<Longrightarrow>
   c \<noteq> current_dir v \<Longrightarrow> Print (cstr (node_name (storage v ! c))) \<in> set (ls v)"
  using ls_loop_shows [of c "storage v" "current_dir v" 0] by (simp add: ls_def)

text \<open>
  \<open>rm\<close> takes away a directory without looking at what it holds: its entries stay in use with a link to
  the freed slot, and when that slot is the first free one, the next directory made there, under any new
  name, lists them as its own.
\<close>
lemma removed_directory_leaks_its_entries:
  assumes "vfs_inv v" "fits 32 old" "fits 32 new" "cstr new \<noteq> ''..''" "i \<noteq> 0"
    "first_ix (\<lambda>n. is_used n \<and> cstr (node_name n) = cstr old \<and> parent_idx n = current_dir v) (storage v) = Some i"
    "\<forall>j < i. is_used (storage v ! j)"
    "\<forall>n \<in> set (storage v). \<not> (is_used n \<and> node_type n = DIR_NODE \<and> cstr (node_name n) = cstr new \<and>
       parent_idx n = current_dir v)"
    "c < 128" "c \<noteq> i" "is_used (storage v ! c)" "parent_idx (storage v ! c) = i"
  shows "\<exists>v1 v2 v3. rm old v = Inr ([Print ''Remove: '', Print (ln ''Deleted.'')], v1) \<and>
     mkdir new v1 = Inr ([Print ''Name: ''], v2) \<and> cd new v2 = Inr ([Print ''To: ''], v3) \<and>
     Print (cstr (node_name (storage v ! c))) \<in> set (ls v3)"
proof -
  let ?n = "(storage v ! i)\<lparr>is_used := False\<rparr>"
  let ?v1 = "upd_node i (\<lambda>n. n\<lparr>is_used := False\<rparr>) v"
  note l = vfs_invD(1) [OF assms(1)]
  have m: "matches False (current_dir v) (cstr old) =
      (\<lambda>n. is_used n \<and> cstr (node_name n) = cstr old \<and> parent_idx n = current_dir v)"
    by (auto simp: matches_def fun_eq_iff)
  have ix: "first_ix (matches False (current_dir v) (cstr old)) (storage v) = Some i" unfolding m by (rule assms(6))
  note f = found_node [OF assms(1) ix]
  have rm: "rm old v = Inr ([Print ''Remove: '', Print (ln ''Deleted.'')], ?v1)"
    using rm_eq [OF assms(1,2)] ix assms(5) by simp
  have inv: "vfs_inv ?v1" by (rule remove_node_inv [OF assms(1) f(1) assms(5) f(4)])
  have st: "storage ?v1 = (storage v)[i := ?n]" "current_dir ?v1 = current_dir v" by (simp_all add: upd_node_def)
  have free: "first_ix (\<lambda>n. \<not> is_used n) (storage ?v1) = Some i"
    using assms(7) f(1) l by (simp add: first_ix_eq_Some st)
  have "\<forall>n \<in> set (storage ?v1). \<not> matches True (current_dir ?v1) (cstr new) n"
    using assms(8) unfolding st by (auto simp: matches_def dest!: set_update_subset_insert [THEN subsetD])
  from cd_into_new [OF inv assms(3,4) free this] obtain v2 where
    v2: "mkdir new ?v1 = Inr ([Print ''Name: ''], v2)" "vfs_inv v2"
      "cd new v2 = Inr ([Print ''To: ''], v2\<lparr>current_dir := i\<rparr>)" "\<forall>j. j \<noteq> i \<longrightarrow> storage v2 ! j = storage ?v1 ! j"
    by blast
  have "storage v2 ! c = storage v ! c" using v2(4) assms(10) by (simp add: st)
  then have "Print (cstr (node_name (storage v ! c))) \<in> set (ls (v2\<lparr>current_dir := i\<rparr>))"
    using ls_shows [of c "v2\<lparr>current_dir := i\<rparr>"] assms(9-12) vfs_invD(1) [OF v2(2)] by simp
  with rm v2 show ?thesis by blast
qed

text \<open>A table with \<open>/a\<close> and \<open>/a/f\<close>.\<close>

definition demo_node :: "string \<Rightarrow> node_type \<Rightarrow> nat \<Rightarrow> vfs_node" where
  "demo_node s ty p = \<lparr>node_name = s @ replicate (32 - length s) NUL, node_type = ty, parent_idx = p, is_used = True\<rparr>"

definition demo_fs :: vfs where
  "demo_fs = \<lparr>storage = demo_node ''root'' DIR_NODE 0 # demo_node ''a'' DIR_NODE 0 # demo_node ''f'' FILE_NODE 1 #
     replicate 125 blank_node, current_dir = 0\<rparr>"

lemma demo_node_simps [simp]:
  "node_type (demo_node s ty p) = ty" "parent_idx (demo_node s ty p) = p" "is_used (demo_node s ty p)"
  "length s < 32 \<Longrightarrow> length (node_name (demo_node s ty p)) = 32"
  "length s < 32 \<Longrightarrow> terminated (node_name (demo_node s ty p))"
  "nul_free s \<Longrightarrow> length s < 32 \<Longrightarrow> cstr (node_name (demo_node s ty p)) = s"
proof -
  have "replicate (32 - length s) NUL = NUL # replicate (31 - length s) NUL" if "length s < 32"
    using that by (cases "32 - length s") auto
  then show "length s < 32 \<Longrightarrow> terminated (node_name (demo_node s ty p))"
    "nul_free s \<Longrightarrow> length s < 32 \<Longrightarrow> cstr (node_name (demo_node s ty p)) = s"
    by (simp_all add: demo_node_def)
qed (simp_all add: demo_node_def)

lemma blank_node_simps [simp]: "\<not> is_used blank_node" "length (node_name blank_node) = 32"
  by (simp_all add: blank_node_def)

lemma demo_fs_inv: "vfs_inv demo_fs"
  using rooted_root [of "storage demo_fs"]
  by (auto simp: vfs_inv_def demo_fs_def node_ok_def dir_at_def)

lemma removed_directory_leaks_its_entries_witness:
  "\<exists>v1 v2 v3. rm (lit ''a'') demo_fs = Inr ([Print ''Remove: '', Print (ln ''Deleted.'')], v1) \<and>
     mkdir (lit ''b'') v1 = Inr ([Print ''Name: ''], v2) \<and> cd (lit ''b'') v2 = Inr ([Print ''To: ''], v3) \<and>
     Print ''f'' \<in> set (ls v3)"
proof -
  have c: "Print (cstr (node_name (storage demo_fs ! 2))) = Print ''f''" by (simp add: demo_fs_def)
  show ?thesis
    unfolding c [symmetric]
    by (rule removed_directory_leaks_its_entries [OF demo_fs_inv, of _ _ 1]) (auto simp: demo_fs_def)
qed

section \<open>The table on the disk\<close>

lemma length_node_bytes: "length (node_name n) = 32 \<Longrightarrow> length (node_bytes n) = 44"
  by (simp add: node_bytes_def)

lemma length_storage_image: "vfs_inv v \<Longrightarrow> length (storage_image v) = 5632"
proof -
  assume h: "vfs_inv v"
  then have "\<forall>n \<in> set (storage v). length (node_bytes n) = 44"
    by (auto simp: vfs_inv_def node_ok_def length_node_bytes)
  then have "map (length \<circ> node_bytes) (storage v) = map (\<lambda>_. 44) (storage v)" by (intro map_cong) auto
  then show ?thesis using vfs_invD(1) [OF h]
    by (simp add: storage_image_def length_concat map_replicate_const sum_list_replicate)
qed

lemma length_to_words: "length (to_words bs) = length bs div 2"
  by (induction bs rule: to_words.induct) auto

lemma to_words_drop: "to_words (drop (2 * k) bs) = drop k (to_words bs)"
proof (induction k arbitrary: bs)
  case (Suc k)
  show ?case
  proof (cases bs rule: to_words.cases)
    case (1 a b bs')
    with Suc show ?thesis by simp
  qed simp_all
qed simp

lemma to_words_append: "even (length a) \<Longrightarrow> to_words (a @ b) = to_words a @ to_words b"
  by (induction a rule: to_words.induct) auto

lemma concat_blocks:
  "k * n \<le> length ws \<Longrightarrow> concat (map (\<lambda>i. take n (drop (i * n) ws)) [0..<k]) = take (k * n) ws"
proof (induction k)
  case (Suc k)
  then show ?case by (simp add: take_add add.commute [of n])
qed simp


text \<open>The twelve sectors of a sync.\<close>

definition synced :: "u8 list \<Rightarrow> vfs \<Rightarrow> nat \<Rightarrow> u16 list" where
  "synced beyond v i = take 256 (drop (i * 256) (to_words (storage_image v @ beyond)))"

lemma sync_blocks_eq:
  assumes "vfs_inv v"
  shows "sync_blocks beyond v = map (\<lambda>i. (100 + of_nat i, synced beyond v i)) [0..<12]"
proof -
  have "to_words (drop (i * 512) (storage_image v @ beyond)) = drop (i * 256) (to_words (storage_image v @ beyond))" for i
  proof -
    have "i * 512 = 2 * (i * 256)" by simp
    then show ?thesis using to_words_drop [of "i * 256" "storage_image v @ beyond"] by metis
  qed
  then show ?thesis
    unfolding sync_blocks_def Let_def synced_def length_storage_image [OF assms] by simp
qed

lemma length_synced:
  assumes "vfs_inv v" "512 \<le> length beyond" "i < 12"
  shows "length (synced beyond v i) = 256"
proof -
  have "i * 256 + 256 \<le> (5632 + length beyond) div 2" using assms(2,3) by simp
  then show ?thesis
    using length_storage_image [OF assms(1)] by (simp add: synced_def length_to_words)
qed

lemma concat_synced:
  assumes "vfs_inv v" "512 \<le> length beyond"
  shows "concat (map (synced beyond v) [0..<12]) = to_words (storage_image v @ take 512 beyond)"
proof -
  let ?m = "storage_image v @ beyond"
  note l = length_storage_image [OF assms(1)]
  have "concat (map (synced beyond v) [0..<12]) = take (12 * 256) (to_words ?m)"
    using concat_blocks [of 12 256 "to_words ?m"] assms(2) l
    by (simp add: synced_def [abs_def] length_to_words div_le_mono)
  moreover have "?m = (storage_image v @ take 512 beyond) @ drop 512 beyond" by simp
  then have "to_words ?m = to_words (storage_image v @ take 512 beyond) @ to_words (drop 512 beyond)"
    using to_words_append [of "storage_image v @ take 512 beyond" "drop 512 beyond"] l assms(2) by simp
  ultimately show ?thesis using l assms(2) by (simp add: length_to_words)
qed

lemma sync_addr:
  "i < 12 \<Longrightarrow> 100 + of_nat i < (2 :: u64) ^ 28" "i < 12 \<Longrightarrow> unat (100 + of_nat i :: u64) = 100 + i"
proof -
  show u: "i < 12 \<Longrightarrow> unat (100 + of_nat i :: u64) = 100 + i"
    by (simp add: unat_add_lem [THEN iffD1] unat_of_nat take_bit_nat_eq_self)
  show "i < 12 \<Longrightarrow> 100 + of_nat i < (2 :: u64) ^ 28" by (simp add: word_less_nat_alt u)
qed

text \<open>
  C18: on a working drive either \<open>sync\<close> writes the whole table: reading the twelve sectors from 100 on gives
  back the bytes of the table, followed by the 512 bytes of memory after it (the table fills eleven sectors
  exactly, so the twelfth is not part of it); no other sector changes.
\<close>
theorem sync_writes_the_table:
  assumes "vfs_inv v" "disk_usable dev" "512 \<le> length beyond"
  shows "\<exists>dev' blks. Sdd_Sync beyond v dev = Inr ([Print (ln ''FS Synced to Disk.'')], dev') \<and>
     fs_sync beyond v dev = Inr ([Print (ln ''Disk Synced.'')], dev') \<and>
     map (\<lambda>i. map_option fst (read_block (100 + of_nat i) dev')) [0..<12] = map Some blks \<and>
     concat blks = to_words (storage_image v @ take 512 beyond) \<and>
     (\<forall>a < 2 ^ 28. a < 100 \<or> 111 < a \<longrightarrow> disk_content dev' a = disk_content dev a)"
proof -
  let ?w = "map (\<lambda>i. (100 + of_nat i, synced beyond v i)) [0..<12] :: (u64 \<times> u16 list) list"
  have "\<forall>(a, b) \<in> set ?w. a < 2 ^ 28 \<and> length b = 256"
    using length_synced [OF assms(1,3)] sync_addr(1) by auto
  moreover have "inj_on (\<lambda>i. 100 + of_nat i :: u64) {0..<12}"
    by (rule inj_onI) (metis add_left_cancel atLeastLessThan_iff sync_addr(2))
  then have "distinct (map fst ?w)" by (simp add: distinct_map comp_def)
  ultimately obtain dev' where
    dev': "foldE (\<lambda>(a, b). write_block a b) ?w dev = Inr dev'" "disk_usable dev'"
      "\<forall>(a, b) \<in> set ?w. disk_content dev' a = b"
      "\<forall>a. a < 2 ^ 28 \<longrightarrow> a \<notin> fst ` set ?w \<longrightarrow> disk_content dev' a = disk_content dev a"
    using ata.write_all [OF assms(2), of ?w] by blast
  have c: "disk_content dev' (100 + of_nat i) = synced beyond v i" if "i < 12" for i
    using dev'(3) that by auto
  have "map_option fst (read_block (100 + of_nat i) dev') = Some (synced beyond v i)" if "i < 12" for i
    using ata.rd_ok [OF dev'(2) sync_addr(1) [OF that]] c [OF that] length_synced [OF assms(1,3) that] by auto
  then have rd: "map (\<lambda>i. map_option fst (read_block (100 + of_nat i) dev')) [0..<12] =
      map Some (map (synced beyond v) [0..<12])"
    by (simp only: map_map comp_def) (rule map_cong, auto)
  have other: "disk_content dev' a = disk_content dev a" if a: "a < 2 ^ 28" "a < 100 \<or> 111 < a" for a
  proof -
    have "a \<notin> fst ` set ?w"
    proof
      assume "a \<in> fst ` set ?w"
      then obtain i where i: "i < 12" "a = 100 + of_nat i" by auto
      then have "unat a = 100 + i" using sync_addr(2) by blast
      with a(2) i(1) show False by (auto simp: word_less_nat_alt)
    qed
    with dev'(4) a(1) show ?thesis by blast
  qed
  show ?thesis
    using dev'(1) rd concat_synced [OF assms(1,3)] other
    by (intro exI [of _ dev'] exI [of _ "map (synced beyond v) [0..<12]"])
      (simp only: Sdd_Sync_def fs_sync_def sync_blocks_eq [OF assms(1)] map_sum.simps id_apply case_prod_conv, blast)
qed

definition demo_drive :: storage_device where
  "demo_drive = DEV_ATA \<lparr>reg_select = 0, reg_lba_low = 0, reg_lba_mid = 0, reg_lba_high = 0, reg_sectors = 0, reg_command = 0, ready_after = 3,
     sectors = \<lambda>_. replicate 256 0\<rparr>"

theorem sync_writes_the_table_witness:
  "\<exists>dev' blks. Sdd_Sync (replicate 512 0) demo_fs demo_drive = Inr ([Print (ln ''FS Synced to Disk.'')], dev') \<and>
     fs_sync (replicate 512 0) demo_fs demo_drive = Inr ([Print (ln ''Disk Synced.'')], dev') \<and>
     map (\<lambda>i. map_option fst (read_block (100 + of_nat i) dev')) [0..<12] = map Some blks \<and>
     concat blks = to_words (storage_image demo_fs @ take 512 (replicate 512 0)) \<and>
     (\<forall>a < 2 ^ 28. a < 100 \<or> 111 < a \<longrightarrow> disk_content dev' a = disk_content demo_drive a)"
  by (rule sync_writes_the_table [OF demo_fs_inv]) (simp_all add: demo_drive_def disk_usable_def drq_in_time_def)

end
