(* ===== verification/WX_Calc.thy ===== *)
theory WX_Calc
  imports WX_Kernel "HOL-Library.Signed_Division"
begin

text \<open>
  The calculator of \<open>calc.h\<close>: operator precedence evaluation with two stacks of 40 entries, and the decimal
  printer \<open>itoa2\<close>.  A C \<open>int\<close> is an \<open>int\<close> in its 32-bit range; the additions and products wrap, as
  the i386 instructions do, and the division raises the CPU's divide error when the quotient does not fit.
  The stacks are lists with the top first; a push beyond the 40 entries is a fault.
\<close>

section \<open>Integers\<close>

definition wrap32 :: "int \<Rightarrow> int" where
  "wrap32 x = signed_take_bit 31 x"

definition int32 :: "int \<Rightarrow> bool" where
  "int32 x \<longleftrightarrow> - (2 ^ 31) \<le> x \<and> x < 2 ^ 31"

fun power_loop :: "nat \<Rightarrow> int \<Rightarrow> int \<Rightarrow> int" where
  "power_loop 0 base res = res"
| "power_loop (Suc n) base res = power_loop n base (wrap32 (res * base))"

definition power_c :: "int \<Rightarrow> int \<Rightarrow> int" where
  "power_c base ex = (if ex < 0 then 0 else power_loop (nat ex) base 1)"

text \<open>\<open>itoa2\<close>: digits from the least significant one on, the sign, the NUL, then the reversal in place.\<close>

definition char_of_int :: "int \<Rightarrow> char" where
  "char_of_int x = char_of (nat (x mod 256))"

lemma sdiv10_less: "num \<noteq> 0 \<Longrightarrow> \<bar>num sdiv 10\<bar> < \<bar>num :: int\<bar>"
  by (auto simp: signed_divide_int_def abs_mult sgn_if)

function itoa_loop :: "int \<Rightarrow> nat \<Rightarrow> char list \<Rightarrow> fault + (nat \<times> char list)" where
  "itoa_loop num i str =
     (if num \<noteq> 0 then
        bindE (put str i (char_of_int (num smod 10 + 48))) (itoa_loop (num sdiv 10) (Suc i))
      else Inr (i, str))"
  by pat_completeness auto

termination
  by (relation "measure (\<lambda>(num, i, str). nat \<bar>num\<bar>)") (auto simp: sdiv10_less)

declare itoa_loop.simps [simp del]

definition itoa2 :: "int \<Rightarrow> char list \<Rightarrow> fault + char list" where
  "itoa2 num str =
     (if num = 0 then bindE (put str 0 (CHR ''0'')) (\<lambda>str. put str 1 NUL)
      else
        let is_neg = num < 0; num = (if num < 0 then wrap32 (- num) else num) in
        bindE (itoa_loop num 0 str) (\<lambda>(i, str).
        bindE (if is_neg then bindE (put str i (CHR ''-'')) (\<lambda>str. Inr (Suc i, str)) else Inr (i, str)) (\<lambda>(i, str).
        bindE (put str i NUL) (\<lambda>str. Inr (rev (take i str) @ drop i str)))))"

section \<open>Operators\<close>

definition get_precedence :: "char \<Rightarrow> int" where
  "get_precedence op =
     (if op = CHR ''+'' \<or> op = CHR ''-'' then 1
      else if op = CHR ''*'' \<or> op = CHR ''/'' \<or> op = CHR ''%'' \<or> op = CHR ''x'' then 2
      else if op = CHR 0x5E then 3
      else if op = CHR 0x26 \<or> op = CHR 0x7C then 0
      else -1)"

text \<open>The signed division instruction: a quotient outside the range is the divide error.\<close>

definition idiv :: "(int \<Rightarrow> int \<Rightarrow> int) \<Rightarrow> int \<Rightarrow> int \<Rightarrow> fault + int" where
  "idiv f a b = (if b = 0 \<or> a sdiv b \<ge> 2 ^ 31 then Inl Divide_error else Inr (f a b))"

text \<open>The result and the value stored to \<open>*err\<close>.\<close>

definition apply_op :: "int \<Rightarrow> int \<Rightarrow> char \<Rightarrow> fault + (int \<times> nat)" where
  "apply_op a b op =
     (if op = CHR ''+'' then Inr (wrap32 (a + b), 0)
      else if op = CHR ''-'' then Inr (wrap32 (a - b), 0)
      else if op = CHR ''*'' \<or> op = CHR ''x'' then Inr (wrap32 (a * b), 0)
      else if op = CHR ''/'' then
        if b = 0 then Inr (0, 1) else map_sum id (\<lambda>q. (q, 0)) (idiv (\<lambda>a b. a sdiv b) a b)
      else if op = CHR ''%'' then
        if b = 0 then Inr (0, 2) else map_sum id (\<lambda>q. (q, 0)) (idiv (\<lambda>a b. a smod b) a b)
      else if op = CHR 0x5E then Inr (power_c a b, 0)
      else if op = CHR 0x26 then Inr (a AND b, 0)
      else if op = CHR 0x7C then Inr (a OR b, 0)
      else Inr (0, 0))"

section \<open>The command\<close>

text \<open>An early \<open>return\<close> after a message, or a fault.\<close>

datatype calc_stop = Message string | Fault fault

type_synonym calc_state = "int list \<times> char list"

definition CALC_STACK :: nat where "CALC_STACK = 40"

definition push_value :: "int \<Rightarrow> int list \<Rightarrow> calc_stop + int list" where
  "push_value v vs = (if length vs < CALC_STACK then Inr (v # vs) else Inl (Fault Out_of_bounds))"

text \<open>The body that the three loops share; \<open>pre\<close> starts the two division messages.\<close>

definition reduce_top :: "string \<Rightarrow> char \<Rightarrow> int list \<Rightarrow> calc_stop + int list" where
  "reduce_top pre op values =
     (case values of
        val2 # val1 # vs \<Rightarrow>
          (case apply_op val1 val2 op of
             Inl f \<Rightarrow> Inl (Fault f)
           | Inr (res, err) \<Rightarrow>
               if err = 1 then Inl (Message (pre @ '' Division by zero''))
               else if err = 2 then Inl (Message (pre @ '' Modulo by zero''))
               else push_value res vs)
      | _ \<Rightarrow> Inl (Message ''SHELL ERROR: Invalid syntax''))"

fun close_paren :: "int list \<Rightarrow> char list \<Rightarrow> calc_stop + calc_state" where
  "close_paren values [] = Inr (values, [])"
| "close_paren values (op # ops) =
     (if op \<noteq> CHR ''('' then bindE (reduce_top ''KERNEL PANIC:'' op values) (\<lambda>values. close_paren values ops)
      else Inr (values, ops))"

fun pop_higher :: "int \<Rightarrow> int list \<Rightarrow> char list \<Rightarrow> calc_stop + calc_state" where
  "pop_higher prec values [] = Inr (values, [])"
| "pop_higher prec values (op # ops) =
     (if prec \<le> get_precedence op
      then bindE (reduce_top ''KERNEL PANIC:'' op values) (\<lambda>values. pop_higher prec values ops)
      else Inr (values, op # ops))"

fun pop_all :: "int list \<Rightarrow> char list \<Rightarrow> calc_stop + int list" where
  "pop_all values [] = Inr values"
| "pop_all values (op # ops) = bindE (reduce_top '''' op values) (\<lambda>values. pop_all values ops)"

text \<open>\<open>ops[++ops_top] = op\<close>, and that store with the test that stands before it.\<close>

definition store_op :: "char \<Rightarrow> calc_state \<Rightarrow> calc_stop + calc_state" where
  "store_op op = (\<lambda>(values, ops).
     if length ops < CALC_STACK then Inr (values, op # ops) else Inl (Fault Out_of_bounds))"

definition push_op :: "char \<Rightarrow> calc_state \<Rightarrow> calc_stop + calc_state" where
  "push_op op = (\<lambda>(values, ops).
     if CALC_STACK \<le> length ops then Inl (Message ''SHELL ERROR: Stack overflow'')
     else store_op op (values, ops))"

definition is_dec :: "char \<Rightarrow> bool" where
  "is_dec c \<longleftrightarrow> char_int (CHR ''0'') \<le> char_int c \<and> char_int c \<le> char_int (CHR ''9'')"

fun read_number :: "int \<Rightarrow> char list \<Rightarrow> calc_stop + (int \<times> char list)" where
  "read_number val [] = Inl (Fault Out_of_bounds)"
| "read_number val (c # cs) =
     (if is_dec c then read_number (wrap32 (wrap32 (val * 10) + (char_int c - 48))) cs else Inr (val, c # cs))"

lemma read_number_length: "read_number val cs = Inr (v, r) \<Longrightarrow> length r \<le> length cs"
  by (induction val cs rule: read_number.induct) (auto split: if_splits)

function calc_loop :: "char list \<Rightarrow> calc_state \<Rightarrow> calc_stop + calc_state" where
  "calc_loop [] st = Inl (Fault Out_of_bounds)"
| "calc_loop (c # cs) (values, ops) =
     (if c = NUL then Inr (values, ops)
      else if c = CHR '' '' then calc_loop cs (values, ops)
      else if c = CHR ''('' then bindE (push_op c (values, ops)) (calc_loop cs)
      else if is_dec c then
        (case read_number 0 (c # cs) of
           Inl e \<Rightarrow> Inl e
         | Inr (val, rest) \<Rightarrow>
             if CALC_STACK \<le> length values then Inl (Message ''SHELL ERROR: Stack overflow'')
             else bindE (push_value val values) (\<lambda>values. calc_loop rest (values, ops)))
      else if c = CHR '')'' then bindE (close_paren values ops) (calc_loop cs)
      else bindE (pop_higher (get_precedence c) values ops) (\<lambda>st. bindE (push_op c st) (calc_loop cs)))"
  by pat_completeness auto

termination
  by (relation "measure (\<lambda>(cs, st). length cs)") (auto dest!: read_number_length)

declare calc_loop.simps(2) [simp del]

definition cmd_calc_handler :: "char list \<Rightarrow> fault + con list" where
  "cmd_calc_handler arg_buffer =
     bindE (get arg_buffer 0) (\<lambda>c.
       if c = NUL then Inr [Print (ln ''Usage: calc <expression> (e.g., calc (15+72)*2)'')]
       else
         case bindE (calc_loop arg_buffer ([], [])) (\<lambda>(values, ops). pop_all values ops) of
           Inl (Fault f) \<Rightarrow> Inl f
         | Inl (Message m) \<Rightarrow> Inr [Print (ln m)]
         | Inr [v] \<Rightarrow> bindE (itoa2 v (replicate 12 NUL)) (\<lambda>out. Inr [Print (cstr out), Print (ln '''')])
         | Inr _ \<Rightarrow> Inr [Print (ln ''SHELL ERROR: Invalid expression'')])"


section \<open>The reference\<close>

text \<open>Expressions, their value by the rules of C arithmetic, and how they are written.\<close>

datatype binop = Plus | Minus | Times | TimesX | Divide | Modulo | Power | Bit_and | Bit_or

datatype expr = Lit nat | Bin expr binop expr

fun op_char :: "binop \<Rightarrow> char" where
  "op_char Plus = CHR ''+''" | "op_char Minus = CHR ''-''" | "op_char Times = CHR ''*''"
| "op_char TimesX = CHR ''x''" | "op_char Divide = CHR ''/''" | "op_char Modulo = CHR ''%''"
| "op_char Power = CHR 0x5E" | "op_char Bit_and = CHR 0x26" | "op_char Bit_or = CHR 0x7C"

fun level :: "binop \<Rightarrow> int" where
  "level Plus = 1" | "level Minus = 1" | "level Times = 2" | "level TimesX = 2" | "level Divide = 2"
| "level Modulo = 2" | "level Power = 3" | "level Bit_and = 0" | "level Bit_or = 0"

text \<open>The value, \<open>None\<close> for a division by zero or a quotient that does not fit.\<close>

fun apply_ref :: "binop \<Rightarrow> int \<Rightarrow> int \<Rightarrow> int option" where
  "apply_ref Plus x y = Some (wrap32 (x + y))"
| "apply_ref Minus x y = Some (wrap32 (x - y))"
| "apply_ref Times x y = Some (wrap32 (x * y))"
| "apply_ref TimesX x y = Some (wrap32 (x * y))"
| "apply_ref Divide x y = (if y = 0 \<or> \<not> int32 (x sdiv y) then None else Some (x sdiv y))"
| "apply_ref Modulo x y = (if y = 0 \<or> \<not> int32 (x sdiv y) then None else Some (x - y * (x sdiv y)))"
| "apply_ref Power x y = Some (if y < 0 then 0 else wrap32 (x ^ nat y))"
| "apply_ref Bit_and x y = Some (x AND y)"
| "apply_ref Bit_or x y = Some (x OR y)"

fun eval :: "expr \<Rightarrow> int option" where
  "eval (Lit n) = Some (wrap32 (int n))"
| "eval (Bin l op r) = (case (eval l, eval r) of (Some x, Some y) \<Rightarrow> apply_ref op x y | _ \<Rightarrow> None)"

text \<open>Written with parentheses where the precedences ask for them; all operators associate to the left.\<close>

fun show_at :: "int \<Rightarrow> expr \<Rightarrow> string" where
  "show_at p (Lit n) = dec_str n"
| "show_at p (Bin l op r) =
     (let s = show_at (level op) l @ op_char op # show_at (level op + 1) r
      in if level op < p then CHR ''('' # s @ [CHR '')''] else s)"

text \<open>The entries of the two stacks that an expression needs.\<close>

fun values_needed :: "expr \<Rightarrow> nat" where
  "values_needed (Lit n) = 1"
| "values_needed (Bin l op r) = max (values_needed l) (1 + values_needed r)"

fun ops_needed :: "int \<Rightarrow> expr \<Rightarrow> nat" where
  "ops_needed p (Lit n) = 0"
| "ops_needed p (Bin l op r) =
     (let k = max (ops_needed (level op) l) (1 + ops_needed (level op + 1) r)
      in if level op < p then 1 + k else k)"

section \<open>The operators agree with the reference\<close>

lemma wrap32_int32: "int32 x \<Longrightarrow> wrap32 x = x"
  by (simp add: wrap32_def int32_def signed_take_bit_int_eq_self)

lemma int32_wrap32 [simp]: "int32 (wrap32 x)"
  using signed_take_bit_int_greater_eq_minus_exp [of 31 x] signed_take_bit_int_less_exp [of 31 x]
  by (simp add: wrap32_def int32_def)

lemma wrap32_idem [simp]: "wrap32 (wrap32 x) = wrap32 x"
  by (simp add: wrap32_int32)

lemma wrap32_mod: "wrap32 x = wrap32 y \<longleftrightarrow> x mod 2 ^ 32 = y mod 2 ^ 32"
  by (simp add: wrap32_def signed_take_bit_eq_iff_take_bit_eq take_bit_eq_mod)

lemma wrap32_mult: "wrap32 (wrap32 x * y) = wrap32 (x * y)"
proof -
  have "wrap32 x mod 2 ^ 32 = x mod 2 ^ 32" using wrap32_mod [of "wrap32 x" x] by simp
  then show ?thesis unfolding wrap32_mod by (metis mod_mult_left_eq)
qed

lemma wrap32_add: "wrap32 (wrap32 x + y) = wrap32 (x + y)"
proof -
  have "wrap32 x mod 2 ^ 32 = x mod 2 ^ 32" using wrap32_mod [of "wrap32 x" x] by simp
  then show ?thesis unfolding wrap32_mod by (metis mod_add_left_eq)
qed

lemma power_loop_eq: "power_loop n b (wrap32 r) = wrap32 (r * b ^ n)"
proof (induction n arbitrary: r)
  case (Suc n)
  have "power_loop (Suc n) b (wrap32 r) = power_loop n b (wrap32 (r * b))" by (simp add: wrap32_mult)
  with Suc show ?case by (simp add: mult.assoc)
qed simp

lemma power_c_eq: "power_c b e = (if e < 0 then 0 else wrap32 (b ^ nat e))"
  using power_loop_eq [of "nat e" b 1] by (simp add: power_c_def wrap32_int32 int32_def)

lemma apply_op_ref:
  assumes "apply_ref op x y = Some z" "int32 x" "int32 y"
  shows "apply_op x y (op_char op) = Inr (z, 0)"
  using assms
  by (cases op) (auto simp: apply_op_def power_c_eq idiv_def int32_def minus_mult_sdiv_eq_smod split: if_splits)

lemma get_precedence_op_char [simp]: "get_precedence (op_char op) = level op"
  by (cases op) (simp_all add: get_precedence_def)

lemma op_char_plain [simp]:
  "op_char op \<noteq> NUL" "op_char op \<noteq> CHR '' ''" "op_char op \<noteq> CHR ''(''" "op_char op \<noteq> CHR '')''" "\<not> is_dec (op_char op)"
  by (cases op; simp add: is_dec_def char_int_def)+

lemma level_range: "0 \<le> level op" "level op \<le> 3"
  by (cases op; simp)+


lemma int32_and_or: "int32 x \<Longrightarrow> int32 y \<Longrightarrow> int32 (x AND y)" "int32 x \<Longrightarrow> int32 y \<Longrightarrow> int32 (x OR y)"
proof -
  assume h: "int32 x" "int32 y"
  have "wrap32 (x AND y) = wrap32 x AND wrap32 y" "wrap32 (x OR y) = wrap32 x OR wrap32 y"
    by (auto simp: wrap32_def bit_eq_iff bit_simps)
  then have "wrap32 (x AND y) = x AND y" "wrap32 (x OR y) = x OR y"
    using wrap32_int32 [OF h(1)] wrap32_int32 [OF h(2)] by simp_all
  then show "int32 (x AND y)" "int32 (x OR y)" using int32_wrap32 [of "x AND y"] int32_wrap32 [of "x OR y"] by simp_all
qed

lemma mod_abs_bounds: "0 \<le> (a :: int) \<Longrightarrow> 0 \<le> a mod \<bar>y\<bar>" "0 \<le> (a :: int) \<Longrightarrow> a mod \<bar>y\<bar> \<le> a"
  by (cases "y = 0"; simp add: zmod_le_nonneg_dividend)+

lemma int32_smod: "int32 x \<Longrightarrow> int32 (x smod y)"
proof -
  assume h: "int32 x"
  have "0 \<le> x \<Longrightarrow> 0 \<le> x smod y \<and> x smod y \<le> x" "x < 0 \<Longrightarrow> x \<le> x smod y \<and> x smod y \<le> 0"
    using mod_abs_bounds [of x y] mod_abs_bounds [of "- x" y] by (auto simp: signed_modulo_int_def sgn_if)
  with h show ?thesis by (cases "0 \<le> x") (auto simp: int32_def)
qed

lemma apply_ref_int32: "apply_ref op x y = Some z \<Longrightarrow> int32 x \<Longrightarrow> int32 y \<Longrightarrow> int32 z"
  by (cases op) (auto simp: minus_mult_sdiv_eq_smod int32_smod int32_and_or split: if_splits, auto simp: int32_def)

lemma eval_int32: "eval e = Some z \<Longrightarrow> int32 z"
  by (induction e arbitrary: z) (auto simp: apply_ref_int32 split: option.splits)

section \<open>Reading a written expression\<close>

lemma calc_loop_NUL [simp]: "calc_loop (NUL # cs) st = Inr st"
  by (cases st) (simp add: calc_loop.simps)

lemma is_dec_digit [simp]: "d < 10 \<Longrightarrow> is_dec (digit d)"
  by (simp add: is_dec_def char_int_digit) (simp add: char_int_def)

lemma read_number_snoc:
  "list_all is_dec ds \<Longrightarrow> \<not> is_dec c \<Longrightarrow>
   read_number v (ds @ c # cs) =
     Inr (foldl (\<lambda>v d. wrap32 (wrap32 (v * 10) + (char_int d - 48))) v ds, c # cs)"
  by (induction ds arbitrary: v) auto

lemma is_dec_dec_str: "list_all is_dec (dec_str n)"
  using dec_str_digits [of n] by (auto simp: list_all_iff is_digit_def is_dec_def char_int_def)

lemma foldl_dec: "foldl (\<lambda>v d. wrap32 (wrap32 (v * 10) + (char_int d - 48))) 0 (dec_str n) = wrap32 (int n)"
proof (induction n rule: dec_str.induct)
  case (1 n)
  show ?case
  proof (cases "n < 10")
    case True
    then show ?thesis by (subst dec_str.simps) (simp add: char_int_digit wrap32_int32 int32_def)
  next
    case False
    have "wrap32 (wrap32 (wrap32 (int (n div 10)) * 10) + int (n mod 10)) = wrap32 (int n)"
      unfolding wrap32_add wrap32_mult
      using wrap32_add [of "int (n div 10) * 10" "int (n mod 10)"] wrap32_mult [of "int (n div 10)" 10]
      by (metis div_mult_mod_eq of_nat_add of_nat_mult of_nat_numeral wrap32_add wrap32_mult)
    with 1 False show ?thesis by (subst dec_str.simps) (simp add: char_int_digit)
  qed
qed

lemma calc_loop_number:
  assumes "\<not> is_dec c" "length vs < 40"
  shows "calc_loop (dec_str n @ c # cs) (vs, os) = calc_loop (c # cs) (wrap32 (int n) # vs, os)"
proof -
  obtain d ds where d: "dec_str n = d # ds" by (cases "dec_str n") auto
  have "is_dec d" using is_dec_dec_str [of n] d by simp
  moreover have "d \<noteq> NUL" "d \<noteq> CHR '' ''" "d \<noteq> CHR ''(''" using calculation by (auto simp: is_dec_def char_int_def)
  moreover have "read_number 0 (d # ds @ c # cs) = Inr (wrap32 (int n), c # cs)"
    using read_number_snoc [OF is_dec_dec_str assms(1), of 0 n] foldl_dec [of n] d by simp
  ultimately show ?thesis
    using assms(2) d by (simp add: calc_loop.simps push_value_def CALC_STACK_def)
qed


text \<open>Every entry of the operator stack is an operator or an opening parenthesis.\<close>

definition op_stack :: "char list \<Rightarrow> bool" where
  "op_stack os \<longleftrightarrow> (\<forall>c \<in> set os. c = CHR ''('' \<or> (\<exists>op. c = op_char op))"

lemma op_stack_simps [simp]:
  "op_stack []" "op_stack (c # os) \<longleftrightarrow> (c = CHR ''('' \<or> (\<exists>op. c = op_char op)) \<and> op_stack os"
  by (auto simp: op_stack_def)

lemma paren_precedence [simp]: "get_precedence (CHR ''('') = -1"
  by (simp add: get_precedence_def)

lemma close_paren_pop_higher:
  assumes "op_stack os" "pop_higher 0 vs os = Inr (vs', CHR ''('' # os')"
  shows "close_paren vs os = Inr (vs', os')"
  using assms
proof (induction os arbitrary: vs)
  case (Cons c os)
  show ?case
  proof (cases "c = CHR ''(''")
    case True
    with Cons.prems show ?thesis by simp
  next
    case False
    with Cons.prems(1) obtain op where c: "c = op_char op" by auto
    with Cons.prems(2) level_range(1) [of op] obtain vs1 where
      "reduce_top ''KERNEL PANIC:'' c vs = Inr vs1" "pop_higher 0 vs1 os = Inr (vs', CHR ''('' # os')"
      by (auto simp: bindE_eq_Inr)
    with Cons False show ?thesis by simp
  qed
qed simp

lemma reduce_top_pre: "reduce_top pre op vs = Inr vs' \<Longrightarrow> reduce_top pre' op vs = Inr vs'"
  by (auto simp: reduce_top_def split: list.splits sum.splits prod.splits if_splits)

lemma pop_all_pop_higher:
  assumes "op_stack os" "pop_higher 0 vs os = Inr (vs', [])"
  shows "pop_all vs os = Inr vs'"
  using assms
proof (induction os arbitrary: vs)
  case (Cons c os)
  show ?case
  proof (cases "c = CHR ''(''")
    case True
    with Cons.prems show ?thesis by simp
  next
    case False
    with Cons.prems(1) obtain op where c: "c = op_char op" by auto
    with Cons.prems(2) level_range(1) [of op] obtain vs1 where
      r: "reduce_top ''KERNEL PANIC:'' c vs = Inr vs1" "pop_higher 0 vs1 os = Inr (vs', [])"
      by (auto simp: bindE_eq_Inr)
    from reduce_top_pre [OF r(1)] r(2) Cons show ?thesis by simp
  qed
qed simp

text \<open>The operator on top, if any, is of a lower level than \<open>p\<close>, so nothing is popped.\<close>

definition low :: "int \<Rightarrow> char list \<Rightarrow> bool" where
  "low p os \<longleftrightarrow> (case os of [] \<Rightarrow> True | c # _ \<Rightarrow> get_precedence c < p)"

lemma pop_higher_low: "low p os \<Longrightarrow> pop_higher p vs os = Inr (vs, os)"
  by (cases os) (auto simp: low_def)

lemma low_mono: "low p os \<Longrightarrow> p \<le> q \<Longrightarrow> low q os"
  by (auto simp: low_def split: list.splits)

lemma reduce_top_op:
  assumes "apply_ref op x y = Some z" "int32 x" "int32 y" "length vs < 40"
  shows "reduce_top pre (op_char op) (y # x # vs) = Inr (z # vs)"
  using apply_op_ref [OF assms(1-3)] assms(4) by (simp add: reduce_top_def push_value_def CALC_STACK_def)

text \<open>
  Reading an expression leaves stacks that every later reduction of a level up to \<open>p\<close> turns into what it
  would be with the value already there: the induction over expressions.
\<close>

definition reads :: "expr \<Rightarrow> bool" where
  "reads e \<longleftrightarrow>
     (\<forall>z vs os p c cs. eval e = Some z \<longrightarrow> length vs + values_needed e \<le> 40 \<longrightarrow> length os + ops_needed p e \<le> 40 \<longrightarrow>
        op_stack os \<longrightarrow> low p os \<longrightarrow> 0 \<le> p \<longrightarrow> \<not> is_dec c \<longrightarrow>
        (\<exists>vs' os'. calc_loop (show_at p e @ c # cs) (vs, os) = calc_loop (c # cs) (vs', os') \<and> op_stack os' \<and>
           (\<forall>q. 0 \<le> q \<longrightarrow> q \<le> p \<longrightarrow> pop_higher q vs' os' = pop_higher q (z # vs) os)))"

lemma readsE:
  assumes "reads e" "eval e = Some z" "length vs + values_needed e \<le> 40" "length os + ops_needed p e \<le> 40"
    "op_stack os" "low p os" "0 \<le> p" "\<not> is_dec c"
  obtains vs' os' where "calc_loop (show_at p e @ c # cs) (vs, os) = calc_loop (c # cs) (vs', os')" "op_stack os'"
    "\<forall>q. 0 \<le> q \<longrightarrow> q \<le> p \<longrightarrow> pop_higher q vs' os' = pop_higher q (z # vs) os"
  using assms unfolding reads_def by blast

text \<open>Two expressions with an operator between them, where no operator above it in the stack binds tighter.\<close>

lemma reads_operands:
  assumes IH: "reads l" "reads r" and xy: "eval l = Some x" "eval r = Some y" "apply_ref op x y = Some z"
    and v: "length vs + values_needed (Bin l op r) \<le> 40"
    and o: "length os + max (ops_needed (level op) l) (1 + ops_needed (level op + 1) r) \<le> 40"
    and st: "op_stack os" "low (level op) os" "\<not> is_dec c"
  obtains vs' os' where
    "calc_loop (show_at (level op) l @ op_char op # show_at (level op + 1) r @ c # cs) (vs, os) = calc_loop (c # cs) (vs', os')"
    "op_stack os'" "\<forall>q. 0 \<le> q \<longrightarrow> q \<le> level op \<longrightarrow> pop_higher q vs' os' = pop_higher q (z # vs) os"
proof -
  let ?rest = "show_at (level op + 1) r @ c # cs"
  have n: "length vs + values_needed l \<le> 40" "length (x # vs) + values_needed r \<le> 40"
    "length os + ops_needed (level op) l \<le> 40" "length (op_char op # os) + ops_needed (level op + 1) r \<le> 40"
    using v o by simp_all
  obtain vs1 os1 where
    1: "calc_loop (show_at (level op) l @ op_char op # ?rest) (vs, os) = calc_loop (op_char op # ?rest) (vs1, os1)"
      "op_stack os1" "\<forall>q. 0 \<le> q \<longrightarrow> q \<le> level op \<longrightarrow> pop_higher q vs1 os1 = pop_higher q (x # vs) os"
    by (rule readsE [where cs = ?rest, OF IH(1) xy(1) n(1,3) st(1,2) level_range(1) op_char_plain(5) [of op]])
  then have p1: "pop_higher (level op) vs1 os1 = Inr (x # vs, os)"
    using level_range(1) [of op] pop_higher_low [OF st(2)] by simp
  have push: "calc_loop (op_char op # ?rest) (vs1, os1) = calc_loop ?rest (x # vs, op_char op # os)"
    using p1 n(4) by (simp add: calc_loop.simps push_op_def store_op_def CALC_STACK_def)
  have top: "op_stack (op_char op # os)" "low (level op + 1) (op_char op # os)" "0 \<le> level op + 1"
    using st(1) level_range(1) [of op] by (auto simp: low_def)
  obtain vs2 os2 where
    2: "calc_loop ?rest (x # vs, op_char op # os) = calc_loop (c # cs) (vs2, os2)" "op_stack os2"
      "\<forall>q. 0 \<le> q \<longrightarrow> q \<le> level op + 1 \<longrightarrow> pop_higher q vs2 os2 = pop_higher q (y # x # vs) (op_char op # os)"
    by (rule readsE [where cs = cs, OF IH(2) xy(2) n(2,4) top st(3)])
  have "pop_higher q (y # x # vs) (op_char op # os) = pop_higher q (z # vs) os" if "q \<le> level op" for q
    using that reduce_top_op [OF xy(3) eval_int32 [OF xy(1)] eval_int32 [OF xy(2)]] v by simp
  with 1(1) push 2 show thesis by (intro that [of vs2 os2]) auto
qed

lemma reads_all: "reads e"
proof (induction e)
  case (Lit n)
  show ?case unfolding reads_def
  proof (intro allI impI)
    fix z and vs :: "int list" and os p c cs
    assume "eval (Lit n) = Some z" "length vs + values_needed (Lit n) \<le> 40" "op_stack os" "\<not> is_dec c"
    then show "\<exists>vs' os'. calc_loop (show_at p (Lit n) @ c # cs) (vs, os) = calc_loop (c # cs) (vs', os') \<and> op_stack os' \<and>
        (\<forall>q. 0 \<le> q \<longrightarrow> q \<le> p \<longrightarrow> pop_higher q vs' os' = pop_higher q (z # vs) os)"
      using calc_loop_number [of c vs n cs os] by (intro exI [of _ "z # vs"] exI [of _ os]) simp
  qed
next
  case (Bin l op r)
  show ?case unfolding reads_def
  proof (intro allI impI)
    fix z and vs :: "int list" and os p c cs
    assume e: "eval (Bin l op r) = Some z" and n: "length vs + values_needed (Bin l op r) \<le> 40" "length os + ops_needed p (Bin l op r) \<le> 40"
      and st: "op_stack os" "low p os" "0 \<le> p" "\<not> is_dec c"
    from e obtain x y where xy: "eval l = Some x" "eval r = Some y" "apply_ref op x y = Some z" by (auto split: option.splits)
    show "\<exists>vs' os'. calc_loop (show_at p (Bin l op r) @ c # cs) (vs, os) = calc_loop (c # cs) (vs', os') \<and> op_stack os' \<and>
        (\<forall>q. 0 \<le> q \<longrightarrow> q \<le> p \<longrightarrow> pop_higher q vs' os' = pop_higher q (z # vs) os)"
    proof (cases "level op < p")
      case False
      then have l: "p \<le> level op" "low (level op) os" using st(2) by (auto intro: low_mono)
      have "length os + max (ops_needed (level op) l) (1 + ops_needed (level op + 1) r) \<le> 40"
        using n(2) False by (simp add: Let_def)
      from reads_operands [OF Bin.IH xy n(1) this st(1) l(2) st(4), where cs = cs] False l(1) show ?thesis
        by (simp add: Let_def) (metis order_trans)
    next
      case True
      let ?os = "CHR ''('' # os"
      have o: "low (level op) ?os" "length ?os + max (ops_needed (level op) l) (1 + ops_needed (level op + 1) r) \<le> 40" "op_stack ?os"
        "\<not> is_dec (CHR '')'')"
        using level_range(1) [of op] n st True by (auto simp: low_def Let_def is_dec_def char_int_def)
      obtain vs1 os1 where
        1: "calc_loop (show_at (level op) l @ op_char op # show_at (level op + 1) r @ CHR '')'' # c # cs) (vs, ?os)
            = calc_loop (CHR '')'' # c # cs) (vs1, os1)" "op_stack os1"
          "\<forall>q. 0 \<le> q \<longrightarrow> q \<le> level op \<longrightarrow> pop_higher q vs1 os1 = pop_higher q (z # vs) ?os"
        by (rule reads_operands [where cs = "c # cs", OF Bin.IH xy n(1) o(2,3,1,4)])
      have "pop_higher 0 vs1 os1 = Inr (z # vs, ?os)" using 1(3) level_range(1) [of op] by simp
      from close_paren_pop_higher [OF 1(2) this]
      have "calc_loop (CHR '')'' # c # cs) (vs1, os1) = calc_loop (c # cs) (z # vs, os)"
        by (simp add: calc_loop.simps is_dec_def char_int_def)
      moreover have "calc_loop (CHR ''('' # w) (vs, os) = calc_loop w (vs, ?os)" for w
        using n(2) True by (simp add: calc_loop.simps push_op_def store_op_def CALC_STACK_def Let_def)
      ultimately show ?thesis using True 1(1) st(1)
        by (intro exI [of _ "z # vs"] exI [of _ os]) (simp add: Let_def)
    qed
  qed
qed

lemma calc_loop_expr:
  assumes "eval e = Some z" "length vs + values_needed e \<le> 40" "length os + ops_needed p e \<le> 40"
    "op_stack os" "low p os" "0 \<le> p" "\<not> is_dec c"
  shows "\<exists>vs' os'. calc_loop (show_at p e @ c # cs) (vs, os) = calc_loop (c # cs) (vs', os') \<and> op_stack os' \<and>
     (\<forall>q. 0 \<le> q \<longrightarrow> q \<le> p \<longrightarrow> pop_higher q vs' os' = pop_higher q (z # vs) os)"
  using reads_all [of e] assms unfolding reads_def by blast


section \<open>The decimal printer\<close>

lemma char_of_int_digit: "0 \<le> d \<Longrightarrow> d < 10 \<Longrightarrow> char_of_int (d + 48) = digit (nat d)"
  by (simp add: char_of_int_def digit_def nat_add_distrib add.commute)

lemma smod_div_10: "int n smod 10 = int (n mod 10)" "int n sdiv 10 = int (n div 10)"
  by (auto simp: signed_modulo_int_def signed_divide_int_def sgn_if zmod_int zdiv_int)

lemma itoa_loop_eq:
  "0 < n \<Longrightarrow> i + length (dec_str n) \<le> length str \<Longrightarrow>
   itoa_loop (int n) i str =
     Inr (i + length (dec_str n), take i str @ rev (dec_str n) @ drop (i + length (dec_str n)) str)"
proof (induction n arbitrary: i str rule: less_induct)
  case (less n)
  let ?str = "str[i := digit (n mod 10)]"
  have c: "char_of_int (int n smod 10 + 48) = digit (n mod 10)"
    using char_of_int_digit [of "int (n mod 10)"] by (simp add: smod_div_10)
  have dec: "dec_str n = (if n < 10 then [] else dec_str (n div 10)) @ [digit (n mod 10)]"
    by (subst dec_str.simps) simp
  have i: "i < length str" using less.prems by (subst (asm) dec) (simp split: if_splits)
  have step: "itoa_loop (int n) i str = itoa_loop (int (n div 10)) (Suc i) ?str"
    using less.prems(1) i c by (subst itoa_loop.simps) (simp add: smod_div_10)
  show ?case
  proof (cases "n < 10")
    case True
    then show ?thesis unfolding step
      using i by (subst itoa_loop.simps) (simp add: dec take_Suc_conv_app_nth list_update_append upd_conv_take_nth_drop)
  next
    case False
    then have "Suc i + length (dec_str (n div 10)) \<le> length ?str" using less.prems(2) by (subst (asm) dec) simp
    with less.IH [of "n div 10" "Suc i" ?str] False show ?thesis unfolding step
      using i by (simp add: dec take_Suc_conv_app_nth upd_conv_take_nth_drop add.commute)
  qed
qed

definition int_str :: "int \<Rightarrow> string" where
  "int_str x = (if x < 0 then CHR ''-'' # dec_str (nat (- x)) else dec_str (nat x))"

lemma nul_free_int_str [simp]: "nul_free (int_str x)"
  by (simp add: int_str_def)

text \<open>\<open>itoa2\<close> writes the decimal notation of every \<open>int\<close> but the least.\<close>

lemma itoa2_eq:
  assumes "int32 x" "x \<noteq> - (2 ^ 31)" "length str = 12"
  shows "\<exists>b. itoa2 x str = Inr b \<and> length b = 12 \<and> terminated b \<and> cstr b = int_str x"
proof (cases "x = 0")
  case True
  from assms(3) obtain a b r where "str = a # b # r" by (auto simp: length_Suc_conv numeral_eq_Suc)
  with True assms(3) show ?thesis by (simp add: itoa2_def int_str_def put_def)
next
  case False
  define n where "n = nat \<bar>x\<bar>"
  have n: "0 < n" "int n = (if x < 0 then wrap32 (- x) else x)" "n < 10 ^ 10"
    using False assms(1,2) by (auto simp: n_def int32_def wrap32_int32)
  have len: "length (dec_str n) \<le> 10" using length_dec_str [OF n(3)] by simp
  let ?d = "dec_str n"
  let ?s = "rev ?d @ drop (length ?d) str"
  have loop: "itoa_loop (int n) 0 str = Inr (length ?d, ?s)"
    using itoa_loop_eq [of n 0 str] n(1) len assms(3) by simp
  show ?thesis
  proof (cases "x < 0")
    case True
    obtain a b r where r: "drop (length ?d) str = a # b # r"
      using len assms(3) by (cases "drop (length ?d) str"; cases "tl (drop (length ?d) str)")
        (auto dest: arg_cong [of _ _ length])
    have lr: "length r + length ?d = 10" using r len assms(3) by (auto dest: arg_cong [of _ _ length])
    have s: "int_str x = CHR ''-'' # ?d" using True by (simp add: int_str_def n_def)
    have "itoa2 x str = Inr (int_str x @ NUL # r)"
      unfolding s using False True loop n(2) r by (simp add: itoa2_def put_def Let_def list_update_append)
    then show ?thesis using lr by (simp add: s)
  next
    case f: False
    obtain a r where r: "drop (length ?d) str = a # r"
      using len assms(3) by (cases "drop (length ?d) str") (auto dest: arg_cong [of _ _ length])
    have lr: "length r + length ?d = 11" using r len assms(3) by (auto dest: arg_cong [of _ _ length])
    have s: "int_str x = ?d" using f by (simp add: int_str_def n_def)
    have "itoa2 x str = Inr (int_str x @ NUL # r)"
      unfolding s using False f loop n(2) r by (simp add: itoa2_def put_def Let_def list_update_append)
    then show ?thesis using lr by (simp add: s)
  qed
qed

text \<open>The least \<open>int\<close> is its own negation, so its remainders are negative and the digits are other characters.\<close>

lemma itoa2_least: "itoa2 (- (2 ^ 31)) (replicate 12 NUL) = Inr (''-./,),(-*,('' @ [NUL])"
  by code_simp


section \<open>The calculator computes expressions\<close>

lemma show_at_head: "\<exists>c s. show_at p e = c # s \<and> c \<noteq> NUL"
proof (induction e arbitrary: p)
  case (Lit n)
  obtain c s where d: "dec_str n = c # s" by (cases "dec_str n") auto
  then have "nul_free (c # s)" using nul_free_dec_str [of n] by simp
  with d show ?case by auto
next
  case (Bin l op r)
  from Bin.IH(1) [of "level op"] show ?case by (auto simp: Let_def)
qed

text \<open>
  C19: on the written form of an expression whose value exists (no division by zero, no quotient out of range)
  and that needs at most 40 entries of each stack, \<open>calc\<close> prints the decimal notation of that value, the least
  \<open>int\<close> aside: the two-stack algorithm computes the reference evaluation of the tree.
\<close>
theorem calc_evaluates_expressions:
  assumes "eval e = Some z" "z \<noteq> - (2 ^ 31)" "values_needed e \<le> 40" "ops_needed 0 e \<le> 40"
  shows "cmd_calc_handler (show_at 0 e @ NUL # r) = Inr [Print (int_str z), Print (ln '''')]"
proof -
  have "\<not> is_dec NUL" by (simp add: is_dec_def char_int_def)
  with calc_loop_expr [of e z "[]" "[]" 0 NUL r] assms obtain vs os where
    1: "calc_loop (show_at 0 e @ NUL # r) ([], []) = Inr (vs, os)" "op_stack os"
      "pop_higher 0 vs os = Inr ([z], [])" by (auto simp: low_def)
  from pop_all_pop_higher [OF 1(2,3)] have "pop_all vs os = Inr [z]" .
  moreover from itoa2_eq [OF eval_int32 [OF assms(1)] assms(2), of "replicate 12 NUL"] obtain b where
    "itoa2 z (replicate 12 NUL) = Inr b" "cstr b = int_str z" by auto
  moreover obtain c s where "show_at 0 e = c # s" "c \<noteq> NUL" using show_at_head by blast
  ultimately show ?thesis using 1(1) by (simp add: cmd_calc_handler_def)
qed

theorem calc_evaluates_expressions_witness:
  "cmd_calc_handler (''(15+72)*2-7'' @ [NUL]) = Inr [Print ''167'', Print (ln '''')]"
proof -
  let ?e = "Bin (Bin (Bin (Lit 15) Plus (Lit 72)) Times (Lit 2)) Minus (Lit 7)"
  have "show_at 0 ?e = ''(15+72)*2-7''" by code_simp
  moreover have "int_str 167 = ''167''" by code_simp
  moreover have "eval ?e = Some 167" by (simp add: wrap32_def signed_take_bit_int_eq_self)
  ultimately show ?thesis using calc_evaluates_expressions [of ?e 167 "[]"] by simp
qed

section \<open>Bounds\<close>

definition stacks_ok :: "int list \<Rightarrow> char list \<Rightarrow> bool" where
  "stacks_ok vs os \<longleftrightarrow> length vs \<le> 40 \<and> length os \<le> 40 \<and> (\<forall>v \<in> set vs. int32 v)"

definition stop_ok :: "calc_stop \<Rightarrow> bool" where
  "stop_ok s \<longleftrightarrow> (case s of Message m \<Rightarrow> True | Fault f \<Rightarrow> f = Divide_error)"

lemma idiv_cases: "int32 a \<Longrightarrow> int32 b \<Longrightarrow> b \<noteq> 0 \<Longrightarrow>
    idiv f a b = Inl Divide_error \<or> idiv f a b = Inr (f a b) \<and> a sdiv b < 2 ^ 31"
  by (auto simp: idiv_def)

lemma sdiv_lower: "int32 a \<Longrightarrow> - (2 ^ 31) \<le> a sdiv b"
proof -
  assume h: "int32 a"
  have "0 \<le> \<bar>a\<bar> div \<bar>b\<bar>" "\<bar>a\<bar> div \<bar>b\<bar> \<le> \<bar>a\<bar>"
    using zdiv_mono2 [of "\<bar>a\<bar>" 1 "\<bar>b\<bar>"] by (cases "b = 0"; simp add: pos_imp_zdiv_nonneg_iff)+
  then have "- \<bar>a\<bar> \<le> a sdiv b \<and> (0 \<le> a \<longrightarrow> - a \<le> a sdiv b)" by (auto simp: signed_divide_int_def sgn_if)
  with h show ?thesis by (auto simp: int32_def)
qed

lemma apply_op_int32:
  assumes "int32 a" "int32 b"
  shows "apply_op a b op = Inl Divide_error \<or> (\<exists>res err. apply_op a b op = Inr (res, err) \<and> int32 res)"
proof -
  have 0: "int32 0" by (simp add: int32_def)
  have d: "int32 (a sdiv b)" if "a sdiv b < 2 ^ 31" using that sdiv_lower [OF assms(1)] by (simp add: int32_def)
  consider "op = CHR ''/''" | "op = CHR ''%''" | "op \<noteq> CHR ''/''" "op \<noteq> CHR ''%''" by blast
  then show ?thesis
  proof cases
    case 1
    then show ?thesis
      using 0 d idiv_cases [OF assms, of "\<lambda>a b. a sdiv b"] by (cases "b = 0") (auto simp: apply_op_def)
  next
    case 2
    then show ?thesis
      using 0 int32_smod [OF assms(1), of b] idiv_cases [OF assms, of "\<lambda>a b. a smod b"]
      by (cases "b = 0") (auto simp: apply_op_def)
  next
    case 3
    then show ?thesis using 0 int32_and_or [OF assms] by (simp add: apply_op_def power_c_eq)
  qed
qed

lemma reduce_top_ok:
  assumes "stacks_ok vs (op # os)"
  shows "(\<exists>e. reduce_top pre op vs = Inl e \<and> stop_ok e) \<or> (\<exists>vs'. reduce_top pre op vs = Inr vs' \<and> stacks_ok vs' os)"
proof (cases vs)
  case (Cons b ws)
  show ?thesis
  proof (cases ws)
    case (Cons a us)
    with \<open>vs = b # ws\<close> assms have ab: "int32 a" "int32 b" "stacks_ok us os" "length us \<le> 38"
      by (auto simp: stacks_ok_def)
    have v: "vs = b # a # us" using \<open>vs = b # ws\<close> Cons by simp
    from apply_op_int32 [OF ab(1,2), of op] show ?thesis
    proof
      assume "\<exists>res err. apply_op a b op = Inr (res, err) \<and> int32 res"
      then obtain res err where r: "apply_op a b op = Inr (res, err)" "int32 res" by blast
      with ab have "push_value res us = Inr (res # us)" "stacks_ok (res # us) os"
        by (simp_all add: push_value_def CALC_STACK_def stacks_ok_def)
      with r v show ?thesis by (cases "err = 1"; cases "err = 2") (simp_all add: reduce_top_def stop_ok_def)
    qed (simp add: reduce_top_def stop_ok_def v)
  qed (simp add: reduce_top_def stop_ok_def \<open>vs = b # ws\<close>)
qed (simp add: reduce_top_def stop_ok_def)

definition res_ok :: "calc_stop + calc_state \<Rightarrow> bool" where
  "res_ok r \<longleftrightarrow> (case r of Inl e \<Rightarrow> stop_ok e | Inr (vs, os) \<Rightarrow> stacks_ok vs os)"

lemma res_ok_simps [simp]: "res_ok (Inl e) = stop_ok e" "res_ok (Inr (vs, os)) = stacks_ok vs os"
  by (simp_all add: res_ok_def)

lemma res_ok_bind: "res_ok m \<Longrightarrow> (\<And>vs os. m = Inr (vs, os) \<Longrightarrow> stacks_ok vs os \<Longrightarrow> res_ok (f (vs, os))) \<Longrightarrow> res_ok (bindE m f)"
  by (cases m) auto

lemma stacks_ok_tail: "stacks_ok vs (op # os) \<Longrightarrow> stacks_ok vs os"
  by (simp add: stacks_ok_def)

lemma close_paren_ok: "stacks_ok vs os \<Longrightarrow> res_ok (close_paren vs os)"
proof (induction os arbitrary: vs)
  case (Cons op os)
  from reduce_top_ok [OF Cons.prems, of "''KERNEL PANIC:''"] show ?case
    using stacks_ok_tail [OF Cons.prems] Cons.IH by (cases "op = CHR ''(''") auto
qed simp

lemma pop_higher_ok: "stacks_ok vs os \<Longrightarrow> res_ok (pop_higher p vs os)"
proof (induction os arbitrary: vs)
  case (Cons op os)
  from reduce_top_ok [OF Cons.prems, of "''KERNEL PANIC:''"] show ?case using Cons by auto
qed simp

lemma pop_all_ok:
  "stacks_ok vs os \<Longrightarrow> (\<exists>e. pop_all vs os = Inl e \<and> stop_ok e) \<or> (\<exists>ws. pop_all vs os = Inr ws \<and> (\<forall>v \<in> set ws. int32 v))"
proof (induction os arbitrary: vs)
  case (Cons op os)
  from reduce_top_ok [OF Cons.prems, of "''''"] show ?case
  proof
    assume "\<exists>ws. reduce_top '''' op vs = Inr ws \<and> stacks_ok ws os"
    then obtain ws where "reduce_top '''' op vs = Inr ws" "stacks_ok ws os" by blast
    with Cons.IH [of ws] show ?thesis by simp
  qed auto
qed (simp add: stacks_ok_def)

lemma push_op_ok: "stacks_ok vs os \<Longrightarrow> res_ok (push_op c (vs, os))"
  by (auto simp: push_op_def store_op_def stacks_ok_def stop_ok_def CALC_STACK_def)

lemma read_number_ok:
  "terminated cs \<Longrightarrow> int32 v \<Longrightarrow> \<exists>val r. read_number v cs = Inr (val, r) \<and> int32 val \<and> terminated r"
proof (induction v cs rule: read_number.induct)
  case (2 v c cs)
  have "\<not> is_dec NUL" by (simp add: is_dec_def char_int_def)
  with 2 show ?case by (cases "is_dec c") auto
qed simp

lemma calc_loop_ok: "terminated cs \<Longrightarrow> stacks_ok vs os \<Longrightarrow> res_ok (calc_loop cs (vs, os))"
proof (induction cs "(vs, os)" arbitrary: vs os rule: calc_loop.induct)
  case (2 c cs vs os)
  have 0: "int32 0" by (simp add: int32_def)
  note IH = 2(1-6)
  show ?case
  proof (cases "c = NUL")
    case False
    with "2.prems"(1) have t: "terminated cs" by simp
    show ?thesis
    proof (cases "is_dec c \<and> c \<noteq> CHR '' '' \<and> c \<noteq> CHR ''(''")
      case True
      from read_number_ok [OF "2.prems"(1) 0] obtain val r where
        r: "read_number 0 (c # cs) = Inr (val, r)" "int32 val" "terminated r" by blast
      show ?thesis
      proof (cases "length vs < 40")
        case True
        have "stacks_ok (val # vs) os" using True r(2) "2.prems"(2) by (simp add: stacks_ok_def)
        then have "res_ok (calc_loop r (val # vs, os))"
          using \<open>c \<noteq> NUL\<close> \<open>is_dec c \<and> _\<close> r True
          by (intro IH(3) [of "(val, r)" val r]) (auto simp: push_value_def CALC_STACK_def)
        then show ?thesis
          using \<open>c \<noteq> NUL\<close> \<open>is_dec c \<and> _\<close> r True by (simp add: calc_loop.simps push_value_def CALC_STACK_def)
      qed (use \<open>c \<noteq> NUL\<close> \<open>is_dec c \<and> _\<close> r in \<open>simp add: calc_loop.simps CALC_STACK_def stop_ok_def\<close>)
    next
      case False
      then consider "c = CHR '' ''" | "c = CHR ''(''" | "c = CHR '')''" "\<not> is_dec c"
        | "c \<noteq> CHR '' ''" "c \<noteq> CHR ''(''" "c \<noteq> CHR '')''" "\<not> is_dec c" by blast
      then show ?thesis
      proof cases
        case 1
        with IH(1) t "2.prems"(2) show ?thesis by (simp add: calc_loop.simps)
      next
        case 2
        with IH(2) t "2.prems"(2) show ?thesis
          by (simp add: calc_loop.simps) (rule res_ok_bind [OF push_op_ok], auto)
      next
        case 3
        then have "res_ok (bindE (close_paren vs os) (calc_loop cs))"
          using IH(4) t \<open>c \<noteq> NUL\<close> "2.prems"(2) by (intro res_ok_bind [OF close_paren_ok]) auto
        with 3 show ?thesis by (simp add: calc_loop.simps)
      next
        case 4
        then have "res_ok (bindE (pop_higher (get_precedence c) vs os) (\<lambda>st. bindE (push_op c st) (calc_loop cs)))"
          using IH(5) t \<open>c \<noteq> NUL\<close> "2.prems"(2)
          by (intro res_ok_bind [OF pop_higher_ok] res_ok_bind [OF push_op_ok]) auto
        with 4 \<open>c \<noteq> NUL\<close> show ?thesis by (simp add: calc_loop.simps)
      qed
    qed
  qed (use "2.prems" in simp)
qed simp


lemma itoa2_fits: "int32 x \<Longrightarrow> \<exists>b. itoa2 x (replicate 12 NUL) = Inr b"
  using itoa2_eq [of x "replicate 12 NUL"] itoa2_least by (cases "x = - (2 ^ 31)") auto

text \<open>
  C20: on any typed line, well formed or not, \<open>calc\<close> keeps within its two stacks of 40 entries, the
  line and the 12-byte number buffer, and returns with a message or a result; the only other outcome is the
  CPU's divide error, which dividing the least \<open>int\<close> by -1 does raise.
\<close>
theorem calc_stays_in_bounds:
  assumes "terminated buf"
  shows "(\<exists>out. cmd_calc_handler buf = Inr out) \<or> cmd_calc_handler buf = Inl Divide_error"
proof (cases "buf ! 0 = NUL")
  case False
  have l: "0 < length buf" using assms by (cases buf) auto
  have z: "stacks_ok [] []" by (simp add: stacks_ok_def)
  let ?m = "bindE (calc_loop buf ([], [])) (\<lambda>(vs, os). pop_all vs os)"
  have "(\<exists>e. ?m = Inl e \<and> stop_ok e) \<or> (\<exists>ws. ?m = Inr ws \<and> (\<forall>v \<in> set ws. int32 v))"
  proof (cases "calc_loop buf ([], [])")
    case (Inr st)
    obtain vs os where "st = (vs, os)" by (cases st)
    with Inr pop_all_ok [of vs os] calc_loop_ok [OF assms z] show ?thesis by simp
  qed (use calc_loop_ok [OF assms z] in simp)
  then show ?thesis
  proof
    assume "\<exists>e. ?m = Inl e \<and> stop_ok e"
    then obtain e where "?m = Inl e" "stop_ok e" by blast
    then show ?thesis using False l by (cases e) (simp_all add: cmd_calc_handler_def stop_ok_def)
  next
    assume "\<exists>ws. ?m = Inr ws \<and> (\<forall>v \<in> set ws. int32 v)"
    then obtain ws where ws: "?m = Inr ws" "\<forall>v \<in> set ws. int32 v" by blast
    show ?thesis
    proof (cases "\<exists>v. ws = [v]")
      case True
      then obtain v where v: "ws = [v]" by blast
      then obtain b where "itoa2 v (replicate 12 NUL) = Inr b" using ws(2) itoa2_fits [of v] by auto
      with v ws(1) False l show ?thesis by (simp add: cmd_calc_handler_def)
    next
      case more: False
      with ws(1) False l show ?thesis by (simp add: cmd_calc_handler_def split: list.split)
    qed
  qed
qed (use assms in \<open>cases buf; simp add: cmd_calc_handler_def\<close>)

theorem calc_stays_in_bounds_witness:
  "((\<exists>out. cmd_calc_handler (''2147483648/(0-1)'' @ [NUL]) = Inr out) \<or>
     cmd_calc_handler (''2147483648/(0-1)'' @ [NUL]) = Inl Divide_error) \<and>
   cmd_calc_handler (''2147483648/(0-1)'' @ [NUL]) = Inl Divide_error"
proof
  show "cmd_calc_handler (''2147483648/(0-1)'' @ [NUL]) = Inl Divide_error" by code_simp
qed (rule calc_stays_in_bounds, simp)

end
