(* ===== verification/WX_Paging.thy ===== *)
theory WX_Paging
  imports WX_Strings
begin

text \<open>
  The paging code of \<open>paging.h\<close>: the bitmap of physical frames, page directories and tables, mapping and
  translation, the fault handler, cloning, regions and the set-up.  Physical memory is an explicit store of
  32-bit words by byte address, because the code keeps its tables in the frames it hands out and some of
  them overlap; every access is to an address that is a multiple of four.  Pointers are addresses, 0 is the
  null pointer, and address 0 is ordinary memory, as on the machine.  The bitmap is an array of
  32768 words and an index computed from an address is always inside it.
\<close>

section \<open>State\<close>

record page_table_entry =
  present :: bool
  rw :: bool
  user :: bool
  accessed :: bool
  dirty :: bool
  unused :: "7 word"
  frame :: "20 word"

text \<open>The layout of the bit fields in the word, from bit 0 up.\<close>

definition pack :: "page_table_entry \<Rightarrow> u32" where
  "pack p = of_bool (present p) OR push_bit 1 (of_bool (rw p)) OR push_bit 2 (of_bool (user p)) OR
     push_bit 3 (of_bool (accessed p)) OR push_bit 4 (of_bool (dirty p)) OR push_bit 5 (ucast (unused p)) OR
     push_bit 12 (ucast (frame p))"

definition unpack :: "u32 \<Rightarrow> page_table_entry" where
  "unpack w = \<lparr>present = bit w 0, rw = bit w 1, user = bit w 2, accessed = bit w 3, dirty = bit w 4,
     unused = ucast (drop_bit 5 w), frame = ucast (drop_bit 12 w)\<rparr>"

record paging =
  physical_memory_bitmap :: "u32 list"
  total_allocated_frames :: u32
  total_system_frames :: u32
  current_page_directory :: u32
  kernel_page_directory :: u32
  phys :: "u32 \<Rightarrow> u32"
  cr0 :: u32
  cr3 :: u32

definition PAGE_SIZE :: u32 where "PAGE_SIZE = 4096"
definition PAGE_ENTRIES :: u32 where "PAGE_ENTRIES = 1024"
definition BITMAP_SIZE :: nat where "BITMAP_SIZE = 32768"
definition NO_FRAME :: u32 where "NO_FRAME = 0xFFFFFFFF"

definition poke :: "u32 \<Rightarrow> u32 \<Rightarrow> paging \<Rightarrow> paging" where
  "poke a w s = s\<lparr>phys := (phys s)(a := w)\<rparr>"

text \<open>The fields of a directory at \<open>dir\<close>: two arrays of 1024 words and a word.\<close>

definition tables :: "u32 \<Rightarrow> u32 \<Rightarrow> u32" where
  "tables dir i = dir + 4 * i"

definition physical_tables :: "u32 \<Rightarrow> u32 \<Rightarrow> u32" where
  "physical_tables dir i = dir + 4096 + 4 * i"

definition physical_address :: "u32 \<Rightarrow> u32" where
  "physical_address dir = dir + 8192"

text \<open>The byte loops, by words: \<open>len\<close> counts words.\<close>

fun memzero_custom :: "u32 \<Rightarrow> nat \<Rightarrow> paging \<Rightarrow> paging" where
  "memzero_custom d 0 s = s"
| "memzero_custom d (Suc len) s = memzero_custom (d + 4) len (poke d 0 s)"

fun memcpy_custom :: "u32 \<Rightarrow> u32 \<Rightarrow> nat \<Rightarrow> paging \<Rightarrow> paging" where
  "memcpy_custom d a 0 s = s"
| "memcpy_custom d a (Suc len) s = memcpy_custom (d + 4) (a + 4) len (poke d (phys s a) s)"

section \<open>The frame bitmap\<close>

definition upd_bitmap :: "u32 \<Rightarrow> (u32 \<Rightarrow> u32 \<Rightarrow> u32) \<Rightarrow> paging \<Rightarrow> paging" where
  "upd_bitmap frame_address f s =
     (let fr = frame_address div PAGE_SIZE; idx = unat (fr div 32); off = unat (fr mod 32)
      in s\<lparr>physical_memory_bitmap :=
            (physical_memory_bitmap s)[idx := f (physical_memory_bitmap s ! idx) (push_bit off 1)]\<rparr>)"

definition bitmap_set_bit :: "u32 \<Rightarrow> paging \<Rightarrow> paging" where
  "bitmap_set_bit frame_address s = upd_bitmap frame_address (\<lambda>w m. w OR m) s"

definition bitmap_clear_bit :: "u32 \<Rightarrow> paging \<Rightarrow> paging" where
  "bitmap_clear_bit frame_address s = upd_bitmap frame_address (\<lambda>w m. w AND NOT m) s"

definition bitmap_test_bit :: "u32 \<Rightarrow> paging \<Rightarrow> u32" where
  "bitmap_test_bit frame_address s =
     (let fr = frame_address div PAGE_SIZE; idx = unat (fr div 32); off = unat (fr mod 32)
      in physical_memory_bitmap s ! idx AND push_bit off 1)"

fun frame_scan :: "nat \<Rightarrow> u32 list \<Rightarrow> u32" where
  "frame_scan i [] = NO_FRAME"
| "frame_scan i (w # ws) =
     (if w \<noteq> 0xFFFFFFFF then
        (case first_ix (\<lambda>j. w AND push_bit j 1 = 0) [0..<32] of
           Some j \<Rightarrow> (of_nat i * 32 + of_nat j) * PAGE_SIZE
         | None \<Rightarrow> frame_scan (Suc i) ws)
      else frame_scan (Suc i) ws)"

definition find_first_free_frame :: "paging \<Rightarrow> u32" where
  "find_first_free_frame s = frame_scan 0 (physical_memory_bitmap s)"

function contiguous_scan :: "paging \<Rightarrow> u32 \<Rightarrow> nat \<Rightarrow> u32 \<Rightarrow> u32 \<Rightarrow> u32" where
  "contiguous_scan s count i start_frame free_count =
     (if i < BITMAP_SIZE * 32 then
        if bitmap_test_bit (of_nat i * PAGE_SIZE) s = 0 then
          let start_frame = (if free_count = 0 then of_nat i else start_frame); free_count = free_count + 1
          in if free_count = count then start_frame * PAGE_SIZE
             else contiguous_scan s count (Suc i) start_frame free_count
        else contiguous_scan s count (Suc i) start_frame 0
      else NO_FRAME)"
  by pat_completeness auto

termination
  by (relation "measure (\<lambda>(s, count, i, _). BITMAP_SIZE * 32 - i)") auto

declare contiguous_scan.simps [simp del]

definition find_contiguous_free_frames :: "u32 \<Rightarrow> paging \<Rightarrow> u32" where
  "find_contiguous_free_frames count s =
     (if count = 0 then NO_FRAME else if count = 1 then find_first_free_frame s
      else contiguous_scan s count 0 0 0)"

section \<open>Entries\<close>

definition entry :: "u32 \<Rightarrow> paging \<Rightarrow> page_table_entry" where
  "entry page s = unpack (phys s page)"

definition upd_entry :: "u32 \<Rightarrow> (page_table_entry \<Rightarrow> page_table_entry) \<Rightarrow> paging \<Rightarrow> paging" where
  "upd_entry page f s = poke page (pack (f (entry page s))) s"

definition allocate_frame :: "u32 \<Rightarrow> int \<Rightarrow> int \<Rightarrow> paging \<Rightarrow> fault + paging" where
  "allocate_frame page is_kernel is_writable s =
     (if frame (entry page s) \<noteq> 0 then Inr s
      else
        let frame_addr = find_first_free_frame s in
        if frame_addr = NO_FRAME then Inl (Panic ''SYS_ERR_OUT_OF_PHYSICAL_MEMORY'')
        else
          let s = bitmap_set_bit frame_addr s;
              s = upd_entry page (\<lambda>p. p\<lparr>present := True, rw := is_writable = 1, user := is_kernel \<noteq> 1,
                                     frame := ucast (frame_addr div PAGE_SIZE)\<rparr>) s
          in Inr (s\<lparr>total_allocated_frames := total_allocated_frames s + 1\<rparr>))"

definition free_frame :: "u32 \<Rightarrow> paging \<Rightarrow> paging" where
  "free_frame page s =
     (let frame_addr = ucast (frame (entry page s)) :: u32 in
      if frame_addr = 0 then s
      else
        let s = bitmap_clear_bit (frame_addr * PAGE_SIZE) s;
            s = upd_entry page (\<lambda>p. p\<lparr>frame := 0, present := False\<rparr>) s
        in s\<lparr>total_allocated_frames := total_allocated_frames s - 1\<rparr>)"

text \<open>The address of the entry, 0 when there is no table.  The last read of \<open>tables\<close> is from memory again.\<close>

definition get_page_entry :: "u32 \<Rightarrow> bool \<Rightarrow> u32 \<Rightarrow> paging \<Rightarrow> fault + (u32 \<times> paging)" where
  "get_page_entry address mk dir s =
     (let address = address div PAGE_SIZE; table_idx = address div PAGE_ENTRIES; page_idx = address mod PAGE_ENTRIES;
          table = phys s (tables dir table_idx)
      in if table \<noteq> 0 then Inr (table + 4 * page_idx, s)
         else if mk then
           let physical_addr = find_first_free_frame s; s = poke (tables dir table_idx) physical_addr s in
           if physical_addr = NO_FRAME then Inl (Panic ''SYS_ERR_PAGE_TABLE_ALLOCATION_FAILED'')
           else
             let s = bitmap_set_bit physical_addr s;
                 s = memzero_custom physical_addr 1024 s;
                 s = poke (physical_tables dir table_idx) (physical_addr OR 0x07) s
             in Inr (phys s (tables dir table_idx) + 4 * page_idx, s)
         else Inr (0, s))"

definition map_virtual_to_physical :: "u32 \<Rightarrow> u32 \<Rightarrow> bool \<Rightarrow> bool \<Rightarrow> u32 \<Rightarrow> paging \<Rightarrow> fault + paging" where
  "map_virtual_to_physical virtual_addr physical_addr is_kernel is_writable dir s =
     bindE (get_page_entry virtual_addr True dir s) (\<lambda>(page, s).
       if page = 0 then Inl (Panic ''SYS_ERR_MAP_VIRTUAL_FAILED'')
       else Inr (bitmap_set_bit physical_addr
              (upd_entry page (\<lambda>p. p\<lparr>present := True, rw := is_writable, user := \<not> is_kernel,
                 frame := ucast (physical_addr div PAGE_SIZE)\<rparr>) s)))"

definition unmap_virtual_page :: "u32 \<Rightarrow> u32 \<Rightarrow> paging \<Rightarrow> fault + paging" where
  "unmap_virtual_page virtual_addr dir s =
     bindE (get_page_entry virtual_addr False dir s) (\<lambda>(page, s).
       Inr (if page \<noteq> 0 \<and> present (entry page s)
            then upd_entry page (\<lambda>p. p\<lparr>present := False\<rparr>) (free_frame page s) else s))"

definition get_physical_address :: "u32 \<Rightarrow> u32 \<Rightarrow> paging \<Rightarrow> fault + u32" where
  "get_physical_address virtual_addr dir s =
     bindE (get_page_entry virtual_addr False dir s) (\<lambda>(page, s).
       Inr (if page \<noteq> 0 \<and> present (entry page s)
            then ucast (frame (entry page s)) * PAGE_SIZE + (virtual_addr AND 0xFFF) else NO_FRAME))"

definition switch_page_directory :: "u32 \<Rightarrow> paging \<Rightarrow> paging" where
  "switch_page_directory dir s =
     s\<lparr>current_page_directory := dir, cr3 := phys s (physical_address dir), cr0 := cr0 s OR 0x80000000\<rparr>"

text \<open>\<open>cr2\<close> is the faulting address; of the saved registers the handler reads the error code.\<close>

definition page_fault_handler :: "u32 \<Rightarrow> u32 \<Rightarrow> paging \<Rightarrow> fault + paging" where
  "page_fault_handler cr2 err_code s =
     (let absent = err_code AND 0x1 = 0; write = err_code AND 0x2 \<noteq> 0; us = err_code AND 0x4 \<noteq> 0;
          reserved = err_code AND 0x8 \<noteq> 0; fetch = err_code AND 0x10 \<noteq> 0
      in if absent \<or> reserved \<or> fetch then Inl (Panic ''SYS_ERR_UNRECOVERABLE_PAGE_FAULT'')
         else bindE (get_page_entry cr2 True (current_page_directory s) s) (\<lambda>(page, s).
           if \<not> present (entry page s) then allocate_frame page (if us then 0 else 1) (if write then 1 else 0) s
           else Inl (Panic ''SYS_ERR_PROTECTION_FAULT'')))"

section \<open>Cloning\<close>

definition clone_entry :: "u32 \<Rightarrow> u32 \<Rightarrow> nat \<Rightarrow> paging \<Rightarrow> fault + paging" where
  "clone_entry src new_table i s =
     (let a = src + 4 * of_nat i; b = new_table + 4 * of_nat i in
      if present (entry a s) then
        bindE (allocate_frame b 0 0 s) (\<lambda>s.
          let s = upd_entry b (\<lambda>p. p\<lparr>present := present (entry a s), rw := rw (entry a s), user := user (entry a s),
                    accessed := accessed (entry a s), dirty := dirty (entry a s)\<rparr>) s
          in Inr (memcpy_custom (ucast (frame (entry b s)) * PAGE_SIZE) (ucast (frame (entry a s)) * PAGE_SIZE) 1024 s))
      else Inr s)"

text \<open>The new table, 0 when no frame is free, and \<open>*physical_addr\<close>, which then keeps its value.\<close>

definition clone_page_table :: "u32 \<Rightarrow> u32 \<Rightarrow> paging \<Rightarrow> fault + (u32 \<times> u32 \<times> paging)" where
  "clone_page_table src physical_addr s =
     (let new_table = find_first_free_frame s in
      if new_table = NO_FRAME then Inr (0, physical_addr, s)
      else map_sum id (\<lambda>s. (new_table, new_table, s))
             (foldE (clone_entry src new_table) [0..<1024] (memzero_custom new_table 1024 (bitmap_set_bit new_table s))))"

text \<open>\<open>junk\<close> is what the uninitialised local \<open>phys\<close> holds.\<close>

definition clone_directory_entry :: "u32 \<Rightarrow> u32 \<Rightarrow> u32 \<Rightarrow> nat \<Rightarrow> paging \<Rightarrow> fault + paging" where
  "clone_directory_entry junk src new_dir k s =
     (let i = of_nat k; table = phys s (tables src i) in
      if table = 0 then Inr s
      else if phys s (tables (kernel_page_directory s) i) = table then
        Inr (let s = poke (tables new_dir i) table s
             in poke (physical_tables new_dir i) (phys s (physical_tables src i)) s)
      else bindE (clone_page_table table junk s) (\<lambda>(new_table, physical_addr, s).
             Inr (poke (physical_tables new_dir i) (physical_addr OR 0x07) (poke (tables new_dir i) new_table s))))"

definition clone_page_directory :: "u32 \<Rightarrow> u32 \<Rightarrow> paging \<Rightarrow> fault + (u32 \<times> paging)" where
  "clone_page_directory junk src s =
     (let new_dir = find_first_free_frame s in
      if new_dir = NO_FRAME then Inr (0, s)
      else
        let s = memzero_custom new_dir 2049 (bitmap_set_bit new_dir s);
            s = poke (physical_address new_dir) (physical_tables new_dir 0) s
        in map_sum id (\<lambda>s. (new_dir, s)) (foldE (clone_directory_entry junk src new_dir) [0..<1024] s))"

section \<open>Regions and set-up\<close>

definition page_align :: "u32 \<Rightarrow> u32" where
  "page_align a = a AND NOT (PAGE_SIZE - 1)"

text \<open>The addresses that \<open>for (current = aligned_start; current < aligned_end; current += PAGE_SIZE)\<close> visits.\<close>

definition pages_of :: "u32 \<Rightarrow> u32 \<Rightarrow> u32 list" where
  "pages_of aligned_start aligned_end =
     map (\<lambda>k. of_nat k * PAGE_SIZE) [unat aligned_start div 4096 ..< unat aligned_end div 4096]"

definition region_pages :: "u32 \<Rightarrow> u32 \<Rightarrow> u32 list" where
  "region_pages start_addr len = pages_of (page_align start_addr) (page_align (start_addr + len + PAGE_SIZE - 1))"

definition allocate_memory_region :: "u32 \<Rightarrow> u32 \<Rightarrow> int \<Rightarrow> int \<Rightarrow> u32 \<Rightarrow> paging \<Rightarrow> fault + paging" where
  "allocate_memory_region start_addr len is_kernel is_writable dir s =
     foldE (\<lambda>current s. bindE (get_page_entry current True dir s) (\<lambda>(page, s).
       allocate_frame page is_kernel is_writable s)) (region_pages start_addr len) s"

definition free_memory_region :: "u32 \<Rightarrow> u32 \<Rightarrow> u32 \<Rightarrow> paging \<Rightarrow> fault + paging" where
  "free_memory_region start_addr len dir s =
     foldE (\<lambda>current. unmap_virtual_page current dir) (region_pages start_addr len) s"

definition check_region_availability :: "u32 \<Rightarrow> u32 \<Rightarrow> u32 \<Rightarrow> paging \<Rightarrow> bool" where
  "check_region_availability start_addr len dir s =
     list_all (\<lambda>current. case get_page_entry current False dir s of
       Inl f \<Rightarrow> False | Inr (page, s) \<Rightarrow> \<not> (page \<noteq> 0 \<and> present (entry page s))) (region_pages start_addr len)"

definition identity_map_region :: "u32 \<Rightarrow> u32 \<Rightarrow> u32 \<Rightarrow> paging \<Rightarrow> fault + paging" where
  "identity_map_region start_addr end_addr dir s =
     foldE (\<lambda>current. map_virtual_to_physical current current True True dir)
       (pages_of (page_align start_addr) (page_align (end_addr + PAGE_SIZE - 1))) s"

text \<open>Reloading CR3 flushes the translations; the state here has no cached ones.\<close>

definition flush_tlb :: "paging \<Rightarrow> paging" where
  "flush_tlb s = s\<lparr>cr3 := cr3 s\<rparr>"

text \<open>The table of handlers is a null pointer, so the handler of vector \<open>n\<close> is stored at address \<open>4 * n\<close>.\<close>

definition register_interrupt_handler :: "u8 \<Rightarrow> u32 \<Rightarrow> paging \<Rightarrow> paging" where
  "register_interrupt_handler n handler s = poke (4 * ucast n) handler s"

definition initialize_paging_system :: "u32 \<Rightarrow> u32 \<Rightarrow> paging \<Rightarrow> fault + paging" where
  "initialize_paging_system handler total_memory_kb s =
     (let s = s\<lparr>total_system_frames := (total_memory_kb * 1024) div PAGE_SIZE,
                physical_memory_bitmap := map (\<lambda>_. 0) (physical_memory_bitmap s)\<rparr>;
          dir = find_first_free_frame s;
          s = s\<lparr>kernel_page_directory := dir\<rparr>
      in if dir = NO_FRAME then Inl (Panic ''SYS_ERR_KERNEL_DIR_ALLOC_FAILED'')
         else
           let s = memzero_custom dir 2049 (bitmap_set_bit dir s);
               s = poke (physical_address dir) (physical_tables dir 0) s
           in map_sum id (\<lambda>s. switch_page_directory (kernel_page_directory s) (register_interrupt_handler 14 handler s))
                (foldE (\<lambda>i. map_virtual_to_physical i i True True dir) (pages_of 0 0x400000) s))"

definition get_total_allocated_memory :: "paging \<Rightarrow> u32" where
  "get_total_allocated_memory s = total_allocated_frames s * PAGE_SIZE"

definition get_total_free_memory :: "paging \<Rightarrow> u32" where
  "get_total_free_memory s = (total_system_frames s - total_allocated_frames s) * PAGE_SIZE"

end
