(* ===== verification/WX_Paging_Props.thy ===== *)
theory WX_Paging_Props
  imports WX_Paging
begin

text \<open>
  What the paging code guarantees: the bitmap as the set of used frames, allocation and release of frames,
  contiguous runs, mapping and translation when the tables do not overlap, and what the set-up and the fault
  handler do.
\<close>

section \<open>The bitmap as a set of frames\<close>

definition used :: "paging \<Rightarrow> nat \<Rightarrow> bool" where
  "used s f \<longleftrightarrow> bit (physical_memory_bitmap s ! (f div 32)) (f mod 32)"

definition bitmap_ok :: "paging \<Rightarrow> bool" where
  "bitmap_ok s \<longleftrightarrow> length (physical_memory_bitmap s) = 32768"

definition frame_no :: "u32 \<Rightarrow> nat" where
  "frame_no a = unat a div 4096"

lemma frame_no_less: "frame_no a < 1048576"
proof -
  have "unat a < 2 ^ 32" using unsigned_less [of a] by simp
  then show ?thesis by (simp add: frame_no_def)
qed

lemma and_push_bit_0: "j < 32 \<Longrightarrow> (w :: u32) AND push_bit j 1 = 0 \<longleftrightarrow> \<not> bit w j"
  by (simp add: and_exp_eq_0_iff_not_bit)

lemma unat_frame_ix:
  "unat (a div PAGE_SIZE div 32) = frame_no a div 32" "unat (a div PAGE_SIZE mod 32) = frame_no a mod 32"
  by (simp_all add: frame_no_def PAGE_SIZE_def unat_div unat_mod)

lemma test_bit_iff: "bitmap_test_bit a s = 0 \<longleftrightarrow> \<not> used s (frame_no a)"
  by (simp add: bitmap_test_bit_def Let_def unat_frame_ix and_exp_eq_0_iff_not_bit used_def)

lemma same_ix: "(f :: nat) div 32 = g div 32 \<Longrightarrow> f mod 32 = g mod 32 \<longleftrightarrow> f = g"
  by (metis div_mult_mod_eq)

lemma used_set_bit:
  assumes "bitmap_ok s"
  shows "used (bitmap_set_bit a s) f \<longleftrightarrow> used s f \<or> f = frame_no a"
proof -
  have l: "frame_no a div 32 < length (physical_memory_bitmap s)" using frame_no_less [of a] assms by (simp add: bitmap_ok_def)
  show ?thesis
    using l same_ix [of f "frame_no a"]
    by (auto simp: used_def bitmap_set_bit_def upd_bitmap_def Let_def unat_frame_ix nth_list_update bit_simps)
qed

lemma used_clear_bit:
  assumes "bitmap_ok s"
  shows "used (bitmap_clear_bit a s) f \<longleftrightarrow> used s f \<and> f \<noteq> frame_no a"
proof -
  have l: "frame_no a div 32 < length (physical_memory_bitmap s)" using frame_no_less [of a] assms by (simp add: bitmap_ok_def)
  show ?thesis
    using l same_ix [of f "frame_no a"]
    by (auto simp: used_def bitmap_clear_bit_def upd_bitmap_def Let_def unat_frame_ix nth_list_update bit_simps)
qed

lemma set_bit_simps [simp]:
  "phys (bitmap_set_bit a s) = phys s" "bitmap_ok (bitmap_set_bit a s) = bitmap_ok s"
  "total_allocated_frames (bitmap_set_bit a s) = total_allocated_frames s"
  "phys (bitmap_clear_bit a s) = phys s" "bitmap_ok (bitmap_clear_bit a s) = bitmap_ok s"
  "total_allocated_frames (bitmap_clear_bit a s) = total_allocated_frames s"
  by (simp_all add: bitmap_set_bit_def bitmap_clear_bit_def upd_bitmap_def Let_def bitmap_ok_def)

lemma poke_simps [simp]:
  "phys (poke a w s) = (phys s)(a := w)" "physical_memory_bitmap (poke a w s) = physical_memory_bitmap s"
  "used (poke a w s) = used s" "bitmap_ok (poke a w s) = bitmap_ok s"
  "total_allocated_frames (poke a w s) = total_allocated_frames s"
  by (simp_all add: poke_def used_def fun_eq_iff bitmap_ok_def)

lemma not_full: "(w :: u32) \<noteq> 0xFFFFFFFF \<longleftrightarrow> (\<exists>j < 32. \<not> bit w j)"
proof -
  have "(0xFFFFFFFF :: u32) = - 1" by simp
  then show ?thesis by (auto simp: bit_eq_iff)
qed

text \<open>The scan finds the lowest clear bit.\<close>

lemma frame_scan_eq:
  "(\<exists>f < 32 * length ws. \<not> bit (ws ! (f div 32)) (f mod 32) \<and> (\<forall>g < f. bit (ws ! (g div 32)) (g mod 32)) \<and>
      frame_scan i ws = of_nat (32 * i + f) * PAGE_SIZE) \<or>
   (\<forall>f < 32 * length ws. bit (ws ! (f div 32)) (f mod 32)) \<and> frame_scan i ws = NO_FRAME"
proof (induction ws arbitrary: i)
  case (Cons w ws)
  show ?case
  proof (cases "w = 0xFFFFFFFF")
    case True
    then have all: "bit w j" if "j < 32" for j using not_full that by blast
    have step: "frame_scan i (w # ws) = frame_scan (Suc i) ws" using True by simp
    have low: "bit ((w # ws) ! (g div 32)) (g mod 32)" if "g < 32" for g using that all by simp
    have "(g + 32) div 32 = Suc (g div 32)" for g :: nat using div_add_self2 [of 32 g] by simp
    then have up: "(w # ws) ! ((g + 32) div 32) = ws ! (g div 32)" "(g + 32) mod 32 = g mod 32" for g by simp_all
    have split: "bit ((w # ws) ! (g div 32)) (g mod 32)" if "g < n + 32" "\<forall>h < n. bit (ws ! (h div 32)) (h mod 32)" for g n
      using that low [of g] up [of "g - 32"] by (cases "g < 32") auto
    from Cons.IH [of "Suc i"] show ?thesis
    proof
      assume "\<exists>f < 32 * length ws. \<not> bit (ws ! (f div 32)) (f mod 32) \<and> (\<forall>g < f. bit (ws ! (g div 32)) (g mod 32)) \<and>
          frame_scan (Suc i) ws = of_nat (32 * Suc i + f) * PAGE_SIZE"
      then obtain f where f: "f < 32 * length ws" "\<not> bit (ws ! (f div 32)) (f mod 32)"
        "\<forall>g < f. bit (ws ! (g div 32)) (g mod 32)" "frame_scan (Suc i) ws = of_nat (32 * Suc i + f) * PAGE_SIZE" by blast
      have "32 * Suc i + f = 32 * i + (f + 32)" by simp
      with f(4) step have r: "frame_scan i (w # ws) = of_nat (32 * i + (f + 32)) * PAGE_SIZE" by metis
      show ?thesis
        by (rule disjI1, rule exI [of _ "f + 32"], intro conjI, use f(1) in simp, use f(2) up [of f] in metis,
          use split [of _ f] f(3) in blast, rule r)
    next
      assume "(\<forall>f < 32 * length ws. bit (ws ! (f div 32)) (f mod 32)) \<and> frame_scan (Suc i) ws = NO_FRAME"
      with step split [of _ "32 * length ws"] show ?thesis by (intro disjI2) (simp del: frame_scan.simps)
    qed
  next
    case False
    then obtain k where "k < 32" "\<not> bit w k" using not_full by blast
    then have "first_ix (\<lambda>j. w AND push_bit j 1 = 0) [0..<32] \<noteq> None"
      using and_push_bit_0 [of k w] by (auto simp: first_ix_None)
    then obtain j where j: "first_ix (\<lambda>j. w AND push_bit j 1 = 0) [0..<32] = Some j" by blast
    from first_ix_SomeD [OF j] have "j < 32" "\<not> bit w j" "\<forall>g < j. bit w g" by (auto simp: and_exp_eq_0_iff_not_bit)
    with False j show ?thesis by (intro disjI1 exI [of _ j]) (simp add: algebra_simps)
  qed
qed simp

definition lowest_free :: "paging \<Rightarrow> nat \<Rightarrow> bool" where
  "lowest_free s f \<longleftrightarrow> f < 1048576 \<and> \<not> used s f \<and> (\<forall>g < f. used s g)"

lemma find_first_free_frame_eq:
  assumes "bitmap_ok s"
  shows "(\<exists>f. lowest_free s f \<and> find_first_free_frame s = of_nat f * PAGE_SIZE) \<or>
     (\<forall>f < 1048576. used s f) \<and> find_first_free_frame s = NO_FRAME"
  using frame_scan_eq [of "physical_memory_bitmap s" 0] assms
  by (auto simp: find_first_free_frame_def lowest_free_def used_def bitmap_ok_def)

lemma unat_frame_addr: "f < 1048576 \<Longrightarrow> unat (of_nat f * PAGE_SIZE) = f * 4096"
  by (simp add: PAGE_SIZE_def unat_word_ariths unat_of_nat)

lemma frame_no_addr [simp]: "f < 1048576 \<Longrightarrow> frame_no (of_nat f * PAGE_SIZE) = f"
  by (simp add: frame_no_def unat_frame_addr)

lemma frame_addr_not_NO_FRAME: "f < 1048576 \<Longrightarrow> of_nat f * PAGE_SIZE \<noteq> NO_FRAME"
proof
  assume f: "f < 1048576" and "of_nat f * PAGE_SIZE = NO_FRAME"
  then have "f * 4096 = unat NO_FRAME" using unat_frame_addr [OF f] by simp
  then have "f * 4096 = 4294967295" by (simp add: NO_FRAME_def)
  then have "(f * 4096) mod 4096 = 4294967295 mod 4096" by (rule arg_cong)
  then show False by simp
qed

lemma lowest_free_unique: "lowest_free s f \<Longrightarrow> lowest_free s g \<Longrightarrow> f = g"
  by (meson linorder_neqE_nat lowest_free_def)

lemma find_first_lowest: "bitmap_ok s \<Longrightarrow> lowest_free s f \<Longrightarrow> find_first_free_frame s = of_nat f * PAGE_SIZE"
  using find_first_free_frame_eq [of s] lowest_free_unique [of s f] lowest_free_def by blast

section \<open>Entries\<close>

lemma unpack_pack [simp]: "unpack (pack p) = p"
proof -
  have "ucast (drop_bit 12 (pack p)) = frame p"
    by (rule bit_eqI) (auto simp: pack_def bit_simps dest: bit_imp_le_length)
  moreover have "ucast (drop_bit 5 (pack p)) = unused p"
    by (rule bit_eqI) (auto simp: pack_def bit_simps)
  ultimately show ?thesis
    by (simp add: unpack_def) (simp add: pack_def bit_simps)
qed

lemma pack_unpack [simp]: "pack (unpack w) = w"
proof (rule bit_eqI)
  fix n assume "possible_bit TYPE(u32) n"
  then have "n < 32" by simp
  then have "n = 0 \<or> n = 1 \<or> n = 2 \<or> n = 3 \<or> n = 4 \<or> (5 \<le> n \<and> n < 12) \<or> (12 \<le> n \<and> n < 32)" by auto
  then show "bit (pack (unpack w)) n = bit w n"
    by (elim disjE) (auto simp: pack_def unpack_def bit_simps)
qed

lemma upd_entry_simps [simp]:
  "phys (upd_entry a f s) = (phys s)(a := pack (f (entry a s)))" "used (upd_entry a f s) = used s"
  "bitmap_ok (upd_entry a f s) = bitmap_ok s" "total_allocated_frames (upd_entry a f s) = total_allocated_frames s"
  by (simp_all add: upd_entry_def)

lemma entry_upd_entry: "entry b (upd_entry a f s) = (if b = a then f (entry a s) else entry b s)"
  by (simp add: entry_def)


section \<open>Allocation and release\<close>

lemma ucast_frame_no: "(ucast (a div PAGE_SIZE) :: 20 word) = of_nat (frame_no a)"
  using frame_no_less [of a]
  by (simp add: word_unat_eq_iff unsigned_ucast_eq take_bit_nat_eq_self unat_of_nat frame_no_def PAGE_SIZE_def unat_div)

lemma frame_addr_of: "f < 1048576 \<Longrightarrow> ucast (of_nat f :: 20 word) * PAGE_SIZE = (of_nat f * PAGE_SIZE :: u32)"
  by (intro arg_cong [of _ _ "\<lambda>x. x * PAGE_SIZE"])
    (simp add: word_unat_eq_iff unsigned_ucast_eq unat_of_nat take_bit_nat_eq_self)

lemma frame_word_0: "f < 1048576 \<Longrightarrow> (ucast (of_nat f :: 20 word) :: u32) = 0 \<longleftrightarrow> f = 0"
  by (simp add: word_unat_eq_iff unsigned_ucast_eq unat_of_nat take_bit_nat_eq_self)

lemma allocate_frame_eq:
  assumes "bitmap_ok s" "frame (entry page s) = 0" "lowest_free s f"
  shows "allocate_frame page k w s = Inr (upd_entry page (\<lambda>p. p\<lparr>present := True, rw := w = 1, user := k \<noteq> 1,
      frame := of_nat f\<rparr>) (bitmap_set_bit (of_nat f * PAGE_SIZE) s) \<lparr>total_allocated_frames := total_allocated_frames s + 1\<rparr>)"
proof -
  have f: "f < 1048576" using assms(3) by (simp add: lowest_free_def)
  show ?thesis
    using assms(2) find_first_lowest [OF assms(1,3)] frame_addr_not_NO_FRAME [OF f] f
    by (simp add: allocate_frame_def Let_def ucast_frame_no)
qed

lemma total_simps [simp]:
  "used (s\<lparr>total_allocated_frames := n\<rparr>) = used s" "bitmap_ok (s\<lparr>total_allocated_frames := n\<rparr>) = bitmap_ok s"
  "entry a (s\<lparr>total_allocated_frames := n\<rparr>) = entry a s" "entry a (bitmap_set_bit b s) = entry a s"
  "entry a (bitmap_clear_bit b s) = entry a s"
  by (simp_all add: used_def bitmap_ok_def entry_def fun_eq_iff)

text \<open>
  C22: an entry without a frame gets the lowest free one, with the access bits asked for; exactly that frame
  becomes used, no other word of memory changes, and releasing the entry makes exactly that frame free again
  and restores the count (frame 0 aside, which an entry cannot be told to hold).
\<close>
theorem allocate_and_free_frame:
  assumes "bitmap_ok s" "frame (entry page s) = 0" "lowest_free s f" "f \<noteq> 0"
  shows "\<exists>s'. allocate_frame page k w s = Inr s' \<and>
     entry page s' = (entry page s)\<lparr>present := True, rw := w = 1, user := k \<noteq> 1, frame := of_nat f\<rparr> \<and>
     (\<forall>g. used s' g \<longleftrightarrow> used s g \<or> g = f) \<and> (\<forall>a. a \<noteq> page \<longrightarrow> phys s' a = phys s a) \<and>
     (\<forall>g. used (free_frame page s') g \<longleftrightarrow> used s g) \<and>
     total_allocated_frames (free_frame page s') = total_allocated_frames s \<and>
     \<not> present (entry page (free_frame page s')) \<and> frame (entry page (free_frame page s')) = 0"
proof -
  have f: "f < 1048576" "\<not> used s f" using assms(3) by (auto simp: lowest_free_def)
  let ?s = "upd_entry page (\<lambda>p. p\<lparr>present := True, rw := w = 1, user := k \<noteq> 1, frame := of_nat f\<rparr>)
      (bitmap_set_bit (of_nat f * PAGE_SIZE) s) \<lparr>total_allocated_frames := total_allocated_frames s + 1\<rparr>"
  have e: "entry page ?s = (entry page s)\<lparr>present := True, rw := w = 1, user := k \<noteq> 1, frame := of_nat f\<rparr>"
    by (simp add: entry_upd_entry)
  have u: "used ?s g \<longleftrightarrow> used s g \<or> g = f" for g using used_set_bit [OF assms(1)] f(1) by simp
  have free: "free_frame page ?s =
      (upd_entry page (\<lambda>p. p\<lparr>frame := 0, present := False\<rparr>) (bitmap_clear_bit (of_nat f * PAGE_SIZE) ?s))
        \<lparr>total_allocated_frames := total_allocated_frames s\<rparr>"
    using e frame_word_0 [OF f(1)] frame_addr_of [OF f(1)] assms(4) by (simp add: free_frame_def Let_def)
  have "used (free_frame page ?s) g \<longleftrightarrow> used s g" for g
    unfolding free using used_clear_bit [of ?s "of_nat f * PAGE_SIZE" g] u [of g] f assms(1) by auto
  with e u free show ?thesis
    unfolding allocate_frame_eq [OF assms(1-3)] by (intro exI [of _ ?s]) (simp add: entry_upd_entry)
qed

section \<open>Contiguous runs\<close>

text \<open>\<open>n\<close> free frames in a row from \<open>b\<close> on.\<close>

definition free_run :: "paging \<Rightarrow> nat \<Rightarrow> nat \<Rightarrow> bool" where
  "free_run s n b \<longleftrightarrow> b + n \<le> 1048576 \<and> (\<forall>k < n. \<not> used s (b + k))"

definition first_run :: "paging \<Rightarrow> nat \<Rightarrow> u32 \<Rightarrow> bool" where
  "first_run s n a \<longleftrightarrow> (\<exists>b. free_run s n b \<and> (\<forall>c < b. \<not> free_run s n c) \<and> a = of_nat b * PAGE_SIZE) \<or>
     (\<forall>b. \<not> free_run s n b) \<and> a = NO_FRAME"

lemma contiguous_scan_eq:
  assumes "bitmap_ok s" "n = unat count" "c < n" "c \<le> i" "i \<le> 1048576" "\<forall>k < c. \<not> used s (i - c + k)"
    "\<forall>b < i - c. \<not> free_run s n b" "0 < c \<longrightarrow> start = of_nat (i - c)"
  shows "first_run s n (contiguous_scan s count i start (of_nat c))"
  using assms(3-)
proof (induction "1048576 - i" arbitrary: i c start rule: less_induct)
  case less
  have n: "n < 2 ^ 32" using unsigned_less [of count] assms(2) by simp
  show ?case
  proof (cases "i = 1048576")
    case True
    have "\<not> free_run s n b" for b
      using less.prems(5) less.prems(1,2) True by (cases "b < i - c") (auto simp: free_run_def)
    with True show ?thesis by (subst contiguous_scan.simps) (simp add: BITMAP_SIZE_def first_run_def)
  next
    case False
    with less.prems(3) have i: "i < 1048576" by simp
    have free0: "(of_nat c :: u32) = 0 \<longleftrightarrow> c = 0"
      using less.prems(1) n by (simp add: word_unat_eq_iff unat_of_nat take_bit_nat_eq_self)
    have full: "of_nat c + 1 = count \<longleftrightarrow> Suc c = n"
    proof -
      have "unat (of_nat (Suc c) :: u32) = Suc c"
        using less.prems(1) n by (simp only: unat_of_nat) (rule mod_less, simp)
      moreover have "of_nat c + 1 = (of_nat (Suc c) :: u32)" by simp
      ultimately show ?thesis using assms(2) by (metis word_unat_eq_iff)
    qed
    show ?thesis
    proof (cases "used s i")
      case True
      have "\<not> free_run s n b" if "b < Suc i" for b
      proof (cases "b < i - c")
        case False
        with that less.prems(1,2) have "b \<le> i" "i - b < n" by auto
        with True show ?thesis by (auto simp: free_run_def dest!: spec [of _ "i - b"])
      qed (use less.prems(5) in blast)
      then have "first_run s n (contiguous_scan s count (Suc i) start (of_nat 0))"
        using less.prems(1) i by (intro less.hyps) auto
      with True i show ?thesis by (subst contiguous_scan.simps) (simp add: BITMAP_SIZE_def test_bit_iff)
    next
      case False
      let ?st = "if c = 0 then of_nat i else start"
      have st: "?st = of_nat (i - c)" using less.prems(6) by auto
      have fr: "\<forall>k < Suc c. \<not> used s (i - c + k)" using less.prems(2,4) False by (auto simp: less_Suc_eq)
      show ?thesis
      proof (cases "Suc c = n")
        case True
        have "free_run s n (i - c)" using True fr i less.prems(2) by (simp add: free_run_def)
        with less.prems(5) st False True full free0 i show ?thesis
          by (subst contiguous_scan.simps) (auto simp: BITMAP_SIZE_def test_bit_iff first_run_def Let_def)
      next
        case False
        have "first_run s n (contiguous_scan s count (Suc i) ?st (of_nat (Suc c)))"
          using less.prems(1,2,5) i fr st False by (intro less.hyps) auto
        with False \<open>\<not> used s i\<close> full free0 i show ?thesis
          by (subst contiguous_scan.simps) (simp add: BITMAP_SIZE_def test_bit_iff Let_def add.commute)
      qed
    qed
  qed
qed

text \<open>
  The search for \<open>count\<close> frames in a row returns the address of the lowest run of that many free
  frames, and the value -1 exactly when there is none (or none was asked for).
\<close>
lemma contiguous_frames_lowest_run:
  assumes "bitmap_ok s" "count \<noteq> 0"
  shows "(\<exists>b. free_run s (unat count) b \<and> (\<forall>c < b. \<not> free_run s (unat count) c) \<and>
       find_contiguous_free_frames count s = of_nat b * PAGE_SIZE) \<or>
     (\<forall>b. \<not> free_run s (unat count) b) \<and> find_contiguous_free_frames count s = NO_FRAME"
proof (cases "count = 1")
  case True
  have "free_run s 1 b \<longleftrightarrow> b < 1048576 \<and> \<not> used s b" for b by (auto simp: free_run_def)
  with find_first_free_frame_eq [OF assms(1)] True show ?thesis
    by (auto simp: find_contiguous_free_frames_def lowest_free_def)
next
  case False
  have "0 < unat count" using assms(2) by (simp add: unat_gt_0)
  then have "first_run s (unat count) (contiguous_scan s count 0 0 (of_nat 0))"
    by (intro contiguous_scan_eq [OF assms(1) refl]) auto
  with False assms(2) show ?thesis by (simp add: find_contiguous_free_frames_def first_run_def)
qed


text \<open>All frames free but the first.\<close>

definition blank_paging :: paging where
  "blank_paging = \<lparr>physical_memory_bitmap = 1 # replicate 32767 0, total_allocated_frames = 1, total_system_frames = 1048576,
     current_page_directory = 0, kernel_page_directory = 0, phys = \<lambda>_. 0, cr0 = 0, cr3 = 0\<rparr>"

lemma blank_ok: "bitmap_ok blank_paging" "f < 1048576 \<Longrightarrow> used blank_paging f \<longleftrightarrow> f = 0" "lowest_free blank_paging 1"
proof -
  show "bitmap_ok blank_paging" by (simp add: bitmap_ok_def blank_paging_def)
  show u: "used blank_paging f \<longleftrightarrow> f = 0" if "f < 1048576" for f
  proof (cases "f < 32")
    case False
    then have "0 < f div 32" "f div 32 < 32768" using that by auto
    then show ?thesis using False by (cases "f div 32") (auto simp: used_def blank_paging_def)
  qed (auto simp: used_def blank_paging_def bit_simps)
  show "lowest_free blank_paging 1" using u [of 1] u [of 0] by (simp add: lowest_free_def)
qed

theorem allocate_and_free_frame_witness:
  "\<exists>s'. allocate_frame 0x5000 0 1 blank_paging = Inr s' \<and>
     entry 0x5000 s' = (entry 0x5000 blank_paging)\<lparr>present := True, rw := (1 :: int) = 1, user := (0 :: int) \<noteq> 1, frame := of_nat 1\<rparr> \<and>
     (\<forall>g. used s' g \<longleftrightarrow> used blank_paging g \<or> g = 1) \<and> (\<forall>a. a \<noteq> 0x5000 \<longrightarrow> phys s' a = phys blank_paging a) \<and>
     (\<forall>g. used (free_frame 0x5000 s') g \<longleftrightarrow> used blank_paging g) \<and>
     total_allocated_frames (free_frame 0x5000 s') = total_allocated_frames blank_paging \<and>
     \<not> present (entry 0x5000 (free_frame 0x5000 s')) \<and> frame (entry 0x5000 (free_frame 0x5000 s')) = 0"
  by (rule allocate_and_free_frame [OF blank_ok(1) _ blank_ok(3)])
    (simp_all add: entry_def blank_paging_def unpack_def)

lemma contiguous_frames_lowest_run_witness:
  "find_contiguous_free_frames 3 blank_paging = 0x1000"
proof -
  have r: "free_run blank_paging 3 1" using blank_ok(2) by (simp add: free_run_def)
  have z: "\<not> free_run blank_paging 3 0" using blank_ok(2) [of 0] by (auto simp: free_run_def intro!: exI [of _ 0])
  have "unat (3 :: u32) = 3" by simp
  with contiguous_frames_lowest_run [OF blank_ok(1), of 3] r obtain b where
    b: "free_run blank_paging 3 b" "\<forall>c < b. \<not> free_run blank_paging 3 c"
      "find_contiguous_free_frames 3 blank_paging = of_nat b * PAGE_SIZE" by auto
  have "b = 1" using b(1,2) r z by (metis less_one linorder_neqE_nat)
  with b(3) show ?thesis by (simp add: PAGE_SIZE_def)
qed

section \<open>Addresses\<close>

text \<open>Word \<open>k\<close> of frame \<open>f\<close>: what the addresses of directories and tables are.\<close>

definition cell :: "nat \<Rightarrow> u32 \<Rightarrow> u32" where
  "cell f k = of_nat f * PAGE_SIZE + 4 * k"

lemma unat_cell:
  assumes "f < 1048576" "unat k < 1024"
  shows "unat (cell f k) = f * 4096 + 4 * unat k"
proof -
  have "unat (4 * k) = 4 * unat k" using assms(2) by (simp add: unat_word_ariths)
  then show ?thesis using assms by (simp add: cell_def unat_word_ariths(1) unat_frame_addr)
qed

lemma cell_inject:
  assumes "f < 1048576" "unat k < 1024" "g < 1048576" "unat l < 1024"
  shows "cell f k = cell g l \<longleftrightarrow> f = g \<and> k = l"
proof
  assume "cell f k = cell g l"
  then have e: "f * 4096 + 4 * unat k = g * 4096 + 4 * unat l" using unat_cell assms by metis
  have "(f * 4096 + 4 * unat k) div 4096 = f" "(g * 4096 + 4 * unat l) div 4096 = g" using assms by simp_all
  then have "f = g" using e by simp
  with e show "f = g \<and> k = l" by (simp add: word_unat_eq_iff)
qed simp

lemma frame_no_cell: "f < 1048576 \<Longrightarrow> unat k < 1024 \<Longrightarrow> frame_no (cell f k) = f"
  by (simp add: frame_no_def unat_cell)

lemma cell_next: "f + 1 < 1048576 \<Longrightarrow> of_nat f * PAGE_SIZE + 4096 + 4 * k = cell (f + 1) k"
  by (simp add: cell_def PAGE_SIZE_def algebra_simps)

lemma memzero_phys:
  "phys (memzero_custom d n s) x = (if \<exists>j < n. x = d + 4 * of_nat j then 0 else phys s x)"
proof (induction n arbitrary: d s)
  case (Suc n)
  have "(\<exists>j < Suc n. x = d + 4 * of_nat j) \<longleftrightarrow> x = d \<or> (\<exists>j < n. x = d + 4 + 4 * of_nat j)"
  proof
    assume "\<exists>j < Suc n. x = d + 4 * of_nat j"
    then obtain j where "j < Suc n" "x = d + 4 * of_nat j" by blast
    then show "x = d \<or> (\<exists>j < n. x = d + 4 + 4 * of_nat j)" by (cases j) (auto simp: algebra_simps)
  next
    assume "x = d \<or> (\<exists>j < n. x = d + 4 + 4 * of_nat j)"
    then show "\<exists>j < Suc n. x = d + 4 * of_nat j"
      by (auto intro: exI [of _ 0] exI [of _ "Suc _"] simp: algebra_simps)
  qed
  then show ?case unfolding memzero_custom.simps Suc.IH by auto
qed simp

lemma memzero_rest [simp]:
  "physical_memory_bitmap (memzero_custom d n s) = physical_memory_bitmap s"
  "used (memzero_custom d n s) = used s" "bitmap_ok (memzero_custom d n s) = bitmap_ok s"
  "total_allocated_frames (memzero_custom d n s) = total_allocated_frames s"
  "kernel_page_directory (memzero_custom d n s) = kernel_page_directory s"
  by (induction n arbitrary: d s; simp add: poke_def used_def bitmap_ok_def fun_eq_iff)+

lemma memzero_frame:
  assumes "f < 1048576" "g < 1048576" "unat k < 1024"
  shows "phys (memzero_custom (of_nat f * PAGE_SIZE) 1024 s) (cell g k) = (if g = f then 0 else phys s (cell g k))"
proof -
  have "(\<exists>j < 1024. cell g k = of_nat f * PAGE_SIZE + 4 * of_nat j) \<longleftrightarrow> g = f"
  proof
    assume "\<exists>j < 1024. cell g k = of_nat f * PAGE_SIZE + 4 * of_nat j"
    then obtain j where j: "j < 1024" "cell g k = cell f (of_nat j)" by (auto simp: cell_def)
    have "unat (of_nat j :: u32) < 1024" using j(1) by (simp add: unat_of_nat)
    with cell_inject [OF assms(2,3,1), of "of_nat j"] j(2) show "g = f" by simp
  next
    assume "g = f"
    with assms(3) show "\<exists>j < 1024. cell g k = of_nat f * PAGE_SIZE + 4 * of_nat j"
      by (intro exI [of _ "unat k"]) (simp add: cell_def)
  qed
  then show ?thesis by (simp add: memzero_phys)
qed


section \<open>Directories whose tables do not overlap\<close>

abbreviation dir_ix :: "u32 \<Rightarrow> u32" where
  "dir_ix va \<equiv> va div PAGE_SIZE div PAGE_ENTRIES"

abbreviation page_ix :: "u32 \<Rightarrow> u32" where
  "page_ix va \<equiv> va div PAGE_SIZE mod PAGE_ENTRIES"

text \<open>
  The directory starts at frame \<open>d\<close> and takes two frames and a word; every table it holds is a frame of its
  own outside the directory.
\<close>

definition tables_ok :: "nat \<Rightarrow> (u32 \<Rightarrow> u32) \<Rightarrow> bool" where
  "tables_ok d p \<longleftrightarrow> d + 2 < 1048576 \<and>
     (\<forall>i. unat i < 1024 \<longrightarrow> p (cell d i) \<noteq> 0 \<longrightarrow>
        (\<exists>f < 1048576. p (cell d i) = of_nat f * PAGE_SIZE \<and> f \<noteq> d \<and> f \<noteq> d + 1 \<and> f \<noteq> d + 2)) \<and>
     (\<forall>i j. unat i < 1024 \<longrightarrow> unat j < 1024 \<longrightarrow> p (cell d i) \<noteq> 0 \<longrightarrow> p (cell d i) = p (cell d j) \<longrightarrow> i = j)"

definition paging_ok :: "nat \<Rightarrow> paging \<Rightarrow> bool" where
  "paging_ok d s \<longleftrightarrow> bitmap_ok s \<and> tables_ok d (phys s) \<and> used s 0 \<and> used s d \<and> used s (d + 1) \<and> used s (d + 2) \<and>
     (\<forall>i. unat i < 1024 \<longrightarrow> phys s (cell d i) \<noteq> 0 \<longrightarrow> used s (frame_no (phys s (cell d i))))"

lemma ix_less: "unat (dir_ix va) < 1024" "unat (page_ix va) < 1024"
proof -
  have "unat va < 2 ^ 32" using unsigned_less [of va] by simp
  then show "unat (dir_ix va) < 1024" by (simp add: PAGE_SIZE_def PAGE_ENTRIES_def unat_div)
  show "unat (page_ix va) < 1024" by (simp add: PAGE_ENTRIES_def unat_mod)
qed

lemma same_page: "va div PAGE_SIZE = vb div PAGE_SIZE \<longleftrightarrow> dir_ix va = dir_ix vb \<and> page_ix va = page_ix vb"
  by (metis div_mult_mod_eq)

lemma field_addr:
  assumes "d + 2 < 1048576"
  shows "tables (of_nat d * PAGE_SIZE) i = cell d i" "physical_tables (of_nat d * PAGE_SIZE) i = cell (d + 1) i"
  using cell_next [of d i] assms by (simp_all add: tables_def physical_tables_def cell_def)

lemma addr_0: "f < 1048576 \<Longrightarrow> of_nat f * PAGE_SIZE = (0 :: u32) \<longleftrightarrow> f = 0"
  using unat_frame_addr [of f] by (auto simp: word_unat_eq_iff)

lemma tables_okD:
  assumes "tables_ok d p" "unat i < 1024" "p (cell d i) \<noteq> 0"
  obtains f where "f < 1048576" "f \<noteq> 0" "p (cell d i) = of_nat f * PAGE_SIZE" "f \<noteq> d" "f \<noteq> d + 1" "f \<noteq> d + 2"
  using assms addr_0 by (auto simp: tables_ok_def)

text \<open>The address of an entry when the table is there, and its absence otherwise.\<close>

lemma get_entry_found:
  assumes "tables_ok d (phys s)" "phys s (cell d (dir_ix va)) \<noteq> 0"
  shows "get_page_entry va mk (of_nat d * PAGE_SIZE) s = Inr (phys s (cell d (dir_ix va)) + 4 * page_ix va, s)"
  using assms by (simp add: get_page_entry_def Let_def field_addr tables_ok_def)

lemma get_entry_absent:
  assumes "tables_ok d (phys s)" "phys s (cell d (dir_ix va)) = 0"
  shows "get_page_entry va False (of_nat d * PAGE_SIZE) s = Inr (0, s)"
  using assms by (simp add: get_page_entry_def Let_def field_addr tables_ok_def)

definition translation :: "nat \<Rightarrow> (u32 \<Rightarrow> u32) \<Rightarrow> u32 \<Rightarrow> u32" where
  "translation d p va =
     (let t = p (cell d (dir_ix va)); e = unpack (p (t + 4 * page_ix va))
      in if t \<noteq> 0 \<and> present e then ucast (frame e) * PAGE_SIZE + (va AND 0xFFF) else NO_FRAME)"

lemma entry_addr_not_0:
  assumes "f < 1048576" "f \<noteq> 0" "unat k < 1024"
  shows "of_nat f * PAGE_SIZE + 4 * k \<noteq> 0"
proof
  assume "of_nat f * PAGE_SIZE + 4 * k = 0"
  then have "unat (cell f k) = 0" by (simp add: cell_def)
  with unat_cell [OF assms(1,3)] assms(2) show False by simp
qed

lemma get_physical_address_eq:
  assumes "tables_ok d (phys s)"
  shows "get_physical_address va (of_nat d * PAGE_SIZE) s = Inr (translation d (phys s) va)"
proof (cases "phys s (cell d (dir_ix va)) = 0")
  case True
  with get_entry_absent [OF assms True] show ?thesis by (simp add: get_physical_address_def translation_def)
next
  case False
  from tables_okD [OF assms ix_less(1) False] obtain f where
    f: "f < 1048576" "f \<noteq> 0" "phys s (cell d (dir_ix va)) = of_nat f * PAGE_SIZE" by blast
  with entry_addr_not_0 [OF f(1,2) ix_less(2), of va] get_entry_found [OF assms False] False show ?thesis
    by (simp add: get_physical_address_def translation_def entry_def Let_def)
qed

text \<open>What making a table for an address changes in memory.\<close>

definition table_added :: "nat \<Rightarrow> u32 \<Rightarrow> nat \<Rightarrow> (u32 \<Rightarrow> u32) \<Rightarrow> (u32 \<Rightarrow> u32) \<Rightarrow> bool" where
  "table_added d va f p p1 \<longleftrightarrow>
     (\<forall>g k. g < 1048576 \<longrightarrow> unat k < 1024 \<longrightarrow>
        p1 (cell g k) = (if g = d + 1 \<and> k = dir_ix va then of_nat f * PAGE_SIZE OR 7 else if g = f then 0
          else if g = d \<and> k = dir_ix va then of_nat f * PAGE_SIZE else p (cell g k)))"

lemma make_table_step:
  assumes "bitmap_ok s" "d + 2 < 1048576" "phys s (cell d (dir_ix va)) = 0" "lowest_free s f" "f \<noteq> d" "f \<noteq> d + 1"
  shows "\<exists>s1. get_page_entry va True (of_nat d * PAGE_SIZE) s = Inr (of_nat f * PAGE_SIZE + 4 * page_ix va, s1) \<and>
     bitmap_ok s1 \<and> (\<forall>g. used s1 g \<longleftrightarrow> used s g \<or> g = f) \<and> table_added d va f (phys s) (phys s1)"
proof -
  let ?ti = "dir_ix va" and ?f = "of_nat f * PAGE_SIZE :: u32"
  have f: "f < 1048576" using assms(4) by (simp add: lowest_free_def)
  define s0 where "s0 = bitmap_set_bit ?f (poke (cell d ?ti) ?f s)"
  define s1 where "s1 = poke (cell (d + 1) ?ti) (?f OR 7) (memzero_custom ?f 1024 s0)"
  have p: "phys s1 (cell g k) = (if g = d + 1 \<and> k = ?ti then ?f OR 7 else if g = f then 0
        else if g = d \<and> k = ?ti then ?f else phys s (cell g k))"
    if "g < 1048576" "unat k < 1024" for g k
  proof -
    have "phys s1 (cell g k) = (if g = d + 1 \<and> k = ?ti then ?f OR 7 else phys (memzero_custom ?f 1024 s0) (cell g k))"
      using cell_inject [OF that, of "d + 1" ?ti] ix_less(1) [of va] assms(2) by (simp add: s1_def)
    moreover have "phys s0 (cell g k) = (if g = d \<and> k = ?ti then ?f else phys s (cell g k))"
      using cell_inject [OF that, of d ?ti] ix_less(1) [of va] assms(2) by (simp add: s0_def)
    ultimately show ?thesis by (simp only: memzero_frame [OF f that, of s0])
  qed
  have ix: "d < 1048576" using assms(2) by simp
  have "phys s1 (cell d ?ti) = ?f" using p [OF ix ix_less(1) [of va]] assms(5) by simp
  moreover have "get_page_entry va True (of_nat d * PAGE_SIZE) s = Inr (phys s1 (cell d ?ti) + 4 * page_ix va, s1)"
    using find_first_lowest [OF assms(1,4)] frame_addr_not_NO_FRAME [OF f] assms(3)
    by (simp add: get_page_entry_def Let_def field_addr [OF assms(2)] s1_def s0_def)
  moreover have "bitmap_ok s1" using assms(1) by (simp add: s1_def s0_def)
  moreover have "used s1 g \<longleftrightarrow> used s g \<or> g = f" for g
    using used_set_bit [of "poke (cell d ?ti) ?f s" ?f g] assms(1) f by (simp add: s1_def s0_def)
  ultimately show ?thesis using p by (intro exI [of _ s1]) (simp add: table_added_def)
qed

lemma table_added_dir:
  assumes "table_added d va f p p1" "d < 1048576" "f \<noteq> d" "unat k < 1024"
  shows "p1 (cell d k) = (if k = dir_ix va then of_nat f * PAGE_SIZE else p (cell d k))"
  using assms by (simp add: table_added_def)

text \<open>A table put into a frame that no entry names leaves the directory well formed.\<close>

lemma table_added_ok:
  assumes "table_added d va f p p1" "tables_ok d p" "f < 1048576" "f \<noteq> d" "f \<noteq> d + 1" "f \<noteq> d + 2"
    and new: "\<And>k. unat k < 1024 \<Longrightarrow> p (cell d k) \<noteq> of_nat f * PAGE_SIZE"
  shows "tables_ok d p1"
  unfolding tables_ok_def
proof (intro conjI allI impI)
  have d: "d + 2 < 1048576" using assms(2) by (simp add: tables_ok_def)
  then show "d + 2 < 1048576" .
  have "d < 1048576" using d by simp
  note pd = table_added_dir [OF assms(1) this assms(4)]
  fix i assume i: "unat i < 1024" "p1 (cell d i) \<noteq> 0"
  show "\<exists>f < 1048576. p1 (cell d i) = of_nat f * PAGE_SIZE \<and> f \<noteq> d \<and> f \<noteq> d + 1 \<and> f \<noteq> d + 2"
    using pd [OF i(1)] i assms(2-6) by (cases "i = dir_ix va") (auto simp: tables_ok_def)
  fix j assume j: "unat j < 1024" "p1 (cell d i) = p1 (cell d j)"
  show "i = j"
  proof (cases "i = dir_ix va \<or> j = dir_ix va")
    case True
    then show ?thesis using i j pd [OF i(1)] pd [OF j(1)] new [OF i(1)] new [OF j(1)]
      by (cases "i = dir_ix va"; cases "j = dir_ix va") simp_all
  next
    case False
    with i j pd [OF i(1)] pd [OF j(1)] assms(2) show ?thesis by (simp add: tables_ok_def)
  qed
qed

text \<open>An empty table maps nothing, and the other tables are untouched: every address translates as before.\<close>

lemma table_added_translation:
  assumes "table_added d va f p p1" "tables_ok d p" "p (cell d (dir_ix va)) = 0" "f < 1048576" "f \<noteq> d" "f \<noteq> d + 1"
    and new: "\<And>k. unat k < 1024 \<Longrightarrow> p (cell d k) \<noteq> of_nat f * PAGE_SIZE"
  shows "translation d p1 vb = translation d p vb"
proof -
  have "d < 1048576" using assms(2) by (simp add: tables_ok_def)
  note pd = table_added_dir [OF assms(1) this assms(5) ix_less(1), of vb]
  note cells = assms(1) [unfolded table_added_def, rule_format, OF _ ix_less(2), of _ vb]
  consider (made) "dir_ix vb = dir_ix va" | (absent) "dir_ix vb \<noteq> dir_ix va" "p (cell d (dir_ix vb)) = 0"
    | (other) "dir_ix vb \<noteq> dir_ix va" "p (cell d (dir_ix vb)) \<noteq> 0" by blast
  then show ?thesis
  proof cases
    case made
    have "p1 (cell f (page_ix vb)) = 0" using cells [OF assms(4)] assms(6) by simp
    then have "\<not> present (unpack (p1 (of_nat f * PAGE_SIZE + 4 * page_ix vb)))" by (simp add: cell_def unpack_def)
    with made pd assms(3) show ?thesis by (simp add: translation_def Let_def)
  next
    case absent
    with pd show ?thesis by (simp add: translation_def Let_def)
  next
    case other
    from tables_okD [OF assms(2) ix_less(1) other(2)] obtain g where
      g: "g < 1048576" "p (cell d (dir_ix vb)) = of_nat g * PAGE_SIZE" "g \<noteq> d" "g \<noteq> d + 1" by blast
    then have "g \<noteq> f" using new [OF ix_less(1), of vb] by metis
    then have "p1 (of_nat g * PAGE_SIZE + 4 * page_ix vb) = p (of_nat g * PAGE_SIZE + 4 * page_ix vb)"
      using cells [OF g(1)] g(3,4) by (simp add: cell_def)
    with pd other(1) g(2) show ?thesis by (simp add: translation_def Let_def)
  qed
qed

text \<open>A table put into a free frame: the directory stays well formed and every address translates as before.\<close>

lemma make_table:
  assumes "paging_ok d s" "phys s (cell d (dir_ix va)) = 0" "lowest_free s f"
  shows "\<exists>s1. get_page_entry va True (of_nat d * PAGE_SIZE) s = Inr (of_nat f * PAGE_SIZE + 4 * page_ix va, s1) \<and>
     paging_ok d s1 \<and> phys s1 (cell d (dir_ix va)) = of_nat f * PAGE_SIZE \<and>
     translation d (phys s1) = translation d (phys s)"
proof -
  let ?ti = "dir_ix va" and ?f = "of_nat f * PAGE_SIZE :: u32"
  have ok: "bitmap_ok s" "tables_ok d (phys s)" "used s 0" "used s d" "used s (d + 1)" "used s (d + 2)" "d + 2 < 1048576"
    using assms(1) by (auto simp: paging_ok_def tables_ok_def)
  have f: "f < 1048576" "\<not> used s f" using assms(3) by (auto simp: lowest_free_def)
  then have ne: "f \<noteq> 0" "f \<noteq> d" "f \<noteq> d + 1" "f \<noteq> d + 2" using ok(3-6) by metis+
  from make_table_step [OF ok(1,7) assms(2,3) ne(2,3)]
  obtain s1 where s1: "get_page_entry va True (of_nat d * PAGE_SIZE) s = Inr (?f + 4 * page_ix va, s1)"
    "bitmap_ok s1" and u: "\<forall>g. used s1 g \<longleftrightarrow> used s g \<or> g = f" and a: "table_added d va f (phys s) (phys s1)"
    by (elim exE conjE)
  have "d < 1048576" using ok(7) by simp
  note pd = table_added_dir [OF a this ne(2)]
  have kept: "used s (frame_no (phys s (cell d k)))" if "unat k < 1024" "phys s (cell d k) \<noteq> 0" for k
    using assms(1) that by (simp add: paging_ok_def)
  have new: "phys s (cell d k) \<noteq> ?f" if "unat k < 1024" for k
  proof
    assume e: "phys s (cell d k) = ?f"
    then have "phys s (cell d k) \<noteq> 0" using addr_0 [OF f(1)] ne(1) by simp
    from kept [OF that this] e f show False by simp
  qed
  have "used s1 (frame_no (phys s1 (cell d i)))" if "unat i < 1024" "phys s1 (cell d i) \<noteq> 0" for i
    using pd [OF that(1)] that kept [OF that(1)] u f(1) by (cases "i = ?ti") auto
  moreover note table_added_ok [OF a ok(2) f(1) ne(2-4) new]
  ultimately have "paging_ok d s1" using s1(2) u ok by (simp add: paging_ok_def)
  moreover have "translation d (phys s1) = translation d (phys s)"
    by (rule ext) (rule table_added_translation [OF a ok(2) assms(2) f(1) ne(2,3) new])
  ultimately show ?thesis using s1(1) pd [OF ix_less(1), of va] by (intro exI [of _ s1] conjI) simp_all
qed


section \<open>Mapping and translation\<close>

text \<open>The entry of an address, its table made if need be.\<close>

lemma get_entry_make:
  assumes "paging_ok d s" "\<exists>f < 1048576. \<not> used s f"
  shows "\<exists>f s1. get_page_entry va True (of_nat d * PAGE_SIZE) s = Inr (of_nat f * PAGE_SIZE + 4 * page_ix va, s1) \<and>
     f < 1048576 \<and> f \<noteq> 0 \<and> f \<noteq> d \<and> paging_ok d s1 \<and> phys s1 (cell d (dir_ix va)) = of_nat f * PAGE_SIZE \<and>
     translation d (phys s1) = translation d (phys s)"
proof (cases "phys s (cell d (dir_ix va)) = 0")
  case True
  from assms have ok: "bitmap_ok s" "used s 0" "used s d" by (simp_all add: paging_ok_def)
  from find_first_free_frame_eq [OF ok(1)] assms(2) obtain f where f: "lowest_free s f" by blast
  then have "f < 1048576" "\<not> used s f" by (simp_all add: lowest_free_def)
  moreover from this ok have "f \<noteq> 0" "f \<noteq> d" by metis+
  ultimately show ?thesis using make_table [OF assms(1) True f] by blast
next
  case False
  have t: "tables_ok d (phys s)" using assms(1) by (simp add: paging_ok_def)
  from tables_okD [OF t ix_less(1) False] obtain f where
    f: "f < 1048576" "f \<noteq> 0" "phys s (cell d (dir_ix va)) = of_nat f * PAGE_SIZE" "f \<noteq> d" by blast
  with get_entry_found [OF t False, of True] assms(1) show ?thesis by (intro exI [of _ f] exI [of _ s]) simp
qed

text \<open>Writing an entry of a table changes the translation of its page only.\<close>

lemma translation_upd:
  assumes "tables_ok d p" "f < 1048576" "f \<noteq> d" "p (cell d (dir_ix va)) = of_nat f * PAGE_SIZE"
  shows "translation d (p(of_nat f * PAGE_SIZE + 4 * page_ix va := pack e)) vb =
     (if vb div PAGE_SIZE = va div PAGE_SIZE
      then if f \<noteq> 0 \<and> present e then ucast (frame e) * PAGE_SIZE + (vb AND 0xFFF) else NO_FRAME
      else translation d p vb)"
    and "tables_ok d (p(of_nat f * PAGE_SIZE + 4 * page_ix va := pack e))"
    and "unat i < 1024 \<Longrightarrow> (p(of_nat f * PAGE_SIZE + 4 * page_ix va := pack e)) (cell d i) = p (cell d i)"
proof -
  let ?a = "of_nat f * PAGE_SIZE + 4 * page_ix va"
  let ?q = "p(?a := pack e)"
  have a: "?a = cell f (page_ix va)" by (simp add: cell_def)
  have d: "d + 2 < 1048576" using assms(1) by (simp add: tables_ok_def)
  have dir: "?q (cell d i) = p (cell d i)" if "unat i < 1024" for i
    using cell_inject [OF _ that assms(2) ix_less(2), of d va] d assms(3) unfolding a by simp
  then show "unat i < 1024 \<Longrightarrow> ?q (cell d i) = p (cell d i)" .
  show "tables_ok d ?q" using assms(1) dir unfolding tables_ok_def by metis
  show "translation d ?q vb = (if vb div PAGE_SIZE = va div PAGE_SIZE
      then if f \<noteq> 0 \<and> present e then ucast (frame e) * PAGE_SIZE + (vb AND 0xFFF) else NO_FRAME
      else translation d p vb)"
  proof (cases "dir_ix vb = dir_ix va")
    case True
    have "of_nat f * PAGE_SIZE + 4 * page_ix vb = ?a \<longleftrightarrow> page_ix vb = page_ix va"
      using cell_inject [OF assms(2) ix_less(2) assms(2) ix_less(2), of vb va] by (simp add: cell_def)
    with True dir [OF ix_less(1), of vb] assms(4) addr_0 [OF assms(2)] show ?thesis
      unfolding same_page translation_def Let_def by auto
  next
    case False
    show ?thesis
    proof (cases "p (cell d (dir_ix vb)) = 0")
      case nz: False
      from tables_okD [OF assms(1) ix_less(1) nz] obtain g where
        g: "g < 1048576" "p (cell d (dir_ix vb)) = of_nat g * PAGE_SIZE" by blast
      have "g \<noteq> f"
      proof
        assume "g = f"
        then have "p (cell d (dir_ix vb)) = p (cell d (dir_ix va))" using g(2) assms(4) by simp
        with assms(1) nz False ix_less(1) show False by (auto simp: tables_ok_def)
      qed
      then have "of_nat g * PAGE_SIZE + 4 * page_ix vb \<noteq> ?a"
        using cell_inject [OF g(1) ix_less(2) assms(2) ix_less(2), of vb va] by (simp add: cell_def)
      with False g(2) dir [OF ix_less(1), of vb] show ?thesis by (simp add: same_page translation_def Let_def)
    qed (use False dir [OF ix_less(1), of vb] in \<open>simp add: same_page translation_def Let_def\<close>)
  qed
qed

lemma frame_addr_base: "ucast (ucast (a div PAGE_SIZE) :: 20 word) * PAGE_SIZE = a div PAGE_SIZE * PAGE_SIZE"
  unfolding ucast_frame_no frame_addr_of [OF frame_no_less]
  by (rule arg_cong [of _ _ "\<lambda>x. x * PAGE_SIZE"])
    (use frame_no_less [of a] in \<open>simp add: word_unat_eq_iff unat_of_nat take_bit_nat_eq_self frame_no_def PAGE_SIZE_def unat_div\<close>)

text \<open>Mapping a page: its entry, in a table of the directory, now names the frame.\<close>

lemma map_step:
  assumes "paging_ok d s" "\<exists>f < 1048576. \<not> used s f"
  obtains s' f e where "map_virtual_to_physical va pa k w (of_nat d * PAGE_SIZE) s = Inr s'" "paging_ok d s'" "used s' (frame_no pa)"
    "\<And>vb. get_physical_address vb (of_nat d * PAGE_SIZE) s' =
       (if vb div PAGE_SIZE = va div PAGE_SIZE then Inr (pa div PAGE_SIZE * PAGE_SIZE + (vb AND 0xFFF))
        else get_physical_address vb (of_nat d * PAGE_SIZE) s)"
    "f < 1048576" "f \<noteq> 0" "f \<noteq> d" "phys s' (cell d (dir_ix va)) = of_nat f * PAGE_SIZE"
    "entry (of_nat f * PAGE_SIZE + 4 * page_ix va) s' = e" "present e"
proof -
  let ?d = "of_nat d * PAGE_SIZE :: u32" and ?fr = "ucast (pa div PAGE_SIZE) :: 20 word"
  have t: "tables_ok d (phys s)" using assms(1) by (simp add: paging_ok_def)
  from get_entry_make [OF assms, of va] obtain f s1 where
    1: "get_page_entry va True ?d s = Inr (of_nat f * PAGE_SIZE + 4 * page_ix va, s1)" "f < 1048576" "f \<noteq> 0" "f \<noteq> d"
      "paging_ok d s1" "phys s1 (cell d (dir_ix va)) = of_nat f * PAGE_SIZE" "translation d (phys s1) = translation d (phys s)"
    by (elim exE conjE)
  let ?a = "of_nat f * PAGE_SIZE + 4 * page_ix va"
  have t1: "tables_ok d (phys s1)" using 1(5) by (simp add: paging_ok_def)
  define e where "e = (entry ?a s1)\<lparr>present := True, rw := w, user := \<not> k, frame := ?fr\<rparr>"
  define s2 where "s2 = bitmap_set_bit pa (upd_entry ?a (\<lambda>p. p\<lparr>present := True, rw := w, user := \<not> k, frame := ?fr\<rparr>) s1)"
  have run: "map_virtual_to_physical va pa k w ?d s = Inr s2"
    using 1(1) entry_addr_not_0 [OF 1(2,3) ix_less(2), of va] by (simp add: map_virtual_to_physical_def s2_def)
  have p2: "phys s2 = (phys s1)(?a := pack e)" by (simp add: s2_def e_def)
  note tr2 = translation_upd [where e = e, OF t1 1(2,4,6), folded p2]
  have u2: "used s2 g \<longleftrightarrow> used s1 g \<or> g = frame_no pa" for g
    using used_set_bit [of "upd_entry ?a (\<lambda>p. p\<lparr>present := True, rw := w, user := \<not> k, frame := ?fr\<rparr>) s1"] 1(5)
    by (simp add: s2_def paging_ok_def)
  have ok2: "paging_ok d s2"
    using 1(5) tr2(2,3) u2 by (simp add: paging_ok_def) (simp add: s2_def)
  have g2: "get_physical_address vb ?d s2 = (if vb div PAGE_SIZE = va div PAGE_SIZE
      then Inr (pa div PAGE_SIZE * PAGE_SIZE + (vb AND 0xFFF)) else get_physical_address vb ?d s)" for vb
    unfolding get_physical_address_eq [OF tr2(2)] get_physical_address_eq [OF t] tr2(1)
    using 1(3) frame_addr_base [of pa] by (simp add: e_def 1(7))
  have "phys s2 (cell d (dir_ix va)) = of_nat f * PAGE_SIZE" using tr2(3) [OF ix_less(1)] 1(6) by simp
  moreover have "entry ?a s2 = e" "present e" by (simp_all add: entry_def p2, simp add: e_def)
  ultimately show thesis using run ok2 u2 g2 1(2-4) by (intro that [of s2 f e]) simp_all
qed

text \<open>Unmapping it again takes the entry, and with it the translation of the page, away.\<close>

lemma unmap_step:
  assumes "tables_ok d (phys s)" "f < 1048576" "f \<noteq> 0" "f \<noteq> d" "phys s (cell d (dir_ix va)) = of_nat f * PAGE_SIZE"
    "present (entry (of_nat f * PAGE_SIZE + 4 * page_ix va) s)"
  obtains s' where "unmap_virtual_page va (of_nat d * PAGE_SIZE) s = Inr s'"
    "\<And>vb. get_physical_address vb (of_nat d * PAGE_SIZE) s' =
       (if vb div PAGE_SIZE = va div PAGE_SIZE then Inr NO_FRAME else get_physical_address vb (of_nat d * PAGE_SIZE) s)"
proof -
  let ?d = "of_nat d * PAGE_SIZE :: u32" and ?a = "of_nat f * PAGE_SIZE + 4 * page_ix va"
  have found: "get_page_entry va False ?d s = Inr (?a, s)"
    using get_entry_found [OF assms(1), of va False] assms(5) addr_0 [OF assms(2)] assms(3) by simp
  let ?s = "upd_entry ?a (\<lambda>p. p\<lparr>present := False\<rparr>) (free_frame ?a s)"
  have "unmap_virtual_page va ?d s = Inr ?s"
    using found entry_addr_not_0 [OF assms(2,3) ix_less(2), of va] assms(6) by (simp add: unmap_virtual_page_def)
  moreover have "\<exists>e. \<not> present e \<and> phys ?s = (phys s)(?a := pack e)"
    by (rule exI [of _ "(entry ?a (free_frame ?a s))\<lparr>present := False\<rparr>"])
      (simp, simp add: free_frame_def Let_def)
  then obtain e where e: "\<not> present e" "phys ?s = (phys s)(?a := pack e)" by blast
  note tr = translation_upd [where e = e, OF assms(1,2,4,5), folded e(2)]
  have "get_physical_address vb ?d ?s =
      (if vb div PAGE_SIZE = va div PAGE_SIZE then Inr NO_FRAME else get_physical_address vb ?d s)" for vb
    unfolding get_physical_address_eq [OF tr(2)] tr(1) get_physical_address_eq [OF assms(1)] using e(1) by simp
  ultimately show thesis by (rule that)
qed

text \<open>
  C21: with a directory whose tables do not overlap and a free frame for a new table, mapping a page succeeds
  and keeps the directory well formed; every address of that page then translates into the mapped frame with
  the same offset, and every other address translates as before.  Unmapping it again takes away the
  translation of that page and no other.
\<close>
theorem map_translate_unmap:
  assumes "paging_ok d s" "\<exists>f < 1048576. \<not> used s f"
  shows "\<exists>s' s''. map_virtual_to_physical va pa k w (of_nat d * PAGE_SIZE) s = Inr s' \<and> paging_ok d s' \<and>
     used s' (frame_no pa) \<and>
     (\<forall>vb. get_physical_address vb (of_nat d * PAGE_SIZE) s' =
        (if vb div PAGE_SIZE = va div PAGE_SIZE then Inr (pa div PAGE_SIZE * PAGE_SIZE + (vb AND 0xFFF))
         else get_physical_address vb (of_nat d * PAGE_SIZE) s)) \<and>
     unmap_virtual_page va (of_nat d * PAGE_SIZE) s' = Inr s'' \<and>
     (\<forall>vb. get_physical_address vb (of_nat d * PAGE_SIZE) s'' =
        (if vb div PAGE_SIZE = va div PAGE_SIZE then Inr NO_FRAME
         else get_physical_address vb (of_nat d * PAGE_SIZE) s))"
proof -
  from map_step [OF assms, of va pa k w] obtain s' f e where
    m: "map_virtual_to_physical va pa k w (of_nat d * PAGE_SIZE) s = Inr s'" "paging_ok d s'" "used s' (frame_no pa)"
    and get: "\<And>vb. get_physical_address vb (of_nat d * PAGE_SIZE) s' =
       (if vb div PAGE_SIZE = va div PAGE_SIZE then Inr (pa div PAGE_SIZE * PAGE_SIZE + (vb AND 0xFFF))
        else get_physical_address vb (of_nat d * PAGE_SIZE) s)"
    and f: "f < 1048576" "f \<noteq> 0" "f \<noteq> d" "phys s' (cell d (dir_ix va)) = of_nat f * PAGE_SIZE"
      "entry (of_nat f * PAGE_SIZE + 4 * page_ix va) s' = e" "present e" by blast
  have t: "tables_ok d (phys s')" using m(2) by (simp add: paging_ok_def)
  from unmap_step [OF t f(1-4)] f(5,6) obtain s'' where
    "unmap_virtual_page va (of_nat d * PAGE_SIZE) s' = Inr s''"
    "\<And>vb. get_physical_address vb (of_nat d * PAGE_SIZE) s'' =
       (if vb div PAGE_SIZE = va div PAGE_SIZE then Inr NO_FRAME else get_physical_address vb (of_nat d * PAGE_SIZE) s')" by blast
  with m get show ?thesis by (intro exI [of _ s'] exI [of _ s'']) simp
qed

text \<open>A directory in frames 1 to 3.\<close>

definition demo_paging :: paging where
  "demo_paging = blank_paging\<lparr>physical_memory_bitmap := 15 # replicate 32767 0\<rparr>"

lemma demo_paging_ok: "paging_ok 1 demo_paging" "\<not> used demo_paging 4"
proof -
  have "used demo_paging j \<longleftrightarrow> j < 4" if "j < 5" for j
  proof -
    have "j = 0 \<or> j = 1 \<or> j = 2 \<or> j = 3 \<or> j = 4" using that by auto
    then show ?thesis by (elim disjE) (simp_all add: used_def demo_paging_def blank_paging_def bit_numeral_rec)
  qed
  then show "paging_ok 1 demo_paging" "\<not> used demo_paging 4"
    by (simp_all add: paging_ok_def bitmap_ok_def tables_ok_def) (simp_all add: demo_paging_def blank_paging_def)
qed

theorem map_translate_unmap_witness:
  "\<exists>s' s''. map_virtual_to_physical 0x40005000 0x123000 False True (of_nat 1 * PAGE_SIZE) demo_paging = Inr s' \<and>
     paging_ok 1 s' \<and> used s' (frame_no 0x123000) \<and>
     (\<forall>vb. get_physical_address vb (of_nat 1 * PAGE_SIZE) s' =
        (if vb div PAGE_SIZE = 0x40005000 div PAGE_SIZE then Inr (0x123000 div PAGE_SIZE * PAGE_SIZE + (vb AND 0xFFF))
         else get_physical_address vb (of_nat 1 * PAGE_SIZE) demo_paging)) \<and>
     unmap_virtual_page 0x40005000 (of_nat 1 * PAGE_SIZE) s' = Inr s'' \<and>
     (\<forall>vb. get_physical_address vb (of_nat 1 * PAGE_SIZE) s'' =
        (if vb div PAGE_SIZE = 0x40005000 div PAGE_SIZE then Inr NO_FRAME
         else get_physical_address vb (of_nat 1 * PAGE_SIZE) demo_paging))"
  by (rule map_translate_unmap [OF demo_paging_ok(1)]) (use demo_paging_ok(2) in \<open>auto intro: exI [of _ 4]\<close>)


section \<open>The set-up\<close>

lemma foldE_map: "foldE f (map g xs) s = foldE (\<lambda>x. f (g x)) xs s"
  by (induction xs arbitrary: s) (simp_all add: bindE_def split: sum.split)

lemma foldE_upt:
  assumes "\<And>n s. n < N \<Longrightarrow> P n s \<Longrightarrow> \<exists>s'. f n s = Inr s' \<and> P (Suc n) s'" and "P 0 s"
  shows "\<exists>s'. foldE f [0..<N] s = Inr s' \<and> P N s'"
  using assms(1)
proof (induction N)
  case (Suc N)
  then obtain s1 where "foldE f [0..<N] s = Inr s1" "P N s1" by (metis less_SucI)
  moreover from Suc.prems [of N s1] this obtain s2 where "f N s1 = Inr s2" "P (Suc N) s2" by auto
  ultimately show ?case by (simp add: foldE_append)
qed (use assms(2) in simp)

text \<open>What the processor does with an address: page directory at CR3, then the page table.\<close>

definition mmu_translate :: "paging \<Rightarrow> u32 \<Rightarrow> u32 option" where
  "mmu_translate s va =
     (let pde = phys s ((cr3 s AND 0xFFFFF000) + 4 * (va div PAGE_SIZE div PAGE_ENTRIES));
          pte = phys s ((pde AND 0xFFFFF000) + 4 * (va div PAGE_SIZE mod PAGE_ENTRIES))
      in if bit pde 0 \<and> bit pte 0 then Some ((pte AND 0xFFFFF000) + (va AND 0xFFF)) else None)"

definition ident :: "u32 \<Rightarrow> page_table_entry" where
  "ident k = \<lparr>present = True, rw = True, user = False, accessed = False, dirty = False, unused = 0, frame = ucast k\<rparr>"

text \<open>After \<open>n\<close> pages: the directory is frame 0, its table and its array of table addresses share frame 1.\<close>

definition setup_inv :: "nat \<Rightarrow> paging \<Rightarrow> bool" where
  "setup_inv n s \<longleftrightarrow> bitmap_ok s \<and> kernel_page_directory s = 0 \<and> phys s 8192 = 0x1000 \<and>
     (\<forall>k. unat k < 1024 \<longrightarrow> phys s (cell 0 k) = (if n \<noteq> 0 \<and> k = 0 then 0x1000 else 0)) \<and>
     (\<forall>k. unat k < 1024 \<longrightarrow> phys s (cell 1 k) = (if unat k < n then pack (ident k) else 0)) \<and>
     (n = 0 \<longrightarrow> lowest_free s 1)"

lemma kernel_dir_simps [simp]:
  "kernel_page_directory (poke a w s) = kernel_page_directory s"
  "kernel_page_directory (bitmap_set_bit a s) = kernel_page_directory s"
  "kernel_page_directory (upd_entry a f s) = kernel_page_directory s"
  by (simp_all add: poke_def bitmap_set_bit_def upd_bitmap_def upd_entry_def Let_def)

lemma cell_8192: "unat k < 1024 \<Longrightarrow> cell 0 k \<noteq> 8192" "unat k < 1024 \<Longrightarrow> cell 1 k \<noteq> 8192"
  using unat_cell [of 0 k] unat_cell [of 1 k] by (auto simp: word_unat_eq_iff)

lemma cell_01: "unat k < 1024 \<Longrightarrow> unat l < 1024 \<Longrightarrow> cell 0 k = cell 0 l \<longleftrightarrow> k = l"
  "unat k < 1024 \<Longrightarrow> unat l < 1024 \<Longrightarrow> cell 1 k = cell 1 l \<longleftrightarrow> k = l"
  "unat k < 1024 \<Longrightarrow> unat l < 1024 \<Longrightarrow> cell 0 k \<noteq> cell 1 l" "unat k < 1024 \<Longrightarrow> unat l < 1024 \<Longrightarrow> cell 1 k \<noteq> cell 0 l"
  by (simp_all add: cell_inject)

lemma setup_ix:
  assumes "n < 1024"
  shows "dir_ix (of_nat n * PAGE_SIZE) = 0" "page_ix (of_nat n * PAGE_SIZE) = of_nat n" "unat (of_nat n :: u32) = n"
    "(ucast (of_nat n * PAGE_SIZE div PAGE_SIZE) :: 20 word) = ucast (of_nat n :: u32)"
proof -
  show u: "unat (of_nat n :: u32) = n" using assms by (simp add: unat_of_nat)
  have q: "of_nat n * PAGE_SIZE div PAGE_SIZE = (of_nat n :: u32)"
    using assms u unat_frame_addr [of n] by (simp add: word_unat_eq_iff unat_div PAGE_SIZE_def)
  then show "(ucast (of_nat n * PAGE_SIZE div PAGE_SIZE) :: 20 word) = ucast (of_nat n :: u32)" by simp
  show "dir_ix (of_nat n * PAGE_SIZE) = 0" "page_ix (of_nat n * PAGE_SIZE) = of_nat n"
    unfolding q using assms u by (simp_all add: word_unat_eq_iff unat_div unat_mod PAGE_ENTRIES_def)
qed

lemma setup_start:
  assumes "bitmap_ok s" "\<forall>f < 1048576. \<not> used s f" "kernel_page_directory s = 0"
  shows "setup_inv 0 (poke (physical_address 0) (physical_tables 0 0) (memzero_custom 0 2049 (bitmap_set_bit 0 s)))"
proof -
  let ?z = "memzero_custom 0 2049 (bitmap_set_bit 0 s)"
  have z: "phys ?z (of_nat j * 4) = 0" if "j < 2049" for j
    using that by (auto simp: memzero_phys mult.commute)
  have "phys ?z (cell 0 k) = 0" "phys ?z (cell 1 k) = 0" if "unat k < 1024" for k
    using z [of "unat k"] z [of "1024 + unat k"] that by (simp_all add: cell_def PAGE_SIZE_def mult.commute)
  moreover have u: "used ?z g \<longleftrightarrow> used s g \<or> g = 0" for g
    using used_set_bit [OF assms(1), of 0 g] by (simp add: frame_no_def)
  moreover have "lowest_free (poke a w ?z) 1" for a w
    using u assms(2) by (simp add: lowest_free_def)
  ultimately show ?thesis
    using assms(1,3) cell_8192 by (simp add: setup_inv_def physical_address_def physical_tables_def)
qed

text \<open>The first page makes the table, in the frame where the directory has its second array.\<close>

lemma setup_first:
  assumes "setup_inv 0 s"
  shows "\<exists>s'. map_virtual_to_physical 0 0 True True 0 s = Inr s' \<and> setup_inv 1 s'"
proof -
  have ok: "bitmap_ok s" "lowest_free s 1" "kernel_page_directory s = 0" "phys s 8192 = 0x1000"
    "\<And>k. unat k < 1024 \<Longrightarrow> phys s (cell 0 k) = 0" using assms by (auto simp: setup_inv_def)
  define s1 where "s1 = bitmap_set_bit 0x1000 (poke 0 0x1000 s)"
  define s2 where "s2 = poke 0x1000 0x1007 (memzero_custom 0x1000 1024 s1)"
  have c: "cell 0 0 = 0" "cell 1 0 = 0x1000" by (simp_all add: cell_def PAGE_SIZE_def)
  have ff: "find_first_free_frame s = 0x1000" using find_first_lowest [OF ok(1,2)] by (simp add: PAGE_SIZE_def)
  have z: "phys (memzero_custom 0x1000 1024 s1) (cell g k) = (if g = 1 then 0 else phys s1 (cell g k))"
    if "g < 1048576" "unat k < 1024" for g k
    using memzero_frame [of 1 g k s1] that by (simp add: PAGE_SIZE_def)
  have p0: "phys s2 (cell 0 k) = (if k = 0 then 0x1000 else 0)" if "unat k < 1024" for k
    using z [of 0 k] that ok(5) [OF that] cell_01(3) [OF that, of 0] cell_01(1) [OF that, of 0] c
    by (simp add: s2_def s1_def)
  have p1: "phys s2 (cell 1 k) = (if k = 0 then 0x1007 else 0)" if "unat k < 1024" for k
    using z [of 1 k] that cell_01(2) [OF that, of 0] c by (simp add: s2_def)
  have p2: "phys s2 8192 = 0x1000"
  proof -
    have "\<not> (\<exists>j < 1024. (8192 :: u32) = 0x1000 + 4 * of_nat j)"
    proof
      assume "\<exists>j < 1024. (8192 :: u32) = 0x1000 + 4 * of_nat j"
      then obtain j where "j < 1024" "8192 = cell 1 (of_nat j)" by (auto simp: cell_def PAGE_SIZE_def)
      then show False using cell_8192(2) [of "of_nat j"] by (simp add: unat_of_nat)
    qed
    then show ?thesis using ok(4) by (simp add: s2_def s1_def memzero_phys)
  qed
  have get: "get_page_entry 0 True 0 s = Inr (0x1000, s2)"
    using ff ok(5) [of 0] p0 [of 0] c
    by (simp add: get_page_entry_def Let_def tables_def physical_tables_def NO_FRAME_def s2_def s1_def)
  let ?f = "\<lambda>p. p\<lparr>present := True, rw := True, user := False, frame := 0\<rparr>"
  have e: "?f (entry 0x1000 s2) = ident 0"
    using p1 [of 0] c by (simp add: entry_def unpack_def ident_def bit_numeral_rec)
  define s3 where "s3 = bitmap_set_bit 0 (upd_entry 0x1000 ?f s2)"
  have "map_virtual_to_physical 0 0 True True 0 s = Inr s3"
    using get by (simp add: map_virtual_to_physical_def s3_def)
  moreover have ph: "phys s3 = (phys s2)(cell 1 0 := pack (ident 0))" using e c by (simp add: s3_def)
  have "setup_inv 1 s3"
    unfolding setup_inv_def ph
    using p0 p1 p2 ok(1,3) cell_01(3) [of _ 0] cell_01(2) [of _ 0] cell_8192(2) [of 0]
    by (auto simp: s3_def s2_def s1_def unat_eq_zero)
  ultimately show ?thesis by blast
qed

text \<open>The others find it.\<close>

lemma setup_next:
  assumes "setup_inv n s" "0 < n" "n < 1024"
  shows "\<exists>s'. map_virtual_to_physical (of_nat n * PAGE_SIZE) (of_nat n * PAGE_SIZE) True True 0 s = Inr s' \<and>
     setup_inv (Suc n) s'"
proof -
  let ?a = "of_nat n * PAGE_SIZE :: u32" and ?k = "of_nat n :: u32"
  note ix = setup_ix [OF assms(3)]
  have ok: "bitmap_ok s" "kernel_page_directory s = 0" "phys s 8192 = 0x1000"
    "\<And>k. unat k < 1024 \<Longrightarrow> phys s (cell 0 k) = (if k = 0 then 0x1000 else 0)"
    "\<And>k. unat k < 1024 \<Longrightarrow> phys s (cell 1 k) = (if unat k < n then pack (ident k) else 0)"
    using assms(1,2) by (auto simp: setup_inv_def)
  have c: "cell 0 0 = 0" "cell 1 ?k = 0x1000 + 4 * ?k" by (simp_all add: cell_def PAGE_SIZE_def)
  have get: "get_page_entry ?a True 0 s = Inr (cell 1 ?k, s)"
    using ok(4) [of 0] c ix(1,2) by (simp add: get_page_entry_def Let_def tables_def)
  have nz: "cell 1 ?k \<noteq> 0" using cell_01(4) [of ?k 0] ix(3) assms(3) c(1) by simp
  let ?f = "\<lambda>p. p\<lparr>present := True, rw := True, user := False, frame := ucast ?k\<rparr>"
  have e: "?f (entry (cell 1 ?k) s) = ident ?k"
    using ok(5) [of ?k] ix(3) assms(3) by (simp add: entry_def unpack_def ident_def)
  define s3 where "s3 = bitmap_set_bit ?a (upd_entry (cell 1 ?k) ?f s)"
  have "map_virtual_to_physical ?a ?a True True 0 s = Inr s3"
    using get nz ix(4) by (simp add: map_virtual_to_physical_def s3_def)
  moreover have ph: "phys s3 = (phys s)(cell 1 ?k := pack (ident ?k))" using e by (simp add: s3_def)
  have "k = ?k \<longleftrightarrow> unat k = n" for k using ix(3) by (auto simp: word_unat_eq_iff)
  then have "setup_inv (Suc n) s3"
    unfolding setup_inv_def ph
    using ok assms(2,3) ix(3) cell_01(3) [of _ ?k] cell_01(2) [of _ ?k] cell_8192(2) [of ?k]
    by (auto simp: s3_def less_Suc_eq)
  ultimately show ?thesis by blast
qed


lemma page_offset: "va div PAGE_SIZE * PAGE_SIZE + (va AND 0xFFF) = va"
proof -
  have "va AND 0xFFF = take_bit 12 va" by (simp add: take_bit_eq_mask mask_eq_exp_minus_1)
  then have "va AND 0xFFF = va mod PAGE_SIZE" by (simp add: take_bit_eq_mod PAGE_SIZE_def)
  then show ?thesis by (simp only: div_mult_mod_eq)
qed

lemma low_page:
  assumes "va < 0x400000"
  shows "dir_ix va = 0" "page_ix va = va div PAGE_SIZE" "ucast (ucast (va div PAGE_SIZE) :: 20 word) = va div PAGE_SIZE"
proof -
  have "unat va < 4194304" using assms by (simp add: word_less_nat_alt)
  then have u: "unat (va div PAGE_SIZE) < 1024" by (simp add: unat_div PAGE_SIZE_def)
  then show "dir_ix va = 0" "page_ix va = va div PAGE_SIZE"
    by (simp_all add: word_unat_eq_iff unat_div unat_mod PAGE_ENTRIES_def)
  show "ucast (ucast (va div PAGE_SIZE) :: 20 word) = va div PAGE_SIZE"
    using u by (simp add: word_unat_eq_iff unsigned_ucast_eq unsigned_take_bit_eq take_bit_nat_eq_self)
qed

text \<open>The memory and the registers that the set-up leaves: the directory at 0 names one table, which maps itself.\<close>

definition setup_done :: "u32 \<Rightarrow> paging \<Rightarrow> bool" where
  "setup_done handler s \<longleftrightarrow>
     cr3 s = 0x1000 \<and> bit (cr0 s) 31 \<and> kernel_page_directory s = 0 \<and>
     (\<forall>k. unat k < 1024 \<longrightarrow> phys s (cell 0 k) = (if k = 14 then handler else if k = 0 then 0x1000 else 0) \<and>
        phys s (cell 1 k) = pack (ident k))"

lemma setup_doneD:
  assumes "setup_done handler s" "unat k < 1024"
  shows "phys s (cell 0 k) = (if k = 14 then handler else if k = 0 then 0x1000 else 0)" "phys s (cell 1 k) = pack (ident k)"
  using assms by (simp_all add: setup_done_def)

lemma cells_01: "cell 0 0 = 0" "0x1000 + 4 * k = cell 1 k" "4 * k = cell 0 k"
  by (simp_all add: cell_def PAGE_SIZE_def)

lemma setup_maps:
  assumes "setup_inv 0 s1"
  obtains s2 where
    "foldE (\<lambda>i. map_virtual_to_physical i i True True 0) (pages_of 0 0x400000) s1 = Inr s2" "setup_inv 1024 s2"
proof -
  have "\<exists>s2. foldE (\<lambda>n. map_virtual_to_physical (of_nat n * PAGE_SIZE) (of_nat n * PAGE_SIZE) True True 0) [0..<1024] s1 = Inr s2 \<and>
      setup_inv 1024 s2"
  proof (rule foldE_upt)
    fix n s assume "n < 1024" "setup_inv n s"
    then show "\<exists>s'. map_virtual_to_physical (of_nat n * PAGE_SIZE) (of_nat n * PAGE_SIZE) True True 0 s = Inr s' \<and>
        setup_inv (Suc n) s'"
      using setup_first [of s] setup_next [of n s] by (cases "n = 0") auto
  qed (rule assms)
  moreover have "pages_of 0 0x400000 = map (\<lambda>k. of_nat k * PAGE_SIZE) [0..<1024]" by (simp add: pages_of_def)
  ultimately show thesis using that by (simp add: foldE_map) blast
qed

lemma setup_switches:
  assumes "setup_inv 1024 s"
  shows "setup_done handler (switch_page_directory 0 (register_interrupt_handler 14 handler s))"
proof -
  have inv: "kernel_page_directory s = 0" "phys s 8192 = 0x1000"
    "\<And>k. unat k < 1024 \<Longrightarrow> phys s (cell 0 k) = (if k = 0 then 0x1000 else 0)"
    "\<And>k. unat k < 1024 \<Longrightarrow> phys s (cell 1 k) = pack (ident k)"
    using assms by (auto simp: setup_inv_def)
  let ?s = "switch_page_directory 0 (register_interrupt_handler 14 handler s)"
  have ph: "phys ?s = (phys s)(cell 0 14 := handler)"
    by (simp add: switch_page_directory_def register_interrupt_handler_def cell_def)
  have "cr3 ?s = 0x1000" "bit (cr0 ?s) 31" "kernel_page_directory ?s = 0"
    using inv(1,2) by (simp_all add: switch_page_directory_def register_interrupt_handler_def physical_address_def
      poke_def bit_simps bit_numeral_rec)
  moreover have "phys ?s (cell 0 k) = (if k = 14 then handler else if k = 0 then 0x1000 else 0)" if "unat k < 1024" for k
    using inv(3) [OF that] cell_01(1) [OF that, of 14] by (simp add: ph)
  moreover have "phys ?s (cell 1 k) = pack (ident k)" if "unat k < 1024" for k
    using inv(4) [OF that] cell_01(4) [OF that, of 14] by (simp add: ph)
  ultimately show ?thesis by (simp add: setup_done_def)
qed

lemma setup_completes:
  assumes "bitmap_ok s"
  shows "\<exists>s'. initialize_paging_system handler kb s = Inr s' \<and> setup_done handler s'"
proof -
  define s0 where "s0 = s\<lparr>total_system_frames := (kb * 1024) div PAGE_SIZE,
      physical_memory_bitmap := map (\<lambda>_. 0) (physical_memory_bitmap s)\<rparr>"
  have free: "\<not> used s0 f" if "f < 1048576" for f
  proof -
    have "f div 32 < length (physical_memory_bitmap s)" using assms that by (simp add: bitmap_ok_def)
    then show ?thesis by (simp add: used_def s0_def)
  qed
  have ok0: "bitmap_ok s0" using assms by (simp add: bitmap_ok_def s0_def)
  have "lowest_free s0 0" using free by (simp add: lowest_free_def)
  from find_first_lowest [OF ok0 this] have ff: "find_first_free_frame s0 = 0" by simp
  let ?k = "s0\<lparr>kernel_page_directory := 0\<rparr>"
  have k: "bitmap_ok ?k" "\<forall>f < 1048576. \<not> used ?k f" "kernel_page_directory ?k = 0"
    using ok0 free by (simp_all add: bitmap_ok_def used_def)
  from setup_maps [OF setup_start [OF k]] obtain s2 where s2:
    "foldE (\<lambda>i. map_virtual_to_physical i i True True 0) (pages_of 0 0x400000)
       (poke (physical_address 0) (physical_tables 0 0) (memzero_custom 0 2049 (bitmap_set_bit 0 ?k))) = Inr s2"
    "setup_inv 1024 s2" .
  then have "kernel_page_directory s2 = 0" by (simp add: setup_inv_def)
  then have "initialize_paging_system handler kb s = Inr (switch_page_directory 0 (register_interrupt_handler 14 handler s2))"
    using ff s2(1) unfolding initialize_paging_system_def Let_def s0_def [symmetric] by (simp add: NO_FRAME_def)
  then show ?thesis using setup_switches [OF s2(2)] by blast
qed

text \<open>The code, which starts at the directory, finds the first four megabytes mapped to themselves \<dots>\<close>

lemma setup_read_by_code:
  assumes "setup_done handler s" "va < 0x400000"
  shows "get_physical_address va 0 s = Inr va"
proof -
  note l = low_page [OF assms(2)]
  have k: "unat (va div PAGE_SIZE) < 1024" using ix_less(2) [of va] l(2) by simp
  have "phys s 0 = 0x1000" using setup_doneD(1) [OF assms(1), of 0] cells_01(1) by simp
  then have "get_page_entry va False 0 s = Inr (cell 1 (va div PAGE_SIZE), s)"
    using l(1,2) cells_01(2) by (simp add: get_page_entry_def Let_def tables_def)
  moreover have "cell 1 (va div PAGE_SIZE) \<noteq> 0" using cell_01(4) [OF k, of 0] cells_01(1) by simp
  moreover have "phys s (cell 1 (va div PAGE_SIZE)) = pack (ident (va div PAGE_SIZE))"
    by (rule setup_doneD(2) [OF assms(1) k])
  ultimately show ?thesis
    using l(3) page_offset [of va] by (simp add: get_physical_address_def entry_def ident_def)
qed

text \<open>\<dots> and the processor, which starts at the register, finds no entry for them.\<close>

lemma setup_walked_by_processor:
  assumes "setup_done handler s" "va < 0x400000" "va div PAGE_SIZE \<noteq> 14"
  shows "mmu_translate s va = None"
proof -
  note l = low_page [OF assms(2)]
  have k: "unat (va div PAGE_SIZE) < 1024" using ix_less(2) [of va] l(2) by simp
  have "pack (ident 0) = 3" by code_simp
  then have "phys s 0x1000 = 3" using setup_doneD(2) [OF assms(1), of 0] cells_01(2) [of 0] by simp
  moreover have "\<not> bit (phys s (4 * (va div PAGE_SIZE))) 0"
    using setup_doneD(1) [OF assms(1) k] assms(3) cells_01(3) [of "va div PAGE_SIZE"] by simp
  moreover have "cr3 s = 0x1000" using assms(1) by (simp add: setup_done_def)
  ultimately show ?thesis using l(1,2) by (simp add: mmu_translate_def Let_def)
qed

text \<open>
  C23: the set-up succeeds on any memory, turns paging on, and its tables, read by the code, map the first four
  megabytes to themselves; but the directory is put at address 0 with its array of table addresses in the
  frame that the first table then gets, so the processor, walking from CR3, finds page entries where it
  expects the directory and has no translation for any of these addresses (one page aside, whose slot the
  registration of the fault handler overwrites): the kernel loses the memory it runs in.
\<close>
theorem paging_setup_unmaps_the_kernel:
  assumes "bitmap_ok s"
  shows "\<exists>s'. initialize_paging_system handler kb s = Inr s' \<and> bit (cr0 s') 31 \<and> cr3 s' = 0x1000 \<and>
     (\<forall>va < 0x400000. get_physical_address va (kernel_page_directory s') s' = Inr va \<and>
        (va div PAGE_SIZE \<noteq> 14 \<longrightarrow> mmu_translate s' va = None))"
proof -
  from setup_completes [OF assms] obtain s' where run: "initialize_paging_system handler kb s = Inr s'"
    and d: "setup_done handler s'" by blast
  then have "bit (cr0 s') 31" "cr3 s' = 0x1000" "kernel_page_directory s' = 0" by (simp_all add: setup_done_def)
  with run setup_read_by_code [OF d] setup_walked_by_processor [OF d] show ?thesis by auto
qed

theorem paging_setup_unmaps_the_kernel_witness:
  "\<exists>s'. initialize_paging_system 0x100200 65536 blank_paging = Inr s' \<and> bit (cr0 s') 31 \<and> cr3 s' = 0x1000 \<and>
     (\<forall>va < 0x400000. get_physical_address va (kernel_page_directory s') s' = Inr va \<and>
        (va div PAGE_SIZE \<noteq> 14 \<longrightarrow> mmu_translate s' va = None))"
  by (rule paging_setup_unmaps_the_kernel [OF blank_ok(1)])

section \<open>The fault handler\<close>

text \<open>
  The error code's lowest bit is set when the page was present.  The handler gives up when it is clear and
  allocates only when it is set but the entry is not present, so a code that agrees with the entry always
  ends in a panic and no page is ever brought in.
\<close>

lemma page_faults_always_panic:
  assumes "err AND 1 \<noteq> 0 \<Longrightarrow> \<exists>page. get_page_entry cr2 True (current_page_directory s) s = Inr (page, s) \<and> present (entry page s)"
  shows "\<exists>m. page_fault_handler cr2 err s = Inl (Panic m)"
  using assms by (cases "err AND 1 = 0") (auto simp: page_fault_handler_def Let_def)

end
