(* ===== verification/WX_Netbuf.thy ===== *)
theory WX_Netbuf
  imports WX_Bytes
begin

text \<open>
  Packet memory of \<open>internet.h\<close>: byte order, the Internet checksum, the packed headers as records with
  their byte layout, and the pool of 256 packet buffers.  A pointer to a buffer is its index in the pool,
  the null pointer \<open>None\<close>; an access outside the 4096 bytes of a buffer is a fault.
\<close>

section \<open>Bytes and byte order\<close>

definition le16 :: "u16 \<Rightarrow> u8 list" where
  "le16 w = [ucast w, ucast (drop_bit 8 w)]"

definition raw16 :: "u8 \<Rightarrow> u8 \<Rightarrow> u16" where
  "raw16 a b = ucast a OR push_bit 8 (ucast b)"

definition htons :: "u16 \<Rightarrow> u16" where
  "htons x = drop_bit 8 (x AND 0xFF00) OR push_bit 8 (x AND 0x00FF)"

definition htonl :: "u32 \<Rightarrow> u32" where
  "htonl x = drop_bit 24 (x AND 0xFF000000) OR drop_bit 8 (x AND 0x00FF0000) OR
     push_bit 8 (x AND 0x0000FF00) OR push_bit 24 (x AND 0x000000FF)"

definition slice :: "'a list \<Rightarrow> nat \<Rightarrow> nat \<Rightarrow> fault + 'a list" where
  "slice b i n = (if i + n \<le> length b then Inr (take n (drop i b)) else Inl Out_of_bounds)"

text \<open>The loops over bytes, on whole ranges.\<close>

definition wx_memset :: "u8 \<Rightarrow> nat \<Rightarrow> u8 list" where
  "wx_memset val len = replicate len val"

fun wx_memcmp :: "u8 list \<Rightarrow> u8 list \<Rightarrow> nat \<Rightarrow> int" where
  "wx_memcmp s1 s2 0 = 0"
| "wx_memcmp (a # s1) (b # s2) (Suc n) = (if a \<noteq> b then uint a - uint b else wx_memcmp s1 s2 n)"
| "wx_memcmp s1 s2 (Suc n) = 0"

section \<open>The checksum\<close>

fun sum16 :: "u32 \<Rightarrow> u8 list \<Rightarrow> u32" where
  "sum16 w (a # b # p) = sum16 (w + ucast (raw16 a b)) p"
| "sum16 w [a] = w + ucast a"
| "sum16 w [] = w"

lemma unat_u16_less: "unat (w :: u16) < 65536"
  using unsigned_less [of w] by simp

lemma unat_u8_less: "unat (w :: u8) < 256"
  using unsigned_less [of w] by simp

lemma unat_hi: "unat (drop_bit 16 (w :: u32)) = unat w div 65536"
  by (simp add: drop_bit_eq_div unat_div)

lemma fold_less:
  assumes "drop_bit 16 (w :: u32) \<noteq> 0"
  shows "unat ((w AND 0xFFFF) + drop_bit 16 w) < unat w"
    "unat ((w AND 0xFFFF) + drop_bit 16 w) = unat w mod 65536 + unat w div 65536"
proof -
  let ?s = "unat w"
  have l: "unat (w AND 0xFFFF) = ?s mod 65536"
  proof -
    have "w AND 0xFFFF = take_bit 16 w" by (simp add: take_bit_eq_mask mask_eq_exp_minus_1)
    then show ?thesis by (simp add: unsigned_take_bit_eq take_bit_eq_mod unat_mod)
  qed
  have h: "unat (drop_bit 16 w) = ?s div 65536" by (rule unat_hi)
  have b: "?s < 4294967296" using unsigned_less [of w] by simp
  have "?s mod 65536 < 65536" "?s div 65536 < 65536" using b by auto
  then have "?s mod 65536 + ?s div 65536 < 2 ^ 32" by simp
  then show e: "unat ((w AND 0xFFFF) + drop_bit 16 w) = ?s mod 65536 + ?s div 65536"
    using l h by (simp add: unat_word_ariths)
  have "0 < ?s div 65536" using assms h by (metis gr0I unat_eq_zero)
  then have "?s mod 65536 + ?s div 65536 < ?s mod 65536 + 65536 * (?s div 65536)"
    by (intro add_strict_left_mono) linarith
  also have "\<dots> = ?s" by (rule mod_mult_div_eq)
  finally show "unat ((w AND 0xFFFF) + drop_bit 16 w) < ?s" unfolding e .
qed

function fold16 :: "u32 \<Rightarrow> u32" where
  "fold16 w = (if drop_bit 16 w \<noteq> 0 then fold16 ((w AND 0xFFFF) + drop_bit 16 w) else w)"
  by pat_completeness auto

termination
  by (relation "measure unat") (auto simp: fold_less(1))

declare fold16.simps [simp del]

definition wx_checksum :: "u8 list \<Rightarrow> u16" where
  "wx_checksum bs = NOT (ucast (fold16 (sum16 0 bs)))"

section \<open>Headers\<close>

record wx_eth_hdr =
  eth_dest :: "u8 list"
  eth_src :: "u8 list"
  ethertype :: u16

record wx_arp_hdr =
  hw_type :: u16
  proto_type :: u16
  hw_len :: u8
  proto_len :: u8
  opcode :: u16
  sender_mac :: "u8 list"
  sender_ip :: "u8 list"
  target_mac :: "u8 list"
  target_ip :: "u8 list"

record wx_ipv4_hdr =
  ihl :: u8
  version :: u8
  tos :: u8
  total_len :: u16
  ip_id :: u16
  frag_offset :: u16
  ttl :: u8
  protocol :: u8
  ip_checksum :: u16
  src_ip :: "u8 list"
  dest_ip :: "u8 list"

record wx_icmp_hdr =
  icmp_type :: u8
  icmp_code :: u8
  icmp_checksum :: u16
  icmp_id :: u16
  icmp_seq :: u16

record wx_udp_hdr =
  udp_src_port :: u16
  udp_dest_port :: u16
  udp_length :: u16
  udp_checksum :: u16

text \<open>\<open>offset_byte\<close> holds the bits ns, reserved and data offset; \<open>flag_byte\<close> the flags from fin up.\<close>

record wx_tcp_hdr =
  tcp_src_port :: u16
  tcp_dest_port :: u16
  seq_num :: u32
  ack_num :: u32
  offset_byte :: u8
  flag_byte :: u8
  window_size :: u16
  tcp_checksum :: u16
  urgent_ptr :: u16

definition syn :: "wx_tcp_hdr \<Rightarrow> bool" where "syn h = bit (flag_byte h) 1"
definition ack :: "wx_tcp_hdr \<Rightarrow> bool" where "ack h = bit (flag_byte h) 4"

definition eth_bytes :: "wx_eth_hdr \<Rightarrow> u8 list" where
  "eth_bytes h = eth_dest h @ eth_src h @ le16 (ethertype h)"

definition arp_bytes :: "wx_arp_hdr \<Rightarrow> u8 list" where
  "arp_bytes h = le16 (hw_type h) @ le16 (proto_type h) @ [hw_len h, proto_len h] @ le16 (opcode h) @
     sender_mac h @ sender_ip h @ target_mac h @ target_ip h"

definition ipv4_bytes :: "wx_ipv4_hdr \<Rightarrow> u8 list" where
  "ipv4_bytes h = [(ihl h AND 0x0F) OR push_bit 4 (version h), tos h] @ le16 (total_len h) @ le16 (ip_id h) @
     le16 (frag_offset h) @ [ttl h, protocol h] @ le16 (ip_checksum h) @ src_ip h @ dest_ip h"

definition icmp_bytes :: "wx_icmp_hdr \<Rightarrow> u8 list" where
  "icmp_bytes h = [icmp_type h, icmp_code h] @ le16 (icmp_checksum h) @ le16 (icmp_id h) @ le16 (icmp_seq h)"

definition tcp_bytes :: "wx_tcp_hdr \<Rightarrow> u8 list" where
  "tcp_bytes h = le16 (tcp_src_port h) @ le16 (tcp_dest_port h) @ le32 (seq_num h) @ le32 (ack_num h) @
     [offset_byte h, flag_byte h] @ le16 (window_size h) @ le16 (tcp_checksum h) @ le16 (urgent_ptr h)"

text \<open>A header read from the bytes at an offset.\<close>

definition eth_at :: "u8 list \<Rightarrow> nat \<Rightarrow> fault + wx_eth_hdr" where
  "eth_at b i = map_sum id (\<lambda>x. \<lparr>eth_dest = take 6 x, eth_src = take 6 (drop 6 x), ethertype = raw16 (x ! 12) (x ! 13)\<rparr>)
     (slice b i 14)"

definition arp_at :: "u8 list \<Rightarrow> nat \<Rightarrow> fault + wx_arp_hdr" where
  "arp_at b i = map_sum id (\<lambda>x. \<lparr>hw_type = raw16 (x ! 0) (x ! 1), proto_type = raw16 (x ! 2) (x ! 3), hw_len = x ! 4,
       proto_len = x ! 5, opcode = raw16 (x ! 6) (x ! 7), sender_mac = take 6 (drop 8 x), sender_ip = take 4 (drop 14 x),
       target_mac = take 6 (drop 18 x), target_ip = take 4 (drop 24 x)\<rparr>)
     (slice b i 28)"

definition ipv4_at :: "u8 list \<Rightarrow> nat \<Rightarrow> fault + wx_ipv4_hdr" where
  "ipv4_at b i = map_sum id (\<lambda>x. \<lparr>ihl = x ! 0 AND 0x0F, version = drop_bit 4 (x ! 0), tos = x ! 1,
       total_len = raw16 (x ! 2) (x ! 3), ip_id = raw16 (x ! 4) (x ! 5), frag_offset = raw16 (x ! 6) (x ! 7), ttl = x ! 8,
       protocol = x ! 9, ip_checksum = raw16 (x ! 10) (x ! 11), src_ip = take 4 (drop 12 x), dest_ip = take 4 (drop 16 x)\<rparr>)
     (slice b i 20)"

definition icmp_at :: "u8 list \<Rightarrow> nat \<Rightarrow> fault + wx_icmp_hdr" where
  "icmp_at b i = map_sum id (\<lambda>x. \<lparr>icmp_type = x ! 0, icmp_code = x ! 1, icmp_checksum = raw16 (x ! 2) (x ! 3),
       icmp_id = raw16 (x ! 4) (x ! 5), icmp_seq = raw16 (x ! 6) (x ! 7)\<rparr>)
     (slice b i 8)"

definition udp_at :: "u8 list \<Rightarrow> nat \<Rightarrow> fault + wx_udp_hdr" where
  "udp_at b i = map_sum id (\<lambda>x. \<lparr>udp_src_port = raw16 (x ! 0) (x ! 1), udp_dest_port = raw16 (x ! 2) (x ! 3),
       udp_length = raw16 (x ! 4) (x ! 5), udp_checksum = raw16 (x ! 6) (x ! 7)\<rparr>)
     (slice b i 8)"

definition tcp_at :: "u8 list \<Rightarrow> nat \<Rightarrow> fault + wx_tcp_hdr" where
  "tcp_at b i = map_sum id (\<lambda>x. \<lparr>tcp_src_port = raw16 (x ! 0) (x ! 1), tcp_dest_port = raw16 (x ! 2) (x ! 3),
       seq_num = un32 (x ! 4) (x ! 5) (x ! 6) (x ! 7), ack_num = un32 (x ! 8) (x ! 9) (x ! 10) (x ! 11),
       offset_byte = x ! 12, flag_byte = x ! 13, window_size = raw16 (x ! 14) (x ! 15),
       tcp_checksum = raw16 (x ! 16) (x ! 17), urgent_ptr = raw16 (x ! 18) (x ! 19)\<rparr>)
     (slice b i 20)"

section \<open>The buffer pool\<close>

record wx_net_buf =
  buffer :: "u8 list"
  nb_head :: u16
  nb_data :: u16
  nb_tail :: u16
  nb_end :: u16
  network_header :: u32
  transport_header :: u32
  mac_header :: u32

record net_pool =
  buf_pool :: "wx_net_buf list"
  buf_pool_used :: "bool list"

definition WX_NET_BUF_POOL_SIZE :: nat where "WX_NET_BUF_POOL_SIZE = 256"

definition fresh_buf :: wx_net_buf where
  "fresh_buf = \<lparr>buffer = wx_memset 0 4096, nb_head = 256, nb_data = 256, nb_tail = 256, nb_end = 4096,
     network_header = 0, transport_header = 0, mac_header = 0\<rparr>"

definition wx_net_buf_alloc :: "'z net_pool_scheme \<Rightarrow> nat option \<times> 'z net_pool_scheme" where
  "wx_net_buf_alloc s =
     (case first_ix Not (buf_pool_used s) of
        Some i \<Rightarrow> (Some i, s\<lparr>buf_pool_used := (buf_pool_used s)[i := True], buf_pool := (buf_pool s)[i := fresh_buf]\<rparr>)
      | None \<Rightarrow> (None, s))"

definition wx_net_buf_free :: "nat \<Rightarrow> 'z net_pool_scheme \<Rightarrow> 'z net_pool_scheme" where
  "wx_net_buf_free idx s =
     (if idx < WX_NET_BUF_POOL_SIZE then s\<lparr>buf_pool_used := (buf_pool_used s)[idx := False]\<rparr> else s)"

definition upd_buf :: "nat \<Rightarrow> (wx_net_buf \<Rightarrow> wx_net_buf) \<Rightarrow> 'z net_pool_scheme \<Rightarrow> 'z net_pool_scheme" where
  "upd_buf i f s = s\<lparr>buf_pool := (buf_pool s)[i := f (buf_pool s ! i)]\<rparr>"

definition wx_net_buf_reserve :: "nat \<Rightarrow> u16 \<Rightarrow> 'z net_pool_scheme \<Rightarrow> 'z net_pool_scheme" where
  "wx_net_buf_reserve i len = upd_buf i (\<lambda>b. b\<lparr>nb_data := nb_data b + len, nb_tail := nb_tail b + len\<rparr>)"

text \<open>\<open>push\<close>, \<open>put\<close> and \<open>pull\<close> return the offset in the buffer that the C pointer stands for.\<close>

definition wx_net_buf_push :: "nat \<Rightarrow> u16 \<Rightarrow> 'z net_pool_scheme \<Rightarrow> nat \<times> 'z net_pool_scheme" where
  "wx_net_buf_push i len s =
     (let s = upd_buf i (\<lambda>b. b\<lparr>nb_data := nb_data b - len\<rparr>) s in (unat (nb_data (buf_pool s ! i)), s))"

definition wx_net_buf_put :: "nat \<Rightarrow> u16 \<Rightarrow> 'z net_pool_scheme \<Rightarrow> nat \<times> 'z net_pool_scheme" where
  "wx_net_buf_put i len s = (unat (nb_tail (buf_pool s ! i)), upd_buf i (\<lambda>b. b\<lparr>nb_tail := nb_tail b + len\<rparr>) s)"

definition wx_net_buf_pull :: "nat \<Rightarrow> u16 \<Rightarrow> 'z net_pool_scheme \<Rightarrow> nat \<times> 'z net_pool_scheme" where
  "wx_net_buf_pull i len s = (unat (nb_data (buf_pool s ! i)), upd_buf i (\<lambda>b. b\<lparr>nb_data := nb_data b + len\<rparr>) s)"

text \<open>Bytes stored into a buffer at an offset.\<close>

definition store :: "nat \<Rightarrow> nat \<Rightarrow> u8 list \<Rightarrow> 'z net_pool_scheme \<Rightarrow> fault + 'z net_pool_scheme" where
  "store i off bs s =
     map_sum id (\<lambda>b'. upd_buf i (\<lambda>b. b\<lparr>buffer := b'\<rparr>) s) (write_range (buffer (buf_pool s ! i)) off bs)"

section \<open>A checksum verifies\<close>

text \<open>Folding keeps the sum modulo 65535, and only 0 folds to 0.\<close>

lemma fold16_spec:
  "unat (fold16 s) < 65536 \<and> unat (fold16 s) mod 65535 = unat s mod 65535 \<and> (fold16 s = 0 \<longleftrightarrow> s = 0)"
proof (induction s rule: fold16.induct)
  case (1 s)
  show ?case
  proof (cases "drop_bit 16 s = 0")
    case True
    have "unat s div 65536 = 0" using True unat_hi [of s] by simp
    then have "unat s < 65536" by simp
    with True show ?thesis by (simp add: fold16.simps)
  next
    case False
    let ?t = "(s AND 0xFFFF) + drop_bit 16 s"
    have t: "unat ?t = unat s mod 65536 + unat s div 65536" by (rule fold_less(2) [OF False])
    have "unat s = unat s mod 65536 + 65536 * (unat s div 65536)" by simp
    also have "\<dots> = unat ?t + 65535 * (unat s div 65536)" using t by simp
    finally have "unat s mod 65535 = unat ?t mod 65535" by (metis mod_mult_self2)
    moreover have "?t \<noteq> 0"
    proof
      assume "?t = 0"
      then have "unat s div 65536 = 0" using t by simp
      then show False using False unat_hi [of s] by (metis unat_eq_zero)
    qed
    moreover have "s \<noteq> 0" using False by auto
    ultimately show ?thesis using "1.IH" [OF False] False by (subst (1 2 3) fold16.simps) simp
  qed
qed

lemma raw16_le16: "raw16 (ucast w) (ucast (drop_bit 8 w)) = w"
proof (rule bit_eqI)
  fix n assume "possible_bit TYPE(u16) n"
  then have "n < 8 \<or> (8 \<le> n \<and> n < 16)" by auto
  then show "bit (raw16 (ucast w) (ucast (drop_bit 8 w))) n = bit w n" by (auto simp: raw16_def bit_simps)
qed

text \<open>The sum over the words, as a number.\<close>

fun word_sum :: "u8 list \<Rightarrow> nat" where
  "word_sum (a # b # p) = unat (raw16 a b) + word_sum p"
| "word_sum [a] = unat a"
| "word_sum [] = 0"

lemma word_sum_bound: "word_sum bs \<le> 65535 * length bs"
proof (induction bs rule: word_sum.induct)
  case (1 a b p)
  with unat_u16_less [of "raw16 a b"] show ?case by simp
next
  case (2 a)
  show ?case using unat_u8_less [of a] by simp
qed simp

lemma word_sum_append: "even (length xs) \<Longrightarrow> word_sum (xs @ ys) = word_sum xs + word_sum ys"
  by (induction xs rule: word_sum.induct) auto

lemma sum16_eq: "unat s + word_sum bs < 2 ^ 32 \<Longrightarrow> unat (sum16 s bs) = unat s + word_sum bs"
proof (induction s bs rule: sum16.induct)
  case (1 s a b p)
  have "unat (ucast (raw16 a b) :: u32) = unat (raw16 a b)"
    by (simp add: unsigned_ucast_eq) (rule take_bit_nat_eq_self, use unat_u16_less [of "raw16 a b"] in simp)
  then have "unat (s + ucast (raw16 a b)) = unat s + unat (raw16 a b)" using "1.prems" by (simp add: unat_word_ariths)
  with 1 show ?case by simp
next
  case (2 s a)
  have "unat (ucast a :: u32) = unat a"
    by (simp add: unsigned_ucast_eq) (rule take_bit_nat_eq_self, use unat_u8_less [of a] in simp)
  with 2 show ?case by (simp add: unat_word_ariths)
qed simp

lemma unat_checksum:
  "unat (wx_checksum bs) = 65535 - unat (fold16 (sum16 0 bs))"
proof -
  have b: "unat (fold16 (sum16 0 bs)) < 65536" using fold16_spec by blast
  then have "unat (ucast (fold16 (sum16 0 bs)) :: u16) = unat (fold16 (sum16 0 bs))"
    by (simp add: unsigned_ucast_eq take_bit_nat_eq_self)
  moreover have "unat (NOT x) = 65535 - unat x" for x :: u16
  proof -
    have "NOT x = - 1 - x" by (simp add: not_eq_complement)
    moreover have "unat (- 1 - x) = unat (- 1 :: u16) - unat x" by (rule unat_sub) simp
    moreover have "unat (- 1 :: u16) = 65535" by (simp add: unsigned_minus_1_eq_mask mask_eq_exp_minus_1)
    ultimately show ?thesis by simp
  qed
  ultimately show ?thesis by (simp add: wx_checksum_def)
qed

text \<open>What a checksum stored in place of two zero bytes sums to.\<close>

lemma checksum_stored:
  assumes "even (length xs)" "length xs + 2 + length ys \<le> 65536"
  shows "wx_checksum (xs @ le16 (wx_checksum (xs @ 0 # 0 # ys)) @ ys) = 0"
proof -
  let ?c = "wx_checksum (xs @ 0 # 0 # ys)" and ?s = "sum16 0 (xs @ 0 # 0 # ys)"
  let ?t = "sum16 0 (xs @ le16 ?c @ ys)"
  have z: "unat (raw16 0 0) = 0" by (simp add: raw16_def)
  have a: "word_sum (xs @ 0 # 0 # ys) = word_sum xs + word_sum ys"
    using word_sum_append [OF assms(1)] z by simp
  have b: "word_sum (xs @ le16 ?c @ ys) = word_sum xs + word_sum ys + unat ?c"
    using word_sum_append [OF assms(1)] by (simp add: le16_def raw16_le16)
  have "word_sum xs + word_sum ys \<le> 65535 * (length xs + length ys)"
    using word_sum_bound [of xs] word_sum_bound [of ys] by simp
  also have "\<dots> \<le> 65535 * 65534" using assms(2) by simp
  finally have w: "word_sum xs + word_sum ys \<le> 65535 * 65534" .
  have c: "unat ?c < 65536" by (rule unat_u16_less)
  have s: "unat ?s = word_sum xs + word_sum ys" using sum16_eq [of 0 "xs @ 0 # 0 # ys"] a w by simp
  have t: "unat ?t = unat ?s + unat ?c" using sum16_eq [of 0 "xs @ le16 ?c @ ys"] b w s c by simp
  note fs = fold16_spec [of ?s] and ft = fold16_spec [of ?t]
  have cs: "unat ?c = 65535 - unat (fold16 ?s)" by (rule unat_checksum)
  then have cs': "unat ?c + unat (fold16 ?s) = 65535" using fs by simp
  have "unat ?t mod 65535 = (unat ?s mod 65535 + unat ?c) mod 65535" unfolding t by (simp only: mod_add_left_eq)
  also have "unat ?s mod 65535 = unat (fold16 ?s) mod 65535" using fs by (simp only:)
  also have "(unat (fold16 ?s) mod 65535 + unat ?c) mod 65535 = (unat ?c + unat (fold16 ?s)) mod 65535"
    by (simp only: mod_add_left_eq) (simp only: add.commute)
  also have "\<dots> = 0" unfolding cs' by (rule mod_self)
  finally have m: "unat (fold16 ?t) mod 65535 = 0" using ft by (simp only:)
  have "fold16 ?t \<noteq> 0"
  proof
    assume "fold16 ?t = 0"
    then have "unat ?t = 0" using ft by simp
    then have "unat ?s = 0" "unat ?c = 0" using t by simp_all
    then have "fold16 ?s = 0" using fs by (simp add: unat_eq_zero)
    then show False using cs' \<open>unat ?c = 0\<close> by simp
  qed
  then have "0 < unat (fold16 ?t)" by (simp add: unat_gt_0)
  with m ft have "unat (fold16 ?t) = 65535"
    by (cases "unat (fold16 ?t) < 65535") simp_all
  then have "unat (wx_checksum (xs @ le16 ?c @ ys)) = 0" using unat_checksum [of "xs @ le16 ?c @ ys"] by simp
  then show ?thesis by (simp add: unat_eq_zero)
qed

text \<open>The sum goes on over a second piece when the first has whole words, and the byte orders.\<close>

lemma sum16_append: "even (length xs) \<Longrightarrow> sum16 (sum16 w xs) ys = sum16 w (xs @ ys)"
  by (induction w xs rule: sum16.induct) auto

lemma htons_bytes: "htons x = drop_bit 8 (x AND push_bit 8 (mask 8)) OR push_bit 8 (x AND mask 8)"
  by (simp add: htons_def mask_eq_exp_minus_1)

lemma htonl_bytes:
  "htonl x = drop_bit 24 (x AND push_bit 24 (mask 8)) OR drop_bit 8 (x AND push_bit 16 (mask 8)) OR
     push_bit 8 (x AND push_bit 8 (mask 8)) OR push_bit 24 (x AND mask 8)"
  by (simp add: htonl_def mask_eq_exp_minus_1)

lemma htons_htons [simp]: "htons (htons x) = x"
proof (rule bit_eqI)
  fix n assume "possible_bit TYPE(u16) n"
  then have "n < 8 \<or> (8 \<le> n \<and> n < 16)" by auto
  then show "bit (htons (htons x)) n = bit x n" by (auto simp: htons_bytes bit_simps)
qed

lemma le32_htonl: "le32 (htonl x) = rev (le32 x)"
  unfolding le32_def htonl_bytes by (simp, intro conjI bit_eqI; auto simp: bit_simps)

text \<open>
  C27: a checksum stored in place of two zero bytes (at an even offset of at most 64 KiB of data) makes the
  checksum of the whole 0, which is how a receiver verifies it.
\<close>
theorem checksum_verifies:
  assumes "even (length xs)" "length xs + 2 + length ys \<le> 65536"
  shows "wx_checksum (xs @ le16 (wx_checksum (xs @ 0 # 0 # ys)) @ ys) = 0"
  by (rule checksum_stored [OF assms])

theorem checksum_verifies_witness:
  "wx_checksum ([0x45, 0, 0, 20] @ le16 (wx_checksum ([0x45, 0, 0, 20] @ 0 # 0 # [10, 0, 0, 1])) @ [10, 0, 0, 1]) = 0"
  by (rule checksum_verifies) simp_all

end
