(* ===== verification/WX_Net.thy ===== *)
theory WX_Net
  imports WX_Netbuf WX_Kernel
begin

text \<open>
  The network stack of \<open>internet.h\<close>, \<open>ping.h\<close> and \<open>pkg.h\<close>: ARP, IPv4, ICMP echo, the TCP handshake, UDP,
  the e1000 driver and the sockets.  The network card is a parameter of the state: \<open>nic_sends\<close> tells whether it ever
  marks a descriptor as sent, \<open>wire\<close> collects the frames handed to it, \<open>mmio\<close> holds its registers.
\<close>

section \<open>State\<close>

record wx_net_device =
  local_mac :: "u8 list"
  local_ip :: "u8 list"
  netmask :: "u8 list"
  gateway :: "u8 list"
  rx_packets :: u32
  tx_packets :: u32
  rx_bytes :: u32
  tx_bytes :: u32
  errors :: u32

record wx_arp_entry =
  arp_ip :: "u8 list"
  arp_mac :: "u8 list"
  arp_state :: u32
  arp_ttl :: u32

record wx_tcp_tcb =
  local_port :: u32
  remote_port :: u32
  remote_ip :: "u8 list"
  tcb_state :: u32
  snd_una :: u32
  snd_nxt :: u32
  rcv_nxt :: u32
  snd_wnd :: u32
  rcv_wnd :: u32
  tcb_used :: bool

text \<open>Descriptors: the address of descriptor \<open>i\<close> is always that of buffer \<open>i\<close>.\<close>

record wx_e1000_rx_desc =
  rx_length :: u16
  rx_status :: u8

record wx_e1000_tx_desc =
  tx_length :: u16
  tx_cmd :: u8
  tx_sta :: u8

record net = net_pool +
  core_net_dev :: wx_net_device
  arp_cache :: "wx_arp_entry list"
  tcp_sockets :: "wx_tcp_tcb list"
  e1000_tx_ring :: "wx_e1000_tx_desc list"
  e1000_tx_buffers :: "u8 list list"
  e1000_tx_ptr :: nat
  e1000_base :: u32
  mmio :: "u32 \<Rightarrow> u32"
  nic_sends :: bool
  wire :: "u8 list list"

record e1000_rx =
  e1000_rx_ring :: "wx_e1000_rx_desc list"
  e1000_rx_buffers :: "u8 list list"
  e1000_rx_ptr :: nat

definition mmio_write32 :: "u32 \<Rightarrow> u32 \<Rightarrow> net \<Rightarrow> net" where
  "mmio_write32 a v s = s\<lparr>mmio := (mmio s)(a := v)\<rparr>"

section \<open>Sending a frame\<close>

definition wx_e1000_tx_raw :: "nat \<Rightarrow> net \<Rightarrow> fault + net" where
  "wx_e1000_tx_raw i s =
     (let b = buf_pool s ! i; len = word_of_int (uint (nb_tail b) - uint (nb_data b)) :: u32; p = e1000_tx_ptr s in
      if 2048 < len then Inr (wx_net_buf_free i s)
      else
        bindE (slice (buffer b) (unat (nb_data b)) (unat len)) (\<lambda>frame.
        bindE (get (e1000_tx_buffers s) p) (\<lambda>tb.
        bindE (write_range tb 0 frame) (\<lambda>tb.
        bindE (put (e1000_tx_ring s) p \<lparr>tx_length = ucast len, tx_cmd = 0x0B, tx_sta = 0\<rparr>) (\<lambda>ring.
          let ptr = (p + 1) mod 128;
              s = mmio_write32 (e1000_base s + 0x3818) (of_nat ptr)
                    (s\<lparr>e1000_tx_buffers := (e1000_tx_buffers s)[p := tb], e1000_tx_ring := ring, e1000_tx_ptr := ptr,
                       wire := wire s @ [frame]\<rparr>)
          in if nic_sends s then
               let last = (ptr + 127) mod 128; d = core_net_dev s;
                   s = s\<lparr>e1000_tx_ring := ring[last := (ring ! last)\<lparr>tx_sta := 1\<rparr>],
                         core_net_dev := d\<lparr>tx_packets := tx_packets d + 1, tx_bytes := tx_bytes d + len\<rparr>\<rparr>
               in Inr (wx_net_buf_free i s)
             else Inl Spin_forever)))))"

section \<open>ARP\<close>

definition wx_arp_init :: "net \<Rightarrow> net" where
  "wx_arp_init s = s\<lparr>arp_cache := replicate 256 \<lparr>arp_ip = wx_memset 0 4, arp_mac = wx_memset 0 6, arp_state = 0, arp_ttl = 0\<rparr>\<rparr>"

definition arp_hit :: "u8 list \<Rightarrow> wx_arp_entry \<Rightarrow> bool" where
  "arp_hit ip e \<longleftrightarrow> arp_state e = 1 \<and> wx_memcmp (arp_ip e) ip 4 = 0"

definition wx_arp_update :: "u8 list \<Rightarrow> u8 list \<Rightarrow> net \<Rightarrow> net" where
  "wx_arp_update ip mac s =
     (case first_ix (arp_hit ip) (arp_cache s) of
        Some i \<Rightarrow> s\<lparr>arp_cache := (arp_cache s)[i := (arp_cache s ! i)\<lparr>arp_mac := mac, arp_ttl := 3000\<rparr>]\<rparr>
      | None \<Rightarrow>
          (case first_ix (\<lambda>e. arp_state e = 0) (arp_cache s) of
             Some i \<Rightarrow> s\<lparr>arp_cache := (arp_cache s)[i := \<lparr>arp_ip = ip, arp_mac = mac, arp_state = 1, arp_ttl = 3000\<rparr>]\<rparr>
           | None \<Rightarrow> s))"

definition wx_arp_lookup :: "u8 list \<Rightarrow> net \<Rightarrow> u8 list option" where
  "wx_arp_lookup ip s = map_option (\<lambda>i. arp_mac (arp_cache s ! i)) (first_ix (arp_hit ip) (arp_cache s))"

text \<open>The ARP frame that both senders build: reserve, push the ARP header, push the Ethernet header, send.\<close>

definition arp_transmit :: "wx_arp_hdr \<Rightarrow> wx_eth_hdr \<Rightarrow> net \<Rightarrow> fault + net" where
  "arp_transmit arp eth s =
     (case wx_net_buf_alloc s of
        (None, s) \<Rightarrow> Inr s
      | (Some i, s) \<Rightarrow>
          (case wx_net_buf_push i 28 (wx_net_buf_reserve i 64 s) of
             (off, s) \<Rightarrow> bindE (store i off (arp_bytes arp) s) (\<lambda>s.
               case wx_net_buf_push i 14 s of
                 (off, s) \<Rightarrow> bindE (store i off (eth_bytes eth) s) (wx_e1000_tx_raw i))))"

definition wx_arp_send_request :: "u8 list \<Rightarrow> net \<Rightarrow> fault + net" where
  "wx_arp_send_request ip s =
     arp_transmit
       \<lparr>hw_type = htons 1, proto_type = htons 0x0800, hw_len = 6, proto_len = 4, opcode = htons 1,
        sender_mac = local_mac (core_net_dev s), sender_ip = local_ip (core_net_dev s),
        target_mac = wx_memset 0xFF 6, target_ip = ip\<rparr>
       \<lparr>eth_dest = wx_memset 0xFF 6, eth_src = local_mac (core_net_dev s), ethertype = htons 0x0806\<rparr> s"

definition wx_arp_process :: "nat \<Rightarrow> net \<Rightarrow> fault + net" where
  "wx_arp_process i s =
     bindE (arp_at (buffer (buf_pool s ! i)) (unat (nb_data (buf_pool s ! i)))) (\<lambda>arp.
       if htons (hw_type arp) \<noteq> 1 \<or> htons (proto_type arp) \<noteq> 0x0800 then Inr (wx_net_buf_free i s)
       else
         let s = wx_arp_update (sender_ip arp) (sender_mac arp) s; dev = core_net_dev s in
         bindE (if htons (opcode arp) = 1 \<and> wx_memcmp (target_ip arp) (local_ip dev) 4 = 0 then
                  arp_transmit
                    \<lparr>hw_type = htons 1, proto_type = htons 0x0800, hw_len = 6, proto_len = 4, opcode = htons 2,
                     sender_mac = local_mac dev, sender_ip = local_ip dev,
                     target_mac = sender_mac arp, target_ip = sender_ip arp\<rparr>
                    \<lparr>eth_dest = sender_mac arp, eth_src = local_mac dev, ethertype = htons 0x0806\<rparr> s
                else Inr s) (\<lambda>s. Inr (wx_net_buf_free i s)))"

section \<open>IPv4\<close>

definition ip_header :: "u16 \<Rightarrow> u8 \<Rightarrow> u8 list \<Rightarrow> u8 list \<Rightarrow> u16 \<Rightarrow> wx_ipv4_hdr" where
  "ip_header len proto src dest csum =
     \<lparr>ihl = 5, version = 4, tos = 0, total_len = htons len, ip_id = htons 0x1337, frag_offset = 0, ttl = 64,
      protocol = proto, ip_checksum = csum, src_ip = src, dest_ip = dest\<rparr>"

text \<open>The part of \<open>wx_ip_send\<close> after the address is resolved.\<close>

definition ip_transmit :: "nat \<Rightarrow> u8 list \<Rightarrow> u8 list \<Rightarrow> u8 \<Rightarrow> net \<Rightarrow> fault + net" where
  "ip_transmit i dmac dest proto s =
     (case wx_net_buf_push i 20 s of
        (off, s) \<Rightarrow>
          let b = buf_pool s ! i; len = nb_tail b - nb_data b; src = local_ip (core_net_dev s);
              csum = wx_checksum (ipv4_bytes (ip_header len proto src dest 0))
          in bindE (store i off (ipv4_bytes (ip_header len proto src dest csum)) s) (\<lambda>s.
               case wx_net_buf_push i 14 s of
                 (off, s) \<Rightarrow>
                   bindE (store i off (eth_bytes \<lparr>eth_dest = dmac, eth_src = local_mac (core_net_dev s),
                            ethertype = htons 0x0800\<rparr>) s) (wx_e1000_tx_raw i)))"

definition wx_ip_send :: "nat \<Rightarrow> u8 list \<Rightarrow> u8 \<Rightarrow> net \<Rightarrow> fault + net" where
  "wx_ip_send i dest proto s =
     (if dest ! 0 = 255 \<and> dest ! 1 = 255 \<and> dest ! 2 = 255 \<and> dest ! 3 = 255
      then ip_transmit i (wx_memset 0xFF 6) dest proto s
      else
        case wx_arp_lookup dest s of
          None \<Rightarrow> map_sum id (wx_net_buf_free i) (wx_arp_send_request dest s)
        | Some dmac \<Rightarrow> ip_transmit i dmac dest proto s)"

section \<open>ICMP echo\<close>

text \<open>An echo message of type \<open>ty\<close> over a payload of \<open>n\<close> bytes that is already in the buffer.\<close>

definition icmp_push :: "nat \<Rightarrow> u8 \<Rightarrow> u16 \<Rightarrow> u16 \<Rightarrow> nat \<Rightarrow> net \<Rightarrow> fault + net" where
  "icmp_push i ty idn seq len s =
     (case wx_net_buf_push i 8 s of
        (off, s) \<Rightarrow>
          let hdr = (\<lambda>csum. icmp_bytes \<lparr>icmp_type = ty, icmp_code = 0, icmp_checksum = csum, icmp_id = idn, icmp_seq = seq\<rparr>)
          in bindE (store i off (hdr 0) s) (\<lambda>s.
             bindE (slice (buffer (buf_pool s ! i)) off len) (\<lambda>message.
               store i off (hdr (wx_checksum message)) s)))"

definition wx_icmp_process :: "nat \<Rightarrow> wx_ipv4_hdr \<Rightarrow> net \<Rightarrow> fault + net" where
  "wx_icmp_process i ip_hdr s =
     (let b = buf_pool s ! i; d = unat (nb_data b) in
      bindE (icmp_at (buffer b) d) (\<lambda>icmp.
      if icmp_type icmp = 8 \<and> icmp_code icmp = 0 then
        let icmp_len = htons (total_len ip_hdr) - ucast (ihl ip_hdr) * 4 :: u16;
            n = unat (ucast icmp_len - 8 :: u32)
        in case wx_net_buf_alloc s of
             (None, s) \<Rightarrow> Inr (wx_net_buf_free i s)
           | (Some rep, s) \<Rightarrow>
               (case wx_net_buf_put rep (icmp_len - 8) (wx_net_buf_reserve rep 128 s) of
                  (off, s) \<Rightarrow>
                    bindE (slice (buffer (buf_pool s ! i)) (d + 8) n) (\<lambda>data.
                    bindE (store rep off data s) (\<lambda>s.
                    bindE (icmp_push rep 0 (icmp_id icmp) (icmp_seq icmp) (unat icmp_len) s) (\<lambda>s.
                    bindE (wx_ip_send rep (src_ip ip_hdr) 1 s) (\<lambda>s.
                      Inr (wx_net_buf_free i s))))))
      else Inr (wx_net_buf_free i s)))"

section \<open>TCP and UDP\<close>

definition WX_TCP_MAX_SOCKS :: nat where "WX_TCP_MAX_SOCKS = 1024"

definition blank_tcb :: wx_tcp_tcb where
  "blank_tcb = \<lparr>local_port = 0, remote_port = 0, remote_ip = wx_memset 0 4, tcb_state = 0, snd_una = 0, snd_nxt = 0,
     rcv_nxt = 0, snd_wnd = 0, rcv_wnd = 0, tcb_used = False\<rparr>"

definition wx_tcp_init :: "net \<Rightarrow> net" where
  "wx_tcp_init s = s\<lparr>tcp_sockets := replicate WX_TCP_MAX_SOCKS blank_tcb\<rparr>"

definition upd_tcb :: "nat \<Rightarrow> (wx_tcp_tcb \<Rightarrow> wx_tcp_tcb) \<Rightarrow> net \<Rightarrow> net" where
  "upd_tcb k f s = s\<lparr>tcp_sockets := (tcp_sockets s)[k := f (tcp_sockets s ! k)]\<rparr>"

text \<open>The socket of a segment: its connection, else a listener on the port.\<close>

definition find_tcb :: "u16 \<Rightarrow> u16 \<Rightarrow> u8 list \<Rightarrow> wx_tcp_tcb list \<Rightarrow> nat option" where
  "find_tcb src_port dst_port ip socks =
     (case first_ix (\<lambda>t. tcb_used t \<and> local_port t = ucast dst_port \<and> remote_port t = ucast src_port \<and>
                        wx_memcmp (remote_ip t) ip 4 = 0) socks of
        Some k \<Rightarrow> Some k
      | None \<Rightarrow> first_ix (\<lambda>t. tcb_used t \<and> local_port t = ucast dst_port \<and> tcb_state t = 1) socks)"

definition tcp_checksum_of :: "u8 list \<Rightarrow> u8 list \<Rightarrow> wx_tcp_hdr \<Rightarrow> u16" where
  "tcp_checksum_of src dest h =
     NOT (ucast (fold16 (sum16 (sum16 0 (src @ dest @ [0, 6] @ le16 (htons 20))) (tcp_bytes h))))"

text \<open>The answer to a SYN; the sequence number then advances whether or not the segment went out.\<close>

definition syn_ack :: "u8 list \<Rightarrow> wx_tcp_tcb \<Rightarrow> wx_tcp_hdr" where
  "syn_ack src t =
     (let h = \<lparr>tcp_src_port = htons (ucast (local_port t)), tcp_dest_port = htons (ucast (remote_port t)),
               seq_num = htonl (snd_nxt t), ack_num = htonl (rcv_nxt t), offset_byte = push_bit 4 5,
               flag_byte = push_bit 1 1 OR push_bit 4 1, window_size = htons 8192, tcp_checksum = 0, urgent_ptr = 0\<rparr>
      in h\<lparr>tcp_checksum := tcp_checksum_of src (remote_ip t) h\<rparr>)"

definition tcp_answer :: "nat \<Rightarrow> net \<Rightarrow> fault + net" where
  "tcp_answer k s =
     (case wx_net_buf_alloc s of
        (None, s) \<Rightarrow> Inr s
      | (Some resp, s) \<Rightarrow>
          (case wx_net_buf_push resp 20 (wx_net_buf_reserve resp 128 s) of
             (off, s) \<Rightarrow>
               let t = tcp_sockets s ! k
               in bindE (store resp off (tcp_bytes (syn_ack (local_ip (core_net_dev s)) t)) s) (\<lambda>s.
                  map_sum id (upd_tcb k (\<lambda>t. t\<lparr>snd_nxt := snd_nxt t + 1\<rparr>)) (wx_ip_send resp (remote_ip t) 6 s))))"

definition wx_tcp_process :: "nat \<Rightarrow> wx_ipv4_hdr \<Rightarrow> net \<Rightarrow> fault + net" where
  "wx_tcp_process i ip_hdr s =
     bindE (tcp_at (buffer (buf_pool s ! i)) (unat (nb_data (buf_pool s ! i)))) (\<lambda>tcp.
       let src_port = htons (tcp_src_port tcp); dst_port = htons (tcp_dest_port tcp) in
       bindE (case find_tcb src_port dst_port (src_ip ip_hdr) (tcp_sockets s) of
                None \<Rightarrow> Inr s
              | Some k \<Rightarrow>
                  let t = tcp_sockets s ! k in
                  if tcb_state t = 1 \<and> syn tcp \<and> \<not> ack tcp then
                    tcp_answer k (upd_tcb k (\<lambda>t. t\<lparr>remote_port := ucast src_port, remote_ip := src_ip ip_hdr,
                      rcv_nxt := htonl (seq_num tcp) + 1, snd_nxt := 0x89ABCDEF, snd_una := 0x89ABCDEF, tcb_state := 2\<rparr>) s)
                  else if tcb_state t = 2 \<and> ack tcp then
                    Inr (if htonl (ack_num tcp) = snd_nxt t then upd_tcb k (\<lambda>t. t\<lparr>tcb_state := 3\<rparr>) s else s)
                  else Inr s) (\<lambda>s. Inr (wx_net_buf_free i s)))"

definition wx_udp_process :: "nat \<Rightarrow> wx_ipv4_hdr \<Rightarrow> net \<Rightarrow> fault + net" where
  "wx_udp_process i ip_hdr s =
     bindE (udp_at (buffer (buf_pool s ! i)) (unat (nb_data (buf_pool s ! i)))) (\<lambda>udp.
       Inr (wx_net_buf_free i (if 8 \<le> htons (udp_length udp) then snd (wx_net_buf_pull i 8 s) else s)))"

section \<open>Demultiplexing\<close>

definition wx_ip_process :: "nat \<Rightarrow> net \<Rightarrow> fault + net" where
  "wx_ip_process i s =
     bindE (ipv4_at (buffer (buf_pool s ! i)) (unat (nb_data (buf_pool s ! i)))) (\<lambda>ip.
       if version ip \<noteq> 4 \<or> ihl ip < 5 then Inr (wx_net_buf_free i s)
       else if wx_memcmp (dest_ip ip) (local_ip (core_net_dev s)) 4 \<noteq> 0 \<and> dest_ip ip ! 3 \<noteq> 255
       then Inr (wx_net_buf_free i s)
       else
         let s = snd (wx_net_buf_pull i (ucast (ihl ip) * 4) s) in
         if protocol ip = 1 then wx_icmp_process i ip s
         else if protocol ip = 6 then wx_tcp_process i ip s
         else if protocol ip = 17 then wx_udp_process i ip s
         else Inr (wx_net_buf_free i s))"

definition wx_eth_process :: "nat \<Rightarrow> net \<Rightarrow> fault + net" where
  "wx_eth_process i s =
     bindE (eth_at (buffer (buf_pool s ! i)) (unat (nb_data (buf_pool s ! i)))) (\<lambda>eth.
       let type = htons (ethertype eth); s = snd (wx_net_buf_pull i 14 s) in
       if type = 0x0806 then wx_arp_process i s
       else if type = 0x0800 then wx_ip_process i s
       else Inr (wx_net_buf_free i s))"

section \<open>Receiving\<close>

definition wx_e1000_write_mac :: "net \<Rightarrow> net" where
  "wx_e1000_write_mac s =
     (let mac_low = mmio s (e1000_base s + 0x5400); mac_high = mmio s (e1000_base s + 0x5404);
          mac = (if mac_low \<noteq> 0 \<or> mac_high \<noteq> 0
                 then [ucast (mac_low AND 0xFF), ucast (drop_bit 8 mac_low AND 0xFF), ucast (drop_bit 16 mac_low AND 0xFF),
                       ucast (drop_bit 24 mac_low AND 0xFF), ucast (mac_high AND 0xFF), ucast (drop_bit 8 mac_high AND 0xFF)]
                 else [0x52, 0x54, 0x00, 0x12, 0x34, 0x56])
      in s\<lparr>core_net_dev := (core_net_dev s)\<lparr>local_mac := mac\<rparr>\<rparr>)"

text \<open>\<open>rx_at\<close> and \<open>tx_at\<close> are the addresses of the two rings.\<close>

definition wx_e1000_init :: "u32 \<Rightarrow> u32 \<Rightarrow> u32 \<Rightarrow> e1000_rx \<Rightarrow> net \<Rightarrow> e1000_rx \<times> net" where
  "wx_e1000_init rx_at tx_at base_addr r s =
     (let s = wx_e1000_write_mac (s\<lparr>e1000_base := base_addr\<rparr>);
          s = s\<lparr>core_net_dev := (core_net_dev s)\<lparr>local_ip := [192, 168, 1, 100]\<rparr>\<rparr>;
          s = mmio_write32 base_addr (mmio s base_addr OR push_bit 26 1) s;
          r = r\<lparr>e1000_rx_ring := map (\<lambda>d. d\<lparr>rx_status := 0\<rparr>) (e1000_rx_ring r)\<rparr>;
          s = mmio_write32 (base_addr + 0x2800) rx_at s;
          s = mmio_write32 (base_addr + 0x2804) 0 s;
          s = mmio_write32 (base_addr + 0x2808) (128 * 16) s;
          s = mmio_write32 (base_addr + 0x2810) 0 s;
          s = mmio_write32 (base_addr + 0x2818) 127 s;
          s = mmio_write32 (base_addr + 0x0100) (push_bit 1 1 OR push_bit 15 1 OR push_bit 4 1) s;
          s = s\<lparr>e1000_tx_ring := map (\<lambda>d. d\<lparr>tx_cmd := 0, tx_sta := 1\<rparr>) (e1000_tx_ring s)\<rparr>;
          s = mmio_write32 (base_addr + 0x3800) tx_at s;
          s = mmio_write32 (base_addr + 0x3804) 0 s;
          s = mmio_write32 (base_addr + 0x3808) (128 * 16) s;
          s = mmio_write32 (base_addr + 0x3810) 0 s;
          s = mmio_write32 (base_addr + 0x3818) 0 s;
          s = mmio_write32 (base_addr + 0x0400) (push_bit 1 1 OR push_bit 3 1 OR push_bit 4 0x0F OR push_bit 12 0x3F) s
      in (r, wx_tcp_init (wx_arp_init s)))"

text \<open>A received frame: copied into a buffer and processed, dropped when no buffer is free.\<close>

definition receive_frame :: "u16 \<Rightarrow> u8 list \<Rightarrow> net \<Rightarrow> fault + net" where
  "receive_frame len rxb s =
     (case wx_net_buf_alloc s of
        (None, s) \<Rightarrow> Inr s
      | (Some i, s) \<Rightarrow>
          (case wx_net_buf_put i len s of
             (off, s) \<Rightarrow>
               bindE (slice rxb 0 (unat len)) (\<lambda>data.
               bindE (store i off data s) (\<lambda>s.
                 let d = core_net_dev s in
                 wx_eth_process i (s\<lparr>core_net_dev := d\<lparr>rx_packets := rx_packets d + 1, rx_bytes := rx_bytes d + ucast len\<rparr>\<rparr>)))))"

text \<open>The poll loop takes the frames that are there when it starts; each turn hands one descriptor back.\<close>

lemma filter_update_less:
  "p < length xs \<Longrightarrow> P (xs ! p) \<Longrightarrow> \<not> P y \<Longrightarrow> length (filter P (xs[p := y])) < length (filter P xs)"
proof (induction xs arbitrary: p)
  case (Cons x xs)
  then show ?case by (cases p) auto
qed simp

function wx_e1000_poll :: "e1000_rx \<Rightarrow> net \<Rightarrow> fault + (e1000_rx \<times> net)" where
  "wx_e1000_poll r s =
     (let p = e1000_rx_ptr r in
      if p < length (e1000_rx_ring r) then
        let d = e1000_rx_ring r ! p in
        if bit (rx_status d) 0 then
          bindE (get (e1000_rx_buffers r) p) (\<lambda>rxb.
          bindE (receive_frame (rx_length d) rxb s) (\<lambda>s.
            wx_e1000_poll (r\<lparr>e1000_rx_ring := (e1000_rx_ring r)[p := d\<lparr>rx_status := 0\<rparr>], e1000_rx_ptr := (p + 1) mod 128\<rparr>)
              (mmio_write32 (e1000_base s + 0x2818) (of_nat p) s)))
        else Inr (r, s)
      else Inl Out_of_bounds)"
  by pat_completeness auto

termination
  by (relation "measure (\<lambda>(r, s). length (filter (\<lambda>d. bit (rx_status d) 0) (e1000_rx_ring r)))")
    (auto intro!: filter_update_less)

declare wx_e1000_poll.simps [simp del]

section \<open>Sockets\<close>

text \<open>The results are C \<open>int\<close>s, -1 for an error.\<close>

definition wx_socket :: "int \<Rightarrow> int \<Rightarrow> int \<Rightarrow> net \<Rightarrow> int \<times> net" where
  "wx_socket domain type prot s =
     (if domain \<noteq> 2 \<or> type \<noteq> 1 \<or> prot \<noteq> 6 then (-1, s)
      else case first_ix (\<lambda>t. \<not> tcb_used t) (tcp_sockets s) of
             Some k \<Rightarrow> (int k, upd_tcb k (\<lambda>t. t\<lparr>tcb_used := True, tcb_state := 0\<rparr>) s)
           | None \<Rightarrow> (-1, s))"

definition sock_ok :: "int \<Rightarrow> net \<Rightarrow> bool" where
  "sock_ok sockfd s \<longleftrightarrow> \<not> (sockfd < 0 \<or> sockfd \<ge> int WX_TCP_MAX_SOCKS \<or> \<not> tcb_used (tcp_sockets s ! nat sockfd))"

definition wx_bind :: "int \<Rightarrow> u32 \<Rightarrow> net \<Rightarrow> int \<times> net" where
  "wx_bind sockfd port s =
     (if sock_ok sockfd s then (0, upd_tcb (nat sockfd) (\<lambda>t. t\<lparr>local_port := port\<rparr>) s) else (-1, s))"

definition wx_listen :: "int \<Rightarrow> int \<Rightarrow> net \<Rightarrow> int \<times> net" where
  "wx_listen sockfd backlog s =
     (if sock_ok sockfd s then (0, upd_tcb (nat sockfd) (\<lambda>t. t\<lparr>tcb_state := 1\<rparr>) s) else (-1, s))"

text \<open>
  \<open>internetmain\<close>: each turn of its loop is what the card has received by then and the key port's answer, \<open>None\<close> when
  there is no key.  The loop ends at the key 0x10, or (in the model) with the inputs.
\<close>

fun internet_loop :: "((e1000_rx \<Rightarrow> e1000_rx) \<times> u8 option) list \<Rightarrow> e1000_rx \<Rightarrow> net \<Rightarrow> fault + (e1000_rx \<times> net)" where
  "internet_loop [] r s = Inr (r, s)"
| "internet_loop ((nic, key) # turns) r s =
     bindE (wx_e1000_poll (nic r) s) (\<lambda>(r, s). if key = Some 0x10 then Inr (r, s) else internet_loop turns r s)"

definition internetmain ::
    "u32 \<Rightarrow> u32 \<Rightarrow> ((e1000_rx \<Rightarrow> e1000_rx) \<times> u8 option) list \<Rightarrow> e1000_rx \<Rightarrow> net \<Rightarrow> fault + (e1000_rx \<times> net)" where
  "internetmain rx_at tx_at turns r s =
     (case wx_e1000_init rx_at tx_at 0xFEB00000 r s of
        (r, s) \<Rightarrow>
          (case wx_socket 2 1 6 s of
             (srv_sock, s) \<Rightarrow>
               internet_loop turns r (snd (wx_listen srv_sock 10 (snd (wx_bind srv_sock 80 s))))))"

section \<open>ping and pkg\<close>

definition wx_ping_send :: "u8 list \<Rightarrow> u16 \<Rightarrow> u16 \<Rightarrow> net \<Rightarrow> fault + net" where
  "wx_ping_send ip idn seq s =
     (case wx_net_buf_alloc s of
        (None, s) \<Rightarrow> Inr s
      | (Some i, s) \<Rightarrow>
          (case wx_net_buf_put i 4 (wx_net_buf_reserve i 128 s) of
             (off, s) \<Rightarrow>
               bindE (store i off [0xDE, 0xAD, 0xBE, 0xEF] s) (\<lambda>s.
               bindE (icmp_push i 8 idn seq 12 s) (wx_ip_send i ip 1))))"

definition ping :: "net \<Rightarrow> fault + (con list \<times> net)" where
  "ping s = map_sum id (\<lambda>s. ([Print (printnum 127), Print (printnum 0), Print (printnum 0), Print (printnum 1)], s))
     (wx_ping_send [127, 0, 0, 1] 0x1337 0x0001 s)"

definition wx_pkg_listen :: "net \<Rightarrow> con list \<times> net" where
  "wx_pkg_listen s =
     (case wx_socket 2 1 6 s of
        (sockfd, s) \<Rightarrow>
          if sockfd < 0 then ([Print (ln ''Soket acilamadi'')], s)
          else ([Print (ln ''Paketler bekleniyor...'')], upd_tcb (nat sockfd) (\<lambda>t. t\<lparr>tcb_state := 2\<rparr>) s))"

definition wx_pkg_cli_handler :: "char list \<Rightarrow> net \<Rightarrow> fault + (con list \<times> net)" where
  "wx_pkg_cli_handler arg s =
     bindE (get arg 0) (\<lambda>c. Inr (if c = CHR ''s'' then wx_pkg_listen s else ([Print (ln ''Komut: start'')], s)))"

end
