(* ===== verification/WX_Net_Props.thy ===== *)
theory WX_Net_Props
  imports WX_Net
begin

text \<open>
  What the network stack guarantees: every operation returns its buffers to the pool, the frames whose
  processing leaves a buffer, the echo reply, and the TCP handshake.
\<close>

section \<open>Well-formed states\<close>

definition pool_ok :: "net \<Rightarrow> bool" where
  "pool_ok s \<longleftrightarrow> length (buf_pool s) = 256 \<and> length (buf_pool_used s) = 256 \<and>
     (\<forall>b \<in> set (buf_pool s). length (buffer b) = 4096)"

definition driver_ok :: "net \<Rightarrow> bool" where
  "driver_ok s \<longleftrightarrow> nic_sends s \<and> length (e1000_tx_ring s) = 128 \<and> length (e1000_tx_buffers s) = 128 \<and>
     (\<forall>b \<in> set (e1000_tx_buffers s). length b = 2048) \<and> e1000_tx_ptr s < 128"

definition tables_fit :: "net \<Rightarrow> bool" where
  "tables_fit s \<longleftrightarrow> length (local_mac (core_net_dev s)) = 6 \<and> length (local_ip (core_net_dev s)) = 4 \<and>
     (\<forall>e \<in> set (arp_cache s). length (arp_ip e) = 4 \<and> length (arp_mac e) = 6) \<and>
     (\<forall>t \<in> set (tcp_sockets s). length (remote_ip t) = 4)"

definition net_ok :: "net \<Rightarrow> bool" where
  "net_ok s \<longleftrightarrow> pool_ok s \<and> driver_ok s \<and> tables_fit s"

text \<open>What sending a packet leaves alone.\<close>

definition same_conf :: "net \<Rightarrow> net \<Rightarrow> bool" where
  "same_conf s s' \<longleftrightarrow> tcp_sockets s' = tcp_sockets s \<and> arp_cache s' = arp_cache s \<and>
     local_mac (core_net_dev s') = local_mac (core_net_dev s) \<and> local_ip (core_net_dev s') = local_ip (core_net_dev s)"

lemma same_conf_refl [simp]: "same_conf s s"
  by (simp add: same_conf_def)

lemma same_conf_trans: "same_conf s t \<Longrightarrow> same_conf t u \<Longrightarrow> same_conf s u"
  by (simp add: same_conf_def)

lemma net_okD:
  assumes "net_ok s"
  shows "length (buf_pool s) = 256" "length (buf_pool_used s) = 256" "i < 256 \<Longrightarrow> length (buffer (buf_pool s ! i)) = 4096"
    "nic_sends s" "length (e1000_tx_ring s) = 128" "length (e1000_tx_buffers s) = 128" "e1000_tx_ptr s < 128"
    "j < 128 \<Longrightarrow> length (e1000_tx_buffers s ! j) = 2048" "length (local_mac (core_net_dev s)) = 6"
    "length (local_ip (core_net_dev s)) = 4"
  using assms by (auto simp: net_ok_def pool_ok_def driver_ok_def tables_fit_def)

section \<open>Buffers\<close>

lemma upd_buf_simps [simp]:
  "buf_pool_used (upd_buf i f s) = buf_pool_used s" "length (buf_pool (upd_buf i f s)) = length (buf_pool s)"
  "i < length (buf_pool s) \<Longrightarrow> buf_pool (upd_buf i f s) ! i = f (buf_pool s ! i)"
  "j \<noteq> i \<Longrightarrow> buf_pool (upd_buf i f s) ! j = buf_pool s ! j"
  by (simp_all add: upd_buf_def)

lemma same_conf_simps [simp]:
  "same_conf s (upd_buf i f s') = same_conf s s'" "same_conf s (wx_net_buf_free i s') = same_conf s s'"
  "wire (upd_buf i f s) = wire s" "wire (wx_net_buf_free i s) = wire s"
  "core_net_dev (upd_buf i f s) = core_net_dev s" "core_net_dev (wx_net_buf_free i s) = core_net_dev s"
  "arp_cache (upd_buf i f s) = arp_cache s" "arp_cache (wx_net_buf_free i s) = arp_cache s"
  "tcp_sockets (upd_buf i f s) = tcp_sockets s" "tcp_sockets (wx_net_buf_free i s) = tcp_sockets s"
  by (simp_all add: same_conf_def upd_buf_def wx_net_buf_free_def)

lemma net_ok_upd_buf:
  assumes "net_ok s" "i < 256" "\<And>b. length (buffer b) = 4096 \<Longrightarrow> length (buffer (f b)) = 4096"
  shows "net_ok (upd_buf i f s)"
proof -
  have "length (buffer (f (buf_pool s ! i))) = 4096" using assms net_okD(3) by blast
  then show ?thesis using assms(1)
    by (auto simp: net_ok_def pool_ok_def driver_ok_def tables_fit_def upd_buf_def dest!: set_update_subset_insert [THEN subsetD])
qed

lemma net_ok_free: "net_ok s \<Longrightarrow> net_ok (wx_net_buf_free i s)"
  by (simp add: net_ok_def pool_ok_def driver_ok_def tables_fit_def wx_net_buf_free_def)

lemma used_free: "i < 256 \<Longrightarrow> buf_pool_used (wx_net_buf_free i s) = (buf_pool_used s)[i := False]"
  "buf_pool (wx_net_buf_free i s) = buf_pool s"
  by (simp_all add: wx_net_buf_free_def WX_NET_BUF_POOL_SIZE_def)

text \<open>An allocation takes a free slot and leaves the other buffers.\<close>

lemma alloc_cases:
  assumes "net_ok s"
  obtains "wx_net_buf_alloc s = (None, s)" "\<forall>u \<in> set (buf_pool_used s). u"
  | i s' where "wx_net_buf_alloc s = (Some i, s')" "i < 256" "\<not> buf_pool_used s ! i" "net_ok s'" "same_conf s s'"
    "buf_pool_used s' = (buf_pool_used s)[i := True]" "buf_pool s' = (buf_pool s)[i := fresh_buf]" "wire s' = wire s"
    "core_net_dev s' = core_net_dev s"
proof (cases "first_ix Not (buf_pool_used s)")
  case None
  with that(1) show thesis by (auto simp: wx_net_buf_alloc_def first_ix_None)
next
  case (Some i)
  from first_ix_SomeD [OF Some] have i: "i < 256" "\<not> buf_pool_used s ! i" using net_okD(2) [OF assms] by auto
  define s1 where "s1 = s\<lparr>buf_pool_used := (buf_pool_used s)[i := True], buf_pool := (buf_pool s)[i := fresh_buf]\<rparr>"
  have "length (buffer fresh_buf) = 4096" by (simp add: fresh_buf_def wx_memset_def)
  then have "net_ok s1" using assms
    by (auto simp: s1_def net_ok_def pool_ok_def driver_ok_def tables_fit_def dest!: set_update_subset_insert [THEN subsetD])
  then show thesis using Some i
    by (intro that(2) [of i s1]) (simp_all add: wx_net_buf_alloc_def same_conf_def s1_def)
qed

lemma fresh_simps [simp]:
  "nb_data fresh_buf = 256" "nb_tail fresh_buf = 256" "buffer fresh_buf = replicate 4096 0"
  by (simp_all add: fresh_buf_def wx_memset_def)

text \<open>Storing inside a buffer.\<close>

lemma store_ok:
  assumes "net_ok s" "i < 256" "off + length bs \<le> 4096"
  shows "store i off bs s = Inr (upd_buf i (\<lambda>b. b\<lparr>buffer := take off (buffer b) @ bs @ drop (off + length bs) (buffer b)\<rparr>) s)"
    "net_ok (upd_buf i (\<lambda>b. b\<lparr>buffer := take off (buffer b) @ bs @ drop (off + length bs) (buffer b)\<rparr>) s)"
  using assms net_okD(3) [OF assms(1,2)]
  by (auto simp: store_def write_range_def upd_buf_def) (rule net_ok_upd_buf [unfolded upd_buf_def], auto)

lemma slice_ok: "i + n \<le> length b \<Longrightarrow> slice b i n = Inr (take n (drop i b))"
  by (simp add: slice_def)

section \<open>Sending\<close>

text \<open>The bytes from \<open>data\<close> to \<open>tail\<close>.\<close>

definition packet :: "wx_net_buf \<Rightarrow> u8 list" where
  "packet b = take (unat (nb_tail b) - unat (nb_data b)) (drop (unat (nb_data b)) (buffer b))"

definition spans :: "wx_net_buf \<Rightarrow> bool" where
  "spans b \<longleftrightarrow> nb_data b \<le> nb_tail b \<and> unat (nb_tail b) \<le> 4096"

lemma unat_small_u32: "n \<le> 65536 \<Longrightarrow> unat (of_nat n :: u32) = n"
  by (simp add: unat_of_nat take_bit_nat_eq_self)

lemma tx_raw_ok:
  assumes "net_ok s" "i < 256" "spans (buf_pool s ! i)"
  shows "\<exists>s'. wx_e1000_tx_raw i s = Inr s' \<and> net_ok s' \<and> same_conf s s' \<and> buf_pool s' = buf_pool s \<and>
     buf_pool_used s' = (buf_pool_used s)[i := False] \<and>
     wire s' = (if length (packet (buf_pool s ! i)) \<le> 2048 then wire s @ [packet (buf_pool s ! i)] else wire s)"
proof -
  let ?b = "buf_pool s ! i" and ?p = "e1000_tx_ptr s"
  let ?d = "unat (nb_data ?b)" and ?t = "unat (nb_tail ?b)"
  have dt: "?d \<le> ?t" "?t \<le> 4096" using assms(3) by (auto simp: spans_def word_le_nat_alt)
  have lb: "length (buffer ?b) = 4096" by (rule net_okD(3) [OF assms(1,2)])
  define n where "n = ?t - ?d"
  have n: "n \<le> 4096" "?d + n \<le> 4096" using dt by (auto simp: n_def)
  have lp: "length (packet ?b) = n" using dt lb by (simp add: packet_def n_def)
  have "uint (nb_tail ?b) - uint (nb_data ?b) = int n" using dt by (simp add: of_nat_diff n_def)
  then have len: "word_of_int (uint (nb_tail ?b) - uint (nb_data ?b)) = (of_nat n :: u32)" by simp
  have ul: "unat (of_nat n :: u32) = n" by (rule unat_small_u32) (use n in linarith)
  show ?thesis
  proof (cases "n \<le> 2048")
    case False
    then have "2048 < (of_nat n :: u32)" by (simp add: word_less_nat_alt ul)
    then show ?thesis
      using False lp len assms(1,2) by (simp add: wx_e1000_tx_raw_def Let_def net_ok_free used_free)
  next
    case True
    then have small: "\<not> 2048 < (of_nat n :: u32)" by (simp add: word_less_nat_alt ul)
    have sl: "slice (buffer ?b) ?d n = Inr (packet ?b)" using n lb by (simp add: slice_ok packet_def n_def)
    have p: "?p < 128" "length (e1000_tx_buffers s ! ?p) = 2048" using net_okD [OF assms(1)] by auto
    have w: "write_range (e1000_tx_buffers s ! ?p) 0 (packet ?b) =
        Inr (packet ?b @ drop (length (packet ?b)) (e1000_tx_buffers s ! ?p))"
      using True lp p(2) by (simp add: write_range_def)
    show ?thesis
      using True lp len small sl p w assms net_okD(4-6) [OF assms(1)]
      by (auto simp: wx_e1000_tx_raw_def Let_def ul net_ok_def pool_ok_def driver_ok_def tables_fit_def same_conf_def
        mmio_write32_def used_free wx_net_buf_free_def WX_NET_BUF_POOL_SIZE_def dest!: set_update_subset_insert [THEN subsetD])
  qed
qed


section \<open>Headers in front of a packet\<close>

definition pushed :: "nat \<Rightarrow> nat \<Rightarrow> net \<Rightarrow> net" where
  "pushed i k s = upd_buf i (\<lambda>b. b\<lparr>nb_data := nb_data b - of_nat k\<rparr>) s"

lemma unat_minus_small: "k \<le> unat (w :: u16) \<Longrightarrow> unat (w - of_nat k) = unat w - k"
proof -
  assume k: "k \<le> unat w"
  then have "k < 65536" using unat_u16_less [of w] by simp
  then have u: "unat (of_nat k :: u16) = k" by (simp add: unat_of_nat take_bit_nat_eq_self)
  then have "of_nat k \<le> w" using k by (simp add: word_le_nat_alt)
  then show ?thesis using u by (simp add: unat_sub)
qed

lemma push_eq:
  assumes "net_ok s" "i < 256" "k \<le> unat (nb_data (buf_pool s ! i))"
  shows "wx_net_buf_push i (of_nat k) s = (unat (nb_data (buf_pool s ! i)) - k, pushed i k s)"
  using assms net_okD(1) [OF assms(1)] by (simp add: wx_net_buf_push_def pushed_def Let_def unat_minus_small)

text \<open>What does not change when one buffer is written.\<close>

definition only_buf :: "nat \<Rightarrow> net \<Rightarrow> net \<Rightarrow> bool" where
  "only_buf i s s' \<longleftrightarrow> net_ok s' \<and> same_conf s s' \<and> wire s' = wire s \<and> buf_pool_used s' = buf_pool_used s \<and>
     (\<forall>j. j \<noteq> i \<longrightarrow> buf_pool s' ! j = buf_pool s ! j)"

lemma only_buf_trans: "only_buf i s t \<Longrightarrow> only_buf i t u \<Longrightarrow> only_buf i s u"
  by (auto simp: only_buf_def dest: same_conf_trans)

lemma only_buf_upd:
  assumes "net_ok s" "i < 256" "\<And>b. length (buffer b) = 4096 \<Longrightarrow> length (buffer (f b)) = 4096"
  shows "only_buf i s (upd_buf i f s)"
  using net_ok_upd_buf [OF assms] by (simp add: only_buf_def)

lemma store_pushed:
  assumes "net_ok s" "i < 256" "spans (buf_pool s ! i)" "length bs \<le> unat (nb_data (buf_pool s ! i))"
  shows "\<exists>s'. store i (unat (nb_data (buf_pool s ! i)) - length bs) bs (pushed i (length bs) s) = Inr s' \<and> only_buf i s s' \<and>
     spans (buf_pool s' ! i) \<and> packet (buf_pool s' ! i) = bs @ packet (buf_pool s ! i) \<and>
     unat (nb_data (buf_pool s' ! i)) = unat (nb_data (buf_pool s ! i)) - length bs \<and>
     nb_tail (buf_pool s' ! i) = nb_tail (buf_pool s ! i)"
proof -
  let ?b = "buf_pool s ! i" and ?k = "length bs"
  let ?d = "unat (nb_data ?b)" and ?t = "unat (nb_tail ?b)"
  have dt: "?d \<le> ?t" "?t \<le> 4096" "?k \<le> ?d" using assms(3,4) by (auto simp: spans_def word_le_nat_alt)
  have l: "length (buf_pool s) = 256" "length (buffer ?b) = 4096" using net_okD(1,3) [OF assms(1)] assms(2) by auto
  have nd: "unat (nb_data ?b - of_nat ?k) = ?d - ?k" by (rule unat_minus_small [OF dt(3)])
  have p: "net_ok (pushed i ?k s)" unfolding pushed_def by (rule net_ok_upd_buf [OF assms(1,2)]) simp
  have fits: "?d - ?k + length bs \<le> 4096" using dt by simp
  define f where "f = (\<lambda>b :: wx_net_buf. b\<lparr>buffer := take (?d - ?k) (buffer b) @ bs @ drop (?d - ?k + length bs) (buffer b)\<rparr>)"
  define s' where "s' = upd_buf i f (pushed i ?k s)"
  have st: "store i (?d - ?k) bs (pushed i ?k s) = Inr s'" "net_ok s'"
    unfolding s'_def f_def using store_ok [OF p assms(2) fits] by auto
  have b': "buf_pool s' ! i = ?b\<lparr>nb_data := nb_data ?b - of_nat ?k, buffer := take (?d - ?k) (buffer ?b) @ bs @ drop ?d (buffer ?b)\<rparr>"
    using l(1) assms(2) dt(3) by (simp add: s'_def f_def pushed_def)
  have "only_buf i s s'" using st(2) by (simp add: only_buf_def s'_def pushed_def)
  moreover have "spans (buf_pool s' ! i)" using b' nd dt by (simp add: spans_def word_le_nat_alt)
  moreover have "packet (buf_pool s' ! i) = bs @ packet ?b"
  proof -
    have "drop (?d - ?k) (take (?d - ?k) (buffer ?b) @ bs @ drop ?d (buffer ?b)) = bs @ drop ?d (buffer ?b)"
      using dt l(2) by simp
    moreover have "?t - (?d - ?k) = length bs + (?t - ?d)" using dt by simp
    ultimately show ?thesis unfolding packet_def b' by (simp add: nd)
  qed
  ultimately show ?thesis using st(1) b' nd by (intro exI [of _ s']) simp
qed

text \<open>Lengths of the headers.\<close>

lemma length_le16 [simp]: "length (le16 w) = 2"
  by (simp add: le16_def)

lemma length_headers:
  "length (eth_dest e) = 6 \<Longrightarrow> length (eth_src e) = 6 \<Longrightarrow> length (eth_bytes e) = 14"
  "length (sender_mac a) = 6 \<Longrightarrow> length (sender_ip a) = 4 \<Longrightarrow> length (target_mac a) = 6 \<Longrightarrow> length (target_ip a) = 4 \<Longrightarrow>
     length (arp_bytes a) = 28"
  "length (src_ip h) = 4 \<Longrightarrow> length (dest_ip h) = 4 \<Longrightarrow> length (ipv4_bytes h) = 20"
  "length (icmp_bytes c) = 8" "length (tcp_bytes t) = 20"
  by (simp_all add: eth_bytes_def arp_bytes_def ipv4_bytes_def icmp_bytes_def tcp_bytes_def)

text \<open>An ARP frame goes out when a buffer is free; the pool is as before.\<close>

definition pool_kept :: "net \<Rightarrow> net \<Rightarrow> bool" where
  "pool_kept s s' \<longleftrightarrow> net_ok s' \<and> same_conf s s' \<and> buf_pool_used s' = buf_pool_used s \<and>
     (\<forall>j < 256. buf_pool_used s ! j \<longrightarrow> buf_pool s' ! j = buf_pool s ! j)"

lemma arp_transmit_ok:
  assumes "net_ok s" "length (arp_bytes arp) = 28" "length (eth_bytes eth) = 14"
  shows "\<exists>s'. arp_transmit arp eth s = Inr s' \<and> pool_kept s s' \<and>
     wire s' = (if \<forall>u \<in> set (buf_pool_used s). u then wire s else wire s @ [eth_bytes eth @ arp_bytes arp])"
  using assms(1)
proof (cases rule: alloc_cases)
  case 1
  then show ?thesis using assms(1) by (simp add: arp_transmit_def pool_kept_def)
next
  case (2 i s0)
  have free: "\<not> (\<forall>u \<in> set (buf_pool_used s). u)" using 2(2,3) net_okD(2) [OF assms(1)] by (metis nth_mem)
  let ?s1 = "wx_net_buf_reserve i 64 s0"
  have l: "length (buf_pool s0) = 256" by (rule net_okD(1) [OF 2(4)])
  have b0: "buf_pool s0 ! i = fresh_buf" using 2(2,7) net_okD(1) [OF assms(1)] by simp
  have ob1: "only_buf i s0 ?s1" unfolding wx_net_buf_reserve_def by (rule only_buf_upd [OF 2(4,2)]) simp
  then have n1: "net_ok ?s1" by (simp add: only_buf_def)
  have b1: "nb_data (buf_pool ?s1 ! i) = 320" "nb_tail (buf_pool ?s1 ! i) = 320"
    using l 2(2) b0 by (simp_all add: wx_net_buf_reserve_def)
  then have s1: "spans (buf_pool ?s1 ! i)" "packet (buf_pool ?s1 ! i) = []" by (simp_all add: spans_def packet_def)
  have "length (arp_bytes arp) \<le> unat (nb_data (buf_pool ?s1 ! i))" using assms(2) b1 by simp
  from store_pushed [OF n1 2(2) s1(1) this] obtain s2 where
    s2: "store i 292 (arp_bytes arp) (pushed i 28 ?s1) = Inr s2" "only_buf i ?s1 s2" "spans (buf_pool s2 ! i)"
      "packet (buf_pool s2 ! i) = arp_bytes arp" "unat (nb_data (buf_pool s2 ! i)) = 292"
    using assms(2) b1 s1(2) by auto
  have n2: "net_ok s2" using s2(2) by (simp add: only_buf_def)
  have "length (eth_bytes eth) \<le> unat (nb_data (buf_pool s2 ! i))" using assms(3) s2(5) by simp
  from store_pushed [OF n2 2(2) s2(3) this] obtain s3 where
    s3: "store i 278 (eth_bytes eth) (pushed i 14 s2) = Inr s3" "only_buf i s2 s3" "spans (buf_pool s3 ! i)"
      "packet (buf_pool s3 ! i) = eth_bytes eth @ arp_bytes arp"
    using assms(3) s2(4,5) by auto
  have n3: "net_ok s3" using s3(2) by (simp add: only_buf_def)
  from tx_raw_ok [OF n3 2(2) s3(3)] obtain s4 where
    s4: "wx_e1000_tx_raw i s3 = Inr s4" "net_ok s4" "same_conf s3 s4" "buf_pool s4 = buf_pool s3"
      "buf_pool_used s4 = (buf_pool_used s3)[i := False]" "wire s4 = wire s3 @ [eth_bytes eth @ arp_bytes arp]"
    using s3(4) assms(2,3) by auto
  have "wx_net_buf_push i 28 ?s1 = (292, pushed i 28 ?s1)" "wx_net_buf_push i 14 s2 = (278, pushed i 14 s2)"
    using push_eq [OF n1 2(2), of 28] push_eq [OF n2 2(2), of 14] b1(1) s2(5) by simp_all
  then have run: "arp_transmit arp eth s = Inr s4" using 2(1) s2(1) s3(1) s4(1) by (simp add: arp_transmit_def)
  have ob: "only_buf i s0 s3" using ob1 s2(2) s3(2) by (blast intro: only_buf_trans)
  have "buf_pool_used s4 = buf_pool_used s" using s4(5) ob 2(3,6) by (simp add: only_buf_def) (metis list_update_id)
  moreover have "buf_pool s4 ! j = buf_pool s ! j" if "buf_pool_used s ! j" for j
  proof -
    have "j \<noteq> i" using that 2(3) by auto
    then show ?thesis using s4(4) ob 2(7) by (simp add: only_buf_def)
  qed
  moreover have "same_conf s s4" "wire s4 = wire s @ [eth_bytes eth @ arp_bytes arp]"
    using ob 2(5,8) s4(3,6) by (auto simp: only_buf_def dest: same_conf_trans)
  ultimately show ?thesis using run s4(2) free by (auto simp: pool_kept_def)
qed


section \<open>IP packets\<close>

text \<open>The frame of an IP packet.\<close>

definition ip_frame :: "net \<Rightarrow> u8 list \<Rightarrow> u8 list \<Rightarrow> u8 \<Rightarrow> u8 list \<Rightarrow> u8 list" where
  "ip_frame s dmac dest proto payload =
     (let len = of_nat (20 + length payload); src = local_ip (core_net_dev s);
          csum = wx_checksum (ipv4_bytes (ip_header len proto src dest 0))
      in eth_bytes \<lparr>eth_dest = dmac, eth_src = local_mac (core_net_dev s), ethertype = htons 0x0800\<rparr> @
         ipv4_bytes (ip_header len proto src dest csum) @ payload)"

lemma ip_header_simps [simp]:
  "src_ip (ip_header len proto src dest csum) = src" "dest_ip (ip_header len proto src dest csum) = dest"
  by (simp_all add: ip_header_def)

lemma length_packet: "spans b \<Longrightarrow> length (buffer b) = 4096 \<Longrightarrow> length (packet b) = unat (nb_tail b) - unat (nb_data b)"
  by (auto simp: packet_def spans_def word_le_nat_alt)

lemma ip_transmit_ok:
  assumes "net_ok s" "i < 256" "spans (buf_pool s ! i)" "34 \<le> unat (nb_data (buf_pool s ! i))"
    "length dmac = 6" "length dest = 4"
  shows "\<exists>s'. ip_transmit i dmac dest proto s = Inr s' \<and> net_ok s' \<and> same_conf s s' \<and>
     buf_pool_used s' = (buf_pool_used s)[i := False] \<and> (\<forall>j. j \<noteq> i \<longrightarrow> buf_pool s' ! j = buf_pool s ! j) \<and>
     wire s' = (if length (packet (buf_pool s ! i)) + 34 \<le> 2048
       then wire s @ [ip_frame s dmac dest proto (packet (buf_pool s ! i))] else wire s)"
proof -
  let ?b = "buf_pool s ! i"
  let ?d = "unat (nb_data ?b)" and ?t = "unat (nb_tail ?b)"
  let ?pkt = "packet ?b" and ?src = "local_ip (core_net_dev s)"
  have dt: "?d \<le> ?t" "?t \<le> 4096" using assms(3) by (auto simp: spans_def word_le_nat_alt)
  have lb: "length (buffer ?b) = 4096" "length (buf_pool s) = 256" using net_okD(1,3) [OF assms(1)] assms(2) by auto
  have lp: "length ?pkt = ?t - ?d" by (rule length_packet [OF assms(3) lb(1)])
  have lens: "length (local_mac (core_net_dev s)) = 6" "length ?src = 4" using net_okD(9,10) [OF assms(1)] by auto
  define len where "len = (of_nat (20 + length ?pkt) :: u16)"
  define ih where "ih = ipv4_bytes (ip_header len proto ?src dest (wx_checksum (ipv4_bytes (ip_header len proto ?src dest 0))))"
  define eh where "eh = eth_bytes \<lparr>eth_dest = dmac, eth_src = local_mac (core_net_dev s), ethertype = htons 0x0800\<rparr>"
  have lh: "length ih = 20" "length eh = 14" using lens assms(5,6) by (simp_all add: ih_def eh_def length_headers)
  have pb: "buf_pool (pushed i 20 s) ! i = ?b\<lparr>nb_data := nb_data ?b - 20\<rparr>" "core_net_dev (pushed i 20 s) = core_net_dev s"
    using lb(2) assms(2) by (simp_all add: pushed_def)
  have nl: "nb_tail ?b - (nb_data ?b - 20) = len"
  proof -
    have u1: "unat (nb_data ?b - 20) = ?d - 20" using unat_minus_small [of 20 "nb_data ?b"] assms(4) by simp
    then have "nb_data ?b - 20 \<le> nb_tail ?b" using dt by (simp add: word_le_nat_alt)
    then have "unat (nb_tail ?b - (nb_data ?b - 20)) = ?t - (?d - 20)" using u1 by (simp add: unat_sub)
    moreover have "unat len = 20 + length ?pkt" unfolding len_def
      by (simp only: unat_of_nat) (rule mod_less, use lp dt in simp)
    moreover have "?t - (?d - 20) = 20 + length ?pkt" using lp dt assms(4) by simp
    ultimately show ?thesis by (simp add: word_unat_eq_iff)
  qed
  have "length ih \<le> ?d" using lh assms(4) by simp
  from store_pushed [OF assms(1-3) this] obtain s2 where
    s2: "store i (?d - 20) ih (pushed i 20 s) = Inr s2" "only_buf i s s2" "spans (buf_pool s2 ! i)"
      "packet (buf_pool s2 ! i) = ih @ ?pkt" "unat (nb_data (buf_pool s2 ! i)) = ?d - 20" using lh by auto
  have n2: "net_ok s2" "same_conf s s2" using s2(2) by (simp_all add: only_buf_def)
  have "length eh \<le> unat (nb_data (buf_pool s2 ! i))" using lh assms(4) s2(5) by simp
  from store_pushed [OF n2(1) assms(2) s2(3) this] obtain s3 where
    s3: "store i (?d - 34) eh (pushed i 14 s2) = Inr s3" "only_buf i s2 s3" "spans (buf_pool s3 ! i)"
      "packet (buf_pool s3 ! i) = eh @ ih @ ?pkt" using lh s2(4,5) by auto
  have n3: "net_ok s3" using s3(2) by (simp add: only_buf_def)
  from tx_raw_ok [OF n3 assms(2) s3(3)] obtain s4 where
    s4: "wx_e1000_tx_raw i s3 = Inr s4" "net_ok s4" "same_conf s3 s4" "buf_pool s4 = buf_pool s3"
      "buf_pool_used s4 = (buf_pool_used s3)[i := False]"
      "wire s4 = (if length ?pkt + 34 \<le> 2048 then wire s3 @ [eh @ ih @ ?pkt] else wire s3)"
    using s3(4) lh by (auto simp: ac_simps)
  have eh2: "local_mac (core_net_dev (pushed i 14 s2)) = local_mac (core_net_dev s)"
    using n2(2) by (simp add: same_conf_def pushed_def)
  have "wx_net_buf_push i 20 s = (?d - 20, pushed i 20 s)" "wx_net_buf_push i 14 s2 = (?d - 34, pushed i 14 s2)"
    using push_eq [OF assms(1,2), of 20] push_eq [OF n2(1) assms(2), of 14] assms(4) s2(5) by simp_all
  then have run: "ip_transmit i dmac dest proto s = Inr s4"
    using s2(1) s3(1) s4(1) pb nl unfolding ip_transmit_def Let_def eh_def ih_def by (simp add: eh2)
  have ob: "only_buf i s s3" using s2(2) s3(2) by (rule only_buf_trans)
  have "ip_frame s dmac dest proto ?pkt = eh @ ih @ ?pkt" by (simp only: ip_frame_def Let_def eh_def ih_def len_def)
  then show ?thesis using run s4 ob by (intro exI [of _ s4]) (auto simp: only_buf_def dest: same_conf_trans)
qed

text \<open>Address resolution first: without an entry a request goes out and the packet is dropped.\<close>

lemma arp_lookup_length:
  assumes "net_ok s" "wx_arp_lookup ip s = Some mac"
  shows "length mac = 6"
proof -
  from assms(2) obtain k where k: "first_ix (arp_hit ip) (arp_cache s) = Some k" "mac = arp_mac (arp_cache s ! k)"
    by (auto simp: wx_arp_lookup_def)
  with first_ix_SomeD [OF k(1)] assms(1) show ?thesis by (auto simp: net_ok_def tables_fit_def)
qed

lemma ip_send_ok:
  assumes "net_ok s" "i < 256" "buf_pool_used s ! i" "spans (buf_pool s ! i)" "34 \<le> unat (nb_data (buf_pool s ! i))"
    "length dest = 4"
  shows "\<exists>s'. wx_ip_send i dest proto s = Inr s' \<and> net_ok s' \<and> same_conf s s' \<and>
     buf_pool_used s' = (buf_pool_used s)[i := False] \<and>
     (\<forall>j < 256. j \<noteq> i \<longrightarrow> buf_pool_used s ! j \<longrightarrow> buf_pool s' ! j = buf_pool s ! j)"
proof (cases "dest ! 0 = 255 \<and> dest ! 1 = 255 \<and> dest ! 2 = 255 \<and> dest ! 3 = 255")
  case True
  have "length (wx_memset 0xFF 6) = 6" by (simp add: wx_memset_def)
  from ip_transmit_ok [OF assms(1,2,4,5) this assms(6), of proto] True show ?thesis by (auto simp: wx_ip_send_def)
next
  case False
  show ?thesis
  proof (cases "wx_arp_lookup dest s")
    case (Some mac)
    from ip_transmit_ok [OF assms(1,2,4,5) arp_lookup_length [OF assms(1) Some] assms(6), of proto] False Some show ?thesis
      by (auto simp: wx_ip_send_def)
  next
    case None
    have l: "length (local_mac (core_net_dev s)) = 6" "length (local_ip (core_net_dev s)) = 4"
      using net_okD(9,10) [OF assms(1)] by auto
    have "\<exists>s'. wx_arp_send_request dest s = Inr s' \<and> pool_kept s s'"
    proof -
      let ?arp = "\<lparr>hw_type = htons 1, proto_type = htons 0x0800, hw_len = 6, proto_len = 4, opcode = htons 1,
        sender_mac = local_mac (core_net_dev s), sender_ip = local_ip (core_net_dev s),
        target_mac = wx_memset 0xFF 6, target_ip = dest\<rparr>"
      let ?eth = "\<lparr>eth_dest = wx_memset 0xFF 6, eth_src = local_mac (core_net_dev s), ethertype = htons 0x0806\<rparr>"
      have "length (arp_bytes ?arp) = 28" "length (eth_bytes ?eth) = 14"
        using l assms(6) by (simp_all add: length_headers wx_memset_def)
      from arp_transmit_ok [OF assms(1) this] show ?thesis unfolding wx_arp_send_request_def by blast
    qed
    then obtain s' where s': "wx_arp_send_request dest s = Inr s'" "pool_kept s s'" by blast
    with None False assms(2) show ?thesis
      by (auto simp: wx_ip_send_def pool_kept_def net_ok_free used_free)
  qed
qed


section \<open>Processing a frame\<close>

text \<open>Processing a buffer gives it back and keeps the state well formed.\<close>

definition gave_back :: "nat \<Rightarrow> net \<Rightarrow> net \<Rightarrow> bool" where
  "gave_back i s s' \<longleftrightarrow> net_ok s' \<and> buf_pool_used s' = (buf_pool_used s)[i := False] \<and>
     local_ip (core_net_dev s') = local_ip (core_net_dev s)"

lemma gave_back_free: "net_ok s \<Longrightarrow> i < 256 \<Longrightarrow> gave_back i s (wx_net_buf_free i s)"
  by (simp add: gave_back_def net_ok_free used_free)

lemma arp_update_ok:
  assumes "net_ok s" "length ip = 4" "length mac = 6"
  shows "net_ok (wx_arp_update ip mac s)" "buf_pool_used (wx_arp_update ip mac s) = buf_pool_used s"
    "buf_pool (wx_arp_update ip mac s) = buf_pool s" "core_net_dev (wx_arp_update ip mac s) = core_net_dev s"
proof -
  show "buf_pool_used (wx_arp_update ip mac s) = buf_pool_used s" "buf_pool (wx_arp_update ip mac s) = buf_pool s"
    "core_net_dev (wx_arp_update ip mac s) = core_net_dev s"
    by (simp_all add: wx_arp_update_def split: option.split)
  have e: "length (arp_ip (arp_cache s ! k)) = 4" if "k < length (arp_cache s)" for k
    using assms(1) that by (simp add: net_ok_def tables_fit_def)
  have "length (arp_ip e) = 4 \<and> length (arp_mac e) = 6" if "e \<in> set (arp_cache (wx_arp_update ip mac s))" for e
    using that assms e
    by (auto simp: wx_arp_update_def net_ok_def tables_fit_def split: option.splits
      dest!: set_update_subset_insert [THEN subsetD] first_ix_SomeD)
  then show "net_ok (wx_arp_update ip mac s)" using assms(1)
    by (auto simp: net_ok_def tables_fit_def pool_ok_def driver_ok_def wx_arp_update_def split: option.splits)
qed

lemma arp_at_ok:
  "i + 28 \<le> length b \<Longrightarrow> \<exists>h. arp_at b i = Inr h \<and> length (sender_mac h) = 6 \<and> length (sender_ip h) = 4"
  by (simp add: arp_at_def slice_ok)

lemma arp_process_ok:
  assumes "net_ok s" "i < 256" "buf_pool_used s ! i" "unat (nb_data (buf_pool s ! i)) \<le> 400"
  shows "\<exists>s'. wx_arp_process i s = Inr s' \<and> gave_back i s s'"
proof -
  have lb: "length (buffer (buf_pool s ! i)) = 4096" by (rule net_okD(3) [OF assms(1,2)])
  have le: "unat (nb_data (buf_pool s ! i)) + 28 \<le> length (buffer (buf_pool s ! i))" using assms(4) lb by simp
  from arp_at_ok [OF le] obtain h where
    h: "arp_at (buffer (buf_pool s ! i)) (unat (nb_data (buf_pool s ! i))) = Inr h"
      "length (sender_mac h) = 6" "length (sender_ip h) = 4" by blast
  note u = arp_update_ok [OF assms(1) h(3,2)]
  let ?s = "wx_arp_update (sender_ip h) (sender_mac h) s"
  have l: "length (local_mac (core_net_dev s)) = 6" "length (local_ip (core_net_dev s)) = 4"
    using net_okD(9,10) [OF assms(1)] by auto
  let ?arp = "\<lparr>hw_type = htons 1, proto_type = htons 0x0800, hw_len = 6, proto_len = 4, opcode = htons 2,
     sender_mac = local_mac (core_net_dev s), sender_ip = local_ip (core_net_dev s),
     target_mac = sender_mac h, target_ip = sender_ip h\<rparr>"
  let ?eth = "\<lparr>eth_dest = sender_mac h, eth_src = local_mac (core_net_dev s), ethertype = htons 0x0806\<rparr>"
  have "length (arp_bytes ?arp) = 28" "length (eth_bytes ?eth) = 14" using l h by (simp_all add: length_headers)
  from arp_transmit_ok [OF u(1) this] obtain s1 where s1: "arp_transmit ?arp ?eth ?s = Inr s1" "pool_kept ?s s1" by blast
  have "gave_back i s (wx_net_buf_free i s1)" "gave_back i s (wx_net_buf_free i ?s)" "gave_back i s (wx_net_buf_free i s)"
    using s1(2) u assms(1,2) by (simp_all add: gave_back_def pool_kept_def same_conf_def net_ok_free used_free)
  then show ?thesis using h(1) s1(1) u(4) by (simp add: wx_arp_process_def Let_def)
qed

text \<open>Bytes stored over the front of a packet.\<close>

lemma store_front:
  assumes "net_ok s" "i < 256" "spans (buf_pool s ! i)" "length bs \<le> length (packet (buf_pool s ! i))"
  shows "\<exists>s'. store i (unat (nb_data (buf_pool s ! i))) bs s = Inr s' \<and> only_buf i s s' \<and> spans (buf_pool s' ! i) \<and>
     packet (buf_pool s' ! i) = bs @ drop (length bs) (packet (buf_pool s ! i)) \<and>
     nb_data (buf_pool s' ! i) = nb_data (buf_pool s ! i) \<and> nb_tail (buf_pool s' ! i) = nb_tail (buf_pool s ! i)"
proof -
  let ?b = "buf_pool s ! i"
  let ?d = "unat (nb_data ?b)" and ?t = "unat (nb_tail ?b)"
  have dt: "?d \<le> ?t" "?t \<le> 4096" using assms(3) by (auto simp: spans_def word_le_nat_alt)
  have l: "length (buf_pool s) = 256" "length (buffer ?b) = 4096" using net_okD(1,3) [OF assms(1)] assms(2) by auto
  have lp: "length (packet ?b) = ?t - ?d" by (rule length_packet [OF assms(3) l(2)])
  have fits: "?d + length bs \<le> 4096" using dt lp assms(4) by simp
  define f where "f = (\<lambda>b :: wx_net_buf. b\<lparr>buffer := take ?d (buffer b) @ bs @ drop (?d + length bs) (buffer b)\<rparr>)"
  define s' where "s' = upd_buf i f s"
  have st: "store i ?d bs s = Inr s'" "net_ok s'"
    unfolding s'_def f_def using store_ok [OF assms(1,2) fits] by auto
  have b': "buf_pool s' ! i = ?b\<lparr>buffer := take ?d (buffer ?b) @ bs @ drop (?d + length bs) (buffer ?b)\<rparr>"
    using l(1) assms(2) by (simp add: s'_def f_def)
  have "packet (buf_pool s' ! i) = bs @ drop (length bs) (packet ?b)"
    using dt l(2) lp assms(4) by (simp add: packet_def b' drop_take add.commute)
  moreover have "only_buf i s s'" using st(2) by (simp add: only_buf_def s'_def)
  moreover have "spans (buf_pool s' ! i)" using b' assms(3) by (simp add: spans_def)
  ultimately show ?thesis using st(1) b' by (intro exI [of _ s']) simp
qed

definition icmp_hdr :: "u8 \<Rightarrow> u16 \<Rightarrow> u16 \<Rightarrow> u16 \<Rightarrow> u8 list" where
  "icmp_hdr ty csum idn seq =
     icmp_bytes \<lparr>icmp_type = ty, icmp_code = 0, icmp_checksum = csum, icmp_id = idn, icmp_seq = seq\<rparr>"

lemma length_icmp_hdr [simp]: "length (icmp_hdr ty csum idn seq) = 8"
  by (simp add: icmp_hdr_def length_headers)

definition icmp_message :: "u8 \<Rightarrow> u16 \<Rightarrow> u16 \<Rightarrow> u8 list \<Rightarrow> u8 list" where
  "icmp_message ty idn seq payload = icmp_hdr ty (wx_checksum (icmp_hdr ty 0 idn seq @ payload)) idn seq @ payload"

lemma icmp_push_ok:
  assumes "net_ok s" "i < 256" "spans (buf_pool s ! i)" "8 \<le> unat (nb_data (buf_pool s ! i))"
    "len = 8 + length (packet (buf_pool s ! i))"
  shows "\<exists>s'. icmp_push i ty idn seq len s = Inr s' \<and> only_buf i s s' \<and> spans (buf_pool s' ! i) \<and>
     packet (buf_pool s' ! i) = icmp_message ty idn seq (packet (buf_pool s ! i)) \<and>
     unat (nb_data (buf_pool s' ! i)) = unat (nb_data (buf_pool s ! i)) - 8"
proof -
  let ?d = "unat (nb_data (buf_pool s ! i))" and ?p = "packet (buf_pool s ! i)"
  have push: "wx_net_buf_push i 8 s = (?d - 8, pushed i 8 s)" using push_eq [OF assms(1,2), of 8] assms(4) by simp
  have "length (icmp_hdr ty 0 idn seq) \<le> ?d" using assms(4) by simp
  from store_pushed [OF assms(1-3) this] obtain s1 where
    s1: "store i (?d - 8) (icmp_hdr ty 0 idn seq) (pushed i 8 s) = Inr s1" "only_buf i s s1" "spans (buf_pool s1 ! i)"
      "packet (buf_pool s1 ! i) = icmp_hdr ty 0 idn seq @ ?p" "unat (nb_data (buf_pool s1 ! i)) = ?d - 8" by auto
  let ?m = "packet (buf_pool s1 ! i)"
  have n1: "net_ok s1" using s1(2) by (simp add: only_buf_def)
  have lb: "length (buffer (buf_pool s1 ! i)) = 4096" by (rule net_okD(3) [OF n1 assms(2)])
  have lm: "length ?m = len" using s1(4) assms(5) by simp
  have lt: "length ?m = unat (nb_tail (buf_pool s1 ! i)) - (?d - 8)" using length_packet [OF s1(3) lb] s1(5) by simp
  have "?d - 8 + len \<le> 4096" using lm lt s1(3,5) by (auto simp: spans_def word_le_nat_alt)
  then have sl: "slice (buffer (buf_pool s1 ! i)) (?d - 8) len = Inr ?m"
    using lb lm lt s1(5) by (simp add: slice_ok packet_def)
  let ?h = "icmp_hdr ty (wx_checksum ?m) idn seq"
  have "length ?h \<le> length ?m" using s1(4) by simp
  from store_front [OF n1 assms(2) s1(3) this] obtain s2 where
    s2: "store i (?d - 8) ?h s1 = Inr s2" "only_buf i s1 s2" "spans (buf_pool s2 ! i)" "packet (buf_pool s2 ! i) = ?h @ ?p"
      "nb_data (buf_pool s2 ! i) = nb_data (buf_pool s1 ! i)" using s1(4,5) by auto
  have "icmp_push i ty idn seq len s = Inr s2"
    using push s1(1) sl s2(1) by (simp add: icmp_push_def Let_def icmp_hdr_def)
  moreover have "only_buf i s s2" using s1(2) s2(2) by (rule only_buf_trans)
  ultimately show ?thesis using s1(4,5) s2(3-5) by (intro exI [of _ s2]) (simp add: icmp_message_def)
qed


text \<open>The number of payload bytes an echo request makes the reply copy, from the length in its IP header.\<close>

definition echo_len :: "wx_ipv4_hdr \<Rightarrow> nat" where
  "echo_len ip = unat (ucast (htons (total_len ip) - ucast (ihl ip) * 4 :: u16) - 8 :: u32)"

lemma echo_len_small:
  assumes "echo_len ip \<le> 65535"
  shows "htons (total_len ip) - ucast (ihl ip) * 4 - 8 = (of_nat (echo_len ip) :: u16)"
    "unat (htons (total_len ip) - ucast (ihl ip) * 4 :: u16) = echo_len ip + 8"
proof -
  let ?l = "htons (total_len ip) - ucast (ihl ip) * 4 :: u16"
  have u: "unat (ucast ?l :: u32) = unat ?l"
    by (simp add: unsigned_ucast_eq) (rule take_bit_nat_eq_self, use unat_u16_less [of ?l] in simp)
  have "8 \<le> unat ?l"
  proof (rule ccontr)
    assume "\<not> 8 \<le> unat ?l"
    then have "unat (ucast ?l - 8 :: u32) = 4294967288 + unat ?l" using u by (simp add: unat_sub_if')
    with assms show False by (simp add: echo_len_def)
  qed
  then show e: "unat ?l = echo_len ip + 8" using u by (simp add: echo_len_def unat_sub_if')
  have "of_nat (unat ?l) = ?l" by (simp only: of_nat_unat ucast_id)
  then have "?l = of_nat (echo_len ip + 8)" unfolding e by (rule sym)
  then show "?l - 8 = of_nat (echo_len ip)" by simp
qed

text \<open>A fresh buffer with room reserved and \<open>n\<close> bytes put.\<close>

lemma reserved:
  assumes "net_ok s" "i < 256" "buf_pool s ! i = fresh_buf" "n \<le> 3712"
  shows "wx_net_buf_put i (of_nat n) (wx_net_buf_reserve i 128 s) =
      (384, upd_buf i (\<lambda>b. b\<lparr>nb_tail := nb_tail b + of_nat n\<rparr>) (wx_net_buf_reserve i 128 s))"
    "only_buf i s (upd_buf i (\<lambda>b. b\<lparr>nb_tail := nb_tail b + of_nat n\<rparr>) (wx_net_buf_reserve i 128 s))"
    "buf_pool (upd_buf i (\<lambda>b. b\<lparr>nb_tail := nb_tail b + of_nat n\<rparr>) (wx_net_buf_reserve i 128 s)) ! i =
      fresh_buf\<lparr>nb_data := 384, nb_tail := of_nat (384 + n)\<rparr>"
    "spans (fresh_buf\<lparr>nb_data := 384, nb_tail := of_nat (384 + n)\<rparr>)"
    "length (packet (fresh_buf\<lparr>nb_data := 384, nb_tail := of_nat (384 + n)\<rparr>)) = n"
proof -
  have l: "length (buf_pool s) = 256" by (rule net_okD(1) [OF assms(1)])
  let ?r = "wx_net_buf_reserve i 128 s"
  have r: "only_buf i s ?r" unfolding wx_net_buf_reserve_def by (rule only_buf_upd [OF assms(1,2)]) simp
  then have "net_ok ?r" by (simp add: only_buf_def)
  from only_buf_upd [OF this assms(2)] r
  show "only_buf i s (upd_buf i (\<lambda>b. b\<lparr>nb_tail := nb_tail b + of_nat n\<rparr>) ?r)" by (auto intro: only_buf_trans)
  have b: "buf_pool ?r ! i = fresh_buf\<lparr>nb_data := 384, nb_tail := 384\<rparr>"
    using l assms(2,3) by (simp add: wx_net_buf_reserve_def)
  then show "wx_net_buf_put i (of_nat n) ?r = (384, upd_buf i (\<lambda>b. b\<lparr>nb_tail := nb_tail b + of_nat n\<rparr>) ?r)"
    by (simp add: wx_net_buf_put_def)
  show "buf_pool (upd_buf i (\<lambda>b. b\<lparr>nb_tail := nb_tail b + of_nat n\<rparr>) ?r) ! i =
      fresh_buf\<lparr>nb_data := 384, nb_tail := of_nat (384 + n)\<rparr>"
    using b l assms(2) by (simp add: wx_net_buf_reserve_def)
  have t: "unat (of_nat (384 + n) :: u16) = 384 + n"
    by (simp only: unat_of_nat) (rule mod_less, use assms(4) in simp)
  then show s: "spans (fresh_buf\<lparr>nb_data := 384, nb_tail := of_nat (384 + n)\<rparr>)"
    using assms(4) by (simp add: spans_def word_le_nat_alt del: of_nat_add)
  show "length (packet (fresh_buf\<lparr>nb_data := 384, nb_tail := of_nat (384 + n)\<rparr>)) = n"
    using t assms(4) by (simp add: packet_def del: of_nat_add)
qed

text \<open>The packet that \<open>wx_ip_send\<close> hands to the card when the address is known.\<close>

lemma ip_send_known:
  assumes "net_ok s" "i < 256" "spans (buf_pool s ! i)" "34 \<le> unat (nb_data (buf_pool s ! i))"
    "length dest = 4" "dest \<noteq> [255, 255, 255, 255]" "wx_arp_lookup dest s = Some mac"
    "length (packet (buf_pool s ! i)) + 34 \<le> 2048" "wx_ip_send i dest proto s = Inr s'"
  shows "wire s' = wire s @ [ip_frame s mac dest proto (packet (buf_pool s ! i))]"
proof -
  obtain a b c d where d: "dest = [a, b, c, d]"
    using assms(5) by (auto simp: numeral_eq_Suc length_Suc_conv)
  from ip_transmit_ok [OF assms(1-4) arp_lookup_length [OF assms(1,7)] assms(5), of proto] obtain s1 where
    s1: "ip_transmit i mac dest proto s = Inr s1"
      "wire s1 = wire s @ [ip_frame s mac dest proto (packet (buf_pool s ! i))]" using assms(8) by auto
  moreover have "wx_ip_send i dest proto s = ip_transmit i mac dest proto s"
    using assms(6,7) d by (auto simp: wx_ip_send_def)
  ultimately show ?thesis using assms(9) by simp
qed

text \<open>The reply to an echo request: its payload comes back in one frame.\<close>

definition echo_answered :: "nat \<Rightarrow> wx_ipv4_hdr \<Rightarrow> wx_icmp_hdr \<Rightarrow> net \<Rightarrow> net \<Rightarrow> bool" where
  "echo_answered i ip h s s' \<longleftrightarrow>
     (\<forall>mac. wx_arp_lookup (src_ip ip) s = Some mac \<longrightarrow> src_ip ip \<noteq> [255, 255, 255, 255] \<longrightarrow> echo_len ip \<le> 2006 \<longrightarrow>
        wire s' = wire s @ [ip_frame s mac (src_ip ip) 1 (icmp_message 0 (icmp_id h) (icmp_seq h)
          (take (echo_len ip) (drop (unat (nb_data (buf_pool s ! i)) + 8) (buffer (buf_pool s ! i)))))])"

text \<open>The reply is built in a fresh buffer: the payload of the request copied in, the ICMP header pushed in front of it.\<close>
lemma echo_reply_built:
  assumes "net_ok s0" "r < 256" "buf_pool s0 ! r = fresh_buf" "r \<noteq> i" "echo_len ip \<le> 3712"
    "length (buffer (buf_pool s0 ! i)) = 4096" "d \<le> 330"
  obtains s3 where "only_buf r s0 s3" "spans (buf_pool s3 ! r)" "unat (nb_data (buf_pool s3 ! r)) = 376"
    "packet (buf_pool s3 ! r) =
       icmp_message 0 ident sq (take (echo_len ip) (drop (d + 8) (buffer (buf_pool s0 ! i))))"
    "(case wx_net_buf_put r (htons (total_len ip) - ucast (ihl ip) * 4 - 8) (wx_net_buf_reserve r 128 s0) of
       (off, s) \<Rightarrow>
         bindE (slice (buffer (buf_pool s0 ! i)) (d + 8) (echo_len ip)) (\<lambda>data.
         bindE (store r off data s) (\<lambda>s.
         bindE (icmp_push r 0 ident sq (unat (htons (total_len ip) - ucast (ihl ip) * 4 :: u16)) s) k))) = k s3"
proof -
  let ?n = "echo_len ip"
  let ?s1 = "upd_buf r (\<lambda>b. b\<lparr>nb_tail := nb_tail b + of_nat ?n\<rparr>) (wx_net_buf_reserve r 128 s0)"
  let ?data = "take ?n (drop (d + 8) (buffer (buf_pool s0 ! i)))"
  note el = echo_len_small [of ip]
  note rs = reserved [OF assms(1,2,3,5)]
  have n1: "net_ok ?s1" using rs(2) by (simp add: only_buf_def)
  have sl: "slice (buffer (buf_pool s0 ! i)) (d + 8) ?n = Inr ?data" "length ?data = ?n"
    using assms(5-7) by (simp_all add: slice_ok)
  have q: "spans (buf_pool ?s1 ! r)" "length ?data \<le> length (packet (buf_pool ?s1 ! r))"
    "unat (nb_data (buf_pool ?s1 ! r)) = 384" "length (packet (buf_pool ?s1 ! r)) = ?n"
    using rs(4,5) sl(2) unfolding rs(3) by simp_all
  from store_front [OF n1 assms(2) q(1,2)] obtain s2 where
    s2: "store r 384 ?data ?s1 = Inr s2" "only_buf r ?s1 s2" "spans (buf_pool s2 ! r)" "packet (buf_pool s2 ! r) = ?data"
      "unat (nb_data (buf_pool s2 ! r)) = 384"
    using q(3,4) sl(2) by auto
  have n2: "net_ok s2" using s2(2) by (simp add: only_buf_def)
  have "8 \<le> unat (nb_data (buf_pool s2 ! r))" "?n + 8 = 8 + length (packet (buf_pool s2 ! r))"
    using s2(4,5) sl(2) by simp_all
  from icmp_push_ok [OF n2 assms(2) s2(3) this, of 0 ident sq] obtain s3 where
    s3: "icmp_push r 0 ident sq (?n + 8) s2 = Inr s3" "only_buf r s2 s3" "spans (buf_pool s3 ! r)"
      "unat (nb_data (buf_pool s3 ! r)) = 376"
      "packet (buf_pool s3 ! r) = icmp_message 0 ident sq (packet (buf_pool s2 ! r))" using s2(5) by auto
  show thesis
  proof (rule that [of s3])
    show "only_buf r s0 s3" using rs(2) s2(2) s3(2) by (blast intro: only_buf_trans)
  qed (use el assms(5) rs(1) sl(1) s2(1,4) s3 in simp_all)
qed

text \<open>A payload longer than the room behind the headroom leaves the buffer.\<close>
lemma echo_reply_overflows:
  assumes "net_ok s0" "r < 256" "buf_pool s0 ! r = fresh_buf" "3712 < echo_len ip"
  shows "(case wx_net_buf_put r (htons (total_len ip) - ucast (ihl ip) * 4 - 8) (wx_net_buf_reserve r 128 s0) of
       (off, s) \<Rightarrow>
         bindE (slice bs p (echo_len ip)) (\<lambda>data. bindE (store r off data s) k)) = Inl Out_of_bounds"
proof -
  let ?l = "htons (total_len ip) - ucast (ihl ip) * 4 - 8 :: u16"
  let ?s1 = "upd_buf r (\<lambda>b. b\<lparr>nb_tail := nb_tail b + ?l\<rparr>) (wx_net_buf_reserve r 128 s0)"
  have len: "length (buf_pool s0) = 256" by (rule net_okD(1) [OF assms(1)])
  have b1: "buf_pool (wx_net_buf_reserve r 128 s0) ! r = fresh_buf\<lparr>nb_data := 384, nb_tail := 384\<rparr>"
    using assms(2,3) len by (simp add: wx_net_buf_reserve_def)
  have "wx_net_buf_put r ?l (wx_net_buf_reserve r 128 s0) = (384, ?s1)" using b1 by (simp add: wx_net_buf_put_def)
  moreover have "slice bs p (echo_len ip) = Inl Out_of_bounds \<or>
      (\<exists>data. slice bs p (echo_len ip) = Inr data \<and> length data = echo_len ip)" by (auto simp: slice_def)
  moreover have "store r 384 data ?s1 = Inl Out_of_bounds" if "length data = echo_len ip" for data
  proof -
    have "length (buffer (buf_pool ?s1 ! r)) = 4096" using b1 len assms(2) by (simp add: wx_net_buf_reserve_def)
    then show ?thesis using that assms(4) by (simp add: store_def write_range_def)
  qed
  ultimately show ?thesis by auto
qed

text \<open>The built reply goes out: the buffer comes back, and a known peer gets the frame.\<close>
lemma echo_reply_sent:
  assumes "net_ok s" "i < 256" "\<not> buf_pool_used s ! r" "r < 256" "length (src_ip ip) = 4"
    and s0: "buf_pool_used s0 = (buf_pool_used s)[r := True]" "wire s0 = wire s" "local_ip (core_net_dev s0) = local_ip (core_net_dev s)"
      "same_conf s s0"
    and s3: "only_buf r s0 s3" "spans (buf_pool s3 ! r)" "unat (nb_data (buf_pool s3 ! r)) = 376"
      "packet (buf_pool s3 ! r) = icmp_message 0 (icmp_id h) (icmp_seq h)
         (take (echo_len ip) (drop (unat (nb_data (buf_pool s ! i)) + 8) (buffer (buf_pool s ! i))))"
    and len: "unat (nb_data (buf_pool s ! i)) + 8 + echo_len ip \<le> length (buffer (buf_pool s ! i))"
  obtains s4 where "wx_ip_send r (src_ip ip) 1 s3 = Inr s4" "gave_back i s (wx_net_buf_free i s4)"
    "echo_answered i ip h s (wx_net_buf_free i s4)"
proof -
  let ?data = "take (echo_len ip) (drop (unat (nb_data (buf_pool s ! i)) + 8) (buffer (buf_pool s ! i)))"
  have u3: "buf_pool_used s3 = (buf_pool_used s)[r := True]" using s3(1) s0(1) by (simp add: only_buf_def)
  have n3: "net_ok s3" "buf_pool_used s3 ! r" "34 \<le> unat (nb_data (buf_pool s3 ! r))"
    using s3(1,3) assms(4) net_okD(2) [OF assms(1)] unfolding u3 by (simp_all add: only_buf_def)
  from ip_send_ok [OF n3(1) assms(4) n3(2) s3(2) n3(3) assms(5), of 1] obtain s4 where
    s4: "wx_ip_send r (src_ip ip) 1 s3 = Inr s4" "net_ok s4" "same_conf s3 s4"
      "buf_pool_used s4 = (buf_pool_used s3)[r := False]" by blast
  have lip: "local_ip (core_net_dev s4) = local_ip (core_net_dev s)"
    using s4(3) s3(1) s0(3) by (simp add: only_buf_def same_conf_def)
  have "buf_pool_used s4 = buf_pool_used s" using s4(4) u3 assms(3) by simp (metis list_update_id)
  then have gb: "gave_back i s (wx_net_buf_free i s4)"
    using s4(2) lip assms(2) by (simp add: gave_back_def net_ok_free used_free)
  have sc: "same_conf s s3" using s3(1) s0(4) by (auto simp: only_buf_def dest: same_conf_trans)
  have "echo_answered i ip h s (wx_net_buf_free i s4)" unfolding echo_answered_def
  proof (intro allI impI)
    fix mac assume a: "wx_arp_lookup (src_ip ip) s = Some mac" "src_ip ip \<noteq> [255, 255, 255, 255]" "echo_len ip \<le> 2006"
    have "wx_arp_lookup (src_ip ip) s3 = Some mac" using a(1) sc by (simp add: wx_arp_lookup_def same_conf_def)
    moreover have "length (packet (buf_pool s3 ! r)) + 34 \<le> 2048"
      using a(3) len unfolding s3(4) by (simp add: icmp_message_def)
    moreover have "wire s3 = wire s" using s3(1) s0(2) by (simp add: only_buf_def)
    moreover have "ip_frame s3 mac (src_ip ip) 1 p = ip_frame s mac (src_ip ip) 1 p" for p
      using sc by (simp add: ip_frame_def same_conf_def)
    ultimately show "wire (wx_net_buf_free i s4) =
        wire s @ [ip_frame s mac (src_ip ip) 1 (icmp_message 0 (icmp_id h) (icmp_seq h) ?data)]"
      using ip_send_known [OF n3(1) assms(4) s3(2) n3(3) assms(5) a(2) _ _ s4(1)] s3(4) by simp
  qed
  from that [OF s4(1) gb this] show thesis .
qed

lemma icmp_process_ok:
  assumes "net_ok s" "i < 256" "buf_pool_used s ! i" "unat (nb_data (buf_pool s ! i)) \<le> 330" "length (src_ip ip) = 4"
    "icmp_at (buffer (buf_pool s ! i)) (unat (nb_data (buf_pool s ! i))) = Inr h"
  shows "if icmp_type h = 8 \<and> icmp_code h = 0 \<and> \<not> (\<forall>u \<in> set (buf_pool_used s). u) \<and> 3712 < echo_len ip
     then wx_icmp_process i ip s = Inl Out_of_bounds
     else \<exists>s'. wx_icmp_process i ip s = Inr s' \<and> gave_back i s s' \<and>
       (icmp_type h = 8 \<and> icmp_code h = 0 \<and> \<not> (\<forall>u \<in> set (buf_pool_used s). u) \<longrightarrow> echo_answered i ip h s s')"
proof (cases "icmp_type h = 8 \<and> icmp_code h = 0")
  case False
  then show ?thesis using assms(6) gave_back_free [OF assms(1,2)] by (auto simp: wx_icmp_process_def Let_def)
next
  case echo: True
  let ?d = "unat (nb_data (buf_pool s ! i))" and ?n = "echo_len ip"
  have lb: "length (buffer (buf_pool s ! i)) = 4096" by (rule net_okD(3) [OF assms(1,2)])
  from assms(1) show ?thesis
  proof (cases rule: alloc_cases)
    case 1
    then show ?thesis using echo assms(6) gave_back_free [OF assms(1,2)] by (auto simp: wx_icmp_process_def Let_def)
  next
    case (2 r s0)
    have ri: "r \<noteq> i" using 2(3) assms(3) by auto
    have free: "\<not> (\<forall>u \<in> set (buf_pool_used s). u)" using 2(2,3) net_okD(2) [OF assms(1)] by (metis nth_mem)
    have bi0: "buf_pool s0 ! i = buf_pool s ! i" using 2(7) ri by simp
    have br: "buf_pool s0 ! r = fresh_buf" using 2(2,7) net_okD(1) [OF assms(1)] by simp
    have keeps: "buf_pool (upd_buf r f (wx_net_buf_reserve r m s0)) ! i = buf_pool s ! i" for f m
      using ri bi0 by (simp add: wx_net_buf_reserve_def upd_buf_def)
    have unfold: "wx_icmp_process i ip s =
        (case wx_net_buf_put r (htons (total_len ip) - ucast (ihl ip) * 4 - 8) (wx_net_buf_reserve r 128 s0) of
          (off, s') \<Rightarrow>
            bindE (slice (buffer (buf_pool s0 ! i)) (?d + 8) ?n) (\<lambda>data.
            bindE (store r off data s') (\<lambda>s.
            bindE (icmp_push r 0 (icmp_id h) (icmp_seq h) (unat (htons (total_len ip) - ucast (ihl ip) * 4 :: u16)) s) (\<lambda>s.
            bindE (wx_ip_send r (src_ip ip) 1 s) (\<lambda>s. Inr (wx_net_buf_free i s))))))"
      using echo assms(6) 2(1) keeps bi0 by (simp add: wx_icmp_process_def Let_def echo_len_def wx_net_buf_put_def)
    show ?thesis
    proof (cases "?n \<le> 3712")
      case True
      have b0: "length (buffer (buf_pool s0 ! i)) = 4096" using bi0 lb by simp
      obtain s3 where s3: "only_buf r s0 s3" "spans (buf_pool s3 ! r)" "unat (nb_data (buf_pool s3 ! r)) = 376"
          "packet (buf_pool s3 ! r) = icmp_message 0 (icmp_id h) (icmp_seq h) (take ?n (drop (?d + 8) (buffer (buf_pool s0 ! i))))"
          "wx_icmp_process i ip s = bindE (wx_ip_send r (src_ip ip) 1 s3) (\<lambda>s. Inr (wx_net_buf_free i s))"
        by (rule echo_reply_built [OF 2(4,2) br ri True b0 assms(4), where ident = "icmp_id h" and sq = "icmp_seq h"
              and k = "\<lambda>s. bindE (wx_ip_send r (src_ip ip) 1 s) (\<lambda>s. Inr (wx_net_buf_free i s))", folded unfold])
      have "?d + 8 + ?n \<le> length (buffer (buf_pool s ! i))" using True assms(4) lb by simp
      from echo_reply_sent [OF assms(1,2) 2(3,2) assms(5) 2(6,8) _ 2(5) s3(1-3) s3(4) [unfolded bi0] this] 2(9) obtain s4
        where "wx_ip_send r (src_ip ip) 1 s3 = Inr s4" "gave_back i s (wx_net_buf_free i s4)"
          "echo_answered i ip h s (wx_net_buf_free i s4)" by auto
      with s3(5) True show ?thesis by simp
    next
      case False
      then have "wx_icmp_process i ip s = Inl Out_of_bounds"
        unfolding unfold by (intro echo_reply_overflows [OF 2(4,2) br]) simp
      then show ?thesis using echo free False by simp
    qed
  qed
qed



section \<open>TCP and UDP\<close>

lemma upd_tcb_simps [simp]:
  "buf_pool (upd_tcb k f s) = buf_pool s" "buf_pool_used (upd_tcb k f s) = buf_pool_used s"
  "core_net_dev (upd_tcb k f s) = core_net_dev s" "arp_cache (upd_tcb k f s) = arp_cache s" "wire (upd_tcb k f s) = wire s"
  "tcp_sockets (upd_tcb k f s) = (tcp_sockets s)[k := f (tcp_sockets s ! k)]"
  by (simp_all add: upd_tcb_def)

lemma net_ok_upd_tcb:
  assumes "net_ok s" "k < length (tcp_sockets s) \<Longrightarrow> length (remote_ip (f (tcp_sockets s ! k))) = 4"
  shows "net_ok (upd_tcb k f s)"
proof (cases "k < length (tcp_sockets s)")
  case True
  then show ?thesis using assms
    by (auto simp: net_ok_def pool_ok_def driver_ok_def tables_fit_def upd_tcb_def dest!: set_update_subset_insert [THEN subsetD])
next
  case False
  then show ?thesis using assms
    by (auto simp: net_ok_def pool_ok_def driver_ok_def tables_fit_def upd_tcb_def list_update_beyond)
qed

lemma remote_ip_length: "net_ok s \<Longrightarrow> k < length (tcp_sockets s) \<Longrightarrow> length (remote_ip (tcp_sockets s ! k)) = 4"
  by (simp add: net_ok_def tables_fit_def)

lemma find_tcb_bound: "find_tcb p q ip ts = Some k \<Longrightarrow> k < length ts"
  by (auto simp: find_tcb_def split: option.splits dest: first_ix_SomeD)

lemma tcp_answer_ok:
  assumes "net_ok s" "k < length (tcp_sockets s)"
  shows "\<exists>s'. tcp_answer k s = Inr s' \<and> net_ok s' \<and> buf_pool_used s' = buf_pool_used s \<and>
    local_ip (core_net_dev s') = local_ip (core_net_dev s) \<and>
    (if \<forall>u \<in> set (buf_pool_used s). u then tcp_sockets s' = tcp_sockets s \<and> wire s' = wire s
     else tcp_sockets s' = (tcp_sockets s)[k := (tcp_sockets s ! k)\<lparr>snd_nxt := snd_nxt (tcp_sockets s ! k) + 1\<rparr>] \<and>
       (\<forall>mac. wx_arp_lookup (remote_ip (tcp_sockets s ! k)) s = Some mac \<longrightarrow>
          remote_ip (tcp_sockets s ! k) \<noteq> [255, 255, 255, 255] \<longrightarrow>
          wire s' = wire s @ [ip_frame s mac (remote_ip (tcp_sockets s ! k)) 6
            (tcp_bytes (syn_ack (local_ip (core_net_dev s)) (tcp_sockets s ! k)))]))"
  using assms(1)
proof (cases rule: alloc_cases)
  case 1
  then show ?thesis using assms(1) by (auto simp: tcp_answer_def)
next
  case (2 i s0)
  have free: "\<not> (\<forall>u \<in> set (buf_pool_used s). u)" using 2(2,3) net_okD(2) [OF assms(1)] by (metis nth_mem)
  let ?s1 = "wx_net_buf_reserve i 128 s0" and ?t = "tcp_sockets s ! k"
  let ?h = "tcp_bytes (syn_ack (local_ip (core_net_dev s)) ?t)"
  have l: "length (buf_pool s0) = 256" by (rule net_okD(1) [OF 2(4)])
  have b0: "buf_pool s0 ! i = fresh_buf" using 2(2,7) net_okD(1) [OF assms(1)] by simp
  have ob1: "only_buf i s0 ?s1" unfolding wx_net_buf_reserve_def by (rule only_buf_upd [OF 2(4,2)]) simp
  then have n1: "net_ok ?s1" by (simp add: only_buf_def)
  have b1: "nb_data (buf_pool ?s1 ! i) = 384" "nb_tail (buf_pool ?s1 ! i) = 384"
    using l 2(2) b0 by (simp_all add: wx_net_buf_reserve_def)
  then have sp1: "spans (buf_pool ?s1 ! i)" "packet (buf_pool ?s1 ! i) = []" by (simp_all add: spans_def packet_def)
  have lh: "length ?h = 20" by (simp add: length_headers)
  then have "length ?h \<le> unat (nb_data (buf_pool ?s1 ! i))" using b1 by simp
  from store_pushed [OF n1 2(2) sp1(1) this] obtain s2 where
    s2: "store i 364 ?h (pushed i 20 ?s1) = Inr s2" "only_buf i ?s1 s2" "spans (buf_pool s2 ! i)"
      "packet (buf_pool s2 ! i) = ?h" "unat (nb_data (buf_pool s2 ! i)) = 364" using lh b1 sp1(2) by auto
  have ob: "only_buf i s0 s2" using ob1 s2(2) by (rule only_buf_trans)
  have sc: "same_conf s s2" using ob 2(5) by (auto simp: only_buf_def dest: same_conf_trans)
  have n2: "net_ok s2" "buf_pool_used s2 = (buf_pool_used s)[i := True]" "wire s2 = wire s"
    using ob 2(6,8) by (simp_all add: only_buf_def)
  have lr: "length (remote_ip ?t) = 4" by (rule remote_ip_length [OF assms])
  have us: "buf_pool_used s2 ! i" "34 \<le> unat (nb_data (buf_pool s2 ! i))"
    using n2(2) 2(2) net_okD(2) [OF assms(1)] s2(5) by simp_all
  from ip_send_ok [OF n2(1) 2(2) us(1) s2(3) us(2) lr, of 6] obtain s3 where
    s3: "wx_ip_send i (remote_ip ?t) 6 s2 = Inr s3" "net_ok s3" "same_conf s2 s3"
      "buf_pool_used s3 = (buf_pool_used s2)[i := False]" by blast
  have w: "wire s3 = wire s @ [ip_frame s mac (remote_ip ?t) 6 ?h]"
    if "wx_arp_lookup (remote_ip ?t) s = Some mac" "remote_ip ?t \<noteq> [255, 255, 255, 255]" for mac
  proof -
    have "wx_arp_lookup (remote_ip ?t) s2 = Some mac" using that(1) sc by (simp add: wx_arp_lookup_def same_conf_def)
    moreover have "length (packet (buf_pool s2 ! i)) + 34 \<le> 2048" using s2(4) lh by simp
    moreover have "ip_frame s2 mac (remote_ip ?t) 6 ?h = ip_frame s mac (remote_ip ?t) 6 ?h"
      using sc by (simp add: ip_frame_def same_conf_def)
    ultimately show ?thesis
      using ip_send_known [OF n2(1) 2(2) s2(3) us(2) lr that(2) _ _ s3(1)] n2(3) s2(4) by simp
  qed
  let ?s4 = "upd_tcb k (\<lambda>t. t\<lparr>snd_nxt := snd_nxt t + 1\<rparr>) s3"
  have sc3: "tcp_sockets s3 = tcp_sockets s" using sc s3(3) by (simp add: same_conf_def)
  have "tcp_sockets (pushed i 20 ?s1) = tcp_sockets s" "core_net_dev (pushed i 20 ?s1) = core_net_dev s"
    using 2(5,9) by (simp_all add: pushed_def wx_net_buf_reserve_def same_conf_def)
  moreover have "wx_net_buf_push i 20 ?s1 = (364, pushed i 20 ?s1)" using push_eq [OF n1 2(2), of 20] b1(1) by simp
  ultimately have run: "tcp_answer k s = Inr ?s4" using 2(1) s2(1) s3(1) by (simp add: tcp_answer_def Let_def)
  have "net_ok ?s4" by (rule net_ok_upd_tcb [OF s3(2)]) (use lr sc3 in simp)
  moreover have "buf_pool_used ?s4 = buf_pool_used s" using s3(4) n2(2) 2(3) by simp (metis list_update_id)
  moreover have "local_ip (core_net_dev ?s4) = local_ip (core_net_dev s)" using s3(3) sc by (simp add: same_conf_def)
  ultimately show ?thesis using run free w sc3 by (intro exI [of _ ?s4]) (simp only: upd_tcb_simps, simp)
qed


lemma tcp_at_ok: "i + 20 \<le> length b \<Longrightarrow> \<exists>h. tcp_at b i = Inr h"
  by (simp add: tcp_at_def slice_ok)

lemma gave_back_trans:
  "net_ok s' \<Longrightarrow> buf_pool_used s' = buf_pool_used s \<Longrightarrow> local_ip (core_net_dev s') = local_ip (core_net_dev s) \<Longrightarrow>
   i < 256 \<Longrightarrow> gave_back i s (wx_net_buf_free i s')"
  by (simp add: gave_back_def net_ok_free used_free)

lemma tcp_process_ok:
  assumes "net_ok s" "i < 256" "unat (nb_data (buf_pool s ! i)) \<le> 400" "length (src_ip ip) = 4"
  shows "\<exists>s'. wx_tcp_process i ip s = Inr s' \<and> gave_back i s s'"
proof -
  have "unat (nb_data (buf_pool s ! i)) + 20 \<le> length (buffer (buf_pool s ! i))"
    using assms(3) net_okD(3) [OF assms(1,2)] by simp
  from tcp_at_ok [OF this] obtain h where h: "tcp_at (buffer (buf_pool s ! i)) (unat (nb_data (buf_pool s ! i))) = Inr h" ..
  let ?src = "htons (tcp_src_port h)"
  show ?thesis
  proof (cases "find_tcb ?src (htons (tcp_dest_port h)) (src_ip ip) (tcp_sockets s)")
    case None
    then show ?thesis using h gave_back_free [OF assms(1,2)] by (simp add: wx_tcp_process_def Let_def)
  next
    case (Some k)
    note k = find_tcb_bound [OF Some]
    let ?t = "tcp_sockets s ! k"
    consider "tcb_state ?t = 1 \<and> syn h \<and> \<not> ack h" | "\<not> (tcb_state ?t = 1 \<and> syn h \<and> \<not> ack h)" "tcb_state ?t = 2 \<and> ack h"
      | "\<not> (tcb_state ?t = 1 \<and> syn h \<and> \<not> ack h)" "\<not> (tcb_state ?t = 2 \<and> ack h)" by blast
    then show ?thesis
    proof cases
      case 1
      let ?s = "upd_tcb k (\<lambda>t. t\<lparr>remote_port := ucast ?src, remote_ip := src_ip ip,
        rcv_nxt := htonl (seq_num h) + 1, snd_nxt := 0x89ABCDEF, snd_una := 0x89ABCDEF, tcb_state := 2\<rparr>) s"
      have n: "net_ok ?s" by (rule net_ok_upd_tcb [OF assms(1)]) (use assms(4) in simp)
      have kl: "k < length (tcp_sockets ?s)" using k by simp
      from tcp_answer_ok [OF n kl] obtain s' where
        "tcp_answer k ?s = Inr s'" "net_ok s'" "buf_pool_used s' = buf_pool_used s"
        "local_ip (core_net_dev s') = local_ip (core_net_dev s)" by (auto simp del: upd_tcb_simps(6))
      with 1 Some h gave_back_trans [OF this(2-4) assms(2)] show ?thesis by (simp add: wx_tcp_process_def Let_def)
    next
      case 2
      have "net_ok (upd_tcb k (\<lambda>t. t\<lparr>tcb_state := 3\<rparr>) s)"
        by (rule net_ok_upd_tcb [OF assms(1)]) (use remote_ip_length [OF assms(1) k] in simp)
      from gave_back_trans [OF this _ _ assms(2), of s] have
        "gave_back i s (wx_net_buf_free i (upd_tcb k (\<lambda>t. t\<lparr>tcb_state := 3\<rparr>) s))" by simp
      with 2 Some h gave_back_free [OF assms(1,2)] show ?thesis by (simp add: wx_tcp_process_def Let_def)
    next
      case 3
      with Some h gave_back_free [OF assms(1,2)] show ?thesis by (auto simp: wx_tcp_process_def Let_def)
    qed
  qed
qed

lemma udp_process_ok:
  assumes "net_ok s" "i < 256" "unat (nb_data (buf_pool s ! i)) \<le> 400"
  shows "\<exists>s'. wx_udp_process i ip s = Inr s' \<and> gave_back i s s'"
proof -
  have "unat (nb_data (buf_pool s ! i)) + 8 \<le> length (buffer (buf_pool s ! i))"
    using assms(3) net_okD(3) [OF assms(1,2)] by simp
  then obtain h where h: "udp_at (buffer (buf_pool s ! i)) (unat (nb_data (buf_pool s ! i))) = Inr h"
    by (simp add: udp_at_def slice_ok)
  let ?s = "snd (wx_net_buf_pull i 8 s)"
  have "net_ok ?s" unfolding wx_net_buf_pull_def snd_conv by (rule net_ok_upd_buf [OF assms(1,2)]) simp
  moreover have "buf_pool_used ?s = buf_pool_used s" "core_net_dev ?s = core_net_dev s" by (simp_all add: wx_net_buf_pull_def)
  ultimately show ?thesis
    using h gave_back_free [OF assms(1,2)] gave_back_trans [OF _ _ _ assms(2), of ?s s] by (simp add: wx_udp_process_def)
qed

section \<open>Demultiplexing\<close>

text \<open>The one faulting input: an echo request for this host whose IP header claims more than the reply buffer holds.\<close>

definition for_us :: "u8 list \<Rightarrow> wx_ipv4_hdr \<Rightarrow> bool" where
  "for_us me ip \<longleftrightarrow> version ip = 4 \<and> 5 \<le> ihl ip \<and> (wx_memcmp (dest_ip ip) me 4 = 0 \<or> dest_ip ip ! 3 = 255)"

definition overlong_echo :: "u8 list \<Rightarrow> u8 list \<Rightarrow> nat \<Rightarrow> bool" where
  "overlong_echo me b d =
     (case ipv4_at b d of
        Inl _ \<Rightarrow> False
      | Inr ip \<Rightarrow> for_us me ip \<and> protocol ip = 1 \<and>
          (case icmp_at b (d + unat (ihl ip) * 4) of
             Inl _ \<Rightarrow> False
           | Inr h \<Rightarrow> icmp_type h = 8 \<and> icmp_code h = 0 \<and> 3712 < echo_len ip))"

lemma ipv4_at_ok:
  assumes "i + 20 \<le> length b"
  shows "\<exists>h. ipv4_at b i = Inr h \<and> length (src_ip h) = 4 \<and> unat (ihl h) < 16"
proof -
  have "unat (w AND 0x0F :: u8) < 16" for w
  proof -
    have "(w AND 0x0F :: u8) = take_bit 4 w" by (simp add: take_bit_eq_mask mask_eq_exp_minus_1)
    then show ?thesis using take_bit_nat_less_exp [of 4 "unat w"] by (simp add: unsigned_take_bit_eq)
  qed
  then show ?thesis using assms by (simp add: ipv4_at_def slice_ok)
qed

lemma pull_ok:
  assumes "net_ok s" "i < 256"
  shows "net_ok (snd (wx_net_buf_pull i len s))" "buf_pool_used (snd (wx_net_buf_pull i len s)) = buf_pool_used s"
    "buffer (buf_pool (snd (wx_net_buf_pull i len s)) ! i) = buffer (buf_pool s ! i)"
    "core_net_dev (snd (wx_net_buf_pull i len s)) = core_net_dev s"
    "unat (nb_data (buf_pool s ! i)) + unat len < 65536 \<Longrightarrow>
     unat (nb_data (buf_pool (snd (wx_net_buf_pull i len s)) ! i)) = unat (nb_data (buf_pool s ! i)) + unat len"
  using net_okD(1) [OF assms(1)] assms net_ok_upd_buf [OF assms, of "\<lambda>b. b\<lparr>nb_data := nb_data b + len\<rparr>"]
  by (simp_all add: wx_net_buf_pull_def unat_word_ariths)

text \<open>The IP header, whatever length it claims, is pulled off the front.\<close>
lemma header_pulled:
  assumes "net_ok s" "i < 256" "unat (nb_data (buf_pool s ! i)) \<le> 270" "unat (ihl ip) < 16"
  shows "unat (nb_data (buf_pool (snd (wx_net_buf_pull i (ucast (ihl ip) * 4) s)) ! i)) =
     unat (nb_data (buf_pool s ! i)) + unat (ihl ip) * 4"
proof -
  have "unat (ucast (ihl ip) :: u16) = unat (ihl ip)"
    by (simp add: unsigned_ucast_eq) (rule take_bit_nat_eq_self, use assms(4) in simp)
  then have "unat (ucast (ihl ip) * 4 :: u16) = unat (ihl ip) * 4" using assms(4) by (simp add: unat_word_ariths)
  then show ?thesis using pull_ok(5) [OF assms(1,2), of "ucast (ihl ip) * 4"] assms(3,4) by simp
qed

text \<open>The packet is an echo request whose payload the reply's buffer cannot take.\<close>
lemma overlong_echo_eq:
  assumes "ipv4_at b d = Inr ip"
  shows "overlong_echo me b d \<longleftrightarrow> for_us me ip \<and> protocol ip = 1 \<and>
      (\<exists>h. icmp_at b (d + unat (ihl ip) * 4) = Inr h \<and> icmp_type h = 8 \<and> icmp_code h = 0 \<and> 3712 < echo_len ip)"
  using assms by (auto simp: overlong_echo_def split: sum.splits)

lemma if_weaken: "if c then A else B \<Longrightarrow> c' = c \<Longrightarrow> (B \<Longrightarrow> B') \<Longrightarrow> if c' then A else B'"
  by (cases c) simp_all

text \<open>An ICMP packet: served once its header is pulled off, or the fault of an overlong echo.\<close>
lemma icmp_packet_ok:
  assumes "net_ok s" "i < 256" "buf_pool_used s ! i" "d = unat (nb_data (buf_pool s ! i))" "d \<le> 270"
    "ipv4_at (buffer (buf_pool s ! i)) d = Inr ip" "length (src_ip ip) = 4" "unat (ihl ip) < 16" "for_us me ip" "protocol ip = 1"
  shows "if overlong_echo me (buffer (buf_pool s ! i)) d \<and> \<not> (\<forall>u \<in> set (buf_pool_used s). u)
    then wx_icmp_process i ip (snd (wx_net_buf_pull i (ucast (ihl ip) * 4) s)) = Inl Out_of_bounds
    else \<exists>s'. wx_icmp_process i ip (snd (wx_net_buf_pull i (ucast (ihl ip) * 4) s)) = Inr s' \<and>
      gave_back i (snd (wx_net_buf_pull i (ucast (ihl ip) * 4) s)) s'"
proof -
  let ?b = "buffer (buf_pool s ! i)" and ?s = "snd (wx_net_buf_pull i (ucast (ihl ip) * 4) s)"
  note p = pull_ok [OF assms(1,2), of "ucast (ihl ip) * 4"]
  have d: "unat (nb_data (buf_pool ?s ! i)) = d + unat (ihl ip) * 4"
    using header_pulled [OF assms(1,2) _ assms(8)] assms(4,5) by simp
  then have d': "unat (nb_data (buf_pool ?s ! i)) \<le> 330" using assms(5,8) by simp
  have us: "buf_pool_used ?s ! i" using p(2) assms(3) by simp
  have "d + unat (ihl ip) * 4 + 8 \<le> length ?b" using net_okD(3) [OF assms(1,2)] assms(5,8) by simp
  then obtain h where h: "icmp_at ?b (d + unat (ihl ip) * 4) = Inr h" by (simp add: icmp_at_def slice_ok)
  then have "icmp_at (buffer (buf_pool ?s ! i)) (unat (nb_data (buf_pool ?s ! i))) = Inr h" using p(3) d by simp
  note ok = icmp_process_ok [OF p(1) assms(2) us d' assms(7) this]
  have "overlong_echo me ?b d \<longleftrightarrow> icmp_type h = 8 \<and> icmp_code h = 0 \<and> 3712 < echo_len ip"
    unfolding overlong_echo_eq [OF assms(6)] using h assms(9,10) by simp
  then show ?thesis by (intro if_weaken [OF ok [unfolded p(2)]]) blast+
qed

lemma ip_process_ok:
  assumes "net_ok s" "i < 256" "buf_pool_used s ! i" "unat (nb_data (buf_pool s ! i)) \<le> 270"
  shows "if overlong_echo (local_ip (core_net_dev s)) (buffer (buf_pool s ! i)) (unat (nb_data (buf_pool s ! i))) \<and>
      \<not> (\<forall>u \<in> set (buf_pool_used s). u)
    then wx_ip_process i s = Inl Out_of_bounds
    else \<exists>s'. wx_ip_process i s = Inr s' \<and> gave_back i s s'"
proof -
  let ?d = "unat (nb_data (buf_pool s ! i))" and ?b = "buffer (buf_pool s ! i)" and ?me = "local_ip (core_net_dev s)"
  have "?d + 20 \<le> length ?b" using net_okD(3) [OF assms(1,2)] assms(4) by simp
  from ipv4_at_ok [OF this] obtain ip where
    ip: "ipv4_at ?b ?d = Inr ip" "length (src_ip ip) = 4" "unat (ihl ip) < 16" by blast
  let ?s = "snd (wx_net_buf_pull i (ucast (ihl ip) * 4) s)"
  note p = pull_ok [OF assms(1,2), of "ucast (ihl ip) * 4"] and bad = overlong_echo_eq [OF ip(1), of ?me]
  have d: "unat (nb_data (buf_pool ?s ! i)) \<le> 400" using header_pulled [OF assms(1,2,4) ip(3)] ip(3) assms(4) by simp
  have gb: "gave_back i s s'" if "gave_back i ?s s'" for s' using that p(2,4) by (simp add: gave_back_def)
  show ?thesis
  proof (cases "for_us ?me ip")
    case False
    then have "wx_ip_process i s = Inr (wx_net_buf_free i s)"
      using ip(1) by (auto simp: wx_ip_process_def for_us_def Let_def not_le)
    then show ?thesis using False bad gave_back_free [OF assms(1,2)] by simp
  next
    case True
    then have run: "wx_ip_process i s =
       (if protocol ip = 1 then wx_icmp_process i ip ?s
        else if protocol ip = 6 then wx_tcp_process i ip ?s
        else if protocol ip = 17 then wx_udp_process i ip ?s
        else Inr (wx_net_buf_free i ?s))" using ip(1) by (auto simp: wx_ip_process_def for_us_def Let_def)
    consider "protocol ip = 1" | "protocol ip = 6" | "protocol ip = 17"
      | "protocol ip \<noteq> 1" "protocol ip \<noteq> 6" "protocol ip \<noteq> 17" by blast
    then show ?thesis
    proof cases
      case 1
      have r: "wx_ip_process i s = wx_icmp_process i ip ?s" unfolding run by (rule if_P [OF 1])
      show ?thesis unfolding r by (rule if_weaken [OF icmp_packet_ok [OF assms(1-3) refl assms(4) ip True 1] refl]) (use gb in blast)
    next
      case 2
      then show ?thesis using tcp_process_ok [OF p(1) assms(2) d ip(2)] run gb bad by auto
    next
      case 3
      then show ?thesis using udp_process_ok [OF p(1) assms(2) d, of ip] run gb bad by auto
    next
      case 4
      then show ?thesis using run gave_back_free [OF p(1) assms(2)] gb bad by simp
    qed
  qed
qed


section \<open>Receiving\<close>

definition eth_is :: "u16 \<Rightarrow> u8 list \<Rightarrow> bool" where
  "eth_is ty b = (case eth_at b 256 of Inl _ \<Rightarrow> False | Inr eth \<Rightarrow> htons (ethertype eth) = ty)"

text \<open>A frame as it lies in a fresh buffer, with room for the bytes the headers are read from.\<close>

definition in_buffer :: "u8 list \<Rightarrow> u8 list" where
  "in_buffer frame = replicate 256 0 @ frame @ replicate (3840 - length frame) 0"

definition overlong_frame :: "u8 list \<Rightarrow> u8 list \<Rightarrow> bool" where
  "overlong_frame me frame \<longleftrightarrow> eth_is 0x0800 (in_buffer frame) \<and> overlong_echo me (in_buffer frame) 270"

lemma eth_process_ok:
  assumes "net_ok s" "i < 256" "buf_pool_used s ! i" "nb_data (buf_pool s ! i) = 256"
  shows "if eth_is 0x0800 (buffer (buf_pool s ! i)) \<and> overlong_echo (local_ip (core_net_dev s)) (buffer (buf_pool s ! i)) 270 \<and>
      \<not> (\<forall>u \<in> set (buf_pool_used s). u)
    then wx_eth_process i s = Inl Out_of_bounds
    else \<exists>s'. wx_eth_process i s = Inr s' \<and> gave_back i s s'"
proof -
  have "length (buffer (buf_pool s ! i)) = 4096" by (rule net_okD(3) [OF assms(1,2)])
  then obtain eth where eth: "eth_at (buffer (buf_pool s ! i)) 256 = Inr eth" by (simp add: eth_at_def slice_ok)
  let ?s = "snd (wx_net_buf_pull i 14 s)"
  note p = pull_ok [OF assms(1,2), of 14]
  have ty: "eth_is ty (buffer (buf_pool s ! i)) \<longleftrightarrow> htons (ethertype eth) = ty" for ty using eth by (simp add: eth_is_def)
  have d: "unat (nb_data (buf_pool ?s ! i)) = 270" using p(5) assms(4) by simp
  have us: "buf_pool_used ?s ! i" "unat (nb_data (buf_pool ?s ! i)) \<le> 270" "unat (nb_data (buf_pool ?s ! i)) \<le> 400"
    using p(2) assms(3) d by simp_all
  have gb: "gave_back i s s'" if "gave_back i ?s s'" for s' using that p(2,4) by (simp add: gave_back_def)
  have run: "wx_eth_process i s = (if htons (ethertype eth) = 0x0806 then wx_arp_process i ?s
      else if htons (ethertype eth) = 0x0800 then wx_ip_process i ?s else Inr (wx_net_buf_free i ?s))"
    using eth assms(4) by (simp add: wx_eth_process_def Let_def)
  consider "htons (ethertype eth) = 0x0806" | "htons (ethertype eth) \<noteq> 0x0806" "htons (ethertype eth) = 0x0800"
    | "htons (ethertype eth) \<noteq> 0x0806" "htons (ethertype eth) \<noteq> 0x0800" by blast
  then show ?thesis
  proof cases
    case 1
    from arp_process_ok [OF p(1) assms(2) us(1,3)] show ?thesis unfolding run ty using 1 gb by auto
  next
    case 2
    from ip_process_ok [OF p(1) assms(2) us(1,2)] show ?thesis unfolding run ty p(2-4) d using 2 gb by (auto split: if_splits)
  next
    case 3
    then show ?thesis unfolding run ty using gb [OF gave_back_free [OF p(1) assms(2)]] by simp
  qed
qed

lemma net_ok_counters:
  "net_ok s \<Longrightarrow> net_ok (s\<lparr>core_net_dev := (core_net_dev s)\<lparr>rx_packets := a, rx_bytes := b\<rparr>\<rparr>)"
  by (simp add: net_ok_def pool_ok_def driver_ok_def tables_fit_def)

lemma second_free:
  assumes "i < length us" "\<not> us ! i"
  shows "(\<forall>u \<in> set (us[i := True]). u) \<longleftrightarrow> \<not> 2 \<le> length (filter Not us)"
proof -
  have "length (filter Not us) = Suc (length (filter Not (us[i := True])))"
    using assms
  proof (induction us arbitrary: i)
    case (Cons u us)
    then show ?case by (cases i) auto
  qed simp
  moreover have "(\<forall>u \<in> set (us[i := True]). u) \<longleftrightarrow> filter Not (us[i := True]) = []" by (simp add: filter_empty_conv)
  ultimately show ?thesis by (simp only: length_0_conv [symmetric]) linarith
qed

lemma receive_frame_ok:
  assumes "net_ok s" "unat len \<le> 2048" "length rxb = 2048"
  shows "if overlong_frame (local_ip (core_net_dev s)) (take (unat len) rxb) \<and> 2 \<le> length (filter Not (buf_pool_used s))
    then receive_frame len rxb s = Inl Out_of_bounds
    else \<exists>s'. receive_frame len rxb s = Inr s' \<and> net_ok s' \<and> buf_pool_used s' = buf_pool_used s \<and>
      local_ip (core_net_dev s') = local_ip (core_net_dev s)"
  using assms(1)
proof (cases rule: alloc_cases)
  case 1
  then have "filter Not (buf_pool_used s) = []" by (auto simp: filter_empty_conv)
  with 1 show ?thesis using assms(1) by (simp add: receive_frame_def)
next
  case (2 i s0)
  let ?f = "take (unat len) rxb"
  let ?s1 = "upd_buf i (\<lambda>b. b\<lparr>nb_tail := nb_tail b + len\<rparr>) s0"
  have l: "length (buf_pool s0) = 256" by (rule net_okD(1) [OF 2(4)])
  have b0: "buf_pool s0 ! i = fresh_buf" using 2(2,7) net_okD(1) [OF assms(1)] by simp
  then have b1: "buf_pool ?s1 ! i = fresh_buf\<lparr>nb_tail := 256 + len\<rparr>" using l 2(2) by simp
  have n1: "net_ok ?s1" by (rule net_ok_upd_buf [OF 2(4,2)]) simp
  have "256 + length ?f \<le> 4096" using assms(2,3) by simp
  note st = store_ok [OF n1 2(2) this]
  let ?s2 = "upd_buf i (\<lambda>b. b\<lparr>buffer := take 256 (buffer b) @ ?f @ drop (256 + length ?f) (buffer b)\<rparr>) ?s1"
  let ?s3 = "?s2\<lparr>core_net_dev := (core_net_dev ?s2)\<lparr>rx_packets := rx_packets (core_net_dev ?s2) + 1,
    rx_bytes := rx_bytes (core_net_dev ?s2) + ucast len\<rparr>\<rparr>"
  have n3: "net_ok ?s3" by (rule net_ok_counters [OF st(2)])
  have u3: "buf_pool_used ?s3 = (buf_pool_used s)[i := True]" using 2(6) by simp
  have b3: "nb_data (buf_pool ?s3 ! i) = 256" "buffer (buf_pool ?s3 ! i) = in_buffer ?f"
    using b1 l 2(2) assms(2,3) by (simp_all add: in_buffer_def min_def)
  have "buf_pool_used ?s3 ! i" using u3 2(2) net_okD(2) [OF assms(1)] by simp
  note ep = eth_process_ok [OF n3 2(2) this b3(1)]
  have me: "local_ip (core_net_dev ?s3) = local_ip (core_net_dev s)" using 2(9) by simp
  have fr: "(\<forall>u \<in> set (buf_pool_used ?s3). u) \<longleftrightarrow> \<not> 2 \<le> length (filter Not (buf_pool_used s))"
    unfolding u3 by (rule second_free) (use 2(2,3) net_okD(2) [OF assms(1)] in simp_all)
  have e: "if overlong_frame (local_ip (core_net_dev s)) ?f \<and> 2 \<le> length (filter Not (buf_pool_used s))
    then wx_eth_process i ?s3 = Inl Out_of_bounds
    else \<exists>s'. wx_eth_process i ?s3 = Inr s' \<and> gave_back i ?s3 s'"
    using ep unfolding b3(2) overlong_frame_def me fr by (simp only: conj_assoc not_not)
  have "wx_net_buf_put i len s0 = (256, ?s1)" using b0 by (simp add: wx_net_buf_put_def)
  moreover have "slice rxb 0 (unat len) = Inr ?f" using assms(2,3) by (simp add: slice_def)
  ultimately have run: "receive_frame len rxb s = wx_eth_process i ?s3"
    using 2(1) st(1) by (simp add: receive_frame_def Let_def)
  have same: "(buf_pool_used s)[i := False] = buf_pool_used s" using 2(3) by (metis (full_types) list_update_id)
  have rest: "net_ok s' \<and> buf_pool_used s' = buf_pool_used s \<and> local_ip (core_net_dev s') = local_ip (core_net_dev s)"
    if "gave_back i ?s3 s'" for s'
    using that unfolding gave_back_def u3 me list_update_overwrite same by blast
  show ?thesis
  proof (cases "overlong_frame (local_ip (core_net_dev s)) ?f \<and> 2 \<le> length (filter Not (buf_pool_used s))")
    case True
    show ?thesis unfolding run if_P [OF True] by (rule e [unfolded if_P [OF True]])
  next
    case False
    from e [unfolded if_not_P [OF False]] show ?thesis unfolding run if_not_P [OF False] using rest by blast
  qed
qed


definition rx_ok :: "e1000_rx \<Rightarrow> bool" where
  "rx_ok r \<longleftrightarrow> length (e1000_rx_ring r) = 128 \<and> length (e1000_rx_buffers r) = 128 \<and> e1000_rx_ptr r < 128 \<and>
     (\<forall>b \<in> set (e1000_rx_buffers r). length b = 2048) \<and> (\<forall>d \<in> set (e1000_rx_ring r). unat (rx_length d) \<le> 2048)"

text \<open>The frames that wait in the ring.\<close>

definition waiting :: "e1000_rx \<Rightarrow> u8 list set" where
  "waiting r = {take (unat (rx_length (e1000_rx_ring r ! p))) (e1000_rx_buffers r ! p) |p.
     p < 128 \<and> bit (rx_status (e1000_rx_ring r ! p)) 0}"

definition rx_step :: "e1000_rx \<Rightarrow> e1000_rx" where
  "rx_step r = (let p = e1000_rx_ptr r in
     r\<lparr>e1000_rx_ring := (e1000_rx_ring r)[p := (e1000_rx_ring r ! p)\<lparr>rx_status := 0\<rparr>], e1000_rx_ptr := (p + 1) mod 128\<rparr>)"

lemma rx_step_ok:
  assumes "rx_ok r"
  shows "rx_ok (rx_step r)" "waiting (rx_step r) \<subseteq> waiting r"
proof -
  have "unat (rx_length (e1000_rx_ring r ! e1000_rx_ptr r)) \<le> 2048" using assms by (simp add: rx_ok_def)
  then show "rx_ok (rx_step r)" using assms
    by (auto simp: rx_ok_def rx_step_def Let_def dest!: set_update_subset_insert [THEN subsetD])
  show "waiting (rx_step r) \<subseteq> waiting r"
    using assms by (auto simp: waiting_def rx_step_def Let_def rx_ok_def nth_list_update split: if_splits)
qed

lemma poll_unfold:
  assumes "rx_ok r"
  shows "wx_e1000_poll r s =
    (let d = e1000_rx_ring r ! e1000_rx_ptr r in
     if bit (rx_status d) 0 then
       bindE (receive_frame (rx_length d) (e1000_rx_buffers r ! e1000_rx_ptr r) s) (\<lambda>s.
         wx_e1000_poll (rx_step r) (mmio_write32 (e1000_base s + 0x2818) (of_nat (e1000_rx_ptr r)) s))
     else Inr (r, s))"
  using assms by (subst wx_e1000_poll.simps) (simp add: rx_ok_def rx_step_def Let_def get_def)

lemma net_ok_mmio: "net_ok (mmio_write32 a v s) = net_ok s" "buf_pool_used (mmio_write32 a v s) = buf_pool_used s"
  "core_net_dev (mmio_write32 a v s) = core_net_dev s"
  by (simp_all add: net_ok_def pool_ok_def driver_ok_def tables_fit_def mmio_write32_def)

lemma memcmp_self: "wx_memcmp xs xs n = 0"
proof (induction xs arbitrary: n)
  case Nil
  then show ?case by (cases n) simp_all
next
  case (Cons x xs)
  then show ?case by (cases n) simp_all
qed

section \<open>Concrete inputs\<close>

text \<open>A machine at 192.168.1.100 that knows its neighbour 192.168.1.2, listens on port 80 and holds one buffer.\<close>

definition demo_net :: "wx_net_buf \<Rightarrow> net" where
  "demo_net b =
     \<lparr>buf_pool = b # replicate 255 fresh_buf, buf_pool_used = True # replicate 255 False,
      core_net_dev = \<lparr>local_mac = [0x52, 0x54, 0, 0x12, 0x34, 0x56], local_ip = [192, 168, 1, 100], netmask = [], gateway = [],
        rx_packets = 0, tx_packets = 0, rx_bytes = 0, tx_bytes = 0, errors = 0\<rparr>,
      arp_cache = [\<lparr>arp_ip = [192, 168, 1, 2], arp_mac = [2, 0, 0, 0, 0, 2], arp_state = 1, arp_ttl = 3000\<rparr>],
      tcp_sockets = [blank_tcb\<lparr>local_port := 80, tcb_state := 1, tcb_used := True\<rparr>],
      e1000_tx_ring = replicate 128 \<lparr>tx_length = 0, tx_cmd = 0, tx_sta = 1\<rparr>,
      e1000_tx_buffers = replicate 128 (replicate 2048 0), e1000_tx_ptr = 0, e1000_base = 0xFEB00000,
      mmio = (\<lambda>_. 0), nic_sends = True, wire = []\<rparr>"

lemma demo_net_ok: "length (buffer b) = 4096 \<Longrightarrow> net_ok (demo_net b)"
  by (simp add: net_ok_def pool_ok_def driver_ok_def tables_fit_def demo_net_def blank_tcb_def wx_memset_def)

text \<open>An echo request of 42 bytes in all whose IP header claims a packet of 65535.\<close>

definition demo_ping :: "u8 list" where
  "demo_ping = eth_bytes \<lparr>eth_dest = [0x52, 0x54, 0, 0x12, 0x34, 0x56], eth_src = [2, 0, 0, 0, 0, 2], ethertype = htons 0x0800\<rparr> @
     [0x45, 0, 0xFF, 0xFF, 0, 0, 0, 0, 64, 1, 0, 0, 192, 168, 1, 2, 192, 168, 1, 100] @ [8, 0, 0, 0, 0, 1, 0, 1]"

lemma demo_ping_overlong: "overlong_frame [192, 168, 1, 100] demo_ping"
proof -
  have e: "eth_is 0x0800 (in_buffer demo_ping)"
    by (simp add: eth_is_def in_buffer_def demo_ping_def eth_at_def slice_def eth_bytes_def le16_def htons_def raw16_def)
  have i: "ipv4_at (in_buffer demo_ping) 270 = Inr \<lparr>ihl = 5, version = 4, tos = 0, total_len = 0xFFFF, ip_id = 0,
      frag_offset = 0, ttl = 64, protocol = 1, ip_checksum = 0, src_ip = [192, 168, 1, 2], dest_ip = [192, 168, 1, 100]\<rparr>"
    by (simp add: ipv4_at_def in_buffer_def demo_ping_def slice_def eth_bytes_def le16_def raw16_def)
  have c: "icmp_at (in_buffer demo_ping) 290 = Inr \<lparr>icmp_type = 8, icmp_code = 0, icmp_checksum = 0, icmp_id = 0x0100,
      icmp_seq = 0x0100\<rparr>"
    by (simp add: icmp_at_def in_buffer_def demo_ping_def slice_def eth_bytes_def le16_def raw16_def)
  show ?thesis using e i c by (simp add: overlong_frame_def overlong_echo_def for_us_def echo_len_def htons_def memcmp_self)
qed

definition demo_rx :: e1000_rx where
  "demo_rx = \<lparr>e1000_rx_ring = \<lparr>rx_length = 60, rx_status = 1\<rparr> # replicate 127 \<lparr>rx_length = 0, rx_status = 0\<rparr>,
     e1000_rx_buffers = replicate 128 (replicate 2048 0), e1000_rx_ptr = 0\<rparr>"

lemma demo_rx_ok: "rx_ok demo_rx"
  by (simp add: rx_ok_def demo_rx_def)

section \<open>What a frame can do\<close>

text \<open>
  C24: polling the card gives every buffer back.  Whatever frames wait in the ring, \<open>wx_e1000_poll\<close> either leaves the
  pool of network buffers exactly as it was, with the next descriptor empty and every table well formed, or writes out of
  bounds, and then one of the waiting frames is an echo request for this host whose IP header claims more payload than a
  buffer holds.
\<close>
theorem polling_gives_every_buffer_back:
  assumes "net_ok s" "rx_ok r"
  shows "(\<exists>r' s'. wx_e1000_poll r s = Inr (r', s') \<and> net_ok s' \<and> rx_ok r' \<and> buf_pool_used s' = buf_pool_used s \<and>
      \<not> bit (rx_status (e1000_rx_ring r' ! e1000_rx_ptr r')) 0) \<or>
    (wx_e1000_poll r s = Inl Out_of_bounds \<and> (\<exists>f \<in> waiting r. overlong_frame (local_ip (core_net_dev s)) f))"
  using assms
proof (induction "length (filter (\<lambda>d. bit (rx_status d) 0) (e1000_rx_ring r))" arbitrary: r s rule: less_induct)
  case less
  let ?p = "e1000_rx_ptr r" and ?d = "e1000_rx_ring r ! e1000_rx_ptr r"
  have p: "?p < 128" "length (e1000_rx_ring r) = 128" "length (e1000_rx_buffers r ! ?p) = 2048" "unat (rx_length ?d) \<le> 2048"
    using less.prems(2) by (simp_all add: rx_ok_def)
  show ?case
  proof (cases "bit (rx_status ?d) 0")
    case False
    then show ?thesis using less.prems by (simp add: poll_unfold Let_def)
  next
    case True
    have dec: "length (filter (\<lambda>d. bit (rx_status d) 0) (e1000_rx_ring (rx_step r))) <
        length (filter (\<lambda>d. bit (rx_status d) 0) (e1000_rx_ring r))"
      using True p by (simp add: rx_step_def Let_def filter_update_less)
    have w: "take (unat (rx_length ?d)) (e1000_rx_buffers r ! ?p) \<in> waiting r" using True p by (auto simp: waiting_def)
    note st = rx_step_ok [OF less.prems(2)]
    note rf = receive_frame_ok [OF less.prems(1) p(4,3)]
    show ?thesis
    proof (cases "overlong_frame (local_ip (core_net_dev s)) (take (unat (rx_length ?d)) (e1000_rx_buffers r ! ?p)) \<and>
        2 \<le> length (filter Not (buf_pool_used s))")
      case bad: True
      with rf have "receive_frame (rx_length ?d) (e1000_rx_buffers r ! ?p) s = Inl Out_of_bounds" by (simp only: if_True)
      then have "wx_e1000_poll r s = Inl Out_of_bounds" using True poll_unfold [OF less.prems(2)] by (simp add: Let_def)
      then show ?thesis using bad w by blast
    next
      case False
      with rf obtain s' where s': "receive_frame (rx_length ?d) (e1000_rx_buffers r ! ?p) s = Inr s'" "net_ok s'"
        "buf_pool_used s' = buf_pool_used s" "local_ip (core_net_dev s') = local_ip (core_net_dev s)"
        by (simp only: if_False) blast
      let ?s = "mmio_write32 (e1000_base s' + 0x2818) (of_nat ?p) s'"
      have run: "wx_e1000_poll r s = wx_e1000_poll (rx_step r) ?s"
        using True s'(1) poll_unfold [OF less.prems(2)] by (simp add: Let_def)
      have n: "net_ok ?s" "buf_pool_used ?s = buf_pool_used s" "local_ip (core_net_dev ?s) = local_ip (core_net_dev s)"
        using s'(2-4) by (simp_all add: net_ok_mmio)
      from less.hyps [OF dec n(1) st(1)] show ?thesis unfolding run n(2,3) using st(2) by blast
    qed
  qed
qed

theorem polling_gives_every_buffer_back_witness:
  "(\<exists>r' s'. wx_e1000_poll demo_rx (demo_net fresh_buf) = Inr (r', s') \<and> net_ok s' \<and> rx_ok r' \<and>
      buf_pool_used s' = buf_pool_used (demo_net fresh_buf) \<and> \<not> bit (rx_status (e1000_rx_ring r' ! e1000_rx_ptr r')) 0) \<or>
    (wx_e1000_poll demo_rx (demo_net fresh_buf) = Inl Out_of_bounds \<and>
      (\<exists>f \<in> waiting demo_rx. overlong_frame (local_ip (core_net_dev (demo_net fresh_buf))) f))"
  by (rule polling_gives_every_buffer_back [OF demo_net_ok demo_rx_ok]) simp


text \<open>
  The only received frames whose processing leaves a buffer are echo requests for this host whose IP header claims more
  than 3712 payload bytes, however few were received, and those always do while two buffers are free; every other frame
  is processed to the end and leaves the pool of buffers and the local address as they were.
\<close>
lemma only_overlong_echo_requests_overflow:
  assumes "net_ok s" "unat len \<le> 2048" "length rxb = 2048"
  shows "if overlong_frame (local_ip (core_net_dev s)) (take (unat len) rxb) \<and> 2 \<le> length (filter Not (buf_pool_used s))
    then receive_frame len rxb s = Inl Out_of_bounds
    else \<exists>s'. receive_frame len rxb s = Inr s' \<and> net_ok s' \<and> buf_pool_used s' = buf_pool_used s \<and>
      local_ip (core_net_dev s') = local_ip (core_net_dev s)"
  by (rule receive_frame_ok [OF assms])

lemma only_overlong_echo_requests_overflow_witness:
  "receive_frame 42 (demo_ping @ replicate 2006 0) (demo_net fresh_buf) = Inl Out_of_bounds"
proof -
  have l: "length demo_ping = 42" by (simp add: demo_ping_def length_headers)
  have n: "net_ok (demo_net fresh_buf)" by (rule demo_net_ok) simp
  have "overlong_frame (local_ip (core_net_dev (demo_net fresh_buf))) (take (unat (42 :: u16)) (demo_ping @ replicate 2006 0)) \<and>
      2 \<le> length (filter Not (buf_pool_used (demo_net fresh_buf)))"
    using demo_ping_overlong l by (simp add: demo_net_def)
  from only_overlong_echo_requests_overflow [OF n, of 42 "demo_ping @ replicate 2006 0", unfolded if_P [OF this]] l
  show ?thesis by simp
qed

text \<open>
  C25: an echo request from a host whose hardware address is known is answered with exactly one frame: an IP packet to that
  host with an echo reply that has the request's identifier, sequence number and payload and a fresh checksum; the
  request's buffer is free again afterwards.
\<close>
theorem echo_requests_are_answered:
  assumes "net_ok s" "i < 256" "buf_pool_used s ! i" "unat (nb_data (buf_pool s ! i)) \<le> 330" "length (src_ip ip) = 4"
    "icmp_at (buffer (buf_pool s ! i)) (unat (nb_data (buf_pool s ! i))) = Inr h" "icmp_type h = 8" "icmp_code h = 0"
    "\<not> (\<forall>u \<in> set (buf_pool_used s). u)" "wx_arp_lookup (src_ip ip) s = Some mac" "src_ip ip \<noteq> [255, 255, 255, 255]"
    "echo_len ip \<le> 2006"
  shows "\<exists>s'. wx_icmp_process i ip s = Inr s' \<and> net_ok s' \<and> buf_pool_used s' = (buf_pool_used s)[i := False] \<and>
    wire s' = wire s @ [ip_frame s mac (src_ip ip) 1 (icmp_message 0 (icmp_id h) (icmp_seq h)
      (take (echo_len ip) (drop (unat (nb_data (buf_pool s ! i)) + 8) (buffer (buf_pool s ! i)))))]"
proof -
  have "\<not> (icmp_type h = 8 \<and> icmp_code h = 0 \<and> \<not> (\<forall>u \<in> set (buf_pool_used s). u) \<and> 3712 < echo_len ip)"
    using assms(12) by simp
  from icmp_process_ok [OF assms(1-6), unfolded if_not_P [OF this]] obtain s' where
    "wx_icmp_process i ip s = Inr s'" "gave_back i s s'" "echo_answered i ip h s s'" using assms(7-9) by blast
  then show ?thesis using assms(10-12) unfolding echo_answered_def gave_back_def by blast
qed

theorem echo_requests_are_answered_witness:
  "let ip = \<lparr>ihl = 5, version = 4, tos = 0, total_len = htons 32, ip_id = 0, frag_offset = 0, ttl = 64, protocol = 1,
        ip_checksum = 0, src_ip = [192, 168, 1, 2], dest_ip = [192, 168, 1, 100]\<rparr>;
       b = fresh_buf\<lparr>buffer := replicate 290 0 @ [8, 0, 0, 0, 0, 1, 0, 7, 0xDE, 0xAD, 0xBE, 0xEF] @ replicate 3794 0,
        nb_data := 290, nb_tail := 302\<rparr>
   in \<exists>s'. wx_icmp_process 0 ip (demo_net b) = Inr s' \<and> net_ok s' \<and>
     buf_pool_used s' = (buf_pool_used (demo_net b))[0 := False] \<and>
     wire s' = [ip_frame (demo_net b) [2, 0, 0, 0, 0, 2] [192, 168, 1, 2] 1
       (icmp_message 0 0x0100 0x0700 [0xDE, 0xAD, 0xBE, 0xEF])]"
proof -
  define ip where "ip = \<lparr>ihl = 5, version = 4, tos = 0, total_len = htons 32, ip_id = 0, frag_offset = 0, ttl = 64, protocol = 1,
        ip_checksum = 0, src_ip = [192, 168, 1, 2], dest_ip = [192, 168, 1, 100]\<rparr>"
  define b where "b = fresh_buf\<lparr>buffer := replicate 290 0 @ [8, 0, 0, 0, 0, 1, 0, 7, 0xDE, 0xAD, 0xBE, 0xEF] @ replicate 3794 0,
        nb_data := 290, nb_tail := 302\<rparr>"
  let ?h = "\<lparr>icmp_type = 8, icmp_code = 0, icmp_checksum = 0, icmp_id = 0x0100, icmp_seq = 0x0700\<rparr> :: wx_icmp_hdr"
  have n: "net_ok (demo_net b)" by (rule demo_net_ok) (simp add: b_def)
  have e: "echo_len ip = 4" by (simp add: echo_len_def ip_def htons_def)
  have d: "buf_pool (demo_net b) ! 0 = b" "src_ip ip = [192, 168, 1, 2]" "nb_data b = 290" "wire (demo_net b) = []"
    by (simp_all add: demo_net_def ip_def b_def)
  have h: "icmp_at (buffer b) 290 = Inr ?h" by (simp add: icmp_at_def slice_def b_def raw16_def)
  have lk: "wx_arp_lookup [192, 168, 1, 2] (demo_net b) = Some [2, 0, 0, 0, 0, 2]"
    by (simp add: wx_arp_lookup_def demo_net_def arp_hit_def memcmp_self)
  have p: "take 4 (drop (290 + 8) (buffer b)) = [0xDE, 0xAD, 0xBE, 0xEF]" by (simp add: b_def)
  have u: "buf_pool_used (demo_net b) ! 0" "\<not> (\<forall>u \<in> set (buf_pool_used (demo_net b)). u)" by (simp_all add: demo_net_def)
  have "unat (290 :: u16) = 290" by simp
  from echo_requests_are_answered [OF n _ u(1), of ip ?h "[2, 0, 0, 0, 0, 2]", unfolded d e this p] h lk u(2)
  show ?thesis unfolding Let_def ip_def [symmetric] b_def [symmetric] by simp
qed

section \<open>The TCP handshake\<close>

text \<open>Once a listener has taken a peer's address, the peer's segments find that socket.\<close>

lemma find_tcb_connected:
  assumes "find_tcb p q ip ts = Some k" "tcb_used t = tcb_used (ts ! k)" "local_port t = local_port (ts ! k)"
    "remote_port t = ucast p" "remote_ip t = ip"
  shows "find_tcb p q ip (ts[k := t]) = Some k"
proof -
  let ?P = "\<lambda>t. tcb_used t \<and> local_port t = ucast q \<and> remote_port t = ucast p \<and> wx_memcmp (remote_ip t) ip 4 = 0"
  let ?Q = "\<lambda>t. tcb_used t \<and> local_port t = ucast q \<and> tcb_state t = 1"
  have k: "k < length ts" by (rule find_tcb_bound [OF assms(1)])
  have "tcb_used (ts ! k) \<and> local_port (ts ! k) = ucast q \<and> (\<forall>j < k. \<not> ?P (ts ! j))"
  proof (cases "first_ix ?P ts")
    case None
    then have "first_ix ?Q ts = Some k" using assms(1) by (simp add: find_tcb_def)
    from first_ix_SomeD [OF this] None k show ?thesis by (auto simp: first_ix_None)
  next
    case (Some j)
    then have "j = k" using assms(1) by (simp add: find_tcb_def)
    with first_ix_SomeD [OF Some] show ?thesis by auto
  qed
  then have "first_ix ?P (ts[k := t]) = Some k"
    using k assms(2-5) by (simp add: first_ix_eq_Some memcmp_self)
  then show ?thesis by (simp add: find_tcb_def)
qed

lemma find_tcb_port:
  assumes "find_tcb p q ip ts = Some k"
  shows "local_port (ts ! k) = ucast q"
  using assms by (auto simp: find_tcb_def dest!: first_ix_SomeD split: option.splits)

text \<open>
  The bytes of the answer to the segment \<open>h\<close>: its ports the other way round, the sequence number
  0x89ABCDEF, the acknowledgement of its own plus one, five words of header, SYN and ACK, a window of 8192.
\<close>

definition handshake_reply :: "wx_tcp_hdr \<Rightarrow> u16 \<Rightarrow> u8 list" where
  "handshake_reply h csum =
     le16 (tcp_dest_port h) @ le16 (tcp_src_port h) @ [0x89, 0xAB, 0xCD, 0xEF] @ rev (le32 (htonl (seq_num h) + 1)) @
     [0x50, 0x12, 0x20, 0x00] @ le16 csum @ [0x00, 0x00]"

lemma ucast_port [simp]: "ucast (ucast (x :: u16) :: u32) = x"
  by (rule bit_eqI) (auto simp: bit_simps)

lemma syn_ack_reply:
  assumes "local_port t = ucast (htons (tcp_dest_port h))" "remote_port t = ucast (htons (tcp_src_port h))"
    "snd_nxt t = 0x89ABCDEF" "rcv_nxt t = htonl (seq_num h) + 1" "length src = 4" "length (remote_ip t) = 4"
  shows "\<exists>csum. tcp_bytes (syn_ack src t) = handshake_reply h csum \<and>
     wx_checksum (src @ remote_ip t @ [0, 6, 0, 20] @ handshake_reply h csum) = 0"
proof -
  have b: "tcp_bytes (syn_ack src t) = handshake_reply h (tcp_checksum (syn_ack src t))"
    using assms(1-4) le32_htonl [of "rcv_nxt t"]
    by (simp add: syn_ack_def tcp_bytes_def handshake_reply_def le32_htonl) (simp add: le32_def le16_def htons_def)
  let ?h = "(syn_ack src t)\<lparr>tcp_checksum := 0\<rparr>"
  let ?p = "src @ remote_ip t @ [0, 6, 0, 20]"
  let ?xs = "?p @ take 16 (handshake_reply h 0)"
  have z: "tcp_bytes ?h = handshake_reply h 0" "handshake_reply h c = take 16 (handshake_reply h 0) @ le16 c @ [0, 0]" for c
    using b by (auto simp: tcp_bytes_def handshake_reply_def le16_def le32_def)
  have l: "le16 (htons 20) = [0, 20]" by (simp add: le16_def htons_def)
  have ev: "even (length (src @ remote_ip t @ [0, 6] @ le16 (htons 20)))" using assms(5,6) l by simp
  have "tcp_checksum (syn_ack src t) = tcp_checksum_of src (remote_ip t) ?h" by (simp add: syn_ack_def Let_def)
  also have "\<dots> = wx_checksum ((src @ remote_ip t @ [0, 6] @ le16 (htons 20)) @ handshake_reply h 0)"
    unfolding tcp_checksum_of_def wx_checksum_def z(1) sum16_append [OF ev] ..
  finally have ck: "tcp_checksum (syn_ack src t) = wx_checksum (?p @ handshake_reply h 0)" unfolding l by simp
  have e: "even (length ?xs)" using assms(5,6) by (simp add: handshake_reply_def le16_def le32_def)
  have "wx_checksum (?xs @ le16 (wx_checksum (?xs @ 0 # 0 # [0, 0])) @ [0, 0]) = 0"
    by (rule checksum_stored [OF e]) (use assms(5,6) in \<open>simp add: handshake_reply_def le16_def le32_def\<close>)
  moreover have "?xs @ 0 # 0 # [0, 0] = ?p @ handshake_reply h 0"
    using z(2) [of 0] by (simp add: le16_def)
  moreover have "?p @ handshake_reply h c = ?xs @ le16 c @ [0, 0]" for c using z(2) [of c] by simp
  ultimately have "wx_checksum (?p @ handshake_reply h (tcp_checksum (syn_ack src t))) = 0" unfolding ck by metis
  with b show ?thesis by (intro exI [of _ "tcp_checksum (syn_ack src t)"]) simp
qed

text \<open>The acknowledgement of a socket in state 2.\<close>

lemma tcp_ack_step:
  assumes "tcp_at (buffer (buf_pool s ! j)) (unat (nb_data (buf_pool s ! j))) = Inr a"
    "find_tcb (htons (tcp_src_port a)) (htons (tcp_dest_port a)) (src_ip ip) (tcp_sockets s) = Some k"
    "tcb_state (tcp_sockets s ! k) = 2" "ack a"
  shows "\<exists>s'. wx_tcp_process j ip s = Inr s' \<and>
    tcb_state (tcp_sockets s' ! k) = (if htonl (ack_num a) = snd_nxt (tcp_sockets s ! k) then 3 else 2)"
  using assms find_tcb_bound [OF assms(2)] by (simp add: wx_tcp_process_def Let_def)


text \<open>A SYN for a listener from a known host: the socket takes the peer and one SYN-ACK goes out.\<close>

lemma tcp_syn_step:
  assumes "net_ok s" "length (src_ip ip) = 4"
    "tcp_at (buffer (buf_pool s ! i)) (unat (nb_data (buf_pool s ! i))) = Inr h" "syn h" "\<not> ack h"
    "find_tcb (htons (tcp_src_port h)) (htons (tcp_dest_port h)) (src_ip ip) (tcp_sockets s) = Some k"
    "tcb_state (tcp_sockets s ! k) = 1" "\<not> (\<forall>u \<in> set (buf_pool_used s). u)"
    "wx_arp_lookup (src_ip ip) s = Some mac" "src_ip ip \<noteq> [255, 255, 255, 255]"
  obtains s1 t where "wx_tcp_process i ip s = Inr s1" "tcp_sockets s1 = (tcp_sockets s)[k := t]"
    "t = (tcp_sockets s ! k)\<lparr>remote_port := ucast (htons (tcp_src_port h)), remote_ip := src_ip ip,
       rcv_nxt := htonl (seq_num h) + 1, snd_nxt := 0x89ABCDF0, snd_una := 0x89ABCDEF, tcb_state := 2\<rparr>"
    "wire s1 = wire s @ [ip_frame s mac (src_ip ip) 6 (tcp_bytes (syn_ack (local_ip (core_net_dev s)) (t\<lparr>snd_nxt := 0x89ABCDEF\<rparr>)))]"
proof -
  define f where "f = (\<lambda>t. t\<lparr>remote_port := ucast (htons (tcp_src_port h)), remote_ip := src_ip ip,
    rcv_nxt := htonl (seq_num h) + 1, snd_nxt := 0x89ABCDEF, snd_una := 0x89ABCDEF, tcb_state := 2\<rparr> :: wx_tcp_tcb)"
  define t0 where "t0 = f (tcp_sockets s ! k)"
  have k: "k < length (tcp_sockets s)" by (rule find_tcb_bound [OF assms(6)])
  have n: "net_ok (upd_tcb k f s)" by (rule net_ok_upd_tcb [OF assms(1)]) (use assms(2) in \<open>simp add: f_def\<close>)
  have t0: "tcp_sockets (upd_tcb k f s) ! k = t0" "remote_ip t0 = src_ip ip" "snd_nxt t0 + 1 = 0x89ABCDF0"
    using k by (simp_all add: t0_def f_def)
  have kl: "k < length (tcp_sockets (upd_tcb k f s))" using k by simp
  have lk: "wx_arp_lookup (src_ip ip) (upd_tcb k f s) = Some mac" using assms(9) by (simp add: wx_arp_lookup_def)
  have fr: "\<not> (\<forall>u \<in> set (buf_pool_used (upd_tcb k f s)). u)" using assms(8) by simp
  from tcp_answer_ok [OF n kl] obtain s1 where
    s1: "tcp_answer k (upd_tcb k f s) = Inr s1"
      "tcp_sockets s1 = (tcp_sockets (upd_tcb k f s))[k := t0\<lparr>snd_nxt := snd_nxt t0 + 1\<rparr>]"
      "wire s1 = wire (upd_tcb k f s) @ [ip_frame (upd_tcb k f s) mac (src_ip ip) 6
         (tcp_bytes (syn_ack (local_ip (core_net_dev (upd_tcb k f s))) t0))]"
    unfolding if_not_P [OF fr] t0(1,2) using lk assms(10) by blast
  have w: "wire s1 = wire s @ [ip_frame s mac (src_ip ip) 6 (tcp_bytes (syn_ack (local_ip (core_net_dev s)) t0))]"
    using s1(3) by (simp add: ip_frame_def)
  have run: "wx_tcp_process i ip s = Inr (wx_net_buf_free i s1)"
    using assms(3-7) s1(1) by (simp add: wx_tcp_process_def Let_def f_def)
  have old: "t0\<lparr>snd_nxt := 0x89ABCDF0, snd_nxt := 0x89ABCDEF\<rparr> = t0" by (simp add: t0_def f_def)
  show thesis
  proof (rule that [OF run])
    show "tcp_sockets (wx_net_buf_free i s1) = (tcp_sockets s)[k := t0\<lparr>snd_nxt := 0x89ABCDF0\<rparr>]"
      using s1(2) unfolding t0(3) by simp
    show "t0\<lparr>snd_nxt := 0x89ABCDF0\<rparr> = (tcp_sockets s ! k)\<lparr>remote_port := ucast (htons (tcp_src_port h)), remote_ip := src_ip ip,
       rcv_nxt := htonl (seq_num h) + 1, snd_nxt := 0x89ABCDF0, snd_una := 0x89ABCDEF, tcb_state := 2\<rparr>"
      by (simp add: t0_def f_def)
    show "wire (wx_net_buf_free i s1) = wire s @ [ip_frame s mac (src_ip ip) 6
        (tcp_bytes (syn_ack (local_ip (core_net_dev s)) (t0\<lparr>snd_nxt := 0x89ABCDF0, snd_nxt := 0x89ABCDEF\<rparr>)))]"
      unfolding old using w by (simp only: same_conf_simps)
  qed
qed

text \<open>
  C26: the TCP handshake.  A SYN for a listening socket from a host whose hardware address is known is answered with one
  IP packet to that host: a segment between the same ports with SYN and ACK set, the sequence number 0x89ABCDEF, the
  acknowledgement of the sequence number received plus one, and a checksum that verifies over the pseudo header.  The
  socket is then bound to the peer in state 2, and only an acknowledgement of exactly the number sent, plus one, moves it
  to state 3.
\<close>
theorem tcp_handshake:
  assumes "net_ok s" "i < 256" "unat (nb_data (buf_pool s ! i)) \<le> 400" "length (src_ip ip) = 4"
    "tcp_at (buffer (buf_pool s ! i)) (unat (nb_data (buf_pool s ! i))) = Inr h" "syn h" "\<not> ack h"
    "find_tcb (htons (tcp_src_port h)) (htons (tcp_dest_port h)) (src_ip ip) (tcp_sockets s) = Some k"
    "tcb_state (tcp_sockets s ! k) = 1" "\<not> (\<forall>u \<in> set (buf_pool_used s). u)"
    "wx_arp_lookup (src_ip ip) s = Some mac" "src_ip ip \<noteq> [255, 255, 255, 255]"
  shows "\<exists>s1. wx_tcp_process i ip s = Inr s1 \<and> tcb_state (tcp_sockets s1 ! k) = 2 \<and>
    rcv_nxt (tcp_sockets s1 ! k) = htonl (seq_num h) + 1 \<and> snd_nxt (tcp_sockets s1 ! k) = 0x89ABCDF0 \<and>
    remote_ip (tcp_sockets s1 ! k) = src_ip ip \<and> remote_port (tcp_sockets s1 ! k) = ucast (htons (tcp_src_port h)) \<and>
    (\<exists>csum. wire s1 = wire s @ [ip_frame s mac (src_ip ip) 6 (handshake_reply h csum)] \<and>
      wx_checksum (local_ip (core_net_dev s) @ src_ip ip @ [0, 6, 0, 20] @ handshake_reply h csum) = 0) \<and>
    (\<forall>s2 j ip2 a. tcp_sockets s2 = tcp_sockets s1 \<and> src_ip ip2 = src_ip ip \<and> ack a \<and>
        tcp_at (buffer (buf_pool s2 ! j)) (unat (nb_data (buf_pool s2 ! j))) = Inr a \<and>
        tcp_src_port a = tcp_src_port h \<and> tcp_dest_port a = tcp_dest_port h \<longrightarrow>
      (\<exists>s3. wx_tcp_process j ip2 s2 = Inr s3 \<and>
        tcb_state (tcp_sockets s3 ! k) = (if htonl (ack_num a) = 0x89ABCDF0 then 3 else 2)))"
proof -
  have k: "k < length (tcp_sockets s)" by (rule find_tcb_bound [OF assms(8)])
  obtain s1 t where run: "wx_tcp_process i ip s = Inr s1" and sock: "tcp_sockets s1 = (tcp_sockets s)[k := t]"
    and t: "t = (tcp_sockets s ! k)\<lparr>remote_port := ucast (htons (tcp_src_port h)), remote_ip := src_ip ip,
       rcv_nxt := htonl (seq_num h) + 1, snd_nxt := 0x89ABCDF0, snd_una := 0x89ABCDEF, tcb_state := 2\<rparr>"
    and w: "wire s1 = wire s @ [ip_frame s mac (src_ip ip) 6 (tcp_bytes (syn_ack (local_ip (core_net_dev s)) (t\<lparr>snd_nxt := 0x89ABCDEF\<rparr>)))]"
    by (rule tcp_syn_step [OF assms(1,4-12)])
  have sk: "tcp_sockets s1 ! k = t" using sock k by simp
  have lip: "length (local_ip (core_net_dev s)) = 4" using assms(1) by (simp add: net_ok_def tables_fit_def)
  from syn_ack_reply [of "t\<lparr>snd_nxt := 0x89ABCDEF\<rparr>" h, OF _ _ _ _ lip] find_tcb_port [OF assms(8)] t assms(4)
  obtain csum where reply: "tcp_bytes (syn_ack (local_ip (core_net_dev s)) (t\<lparr>snd_nxt := 0x89ABCDEF\<rparr>)) = handshake_reply h csum"
    "wx_checksum (local_ip (core_net_dev s) @ src_ip ip @ [0, 6, 0, 20] @ handshake_reply h csum) = 0" by auto
  have t1: "tcb_used t = tcb_used (tcp_sockets s ! k)" "local_port t = local_port (tcp_sockets s ! k)"
    "remote_port t = ucast (htons (tcp_src_port h))" "remote_ip t = src_ip ip"
    and t2: "tcb_state t = 2" "rcv_nxt t = htonl (seq_num h) + 1" "snd_nxt t = 0x89ABCDF0" by (simp_all add: t)
  have "\<exists>s3. wx_tcp_process j ip2 s2 = Inr s3 \<and>
      tcb_state (tcp_sockets s3 ! k) = (if htonl (ack_num a) = 0x89ABCDF0 then 3 else 2)"
    if a: "tcp_sockets s2 = tcp_sockets s1 \<and> src_ip ip2 = src_ip ip \<and> ack a \<and>
        tcp_at (buffer (buf_pool s2 ! j)) (unat (nb_data (buf_pool s2 ! j))) = Inr a \<and>
        tcp_src_port a = tcp_src_port h \<and> tcp_dest_port a = tcp_dest_port h" for s2 j ip2 a
  proof -
    have "find_tcb (htons (tcp_src_port a)) (htons (tcp_dest_port a)) (src_ip ip2) (tcp_sockets s2) = Some k"
      using find_tcb_connected [OF assms(8) t1] a sock by simp
    moreover have "tcb_state (tcp_sockets s2 ! k) = 2" "snd_nxt (tcp_sockets s2 ! k) = 0x89ABCDF0" using a sk t2 by simp_all
    ultimately show ?thesis using tcp_ack_step [of s2 j a ip2 k] a by metis
  qed
  then show ?thesis using run w [unfolded reply(1)] t1(3,4) t2 reply(2) unfolding sk [symmetric] by (intro exI [of _ s1]) blast
qed

theorem tcp_handshake_witness:
  "let ip = \<lparr>ihl = 5, version = 4, tos = 0, total_len = htons 40, ip_id = 0, frag_offset = 0, ttl = 64, protocol = 6,
        ip_checksum = 0, src_ip = [192, 168, 1, 2], dest_ip = [192, 168, 1, 100]\<rparr>;
       b = fresh_buf\<lparr>buffer := replicate 290 0 @ [0x10, 0, 0, 80, 0, 0, 0, 9, 0, 0, 0, 0, 0x50, 2, 0, 0, 0, 0, 0, 0] @
          replicate 3786 0, nb_data := 290, nb_tail := 310\<rparr>
   in \<exists>s1. wx_tcp_process 0 ip (demo_net b) = Inr s1 \<and> tcb_state (tcp_sockets s1 ! 0) = 2 \<and>
     rcv_nxt (tcp_sockets s1 ! 0) = 10 \<and> (\<exists>csum. wire s1 = [ip_frame (demo_net b) [2, 0, 0, 0, 0, 2] [192, 168, 1, 2] 6
       ([0, 80, 0x10, 0, 0x89, 0xAB, 0xCD, 0xEF, 0, 0, 0, 10, 0x50, 0x12, 0x20, 0] @ le16 csum @ [0, 0])])"
proof -
  define ip where "ip = \<lparr>ihl = 5, version = 4, tos = 0, total_len = htons 40, ip_id = 0, frag_offset = 0, ttl = 64, protocol = 6,
        ip_checksum = 0, src_ip = [192, 168, 1, 2], dest_ip = [192, 168, 1, 100]\<rparr>"
  define b where "b = fresh_buf\<lparr>buffer := replicate 290 0 @ [0x10, 0, 0, 80, 0, 0, 0, 9, 0, 0, 0, 0, 0x50, 2, 0, 0, 0, 0, 0, 0] @
          replicate 3786 0, nb_data := 290, nb_tail := 310\<rparr>"
  let ?h = "\<lparr>tcp_src_port = 0x0010, tcp_dest_port = 0x5000, seq_num = 0x09000000, ack_num = 0, offset_byte = 0x50, flag_byte = 2,
      window_size = 0, tcp_checksum = 0, urgent_ptr = 0\<rparr> :: wx_tcp_hdr"
  have n: "net_ok (demo_net b)" by (rule demo_net_ok) (simp add: b_def)
  have d: "buf_pool (demo_net b) ! 0 = b" "src_ip ip = [192, 168, 1, 2]" "nb_data b = 290" "wire (demo_net b) = []"
    by (simp_all add: demo_net_def ip_def b_def)
  have h: "tcp_at (buffer b) 290 = Inr ?h" by (simp add: tcp_at_def slice_def b_def raw16_def un32_def)
  have lk: "wx_arp_lookup [192, 168, 1, 2] (demo_net b) = Some [2, 0, 0, 0, 0, 2]"
    by (simp add: wx_arp_lookup_def demo_net_def arp_hit_def memcmp_self)
  have f: "find_tcb (htons (tcp_src_port ?h)) (htons (tcp_dest_port ?h)) [192, 168, 1, 2] (tcp_sockets (demo_net b)) = Some 0"
    by (simp add: find_tcb_def demo_net_def blank_tcb_def htons_def)
  have u: "\<not> (\<forall>u \<in> set (buf_pool_used (demo_net b)). u)" "tcb_state (tcp_sockets (demo_net b) ! 0) = 1"
    by (simp_all add: demo_net_def)
  have fl: "syn ?h" "\<not> ack ?h" "htonl (seq_num ?h) + 1 = 10" by (simp_all add: syn_def ack_def htonl_def)
  have r: "handshake_reply ?h csum = [0, 80, 0x10, 0, 0x89, 0xAB, 0xCD, 0xEF, 0, 0, 0, 10, 0x50, 0x12, 0x20, 0] @ le16 csum @ [0, 0]"
    for csum using fl(3) by (simp add: handshake_reply_def le16_def le32_def)
  have "unat (290 :: u16) = 290" by simp
  from tcp_handshake [OF n, of 0 ip ?h 0 "[2, 0, 0, 0, 0, 2]", unfolded d this fl(3) r] h fl(1,2) f u lk
  show ?thesis unfolding Let_def ip_def [symmetric] b_def [symmetric] by fastforce
qed


end
