(* ===== verification/WX_Keyboard.thy ===== *)
theory WX_Keyboard
  imports WX_Kernel
begin

text \<open>
  The keyboard driver of \<open>keyboard.h\<close> and the login of \<open>login.h\<close>: the scan code state machine, the line it
  edits, \<open>scan\<close>, \<open>scan_password\<close> and the credential check.  The scan codes that arrive are a list; when they
  run out a read keeps waiting, which is the result \<open>None\<close>.
\<close>

section \<open>State and tables\<close>

record keyboard =
  shift_pressed :: bool
  caps_lock :: bool
  is_extended :: bool
  input_buffer :: "char list"
  buffer_idx :: nat
  input_complete :: bool

abbreviation (input) escape :: char where "escape \<equiv> CHR 0x1B"
abbreviation (input) tab :: char where "tab \<equiv> CHR 0x09"
abbreviation (input) quote :: char where "quote \<equiv> CHR 0x27"

definition kbd_us :: "char list" where
  "kbd_us =
     [NUL, escape] @ ''1234567890-='' @ [NUL] @
     [tab] @ ''qwertyuiop[]'' @ [newline] @
     [NUL] @ ''asdfghjkl;'' @ [quote, CHR 0x60, NUL] @
     [CHR 0x5C] @ ''zxcvbnm,./'' @ [NUL, CHR ''*'', NUL, CHR '' ''] @
     replicate 16 NUL @ ''789-456+1230.'' @ replicate 41 NUL"

definition kbd_us_shift :: "char list" where
  "kbd_us_shift =
     [NUL, escape] @ ''!@#$%'' @ [CHR 0x5E] @ ''&*()_+'' @ [NUL] @
     [tab] @ ''QWERTYUIOP{}'' @ [newline] @
     [NUL] @ ''ASDFGHJKL:'' @ [CHR 0x22, CHR ''~'', NUL] @
     ''|ZXCVBNM<>?'' @ [NUL, CHR ''*'', NUL, CHR '' ''] @
     replicate 16 NUL @ ''789-456+1230.'' @ replicate 41 NUL"

lemma length_kbd [simp]: "length kbd_us = 128" "length kbd_us_shift = 128"
  by (simp_all add: kbd_us_def kbd_us_shift_def)

definition is_upper :: "char \<Rightarrow> bool" where
  "is_upper c \<longleftrightarrow> 65 \<le> (of_char c :: nat) \<and> (of_char c :: nat) \<le> 90"

text \<open>The character of a key, as both readers choose it.\<close>

definition key_char :: "bool \<Rightarrow> bool \<Rightarrow> u8 \<Rightarrow> char" where
  "key_char shift caps code =
     (let use_upper = (shift \<noteq> caps); i = unat code in
      if use_upper \<and> is_upper (kbd_us_shift ! i) then kbd_us_shift ! i
      else if shift then kbd_us_shift ! i
      else kbd_us ! i)"

section \<open>The scan code handler\<close>

text \<open>Append a character to the line and echo it; erase the last one; end the line.\<close>

definition add_key :: "con \<Rightarrow> char \<Rightarrow> keyboard \<Rightarrow> fault + (con list \<times> keyboard)" where
  "add_key echo c k =
     (if c \<noteq> NUL \<and> buffer_idx k < 254 then
        bindE (put (input_buffer k) (buffer_idx k) c) (\<lambda>b.
          Inr ([echo], k\<lparr>input_buffer := b, buffer_idx := buffer_idx k + 1\<rparr>))
      else Inr ([], k))"

definition erase_key :: "keyboard \<Rightarrow> fault + (con list \<times> keyboard)" where
  "erase_key k =
     (if 0 < buffer_idx k then
        bindE (put (input_buffer k) (buffer_idx k - 1) NUL) (\<lambda>b.
          Inr ([Backspace], k\<lparr>input_buffer := b, buffer_idx := buffer_idx k - 1\<rparr>))
      else Inr ([], k))"

definition enter_key :: "keyboard \<Rightarrow> fault + (con list \<times> keyboard)" where
  "enter_key k =
     bindE (put (input_buffer k) (buffer_idx k) NUL) (\<lambda>b.
       Inr ([Putchar newline], k\<lparr>input_buffer := b, input_complete := True\<rparr>))"

definition keyboard_handler :: "u8 \<Rightarrow> keyboard \<Rightarrow> fault + (con list \<times> keyboard)" where
  "keyboard_handler code k =
     (if code = 0xE0 then Inr ([], k\<lparr>is_extended := True\<rparr>)
      else if bit code 7 then
        let released = code AND 0x7F in
        Inr ([], k\<lparr>shift_pressed := shift_pressed k \<and> \<not> (released = 0x2A \<or> released = 0x36), is_extended := False\<rparr>)
      else if code = 0x2A \<or> code = 0x36 then Inr ([], k\<lparr>shift_pressed := True\<rparr>)
      else if code = 0x3A then Inr ([], k\<lparr>caps_lock := \<not> caps_lock k\<rparr>)
      else if is_extended k then Inr ([], k\<lparr>is_extended := False\<rparr>)
      else if code = 0x0E then erase_key k
      else if code = 0x1C then enter_key k
      else if code < 128 then
        (let c = key_char (shift_pressed k) (caps_lock k) code in add_key (Putchar c) c k)
      else Inr ([], k))"

text \<open>One turn of the loop of \<open>scan_password\<close>: a star for each character, no extended codes.\<close>

definition password_handler :: "u8 \<Rightarrow> keyboard \<Rightarrow> fault + (con list \<times> keyboard)" where
  "password_handler code k =
     bindE (if code = 0x1C then enter_key k
            else if code = 0x0E then erase_key k
            else if \<not> bit code 7 \<and> code < 128 \<and> code \<noteq> 0x2A \<and> code \<noteq> 0x36 \<and> code \<noteq> 0x3A then
              add_key (Putchar (CHR ''*'')) (key_char (shift_pressed k) (caps_lock k) code) k
            else Inr ([], k)) (\<lambda>(out, k).
       let k = (if code = 0x2A \<or> code = 0x36 then k\<lparr>shift_pressed := True\<rparr> else k);
           k = (if bit code 7 \<and> (code AND 0x7F = 0x2A \<or> code AND 0x7F = 0x36) then k\<lparr>shift_pressed := False\<rparr> else k);
           k = (if code = 0x3A then k\<lparr>caps_lock := \<not> caps_lock k\<rparr> else k)
       in Inr (out, k))"

section \<open>Reading a line\<close>

text \<open>What a read gives: nothing yet, or its value with the console output, the driver state and the codes left.\<close>

type_synonym 'a reading = "fault + ('a \<times> con list \<times> keyboard \<times> u8 list) option"

fun key_loop :: "(u8 \<Rightarrow> keyboard \<Rightarrow> fault + (con list \<times> keyboard)) \<Rightarrow> u8 list \<Rightarrow> keyboard \<Rightarrow> unit reading" where
  "key_loop handler [] k = Inr (if input_complete k then Some ((), [], k, []) else None)"
| "key_loop handler (code # codes) k =
     (if input_complete k then Inr (Some ((), [], k, code # codes))
      else bindE (handler code k) (\<lambda>(out, k).
        map_sum id (map_option (\<lambda>(_, out', k, codes). ((), out @ out', k, codes))) (key_loop handler codes k)))"

definition start_line :: "keyboard \<Rightarrow> keyboard" where
  "start_line k = k\<lparr>buffer_idx := 0, input_complete := False, input_buffer := replicate 256 NUL\<rparr>"

definition read_with ::
    "(u8 \<Rightarrow> keyboard \<Rightarrow> fault + (con list \<times> keyboard)) \<Rightarrow> char list \<Rightarrow> u8 list \<Rightarrow> keyboard \<Rightarrow> char list reading" where
  "read_with handler buffer codes k =
     bindE (key_loop handler codes (start_line k)) (\<lambda>r.
       case r of
         None \<Rightarrow> Inr None
       | Some (_, out, k, codes) \<Rightarrow> bindE (scan_copy (input_buffer k) buffer) (\<lambda>b. Inr (Some (b, out, k, codes))))"

definition scan :: "char list \<Rightarrow> u8 list \<Rightarrow> keyboard \<Rightarrow> char list reading" where
  "scan = read_with keyboard_handler"

definition scan_password :: "char list \<Rightarrow> u8 list \<Rightarrow> keyboard \<Rightarrow> char list reading" where
  "scan_password = read_with password_handler"

section \<open>Login\<close>

text \<open>One attempt: both lines are read, then compared; \<open>True\<close> when access is granted.\<close>

definition then_read :: "'a reading \<Rightarrow> ('a \<Rightarrow> u8 list \<Rightarrow> keyboard \<Rightarrow> 'b reading) \<Rightarrow> 'b reading" where
  "then_read m f =
     bindE m (\<lambda>r. case r of
       None \<Rightarrow> Inr None
     | Some (x, out, k, codes) \<Rightarrow>
         map_sum id (map_option (\<lambda>(y, out', k, codes). (y, out @ out', k, codes))) (f x codes k))"

definition with_output :: "con list \<Rightarrow> 'a reading \<Rightarrow> 'a reading" where
  "with_output out = map_sum id (map_option (\<lambda>(x, out', k, codes). (x, out @ out', k, codes)))"

definition read_credentials :: "char list \<Rightarrow> char list \<Rightarrow> u8 list \<Rightarrow> keyboard \<Rightarrow> (char list \<times> char list) reading" where
  "read_credentials username password codes k =
     with_output [Print ''Username: ''] (then_read (scan username codes k) (\<lambda>username codes k.
     with_output [Print ''Password: ''] (then_read (scan_password password codes k) (\<lambda>password codes k.
       Inr (Some ((username, password), [], k, codes))))))"

definition credentials_ok :: "char list \<Rightarrow> char list \<Rightarrow> fault + bool" where
  "credentials_ok username password =
     bindE (strcmp username (lit ''nousr'')) (\<lambda>u.
       if u \<noteq> 0 then Inr False else bindE (strcmp password (lit ''root'')) (\<lambda>p. Inr (p = 0)))"

text \<open>The loop over the attempts; its end is \<open>haltsystem\<close>.\<close>

fun login_loop :: "nat \<Rightarrow> char list \<Rightarrow> char list \<Rightarrow> u8 list \<Rightarrow> keyboard \<Rightarrow> unit reading" where
  "login_loop 0 username password codes k = Inl Cpu_halted"
| "login_loop (Suc attempts) username password codes k =
     then_read (read_credentials username password codes k) (\<lambda>(username, password) codes k.
       bindE (credentials_ok username password) (\<lambda>ok.
         if ok then Inr (Some ((), [Print (newline # ln ''[+] ACCESS GRANTED.'' @ [newline])], k, codes))
         else
           with_output ([Print (newline # ''[-] INVALID CREDENTIALS. '')] @
               (if 0 < attempts then [Print (ln ''Please try again.'')] else []))
             (login_loop attempts username password codes k)))"

definition login :: "char list \<Rightarrow> char list \<Rightarrow> u8 list \<Rightarrow> keyboard \<Rightarrow> unit reading" where
  "login username password = login_loop 3 username password"

end
