(* ===== verification/WX_Keyboard_Props.thy ===== *)
theory WX_Keyboard_Props
  imports WX_Keyboard
begin

text \<open>
  What the keyboard driver and the login guarantee: the driver is a line editor whose line always fits its buffer, a
  typed line is read back, and access needs the credentials.
\<close>

section \<open>Scan codes\<close>

lemma bit7_iff: "bit (w :: u8) 7 \<longleftrightarrow> 128 \<le> unat w"
proof -
  have u: "unat w < 256" using unsigned_less [of w] by simp
  have "bit (unat w) 7 \<longleftrightarrow> bit w 7" by (simp add: bit_unsigned_iff)
  then have "bit w 7 \<longleftrightarrow> odd (unat w div 128)" by (simp add: bit_iff_odd [of "unat w"])
  also have "\<dots> \<longleftrightarrow> 128 \<le> unat w"
  proof (cases "128 \<le> unat w")
    case True
    then have "unat w div 128 = 1" using u by (intro div_nat_eqI) simp_all
    with True show ?thesis by simp
  qed simp
  finally show ?thesis .
qed

lemma released_shift: "bit code 7 \<Longrightarrow> (code AND 0x7F = (0x2A :: u8)) = (code = 0xAA)"
  "bit code 7 \<Longrightarrow> (code AND 0x7F = (0x36 :: u8)) = (code = 0xB6)"
proof -
  have m: "unat (code AND 0x7F :: u8) = unat code mod 128"
  proof -
    have "code AND 0x7F = (take_bit 7 code :: u8)" by (simp add: take_bit_eq_mask mask_eq_exp_minus_1)
    then show ?thesis by (simp add: take_bit_eq_mod unat_mod_distrib)
  qed
  assume "bit code 7"
  then have "128 \<le> unat code" "unat code < 256" using bit7_iff [of code] unsigned_less [of code] by simp_all
  then have "unat code mod 128 = unat code - 128" by (simp add: mod_if)
  then show "(code AND 0x7F = (0x2A :: u8)) = (code = 0xAA)" "(code AND 0x7F = (0x36 :: u8)) = (code = 0xB6)"
    using \<open>128 \<le> unat code\<close> m by (auto simp: word_unat_eq_iff)
qed

text \<open>The keys of the tables that are no control keys.\<close>

lemma newline_key: "i < 128 \<Longrightarrow> kbd_us ! i = newline \<Longrightarrow> i = 28" "i < 128 \<Longrightarrow> kbd_us_shift ! i = newline \<Longrightarrow> i = 28"
proof -
  have "filter (\<lambda>i. kbd_us ! i = newline) [0..<128] = [28]" "filter (\<lambda>i. kbd_us_shift ! i = newline) [0..<128] = [28]"
    by code_simp+
  then have "set (filter (\<lambda>i. kbd_us ! i = newline) [0..<128]) = {28}"
    "set (filter (\<lambda>i. kbd_us_shift ! i = newline) [0..<128]) = {28}" by simp_all
  then show "i < 128 \<Longrightarrow> kbd_us ! i = newline \<Longrightarrow> i = 28" "i < 128 \<Longrightarrow> kbd_us_shift ! i = newline \<Longrightarrow> i = 28"
    by auto
qed

lemma key_char_newline: "code < 128 \<Longrightarrow> code \<noteq> 0x1C \<Longrightarrow> key_char sh ca code \<noteq> newline"
proof
  assume a: "code < 128" "code \<noteq> 0x1C" "key_char sh ca code = newline"
  have u: "unat code < 128" using a(1) by (simp add: word_less_nat_alt)
  have "unat code \<noteq> 28" using a(2) by (simp add: word_unat_eq_iff)
  then show False using a(3) newline_key [OF u] by (auto simp: key_char_def Let_def split: if_splits)
qed


section \<open>The driver as a line editor\<close>

text \<open>The line typed so far, and the states in which the buffer holds it followed by NULs.\<close>

definition kbd_line :: "keyboard \<Rightarrow> string" where
  "kbd_line k = take (buffer_idx k) (input_buffer k)"

definition kbd_ok :: "keyboard \<Rightarrow> bool" where
  "kbd_ok k \<longleftrightarrow> buffer_idx k \<le> 254 \<and> length (input_buffer k) = 256 \<and> nul_free (kbd_line k) \<and>
     (\<forall>i < 256. buffer_idx k \<le> i \<longrightarrow> input_buffer k ! i = NUL)"

text \<open>What one scan code means for the shift, caps and prefix states, the line, and its completion.\<close>

fun edit :: "u8 \<Rightarrow> bool \<times> bool \<times> bool \<times> string \<times> bool \<Rightarrow> bool \<times> bool \<times> bool \<times> string \<times> bool" where
  "edit code (sh, ca, ex, line, fin) =
     (if code = 0xE0 then (sh, ca, True, line, fin)
      else if 128 \<le> unat code then (sh \<and> code \<noteq> 0xAA \<and> code \<noteq> 0xB6, ca, False, line, fin)
      else if code = 0x2A \<or> code = 0x36 then (True, ca, ex, line, fin)
      else if code = 0x3A then (sh, \<not> ca, ex, line, fin)
      else if ex then (sh, ca, False, line, fin)
      else if code = 0x0E then (sh, ca, ex, butlast line, fin)
      else if code = 0x1C then (sh, ca, ex, line, True)
      else let c = key_char sh ca code in
        (sh, ca, ex, if c \<noteq> NUL \<and> length line < 254 then line @ [c] else line, fin))"

definition abs_kbd :: "keyboard \<Rightarrow> bool \<times> bool \<times> bool \<times> string \<times> bool" where
  "abs_kbd k = (shift_pressed k, caps_lock k, is_extended k, kbd_line k, input_complete k)"

lemma kbd_line_length: "kbd_ok k \<Longrightarrow> length (kbd_line k) = buffer_idx k"
  by (simp add: kbd_ok_def kbd_line_def)

lemma add_key_ok:
  assumes "kbd_ok k"
  shows "\<exists>out k'. add_key e c k = Inr (out, k') \<and> kbd_ok k' \<and>
    abs_kbd k' = (shift_pressed k, caps_lock k, is_extended k,
      if c \<noteq> NUL \<and> length (kbd_line k) < 254 then kbd_line k @ [c] else kbd_line k, input_complete k) \<and>
    out = (if c \<noteq> NUL \<and> length (kbd_line k) < 254 then [e] else [])"
proof (cases "c \<noteq> NUL \<and> buffer_idx k < 254")
  case True
  let ?k = "k\<lparr>input_buffer := (input_buffer k)[buffer_idx k := c], buffer_idx := buffer_idx k + 1\<rparr>"
  have l: "length (input_buffer k) = 256" "nul_free (kbd_line k)" using assms by (simp_all add: kbd_ok_def)
  have line: "kbd_line ?k = kbd_line k @ [c]" using True l by (simp add: kbd_line_def take_Suc_conv_app_nth)
  have "kbd_ok ?k" using assms True line by (simp add: kbd_ok_def)
  moreover have "add_key e c k = Inr ([e], ?k)" using True l by (simp add: add_key_def)
  ultimately show ?thesis using True line kbd_line_length [OF assms] by (simp add: abs_kbd_def)
next
  case False
  then show ?thesis using assms kbd_line_length [OF assms] by (auto simp: add_key_def abs_kbd_def)
qed

lemma erase_key_ok:
  assumes "kbd_ok k"
  shows "\<exists>out k'. erase_key k = Inr (out, k') \<and> kbd_ok k' \<and>
    abs_kbd k' = (shift_pressed k, caps_lock k, is_extended k, butlast (kbd_line k), input_complete k) \<and>
    out = (if kbd_line k = [] then [] else [Backspace])"
proof (cases "0 < buffer_idx k")
  case True
  let ?k = "k\<lparr>input_buffer := (input_buffer k)[buffer_idx k - 1 := NUL], buffer_idx := buffer_idx k - 1\<rparr>"
  have l: "length (input_buffer k) = 256" "nul_free (kbd_line k)" using assms by (simp_all add: kbd_ok_def)
  have line: "kbd_line ?k = butlast (kbd_line k)"
    using True l kbd_line_length [OF assms] by (simp add: kbd_line_def butlast_conv_take min_def)
  have "nul_free (butlast (kbd_line k))" using l(2) by (auto simp: nul_free_def dest: in_set_butlastD)
  then have "kbd_ok ?k" using assms True line by (auto simp: kbd_ok_def nth_list_update)
  moreover have "buffer_idx k \<le> 254" using assms by (simp add: kbd_ok_def)
  then have "buffer_idx k - 1 < length (input_buffer k)" using l by simp
  then have "erase_key k = Inr ([Backspace], ?k)" using True by (simp add: erase_key_def)
  moreover have "kbd_line k \<noteq> []" using True kbd_line_length [OF assms] by auto
  ultimately show ?thesis using line by (simp add: abs_kbd_def)
next
  case False
  then have "kbd_line k = []" using kbd_line_length [OF assms] by simp
  then show ?thesis using False assms by (simp add: erase_key_def abs_kbd_def)
qed

lemma enter_key_ok:
  assumes "kbd_ok k"
  shows "\<exists>k'. enter_key k = Inr ([Putchar newline], k') \<and> kbd_ok k' \<and>
    abs_kbd k' = (shift_pressed k, caps_lock k, is_extended k, kbd_line k, True)"
proof -
  have i: "buffer_idx k < 256" "length (input_buffer k) = 256" using assms by (simp_all add: kbd_ok_def)
  then have "(input_buffer k)[buffer_idx k := NUL] = input_buffer k"
    using assms by (simp add: kbd_ok_def list_update_same_conv)
  then show ?thesis using i assms by (simp add: enter_key_def abs_kbd_def kbd_ok_def kbd_line_def)
qed

lemma keyboard_handler_step:
  assumes "kbd_ok k"
  shows "\<exists>out k'. keyboard_handler code k = Inr (out, k') \<and> kbd_ok k' \<and> abs_kbd k' = edit code (abs_kbd k)"
proof -
  note a = abs_kbd_def [of k]
  have flags: "kbd_ok (k\<lparr>is_extended := x\<rparr>)" "kbd_ok (k\<lparr>shift_pressed := x\<rparr>)" "kbd_ok (k\<lparr>caps_lock := x\<rparr>)"
    "kbd_ok (k\<lparr>shift_pressed := x, is_extended := y\<rparr>)" for x y
    using assms by (simp_all add: kbd_ok_def kbd_line_def)
  consider "code = 0xE0" | "code \<noteq> 0xE0" "bit code 7" | "\<not> bit code 7" "code = 0x2A \<or> code = 0x36"
    | "code = 0x3A" | "\<not> bit code 7" "code \<noteq> 0x2A" "code \<noteq> 0x36" "code \<noteq> 0x3A" "is_extended k"
    | "code = 0x0E" "\<not> is_extended k" | "code = 0x1C" "\<not> is_extended k"
    | "\<not> bit code 7" "code \<noteq> 0x2A" "code \<noteq> 0x36" "code \<noteq> 0x3A" "\<not> is_extended k" "code \<noteq> 0x0E" "code \<noteq> 0x1C"
    by metis
  then show ?thesis
  proof cases
    case 1
    then show ?thesis using flags(1) by (simp add: keyboard_handler_def a) (simp add: abs_kbd_def kbd_line_def)
  next
    case 2
    then show ?thesis using flags(4) bit7_iff [of code] released_shift [OF 2(2)]
      by (simp add: keyboard_handler_def a Let_def) (simp add: abs_kbd_def kbd_line_def)
  next
    case 3
    then show ?thesis using flags(2) bit7_iff [of code]
      by (auto simp: keyboard_handler_def a) (simp_all add: abs_kbd_def kbd_line_def)
  next
    case 4
    then show ?thesis using flags(3) by (simp add: keyboard_handler_def a) (simp add: abs_kbd_def kbd_line_def)
  next
    case 5
    then have "code \<noteq> 0xE0" by auto
    then show ?thesis using 5 flags(1) bit7_iff [of code]
      by (simp add: keyboard_handler_def a) (simp add: abs_kbd_def kbd_line_def)
  next
    case 6
    then show ?thesis using erase_key_ok [OF assms] by (auto simp: keyboard_handler_def a)
  next
    case 7
    then show ?thesis using enter_key_ok [OF assms] by (auto simp: keyboard_handler_def a)
  next
    case 8
    then have c: "code \<noteq> 0xE0" "unat code < 128" using bit7_iff [of code] by auto
    then have "code < 128" by (simp add: word_less_nat_alt)
    with 8 c have h: "keyboard_handler code k =
        add_key (Putchar (key_char (shift_pressed k) (caps_lock k) code)) (key_char (shift_pressed k) (caps_lock k) code) k"
      by (simp add: keyboard_handler_def Let_def)
    have e: "edit code (abs_kbd k) = (shift_pressed k, caps_lock k, is_extended k,
        if key_char (shift_pressed k) (caps_lock k) code \<noteq> NUL \<and> length (kbd_line k) < 254
        then kbd_line k @ [key_char (shift_pressed k) (caps_lock k) code] else kbd_line k, input_complete k)"
      using 8 c by (simp add: a Let_def)
    from add_key_ok [OF assms, of "Putchar (key_char (shift_pressed k) (caps_lock k) code)"
        "key_char (shift_pressed k) (caps_lock k) code"]
    show ?thesis unfolding h e by blast
  qed
qed

text \<open>The editor run until the line is complete.\<close>

fun edit_loop :: "u8 list \<Rightarrow> bool \<times> bool \<times> bool \<times> string \<times> bool \<Rightarrow> ((bool \<times> bool \<times> bool \<times> string) \<times> u8 list) option" where
  "edit_loop [] (sh, ca, ex, line, fin) = (if fin then Some ((sh, ca, ex, line), []) else None)"
| "edit_loop (code # codes) (sh, ca, ex, line, fin) =
     (if fin then Some ((sh, ca, ex, line), code # codes) else edit_loop codes (edit code (sh, ca, ex, line, fin)))"

lemma key_loop_edit:
  assumes "kbd_ok k"
  shows "case edit_loop codes (abs_kbd k) of
      None \<Rightarrow> key_loop keyboard_handler codes k = Inr None
    | Some ((sh, ca, ex, line), rest) \<Rightarrow> \<exists>out k'. key_loop keyboard_handler codes k = Inr (Some ((), out, k', rest)) \<and>
        kbd_ok k' \<and> abs_kbd k' = (sh, ca, ex, line, True)"
  using assms
proof (induction codes arbitrary: k)
  case Nil
  then show ?case by (simp add: abs_kbd_def)
next
  case (Cons code codes)
  show ?case
  proof (cases "input_complete k")
    case True
    then show ?thesis using Cons.prems by (simp add: abs_kbd_def)
  next
    case False
    from keyboard_handler_step [OF Cons.prems, of code] obtain out k' where
      k': "keyboard_handler code k = Inr (out, k')" "kbd_ok k'" "abs_kbd k' = edit code (abs_kbd k)" by blast
    have e: "edit_loop (code # codes) (abs_kbd k) = edit_loop codes (abs_kbd k')"
      using False unfolding k'(3) abs_kbd_def [of k] edit_loop.simps by simp
    have l: "key_loop keyboard_handler (code # codes) k =
        map_sum id (map_option (\<lambda>(_, out', k, codes). ((), out @ out', k, codes))) (key_loop keyboard_handler codes k')"
      using False k'(1) by simp
    from Cons.IH [OF k'(2)] show ?thesis unfolding e l by (auto split: option.splits prod.splits)
  qed
qed

lemma start_line_ok: "kbd_ok (start_line k)"
  "abs_kbd (start_line k) = (shift_pressed k, caps_lock k, is_extended k, [], False)"
  by (simp_all add: kbd_ok_def start_line_def kbd_line_def abs_kbd_def)

lemma ok_buffer:
  assumes "kbd_ok k"
  shows "cstr (input_buffer k) = kbd_line k" "terminated (input_buffer k)"
proof -
  have i: "buffer_idx k < length (input_buffer k)" using assms by (simp add: kbd_ok_def)
  from id_take_nth_drop [OF i] have
    "input_buffer k = kbd_line k @ input_buffer k ! buffer_idx k # drop (Suc (buffer_idx k)) (input_buffer k)"
    by (simp only: kbd_line_def)
  moreover have "input_buffer k ! buffer_idx k = NUL" "nul_free (kbd_line k)" using assms by (simp_all add: kbd_ok_def)
  ultimately have "input_buffer k = kbd_line k @ NUL # drop (Suc (buffer_idx k)) (input_buffer k)" by simp
  with \<open>nul_free (kbd_line k)\<close> show "cstr (input_buffer k) = kbd_line k" "terminated (input_buffer k)"
    by (metis cstr_append_NUL, metis terminated_append_NUL)
qed

lemma scan_edit:
  "case edit_loop codes (shift_pressed k, caps_lock k, is_extended k, [], False) of
     None \<Rightarrow> scan buffer codes k = Inr None
   | Some ((sh, ca, ex, line), rest) \<Rightarrow> nul_free line \<and> length line \<le> 254 \<and>
       (if length line < length buffer
        then \<exists>out k'. scan buffer codes k = Inr (Some (line @ NUL # drop (Suc (length line)) buffer, out, k', rest)) \<and>
          shift_pressed k' = sh \<and> caps_lock k' = ca \<and> is_extended k' = ex
        else scan buffer codes k = Inl Out_of_bounds)"
proof (cases "edit_loop codes (abs_kbd (start_line k))")
  case None
  with key_loop_edit [OF start_line_ok(1), of codes k] show ?thesis
    by (simp add: scan_def read_with_def start_line_ok(2))
next
  case (Some r)
  obtain sh ca ex line rest where r: "r = ((sh, ca, ex, line), rest)" by (metis prod_cases4 prod.exhaust)
  with Some key_loop_edit [OF start_line_ok(1), of codes k] obtain out k' where
    k': "key_loop keyboard_handler codes (start_line k) = Inr (Some ((), out, k', rest))" "kbd_ok k'"
      "abs_kbd k' = (sh, ca, ex, line, True)" by auto
  have l: "nul_free line" "length line \<le> 254" "cstr (input_buffer k') = line" "terminated (input_buffer k')"
    using k'(2,3) ok_buffer [OF k'(2)] kbd_line_length [OF k'(2)] by (auto simp: kbd_ok_def abs_kbd_def)
  note E = Some [unfolded start_line_ok(2) r]
  have s: "scan buffer codes k = bindE (scan_copy (input_buffer k') buffer) (\<lambda>b. Inr (Some (b, out, k', rest)))"
    using k'(1) by (simp add: scan_def read_with_def)
  show ?thesis
  proof (cases "length line < length buffer")
    case True
    then have "scan buffer codes k = Inr (Some (line @ NUL # drop (Suc (length line)) buffer, out, k', rest))"
      using scan_copy_eq [OF l(4), of buffer] l s by simp
    then show ?thesis using True l k'(3) unfolding E by (auto simp: abs_kbd_def)
  next
    case False
    then show ?thesis using scan_copy_overflow [OF l(4), of buffer] l s unfolding E by simp
  qed
qed

text \<open>
  C28: \<open>scan\<close> refines a line editor.  Whatever scan codes arrive, no access of the driver leaves its 256-byte buffer; the
  line handed over is what the editor on plain strings gives (shift, caps lock, prefixes, backspace, enter), has at most
  254 characters and is followed by a NUL; only the caller's buffer can be too small, and then \<open>scan\<close> writes beyond it.
\<close>
theorem scan_refines_line_editor:
  "case edit_loop codes (shift_pressed k, caps_lock k, is_extended k, [], False) of
     None \<Rightarrow> scan buffer codes k = Inr None
   | Some ((sh, ca, ex, line), rest) \<Rightarrow> nul_free line \<and> length line \<le> 254 \<and>
       (if length line < length buffer
        then \<exists>out k'. scan buffer codes k = Inr (Some (line @ NUL # drop (Suc (length line)) buffer, out, k', rest)) \<and>
          shift_pressed k' = sh \<and> caps_lock k' = ca \<and> is_extended k' = ex
        else scan buffer codes k = Inl Out_of_bounds)"
  by (rule scan_edit)


section \<open>Typing\<close>

text \<open>The scan codes a typist sends for a character, with shift held where the key needs it.\<close>

definition press :: "char \<Rightarrow> u8 list" where
  "press c =
     (case first_ix (\<lambda>x. x = c) kbd_us of
        Some i \<Rightarrow> [of_nat i, of_nat i OR 0x80]
      | None \<Rightarrow>
          (case first_ix (\<lambda>x. x = c) kbd_us_shift of
             Some i \<Rightarrow> [0x2A, of_nat i, of_nat i OR 0x80, 0xAA]
           | None \<Rightarrow> []))"

definition typeable :: "char \<Rightarrow> bool" where
  "typeable c \<longleftrightarrow> c \<noteq> NUL \<and> c \<noteq> newline \<and> (c \<in> set kbd_us \<or> c \<in> set kbd_us_shift)"

text \<open>A key of the tables that types a character is none of the control keys.\<close>

lemma char_key:
  assumes "i < 128" "x \<noteq> NUL" "x \<noteq> newline" "kbd_us ! i = x \<or> kbd_us_shift ! i = x"
  defines "code \<equiv> (of_nat i :: u8)"
  shows "unat code = i" "code \<noteq> 0xE0" "\<not> bit code 7" "code < 128" "code \<noteq> 0x2A" "code \<noteq> 0x36" "code \<noteq> 0x3A"
    "code \<noteq> 0x0E" "code \<noteq> 0x1C" "bit (code OR 0x80) 7" "code OR 0x80 \<noteq> 0xE0" "code OR 0x80 \<noteq> 0xAA" "code OR 0x80 \<noteq> 0xB6"
proof -
  show u: "unat code = i" unfolding code_def using assms(1) by (simp add: unat_of_nat)
  have t: "kbd_us ! n = NUL \<and> kbd_us_shift ! n = NUL" if "n \<in> {0x2A, 0x36, 0x3A, 0x0E, 0x60}" for n
    using that by (auto simp: kbd_us_def kbd_us_shift_def nth_append)
  have n: "kbd_us ! 28 = newline \<and> kbd_us_shift ! 28 = newline" by (simp add: kbd_us_def kbd_us_shift_def nth_append)
  have i: "i \<noteq> 0x2A" "i \<noteq> 0x36" "i \<noteq> 0x3A" "i \<noteq> 0x0E" "i \<noteq> 0x60" "i \<noteq> 0x1C" using assms(2-4) t n by auto
  then show "code \<noteq> 0x2A" "code \<noteq> 0x36" "code \<noteq> 0x3A" "code \<noteq> 0x0E" "code \<noteq> 0x1C" using u by (auto simp: word_unat_eq_iff)
  show "code \<noteq> 0xE0" using u assms(1) by (auto simp: word_unat_eq_iff)
  show b: "\<not> bit code 7" using u assms(1) by (simp add: bit7_iff)
  show "code < 128" using u assms(1) by (simp add: word_less_nat_alt)
  have "bit (0x80 :: u8) 7" by (simp add: bit7_iff)
  then show "bit (code OR 0x80) 7" by (simp add: bit_or_iff)
  have low: "code = take_bit 7 (code OR 0x80)"
  proof (rule bit_eqI)
    fix n assume "possible_bit TYPE(u8) n"
    then have "n < 7 \<or> n = 7" by auto
    then show "bit code n = bit (take_bit 7 (code OR 0x80)) n"
      using b by (auto simp: bit_simps)
  qed
  have lo: "code = take_bit 7 v" if "code OR 0x80 = v" for v using low that by (simp only:)
  have "code \<noteq> 0x60" using u i by (auto simp: word_unat_eq_iff)
  then show "code OR 0x80 \<noteq> 0xE0" "code OR 0x80 \<noteq> 0xAA" "code OR 0x80 \<noteq> 0xB6"
    using lo [of "0xE0"] lo [of "0xAA"] lo [of "0xB6"] \<open>code \<noteq> 0x2A\<close> \<open>code \<noteq> 0x36\<close> by auto
qed


text \<open>The driver with a line in it and no modifier held.\<close>

definition line_state :: "string \<Rightarrow> keyboard" where
  "line_state l = \<lparr>shift_pressed = False, caps_lock = False, is_extended = False,
     input_buffer = l @ replicate (256 - length l) NUL, buffer_idx = length l, input_complete = False\<rparr>"

lemma add_key_line:
  assumes "c \<noteq> NUL" "length l < 254"
  shows "add_key e c (line_state l) = Inr ([e], line_state (l @ [c]))"
    "add_key e c (line_state l\<lparr>shift_pressed := True\<rparr>) = Inr ([e], line_state (l @ [c])\<lparr>shift_pressed := True\<rparr>)"
proof -
  have "256 - length l = Suc (256 - Suc (length l))" using assms(2) by simp
  then have "(l @ replicate (256 - length l) NUL)[length l := c] = l @ [c] @ replicate (256 - Suc (length l)) NUL"
    by (simp add: list_update_append)
  then show "add_key e c (line_state l) = Inr ([e], line_state (l @ [c]))"
    "add_key e c (line_state l\<lparr>shift_pressed := True\<rparr>) = Inr ([e], line_state (l @ [c])\<lparr>shift_pressed := True\<rparr>)"
    using assms by (simp_all add: add_key_def line_state_def put_def)
qed

text \<open>A handler that types: each character's codes append it with its echo, enter ends the line.\<close>

definition types :: "(u8 \<Rightarrow> keyboard \<Rightarrow> fault + (con list \<times> keyboard)) \<Rightarrow> (char \<Rightarrow> con) \<Rightarrow> bool" where
  "types handler echo \<longleftrightarrow>
     (\<forall>c l codes. typeable c \<longrightarrow> length l < 254 \<longrightarrow>
        key_loop handler (press c @ codes) (line_state l) =
          map_sum id (map_option (\<lambda>(_, out, k, codes). ((), echo c # out, k, codes)))
            (key_loop handler codes (line_state (l @ [c])))) \<and>
     (\<forall>l codes. length l \<le> 254 \<longrightarrow>
        key_loop handler (0x1C # codes) (line_state l) =
          Inr (Some ((), [Putchar newline], line_state l\<lparr>input_complete := True\<rparr>, codes)))"

lemma key_loop_step:
  assumes "\<not> input_complete k" "handler code k = Inr (out, k')"
  shows "key_loop handler (code # codes) k =
    map_sum id (map_option (\<lambda>(_, out', k, codes). ((), out @ out', k, codes))) (key_loop handler codes k')"
  using assms by simp

lemma enter_line: "length l \<le> 254 \<Longrightarrow> enter_key (line_state l) = Inr ([Putchar newline], line_state l\<lparr>input_complete := True\<rparr>)"
proof -
  assume l: "length l \<le> 254"
  then have "256 - length l = Suc (255 - length l)" by simp
  then have "(l @ replicate (256 - length l) NUL)[length l := NUL] = l @ replicate (256 - length l) NUL"
    by (simp add: list_update_append)
  then show ?thesis using l by (simp add: enter_key_def line_state_def put_def)
qed

lemma key_loop_complete: "input_complete k \<Longrightarrow> key_loop handler codes k = Inr (Some ((), [], k, codes))"
  by (cases codes) simp_all

lemma line_state_simps [simp]:
  "\<not> input_complete (line_state l)" "\<not> shift_pressed (line_state l)" "\<not> caps_lock (line_state l)"
  "\<not> is_extended (line_state l)" "line_state l\<lparr>shift_pressed := False\<rparr> = line_state l"
  "line_state l\<lparr>is_extended := False\<rparr> = line_state l"
  "line_state l\<lparr>shift_pressed := True, is_extended := False\<rparr> = line_state l\<lparr>shift_pressed := True\<rparr>"
  by (simp_all add: line_state_def)

lemma typeable_cases:
  assumes "typeable c"
  obtains (plain) i where "press c = [of_nat i, of_nat i OR 0x80]" "i < 128" "kbd_us ! i = c"
  | (shifted) i where "press c = [0x2A, of_nat i, of_nat i OR 0x80, 0xAA]" "i < 128" "kbd_us_shift ! i = c"
proof (cases "first_ix (\<lambda>x. x = c) kbd_us")
  case (Some i)
  with first_ix_SomeD [OF Some] plain show thesis by (simp add: press_def)
next
  case None
  then have "c \<in> set kbd_us_shift" using assms by (auto simp: typeable_def first_ix_None)
  then obtain i where i: "first_ix (\<lambda>x. x = c) kbd_us_shift = Some i"
    by (cases "first_ix (\<lambda>x. x = c) kbd_us_shift") (auto simp: first_ix_None)
  with first_ix_SomeD [OF i] None shifted show thesis by (simp add: press_def)
qed

lemma map_reading_id: "map_sum id (map_option (\<lambda>(_, out, k, codes). ((), out, k, codes))) r = (r :: unit reading)"
  by (cases r) (auto simp: option.map_ident split: option.split prod.split cong: map_option_cong intro!: option.map_ident_strong)


lemma key_char_typed:
  assumes "i < 128"
  shows "kbd_us ! i = c \<Longrightarrow> key_char False False (of_nat i) = c"
    "kbd_us_shift ! i = c \<Longrightarrow> key_char True False (of_nat i) = c"
proof -
  have "unat (of_nat i :: u8) = i" using assms by (simp add: unat_of_nat)
  then show "kbd_us ! i = c \<Longrightarrow> key_char False False (of_nat i) = c"
    "kbd_us_shift ! i = c \<Longrightarrow> key_char True False (of_nat i) = c" by (simp_all add: key_char_def Let_def)
qed

lemma shift_codes: "\<not> bit (0x2A :: u8) 7" "bit (0xAA :: u8) 7" "(0xAA :: u8) AND 0x7F = 0x2A"
  by (simp_all add: bit7_iff)

lemma keyboard_types: "types keyboard_handler Putchar"
  unfolding types_def
proof (intro conjI allI impI)
  fix c and l :: string and codes assume c: "typeable c" "length l < 254"
  have n: "c \<noteq> NUL" "c \<noteq> newline" using c(1) by (simp_all add: typeable_def)
  from c(1) show "key_loop keyboard_handler (press c @ codes) (line_state l) =
      map_sum id (map_option (\<lambda>(_, out, k, codes). ((), Putchar c # out, k, codes)))
        (key_loop keyboard_handler codes (line_state (l @ [c])))"
  proof (cases rule: typeable_cases)
    case (plain i)
    have k: "kbd_us ! i = c \<or> kbd_us_shift ! i = c" using plain(3) by simp
    note ck = char_key [OF plain(2) n k]
    have "keyboard_handler (of_nat i) (line_state l) = Inr ([Putchar c], line_state (l @ [c]))"
      using ck(2-9) key_char_typed(1) [OF plain(2,3)] add_key_line(1) [OF n(1) c(2), of "Putchar c"]
      by (simp add: keyboard_handler_def Let_def)
    moreover have "keyboard_handler (of_nat i OR 0x80) (line_state (l @ [c])) = Inr ([], line_state (l @ [c]))"
      using ck(10-13) by (simp add: keyboard_handler_def Let_def)
    ultimately show ?thesis unfolding plain(1)
      by (cases "key_loop keyboard_handler codes (line_state (l @ [c]))")
        (auto simp: option.map_comp comp_def split_beta intro!: option.map_cong)
  next
    case (shifted i)
    have k: "kbd_us ! i = c \<or> kbd_us_shift ! i = c" using shifted(3) by simp
    note ck = char_key [OF shifted(2) n k]
    have "keyboard_handler 0x2A (line_state l) = Inr ([], line_state l\<lparr>shift_pressed := True\<rparr>)"
      using shift_codes by (simp add: keyboard_handler_def)
    moreover have "keyboard_handler (of_nat i) (line_state l\<lparr>shift_pressed := True\<rparr>) =
        Inr ([Putchar c], line_state (l @ [c])\<lparr>shift_pressed := True\<rparr>)"
      using ck(2-9) key_char_typed(2) [OF shifted(2,3)] add_key_line(2) [OF n(1) c(2), of "Putchar c"]
      by (simp add: keyboard_handler_def Let_def)
    moreover have "keyboard_handler (of_nat i OR 0x80) (line_state (l @ [c])\<lparr>shift_pressed := True\<rparr>) =
        Inr ([], line_state (l @ [c])\<lparr>shift_pressed := True\<rparr>)"
      using ck(10-13) released_shift [OF ck(10)] by (simp add: keyboard_handler_def Let_def)
    moreover have "keyboard_handler 0xAA (line_state (l @ [c])\<lparr>shift_pressed := True\<rparr>) = Inr ([], line_state (l @ [c]))"
      using shift_codes by (simp add: keyboard_handler_def Let_def)
    ultimately show ?thesis unfolding shifted(1)
      by (cases "key_loop keyboard_handler codes (line_state (l @ [c]))")
        (auto simp: option.map_comp comp_def split_beta intro!: option.map_cong)
  qed
next
  fix l :: string and codes assume l: "length l \<le> 254"
  have b: "\<not> bit (0x1C :: u8) 7" by (simp add: bit7_iff)
  have "keyboard_handler 0x1C (line_state l) = Inr ([Putchar newline], line_state l\<lparr>input_complete := True\<rparr>)"
    using enter_line [OF l] b by (simp add: keyboard_handler_def)
  then show "key_loop keyboard_handler (0x1C # codes) (line_state l) =
      Inr (Some ((), [Putchar newline], line_state l\<lparr>input_complete := True\<rparr>, codes))"
    by (simp add: key_loop_complete)
qed

lemma password_types: "types password_handler (\<lambda>_. Putchar (CHR ''*''))"
  unfolding types_def
proof (intro conjI allI impI)
  fix c and l :: string and codes assume c: "typeable c" "length l < 254"
  let ?star = "Putchar (CHR ''*'')"
  have n: "c \<noteq> NUL" "c \<noteq> newline" using c(1) by (simp_all add: typeable_def)
  from c(1) show "key_loop password_handler (press c @ codes) (line_state l) =
      map_sum id (map_option (\<lambda>(_, out, k, codes). ((), ?star # out, k, codes)))
        (key_loop password_handler codes (line_state (l @ [c])))"
  proof (cases rule: typeable_cases)
    case (plain i)
    have k: "kbd_us ! i = c \<or> kbd_us_shift ! i = c" using plain(3) by simp
    note ck = char_key [OF plain(2) n k]
    have "password_handler (of_nat i) (line_state l) = Inr ([?star], line_state (l @ [c]))"
      using ck(2-9) key_char_typed(1) [OF plain(2,3)] add_key_line(1) [OF n(1) c(2), of ?star]
      by (simp add: password_handler_def Let_def)
    moreover have "password_handler (of_nat i OR 0x80) (line_state (l @ [c])) = Inr ([], line_state (l @ [c]))"
      using ck(10-13) released_shift [OF ck(10)] by (auto simp: password_handler_def Let_def bit7_iff)
    ultimately show ?thesis unfolding plain(1)
      by (cases "key_loop password_handler codes (line_state (l @ [c]))")
        (auto simp: option.map_comp comp_def split_beta intro!: option.map_cong)
  next
    case (shifted i)
    have k: "kbd_us ! i = c \<or> kbd_us_shift ! i = c" using shifted(3) by simp
    note ck = char_key [OF shifted(2) n k]
    have "password_handler 0x2A (line_state l) = Inr ([], line_state l\<lparr>shift_pressed := True\<rparr>)"
      using shift_codes by (simp add: password_handler_def)
    moreover have "password_handler (of_nat i) (line_state l\<lparr>shift_pressed := True\<rparr>) =
        Inr ([?star], line_state (l @ [c])\<lparr>shift_pressed := True\<rparr>)"
      using ck(2-9) key_char_typed(2) [OF shifted(2,3)] add_key_line(2) [OF n(1) c(2), of ?star]
      by (simp add: password_handler_def Let_def)
    moreover have "password_handler (of_nat i OR 0x80) (line_state (l @ [c])\<lparr>shift_pressed := True\<rparr>) =
        Inr ([], line_state (l @ [c])\<lparr>shift_pressed := True\<rparr>)"
      using ck(10-13) released_shift [OF ck(10)] by (auto simp: password_handler_def Let_def bit7_iff)
    moreover have "password_handler 0xAA (line_state (l @ [c])\<lparr>shift_pressed := True\<rparr>) = Inr ([], line_state (l @ [c]))"
      using shift_codes by (simp add: password_handler_def Let_def)
    ultimately show ?thesis unfolding shifted(1)
      by (cases "key_loop password_handler codes (line_state (l @ [c]))")
        (auto simp: option.map_comp comp_def split_beta intro!: option.map_cong)
  qed
next
  fix l :: string and codes assume l: "length l \<le> 254"
  have b: "\<not> bit (0x1C :: u8) 7" by (simp add: bit7_iff)
  have "password_handler 0x1C (line_state l) = Inr ([Putchar newline], line_state l\<lparr>input_complete := True\<rparr>)"
    using enter_line [OF l] b by (simp add: password_handler_def)
  then show "key_loop password_handler (0x1C # codes) (line_state l) =
      Inr (Some ((), [Putchar newline], line_state l\<lparr>input_complete := True\<rparr>, codes))"
    by (simp add: key_loop_complete)
qed


lemma types_line:
  assumes "types handler echo" "\<forall>c \<in> set s. typeable c" "length l + length s \<le> 254"
  shows "key_loop handler (concat (map press s) @ 0x1C # rest) (line_state l) =
    Inr (Some ((), map echo s @ [Putchar newline], line_state (l @ s)\<lparr>input_complete := True\<rparr>, rest))"
  using assms(2,3)
proof (induction s arbitrary: l)
  case Nil
  then show ?case using assms(1) by (simp add: types_def del: key_loop.simps)
next
  case (Cons c s)
  have "key_loop handler (press c @ concat (map press s) @ 0x1C # rest) (line_state l) =
      map_sum id (map_option (\<lambda>(_, out, k, codes). ((), echo c # out, k, codes)))
        (key_loop handler (concat (map press s) @ 0x1C # rest) (line_state (l @ [c])))"
    using assms(1) Cons.prems by (simp add: types_def del: key_loop.simps)
  then show ?case using Cons.IH [of "l @ [c]"] Cons.prems by simp
qed

definition no_modifier :: "keyboard \<Rightarrow> bool" where
  "no_modifier k \<longleftrightarrow> \<not> shift_pressed k \<and> \<not> caps_lock k \<and> \<not> is_extended k"

lemma start_line_state: "no_modifier k \<Longrightarrow> start_line k = line_state []"
  by (cases k) (simp add: start_line_def line_state_def no_modifier_def)

lemma typeable_nul_free: "\<forall>c \<in> set s. typeable c \<Longrightarrow> nul_free s"
  by (auto simp: nul_free_def typeable_def)

lemma read_typed:
  assumes "types handler echo" "\<forall>c \<in> set s. typeable c" "length s \<le> 254" "no_modifier k"
  shows "read_with handler buffer (concat (map press s) @ 0x1C # rest) k =
    (if length s < length buffer
     then Inr (Some (s @ NUL # drop (Suc (length s)) buffer, map echo s @ [Putchar newline],
       line_state s\<lparr>input_complete := True\<rparr>, rest))
     else Inl Out_of_bounds)"
proof -
  have l: "length [] + length s \<le> 254" using assms(3) by simp
  have b: "input_buffer (line_state s) = s @ NUL # replicate (255 - length s) NUL"
    using assms(3) by (simp add: line_state_def Suc_diff_le flip: replicate_Suc)
  then have t: "terminated (input_buffer (line_state s))" "cstr (input_buffer (line_state s)) = s"
    using typeable_nul_free [OF assms(2)] by simp_all
  show ?thesis using types_line [OF assms(1,2) l, of rest] scan_copy_eq [OF t(1), of buffer]
      scan_copy_overflow [OF t(1), of buffer] t(2)
    by (simp add: read_with_def start_line_state [OF assms(4)] del: key_loop.simps)
qed

text \<open>
  C29: what is typed is read.  For every line of at most 254 characters that the keyboard has, the scan codes of
  typing it (with shift held where needed, each key released) and enter make \<open>scan\<close> hand over exactly that line and echo
  it, and leave the codes behind enter unread; a caller's buffer that is not longer than the line is overrun.
\<close>
theorem typed_text_is_read:
  assumes "\<forall>c \<in> set s. typeable c" "length s \<le> 254" "no_modifier k"
  shows "scan buffer (concat (map press s) @ 0x1C # rest) k =
    (if length s < length buffer
     then Inr (Some (s @ NUL # drop (Suc (length s)) buffer, map Putchar s @ [Putchar newline],
       line_state s\<lparr>input_complete := True\<rparr>, rest))
     else Inl Out_of_bounds)"
  unfolding scan_def by (rule read_typed [OF keyboard_types assms])

theorem typed_text_is_read_witness:
  "scan (replicate 32 NUL) (concat (map press ''Ls -a!'') @ 0x1C # [0x01]) (line_state []) =
    Inr (Some (''Ls -a!'' @ NUL # replicate 25 NUL, map Putchar ''Ls -a!'' @ [Putchar newline],
      line_state ''Ls -a!''\<lparr>input_complete := True\<rparr>, [0x01]))"
proof -
  have "\<forall>c \<in> set ''Ls -a!''. typeable c" by (simp add: typeable_def kbd_us_def kbd_us_shift_def)
  moreover have "no_modifier (line_state [])" by (simp add: no_modifier_def)
  ultimately show ?thesis using typed_text_is_read [of "''Ls -a!''" "line_state []" "replicate 32 NUL" "[0x01]"]
    by simp
qed

section \<open>Login\<close>

text \<open>The credentials typed at the attempt \<open>n\<close>, when nothing stops the reading before.\<close>

fun nth_credentials :: "nat \<Rightarrow> char list \<Rightarrow> char list \<Rightarrow> u8 list \<Rightarrow> keyboard \<Rightarrow> (char list \<times> char list) reading" where
  "nth_credentials 0 u p codes k = read_credentials u p codes k"
| "nth_credentials (Suc n) u p codes k =
     then_read (read_credentials u p codes k) (\<lambda>(u, p) codes k. nth_credentials n u p codes k)"

definition right_credentials :: "char list \<times> char list \<Rightarrow> bool" where
  "right_credentials c \<longleftrightarrow> cstr (fst c) = ''nousr'' \<and> cstr (snd c) = ''root''"

lemma reading_terminated:
  assumes "read_with handler buffer codes k = Inr (Some (b, r))"
  shows "terminated b"
proof -
  have c: "terminated b" if "scan_copy l buffer = Inr b" for l
    using that
  proof (induction l buffer arbitrary: b rule: scan_copy.induct)
    case (3 c input b0 buffer)
    then show ?case by (auto split: if_splits simp: map_sum_def split: sum.splits)
  qed simp_all
  show ?thesis using assms c by (auto simp: read_with_def bindE_eq_Inr split: option.splits)
qed

lemma then_read_SomeD:
  assumes "then_read m f = Inr (Some (y, out, k, codes))"
  obtains x out1 k1 codes1 out2 where "m = Inr (Some (x, out1, k1, codes1))" "f x codes1 k1 = Inr (Some (y, out2, k, codes))"
proof -
  obtain r where r: "m = Inr (Some r)" using assms by (cases m) (auto simp: then_read_def split: option.splits)
  obtain x out1 k1 codes1 where "r = (x, out1, k1, codes1)" by (metis prod_cases4)
  with r assms that show thesis by (cases "f x codes1 k1") (auto simp: then_read_def)
qed

lemma with_output_Some: "with_output out m = Inr (Some (x, o2, k, codes)) \<Longrightarrow> \<exists>o1. m = Inr (Some (x, o1, k, codes))"
  by (cases m) (auto simp: with_output_def)

lemma credentials_terminated:
  assumes "read_credentials u p codes k = Inr (Some ((u', p'), r))"
  shows "terminated u' \<and> terminated p'"
proof -
  obtain out k' codes' where r: "r = (out, k', codes')" by (metis prod_cases3)
  from assms r obtain o1 where
    "then_read (scan u codes k) (\<lambda>u codes k. with_output [Print ''Password: ''] (then_read (scan_password p codes k) (\<lambda>p codes k.
       Inr (Some ((u, p), [], k, codes))))) = Inr (Some ((u', p'), o1, k', codes'))"
    unfolding read_credentials_def by (blast dest: with_output_Some)
  then obtain x o2 k1 codes1 o3 where x: "scan u codes k = Inr (Some (x, o2, k1, codes1))"
    "with_output [Print ''Password: ''] (then_read (scan_password p codes1 k1) (\<lambda>p codes k.
       Inr (Some ((x, p), [], k, codes)))) = Inr (Some ((u', p'), o3, k', codes'))" by (rule then_read_SomeD)
  from with_output_Some [OF x(2)] obtain o4 where "then_read (scan_password p codes1 k1) (\<lambda>p codes k.
       Inr (Some ((x, p), [], k, codes))) = Inr (Some ((u', p'), o4, k', codes'))" ..
  then obtain y o5 k2 codes2 o6 where y: "scan_password p codes1 k1 = Inr (Some (y, o5, k2, codes2))"
    "(\<lambda>p codes k. Inr (Some ((x, p), [], k, codes))) y codes2 k2 = (Inr (Some ((u', p'), o6, k', codes')) :: (char list \<times> char list) reading)"
    by (rule then_read_SomeD)
  then show ?thesis using reading_terminated x(1) by (auto simp: scan_def scan_password_def)
qed

lemma credentials_ok_eq:
  assumes "terminated u" "terminated p"
  shows "credentials_ok u p = Inr (right_credentials (u, p))"
proof -
  have "nul_free ''nousr''" "nul_free ''root''" by simp_all
  with strcmp_zero_iff [OF assms(1), of "lit ''nousr''"] strcmp_zero_iff [OF assms(2), of "lit ''root''"]
  show ?thesis by (auto simp: credentials_ok_def right_credentials_def)
qed


lemma then_read_Some: "\<nexists>x. m = Inr (Some x) \<Longrightarrow> then_read m f \<noteq> Inr (Some r)"
  by (cases m) (auto simp: then_read_def split: option.splits)

text \<open>The readers have one fault.\<close>

definition only_oob :: "fault + 'a \<Rightarrow> bool" where
  "only_oob r \<longleftrightarrow> (\<forall>f. r = Inl f \<longrightarrow> f = Out_of_bounds)"

lemma only_oob_simps [simp]: "only_oob (Inr x)" "only_oob (put b i x)" "only_oob (map_sum id g r) = only_oob r"
  "only_oob (Inl f) \<longleftrightarrow> f = Out_of_bounds"
  by (cases r; simp add: only_oob_def put_def)+

lemma only_oob_bind: "only_oob m \<Longrightarrow> (\<And>x. only_oob (f x)) \<Longrightarrow> only_oob (bindE m f)"
  by (cases m) (simp_all add: only_oob_def)

lemma only_oob_handlers: "only_oob (keyboard_handler code k)" "only_oob (password_handler code k)"
  by (auto simp: keyboard_handler_def password_handler_def add_key_def erase_key_def enter_key_def Let_def
    intro!: only_oob_bind)

lemma only_oob_read:
  assumes "\<And>code k. only_oob (handler code k)"
  shows "only_oob (read_with handler buffer codes k)"
proof -
  have "only_oob (key_loop handler codes k)" for k
    using assms by (induction codes arbitrary: k) (auto intro!: only_oob_bind)
  moreover have "only_oob (scan_copy l b)" for l b
    by (induction l b rule: scan_copy.induct) auto
  ultimately show ?thesis by (auto simp: read_with_def intro!: only_oob_bind split: option.split)
qed

lemma only_oob_then: "only_oob m \<Longrightarrow> (\<And>x codes k. only_oob (f x codes k)) \<Longrightarrow> only_oob (then_read m f)"
  by (auto simp: then_read_def intro!: only_oob_bind split: option.split)

lemma only_oob_credentials: "only_oob (read_credentials u p codes k)"
  unfolding read_credentials_def with_output_def scan_def scan_password_def
  by (auto intro!: only_oob_then only_oob_read only_oob_handlers)

text \<open>One attempt, with the rest of the loop behind it.\<close>

lemma login_attempt:
  assumes "read_credentials u p codes k = Inr (Some ((u', p'), out, k', codes'))"
  shows "login_loop (Suc n) u p codes k =
    (if right_credentials (u', p') then
       Inr (Some ((), out @ [Print (newline # ln ''[+] ACCESS GRANTED.'' @ [newline])], k', codes'))
     else map_sum id (map_option (\<lambda>(y, out', k, codes). (y, out @ out', k, codes)))
       (with_output ([Print (newline # ''[-] INVALID CREDENTIALS. '')] @
           (if 0 < n then [Print (ln ''Please try again.'')] else [])) (login_loop n u' p' codes' k')))"
  using assms credentials_terminated [OF assms] by (simp add: then_read_def credentials_ok_eq)

lemma login_loop_iff:
  "(\<exists>r. login_loop n u p codes k = Inr (Some r)) \<longleftrightarrow>
     (\<exists>m < n. \<exists>c r. nth_credentials m u p codes k = Inr (Some (c, r)) \<and> right_credentials c)"
proof (induction n arbitrary: u p codes k)
  case (Suc n)
  have split: "(\<exists>m < Suc n. P m) \<longleftrightarrow> P 0 \<or> (\<exists>m < n. P (Suc m))" for P :: "nat \<Rightarrow> bool"
    by (metis Suc_less_eq less_Suc_eq_0_disj zero_less_Suc)
  show ?case
  proof (cases "\<exists>c r. read_credentials u p codes k = Inr (Some (c, r))")
    case False
    then have no: "\<nexists>x. read_credentials u p codes k = Inr (Some x)" by auto
    have "nth_credentials m u p codes k \<noteq> Inr (Some r)" for m r
    proof (cases m)
      case 0
      then show ?thesis using no by (simp only: nth_credentials.simps) blast
    next
      case (Suc j)
      show ?thesis unfolding Suc nth_credentials.simps using no by (rule then_read_Some)
    qed
    moreover have "login_loop (Suc n) u p codes k \<noteq> Inr (Some r)" for r
      unfolding login_loop.simps using no by (rule then_read_Some)
    ultimately show ?thesis by blast
  next
    case True
    then obtain u' p' out k' codes' where c: "read_credentials u p codes k = Inr (Some ((u', p'), out, k', codes'))"
      by auto
    have nth: "(\<exists>c r. nth_credentials (Suc m) u p codes k = Inr (Some (c, r)) \<and> right_credentials c) \<longleftrightarrow>
        (\<exists>c r. nth_credentials m u' p' codes' k' = Inr (Some (c, r)) \<and> right_credentials c)" for m
      using c by (cases "nth_credentials m u' p' codes' k'") (auto simp: then_read_def)
    have first: "(\<exists>c r. nth_credentials 0 u p codes k = Inr (Some (c, r)) \<and> right_credentials c) \<longleftrightarrow>
        right_credentials (u', p')" using c by simp
    have "(\<exists>r. login_loop (Suc n) u p codes k = Inr (Some r)) \<longleftrightarrow>
        right_credentials (u', p') \<or> (\<exists>r. login_loop n u' p' codes' k' = Inr (Some r))"
      unfolding login_attempt [OF c] with_output_def
      by (cases "login_loop n u' p' codes' k'") (auto split: if_split)
    then show ?thesis unfolding split nth first Suc.IH by simp
  qed
qed simp


lemma login_loop_halts:
  "login_loop n u p codes k = Inl Cpu_halted \<longleftrightarrow>
     (\<forall>m < n. \<exists>c r. nth_credentials m u p codes k = Inr (Some (c, r)) \<and> \<not> right_credentials c)"
proof (induction n arbitrary: u p codes k)
  case (Suc n)
  have split: "(\<forall>m < Suc n. P m) \<longleftrightarrow> P 0 \<and> (\<forall>m < n. P (Suc m))" for P :: "nat \<Rightarrow> bool"
    by (metis Suc_less_eq less_Suc_eq_0_disj zero_less_Suc)
  show ?case
  proof (cases "\<exists>c r. read_credentials u p codes k = Inr (Some (c, r))")
    case False
    then have "\<nexists>c r. nth_credentials 0 u p codes k = Inr (Some (c, r)) \<and> \<not> right_credentials c" by simp
    moreover have "login_loop (Suc n) u p codes k \<noteq> Inl Cpu_halted"
      using False only_oob_credentials [of u p codes k]
      by (cases "read_credentials u p codes k") (auto simp: then_read_def only_oob_def split: option.splits)
    ultimately show ?thesis by blast
  next
    case True
    then obtain u' p' out k' codes' where c: "read_credentials u p codes k = Inr (Some ((u', p'), out, k', codes'))"
      by auto
    have nth: "(\<exists>c r. nth_credentials (Suc m) u p codes k = Inr (Some (c, r)) \<and> \<not> right_credentials c) \<longleftrightarrow>
        (\<exists>c r. nth_credentials m u' p' codes' k' = Inr (Some (c, r)) \<and> \<not> right_credentials c)" for m
      using c by (cases "nth_credentials m u' p' codes' k'") (auto simp: then_read_def)
    have first: "(\<exists>c r. nth_credentials 0 u p codes k = Inr (Some (c, r)) \<and> \<not> right_credentials c) \<longleftrightarrow>
        \<not> right_credentials (u', p')" using c by simp
    have "login_loop (Suc n) u p codes k = Inl Cpu_halted \<longleftrightarrow>
        \<not> right_credentials (u', p') \<and> login_loop n u' p' codes' k' = Inl Cpu_halted"
      unfolding login_attempt [OF c] with_output_def
      by (cases "login_loop n u' p' codes' k'") (auto split: if_split)
    then show ?thesis unfolding split nth first Suc.IH by simp
  qed
qed simp

text \<open>
  C30: the login lets a user in exactly when the name and the password of one of the first three attempts are right, and
  halts the machine for ever exactly when three attempts were made and all of them were wrong, whatever scan codes arrive.
\<close>
theorem login_needs_the_credentials:
  "((\<exists>r. login u p codes k = Inr (Some r)) \<longleftrightarrow>
      (\<exists>m < 3. \<exists>c r. nth_credentials m u p codes k = Inr (Some (c, r)) \<and> right_credentials c)) \<and>
   (login u p codes k = Inl Cpu_halted \<longleftrightarrow>
      (\<forall>m < 3. \<exists>c r. nth_credentials m u p codes k = Inr (Some (c, r)) \<and> \<not> right_credentials c))"
  unfolding login_def by (intro conjI login_loop_iff login_loop_halts)

theorem login_needs_the_credentials_witness:
  "\<exists>r. login (replicate 64 NUL) (replicate 64 NUL)
    (concat (map press ''nousr'') @ 0x1C # concat (map press ''root'') @ [0x1C]) (line_state []) = Inr (Some r)"
proof -
  let ?b = "replicate 64 NUL" and ?p = "concat (map press ''root'') @ [0x1C]"
  let ?codes = "concat (map press ''nousr'') @ 0x1C # ?p"
  have t: "\<forall>c \<in> set ''nousr''. typeable c" "\<forall>c \<in> set ''root''. typeable c" by (simp_all add: typeable_def kbd_us_def)
  have n: "no_modifier (line_state [])" "no_modifier (line_state ''nousr''\<lparr>input_complete := True\<rparr>)"
    by (simp_all add: no_modifier_def)
  have "\<exists>o1 k1. scan ?b ?codes (line_state []) = Inr (Some (''nousr'' @ NUL # replicate 58 NUL, o1, k1, ?p)) \<and> no_modifier k1"
    unfolding scan_def using read_typed [OF keyboard_types t(1) _ n(1), of ?b ?p] n(2) by simp
  then obtain o1 k1 where s: "scan ?b ?codes (line_state []) = Inr (Some (''nousr'' @ NUL # replicate 58 NUL, o1, k1, ?p))"
    "no_modifier k1" by blast
  have "\<exists>o2 k2. scan_password ?b ?p k1 = Inr (Some (''root'' @ NUL # replicate 59 NUL, o2, k2, []))"
    unfolding scan_password_def using read_typed [OF password_types t(2) _ s(2), of ?b "[]"] by simp
  then obtain o2 k2 where "scan_password ?b ?p k1 = Inr (Some (''root'' @ NUL # replicate 59 NUL, o2, k2, []))" by blast
  then have "\<exists>c r. nth_credentials 0 ?b ?b ?codes (line_state []) = Inr (Some (c, r)) \<and> right_credentials c"
    using s(1) by (simp add: read_credentials_def then_read_def with_output_def right_credentials_def)
  then show ?thesis using login_needs_the_credentials [of ?b ?b ?codes "line_state []"] by (metis zero_less_numeral)
qed

section \<open>Quirks\<close>

text \<open>Shift and caps lock together do not cancel for letters: the third branch takes the shifted table anyway.\<close>

lemma shift_with_caps_is_upper: "key_char True True code = kbd_us_shift ! unat code"
  by (simp add: key_char_def Let_def)

text \<open>The keypad entries sit three places too late: the key 0x4A (keypad minus) types a 7.\<close>

lemma keypad_is_shifted: "key_char False False 0x4A = CHR ''7''" "key_char False False 0x47 = NUL"
  by (simp_all add: key_char_def kbd_us_def nth_append is_upper_def kbd_us_shift_def)

text \<open>In a password the arrow keys type digits, because the prefix is not looked at.\<close>

lemma arrow_key_in_password:
  "length l < 254 \<Longrightarrow> password_handler 0x4B (line_state l) = Inr ([Putchar (CHR ''*'')], line_state (l @ [CHR ''8'']))"
  using add_key_line(1) [of "CHR ''8''" l "Putchar (CHR ''*'')"]
  by (simp add: password_handler_def bit7_iff key_char_def kbd_us_def nth_append is_upper_def kbd_us_shift_def)

end
