(* ===== verification/WX_Editors.thy ===== *)
theory WX_Editors
  imports WX_Fs
begin

text \<open>
  The two editors: \<open>nano.h\<close> with its document of 1024 lines of 256 characters and its command mode, and \<open>notepad.h\<close>.
  The lines a user types are a list; when it runs out the editor keeps waiting at a read, which the results tell.
\<close>

section \<open>nano: strings\<close>

fun nano_sys_strlen :: "char list \<Rightarrow> fault + nat" where
  "nano_sys_strlen [] = Inl Out_of_bounds"
| "nano_sys_strlen (c # s) = (if c \<noteq> NUL then map_sum id Suc (nano_sys_strlen s) else Inr 0)"

fun nano_sys_strcmp :: "char list \<Rightarrow> char list \<Rightarrow> fault + bool" where
  "nano_sys_strcmp (a # alpha) (b # beta) =
     (if a \<noteq> NUL \<and> b \<noteq> NUL then (if a \<noteq> b then Inr False else nano_sys_strcmp alpha beta) else Inr (a = b))"
| "nano_sys_strcmp alpha beta = Inl Out_of_bounds"

fun nano_sys_strcpy :: "char list \<Rightarrow> char list \<Rightarrow> fault + char list" where
  "nano_sys_strcpy destination [] = Inl Out_of_bounds"
| "nano_sys_strcpy [] (c # source) = Inl Out_of_bounds"
| "nano_sys_strcpy (d # destination) (c # source) =
     (if c \<noteq> NUL then map_sum id (Cons c) (nano_sys_strcpy destination source) else Inr (NUL # destination))"

definition nano_sys_strcat :: "char list \<Rightarrow> char list \<Rightarrow> fault + char list" where
  "nano_sys_strcat destination source =
     bindE (nano_sys_strlen destination) (\<lambda>n.
       map_sum id ((@) (take n destination)) (nano_sys_strcpy (drop n destination) source))"

section \<open>nano: the document\<close>

definition NANO_MAX_COLS :: nat where "NANO_MAX_COLS = 80"
definition NANO_SYS_MAX_ROWS :: nat where "NANO_SYS_MAX_ROWS = 25"
definition NANO_MAX_LINE_LENGTH :: nat where "NANO_MAX_LINE_LENGTH = 256"
definition NANO_MAX_TOTAL_LINES :: nat where "NANO_MAX_TOTAL_LINES = 1024"
definition NANO_MAX_CMD_BUFFER :: nat where "NANO_MAX_CMD_BUFFER = 512"

record nano_text_line =
  character_data :: "char list"
  occupied_length :: nat
  virtual_index :: nat

record nano =
  lines :: "nano_text_line list"
  active_line_count :: nat
  global_cursor_x :: nat
  global_cursor_y :: nat
  viewport_offset_y :: nat
  document_modified_flag :: bool
  editor_running_state :: bool
  status_message_buffer :: "char list"

definition blank_line :: nano_text_line where
  "blank_line = \<lparr>character_data = replicate NANO_MAX_LINE_LENGTH NUL, occupied_length = 0, virtual_index = 0\<rparr>"

definition blank_document :: "nano_text_line list" where
  "blank_document = replicate NANO_MAX_TOTAL_LINES blank_line"

definition nano_context_hard_reset :: "fault + nano" where
  "nano_context_hard_reset =
     bindE (nano_sys_strcpy (replicate NANO_MAX_COLS NUL) (lit ''System Initialized. Awaiting Input.'')) (\<lambda>st.
       Inr \<lparr>lines = blank_document, active_line_count = 1, global_cursor_x = 0, global_cursor_y = 0,
         viewport_offset_y = 0, document_modified_flag = False, editor_running_state = True,
         status_message_buffer = st\<rparr>)"

definition nano_set_status_message :: "char list \<Rightarrow> nano \<Rightarrow> fault + nano" where
  "nano_set_status_message msg n =
     map_sum id (\<lambda>st. n\<lparr>status_message_buffer := st\<rparr>) (nano_sys_strcpy (replicate NANO_MAX_COLS NUL) msg)"

text \<open>The loop that makes room at \<open>x_pos\<close>: \<open>i\<close> runs down from the line's length.\<close>

fun make_room :: "nat \<Rightarrow> nat \<Rightarrow> char list \<Rightarrow> fault + char list" where
  "make_room 0 x_pos b = Inr b"
| "make_room (Suc i) x_pos b =
     (if x_pos < Suc i then bindE (get b i) (\<lambda>c. bindE (put b (Suc i) c) (make_room i x_pos)) else Inr b)"

definition insert_in_line :: "char \<Rightarrow> nat \<Rightarrow> nano_text_line \<Rightarrow> fault + nano_text_line" where
  "insert_in_line c x_pos l =
     bindE (make_room (occupied_length l) x_pos (character_data l)) (\<lambda>b.
     bindE (put b x_pos c) (\<lambda>b.
     bindE (put b (occupied_length l + 1) NUL) (\<lambda>b.
       Inr (l\<lparr>character_data := b, occupied_length := occupied_length l + 1\<rparr>))))"

text \<open>The insertion once the target line is settled.\<close>

definition insert_at_cursor :: "char \<Rightarrow> nano \<Rightarrow> fault + nano" where
  "insert_at_cursor c n =
     bindE (get (lines n) (global_cursor_y n)) (\<lambda>l.
     bindE (insert_in_line c (global_cursor_x n) l) (\<lambda>l.
       nano_set_status_message (lit ''Document Modified.'')
         (n\<lparr>lines := (lines n)[global_cursor_y n := l], global_cursor_x := global_cursor_x n + 1,
            document_modified_flag := True\<rparr>)))"

definition nano_insert_character_at_cursor :: "char \<Rightarrow> nano \<Rightarrow> fault + nano" where
  "nano_insert_character_at_cursor c n =
     (if NANO_MAX_TOTAL_LINES \<le> global_cursor_y n then Inr n
      else
        bindE (get (lines n) (global_cursor_y n)) (\<lambda>l.
          if NANO_MAX_LINE_LENGTH - 2 \<le> occupied_length l then
            if active_line_count n < NANO_MAX_TOTAL_LINES then
              insert_at_cursor c (n\<lparr>global_cursor_y := global_cursor_y n + 1, global_cursor_x := 0,
                active_line_count := active_line_count n + 1\<rparr>)
            else nano_set_status_message (lit ''ERROR: Maximum document length reached.'') n
          else insert_at_cursor c n))"

fun nano_process_raw_input_stream :: "char list \<Rightarrow> nano \<Rightarrow> fault + nano" where
  "nano_process_raw_input_stream [] n = Inl Out_of_bounds"
| "nano_process_raw_input_stream (c # stream) n =
     (if c \<noteq> NUL then bindE (nano_insert_character_at_cursor c n) (nano_process_raw_input_stream stream) else Inr n)"

section \<open>nano: the screen\<close>

definition double_rule :: con where
  "double_rule = Print (ln (replicate 80 (CHR ''='')))"

definition single_rule :: con where
  "single_rule = Print (ln (replicate 80 (CHR ''-'')))"

definition nano_render_header_component :: "con list" where
  "nano_render_header_component =
     [double_rule,
      Print (ln '' GNU nano 7.2.X-Advanced       [ SYSTEM KERNEL BUFFER ]                         ''),
      double_rule]"

definition nano_render_status_component :: "nano \<Rightarrow> fault + con list" where
  "nano_render_status_component n =
     map_sum id (\<lambda>out. [single_rule, Print ''[ STATUS ]: ''] @ out @ [Print (ln '''')]) (print_buffer (status_message_buffer n))"

definition nano_render_footer_component :: "con list" where
  "nano_render_footer_component =
     [single_rule,
      Print (ln ('' COMMAND MODE : Type '' @ [CHR 0x27] @ ''-cmdnanocmd'' @ [CHR 0x27] @ ''     |   EXIT SEQUENCE : Type '' @
        [CHR 0x27] @ ''exit'' @ [CHR 0x27] @ ''          '')),
      double_rule]"

fun render_rows :: "nat list \<Rightarrow> nano \<Rightarrow> fault + con list" where
  "render_rows [] n = Inr []"
| "render_rows (i # is) n =
     bindE (if i < active_line_count n then
              bindE (get (lines n) i) (\<lambda>l.
                if occupied_length l = 0 then Inr [Print (ln '' '')]
                else map_sum id (\<lambda>out. out @ [Print (ln '''')]) (print_buffer (character_data l)))
            else Inr [Print (ln ''~'')]) (\<lambda>out. map_sum id ((@) out) (render_rows is n))"

definition nano_render_text_viewport :: "nano \<Rightarrow> fault + con list" where
  "nano_render_text_viewport n =
     render_rows (map ((+) (viewport_offset_y n)) [0..<NANO_SYS_MAX_ROWS - 9]) n"

definition nano_force_display_refresh :: "nano \<Rightarrow> fault + con list" where
  "nano_force_display_refresh n =
     bindE (nano_render_text_viewport n) (\<lambda>text.
     bindE (nano_render_status_component n) (\<lambda>st.
       Inr ([Cls] @ nano_render_header_component @ text @ st @ nano_render_footer_component)))"

section \<open>nano: command mode and the editor loop\<close>

definition nano_subsystem_execute_clear :: "nano \<Rightarrow> fault + nano" where
  "nano_subsystem_execute_clear n =
     nano_set_status_message (lit ''Buffer wiped clean successfully.'')
       (n\<lparr>lines := blank_document, active_line_count := 1, global_cursor_x := 0, global_cursor_y := 0, viewport_offset_y := 0\<rparr>)"

definition nano_subsystem_execute_stats :: "nano \<Rightarrow> fault + nano" where
  "nano_subsystem_execute_stats n =
     bindE (nano_sys_strcpy (replicate NANO_MAX_COLS NUL)
         (lit ''Total Lines: ACTIVE | Memory: SECURE | Subsystem: ONLINE'')) (\<lambda>stat_msg.
       nano_set_status_message stat_msg n)"

definition command_menu :: "con list" where
  "command_menu =
     [Cls, double_rule,
      Print (ln ''                 [ NANO INTERNAL COMMAND SUBSYSTEM ]                            ''),
      double_rule,
      Print (ln '' Available Directives:''),
      Print (ln ''   -> return    : Return to document editing''),
      Print (ln ''   -> clear     : Destroy all document contents''),
      Print (ln ''   -> stats     : Display buffer memory statistics''),
      Print (ln ''   -> save      : Commit buffer to virtual file system''),
      Print (ln ''   -> abort     : Terminate entire editor instance''),
      single_rule,
      Print ''root@nano-internal:~# '']"

text \<open>What a directive that stays in command mode does and prints; the chain of comparisons tries them in this order.\<close>

definition directive :: "char list \<Rightarrow> nano \<Rightarrow> fault + (con list \<times> nano)" where
  "directive cmd n =
     bindE (nano_sys_strcmp cmd (lit ''clear'')) (\<lambda>is_clear.
       if is_clear then map_sum id (Pair [Print (newline # ''[SUCCESS] Document completely erased. Press any key...'')])
         (nano_subsystem_execute_clear n)
       else bindE (nano_sys_strcmp cmd (lit ''stats'')) (\<lambda>is_stats.
         if is_stats then map_sum id (Pair [Print (newline # ''[SUCCESS] Statistics updated in status bar. Press any key...'')])
           (nano_subsystem_execute_stats n)
         else bindE (nano_sys_strcmp cmd (lit ''save'')) (\<lambda>is_save.
           if is_save then map_sum id (Pair [Print (newline # ''[SUCCESS] I/O Operation complete. Press any key...'')])
             (nano_set_status_message (lit ''File saved to VFS (Simulated).'') n)
           else Inr ([Print (newline # ''[FATAL] Unrecognized directive. Try again. Press any key...'')], n))))"

text \<open>
  The command loop on the typed lines; it hands back the lines left, or \<open>None\<close> when it waits for one.  The line typed
  at \<open>Press any key\<close> goes into the ten bytes of \<open>dummy\<close>.
\<close>

fun nano_subsystem_terminal_dispatcher ::
    "char list list \<Rightarrow> nano \<Rightarrow> fault + (con list \<times> nano \<times> char list list option)" where
  "nano_subsystem_terminal_dispatcher [] n = Inr (command_menu, n, None)"
| "nano_subsystem_terminal_dispatcher (line # typed_lines) n =
     bindE (scan_into NANO_MAX_CMD_BUFFER line) (\<lambda>cmd.
     bindE (nano_sys_strcmp cmd (lit ''return'')) (\<lambda>is_return.
       if is_return then
         map_sum id (\<lambda>n. (command_menu, n, Some typed_lines)) (nano_set_status_message (lit ''Returned to editor mode.'') n)
       else bindE (nano_sys_strcmp cmd (lit ''abort'')) (\<lambda>is_abort.
         if is_abort then Inr (command_menu, n\<lparr>editor_running_state := False\<rparr>, Some typed_lines)
         else bindE (directive cmd n) (\<lambda>(out, n).
           case typed_lines of
             [] \<Rightarrow> Inr (command_menu @ out, n, None)
           | dummy # typed_lines \<Rightarrow>
               bindE (scan_into 10 dummy) (\<lambda>_.
                 map_sum id (\<lambda>(out2, n, r). (command_menu @ out @ out2, n, r))
                   (nano_subsystem_terminal_dispatcher typed_lines n))))))"

lemma map_sum_eq_Inr: "map_sum id f m = Inr y \<longleftrightarrow> (\<exists>x. m = Inr x \<and> y = f x)"
  by (cases m) auto

lemma dispatcher_uses_lines:
  "nano_subsystem_terminal_dispatcher inp n = Inr (out, n', Some rest) \<Longrightarrow> length rest \<le> length inp"
proof (induction "length inp" arbitrary: inp n out n' rest rule: less_induct)
  case less
  show ?case
  proof (cases inp)
    case Nil
    with less.prems show ?thesis by simp
  next
    case (Cons line typed_lines)
    from less.prems consider "rest = typed_lines"
      | d ds m o2 where "typed_lines = d # ds" "nano_subsystem_terminal_dispatcher ds m = Inr (o2, n', Some rest)"
      unfolding Cons by (cases typed_lines) (auto simp: bindE_eq_Inr map_sum_eq_Inr split: if_splits)
    then show ?thesis
    proof cases
      case 2
      then show ?thesis using less.hyps [OF _ 2(2)] unfolding Cons by simp
    qed (simp add: Cons)
  qed
qed

text \<open>The editor on the typed lines; the flag tells that it still waits for one.\<close>

function nano_loop :: "char list list \<Rightarrow> nano \<Rightarrow> fault + (con list \<times> nano \<times> bool)" where
  "nano_loop inp n =
     (if editor_running_state n then
        bindE (nano_force_display_refresh n) (\<lambda>screen.
          let out = screen @ [Print (newline # ''[INPUT]> '')] in
          case inp of
            [] \<Rightarrow> Inr (out, n, True)
          | line # typed_lines \<Rightarrow>
              bindE (scan_into NANO_MAX_CMD_BUFFER line) (\<lambda>input.
              bindE (nano_sys_strcmp input (lit ''exit'')) (\<lambda>is_exit.
                if is_exit then
                  map_sum id (\<lambda>(out2, r). (out @ out2, r)) (nano_loop typed_lines (n\<lparr>editor_running_state := False\<rparr>))
                else bindE (nano_sys_strcmp input (lit ''-cmdnanocmd'')) (\<lambda>is_cmd.
                  if is_cmd then
                    (case nano_subsystem_terminal_dispatcher typed_lines n of
                       Inl f \<Rightarrow> Inl f
                     | Inr (out2, n, None) \<Rightarrow> Inr (out @ out2, n, True)
                     | Inr (out2, n, Some typed_lines) \<Rightarrow>
                         map_sum id (\<lambda>(out3, r). (out @ out2 @ out3, r)) (nano_loop typed_lines n))
                  else
                    bindE (if input ! 0 \<noteq> NUL then nano_process_raw_input_stream input n else Inr n) (\<lambda>n.
                      map_sum id (\<lambda>(out2, r). (out @ out2, r)) (nano_loop typed_lines n))))))
      else Inr ([Cls], n, False))"
  by pat_completeness auto
termination
  by (relation "measure (\<lambda>(inp, n). length inp)") (auto dest: dispatcher_uses_lines)

declare nano_loop.simps [simp del]

definition execute_nano_terminal_simulator :: "char list list \<Rightarrow> fault + (con list \<times> nano \<times> bool)" where
  "execute_nano_terminal_simulator inp = bindE nano_context_hard_reset (nano_loop inp)"

section \<open>notepad\<close>

definition MAX_LINES :: nat where "MAX_LINES = 100"
definition LINE_LEN :: nat where "LINE_LEN = 128"

record notepad_buffer =
  text_storage :: "char list list"
  line_count :: nat

fun print_lines :: "char list list \<Rightarrow> fault + con list" where
  "print_lines [] = Inr []"
| "print_lines (b # bs) =
     bindE (print_buffer b) (\<lambda>out. map_sum id (\<lambda>out2. out @ [Print (ln '''')] @ out2) (print_lines bs))"

definition refresh_screen :: "notepad_buffer \<Rightarrow> fault + con list" where
  "refresh_screen p =
     bindE (print_lines (take (line_count p) (text_storage p))) (\<lambda>out.
       Inr ([Print (ln ''WhiteX Notepad v1.0''), Print (ln (replicate 42 (CHR ''-'')))] @ out @
         replicate (20 - line_count p) (Print (ln ''~'')) @
         [Print (ln (replicate 42 (CHR ''-''))), Print (ln ''^Q: Quit | ^V: Refresh | System: :ls, :pwd'')]))"

text \<open>The last branch of the loop: the line is stored, cut to 127 characters, or refused when 100 lines are stored.\<close>

definition store_line :: "char list \<Rightarrow> notepad_buffer \<Rightarrow> fault + (con list \<times> notepad_buffer)" where
  "store_line input p =
     (if line_count p < MAX_LINES then
        bindE (get (text_storage p) (line_count p)) (\<lambda>dest.
        bindE (fs_strcpy_loop (LINE_LEN - 1) dest input) (\<lambda>b.
          let p = p\<lparr>text_storage := (text_storage p)[line_count p := b], line_count := line_count p + 1\<rparr>
          in map_sum id (\<lambda>out. (out, p)) (refresh_screen p)))
      else Inr ([Print (ln ''Error: Buffer full!'')], p))"

text \<open>The loop on the lines typed, up to \<open>/q\<close> or the last line; \<open>/mkdir\<close> and \<open>/cd\<close> read a name first.\<close>

definition then_out :: "fault + (con list \<times> 'a) \<Rightarrow> ('a \<Rightarrow> fault + (con list \<times> 'b)) \<Rightarrow> fault + (con list \<times> 'b)" where
  "then_out m f = bindE m (\<lambda>(out, x). map_sum id (\<lambda>(out2, y). (out @ out2, y)) (f x))"

fun notepad_loop :: "char list list \<Rightarrow> notepad_buffer \<times> vfs \<Rightarrow> fault + (con list \<times> (notepad_buffer \<times> vfs))" where
  "notepad_loop [] (p, v) = Inr ([], (p, v))"
| "notepad_loop (line # inp) (p, v) =
     bindE (scan_into LINE_LEN line) (\<lambda>input.
       let c = cstr input in
       if c = ''/q'' then Inr ([], (p, v))
       else if c = ''/v'' then then_out (map_sum id (\<lambda>out. (out, (p, v))) (refresh_screen p)) (notepad_loop inp)
       else if c = ''/ls'' then then_out (Inr (ls v, (p, v))) (notepad_loop inp)
       else if c = ''/pwd'' then then_out (map_sum id (\<lambda>out. (out, (p, v))) (pwd v)) (notepad_loop inp)
       else if c = ''/mkdir'' \<or> c = ''/cd'' then
         (case inp of
            [] \<Rightarrow> Inr ([], (p, v))
          | nm # inp \<Rightarrow>
              then_out (map_sum id (\<lambda>(out, v). (out, (p, v))) (if c = ''/mkdir'' then mkdir nm v else cd nm v))
                (notepad_loop inp))
       else then_out (map_sum id (\<lambda>(out, p). (out, (p, v))) (store_line input p)) (notepad_loop inp))"

definition run_notepad :: "char list list \<Rightarrow> char list list \<Rightarrow> vfs \<Rightarrow> fault + (con list \<times> (notepad_buffer \<times> vfs))" where
  "run_notepad inp storage0 v =
     bindE (foldE (\<lambda>i bufs. bindE (get bufs i) (\<lambda>b. bindE (put b 0 NUL) (\<lambda>b. put bufs i b))) [0..<MAX_LINES] storage0) (\<lambda>bufs.
       let p = \<lparr>text_storage = bufs, line_count = 0\<rparr>
       in then_out (map_sum id (\<lambda>out. (out, (p, v))) (refresh_screen p)) (notepad_loop inp))"

end
