(* ===== verification/WX_Editors_Props.thy ===== *)
theory WX_Editors_Props
  imports WX_Editors WX_Fs_Props
begin

text \<open>
  What the editors guarantee: a nano session is an append-only text of at most 1024 times 254 characters with a command
  mode, a notepad keeps its lines in bounds.
\<close>

section \<open>Strings\<close>

lemma nano_sys_strcmp_eq: "terminated a \<Longrightarrow> terminated b \<Longrightarrow> nano_sys_strcmp a b = Inr (cstr a = cstr b)"
  by (induction a b rule: nano_sys_strcmp.induct) auto

lemma nano_sys_strcpy_eq:
  "terminated src \<Longrightarrow> length (cstr src) < length dest \<Longrightarrow>
   nano_sys_strcpy dest src = Inr (cstr src @ NUL # drop (Suc (length (cstr src))) dest)"
  by (induction dest src rule: nano_sys_strcpy.induct) auto

lemma nano_sys_strlen_eq: "terminated s \<Longrightarrow> nano_sys_strlen s = Inr (length (cstr s))"
  by (induction s) auto

lemma nano_sys_strcat_eq:
  assumes "terminated dest" "terminated src" "length (cstr dest) + length (cstr src) < length dest"
  shows "\<exists>b. nano_sys_strcat dest src = Inr b \<and> length b = length dest \<and> cstr b = cstr dest @ cstr src"
proof -
  have t: "take (length (cstr dest)) dest = cstr dest"
    using terminated_split [OF assms(1)] by (metis append_eq_conv_conj)
  have "length (cstr src) < length (drop (length (cstr dest)) dest)" using assms(3) by simp
  from nano_sys_strcpy_eq [OF assms(2) this] have
    "nano_sys_strcat dest src = Inr (cstr dest @ cstr src @ NUL # drop (Suc (length (cstr src))) (drop (length (cstr dest)) dest))"
    by (simp only: nano_sys_strcat_def nano_sys_strlen_eq [OF assms(1)] t bindE_simps map_sum.simps)
  moreover have "cstr ((cstr dest @ cstr src) @ NUL # r) = cstr dest @ cstr src" for r
    by (rule cstr_append_NUL) simp
  ultimately show ?thesis using assms(3) by simp
qed

section \<open>The document as a text\<close>

definition content :: "nano_text_line \<Rightarrow> string" where
  "content l = take (occupied_length l) (character_data l)"

definition line_ok :: "nano_text_line \<Rightarrow> bool" where
  "line_ok l \<longleftrightarrow> length (character_data l) = 256 \<and> occupied_length l \<le> 254 \<and> nul_free (content l) \<and>
     character_data l ! occupied_length l = NUL"

definition nano_ok :: "nano \<Rightarrow> bool" where
  "nano_ok n \<longleftrightarrow> length (lines n) = 1024 \<and> (\<forall>l \<in> set (lines n). line_ok l) \<and>
     active_line_count n = global_cursor_y n + 1 \<and> global_cursor_y n < 1024 \<and>
     global_cursor_x n = occupied_length (lines n ! global_cursor_y n) \<and>
     (\<forall>j < global_cursor_y n. occupied_length (lines n ! j) = 254) \<and>
     (\<forall>j. global_cursor_y n < j \<longrightarrow> j < 1024 \<longrightarrow> occupied_length (lines n ! j) = 0) \<and>
     terminated (status_message_buffer n)"

definition doc_text :: "nano \<Rightarrow> string" where
  "doc_text n = concat (map content (take (active_line_count n) (lines n)))"

definition NANO_CAPACITY :: nat where "NANO_CAPACITY = 1024 * 254"

lemma length_content: "line_ok l \<Longrightarrow> length (content l) = occupied_length l"
  by (simp add: line_ok_def content_def)

lemma doc_text_split:
  assumes "nano_ok n"
  shows "doc_text n = concat (map content (take (global_cursor_y n) (lines n))) @ content (lines n ! global_cursor_y n)"
    "length (concat (map content (take (global_cursor_y n) (lines n)))) = 254 * global_cursor_y n"
proof -
  let ?y = "global_cursor_y n"
  have y: "?y < length (lines n)" "active_line_count n = Suc ?y" using assms by (simp_all add: nano_ok_def)
  then show "doc_text n = concat (map content (take ?y (lines n))) @ content (lines n ! ?y)"
    by (simp add: doc_text_def take_Suc_conv_app_nth)
  have "map (length \<circ> content) (take ?y (lines n)) = replicate ?y 254"
  proof (rule nth_equalityI)
    fix j assume "j < length (map (length \<circ> content) (take ?y (lines n)))"
    then show "map (length \<circ> content) (take ?y (lines n)) ! j = replicate ?y 254 ! j"
      using assms y by (simp add: nano_ok_def length_content)
  qed (use y in simp)
  then show "length (concat (map content (take ?y (lines n)))) = 254 * ?y"
    by (simp add: length_concat comp_def sum_list_replicate)
qed

lemma status_ok:
  assumes "nul_free msg" "length msg < 80"
  shows "nano_set_status_message (lit msg) n = Inr (n\<lparr>status_message_buffer := msg @ NUL # replicate (79 - length msg) NUL\<rparr>)"
  using assms nano_sys_strcpy_eq [of "lit msg" "replicate NANO_MAX_COLS NUL"]
  by (simp add: nano_set_status_message_def NANO_MAX_COLS_def)

lemma nano_ok_status:
  "nano_ok n \<Longrightarrow> terminated st \<Longrightarrow> nano_ok (n\<lparr>status_message_buffer := st\<rparr>)"
  "doc_text (n\<lparr>status_message_buffer := st\<rparr>) = doc_text n"
  by (simp_all add: nano_ok_def doc_text_def)

lemma insert_in_line_ok:
  assumes "line_ok l" "occupied_length l < 254" "c \<noteq> NUL"
  shows "\<exists>l'. insert_in_line c (occupied_length l) l = Inr l' \<and> line_ok l' \<and> occupied_length l' = Suc (occupied_length l) \<and>
    content l' = content l @ [c]"
proof -
  let ?o = "occupied_length l" and ?b = "character_data l"
  have l: "length ?b = 256" "nul_free (content l)" using assms(1) by (simp_all add: line_ok_def)
  have "make_room ?o ?o ?b = Inr ?b" by (cases ?o) simp_all
  then have "insert_in_line c ?o l = Inr (l\<lparr>character_data := ?b[?o := c, Suc ?o := NUL], occupied_length := Suc ?o\<rparr>)"
    using l assms(2) by (simp add: insert_in_line_def)
  moreover have "take (Suc ?o) (?b[?o := c, Suc ?o := NUL]) = take ?o ?b @ [c]"
    using l assms(2) by (simp add: take_Suc_conv_app_nth)
  ultimately show ?thesis using l assms by (simp add: line_ok_def content_def)
qed

lemma insert_at_cursor_ok:
  assumes "nano_ok n" "occupied_length (lines n ! global_cursor_y n) < 254" "c \<noteq> NUL"
  shows "\<exists>n'. insert_at_cursor c n = Inr n' \<and> nano_ok n' \<and> doc_text n' = doc_text n @ [c] \<and>
    editor_running_state n' = editor_running_state n"
proof -
  let ?y = "global_cursor_y n"
  have y: "?y < length (lines n)" "global_cursor_x n = occupied_length (lines n ! ?y)" "line_ok (lines n ! ?y)"
    using assms(1) by (simp_all add: nano_ok_def)
  from insert_in_line_ok [OF y(3) assms(2,3)] obtain l' where
    l': "insert_in_line c (global_cursor_x n) (lines n ! ?y) = Inr l'" "line_ok l'"
      "occupied_length l' = Suc (occupied_length (lines n ! ?y))" "content l' = content (lines n ! ?y) @ [c]"
    using y(2) by auto
  define m where "m = n\<lparr>lines := (lines n)[?y := l'], global_cursor_x := global_cursor_x n + 1, document_modified_flag := True\<rparr>"
  have m: "nano_ok m" using assms(1) y l'
    by (auto simp: m_def nano_ok_def nth_list_update dest!: set_update_subset_insert [THEN subsetD])
  have "global_cursor_y m = ?y" "take ?y (lines m) = take ?y (lines n)" "lines m ! ?y = l'" using y by (simp_all add: m_def)
  then have t: "doc_text m = doc_text n @ [c]"
    using doc_text_split(1) [OF m] doc_text_split(1) [OF assms(1)] l'(4) by simp
  have "nul_free ''Document Modified.''" "length ''Document Modified.'' < 80" by simp_all
  note st = status_ok [OF this, of m]
  have "insert_at_cursor c n = nano_set_status_message (lit ''Document Modified.'') m"
    using y(1) l'(1) by (simp add: insert_at_cursor_def m_def)
  then show ?thesis using st nano_ok_status(1) [OF m] t by (simp add: nano_ok_status(2) m_def)
qed

lemma insert_ok:
  assumes "nano_ok n" "c \<noteq> NUL"
  shows "\<exists>n'. nano_insert_character_at_cursor c n = Inr n' \<and> nano_ok n' \<and>
    doc_text n' = take NANO_CAPACITY (doc_text n @ [c]) \<and> editor_running_state n' = editor_running_state n"
proof -
  let ?y = "global_cursor_y n" and ?l = "lines n ! global_cursor_y n"
  have y: "?y < length (lines n)" "\<not> NANO_MAX_TOTAL_LINES \<le> ?y" "active_line_count n = Suc ?y" "line_ok ?l" "?y < 1024"
    using assms(1) by (simp_all add: nano_ok_def NANO_MAX_TOTAL_LINES_def)
  have len: "length (doc_text n) = 254 * ?y + occupied_length ?l"
    using doc_text_split [OF assms(1)] length_content [OF y(4)] by simp
  have o: "occupied_length ?l \<le> 254" using y(4) by (simp add: line_ok_def)
  show ?thesis
  proof (cases "occupied_length ?l < 254")
    case True
    then have "length (doc_text n) < NANO_CAPACITY" using len y(5) by (simp add: NANO_CAPACITY_def)
    then show ?thesis using insert_at_cursor_ok [OF assms(1) True assms(2)] True y(1,2)
      by (simp add: nano_insert_character_at_cursor_def NANO_MAX_LINE_LENGTH_def)
  next
    case False
    then have full: "occupied_length ?l = 254" using o by simp
    show ?thesis
    proof (cases "Suc ?y < 1024")
      case True
      let ?m = "n\<lparr>global_cursor_y := ?y + 1, global_cursor_x := 0, active_line_count := active_line_count n + 1\<rparr>"
      have m: "nano_ok ?m" using assms(1) True full
        by (auto simp: nano_ok_def less_Suc_eq)
      have e: "occupied_length (lines ?m ! global_cursor_y ?m) < 254" using assms(1) True by (simp add: nano_ok_def)
      have "content (lines n ! Suc ?y) = []" using assms(1) True by (simp add: nano_ok_def content_def)
      then have t: "doc_text ?m = doc_text n" using y(1,3) True assms(1)
        by (simp add: doc_text_def take_Suc_conv_app_nth nano_ok_def)
      have "length (doc_text n) < NANO_CAPACITY" using len full True by (simp add: NANO_CAPACITY_def)
      then show ?thesis using insert_at_cursor_ok [OF m e assms(2)] t y full True
        by (simp add: nano_insert_character_at_cursor_def NANO_MAX_LINE_LENGTH_def NANO_MAX_TOTAL_LINES_def)
    next
      case False
      then have "?y = 1023" using y(5) by simp
      then have "length (doc_text n) = NANO_CAPACITY" using len full by (simp add: NANO_CAPACITY_def)
      moreover have "nul_free ''ERROR: Maximum document length reached.''" "length ''ERROR: Maximum document length reached.'' < 80"
        by simp_all
      note status_ok [OF this, of n]
      ultimately show ?thesis using y full False nano_ok_status(1) [OF assms(1)]
        by (simp add: nano_insert_character_at_cursor_def NANO_MAX_LINE_LENGTH_def NANO_MAX_TOTAL_LINES_def nano_ok_status(2))
    qed
  qed
qed


lemma stream_ok:
  assumes "nano_ok n" "terminated s" "length (doc_text n) \<le> NANO_CAPACITY"
  shows "\<exists>n'. nano_process_raw_input_stream s n = Inr n' \<and> nano_ok n' \<and>
    doc_text n' = take NANO_CAPACITY (doc_text n @ cstr s) \<and> editor_running_state n' = editor_running_state n"
  using assms
proof (induction s arbitrary: n)
  case (Cons c s)
  show ?case
  proof (cases "c = NUL")
    case False
    from insert_ok [OF Cons.prems(1) False] obtain n1 where
      n1: "nano_insert_character_at_cursor c n = Inr n1" "nano_ok n1" "doc_text n1 = take NANO_CAPACITY (doc_text n @ [c])"
        "editor_running_state n1 = editor_running_state n" by blast
    have s: "terminated s" using Cons.prems(2) False by simp
    have "length (doc_text n1) \<le> NANO_CAPACITY" using n1(3) by simp
    from Cons.IH [OF n1(2) s this] obtain n2 where
      n2: "nano_process_raw_input_stream s n1 = Inr n2" "nano_ok n2"
        "doc_text n2 = take NANO_CAPACITY (doc_text n1 @ cstr s)" "editor_running_state n2 = editor_running_state n1" by blast
    have "take NANO_CAPACITY (doc_text n1 @ cstr s) = take NANO_CAPACITY (doc_text n @ c # cstr s)"
      unfolding n1(3) using Cons.prems(3) by (cases "length (doc_text n) = NANO_CAPACITY") simp_all
    then show ?thesis using n1(1,4) n2 False by simp
  qed (use Cons.prems in simp)
qed simp

section \<open>The screen\<close>

lemma line_prints: "line_ok l \<Longrightarrow> print_buffer (character_data l) = Inr [Print (content l)]"
proof -
  assume l: "line_ok l"
  then have o: "occupied_length l < length (character_data l)" by (simp add: line_ok_def)
  have "character_data l = content l @ character_data l ! occupied_length l # drop (Suc (occupied_length l)) (character_data l)"
    unfolding content_def by (rule id_take_nth_drop [OF o])
  then obtain r where r: "character_data l = content l @ NUL # r" using l by (metis line_ok_def)
  then have "terminated (character_data l)" "cstr (character_data l) = content l"
    using l by (metis terminated_append_NUL, metis cstr_append_NUL line_ok_def)
  then show ?thesis by (simp add: print_buffer_def)
qed

lemma refresh_ok:
  assumes "nano_ok n"
  shows "\<exists>out. nano_force_display_refresh n = Inr out"
proof -
  have c: "active_line_count n \<le> length (lines n)" "\<forall>l \<in> set (lines n). line_ok l" using assms by (auto simp: nano_ok_def)
  have "\<exists>out. render_rows is n = Inr out" for "is"
  proof (induction "is")
    case (Cons i "is")
    have "\<exists>out. (if i < active_line_count n then
              bindE (get (lines n) i) (\<lambda>l.
                if occupied_length l = 0 then Inr [Print (ln '' '')]
                else map_sum id (\<lambda>out. out @ [Print (ln '''')]) (print_buffer (character_data l)))
            else Inr [Print (ln ''~'')]) = (Inr out :: fault + con list)"
      using c by (auto simp: line_prints)
    then show ?case using Cons.IH by auto
  qed simp
  then obtain out where "nano_render_text_viewport n = Inr out" unfolding nano_render_text_viewport_def by blast
  moreover have "terminated (status_message_buffer n)" using assms by (simp add: nano_ok_def)
  ultimately show ?thesis
    by (simp add: nano_force_display_refresh_def nano_render_status_component_def print_buffer_def)
qed

section \<open>A session\<close>

text \<open>The specification: an append-only text; in command mode it can be cleared, left or aborted.\<close>

datatype session = Waiting string | Closed string | Overrun

fun nano_spec :: "bool \<Rightarrow> string list \<Rightarrow> string \<Rightarrow> session" where
  "nano_spec cmd [] t = Waiting t"
| "nano_spec False (l # inp) t =
     (if l = ''exit'' then Closed t
      else if l = ''-cmdnanocmd'' then nano_spec True inp t
      else nano_spec False inp (take NANO_CAPACITY (t @ l)))"
| "nano_spec True (l # inp) t =
     (if l = ''return'' then nano_spec False inp t
      else if l = ''abort'' then Closed t
      else let t = (if l = ''clear'' then [] else t) in
        case inp of [] \<Rightarrow> Waiting t | d # inp \<Rightarrow> if length d < 10 then nano_spec True inp t else Overrun)"

definition fine :: "nano \<Rightarrow> bool" where
  "fine n \<longleftrightarrow> nano_ok n \<and> length (doc_text n) \<le> NANO_CAPACITY"

lemma fine_status: "fine n \<Longrightarrow> terminated st \<Longrightarrow> fine (n\<lparr>status_message_buffer := st\<rparr>)"
  by (simp add: fine_def nano_ok_status)

lemma fine_stop:
  "fine n \<Longrightarrow> fine (n\<lparr>editor_running_state := False\<rparr>)" "doc_text (n\<lparr>editor_running_state := False\<rparr>) = doc_text n"
proof -
  have t: "doc_text (n\<lparr>editor_running_state := False\<rparr>) = doc_text n" by (simp add: doc_text_def)
  then show "doc_text (n\<lparr>editor_running_state := False\<rparr>) = doc_text n" .
  have "nano_ok (n\<lparr>editor_running_state := False\<rparr>) = nano_ok n" by (simp add: nano_ok_def)
  then show "fine n \<Longrightarrow> fine (n\<lparr>editor_running_state := False\<rparr>)" unfolding fine_def t by simp
qed

lemma blank_line_ok: "line_ok blank_line"
  by (simp add: line_ok_def blank_line_def content_def NANO_MAX_LINE_LENGTH_def)

lemma clear_ok:
  assumes "fine n"
  shows "\<exists>n'. nano_subsystem_execute_clear n = Inr n' \<and> fine n' \<and> doc_text n' = [] \<and>
    editor_running_state n' = editor_running_state n"
proof -
  let ?m = "n\<lparr>lines := blank_document, active_line_count := 1, global_cursor_x := 0, global_cursor_y := 0, viewport_offset_y := 0\<rparr>"
  have "nano_ok ?m" using assms blank_line_ok
    by (auto simp: fine_def nano_ok_def blank_document_def NANO_MAX_TOTAL_LINES_def blank_line_def)
  moreover have "doc_text ?m = []"
    by (simp add: doc_text_def blank_document_def NANO_MAX_TOTAL_LINES_def content_def blank_line_def take_replicate)
  moreover have "nul_free ''Buffer wiped clean successfully.''" "length ''Buffer wiped clean successfully.'' < 80" by simp_all
  note status_ok [OF this, of ?m]
  ultimately show ?thesis by (simp add: nano_subsystem_execute_clear_def fine_def nano_ok_status)
qed

lemma stats_ok:
  assumes "fine n"
  shows "\<exists>n'. nano_subsystem_execute_stats n = Inr n' \<and> fine n' \<and> doc_text n' = doc_text n \<and>
    editor_running_state n' = editor_running_state n"
proof -
  let ?msg = "''Total Lines: ACTIVE | Memory: SECURE | Subsystem: ONLINE''"
  let ?b = "?msg @ NUL # drop (Suc (length ?msg)) (replicate NANO_MAX_COLS NUL)"
  have m: "terminated (lit ?msg)" "cstr (lit ?msg) = ?msg" "length (cstr (lit ?msg)) < length (replicate NANO_MAX_COLS NUL)"
    by (simp_all add: NANO_MAX_COLS_def)
  have "nano_sys_strcpy (replicate NANO_MAX_COLS NUL) (lit ?msg) = Inr ?b"
    using nano_sys_strcpy_eq [OF m(1,3)] unfolding m(2) .
  moreover have b: "terminated ?b" "cstr ?b = ?msg" by simp_all
  have "nano_sys_strcpy (replicate NANO_MAX_COLS NUL) ?b = Inr ?b"
    using nano_sys_strcpy_eq [OF b(1), of "replicate NANO_MAX_COLS NUL"] m(3) unfolding b(2) m(2) by blast
  ultimately have "nano_subsystem_execute_stats n = Inr (n\<lparr>status_message_buffer := ?b\<rparr>)"
    by (simp only: nano_subsystem_execute_stats_def nano_set_status_message_def bindE_simps map_sum.simps)
  then show ?thesis using fine_status [OF assms b(1)] nano_ok_status(2) by simp
qed


lemma directive_ok:
  assumes "fine n" "terminated cmd"
  shows "\<exists>out n'. directive cmd n = Inr (out, n') \<and> fine n' \<and> editor_running_state n' = editor_running_state n \<and>
    doc_text n' = (if cstr cmd = ''clear'' then [] else doc_text n)"
proof -
  have cmp: "nano_sys_strcmp cmd (lit w) = Inr (cstr cmd = w)" if "nul_free w" for w
    using nano_sys_strcmp_eq [OF assms(2), of "lit w"] that by simp
  have "nul_free ''File saved to VFS (Simulated).''" "length ''File saved to VFS (Simulated).'' < 80" by simp_all
  note save = status_ok [OF this, of n]
  consider "cstr cmd = ''clear''" | "cstr cmd = ''stats''" | "cstr cmd = ''save''"
    | "cstr cmd \<noteq> ''clear''" "cstr cmd \<noteq> ''stats''" "cstr cmd \<noteq> ''save''" by blast
  then show ?thesis
  proof cases
    case 1
    then show ?thesis using clear_ok [OF assms(1)] by (auto simp: directive_def cmp)
  next
    case 2
    then show ?thesis using stats_ok [OF assms(1)] by (auto simp: directive_def cmp)
  next
    case 3
    then show ?thesis using save fine_status [OF assms(1)] nano_ok_status(2) by (auto simp: directive_def cmp)
  next
    case 4
    then show ?thesis using assms(1) by (simp add: directive_def cmp)
  qed
qed

lemma typed_scan:
  assumes "typed line" "254 < k"
  obtains b where "scan_into k line = Inr b" "terminated b" "cstr b = cstr line" "length b = k"
proof -
  have "fits k line" using assms by (simp add: typed_def fits_def)
  then show thesis by (rule scan_into_eq) (rule that)
qed

lemma dummy_scan: "typed d \<Longrightarrow> if length (cstr d) < 10 then \<exists>b. scan_into 10 d = Inr b else scan_into 10 d = Inl Out_of_bounds"
  using scan_copy_fits [of d "replicate 10 NUL"] scan_copy_overflow [of d "replicate 10 NUL"]
  by (auto simp: scan_into_def typed_def)

text \<open>What the command loop's result means for the specification.\<close>

definition command_matches :: "session \<Rightarrow> fault + (con list \<times> nano \<times> char list list option) \<Rightarrow> bool" where
  "command_matches spec r \<longleftrightarrow>
     (case r of
        Inl f \<Rightarrow> f = Out_of_bounds \<and> spec = Overrun
      | Inr (out, n, None) \<Rightarrow> fine n \<and> spec = Waiting (doc_text n)
      | Inr (out, n, Some rest) \<Rightarrow> fine n \<and> (\<forall>l \<in> set rest. typed l) \<and>
          spec = (if editor_running_state n then nano_spec False (map cstr rest) (doc_text n) else Closed (doc_text n)))"

lemma command_matches_map:
  "command_matches spec (map_sum id (\<lambda>(out, n, r). (o1 @ out, n, r)) r) = command_matches spec r"
  by (cases r) (auto simp: command_matches_def split: option.split)

text \<open>A typed line fits the command buffer, and the editor's comparison with a literal reads it right.\<close>
lemma typed_command:
  assumes "typed line"
  obtains b where "scan_into NANO_MAX_CMD_BUFFER line = Inr b" "terminated b" "cstr b = cstr line"
    "\<And>w. nul_free w \<Longrightarrow> nano_sys_strcmp b (lit w) = Inr (cstr line = w)"
proof -
  have "254 < NANO_MAX_CMD_BUFFER" by (simp add: NANO_MAX_CMD_BUFFER_def)
  with assms obtain b where b: "scan_into NANO_MAX_CMD_BUFFER line = Inr b" "terminated b" "cstr b = cstr line"
    by (rule typed_scan)
  have "nano_sys_strcmp b (lit w) = Inr (cstr line = w)" if "nul_free w" for w
    using nano_sys_strcmp_eq [OF b(2), of "lit w"] that b(3) by simp
  with b show thesis by (rule that)
qed

lemma dispatcher_matches:
  assumes "fine n" "editor_running_state n" "\<forall>l \<in> set inp. typed l"
  shows "command_matches (nano_spec True (map cstr inp) (doc_text n)) (nano_subsystem_terminal_dispatcher inp n)"
  using assms
proof (induction "length inp" arbitrary: inp n rule: less_induct)
  case less
  show ?case
  proof (cases inp)
    case Nil
    then show ?thesis using less.prems by (simp add: command_matches_def)
  next
    case (Cons line rest)
    then have ty: "typed line" "\<forall>l \<in> set rest. typed l" using less.prems(3) by simp_all
    from ty(1) obtain b where b: "scan_into NANO_MAX_CMD_BUFFER line = Inr b" "terminated b" "cstr b = cstr line"
      and cmp: "\<And>w. nul_free w \<Longrightarrow> nano_sys_strcmp b (lit w) = Inr (cstr line = w)" by (rule typed_command) blast
    have "nul_free ''Returned to editor mode.''" "length ''Returned to editor mode.'' < 80" by simp_all
    note st = status_ok [OF this, of n]
    consider (ret) "cstr line = ''return''" | (abort) "cstr line = ''abort''"
      | (other) "cstr line \<noteq> ''return''" "cstr line \<noteq> ''abort''" by blast
    then show ?thesis
    proof cases
      case ret
      then show ?thesis using st less.prems fine_status [OF less.prems(1)] ty(2) b(1)
        by (simp add: Cons cmp command_matches_def nano_ok_status(2))
    next
      case abort
      show ?thesis using fine_stop less.prems(1)
      abort ty(2) b(1) by (simp add: Cons cmp command_matches_def)
    next
      case other
      from directive_ok [OF less.prems(1) b(2)] obtain out m where
        m: "directive b n = Inr (out, m)" "fine m" "editor_running_state m"
          "doc_text m = (if cstr line = ''clear'' then [] else doc_text n)" using less.prems(2) b(3) by auto
      show ?thesis
      proof (cases rest)
        case Nil
        then show ?thesis using other m b(1) by (simp add: Cons cmp command_matches_def)
      next
        case more: (Cons d ds)
        have r: "nano_subsystem_terminal_dispatcher inp n =
            bindE (scan_into 10 d) (\<lambda>_. map_sum id (\<lambda>(out2, n, r). (command_menu @ out @ out2, n, r))
              (nano_subsystem_terminal_dispatcher ds m))"
          using other m(1) b(1) by (simp add: Cons more cmp)
        have s: "nano_spec True (map cstr inp) (doc_text n) =
            (if length (cstr d) < 10 then nano_spec True (map cstr ds) (doc_text m) else Overrun)"
          using other m(4) by (simp add: Cons more Let_def)
        have td: "typed d" "\<forall>l \<in> set ds. typed l" using ty(2) more by simp_all
        show ?thesis
        proof (cases "length (cstr d) < 10")
          case True
          then obtain b2 where "scan_into 10 d = Inr b2" using dummy_scan [OF td(1)] by auto
          then have e: "nano_subsystem_terminal_dispatcher inp n =
              map_sum id (\<lambda>(out2, n, r). ((command_menu @ out) @ out2, n, r)) (nano_subsystem_terminal_dispatcher ds m)"
            unfolding r by simp
          have h: "command_matches (nano_spec True (map cstr ds) (doc_text m)) (nano_subsystem_terminal_dispatcher ds m)"
            by (rule less.hyps [OF _ m(2,3) td(2)]) (simp add: Cons more)
          show ?thesis unfolding e s if_P [OF True] by (subst command_matches_map) (rule h)
        next
          case False
          then have "scan_into 10 d = Inl Out_of_bounds" using dummy_scan [OF td(1)] by simp
          then show ?thesis unfolding r s using False by (simp add: command_matches_def)
        qed
      qed
    qed
  qed
qed

definition session_matches :: "session \<Rightarrow> fault + (con list \<times> nano \<times> bool) \<Rightarrow> bool" where
  "session_matches spec r \<longleftrightarrow>
     (case spec of
        Waiting t \<Rightarrow> \<exists>out n. r = Inr (out, n, True) \<and> doc_text n = t \<and> fine n
      | Closed t \<Rightarrow> \<exists>out n. r = Inr (out, n, False) \<and> doc_text n = t \<and> fine n
      | Overrun \<Rightarrow> r = Inl Out_of_bounds)"

lemma session_matches_map:
  "session_matches spec r \<Longrightarrow> session_matches spec (map_sum id (\<lambda>(out, r). (o1 @ out, r)) r)"
  by (cases r) (auto simp: session_matches_def split: session.splits)


text \<open>What the dispatcher returns to the loop: a fault, the end of the input, or the lines still to serve.\<close>
lemma dispatcher_then_loop:
  assumes d: "command_matches spec d"
    and hyp: "\<And>out m rest. d = Inr (out, m, Some rest) \<Longrightarrow> fine m \<Longrightarrow> editor_running_state m \<Longrightarrow>
      \<forall>l \<in> set rest. typed l \<Longrightarrow> session_matches (nano_spec False (map cstr rest) (doc_text m)) (nano_loop rest m)"
  shows "session_matches spec
    (case d of
       Inl f \<Rightarrow> Inl f
     | Inr (out2, n, None) \<Rightarrow> Inr (out @ out2, n, True)
     | Inr (out2, n, Some rest) \<Rightarrow> map_sum id (\<lambda>(out3, r). (out @ out2 @ out3, r)) (nano_loop rest n))"
proof (cases d)
  case (Inl f)
  then show ?thesis using d by (simp add: command_matches_def session_matches_def)
next
  case (Inr x)
  obtain out2 m q where x: "x = (out2, m, q)" by (metis prod_cases3)
  show ?thesis
  proof (cases q)
    case None
    then show ?thesis using d by (auto simp: Inr x command_matches_def session_matches_def)
  next
    case (Some rest)
    have m: "fine m" "\<forall>l \<in> set rest. typed l"
      "spec = (if editor_running_state m then nano_spec False (map cstr rest) (doc_text m) else Closed (doc_text m))"
      using d by (auto simp: Inr x Some command_matches_def)
    show ?thesis
    proof (cases "editor_running_state m")
      case True
      from session_matches_map [OF hyp [OF _ m(1) True m(2)], of out2 "out @ out2"] True
      show ?thesis by (simp add: Inr x Some m(3))
    next
      case False
      then show ?thesis using m(1) by (simp add: Inr x Some m(3) nano_loop.simps session_matches_def)
    qed
  qed
qed

text \<open>A line of text is appended, up to the capacity of the document.\<close>
lemma text_line_ok:
  assumes "fine n" "editor_running_state n" "terminated b"
  obtains m where "(if b ! 0 \<noteq> NUL then nano_process_raw_input_stream b n else Inr n) = Inr m" "fine m"
    "doc_text m = take NANO_CAPACITY (doc_text n @ cstr b)" "editor_running_state m"
proof (cases "b ! 0 = NUL")
  case True
  have "b \<noteq> []" using assms(3) by auto
  then have "cstr b = []" using True by (cases b) auto
  then show thesis using that [of n] True assms(1,2) by (simp add: fine_def)
next
  case False
  have "nano_ok n" "length (doc_text n) \<le> NANO_CAPACITY" using assms(1) by (simp_all add: fine_def)
  from stream_ok [OF this(1) assms(3) this(2)] False show thesis using assms(2) by (auto simp: fine_def intro: that)
qed

lemma nano_loop_matches:
  assumes "fine n" "editor_running_state n" "\<forall>l \<in> set inp. typed l"
  shows "session_matches (nano_spec False (map cstr inp) (doc_text n)) (nano_loop inp n)"
  using assms
proof (induction "length inp" arbitrary: inp n rule: less_induct)
  case less
  from refresh_ok obtain screen where screen: "nano_force_display_refresh n = Inr screen"
    using less.prems(1) by (auto simp: fine_def)
  let ?out = "screen @ [Print (newline # ''[INPUT]> '')]"
  have stop: "nano_loop rest m = Inr ([Cls], m, False)" if "\<not> editor_running_state m" for rest m
    using that by (simp add: nano_loop.simps)
  show ?case
  proof (cases inp)
    case Nil
    then show ?thesis using less.prems screen by (simp add: nano_loop.simps session_matches_def)
  next
    case (Cons line rest)
    then have ty: "typed line" "\<forall>l \<in> set rest. typed l" using less.prems(3) by simp_all
    from ty(1) obtain b where b: "scan_into NANO_MAX_CMD_BUFFER line = Inr b" "terminated b" "cstr b = cstr line"
      and cmp: "\<And>w. nul_free w \<Longrightarrow> nano_sys_strcmp b (lit w) = Inr (cstr line = w)" by (rule typed_command) blast
    consider (exit) "cstr line = ''exit''" | (cmd) "cstr line = ''-cmdnanocmd''"
      | (other) "cstr line \<noteq> ''exit''" "cstr line \<noteq> ''-cmdnanocmd''" by blast
    then show ?thesis
    proof cases
      case exit
      let ?m = "n\<lparr>editor_running_state := False\<rparr>"
      have "nano_loop inp n = map_sum id (\<lambda>(out2, r). (?out @ out2, r)) (nano_loop rest ?m)"
        using exit less.prems(2) screen b(1) by (subst nano_loop.simps) (simp add: Cons cmp Let_def)
      moreover have "fine ?m" "doc_text ?m = doc_text n" using fine_stop less.prems(1) by simp_all
      ultimately show ?thesis using exit by (simp add: Cons stop session_matches_def)
    next
      case cmd
      have s: "nano_spec False (map cstr inp) (doc_text n) = nano_spec True (map cstr rest) (doc_text n)"
        using cmd by (simp add: Cons)
      have r: "nano_loop inp n =
          (case nano_subsystem_terminal_dispatcher rest n of
             Inl f \<Rightarrow> Inl f
           | Inr (out2, n, None) \<Rightarrow> Inr (?out @ out2, n, True)
           | Inr (out2, n, Some rest) \<Rightarrow> map_sum id (\<lambda>(out3, r). (?out @ out2 @ out3, r)) (nano_loop rest n))"
        using cmd less.prems(2) screen b(1) by (subst nano_loop.simps) (simp add: Cons cmp Let_def)
      show ?thesis unfolding r
      proof (rule dispatcher_then_loop [OF dispatcher_matches [OF less.prems(1,2) ty(2), folded s]])
        fix out m rest2
        assume q: "nano_subsystem_terminal_dispatcher rest n = Inr (out, m, Some rest2)" "fine m" "editor_running_state m"
          "\<forall>l \<in> set rest2. typed l"
        have "length rest2 < length inp" using dispatcher_uses_lines [of rest n out m rest2] q(1) Cons by simp
        from less.hyps [OF this q(2-4)]
        show "session_matches (nano_spec False (map cstr rest2) (doc_text m)) (nano_loop rest2 m)" .
      qed
    next
      case other
      from text_line_ok [OF less.prems(1,2) b(2)] obtain m where
        m: "(if b ! 0 \<noteq> NUL then nano_process_raw_input_stream b n else Inr n) = Inr m" "fine m"
          "doc_text m = take NANO_CAPACITY (doc_text n @ cstr line)" "editor_running_state m" unfolding b(3) .
      have "nano_loop inp n = map_sum id (\<lambda>(out2, r). (?out @ out2, r)) (nano_loop rest m)"
        using other less.prems(2) screen b(1) m(1) by (subst nano_loop.simps) (simp add: Cons cmp Let_def)
      moreover have "nano_spec False (map cstr inp) (doc_text n) = nano_spec False (map cstr rest) (doc_text m)"
        using other m(3) by (simp add: Cons)
      moreover have "length rest < length inp" by (simp add: Cons)
      ultimately show ?thesis using less.hyps [OF _ m(2,4) ty(2)] session_matches_map by metis
    qed
  qed
qed

text \<open>
  C31: a nano session refines an append-only text.  For any lines typed, the editor never accesses memory out of bounds
  while editing: what is typed is appended to the text up to 1024 lines of 254 characters and dropped beyond, and
  \<open>exit\<close>, \<open>return\<close>, \<open>abort\<close> and \<open>clear\<close> act as specified; it overruns a buffer exactly when a
  line of ten or more characters answers one of the \<open>Press any key\<close> prompts.
\<close>
theorem nano_session_refines_text:
  assumes "\<forall>l \<in> set inp. typed l"
  shows "case nano_spec False (map cstr inp) [] of
      Waiting t \<Rightarrow> \<exists>out n. execute_nano_terminal_simulator inp = Inr (out, n, True) \<and> doc_text n = t \<and> nano_ok n
    | Closed t \<Rightarrow> \<exists>out n. execute_nano_terminal_simulator inp = Inr (out, n, False) \<and> doc_text n = t \<and> nano_ok n
    | Overrun \<Rightarrow> execute_nano_terminal_simulator inp = Inl Out_of_bounds"
proof -
  let ?msg = "''System Initialized. Awaiting Input.''"
  have "terminated (lit ?msg)" "length (cstr (lit ?msg)) < length (replicate NANO_MAX_COLS NUL)"
    by (simp_all add: NANO_MAX_COLS_def)
  from nano_sys_strcpy_eq [OF this] obtain st where
    st: "nano_sys_strcpy (replicate NANO_MAX_COLS NUL) (lit ?msg) = Inr st" "terminated st" by simp
  let ?n = "\<lparr>lines = blank_document, active_line_count = 1, global_cursor_x = 0, global_cursor_y = 0,
         viewport_offset_y = 0, document_modified_flag = False, editor_running_state = True, status_message_buffer = st\<rparr>"
  have "nano_ok ?n" using blank_line_ok st(2)
    by (auto simp: nano_ok_def blank_document_def NANO_MAX_TOTAL_LINES_def blank_line_def)
  moreover have t: "doc_text ?n = []"
    by (simp add: doc_text_def blank_document_def NANO_MAX_TOTAL_LINES_def content_def blank_line_def take_replicate)
  ultimately have "fine ?n" "editor_running_state ?n" by (simp_all add: fine_def)
  from nano_loop_matches [OF this assms] show ?thesis
    using st(1) unfolding t
    by (auto simp: execute_nano_terminal_simulator_def nano_context_hard_reset_def session_matches_def fine_def
      split: session.splits)
qed

theorem nano_session_refines_text_witness:
  "(\<exists>out n. execute_nano_terminal_simulator (map lit [''hello '', ''world'', ''-cmdnanocmd'', ''save'', ''k'', ''return'', ''exit''])
      = Inr (out, n, False) \<and> doc_text n = ''hello world'') \<and>
   execute_nano_terminal_simulator (map lit [''-cmdnanocmd'', ''save'', ''0123456789'']) = Inl Out_of_bounds"
proof -
  let ?a = "map lit [''hello '', ''world'', ''-cmdnanocmd'', ''save'', ''k'', ''return'', ''exit'']"
  let ?b = "map lit [''-cmdnanocmd'', ''save'', ''0123456789'']"
  have "nano_spec False (map cstr ?a) [] = Closed ''hello world''" "nano_spec False (map cstr ?b) [] = Overrun"
    by (simp_all add: NANO_CAPACITY_def)
  then show ?thesis using nano_session_refines_text [of ?a] nano_session_refines_text [of ?b] by auto
qed


section \<open>notepad\<close>

definition notepad_ok :: "notepad_buffer \<Rightarrow> bool" where
  "notepad_ok p \<longleftrightarrow> length (text_storage p) = 100 \<and> line_count p \<le> 100 \<and>
     (\<forall>b \<in> set (text_storage p). length b = 128 \<and> terminated b)"

definition note_list :: "notepad_buffer \<Rightarrow> string list" where
  "note_list p = map cstr (take (line_count p) (text_storage p))"

lemma print_lines_ok: "\<forall>b \<in> set bs. terminated b \<Longrightarrow> \<exists>out. print_lines bs = Inr out"
  by (induction bs) (auto simp: print_buffer_def)

lemma refresh_screen_ok:
  assumes "notepad_ok p"
  shows "\<exists>out. refresh_screen p = Inr out"
proof -
  have "\<forall>b \<in> set (take (line_count p) (text_storage p)). terminated b"
    using assms by (auto simp: notepad_ok_def dest: in_set_takeD)
  from print_lines_ok [OF this] show ?thesis by (auto simp: refresh_screen_def)
qed

lemma copy_line_eq:
  "terminated src \<Longrightarrow> n < length dest \<Longrightarrow>
   fs_strcpy_loop n dest src = Inr (take n (cstr src) @ NUL # drop (Suc (min n (length (cstr src)))) dest)"
proof (induction n dest src rule: fs_strcpy_loop.induct)
  case (3 n d dest c src)
  show ?case
  proof (cases "c \<noteq> NUL \<and> 0 < n")
    case True
    then obtain m where "n = Suc m" by (cases n) auto
    with 3 True show ?thesis by simp
  qed (use 3 in auto)
qed simp_all

lemma store_line_ok:
  assumes "notepad_ok p" "terminated input"
  shows "\<exists>out p'. store_line input p = Inr (out, p') \<and> notepad_ok p' \<and>
    note_list p' = (if length (note_list p) < 100 then note_list p @ [take 127 (cstr input)] else note_list p)"
proof -
  have l: "length (text_storage p) = 100" "line_count p \<le> 100" "length (note_list p) = line_count p"
    using assms(1) by (simp_all add: notepad_ok_def note_list_def)
  show ?thesis
  proof (cases "line_count p < 100")
    case False
    then show ?thesis using assms(1) l by (simp add: store_line_def MAX_LINES_def)
  next
    case True
    let ?dest = "text_storage p ! line_count p"
    have d: "length ?dest = 128" using assms(1) True by (simp add: notepad_ok_def)
    let ?b = "take 127 (cstr input) @ NUL # drop (Suc (min 127 (length (cstr input)))) ?dest"
    have b: "fs_strcpy_loop 127 ?dest input = Inr ?b" using copy_line_eq [OF assms(2), of 127 ?dest] d by simp
    have lb: "length ?b = 128" "terminated ?b" "cstr ?b = take 127 (cstr input)" using d by (simp_all add: min_def)
    let ?p = "p\<lparr>text_storage := (text_storage p)[line_count p := ?b], line_count := line_count p + 1\<rparr>"
    have p: "notepad_ok ?p" using assms(1) True lb(1,2)
      by (auto simp: notepad_ok_def dest!: set_update_subset_insert [THEN subsetD])
    have "note_list ?p = note_list p @ [take 127 (cstr input)]"
      using True l(1) lb(3) by (simp add: note_list_def take_Suc_conv_app_nth)
    moreover obtain out where "refresh_screen ?p = Inr out" using refresh_screen_ok [OF p] ..
    ultimately show ?thesis using True l b p by (simp add: store_line_def MAX_LINES_def LINE_LEN_def Let_def)
  qed
qed


text \<open>A session with lines that fit: the notes are the lines that are no commands, at most 100 of them.\<close>

definition reads_name :: "string \<Rightarrow> bool" where
  "reads_name l \<longleftrightarrow> l = ''/mkdir'' \<or> l = ''/cd''"

definition only_shows :: "string \<Rightarrow> bool" where
  "only_shows l \<longleftrightarrow> l = ''/v'' \<or> l = ''/ls'' \<or> l = ''/pwd''"

definition quits :: "string \<Rightarrow> bool" where
  "quits l \<longleftrightarrow> l = ''/q''"

fun inputs_fit :: "char list list \<Rightarrow> bool" where
  "inputs_fit [] \<longleftrightarrow> True"
| "inputs_fit (l # inp) \<longleftrightarrow> fits 128 l \<and>
     (if reads_name (cstr l) then (case inp of [] \<Rightarrow> True | nm # inp \<Rightarrow> fits 32 nm \<and> inputs_fit inp) else inputs_fit inp)"

fun notes_spec :: "string list \<Rightarrow> string list \<Rightarrow> string list" where
  "notes_spec [] n = n"
| "notes_spec (l # inp) n =
     (if quits l then n
      else if only_shows l then notes_spec inp n
      else if reads_name l then (case inp of [] \<Rightarrow> n | nm # inp \<Rightarrow> notes_spec inp n)
      else notes_spec inp (if length n < 100 then n @ [l] else n))"

definition notes_result :: "string list \<Rightarrow> fault + (con list \<times> (notepad_buffer \<times> vfs)) \<Rightarrow> bool" where
  "notes_result n r \<longleftrightarrow> (\<exists>out p v. r = Inr (out, (p, v)) \<and> notepad_ok p \<and> vfs_inv v \<and> note_list p = n)"

lemma then_out_ok:
  assumes "m = Inr (out, (p, v))" "notes_result n (f (p, v))"
  shows "notes_result n (then_out m f)"
  using assms by (auto simp: notes_result_def then_out_def)

lemma pwd_ok: "vfs_inv v \<Longrightarrow> \<exists>out. pwd v = Inr out"
proof -
  assume v: "vfs_inv v"
  then have "dir_at (storage v) (current_dir v)" by (simp add: vfs_inv_def rooted_dir)
  then have "current_dir v < length (storage v)" "is_used (storage v ! current_dir v)" by (simp_all add: dir_at_def)
  moreover from this v have "terminated (node_name (storage v ! current_dir v))" by (simp add: vfs_inv_def node_ok_def)
  ultimately show ?thesis by (simp add: pwd_def)
qed

text \<open>One round of the notepad, by the kind of the line.\<close>

lemma notepad_rounds:
  assumes "scan_into 128 line = Inr b" "cstr b = cstr line" "terminated b"
  shows "quits (cstr line) \<Longrightarrow> notepad_loop (line # inp) (p, v) = Inr ([], (p, v))"
    and "reads_name (cstr line) \<Longrightarrow> notepad_loop [line] (p, v) = Inr ([], (p, v))"
    and "reads_name (cstr line) \<Longrightarrow> notepad_loop (line # nm # inp) (p, v) =
      then_out (map_sum id (\<lambda>(out, v). (out, (p, v))) (if cstr line = ''/mkdir'' then mkdir nm v else cd nm v)) (notepad_loop inp)"
    and "\<not> reads_name (cstr line) \<Longrightarrow> \<not> quits (cstr line) \<Longrightarrow> \<not> only_shows (cstr line) \<Longrightarrow>
      notepad_loop (line # inp) (p, v) = then_out (map_sum id (\<lambda>(out, p). (out, (p, v))) (store_line b p)) (notepad_loop inp)"
  using assms by (auto simp: LINE_LEN_def Let_def reads_name_def only_shows_def quits_def)

lemma shown: "only_shows l \<Longrightarrow> \<not> reads_name l"
  by (auto simp: only_shows_def reads_name_def)

lemma notepad_shows:
  assumes "scan_into 128 line = Inr b" "cstr b = cstr line" "terminated b" "only_shows (cstr line)" "notepad_ok p" "vfs_inv v"
  obtains out where "notepad_loop (line # inp) (p, v) = then_out (Inr (out, (p, v))) (notepad_loop inp)"
proof -
  obtain o1 where o1: "refresh_screen p = Inr o1" using refresh_screen_ok assms(5) by blast
  obtain o2 where o2: "pwd v = Inr o2" using pwd_ok assms(6) by blast
  have "\<exists>out. notepad_loop (line # inp) (p, v) = then_out (Inr (out, (p, v))) (notepad_loop inp)"
    using assms(1-4) o1 o2 by (auto simp: LINE_LEN_def Let_def only_shows_def)
  then show thesis using that by blast
qed

lemma notepad_names:
  assumes "vfs_inv v" "fits 32 nm"
  obtains out v' where "(if c = ''/mkdir'' then mkdir nm v else cd nm v) = Inr (out, v')" "vfs_inv v'"
  using mkdir_inv [OF assms] cd_inv [OF assms] that by (cases "c = ''/mkdir''") auto

lemma notepad_loop_ok:
  assumes "notepad_ok p" "vfs_inv v" "inputs_fit inp"
  shows "notes_result (notes_spec (map cstr inp) (note_list p)) (notepad_loop inp (p, v))"
  using assms
proof (induction "length inp" arbitrary: inp p v rule: less_induct)
  case less
  show ?case
  proof (cases inp)
    case Nil
    then show ?thesis using less.prems by (simp add: notes_result_def)
  next
    case (Cons line rest)
    then have fl: "fits 128 line" using less.prems(3) by simp
    then obtain b where b: "scan_into 128 line = Inr b" "terminated b" "cstr b = cstr line" by (rule scan_into_eq)
    note rounds = notepad_rounds [OF b(1,3,2)]
    let ?c = "cstr line"
    have len: "length rest < length inp" by (simp add: Cons)
    consider (quit) "quits ?c" | (show_it) "only_shows ?c" "\<not> quits ?c" "\<not> reads_name ?c"
      | (named) "reads_name ?c" "\<not> quits ?c" "\<not> only_shows ?c"
      | (note_it) "\<not> reads_name ?c" "\<not> quits ?c" "\<not> only_shows ?c" using shown [of ?c] by blast
    then show ?thesis
    proof cases
      case quit
      then show ?thesis using less.prems rounds(1) by (simp add: Cons notes_result_def del: notepad_loop.simps)
    next
      case show_it
      from notepad_shows [OF b(1,3,2) show_it(1) less.prems(1,2)] obtain out where
        r: "notepad_loop inp (p, v) = then_out (Inr (out, (p, v))) (notepad_loop rest)" unfolding Cons .
      have s: "notes_spec (map cstr inp) (note_list p) = notes_spec (map cstr rest) (note_list p)" "inputs_fit rest"
        using show_it less.prems(3) by (simp_all add: Cons)
      show ?thesis unfolding r s(1) by (rule then_out_ok [OF refl]) (rule less.hyps [OF len less.prems(1,2) s(2)])
    next
      case named
      show ?thesis
      proof (cases rest)
        case Nil
        then show ?thesis using named less.prems rounds(2) by (simp add: Cons notes_result_def del: notepad_loop.simps)
      next
        case more: (Cons nm ds)
        have f: "fits 32 nm" "inputs_fit ds" "length ds < length inp" using less.prems(3) named by (simp_all add: Cons more)
        obtain out v' where v': "(if ?c = ''/mkdir'' then mkdir nm v else cd nm v) = Inr (out, v')" "vfs_inv v'"
          by (rule notepad_names [OF less.prems(2) f(1)])
        have s: "notes_spec (map cstr (line # nm # ds)) (note_list p) = notes_spec (map cstr ds) (note_list p)"
          using named by simp
        show ?thesis unfolding Cons more rounds(3) [OF named(1)] v'(1) s
          by (rule then_out_ok) (simp, rule less.hyps [OF f(3) less.prems(1) v'(2) f(2)])
      qed
    next
      case note_it
      from store_line_ok [OF less.prems(1) b(2)] obtain out p' where
        p': "store_line b p = Inr (out, p')" "notepad_ok p'"
          "note_list p' = (if length (note_list p) < 100 then note_list p @ [take 127 (cstr b)] else note_list p)" by blast
      have "take 127 (cstr b) = ?c" using fl b(3) by (simp add: fits_def)
      then have s: "notes_spec (map cstr (line # rest)) (note_list p) = notes_spec (map cstr rest) (note_list p')" "inputs_fit rest"
        using note_it p'(3) less.prems(3) by (simp_all add: Cons)
      show ?thesis unfolding Cons rounds(4) [OF note_it] p'(1) s(1)
        by (rule then_out_ok) (simp, rule less.hyps [OF len p'(2) less.prems(2) s(2)])
    qed
  qed
qed

text \<open>A whole session: the notes are the typed lines that are no commands, and the file tree stays sound.\<close>

lemma notepad_session:
  assumes "inputs_fit inp" "vfs_inv v" "length st = 100" "\<forall>b \<in> set st. length b = 128"
  shows "notes_result (notes_spec (map cstr inp) []) (run_notepad inp st v)"
proof -
  have "\<exists>bs. foldE (\<lambda>i bufs. bindE (get bufs i) (\<lambda>b. bindE (put b 0 NUL) (\<lambda>b. put bufs i b))) [0..<n] st = Inr bs \<and>
      length bs = 100 \<and> (\<forall>b \<in> set bs. length b = 128) \<and> (\<forall>i < n. terminated (bs ! i))" if "n \<le> 100" for n
    using that
  proof (induction n)
    case (Suc n)
    then obtain bs where bs: "foldE (\<lambda>i bufs. bindE (get bufs i) (\<lambda>b. bindE (put b 0 NUL) (\<lambda>b. put bufs i b))) [0..<n] st = Inr bs"
      "length bs = 100" "\<forall>b \<in> set bs. length b = 128" "\<forall>i < n. terminated (bs ! i)" by auto
    let ?b = "(bs ! n)[0 := NUL]"
    have n: "n < length bs" "0 < length (bs ! n)" using Suc.prems bs(2,3) by simp_all
    then have "terminated ?b" by (auto simp: terminated_def intro: set_update_memI)
    then show ?case using bs n
      by (auto simp: foldE_append nth_list_update less_Suc_eq dest!: set_update_subset_insert [THEN subsetD])
  qed (use assms in auto)
  from this [of MAX_LINES] obtain bs where
    bs: "foldE (\<lambda>i bufs. bindE (get bufs i) (\<lambda>b. bindE (put b 0 NUL) (\<lambda>b. put bufs i b))) [0..<MAX_LINES] st = Inr bs"
      "length bs = 100" "\<forall>b \<in> set bs. length b = 128" "\<forall>i < 100. terminated (bs ! i)" by (auto simp: MAX_LINES_def)
  let ?p = "\<lparr>text_storage = bs, line_count = 0\<rparr>"
  have p: "notepad_ok ?p" "note_list ?p = []" using bs by (auto simp: notepad_ok_def note_list_def in_set_conv_nth)
  obtain out where out: "refresh_screen ?p = Inr out" using refresh_screen_ok [OF p(1)] ..
  have r: "run_notepad inp st v = then_out (Inr (out, (?p, v))) (notepad_loop inp)" using bs(1) out by (simp add: run_notepad_def Let_def)
  show ?thesis unfolding r
    by (rule then_out_ok [OF refl]) (use notepad_loop_ok [OF p(1) assms(2,1)] p(2) in simp)
qed

end
