(* ===== verification/WX_Vm.thy ===== *)
theory WX_Vm
  imports WX_Malloc WX_Kernel
begin

text \<open>
  The byte-code machine of \<open>vm.h\<close>, the system calls of \<open>Kernel.c\<close> and \<open>esysc.h\<close>.  A \<open>VMState\<close> lives in
  the heap, in the 148 bytes that \<open>vm_create\<close> allocates: sixteen 64-bit registers, the 64-bit program
  counter at offset 128, \<open>running\<close> at 136, \<open>mem_size\<close> at 140 and \<open>ram\<close> at 144.  Pointers into the heap are
  offsets into \<open>memory_heap\<close>; the null pointer is \<open>None\<close>, and 0 when it is stored (no payload starts
  at offset 0).  The loop of \<open>vm_run\<close> may run for ever: \<open>None\<close> is the call that does not return.
\<close>

section \<open>64-bit fields in the heap\<close>

definition un64 :: "u32 \<Rightarrow> u32 \<Rightarrow> u64" where
  "un64 lo hi = ucast lo OR push_bit 32 (ucast hi)"

definition le64 :: "u64 \<Rightarrow> u8 list" where
  "le64 w = le32 (ucast w) @ le32 (ucast (drop_bit 32 w))"

definition read64 :: "u8 list \<Rightarrow> nat \<Rightarrow> fault + u64" where
  "read64 h i = bindE (read32 h i) (\<lambda>lo. bindE (read32 h (i + 4)) (\<lambda>hi. Inr (un64 lo hi)))"

definition write64 :: "u8 list \<Rightarrow> nat \<Rightarrow> u64 \<Rightarrow> fault + u8 list" where
  "write64 h i w = write_range h i (le64 w)"

section \<open>The kernel with its heap\<close>

text \<open>\<open>first_ram\<close> is the flag \<open>first\<close> of \<open>malloc.h\<close>.\<close>

record heap_kernel = kernel +
  memory_heap :: "u8 list"
  first_ram :: bool

type_synonym 'z hres = "(fault \<times> 'z heap_kernel_scheme) + 'z heap_kernel_scheme"

text \<open>Sequencing of operations that may not return.\<close>

definition bindP :: "('e + 'a) option \<Rightarrow> ('a \<Rightarrow> ('e + 'b) option) \<Rightarrow> ('e + 'b) option" where
  "bindP m f = (case m of None \<Rightarrow> None | Some (Inl e) \<Rightarrow> Some (Inl e) | Some (Inr x) \<Rightarrow> f x)"

lemma bindP_simps [simp]:
  "bindP None f = None" "bindP (Some (Inl e)) f = Some (Inl e)" "bindP (Some (Inr x)) f = f x"
  by (simp_all add: bindP_def)

definition heap_get :: "(u8 list \<Rightarrow> fault + 'a) \<Rightarrow> 'z heap_kernel_scheme \<Rightarrow> ((fault \<times> 'z heap_kernel_scheme) + 'a) option"
  where "heap_get f k = Some (k_lift k (f (memory_heap k)))"

definition heap_do :: "(u8 list \<Rightarrow> fault + u8 list) \<Rightarrow> 'z heap_kernel_scheme \<Rightarrow> 'z hres option" where
  "heap_do f k = Some (map_sum (\<lambda>e. (e, k)) (\<lambda>h. k\<lparr>memory_heap := h\<rparr>) (f (memory_heap k)))"

definition k_malloc ::
  "u32 \<Rightarrow> 'z heap_kernel_scheme \<Rightarrow> ((fault \<times> 'z heap_kernel_scheme) + u32 option \<times> 'z heap_kernel_scheme) option" where
  "k_malloc n k =
     map_option (map_sum (\<lambda>e. (e, k)) (\<lambda>(p, h).
       (p, if p = None then emit (Print (ln ''Not available RAM!'') # notgud) (k\<lparr>memory_heap := h\<rparr>)
           else k\<lparr>memory_heap := h\<rparr>))) (whitex_malloc n (memory_heap k))"

section \<open>System calls\<close>

definition help_cmd :: "'z kernel_scheme \<Rightarrow> 'z kernel_scheme" where
  "help_cmd k = emit
     [Print (newline # ln ''--- WHITEX  ---''),
      Print (ln ''uname, reboot, shutdown, panic, ls, mkdir, cd, pwd, initfs, sddshell, hexdump, cpuid, ram, htop, top, telemetry, ntask, ps, kill, internet, ping, msgsend, msgrecv, sudo, kiskrnl, notepad, nano, song, echo, pkg, calc, lcreset, time, fortune, logo, cls''),
      Print (ln ''---------------------------'')] k"

definition ram :: "'z heap_kernel_scheme \<Rightarrow> 'z hres option" where
  "ram k = map_option (map_sum (\<lambda>e. (e, k)) (\<lambda>(out, f, h). emit out (k\<lparr>memory_heap := h, first_ram := f\<rparr>)))
     (ram_cmd (first_ram k) (memory_heap k))"

definition count_cycle :: "'z kernel_scheme \<Rightarrow> 'z kernel_scheme" where
  "count_cycle = set_env (\<lambda>e. e\<lparr>execution_cycles := execution_cycles e + 1\<rparr>)"

definition SYS_HELP :: u64 where "SYS_HELP = 1"
definition SYS_RAM :: u64 where "SYS_RAM = 18"

definition execute_syscall :: "u32 option \<Rightarrow> u64 \<Rightarrow> 'z heap_kernel_scheme \<Rightarrow> 'z hres option" where
  "execute_syscall vm syscall_id k0 =
     bindP (Some (sys_verify_integrity k0)) (\<lambda>k.
     if memory_guard (g_env k) = 0 \<or> isolation_active (g_env k) = 0 then
       if syscall_id = SYS_HELP then Some (Inr (count_cycle (help_cmd k)))
       else if syscall_id = SYS_RAM then bindP (ram k) (\<lambda>k. Some (Inr (count_cycle k)))
       else Some (Inr k)
     else if vm = None \<or> fault_detected (g_env k) \<noteq> 0 then
       Some (sys_panic ''ERR_SYSCALL_VIOLATION_INVALID_CONTEXT'' k)
     else
       if syscall_id = SYS_HELP then Some (Inr (count_cycle (help_cmd k)))
       else if syscall_id = SYS_RAM then bindP (ram k) (\<lambda>k. Some (Inr (count_cycle k)))
       else Some (bindE (k_log 2 (lit ''INVALID_SYSCALL_EXECUTION_ATTEMPT'') k) (\<lambda>k.
              Inr (emit [Print (ln ''Invalid system call.'')] k))))"

section \<open>The machine\<close>

text \<open>Size of \<open>VMState\<close> and the offsets of its fields (registers first).\<close>

definition VM_SIZE :: u32 where "VM_SIZE = 148"
definition REG :: "u32 \<Rightarrow> nat \<Rightarrow> nat" where "REG p i = unat p + 8 * i"
definition PC :: "u32 \<Rightarrow> nat" where "PC p = unat p + 128"
definition RUNNING :: "u32 \<Rightarrow> nat" where "RUNNING p = unat p + 136"
definition MEM_SIZE :: "u32 \<Rightarrow> nat" where "MEM_SIZE p = unat p + 140"
definition RAM :: "u32 \<Rightarrow> nat" where "RAM p = unat p + 144"

lemmas vm_offsets = REG_def PC_def RUNNING_def MEM_SIZE_def RAM_def

text \<open>The loop that clears the registers.\<close>

definition clear_registers :: "u32 \<Rightarrow> u8 list \<Rightarrow> fault + u8 list" where
  "clear_registers p = foldE (\<lambda>i h. write64 h (REG p i) 0) [0..<16]"

definition vm_create ::
  "u32 \<Rightarrow> 'z heap_kernel_scheme \<Rightarrow> ((fault \<times> 'z heap_kernel_scheme) + u32 option \<times> 'z heap_kernel_scheme) option" where
  "vm_create n k =
     bindP (k_malloc VM_SIZE k) (\<lambda>(vm, k).
       case vm of
         None \<Rightarrow> Some (Inr (None, k))
       | Some p \<Rightarrow>
           bindP (k_malloc n k) (\<lambda>(r, k).
           bindP (heap_do (\<lambda>h. write32 h (RAM p) (case r of None \<Rightarrow> 0 | Some a \<Rightarrow> a)) k) (\<lambda>k.
             if r = None then bindP (heap_do (whitex_free (Some p)) k) (\<lambda>k. Some (Inr (None, k)))
             else
               bindP (heap_do (\<lambda>h. bindE (write64 h (PC p) 0) (\<lambda>h. bindE (write32 h (RUNNING p) 0) (\<lambda>h.
                   bindE (write32 h (MEM_SIZE p) n) (clear_registers p)))) k) (\<lambda>k.
               Some (Inr (Some p, k))))))"

text \<open>
  One round of the loop of \<open>vm_run\<close>: the instruction is fetched from \<open>ram + pc\<close> without a check of the
  program counter, so a fetch beyond the heap is an access out of bounds.
\<close>

definition vm_round :: "u32 \<Rightarrow> 'z heap_kernel_scheme \<Rightarrow> 'z hres option" where
  "vm_round p k =
     bindP (heap_get (\<lambda>h. read32 h (RAM p)) k) (\<lambda>r.
     bindP (heap_get (\<lambda>h. read64 h (PC p)) k) (\<lambda>pc.
     bindP (heap_get (\<lambda>h. read64 h (unat (r + ucast pc))) k) (\<lambda>instruction.
     bindP (heap_do (\<lambda>h. write64 h (PC p) (pc + 8)) k) (\<lambda>k.
       let opcode = drop_bit 56 instruction AND 0xFF;
           arg1 = drop_bit 48 instruction AND 0xFF;
           arg2 = ucast (instruction AND 0xFFFFFFFF) :: u32
       in if opcode = 0xCC then execute_syscall (Some p) arg1 k
          else if opcode = 0x01 then
            (if arg1 < 16 then heap_do (\<lambda>h. write64 h (REG p (unat arg1)) (ucast arg2)) k else Some (Inr k))
          else if opcode = 0x0C then heap_do (\<lambda>h. write64 h (PC p) (ucast arg2)) k
          else heap_do (\<lambda>h. write32 h (RUNNING p) 0) k))))"

partial_function (option) vm_loop :: "u32 \<Rightarrow> 'z heap_kernel_scheme \<Rightarrow> 'z hres option" where
  "vm_loop p k =
     (case read32 (memory_heap k) (RUNNING p) of
        Inl e \<Rightarrow> Some (Inl (e, k))
      | Inr r \<Rightarrow>
          if r = 0 then Some (Inr k)
          else case vm_round p k of
                 None \<Rightarrow> None
               | Some s \<Rightarrow> (case s of Inl e \<Rightarrow> Some (Inl e) | Inr k \<Rightarrow> vm_loop p k))"

declare vm_loop.simps [code]

definition vm_run :: "u32 option \<Rightarrow> 'z heap_kernel_scheme \<Rightarrow> 'z hres option" where
  "vm_run vm k =
     (case vm of
        None \<Rightarrow> Some (Inr k)
      | Some p \<Rightarrow>
          bindP (heap_get (\<lambda>h. read32 h (RAM p)) k) (\<lambda>r.
            if r = 0 then Some (Inr k)
            else bindP (heap_do (\<lambda>h. write32 h (RUNNING p) 1) k) (vm_loop p)))"

definition vm_destroy :: "u32 option \<Rightarrow> 'z heap_kernel_scheme \<Rightarrow> 'z hres option" where
  "vm_destroy vm k =
     (case vm of
        None \<Rightarrow> Some (Inr k)
      | Some p \<Rightarrow>
          bindP (heap_get (\<lambda>h. read32 h (RAM p)) k) (\<lambda>r.
          bindP (if r = 0 then Some (Inr k) else heap_do (whitex_free (Some r)) k) (\<lambda>k.
            heap_do (whitex_free (Some p)) k)))"

definition vm_save_state :: "u32 option \<Rightarrow> 'z heap_kernel_scheme \<Rightarrow> 'z heap_kernel_scheme" where
  "vm_save_state vm = emit [Print (ln ''{\"status\":\"saved\"}'')]"

definition vm_reset :: "u32 option \<Rightarrow> 'z heap_kernel_scheme \<Rightarrow> 'z hres option" where
  "vm_reset vm k =
     (case vm of
        None \<Rightarrow> Some (Inr k)
      | Some p \<Rightarrow> heap_do (\<lambda>h. bindE (write64 h (PC p) 0) (\<lambda>h. bindE (write32 h (RUNNING p) 0)
                    (clear_registers p))) k)"

text \<open>The byte copy of \<open>vm_load_program\<close>: \<open>ram[i] = program[i]\<close>, with \<open>ram\<close> read from the state each time.\<close>

definition vm_load_program :: "u32 option \<Rightarrow> u8 list \<Rightarrow> u32 \<Rightarrow> 'z heap_kernel_scheme \<Rightarrow> 'z hres option" where
  "vm_load_program vm program sz k =
     (case vm of
        None \<Rightarrow> Some (Inr k)
      | Some p \<Rightarrow>
          bindP (heap_get (\<lambda>h. read32 h (RAM p)) k) (\<lambda>r.
          if r = 0 then Some (Inr k)
          else bindP (heap_get (\<lambda>h. read32 h (MEM_SIZE p)) k) (\<lambda>n.
            if n < sz then Some (Inr k)
            else heap_do (foldE (\<lambda>i h. bindE (read32 h (RAM p)) (\<lambda>a. bindE (get program i) (\<lambda>b.
                   put h (unat (a + of_nat i)) b))) [0..<unat sz]) k)))"

definition vm_get_register :: "u32 option \<Rightarrow> int \<Rightarrow> 'z heap_kernel_scheme \<Rightarrow> ((fault \<times> 'z heap_kernel_scheme) + u64) option"
  where
  "vm_get_register vm reg k =
     (case vm of
        None \<Rightarrow> Some (Inr 0)
      | Some p \<Rightarrow>
          if reg < 0 \<or> 16 \<le> reg then Some (Inr 0) else heap_get (\<lambda>h. read64 h (REG p (nat reg))) k)"

definition vm_set_register :: "u32 option \<Rightarrow> int \<Rightarrow> u64 \<Rightarrow> 'z heap_kernel_scheme \<Rightarrow> 'z hres option" where
  "vm_set_register vm reg v k =
     (case vm of
        None \<Rightarrow> Some (Inr k)
      | Some p \<Rightarrow>
          if reg < 0 \<or> 16 \<le> reg then Some (Inr k) else heap_do (\<lambda>h. write64 h (REG p (nat reg)) v) k)"

definition VM_RAM_SIZE :: u32 where "VM_RAM_SIZE = 0x10000"

definition sys_vm_init :: "'z heap_kernel_scheme \<Rightarrow> 'z hres option" where
  "sys_vm_init k0 =
     bindP (Some (sys_verify_integrity k0)) (\<lambda>k.
     if is_root (g_env k) = 0 \<and> isolation_active (g_env k) \<noteq> 0
     then Some (Inr (emit [Print (ln ''SYS_ERR: Unauthorized virtualization request.'')] k))
     else
       bindP (vm_create VM_RAM_SIZE k) (\<lambda>(vm, k).
         if vm = None then
           bindP (Some (k_log 2 (lit ''VM_ALLOCATION_FAILED'') k)) (\<lambda>k.
             Some (Inr (emit [Print (ln ''SYS_WARN: Virtual Machine allocation failed.'')] k)))
         else
           bindP (Some (k_log 1 (lit ''VM_ENVIRONMENT_STARTED'') k)) (\<lambda>k.
           bindP (vm_run vm k) (vm_destroy vm))))"

section \<open>Extended system calls\<close>

record esyscall_packet =
  pk_code :: u64
  pk_arg0 :: u64
  pk_arg1 :: u64
  pk_arg2 :: u64

definition SYS_INITFS :: u64 where "SYS_INITFS = 13"
definition SYS_CPUID :: u64 where "SYS_CPUID = 14"
definition SYS_NOTEPAD :: u64 where "SYS_NOTEPAD = 15"
definition SYS_ANT :: u64 where "SYS_ANT = 16"
definition SYS_MELODI :: u64 where "SYS_MELODI = 20"

text \<open>\<open>text_at\<close> is the string that the memory holds at an address.\<close>

definition esyscall_dispatch ::
  "(u32 \<Rightarrow> string) \<Rightarrow> u32 option \<Rightarrow> esyscall_packet \<Rightarrow> 'z heap_kernel_scheme \<Rightarrow> 'z hres option" where
  "esyscall_dispatch text_at vm packet k =
     (let code = pk_code packet in
      if code = SYS_NOTEPAD then
        Some (Inr (emit [Print ''Notepad: '', Print (text_at (ucast (pk_arg0 packet))), Print (ln [])] k))
      else if code = SYS_CPUID then
        (case vm of None \<Rightarrow> Some (Inl (Null_deref, k)) | Some p \<Rightarrow> heap_do (\<lambda>h. write64 h (REG p 0) 0x58544857) k)
      else if code = SYS_MELODI then Some (Inr (emit [Print (ln ''Playing system melody sequence...'')] k))
      else if code = SYS_ANT then Some (Inr (emit [Print (ln ''Ant-System initialized.'')] k))
      else if code = SYS_INITFS then Some (Inr (emit [Print (ln ''Filesystem mount request received.'')] k))
      else execute_syscall vm code k)"

definition esyscall_trigger ::
  "(u32 \<Rightarrow> string) \<Rightarrow> u32 option \<Rightarrow> u64 \<Rightarrow> u64 \<Rightarrow> u64 \<Rightarrow> u64 \<Rightarrow> 'z heap_kernel_scheme \<Rightarrow> 'z hres option" where
  "esyscall_trigger text_at vm ident a b c =
     esyscall_dispatch text_at vm \<lparr>pk_code = ident, pk_arg0 = a, pk_arg1 = b, pk_arg2 = c\<rparr>"

section \<open>Reading back the fields\<close>

lemma un64_halves: "un64 (ucast w) (ucast (drop_bit 32 w)) = w"
proof (rule bit_eqI)
  fix n assume "possible_bit TYPE(u64) n"
  then have "n < 32 \<or> (32 \<le> n \<and> n < 64)" by auto
  then show "bit (un64 (ucast w) (ucast (drop_bit 32 w))) n = bit w n"
    by (auto simp: un64_def bit_simps)
qed

lemma length_le64 [simp]: "length (le64 w) = 8"
  by (simp add: le64_def)

lemma read32_apart:
  "write_range h i bs = Inr h' \<Longrightarrow> j + 4 \<le> i \<or> i + length bs \<le> j \<Longrightarrow> read32 h' j = read32 h j"
  by (rule read32_cong) (auto simp: length_write_range write_range_nth)

lemma read64_apart:
  "write_range h i bs = Inr h' \<Longrightarrow> j + 8 \<le> i \<or> i + length bs \<le> j \<Longrightarrow> read64 h' j = read64 h j"
  using read32_apart [of h i bs h' j] read32_apart [of h i bs h' "j + 4"] by (auto simp: read64_def)

lemma read32_le32:
  assumes "write_range h i (as @ le32 w @ bs) = Inr h'" "length as = n"
  shows "read32 h' (i + n) = Inr w"
proof -
  have len: "length h' = length h" by (rule length_write_range [OF assms(1)])
  have b: "i + (n + 4 + length bs) \<le> length h"
    using assms by (auto simp: write_range_def split: if_splits)
  have "h' ! (i + n + k) = le32 w ! k" if "k < 4" for k
    using write_range_nth [OF assms(1), of "i + n + k"] b that assms(2) by (simp add: nth_append)
  from this [of 0] this [of 1] this [of 2] this [of 3] show ?thesis
    using b len by (simp add: read32_in le32_def un32_le32)
qed

lemma read64_write64: "write64 h i w = Inr h' \<Longrightarrow> read64 h' i = Inr w"
  using read32_le32 [of h i "[]" "ucast w" "le32 (ucast (drop_bit 32 w))" h' 0]
    read32_le32 [of h i "le32 (ucast w)" "ucast (drop_bit 32 w)" "[]" h' 4]
  by (simp add: write64_def le64_def read64_def un64_halves)

lemma write64_in: "i + 8 \<le> length h \<Longrightarrow> write64 h i w = Inr (take i h @ le64 w @ drop (i + 8) h)"
  by (simp add: write64_def write_range_def)

lemma write32_in: "i + 4 \<le> length h \<Longrightarrow> write32 h i w = Inr (take i h @ le32 w @ drop (i + 4) h)"
  by (simp add: write32_def write_range_def)

section \<open>The state of a machine in the heap\<close>

record vm_state =
  registers :: "u64 list"
  vm_pc :: u64
  running :: u32
  mem_size :: u32
  ram_base :: u32

text \<open>The heap holds the machine \<open>s\<close> at \<open>p\<close>.\<close>

definition vm_at :: "u8 list \<Rightarrow> u32 \<Rightarrow> vm_state \<Rightarrow> bool" where
  "vm_at h p s \<longleftrightarrow>
     unat p + 148 \<le> length h \<and> length (registers s) = 16 \<and>
     (\<forall>i < 16. read64 h (REG p i) = Inr (registers s ! i)) \<and>
     read64 h (PC p) = Inr (vm_pc s) \<and> read32 h (RUNNING p) = Inr (running s) \<and>
     read32 h (MEM_SIZE p) = Inr (mem_size s) \<and> read32 h (RAM p) = Inr (ram_base s)"

text \<open>Only the 148 bytes of the machine at \<open>p\<close> differ.\<close>

definition only_vm :: "u32 \<Rightarrow> u8 list \<Rightarrow> u8 list \<Rightarrow> bool" where
  "only_vm p h h' \<longleftrightarrow> length h' = length h \<and>
     (\<forall>j < length h. j < unat p \<or> unat p + 148 \<le> j \<longrightarrow> h' ! j = h ! j)"

lemma only_vm_refl [simp]: "only_vm p h h"
  by (simp add: only_vm_def)

lemma only_vm_trans: "only_vm p h h' \<Longrightarrow> only_vm p h' h'' \<Longrightarrow> only_vm p h h''"
  by (simp add: only_vm_def)

lemma only_vm_write:
  "write_range h i bs = Inr h' \<Longrightarrow> unat p \<le> i \<Longrightarrow> i + length bs \<le> unat p + 148 \<Longrightarrow> only_vm p h h'"
  by (auto simp: only_vm_def length_write_range write_range_nth)

lemma vm_at_register:
  assumes "vm_at h p s" "i < 16"
  obtains h' where "write64 h (REG p i) v = Inr h'"
    "vm_at h' p (s\<lparr>registers := (registers s)[i := v]\<rparr>)" "only_vm p h h'"
proof -
  let ?h = "take (REG p i) h @ le64 v @ drop (REG p i + 8) h"
  have b: "REG p i + 8 \<le> length h" using assms by (simp add: vm_at_def REG_def)
  then have w: "write64 h (REG p i) v = Inr ?h" by (rule write64_in)
  then have r: "write_range h (REG p i) (le64 v) = Inr ?h" by (simp add: write64_def)
  have same: "read64 ?h (REG p j) = Inr ((registers s)[i := v] ! j)" if "j < 16" for j
  proof (cases "j = i")
    case True
    then show ?thesis using read64_write64 [OF w] assms by (simp add: vm_at_def)
  next
    case False
    then have "read64 ?h (REG p j) = read64 h (REG p j)"
      by (intro read64_apart [OF r]) (auto simp: REG_def)
    then show ?thesis using False that assms(1) by (simp add: vm_at_def)
  qed
  have "vm_at ?h p (s\<lparr>registers := (registers s)[i := v]\<rparr>)"
    using assms same length_write_range [OF r] read64_apart [OF r, of "PC p"] read32_apart [OF r, of "RUNNING p"]
      read32_apart [OF r, of "MEM_SIZE p"] read32_apart [OF r, of "RAM p"]
    by (simp add: vm_at_def vm_offsets)
  moreover have "only_vm p h ?h" using assms(2) by (intro only_vm_write [OF r]) (auto simp: REG_def)
  ultimately show thesis using w that by blast
qed

lemma vm_at_pc:
  assumes "vm_at h p s"
  obtains h' where "write64 h (PC p) v = Inr h'" "vm_at h' p (s\<lparr>vm_pc := v\<rparr>)" "only_vm p h h'"
proof -
  let ?h = "take (PC p) h @ le64 v @ drop (PC p + 8) h"
  have b: "PC p + 8 \<le> length h" using assms by (simp add: vm_at_def PC_def)
  then have w: "write64 h (PC p) v = Inr ?h" by (rule write64_in)
  then have r: "write_range h (PC p) (le64 v) = Inr ?h" by (simp add: write64_def)
  have "read64 ?h (REG p j) = read64 h (REG p j)" if "j < 16" for j
    using that by (intro read64_apart [OF r]) (auto simp: vm_offsets)
  then have "vm_at ?h p (s\<lparr>vm_pc := v\<rparr>)"
    using assms read64_write64 [OF w] length_write_range [OF r] read32_apart [OF r, of "RUNNING p"]
      read32_apart [OF r, of "MEM_SIZE p"] read32_apart [OF r, of "RAM p"]
    by (simp add: vm_at_def vm_offsets)
  moreover have "only_vm p h ?h" by (intro only_vm_write [OF r]) (auto simp: PC_def)
  ultimately show thesis using w that by blast
qed

lemma vm_at_running:
  assumes "vm_at h p s"
  obtains h' where "write32 h (RUNNING p) v = Inr h'" "vm_at h' p (s\<lparr>running := v\<rparr>)" "only_vm p h h'"
proof -
  let ?h = "take (RUNNING p) h @ le32 v @ drop (RUNNING p + 4) h"
  have b: "RUNNING p + 4 \<le> length h" using assms by (simp add: vm_at_def RUNNING_def)
  then have w: "write32 h (RUNNING p) v = Inr ?h" by (rule write32_in)
  then have r: "write_range h (RUNNING p) (le32 v) = Inr ?h" by (simp add: write32_def)
  have "read64 ?h (REG p j) = read64 h (REG p j)" if "j < 16" for j
    using that by (intro read64_apart [OF r]) (auto simp: vm_offsets)
  then have "vm_at ?h p (s\<lparr>running := v\<rparr>)"
    using assms read32_write32 [OF w] length_write_range [OF r] read64_apart [OF r, of "PC p"]
      read32_apart [OF r, of "MEM_SIZE p"] read32_apart [OF r, of "RAM p"]
    by (simp add: vm_at_def vm_offsets)
  moreover have "only_vm p h ?h" by (intro only_vm_write [OF r]) (auto simp: RUNNING_def)
  ultimately show thesis using w that by blast
qed

end
