(* ===== verification/WX_Vm_Props.thy ===== *)
theory WX_Vm_Props
  imports WX_Vm
begin

text \<open>
  The byte-code machine against an abstract interpreter: \<open>isa_run\<close> works on a list of registers, a
  program counter and a byte list of code, while \<open>vm_run\<close> works on the bytes of the heap that also hold
  its own registers.  Then the runs that do not return, the system calls, and the start of a machine.
\<close>

section \<open>The abstract interpreter\<close>

datatype isa_op = Isa_syscall u64 | Isa_load u64 u32 | Isa_jump u32 | Isa_stop

definition isa_decode :: "u64 \<Rightarrow> isa_op" where
  "isa_decode w =
     (let opcode = drop_bit 56 w AND 0xFF; arg1 = drop_bit 48 w AND 0xFF; arg2 = ucast (w AND 0xFFFFFFFF) in
      if opcode = 0xCC then Isa_syscall arg1
      else if opcode = 0x01 then Isa_load arg1 arg2
      else if opcode = 0x0C then Isa_jump arg2
      else Isa_stop)"

text \<open>
  \<open>isa_run n\<close> runs at most \<open>n\<close> instructions.  It gives a result when the program stops within them; it gives
  none when they are used up, when the program counter leaves the code, or at the system call \<open>ram\<close>,
  which reads the heap itself.
\<close>

fun isa_run :: "nat \<Rightarrow> u8 list \<Rightarrow> u64 list \<times> u64 \<times> 'z heap_kernel_scheme \<Rightarrow>
    (u64 list \<times> u64 \<times> 'z heap_kernel_scheme) option" where
  "isa_run 0 code s = None"
| "isa_run (Suc n) code (regs, pc, k) =
     (case read64 code (unat pc) of
        Inl e \<Rightarrow> None
      | Inr w \<Rightarrow>
          (case isa_decode w of
             Isa_syscall i \<Rightarrow>
               if i = SYS_RAM then None
               else (case execute_syscall (Some 0) i k of
                       Some (Inr k) \<Rightarrow> isa_run n code (regs, pc + 8, k)
                     | _ \<Rightarrow> None)
           | Isa_load r v \<Rightarrow>
               isa_run n code (if r < 16 then regs[unat r := ucast v] else regs, pc + 8, k)
           | Isa_jump a \<Rightarrow> isa_run n code (regs, ucast a, k)
           | Isa_stop \<Rightarrow> Some (regs, pc + 8, k)))"

section \<open>Code in the heap\<close>

definition code_at :: "u8 list \<Rightarrow> u32 \<Rightarrow> u8 list \<Rightarrow> bool" where
  "code_at h r code \<longleftrightarrow>
     unat r + length code \<le> length h \<and> (\<forall>i < length code. h ! (unat r + i) = code ! i)"

text \<open>The machine at \<open>p\<close> and \<open>n\<close> bytes at \<open>r\<close> do not overlap.\<close>

definition apart :: "u32 \<Rightarrow> u32 \<Rightarrow> nat \<Rightarrow> bool" where
  "apart p r n \<longleftrightarrow> unat r + n \<le> unat p \<or> unat p + 148 \<le> unat r"

lemma code_at_only_vm:
  assumes "code_at h r code" "only_vm p h h'" "apart p r (length code)"
  shows "code_at h' r code"
proof -
  have "h' ! (unat r + i) = h ! (unat r + i)" if "i < length code" for i
  proof -
    have "unat r + i < length h" using that assms(1) by (simp add: code_at_def)
    moreover have "unat r + i < unat p \<or> unat p + 148 \<le> unat r + i"
      using that assms(3) by (auto simp: apart_def)
    ultimately show ?thesis using assms(2) by (auto simp: only_vm_def)
  qed
  then show ?thesis using assms(1,2) by (simp add: code_at_def only_vm_def)
qed

lemma read32_code:
  assumes "code_at h r code" "i + 3 < length code"
  shows "read32 h (unat r + i) = read32 code i"
proof -
  have "h ! (unat r + i + k) = code ! (i + k)" if "k < 4" for k
    using assms that by (simp add: code_at_def add.assoc)
  from this [of 0] this [of 1] this [of 2] this [of 3] show ?thesis
    using assms by (simp add: read32_in code_at_def)
qed

lemma read64_length: "read64 h i = Inr w \<Longrightarrow> i + 8 \<le> length h"
  by (rule ccontr) (auto simp: read64_def bindE_eq_Inr read32_def get_def split: if_splits)

lemma fetch_code:
  assumes "code_at h r code" "length h \<le> 65536" "read64 code (unat pc) = Inr w"
  shows "read64 h (unat (r + ucast pc)) = Inr w"
proof -
  have l: "unat pc + 8 \<le> length code" by (rule read64_length [OF assms(3)])
  then have b: "unat r + unat pc < 65536" using assms(1,2) by (simp add: code_at_def)
  then have u: "unat (ucast pc :: u32) = unat pc" by (simp add: unsigned_ucast_eq take_bit_nat_eq_self)
  have "unat (r + ucast pc) = unat r + unat pc"
    using b u by (subst unat_add_lem [THEN iffD1]) simp_all
  moreover have "read64 h (unat r + unat pc) = read64 code (unat pc)"
    using l read32_code [OF assms(1), of "unat pc"] read32_code [OF assms(1), of "unat pc + 4"]
    by (simp add: read64_def add.assoc)
  ultimately show ?thesis using assms(3) by simp
qed

section \<open>System calls and the heap\<close>

text \<open>A result of the kernel with another heap.\<close>

definition with_heap :: "u8 list \<Rightarrow> 'z hres \<Rightarrow> 'z hres" where
  "with_heap h r = map_sum (\<lambda>(f, k). (f, k\<lparr>memory_heap := h\<rparr>)) (\<lambda>k. k\<lparr>memory_heap := h\<rparr>) r"

lemma with_heap_simps [simp]:
  "with_heap h (Inl (f, k)) = Inl (f, k\<lparr>memory_heap := h\<rparr>)" "with_heap h (Inr k) = Inr (k\<lparr>memory_heap := h\<rparr>)"
  by (simp_all add: with_heap_def)

lemma with_heap_if [simp]: "with_heap h (if b then x else y) = (if b then with_heap h x else with_heap h y)"
  by simp

lemma bindE_with_heap:
  "(\<And>k. f (k\<lparr>memory_heap := h\<rparr>) = with_heap h (g k)) \<Longrightarrow> bindE (with_heap h m) f = with_heap h (bindE m g)"
  by (cases m) (auto simp: bindE_def)

lemma k_log_heap: "k_log level msg (k\<lparr>memory_heap := h\<rparr>) = with_heap h (k_log level msg k)"
  by (simp add: k_log_def split: sum.split)

lemma heap_apart:
  "g_env (k\<lparr>memory_heap := h\<rparr>) = g_env k" "g_sys_log (k\<lparr>memory_heap := h\<rparr>) = g_sys_log k"
  "g_global_canary (k\<lparr>memory_heap := h\<rparr>) = g_global_canary k" "cpu_regs (k\<lparr>memory_heap := h\<rparr>) = cpu_regs k"
  by simp_all

lemma emit_heap: "emit out (k\<lparr>memory_heap := h\<rparr>) = (emit out k)\<lparr>memory_heap := h\<rparr>"
  by (simp add: emit_def)

lemma set_env_heap: "set_env f (k\<lparr>memory_heap := h\<rparr>) = (set_env f k)\<lparr>memory_heap := h\<rparr>"
  by (simp add: set_env_def)

lemma sys_panic_heap: "sys_panic code (k\<lparr>memory_heap := h\<rparr>) = with_heap h (sys_panic code k)"
proof -
  obtain eax ebx esp where regs: "cpu_regs k = (eax, ebx, esp)" by (metis prod_cases3)
  obtain out where out: "hexdump eax ebx esp (replicate 11 NUL) = Inr out"
    using hexdump_ok [of "replicate 11 NUL" eax ebx esp] by auto
  show ?thesis
    by (simp only: sys_panic_def Let_def emit_heap set_env_heap heap_apart emit_simps set_env_simps regs out prod.case sum.case
        k_log_heap) (intro bindE_with_heap, simp)
qed

lemma verify_heap: "sys_verify_integrity (k\<lparr>memory_heap := h\<rparr>) = with_heap h (sys_verify_integrity k)"
  by (simp only: sys_verify_integrity_def Let_def sys_panic_heap heap_apart with_heap_if with_heap_simps)

lemma bindP_with_heap:
  "(\<And>k. f (k\<lparr>memory_heap := h\<rparr>) = map_option (with_heap h) (g k)) \<Longrightarrow>
   bindP (Some (with_heap h m)) f = map_option (with_heap h) (bindP (Some m) g)"
  by (cases m) auto

lemma ram_free_syscall:
  assumes "i \<noteq> SYS_RAM"
  shows "execute_syscall (Some p) i (k\<lparr>memory_heap := h\<rparr>) =
     map_option (with_heap h) (execute_syscall (Some 0) i k)"
  unfolding execute_syscall_def verify_heap
proof (rule bindP_with_heap)
  fix k :: "'a heap_kernel_scheme"
  let ?bad = "\<lambda>k :: 'a heap_kernel_scheme. Inr (emit [Print (ln ''Invalid system call.'')] k) :: 'a hres"
  have e: "g_env (k\<lparr>memory_heap := h\<rparr>) = g_env k" by simp
  have c: "count_cycle (help_cmd (k\<lparr>memory_heap := h\<rparr>)) = (count_cycle (help_cmd k))\<lparr>memory_heap := h\<rparr>"
    by (simp only: count_cycle_def help_cmd_def emit_heap set_env_heap)
  have b: "bindE (with_heap h m) ?bad = with_heap h (bindE m ?bad)" for m
    by (rule bindE_with_heap) (simp add: emit_heap)
  show "(if memory_guard (g_env (k\<lparr>memory_heap := h\<rparr>)) = 0 \<or> isolation_active (g_env (k\<lparr>memory_heap := h\<rparr>)) = 0
     then if i = SYS_HELP then Some (Inr (count_cycle (help_cmd (k\<lparr>memory_heap := h\<rparr>))))
       else if i = SYS_RAM then bindP (ram (k\<lparr>memory_heap := h\<rparr>)) (\<lambda>k. Some (Inr (count_cycle k)))
       else Some (Inr (k\<lparr>memory_heap := h\<rparr>))
     else if Some p = None \<or> fault_detected (g_env (k\<lparr>memory_heap := h\<rparr>)) \<noteq> 0
       then Some (sys_panic ''ERR_SYSCALL_VIOLATION_INVALID_CONTEXT'' (k\<lparr>memory_heap := h\<rparr>))
     else if i = SYS_HELP then Some (Inr (count_cycle (help_cmd (k\<lparr>memory_heap := h\<rparr>))))
       else if i = SYS_RAM then bindP (ram (k\<lparr>memory_heap := h\<rparr>)) (\<lambda>k. Some (Inr (count_cycle k)))
       else Some (bindE (k_log 2 (lit ''INVALID_SYSCALL_EXECUTION_ATTEMPT'') (k\<lparr>memory_heap := h\<rparr>)) ?bad)) =
   map_option (with_heap h)
    (if memory_guard (g_env k) = 0 \<or> isolation_active (g_env k) = 0
     then if i = SYS_HELP then Some (Inr (count_cycle (help_cmd k)))
       else if i = SYS_RAM then bindP (ram k) (\<lambda>k. Some (Inr (count_cycle k))) else Some (Inr k)
     else if Some (0 :: u32) = None \<or> fault_detected (g_env k) \<noteq> 0
       then Some (sys_panic ''ERR_SYSCALL_VIOLATION_INVALID_CONTEXT'' k)
     else if i = SYS_HELP then Some (Inr (count_cycle (help_cmd k)))
       else if i = SYS_RAM then bindP (ram k) (\<lambda>k. Some (Inr (count_cycle k)))
       else Some (bindE (k_log 2 (lit ''INVALID_SYSCALL_EXECUTION_ATTEMPT'') k) ?bad))"
    using assms by (simp only: e c b k_log_heap sys_panic_heap if_False option.map with_heap_simps if_distrib [of "map_option (with_heap h)"]
        option.distinct simp_thms)
qed

section \<open>One instruction\<close>

lemma heap_do_simps:
  "f h = Inr h' \<Longrightarrow> heap_do f (k\<lparr>memory_heap := h\<rparr>) = Some (Inr (k\<lparr>memory_heap := h'\<rparr>))"
  "f h = Inl e \<Longrightarrow> heap_do f (k\<lparr>memory_heap := h\<rparr>) = Some (Inl (e, k\<lparr>memory_heap := h\<rparr>))"
  by (simp_all add: heap_do_def)

lemma heap_get_simps:
  "f h = Inr x \<Longrightarrow> heap_get f (k\<lparr>memory_heap := h\<rparr>) = Some (Inr x)"
  "f h = Inl e \<Longrightarrow> heap_get f (k\<lparr>memory_heap := h\<rparr>) = Some (Inl (e, k\<lparr>memory_heap := h\<rparr>))"
  by (simp_all add: heap_get_def k_lift_def)

text \<open>What an instruction does once it is fetched and the program counter has moved on.\<close>

definition vm_effect :: "u32 \<Rightarrow> isa_op \<Rightarrow> 'z heap_kernel_scheme \<Rightarrow> 'z hres option" where
  "vm_effect p i k =
     (case i of
        Isa_syscall n \<Rightarrow> execute_syscall (Some p) n k
      | Isa_load r v \<Rightarrow>
          if r < 16 then heap_do (\<lambda>h. write64 h (REG p (unat r)) (ucast v)) k else Some (Inr k)
      | Isa_jump a \<Rightarrow> heap_do (\<lambda>h. write64 h (PC p) (ucast a)) k
      | Isa_stop \<Rightarrow> heap_do (\<lambda>h. write32 h (RUNNING p) 0) k)"

lemma vm_round_fetch:
  assumes "vm_at h p s" "code_at h (ram_base s) code" "length h \<le> 65536" "read64 code (unat (vm_pc s)) = Inr w"
  obtains h' where "vm_at h' p (s\<lparr>vm_pc := vm_pc s + 8\<rparr>)" "only_vm p h h'"
    "vm_round p (k\<lparr>memory_heap := h\<rparr>) = vm_effect p (isa_decode w) (k\<lparr>memory_heap := h'\<rparr>)"
proof (rule vm_at_pc [OF assms(1), of "vm_pc s + 8"])
  fix h' assume h': "write64 h (PC p) (vm_pc s + 8) = Inr h'" "vm_at h' p (s\<lparr>vm_pc := vm_pc s + 8\<rparr>)" "only_vm p h h'"
  have f: "read64 h (unat (ram_base s + ucast (vm_pc s))) = Inr w" by (rule fetch_code [OF assms(2-4)])
  have v: "read32 h (RAM p) = Inr (ram_base s)" "read64 h (PC p) = Inr (vm_pc s)" using assms(1) by (simp_all add: vm_at_def)
  have "vm_round p (k\<lparr>memory_heap := h\<rparr>) = vm_effect p (isa_decode w) (k\<lparr>memory_heap := h'\<rparr>)"
    unfolding vm_round_def heap_get_simps(1) [of "\<lambda>h. read32 h (RAM p)", OF v(1)] bindP_simps
      heap_get_simps(1) [of "\<lambda>h. read64 h (PC p)", OF v(2)]
      heap_get_simps(1) [of "\<lambda>h. read64 h (unat (ram_base s + ucast (vm_pc s)))", OF f]
      heap_do_simps(1) [of "\<lambda>h. write64 h (PC p) (vm_pc s + 8)", OF h'(1)] Let_def
    by (simp add: vm_effect_def isa_decode_def Let_def del: heap_do_def)
  with h' show thesis by (intro that)
qed

lemma vm_loop_stop: "vm_at h p s \<Longrightarrow> running s = 0 \<Longrightarrow> vm_loop p (k\<lparr>memory_heap := h\<rparr>) = Some (Inr (k\<lparr>memory_heap := h\<rparr>))"
  by (subst vm_loop.simps) (simp add: vm_at_def)

lemma vm_loop_step:
  "vm_at h p s \<Longrightarrow> running s \<noteq> 0 \<Longrightarrow> vm_round p (k\<lparr>memory_heap := h\<rparr>) = Some (Inr k') \<Longrightarrow>
   vm_loop p (k\<lparr>memory_heap := h\<rparr>) = vm_loop p k'"
  by (subst vm_loop.simps) (simp add: vm_at_def)

section \<open>The run of a program\<close>

lemma vm_loop_refines:
  assumes "isa_run n code (regs, pc, k) = Some (regs', pc', k')"
    "vm_at h p s" "registers s = regs" "vm_pc s = pc" "running s = 1"
    "code_at h (ram_base s) code" "apart p (ram_base s) (length code)" "length h \<le> 65536"
  shows "\<exists>h'. vm_loop p (k\<lparr>memory_heap := h\<rparr>) = Some (Inr (k'\<lparr>memory_heap := h'\<rparr>)) \<and> only_vm p h h' \<and>
     vm_at h' p (s\<lparr>registers := regs', vm_pc := pc', running := 0\<rparr>)"
  using assms
proof (induction n arbitrary: regs pc k h s)
  case (Suc n)
  from Suc.prems(1) obtain w where w: "read64 code (unat pc) = Inr w" by (auto split: sum.splits)
  note inv = Suc.prems(2,6-8) and st = Suc.prems(3-5)
  have rn: "running s \<noteq> 0" using st by simp
  obtain h1 where h1: "vm_at h1 p (s\<lparr>vm_pc := pc + 8\<rparr>)" "only_vm p h h1"
    "vm_round p (k\<lparr>memory_heap := h\<rparr>) = vm_effect p (isa_decode w) (k\<lparr>memory_heap := h1\<rparr>)"
    using vm_round_fetch [OF inv(1,2,4), of w k] w st by auto
  text \<open>The rest of the run, from any state that the instruction leaves.\<close>
  have continue: ?case
    if r: "isa_run n code (regs1, pc1, k1) = Some (regs', pc', k')" "vm_at h2 p s2" "only_vm p h1 h2"
      "s2 = s\<lparr>registers := regs1, vm_pc := pc1\<rparr>"
      "vm_effect p (isa_decode w) (k\<lparr>memory_heap := h1\<rparr>) = Some (Inr (k1\<lparr>memory_heap := h2\<rparr>))" for regs1 pc1 k1 h2 s2
  proof -
    have o: "only_vm p h h2" by (rule only_vm_trans [OF h1(2) r(3)])
    have "code_at h2 (ram_base s2) code" "apart p (ram_base s2) (length code)" "length h2 \<le> 65536" "running s2 = 1"
      "registers s2 = regs1" "vm_pc s2 = pc1"
      using code_at_only_vm [OF inv(2) o inv(3)] inv(3,4) o st r(4) by (simp_all add: only_vm_def)
    from Suc.IH [OF r(1,2) this(5,6,4,1,2,3)] obtain h' where h':
      "vm_loop p (k1\<lparr>memory_heap := h2\<rparr>) = Some (Inr (k'\<lparr>memory_heap := h'\<rparr>))" "only_vm p h2 h'"
      "vm_at h' p (s2\<lparr>registers := regs', vm_pc := pc', running := 0\<rparr>)" by blast
    have "vm_loop p (k\<lparr>memory_heap := h\<rparr>) = vm_loop p (k1\<lparr>memory_heap := h2\<rparr>)"
      by (rule vm_loop_step [OF inv(1) rn]) (simp only: h1(3) r(5))
    then show ?thesis using h' only_vm_trans [OF o h'(2)] r(4) by (intro exI [of _ h']) simp
  qed
  show ?case
  proof (cases "isa_decode w")
    case (Isa_syscall i)
    then obtain k1 where k1: "i \<noteq> SYS_RAM" "execute_syscall (Some 0) i k = Some (Inr k1)"
      "isa_run n code (regs, pc + 8, k1) = Some (regs', pc', k')"
      using Suc.prems(1) w by (auto split: if_splits option.splits sum.splits)
    show ?thesis
      by (rule continue [OF k1(3) h1(1)]) (use st in \<open>simp_all add: Isa_syscall vm_effect_def ram_free_syscall [OF k1(1)] k1(2)\<close>)
  next
    case (Isa_load r v)
    show ?thesis
    proof (cases "r < 16")
      case True
      then have "unat r < 16" by (simp add: word_less_nat_alt)
      then obtain h2 where h2: "write64 h1 (REG p (unat r)) (ucast v) = Inr h2"
        "vm_at h2 p (s\<lparr>vm_pc := pc + 8, registers := (registers s)[unat r := ucast v]\<rparr>)" "only_vm p h1 h2"
        by (rule vm_at_register [OF h1(1)]) simp
      show ?thesis
        by (rule continue [OF _ h2(2,3)])
          (use Suc.prems(1) w st True h2(1) in \<open>auto simp: Isa_load vm_effect_def heap_do_simps\<close>)
    next
      case False
      show ?thesis
        by (rule continue [OF _ h1(1)]) (use Suc.prems(1) w st False in \<open>auto simp: Isa_load vm_effect_def\<close>)
    qed
  next
    case (Isa_jump a)
    obtain h2 where h2: "write64 h1 (PC p) (ucast a) = Inr h2" "vm_at h2 p (s\<lparr>vm_pc := ucast a\<rparr>)" "only_vm p h1 h2"
      by (rule vm_at_pc [OF h1(1)]) simp
    show ?thesis
      by (rule continue [OF _ h2(2,3)])
        (use Suc.prems(1) w st h2(1) in \<open>auto simp: Isa_jump vm_effect_def heap_do_simps\<close>)
  next
    case Isa_stop
    obtain h2 where h2: "write32 h1 (RUNNING p) 0 = Inr h2" "vm_at h2 p (s\<lparr>vm_pc := pc + 8, running := 0\<rparr>)" "only_vm p h1 h2"
      by (rule vm_at_running [OF h1(1), of 0]) simp
    have e: "regs' = regs" "pc' = pc + 8" "k' = k" using Suc.prems(1) w Isa_stop by auto
    have "vm_loop p (k\<lparr>memory_heap := h\<rparr>) = vm_loop p (k\<lparr>memory_heap := h2\<rparr>)"
      by (rule vm_loop_step [OF inv(1) rn]) (simp add: h1(3) Isa_stop vm_effect_def heap_do_simps h2(1))
    moreover have "\<dots> = Some (Inr (k\<lparr>memory_heap := h2\<rparr>))" by (rule vm_loop_stop [OF h2(2)]) simp
    moreover have "s\<lparr>registers := regs', vm_pc := pc', running := 0\<rparr> = s\<lparr>vm_pc := pc + 8, running := 0\<rparr>"
      using e st by (cases s) simp
    ultimately show ?thesis
      using h2 only_vm_trans [OF h1(2) h2(3)] e by (intro exI [of _ h2]) simp
  qed
qed simp

lemma vm_run_start:
  assumes "vm_at h p s" "ram_base s \<noteq> 0"
  obtains h' where "vm_run (Some p) (k\<lparr>memory_heap := h\<rparr>) = vm_loop p (k\<lparr>memory_heap := h'\<rparr>)"
    "vm_at h' p (s\<lparr>running := 1\<rparr>)" "only_vm p h h'"
proof (rule vm_at_running [OF assms(1), of 1])
  fix h' assume h': "write32 h (RUNNING p) 1 = Inr h'" "vm_at h' p (s\<lparr>running := 1\<rparr>)" "only_vm p h h'"
  have r: "read32 h (RAM p) = Inr (ram_base s)" using assms(1) by (simp add: vm_at_def)
  have "vm_run (Some p) (k\<lparr>memory_heap := h\<rparr>) = vm_loop p (k\<lparr>memory_heap := h'\<rparr>)"
    unfolding vm_run_def option.case heap_get_simps(1) [of "\<lambda>h. read32 h (RAM p)", OF r] bindP_simps
      heap_do_simps(1) [of "\<lambda>h. write32 h (RUNNING p) 1", OF h'(1)] using assms(2) by simp
  with h' show thesis by (intro that)
qed

text \<open>
  When the interpreter stops within some number of instructions, \<open>vm_run\<close> returns with the same registers,
  program counter and kernel, and no byte outside the machine's own 148 has changed.
\<close>

lemma vm_run_refines_interpreter:
  assumes "vm_at h p s" "ram_base s \<noteq> 0" "code_at h (ram_base s) code" "apart p (ram_base s) (length code)"
    "length h \<le> 65536" "isa_run n code (registers s, vm_pc s, k) = Some (regs', pc', k')"
  shows "\<exists>h'. vm_run (Some p) (k\<lparr>memory_heap := h\<rparr>) = Some (Inr (k'\<lparr>memory_heap := h'\<rparr>)) \<and> only_vm p h h' \<and>
     vm_at h' p (s\<lparr>registers := regs', vm_pc := pc', running := 0\<rparr>)"
proof (rule vm_run_start [OF assms(1,2), of k])
  fix h1 assume h1: "vm_run (Some p) (k\<lparr>memory_heap := h\<rparr>) = vm_loop p (k\<lparr>memory_heap := h1\<rparr>)"
    "vm_at h1 p (s\<lparr>running := 1\<rparr>)" "only_vm p h h1"
  have c: "code_at h1 (ram_base s) code" by (rule code_at_only_vm [OF assms(3) h1(3) assms(4)])
  have l: "length h1 \<le> 65536" using h1(3) assms(5) by (simp add: only_vm_def)
  from vm_loop_refines [OF assms(6) h1(2)] c l assms(4) obtain h' where h':
    "vm_loop p (k\<lparr>memory_heap := h1\<rparr>) = Some (Inr (k'\<lparr>memory_heap := h'\<rparr>))" "only_vm p h1 h'"
    "vm_at h' p (s\<lparr>registers := regs', vm_pc := pc', running := 0\<rparr>)" by auto
  then show ?thesis using h1(1) only_vm_trans [OF h1(3) h'(2)] by (intro exI [of _ h']) simp
qed

text \<open>A machine with cleared registers at offset 0 of a small heap, followed by its program.\<close>

definition tiny_heap :: "u8 list \<Rightarrow> u8 list" where
  "tiny_heap code = replicate 140 0 @ le32 (of_nat (length code)) @ le32 148 @ code"

definition tiny_vm :: "nat \<Rightarrow> vm_state" where
  "tiny_vm n = \<lparr>registers = replicate 16 0, vm_pc = 0, running = 0, mem_size = of_nat n, ram_base = 148\<rparr>"

lemma tiny_words:
  "j + 4 \<le> 140 \<Longrightarrow> read32 (tiny_heap code) j = Inr 0"
  "read32 (tiny_heap code) 140 = Inr (of_nat (length code))" "read32 (tiny_heap code) 144 = Inr 148"
  by (simp_all add: tiny_heap_def read32_in nth_append le32_def un32_le32)
    (simp add: un32_def)

lemma tiny_vm_at: "vm_at (tiny_heap code) 0 (tiny_vm (length code))"
proof -
  have "read64 (tiny_heap code) j = Inr 0" if "j + 8 \<le> 140" for j
    using that tiny_words(1) [of j] tiny_words(1) [of "j + 4"] by (simp add: read64_def un64_def)
  then show ?thesis
    using tiny_words by (simp add: vm_at_def tiny_vm_def vm_offsets) (simp add: tiny_heap_def)
qed

lemma tiny_code_at: "code_at (tiny_heap code) 148 code"
  by (simp add: code_at_def tiny_heap_def nth_append)

lemma tiny_apart: "apart 0 148 n"
  by (simp add: apart_def)

text \<open>Load 7 into register 1, jump over a stop, load 9 into register 2, stop.\<close>

definition tiny_program :: "u8 list" where
  "tiny_program =
     [7, 0, 0, 0, 0, 0, 1, 1,  24, 0, 0, 0, 0, 0, 0, 12,  0, 0, 0, 0, 0, 0, 0, 31,
      9, 0, 0, 0, 0, 0, 2, 1,  0, 0, 0, 0, 0, 0, 0, 31]"

lemma tiny_fetch:
  "read64 tiny_program 0 = Inr 0x0101000000000007" "read64 tiny_program 8 = Inr 0x0C00000000000018"
  "read64 tiny_program 24 = Inr 0x0102000000000009" "read64 tiny_program 32 = Inr 0x1F00000000000000"
  by code_simp+

lemma tiny_decode:
  "isa_decode 0x0101000000000007 = Isa_load 1 7" "isa_decode 0x0C00000000000018 = Isa_jump 24"
  "isa_decode 0x0102000000000009 = Isa_load 2 9" "isa_decode 0x1F00000000000000 = Isa_stop"
  by code_simp+

lemma tiny_run:
  "isa_run (Suc (Suc (Suc (Suc 0)))) tiny_program (replicate 16 0, 0, k) = Some ((replicate 16 0)[1 := 7, 2 := 9], 40, k)"
  by (simp add: tiny_fetch tiny_decode)

section \<open>Programs that never stop\<close>

text \<open>
  Places that a program never leaves: at each of them lies a load or a jump, and the next place is
  one of them too.
\<close>

definition loops :: "u8 list \<Rightarrow> u64 set \<Rightarrow> bool" where
  "loops code S \<longleftrightarrow>
     (\<forall>pc \<in> S. case read64 code (unat pc) of
        Inl e \<Rightarrow> False
      | Inr w \<Rightarrow> (case isa_decode w of
                    Isa_load r v \<Rightarrow> pc + 8 \<in> S
                  | Isa_jump a \<Rightarrow> ucast a \<in> S
                  | _ \<Rightarrow> False))"

text \<open>One instruction of such a program: it succeeds and leaves the machine at one of the places.\<close>

lemma loops_step:
  assumes "loops code S" "vm_at h p s" "vm_pc s \<in> S" "code_at h (ram_base s) code"
    "apart p (ram_base s) (length code)" "length h \<le> 65536"
  obtains h' s' where "vm_round p (k\<lparr>memory_heap := h\<rparr>) = Some (Inr (k\<lparr>memory_heap := h'\<rparr>))" "vm_at h' p s'"
    "only_vm p h h'" "vm_pc s' \<in> S" "running s' = running s" "ram_base s' = ram_base s"
proof -
  obtain w where w: "read64 code (unat (vm_pc s)) = Inr w" using assms(1,3) by (cases "read64 code (unat (vm_pc s))") (auto simp: loops_def dest!: bspec)
  obtain h1 where h1: "vm_at h1 p (s\<lparr>vm_pc := vm_pc s + 8\<rparr>)" "only_vm p h h1"
    "vm_round p (k\<lparr>memory_heap := h\<rparr>) = vm_effect p (isa_decode w) (k\<lparr>memory_heap := h1\<rparr>)"
    by (rule vm_round_fetch [OF assms(2,4,6) w])
  consider (load) r v where "isa_decode w = Isa_load r v" "vm_pc s + 8 \<in> S"
    | (jump) a where "isa_decode w = Isa_jump a" "ucast a \<in> S"
  proof -
    have "case isa_decode w of Isa_load r v \<Rightarrow> vm_pc s + 8 \<in> S | Isa_jump a \<Rightarrow> ucast a \<in> S | _ \<Rightarrow> False"
      using assms(1,3) w by (auto simp: loops_def dest!: bspec)
    then show thesis using load jump by (cases "isa_decode w") simp_all
  qed
  then show thesis
  proof cases
    case load
    show thesis
    proof (cases "r < 16")
      case True
      then have "unat r < 16" by (simp add: word_less_nat_alt)
      then obtain h2 where h2: "write64 h1 (REG p (unat r)) (ucast v) = Inr h2"
        "vm_at h2 p (s\<lparr>vm_pc := vm_pc s + 8, registers := (registers s)[unat r := ucast v]\<rparr>)" "only_vm p h1 h2"
        by (rule vm_at_register [OF h1(1), where v = "ucast v"]) simp
      with load True h1(3) only_vm_trans [OF h1(2) h2(3)] show thesis
        by (intro that [OF _ h2(2)]) (simp_all add: vm_effect_def heap_do_simps)
    next
      case False
      with load h1 show thesis by (intro that [OF _ h1(1)]) (simp_all add: vm_effect_def)
    qed
  next
    case jump
    obtain h2 where h2: "write64 h1 (PC p) (ucast a) = Inr h2" "vm_at h2 p (s\<lparr>vm_pc := ucast a\<rparr>)" "only_vm p h1 h2"
      by (rule vm_at_pc [OF h1(1), of "ucast a"]) simp
    with jump h1(3) only_vm_trans [OF h1(2) h2(3)] show thesis
      by (intro that [OF _ h2(2)]) (simp_all add: vm_effect_def heap_do_simps)
  qed
qed

definition looping :: "u8 list \<Rightarrow> u64 set \<Rightarrow> u32 \<Rightarrow> u8 list \<Rightarrow> bool" where
  "looping code S p h \<longleftrightarrow> length h \<le> 65536 \<and>
     (\<exists>s. vm_at h p s \<and> vm_pc s \<in> S \<and> running s \<noteq> 0 \<and> code_at h (ram_base s) code \<and> apart p (ram_base s) (length code))"

lemma looping_step:
  assumes "loops code S" "looping code S p h"
  obtains h' where "vm_round p (k\<lparr>memory_heap := h\<rparr>) = Some (Inr (k\<lparr>memory_heap := h'\<rparr>))" "looping code S p h'"
    "\<exists>n. read32 h (RUNNING p) = Inr n \<and> n \<noteq> 0"
proof -
  obtain s where s: "vm_at h p s" "vm_pc s \<in> S" "running s \<noteq> 0" "code_at h (ram_base s) code"
    "apart p (ram_base s) (length code)" "length h \<le> 65536" using assms(2) by (auto simp: looping_def)
  obtain h' s' where n: "vm_round p (k\<lparr>memory_heap := h\<rparr>) = Some (Inr (k\<lparr>memory_heap := h'\<rparr>))" "vm_at h' p s'"
    "only_vm p h h'" "vm_pc s' \<in> S" "running s' = running s" "ram_base s' = ram_base s"
    by (rule loops_step [OF assms(1) s(1,2,4,5,6)])
  have "code_at h' (ram_base s') code" using code_at_only_vm [OF s(4) n(3) s(5)] n(6) by simp
  then have "looping code S p h'" using n s(3,5,6) by (auto simp: looping_def only_vm_def)
  then show thesis using n(1) s(1,3) by (intro that) (auto simp: vm_at_def)
qed

lemma loops_loop:
  assumes "loops code S" "looping code S p h" "vm_loop p (k\<lparr>memory_heap := h\<rparr>) = Some r"
  shows False
proof -
  have "\<forall>h. K = k\<lparr>memory_heap := h\<rparr> \<longrightarrow> \<not> looping code S q h" if "vm_loop q K = Some r'" for q K r'
    using that
  proof (rule vm_loop.raw_induct [rotated])
    fix loop q K r'
    assume IH: "\<And>q K r'. loop q K = Some r' \<Longrightarrow> \<forall>h. K = k\<lparr>memory_heap := h\<rparr> \<longrightarrow> \<not> looping code S q h"
      and body: "(case read32 (memory_heap K) (RUNNING q) of Inl e \<Rightarrow> Some (Inl (e, K))
        | Inr r \<Rightarrow> if r = 0 then Some (Inr K) else (case vm_round q K of None \<Rightarrow> None
            | Some s \<Rightarrow> (case s of Inl e \<Rightarrow> Some (Inl e) | Inr k \<Rightarrow> loop q k))) = Some r'"
    show "\<forall>h. K = k\<lparr>memory_heap := h\<rparr> \<longrightarrow> \<not> looping code S q h"
    proof (intro allI impI notI)
      fix h assume K: "K = k\<lparr>memory_heap := h\<rparr>" and l: "looping code S q h"
      obtain h' where h': "vm_round q (k\<lparr>memory_heap := h\<rparr>) = Some (Inr (k\<lparr>memory_heap := h'\<rparr>))" "looping code S q h'"
        "\<exists>n. read32 h (RUNNING q) = Inr n \<and> n \<noteq> 0"
        by (rule looping_step [OF assms(1) l])
      then have "loop q (k\<lparr>memory_heap := h'\<rparr>) = Some r'" using body unfolding K by auto
      with IH h'(2) show False by blast
    qed
  qed
  with assms(2,3) show False by blast
qed

text \<open>
  A machine whose program counter stands in a set of places that the program never leaves (each holds
  a load or a jump to another of them) runs for ever: the call of \<open>vm_run\<close> does not return, because the
  loop has no bound on the number of instructions.
\<close>
lemma endless_program_never_returns:
  assumes "loops code S" "vm_at h p s" "vm_pc s \<in> S" "ram_base s \<noteq> 0" "code_at h (ram_base s) code"
    "apart p (ram_base s) (length code)" "length h \<le> 65536"
  shows "vm_run (Some p) (k\<lparr>memory_heap := h\<rparr>) = None"
proof (rule vm_run_start [OF assms(2,4), of k])
  fix h1 assume h1: "vm_run (Some p) (k\<lparr>memory_heap := h\<rparr>) = vm_loop p (k\<lparr>memory_heap := h1\<rparr>)"
    "vm_at h1 p (s\<lparr>running := 1\<rparr>)" "only_vm p h h1"
  have c: "code_at h1 (ram_base s) code" by (rule code_at_only_vm [OF assms(5) h1(3) assms(6)])
  have l: "length h1 \<le> 65536" using h1(3) assms(7) by (simp add: only_vm_def)
  have "vm_loop p (k\<lparr>memory_heap := h1\<rparr>) \<noteq> Some r" for r
  proof -
    have "looping code S p h1"
      unfolding looping_def using h1(2) c l assms(3,6) by (intro conjI exI [of _ "s\<lparr>running := 1\<rparr>"]) simp_all
    then show ?thesis using loops_loop [OF assms(1), of p h1 k r] by blast
  qed
  then show ?thesis using h1(1) by (cases "vm_loop p (k\<lparr>memory_heap := h1\<rparr>)") auto
qed

lemma endless_program_never_returns_witness:
  "\<forall>k :: heap_kernel. vm_run (Some 0) (k\<lparr>memory_heap := tiny_heap [5, 0, 0, 0, 0, 0, 1, 1, 0, 0, 0, 0, 0, 0, 0, 12]\<rparr>) = None"
proof
  fix k :: heap_kernel
  let ?code = "[5, 0, 0, 0, 0, 0, 1, 1, 0, 0, 0, 0, 0, 0, 0, 12] :: u8 list"
  have f: "read64 ?code 0 = Inr 0x0101000000000005" "read64 ?code 8 = Inr 0x0C00000000000000"
    "isa_decode 0x0101000000000005 = Isa_load 1 5" "isa_decode 0x0C00000000000000 = Isa_jump 0"
    by code_simp+
  have "loops ?code {0, 8}" by (simp add: loops_def f)
  then show "vm_run (Some 0) (k\<lparr>memory_heap := tiny_heap ?code\<rparr>) = None"
    by (rule endless_program_never_returns [OF _ tiny_vm_at])
      (simp_all add: tiny_vm_def tiny_code_at tiny_apart, simp add: tiny_heap_def)
qed

section \<open>System calls\<close>

text \<open>The bytes that the blocks in use take, headers included.\<close>

definition used_bytes :: "(nat \<times> bool) list \<Rightarrow> nat" where
  "used_bytes bs = (\<Sum>(n, used) \<leftarrow> bs. if used then 8 + n else 0)"

lemma free_walk_chain:
  assumes "length h = 65536" "off + span bs + 8 \<le> 65536" "blocks h off bs" "read32 h (off + span bs) = Inr 0"
  shows "free_walk h (of_nat off) a = Some (Inr (a - of_nat (used_bytes bs)))"
  using assms
proof (induction h off bs arbitrary: a rule: blocks.induct)
  case (1 h off)
  have "(of_nat off :: u32) < HEAP_SIZE" using 1(2) by (simp add: HEAP_SIZE_def word_less_nat_alt unat_of_nat)
  with 1 read_header_eq [of h off 0] show ?case by (subst free_walk.simps) (simp add: used_bytes_def)
next
  case (2 h off m used bs)
  have off: "(of_nat off :: u32) < HEAP_SIZE" using 2(3) by (simp add: HEAP_SIZE_def word_less_nat_alt unat_of_nat)
  have m: "0 < m" "m < 2 ^ 32" using 2(3,4) by auto
  have rh: "read_header h (of_nat off) = Inr \<lparr>blk_size = of_nat m, blk_status = (if used then BLOCK_USED else BLOCK_FREE)\<rparr>"
    using read_header_eq [of h off "of_nat m"] 2(2-4) by simp
  have nz: "(of_nat m :: u32) \<noteq> 0" using m u32_nat [OF m(2)] by (metis less_irrefl unat_0)
  have nxt: "(of_nat off :: u32) + (HDR + of_nat m) = of_nat (off + 8 + m)" by (simp add: HDR_def)
  have IH: "free_walk h (of_nat (off + 8 + m)) b = Some (Inr (b - of_nat (used_bytes bs)))" for b
    using 2(2-5) by (intro 2(1)) (auto simp: add.assoc)
  have "free_walk h (of_nat off) a = free_walk h (of_nat (off + 8 + m)) (if used then a - (of_nat m + HDR) else a)"
    using off rh nz status_distinct [symmetric] by (subst free_walk.simps) (simp add: nxt del: of_nat_add)
  then show ?case unfolding IH by (cases used) (simp_all add: used_bytes_def HDR_def algebra_simps)
qed

lemma get_free_ram_chain: "heap_ok h bs \<Longrightarrow> get_free_ram h = Some (Inr (HEAP_SIZE - of_nat (used_bytes bs)))"
  using free_walk_chain [of h 0 bs HEAP_SIZE] end_header [of h bs] by (simp add: heap_ok_def get_free_ram_def)

lemma used_bytes_span: "used_bytes bs \<le> span bs"
  by (induction bs) (auto simp: used_bytes_def split: if_splits)

definition ram_text :: "(nat \<times> bool) list \<Rightarrow> con list" where
  "ram_text bs = [Print ''Free RAM: ''] @ map Putchar (dec_str (65536 - used_bytes bs)) @
     [Print (ln '' bytes'')]"

lemma ram_chain:
  assumes "heap_ok (memory_heap k) bs" "\<not> first_ram k"
  shows "ram k = Some (Inr (emit (ram_text bs) k))"
proof -
  have r: "k\<lparr>first_ram := False\<rparr> = k" using assms(2) by (cases k) simp
  have "used_bytes bs \<le> 65536" using used_bytes_span [of bs] assms(1) by (simp add: heap_ok_def)
  then have "unat (HEAP_SIZE - of_nat (used_bytes bs)) = 65536 - used_bytes bs"
    by (simp add: HEAP_SIZE_def unat_sub word_le_nat_alt unat_of_nat)
  then show ?thesis
    using assms by (simp add: r ram_def ram_cmd_def Let_def get_free_ram_chain ram_text_def ram_print_number_eq)
qed

text \<open>What \<open>help\<close> is to print: a title, the names of the commands, and a rule of 27 dashes.\<close>

fun commas :: "string list \<Rightarrow> string" where
  "commas [] = []"
| "commas [w] = w"
| "commas (w # ws) = w @ '', '' @ commas ws"

definition help_names :: "string list" where
  "help_names =
    [''uname'', ''reboot'', ''shutdown'', ''panic'', ''ls'', ''mkdir'', ''cd'', ''pwd'', ''initfs'',
     ''sddshell'', ''hexdump'', ''cpuid'', ''ram'', ''htop'', ''top'', ''telemetry'', ''ntask'', ''ps'',
     ''kill'', ''internet'', ''ping'', ''msgsend'', ''msgrecv'', ''sudo'', ''kiskrnl'', ''notepad'', ''nano'',
     ''song'', ''echo'', ''pkg'', ''calc'', ''lcreset'', ''time'', ''fortune'', ''logo'', ''cls'']"

definition help_text :: "con list" where
  "help_text = [Print (newline # ''--- WHITEX  ---'' @ [newline]), Print (commas help_names @ [newline]),
     Print (replicate 27 (CHR ''-'') @ [newline])]"

lemma help_emits: "help_cmd k = emit help_text k"
  by (simp add: help_text_def help_names_def help_cmd_def ln_def numeral_eq_Suc)

lemma count_cycle_keeps:
  "env_ok k \<Longrightarrow> env_ok (count_cycle k)" "priv_of (count_cycle k) = priv_of k"
  "console (count_cycle k) = console k" "g_sys_log (count_cycle k) = g_sys_log k" "memory_heap (count_cycle K) = memory_heap K"
  "execution_cycles (g_env (count_cycle k)) = execution_cycles (g_env k) + 1"
  by (simp_all add: count_cycle_def env_ok_def priv_of_def set_env_def)

definition syscall_text :: "(nat \<times> bool) list \<Rightarrow> u64 \<Rightarrow> bool \<Rightarrow> con list" where
  "syscall_text bs i unguarded =
     (if i = SYS_HELP then help_text
      else if i = SYS_RAM then ram_text bs
      else if unguarded then [] else [Print (ln ''Invalid system call.'')])"

text \<open>
  C34: a system call of a running machine, on a kernel whose environment and heap are sound, which has not
  faulted, and whose \<open>ram\<close> has run before (the first run clears the heap), always returns.  \<open>help\<close> prints its title,
  the 36 command names and the rule, \<open>ram\<close> the heap size less the blocks in use in decimal; one cycle is
  counted exactly when the call is known, and neither the privilege state nor the heap changes.  An unknown call
  is logged and reported, unless the protection has been taken down: then it is silent.
\<close>
theorem syscalls_keep_privileges:
  assumes "env_ok k" "fault_detected (g_env k) = 0" "heap_ok (memory_heap k) bs" "\<not> first_ram k"
  shows "\<exists>k'. execute_syscall (Some p) i k = Some (Inr k') \<and> env_ok k' \<and> priv_of k' = priv_of k \<and>
     memory_heap k' = memory_heap k \<and>
     execution_cycles (g_env k') = execution_cycles (g_env k) + (if i \<in> {SYS_HELP, SYS_RAM} then 1 else 0) \<and>
     console k' = console k @ syscall_text bs i (memory_guard (g_env k) = 0 \<or> isolation_active (g_env k) = 0) \<and>
     (if i \<in> {SYS_HELP, SYS_RAM} \<or> memory_guard (g_env k) = 0 \<or> isolation_active (g_env k) = 0
      then g_sys_log k' = g_sys_log k
      else k_log 2 (lit ''INVALID_SYSCALL_EXECUTION_ATTEMPT'') k = Inr (k\<lparr>g_sys_log := g_sys_log k'\<rparr>))"
proof (cases "i \<in> {SYS_HELP, SYS_RAM}")
  case True
  have ne: "SYS_RAM \<noteq> SYS_HELP" by (simp add: SYS_RAM_def SYS_HELP_def)
  have e: "env_ok (emit out k)" "priv_of (emit out k) = priv_of k" "memory_heap (emit out k) = memory_heap k"
    "g_sys_log (emit out k) = g_sys_log k" for out
    using assms(1) by (simp_all add: priv_of_def emit_def env_ok_def)
  let ?out = "if i = SYS_HELP then help_text else ram_text bs"
  have "execute_syscall (Some p) i k = Some (Inr (count_cycle (emit ?out k)))"
    using True ne assms(2) by (auto simp: execute_syscall_def verify_ok [OF assms(1)] help_emits ram_chain [OF assms(3,4)])
  then show ?thesis
    using True ne count_cycle_keeps(1) [OF e(1)]
    by (intro exI [of _ "count_cycle (emit ?out k)"]) (auto simp: count_cycle_keeps e syscall_text_def)
next
  case False
  show ?thesis
  proof (cases "memory_guard (g_env k) = 0 \<or> isolation_active (g_env k) = 0")
    case True
    then have "execute_syscall (Some p) i k = Some (Inr k)"
      using False by (simp add: execute_syscall_def verify_ok [OF assms(1)])
    then show ?thesis using False True assms(1) by (simp add: syscall_text_def)
  next
    case guarded: False
    have loggable: "loggable (lit ''INVALID_SYSCALL_EXECUTION_ATTEMPT'')" by simp
    obtain l where l: "k_log 2 (lit ''INVALID_SYSCALL_EXECUTION_ATTEMPT'') k = Inr (k\<lparr>g_sys_log := l\<rparr>)"
      "env_ok (k\<lparr>g_sys_log := l\<rparr>)"
      by (rule k_log_ok [OF assms(1) loggable])
    let ?k = "emit [Print (ln ''Invalid system call.'')] (k\<lparr>g_sys_log := l\<rparr>)"
    have "execute_syscall (Some p) i k = Some (Inr ?k)"
      using False guarded assms(2) l(1) by (simp add: execute_syscall_def verify_ok [OF assms(1)])
    moreover have "priv_of ?k = priv_of k" "memory_heap ?k = memory_heap k" by (simp_all add: priv_of_def emit_def)
    ultimately show ?thesis using False guarded l by (intro exI [of _ ?k]) (simp add: syscall_text_def)
  qed
qed

text \<open>The kernel after its bootstrap and the first \<open>ram\<close>, which clears the heap.\<close>

definition booted_heap :: heap_kernel where
  "booted_heap = kernel.extend booted \<lparr>memory_heap = zero_heap, first_ram = False\<rparr>"

lemma booted_heap:
  "env_ok booted_heap" "fault_detected (g_env booted_heap) = fault_detected (g_env booted)"
  "memory_heap booted_heap = zero_heap" "\<not> first_ram booted_heap" "g_env booted_heap = g_env booted"
  using booted(2) by (simp_all add: booted_heap_def kernel.defs heap_kernel.defs env_ok_def)

section \<open>Operations on a machine\<close>

lemma vm_at_mem_size:
  assumes "vm_at h p s"
  obtains h' where "write32 h (MEM_SIZE p) v = Inr h'" "vm_at h' p (s\<lparr>mem_size := v\<rparr>)" "only_vm p h h'"
proof -
  let ?h = "take (MEM_SIZE p) h @ le32 v @ drop (MEM_SIZE p + 4) h"
  have b: "MEM_SIZE p + 4 \<le> length h" using assms by (simp add: vm_at_def MEM_SIZE_def)
  then have w: "write32 h (MEM_SIZE p) v = Inr ?h" by (rule write32_in)
  then have r: "write_range h (MEM_SIZE p) (le32 v) = Inr ?h" by (simp add: write32_def)
  have "read64 ?h (REG p j) = read64 h (REG p j)" if "j < 16" for j
    using that by (intro read64_apart [OF r]) (auto simp: vm_offsets)
  then have "vm_at ?h p (s\<lparr>mem_size := v\<rparr>)"
    using assms read32_write32 [OF w] length_write_range [OF r] read64_apart [OF r, of "PC p"]
      read32_apart [OF r, of "RUNNING p"] read32_apart [OF r, of "RAM p"]
    by (simp add: vm_at_def vm_offsets)
  moreover have "only_vm p h ?h" by (intro only_vm_write [OF r]) (auto simp: MEM_SIZE_def)
  ultimately show thesis using w that by blast
qed

lemma vm_at_ram:
  assumes "vm_at h p s"
  obtains h' where "write32 h (RAM p) v = Inr h'" "vm_at h' p (s\<lparr>ram_base := v\<rparr>)" "only_vm p h h'"
proof -
  let ?h = "take (RAM p) h @ le32 v @ drop (RAM p + 4) h"
  have b: "RAM p + 4 \<le> length h" using assms by (simp add: vm_at_def RAM_def)
  then have w: "write32 h (RAM p) v = Inr ?h" by (rule write32_in)
  then have r: "write_range h (RAM p) (le32 v) = Inr ?h" by (simp add: write32_def)
  have "read64 ?h (REG p j) = read64 h (REG p j)" if "j < 16" for j
    using that by (intro read64_apart [OF r]) (auto simp: vm_offsets)
  then have "vm_at ?h p (s\<lparr>ram_base := v\<rparr>)"
    using assms read32_write32 [OF w] length_write_range [OF r] read64_apart [OF r, of "PC p"]
      read32_apart [OF r, of "RUNNING p"] read32_apart [OF r, of "MEM_SIZE p"]
    by (simp add: vm_at_def vm_offsets)
  moreover have "only_vm p h ?h" by (intro only_vm_write [OF r]) (auto simp: RAM_def)
  ultimately show thesis using w that by blast
qed

text \<open>Any 148 bytes of the heap are a machine.\<close>

lemma vm_at_exists:
  assumes "unat p + 148 \<le> length h"
  obtains s where "vm_at h p s"
proof -
  have r32: "\<exists>w. read32 h i = Inr w" if "i + 4 \<le> length h" for i using that by (simp add: read32_in)
  have r64: "\<exists>w. read64 h i = Inr w" if "i + 8 \<le> length h" for i
    using that r32 [of i] r32 [of "i + 4"] by (auto simp: read64_def)
  have "\<forall>i. \<exists>w. i < 16 \<longrightarrow> read64 h (REG p i) = Inr w"
  proof
    fix i show "\<exists>w. i < 16 \<longrightarrow> read64 h (REG p i) = Inr w" using r64 [of "REG p i"] assms by (auto simp: REG_def)
  qed
  then obtain f where f: "\<And>i. i < 16 \<Longrightarrow> read64 h (REG p i) = Inr (f i)" by metis
  obtain a b c d where v: "read64 h (PC p) = Inr a" "read32 h (RUNNING p) = Inr b" "read32 h (MEM_SIZE p) = Inr c"
    "read32 h (RAM p) = Inr d"
    using r64 [of "PC p"] r32 [of "RUNNING p"] r32 [of "MEM_SIZE p"] r32 [of "RAM p"] assms by (auto simp: vm_offsets)
  have "vm_at h p \<lparr>registers = map f [0..<16], vm_pc = a, running = b, mem_size = c, ram_base = d\<rparr>"
    using f v assms by (simp add: vm_at_def)
  then show thesis by (rule that)
qed

lemma clear_registers_from:
  assumes "vm_at h p s" "m \<le> 16"
  shows "\<exists>h'. foldE (\<lambda>i h. write64 h (REG p i) 0) [0..<m] h = Inr h' \<and> only_vm p h h' \<and>
     vm_at h' p (s\<lparr>registers := replicate m 0 @ drop m (registers s)\<rparr>)"
  using assms(2)
proof (induction m)
  case 0
  then show ?case using assms(1) by simp
next
  case (Suc m)
  then obtain h1 where h1: "foldE (\<lambda>i h. write64 h (REG p i) 0) [0..<m] h = Inr h1" "only_vm p h h1"
    "vm_at h1 p (s\<lparr>registers := replicate m 0 @ drop m (registers s)\<rparr>)" by auto
  have l: "length (registers s) = 16" using assms(1) by (simp add: vm_at_def)
  obtain h2 where h2: "write64 h1 (REG p m) 0 = Inr h2" "only_vm p h1 h2"
    "vm_at h2 p (s\<lparr>registers := (replicate m 0 @ drop m (registers s))[m := 0]\<rparr>)"
    by (rule vm_at_register [OF h1(3), of m 0]) (use Suc.prems in auto)
  have "(replicate m 0 @ drop m (registers s))[m := 0] = replicate (Suc m) 0 @ drop (Suc m) (registers s)"
    using Suc.prems l by (intro nth_equalityI) (auto simp: nth_append nth_list_update nth_Cons' less_Suc_eq)
  then show ?case using h1 h2 only_vm_trans by (auto simp: foldE_append)
qed

lemma clear_registers_at:
  assumes "vm_at h p s"
  obtains h' where "clear_registers p h = Inr h'" "only_vm p h h'" "vm_at h' p (s\<lparr>registers := replicate 16 0\<rparr>)"
  using clear_registers_from [OF assms, of 16] assms that by (auto simp: clear_registers_def vm_at_def)

text \<open>A heap that agrees on the bytes of the machine holds the same machine.\<close>

lemma vm_at_cong:
  assumes "vm_at h p s" "length h' = length h" "\<And>j. unat p \<le> j \<Longrightarrow> j < unat p + 148 \<Longrightarrow> h' ! j = h ! j"
  shows "vm_at h' p s"
proof -
  have r32: "read32 h' i = read32 h i" if "unat p \<le> i" "i + 4 \<le> unat p + 148" for i
    using assms(2) by (rule read32_cong) (use that assms(3) in auto)
  have r64: "read64 h' i = read64 h i" if "unat p \<le> i" "i + 8 \<le> unat p + 148" for i
    using that r32 [of i] r32 [of "i + 4"] by (simp add: read64_def)
  show ?thesis using assms(1,2) by (simp add: vm_at_def r32 r64 vm_offsets)
qed

lemma load_loop:
  assumes "vm_at h p s" "apart p (ram_base s) n" "unat (ram_base s) + n \<le> length h" "length h \<le> 65536"
    "n \<le> length prog" "m \<le> n"
  shows "\<exists>h'. foldE (\<lambda>i h. bindE (read32 h (RAM p)) (\<lambda>a. bindE (get prog i) (\<lambda>b. put h (unat (a + of_nat i)) b))) [0..<m] h = Inr h' \<and>
     vm_at h' p s \<and> length h' = length h \<and>
     (\<forall>j < length h. h' ! j = (if unat (ram_base s) \<le> j \<and> j < unat (ram_base s) + m then prog ! (j - unat (ram_base s)) else h ! j))"
  using assms(6)
proof (induction m)
  case 0
  then show ?case using assms(1) by auto
next
  case (Suc m)
  then obtain h1 where h1: "foldE (\<lambda>i h. bindE (read32 h (RAM p)) (\<lambda>a. bindE (get prog i) (\<lambda>b. put h (unat (a + of_nat i)) b))) [0..<m] h = Inr h1"
    "vm_at h1 p s" "length h1 = length h"
    "\<forall>j < length h. h1 ! j = (if unat (ram_base s) \<le> j \<and> j < unat (ram_base s) + m then prog ! (j - unat (ram_base s)) else h ! j)"
    by auto
  let ?j = "unat (ram_base s) + m"
  have j: "?j < length h" using Suc.prems assms(3) by simp
  have u: "unat (ram_base s + of_nat m) = ?j"
    using j assms(4) by (subst unat_add_lem [THEN iffD1]) (simp_all add: unat_of_nat)
  have out: "?j < unat p \<or> unat p + 148 \<le> ?j" using Suc.prems assms(2) by (auto simp: apart_def)
  have v: "vm_at (h1[?j := prog ! m]) p s"
    by (rule vm_at_cong [OF h1(2)]) (use out in auto)
  have "(h1[?j := prog ! m]) ! i =
      (if unat (ram_base s) \<le> i \<and> i < unat (ram_base s) + Suc m then prog ! (i - unat (ram_base s)) else h ! i)"
    if "i < length h" for i
    using that h1(3,4) by (cases "i = ?j") auto
  moreover have "read32 h1 (RAM p) = Inr (ram_base s)" using h1(2) by (simp add: vm_at_def)
  ultimately show ?case
    using h1 v u j Suc.prems assms(5) by (intro exI [of _ "h1[?j := prog ! m]"]) (simp add: foldE_append)
qed

lemma vm_load_program_eq:
  assumes "vm_at h p s" "ram_base s \<noteq> 0" "apart p (ram_base s) (unat n)" "unat (ram_base s) + unat n \<le> length h"
    "length h \<le> 65536" "unat n \<le> length prog" "n \<le> mem_size s"
  obtains h' where "vm_load_program (Some p) prog n (k\<lparr>memory_heap := h\<rparr>) = Some (Inr (k\<lparr>memory_heap := h'\<rparr>))"
    "vm_at h' p s" "code_at h' (ram_base s) (take (unat n) prog)" "length h' = length h"
    "\<forall>j < length h. j < unat (ram_base s) \<or> unat (ram_base s) + unat n \<le> j \<longrightarrow> h' ! j = h ! j"
proof -
  from load_loop [OF assms(1,3-6) order_refl] obtain h' where h':
    "foldE (\<lambda>i h. bindE (read32 h (RAM p)) (\<lambda>a. bindE (get prog i) (\<lambda>b. put h (unat (a + of_nat i)) b))) [0..<unat n] h = Inr h'"
    "vm_at h' p s" "length h' = length h"
    "\<forall>j < length h. h' ! j = (if unat (ram_base s) \<le> j \<and> j < unat (ram_base s) + unat n then prog ! (j - unat (ram_base s)) else h ! j)"
    by blast
  have r: "read32 h (RAM p) = Inr (ram_base s)" "read32 h (MEM_SIZE p) = Inr (mem_size s)" using assms(1) by (simp_all add: vm_at_def)
  have "vm_load_program (Some p) prog n (k\<lparr>memory_heap := h\<rparr>) = Some (Inr (k\<lparr>memory_heap := h'\<rparr>))"
    using assms(2,7) r h'(1) by (simp add: vm_load_program_def heap_get_def k_lift_def heap_do_def not_less)
  moreover have "code_at h' (ram_base s) (take (unat n) prog)"
    using h'(3,4) assms(4,6) by (simp add: code_at_def)
  moreover have "\<forall>j < length h. j < unat (ram_base s) \<or> unat (ram_base s) + unat n \<le> j \<longrightarrow> h' ! j = h ! j"
    using h'(4) by auto
  ultimately show thesis using h'(2,3) by (intro that)
qed

text \<open>The operations of the interface, one after the other, and what they do to the state of the machine.\<close>

datatype vm_op = Vm_reset | Vm_set int u64 | Vm_load "u8 list"

fun vm_apply :: "u32 \<Rightarrow> vm_op \<Rightarrow> 'z heap_kernel_scheme \<Rightarrow> 'z hres option" where
  "vm_apply p Vm_reset k = vm_reset (Some p) k"
| "vm_apply p (Vm_set i v) k = vm_set_register (Some p) i v k"
| "vm_apply p (Vm_load prog) k = vm_load_program (Some p) prog (of_nat (length prog)) k"

fun vm_apply_all :: "u32 \<Rightarrow> vm_op list \<Rightarrow> 'z heap_kernel_scheme \<Rightarrow> 'z hres option" where
  "vm_apply_all p [] k = Some (Inr k)"
| "vm_apply_all p (x # xs) k = bindP (vm_apply p x k) (vm_apply_all p xs)"

text \<open>
  The abstract machine is its state and the bytes of its memory; a program larger than the memory is refused.
\<close>

fun vm_spec :: "vm_op \<Rightarrow> vm_state \<times> u8 list \<Rightarrow> vm_state \<times> u8 list" where
  "vm_spec Vm_reset (s, m) = (s\<lparr>registers := replicate 16 0, vm_pc := 0, running := 0\<rparr>, m)"
| "vm_spec (Vm_set i v) (s, m) = (if 0 \<le> i \<and> i < 16 then s\<lparr>registers := (registers s)[nat i := v]\<rparr> else s, m)"
| "vm_spec (Vm_load prog) (s, m) = (s, if length prog \<le> length m then prog @ drop (length prog) m else m)"

text \<open>The heap holds a machine with its memory; two heaps are the same outside of both.\<close>

fun vm_holds :: "u8 list \<Rightarrow> u32 \<Rightarrow> vm_state \<times> u8 list \<Rightarrow> bool" where
  "vm_holds h p (s, m) \<longleftrightarrow> vm_at h p s \<and> code_at h (ram_base s) m \<and> ram_base s \<noteq> 0 \<and>
     apart p (ram_base s) (length m) \<and> length m \<le> unat (mem_size s) \<and> length h \<le> 65536"

definition same_outside :: "u32 \<Rightarrow> u32 \<Rightarrow> nat \<Rightarrow> u8 list \<Rightarrow> u8 list \<Rightarrow> bool" where
  "same_outside p r n h h' \<longleftrightarrow> length h' = length h \<and>
     (\<forall>j < length h. (j < unat p \<or> unat p + 148 \<le> j) \<and> (j < unat r \<or> unat r + n \<le> j) \<longrightarrow> h' ! j = h ! j)"

lemma same_outside_trans: "same_outside p r n h h1 \<Longrightarrow> same_outside p r n h1 h2 \<Longrightarrow> same_outside p r n h h2"
  by (simp add: same_outside_def)

lemma only_vm_same_outside: "only_vm p h h' \<Longrightarrow> same_outside p r n h h'"
  unfolding only_vm_def same_outside_def by blast

text \<open>Programs that fit the bytes at hand, or are refused.\<close>

fun op_ok :: "nat \<Rightarrow> u32 \<Rightarrow> vm_op \<Rightarrow> bool" where
  "op_ok n sz (Vm_load prog) \<longleftrightarrow> length prog < 2 ^ 32 \<and> (length prog \<le> n \<or> unat sz < length prog)"
| "op_ok n sz _ \<longleftrightarrow> True"

lemma vm_holds_state:
  assumes "vm_holds h p (s, m)" "only_vm p h h'" "vm_at h' p s'" "ram_base s' = ram_base s" "mem_size s' = mem_size s"
  shows "vm_holds h' p (s', m)" "same_outside p (ram_base s) (length m) h h'"
  using assms code_at_only_vm [of h "ram_base s" m p h'] by (auto simp: only_vm_same_outside) (simp add: only_vm_def)

lemma vm_load_spec:
  assumes "vm_holds h p (s, m)" "op_ok (length m) (mem_size s) (Vm_load prog)"
  shows "\<exists>h'. vm_apply p (Vm_load prog) (k\<lparr>memory_heap := h\<rparr>) = Some (Inr (k\<lparr>memory_heap := h'\<rparr>)) \<and>
     vm_holds h' p (vm_spec (Vm_load prog) (s, m)) \<and> same_outside p (ram_base s) (length m) h h'"
proof -
  from assms(1) have a: "vm_at h p s" "code_at h (ram_base s) m" "ram_base s \<noteq> 0" "apart p (ram_base s) (length m)"
    "length m \<le> unat (mem_size s)" "length h \<le> 65536" by simp_all
  have u: "unat (of_nat (length prog) :: u32) = length prog" using assms(2) by (simp add: unat_of_nat)
  show ?thesis
  proof (cases "length prog \<le> length m")
    case True
    have le: "(of_nat (length prog) :: u32) \<le> mem_size s" using a(5) True u by (simp add: word_le_nat_alt)
    obtain h' where h': "vm_load_program (Some p) prog (of_nat (length prog)) (k\<lparr>memory_heap := h\<rparr>) = Some (Inr (k\<lparr>memory_heap := h'\<rparr>))"
      "vm_at h' p s" "code_at h' (ram_base s) prog" "length h' = length h"
      "\<forall>j < length h. j < unat (ram_base s) \<or> unat (ram_base s) + length prog \<le> j \<longrightarrow> h' ! j = h ! j"
      by (rule vm_load_program_eq [OF a(1,3) _ _ a(6) _ le, of prog k, unfolded u])
        (use a(2,4) True in \<open>auto simp: apart_def code_at_def\<close>)
    have "code_at h' (ram_base s) (prog @ drop (length prog) m)"
      using h'(3-5) a(2) True by (auto simp: code_at_def nth_append)
    with a h' True show ?thesis by (intro exI [of _ h']) (auto simp: same_outside_def)
  next
    case False
    then have "mem_size s < of_nat (length prog)" using assms(2) u by (simp add: word_less_nat_alt)
    moreover have "read32 h (RAM p) = Inr (ram_base s)" "read32 h (MEM_SIZE p) = Inr (mem_size s)"
      using a(1) by (simp_all add: vm_at_def)
    ultimately show ?thesis
      using False a by (intro exI [of _ h]) (simp add: vm_load_program_def heap_get_def k_lift_def same_outside_def)
  qed
qed

lemma vm_apply_spec:
  assumes "vm_holds h p (s, m)" "op_ok (length m) (mem_size s) x"
  shows "\<exists>h'. vm_apply p x (k\<lparr>memory_heap := h\<rparr>) = Some (Inr (k\<lparr>memory_heap := h'\<rparr>)) \<and>
     vm_holds h' p (vm_spec x (s, m)) \<and> same_outside p (ram_base s) (length m) h h'"
proof (cases x)
  case Vm_reset
  have v: "vm_at h p s" using assms(1) by simp
  obtain h1 where h1: "write64 h (PC p) 0 = Inr h1" "vm_at h1 p (s\<lparr>vm_pc := 0\<rparr>)" "only_vm p h h1"
    by (rule vm_at_pc [OF v, of 0])
  obtain h2 where h2: "write32 h1 (RUNNING p) 0 = Inr h2" "vm_at h2 p (s\<lparr>vm_pc := 0, running := 0\<rparr>)" "only_vm p h1 h2"
    by (rule vm_at_running [OF h1(2), of 0]) simp
  obtain h3 where h3: "clear_registers p h2 = Inr h3" "only_vm p h2 h3"
    "vm_at h3 p (s\<lparr>vm_pc := 0, running := 0, registers := replicate 16 0\<rparr>)"
    by (rule clear_registers_at [OF h2(2)])
  have o: "only_vm p h h3" using h1(3) h2(3) h3(2) by (meson only_vm_trans)
  have e: "vm_spec Vm_reset (s, m) = (s\<lparr>vm_pc := 0, running := 0, registers := replicate 16 0\<rparr>, m)" by (cases s) simp
  from vm_holds_state [OF assms(1) o h3(3)] h1(1) h2(1) h3(1) show ?thesis
    unfolding Vm_reset e by (intro exI [of _ h3]) (simp add: vm_reset_def heap_do_def)
next
  case (Vm_set i v)
  show ?thesis
  proof (cases "0 \<le> i \<and> i < 16")
    case True
    then have "nat i < 16" by (simp add: nat_less_iff)
    then obtain h' where h': "write64 h (REG p (nat i)) v = Inr h'"
      "vm_at h' p (s\<lparr>registers := (registers s)[nat i := v]\<rparr>)" "only_vm p h h'"
      using assms(1) by (auto elim: vm_at_register)
    from vm_holds_state [OF assms(1) h'(3,2)] h'(1) True Vm_set show ?thesis
      by (intro exI [of _ h']) (simp add: vm_set_register_def heap_do_def)
  next
    case False
    then show ?thesis
      using Vm_set assms(1) by (intro exI [of _ h]) (auto simp: vm_set_register_def same_outside_def)
  qed
next
  case (Vm_load prog)
  with vm_load_spec [OF assms(1), of prog k] assms(2) show ?thesis by simp
qed

lemma vm_spec_keeps:
  "ram_base (fst (vm_spec x (s, m))) = ram_base s" "mem_size (fst (vm_spec x (s, m))) = mem_size s"
  "length (snd (vm_spec x (s, m))) = length m"
  by (cases x; simp)+

lemma vm_fold_keeps:
  "ram_base (fst (fold vm_spec xs q)) = ram_base (fst q) \<and> length (snd (fold vm_spec xs q)) = length (snd q)"
proof (induction xs arbitrary: q)
  case (Cons x xs)
  show ?case using Cons [of "vm_spec x q"] vm_spec_keeps [of x "fst q" "snd q"] by simp
qed simp

lemma vm_apply_all_spec:
  assumes "vm_holds h p (s, m)" "list_all (op_ok (length m) (mem_size s)) xs"
  shows "\<exists>h'. vm_apply_all p xs (k\<lparr>memory_heap := h\<rparr>) = Some (Inr (k\<lparr>memory_heap := h'\<rparr>)) \<and>
     vm_holds h' p (fold vm_spec xs (s, m)) \<and> same_outside p (ram_base s) (length m) h h'"
  using assms
proof (induction xs arbitrary: h s m)
  case Nil
  then show ?case by (intro exI [of _ h]) (simp add: same_outside_def)
next
  case (Cons x xs)
  from Cons.prems(2) have f: "op_ok (length m) (mem_size s) x" "list_all (op_ok (length m) (mem_size s)) xs" by simp_all
  from vm_apply_spec [OF Cons.prems(1) f(1), of k] obtain h1 where h1:
    "vm_apply p x (k\<lparr>memory_heap := h\<rparr>) = Some (Inr (k\<lparr>memory_heap := h1\<rparr>))" "vm_holds h1 p (vm_spec x (s, m))"
    "same_outside p (ram_base s) (length m) h h1" by blast
  obtain s1 m1 where v: "vm_spec x (s, m) = (s1, m1)" by (cases "vm_spec x (s, m)")
  have e: "ram_base s1 = ram_base s" "mem_size s1 = mem_size s" "length m1 = length m"
    using vm_spec_keeps [of x s m] v by simp_all
  from Cons.IH [of h1 s1 m1] h1 v f(2) e show ?case by (auto intro: same_outside_trans)
qed

text \<open>
  C33: whatever sequence of \<open>vm_reset\<close>, \<open>vm_set_register\<close> (any index) and \<open>vm_load_program\<close> is applied to a
  machine whose memory is in the heap, no operation faults, and state and memory are what the abstract operations
  give: a program that fits is copied to the start of the memory, one that is larger than the memory is refused and
  changes nothing.  No other byte of the heap changes, and reading a register gives the entry of the abstract list,
  0 for an index out of range.  (When only the first \<open>length m\<close> bytes of the memory are in the heap, the programs
  are to fit those or to be larger than the memory.)
\<close>
theorem vm_operations_keep_the_machine:
  assumes "vm_at h p s" "code_at h (ram_base s) m" "ram_base s \<noteq> 0" "apart p (ram_base s) (length m)"
    "length m \<le> unat (mem_size s)" "length h \<le> 65536"
    "\<forall>prog. Vm_load prog \<in> set xs \<longrightarrow> length prog < 2 ^ 32 \<and> (length prog \<le> length m \<or> unat (mem_size s) < length prog)"
  shows "\<exists>h' s' m'. fold vm_spec xs (s, m) = (s', m') \<and>
     vm_apply_all p xs (k\<lparr>memory_heap := h\<rparr>) = Some (Inr (k\<lparr>memory_heap := h'\<rparr>)) \<and>
     vm_at h' p s' \<and> code_at h' (ram_base s) m' \<and> length m' = length m \<and> length (registers s') = 16 \<and>
     same_outside p (ram_base s) (length m) h h' \<and>
     (\<forall>i. vm_get_register (Some p) i (k\<lparr>memory_heap := h'\<rparr>) =
        Some (Inr (if 0 \<le> i \<and> i < 16 then registers s' ! nat i else 0)))"
proof -
  have ok: "op_ok (length m) (mem_size s) x" if "x \<in> set xs" for x
  proof (cases x)
    case (Vm_load prog)
    with that assms(7) show ?thesis by simp
  qed simp_all
  have v: "vm_holds h p (s, m)" using assms(1-6) by simp
  obtain h' where h': "vm_apply_all p xs (k\<lparr>memory_heap := h\<rparr>) = Some (Inr (k\<lparr>memory_heap := h'\<rparr>))"
    "vm_holds h' p (fold vm_spec xs (s, m))" "same_outside p (ram_base s) (length m) h h'"
    using vm_apply_all_spec [OF v, of xs k] ok by (auto simp: list_all_iff)
  obtain s' m' where f: "fold vm_spec xs (s, m) = (s', m')" by (cases "fold vm_spec xs (s, m)")
  with vm_fold_keeps [of xs "(s, m)"] have "ram_base s' = ram_base s" "length m' = length m" by simp_all
  with h' f show ?thesis
    by (intro exI [of _ h'] exI [of _ s'] exI [of _ m'])
      (auto simp: vm_at_def vm_get_register_def heap_get_def k_lift_def)
qed

theorem vm_operations_keep_the_machine_witness:
  "\<forall>k :: heap_kernel. \<exists>h'. vm_apply_all 0 [Vm_set 3 7, Vm_load [1, 2], Vm_load [3, 4, 5], Vm_set 16 9]
       (k\<lparr>memory_heap := tiny_heap [0, 0]\<rparr>) = Some (Inr (k\<lparr>memory_heap := h'\<rparr>)) \<and> code_at h' 148 [1, 2] \<and>
     vm_get_register (Some 0) 3 (k\<lparr>memory_heap := h'\<rparr>) = Some (Inr 7)"
proof
  fix k :: heap_kernel
  let ?xs = "[Vm_set 3 7, Vm_load [1, 2], Vm_load [3, 4, 5], Vm_set 16 9]" and ?h = "tiny_heap [0, 0]" and ?s = "tiny_vm 2"
  have v: "vm_at ?h 0 ?s" using tiny_vm_at [of "[0, 0]"] by (simp add: numeral_2_eq_2)
  have "\<forall>prog. Vm_load prog \<in> set ?xs \<longrightarrow> length prog < 2 ^ 32 \<and> (length prog \<le> length [0, 0 :: u8] \<or> unat (mem_size ?s) < length prog)"
    by (simp add: tiny_vm_def)
  then obtain h' s' m' where f: "fold vm_spec ?xs (?s, [0, 0]) = (s', m')" and
    h': "vm_apply_all 0 ?xs (k\<lparr>memory_heap := ?h\<rparr>) = Some (Inr (k\<lparr>memory_heap := h'\<rparr>))" "code_at h' (ram_base ?s) m'"
      "\<forall>i. vm_get_register (Some 0) i (k\<lparr>memory_heap := h'\<rparr>) =
        Some (Inr (if 0 \<le> i \<and> i < 16 then registers s' ! nat i else 0))"
    using vm_operations_keep_the_machine [OF v, of "[0, 0]" ?xs k] tiny_code_at [of "[0, 0]"] tiny_apart
    by (auto simp: tiny_vm_def tiny_heap_def)
  from f h'(2) h'(3) [rule_format, of 3] h'(1) show
    "\<exists>h'. vm_apply_all 0 ?xs (k\<lparr>memory_heap := ?h\<rparr>) = Some (Inr (k\<lparr>memory_heap := h'\<rparr>)) \<and> code_at h' 148 [1, 2] \<and>
      vm_get_register (Some 0) 3 (k\<lparr>memory_heap := h'\<rparr>) = Some (Inr 7)"
    by (intro exI [of _ h']) (auto simp: tiny_vm_def)
qed

section \<open>Starting a machine\<close>

text \<open>
  The heap after \<open>vm_create\<close> of the kernel's machine: the state took 148 bytes at the end of the chain and
  the header of the memory follows, with the requested size, wherever that reaches.
\<close>

lemma create_writes:
  assumes "unat p + 148 \<le> length h"
  obtains h' where "vm_at h' p \<lparr>registers = replicate 16 0, vm_pc = 0, running = 0, mem_size = n, ram_base = r\<rparr>"
    "only_vm p h h'"
    "bindE (write32 h (RAM p) r) (\<lambda>h. bindE (write64 h (PC p) 0) (\<lambda>h. bindE (write32 h (RUNNING p) 0) (\<lambda>h.
       bindE (write32 h (MEM_SIZE p) n) (clear_registers p)))) = Inr h'"
proof -
  obtain s where s: "vm_at h p s" by (rule vm_at_exists [OF assms])
  obtain h1 where h1: "write32 h (RAM p) r = Inr h1" "vm_at h1 p (s\<lparr>ram_base := r\<rparr>)" "only_vm p h h1" by (rule vm_at_ram [OF s])
  obtain h2 where h2: "write64 h1 (PC p) 0 = Inr h2" "vm_at h2 p (s\<lparr>ram_base := r, vm_pc := 0\<rparr>)" "only_vm p h1 h2"
    by (rule vm_at_pc [OF h1(2), of 0])
  obtain h3 where h3: "write32 h2 (RUNNING p) 0 = Inr h3" "vm_at h3 p (s\<lparr>ram_base := r, vm_pc := 0, running := 0\<rparr>)" "only_vm p h2 h3"
    by (rule vm_at_running [OF h2(2), of 0])
  obtain h4 where h4: "write32 h3 (MEM_SIZE p) n = Inr h4"
    "vm_at h4 p (s\<lparr>ram_base := r, vm_pc := 0, running := 0, mem_size := n\<rparr>)" "only_vm p h3 h4"
    by (rule vm_at_mem_size [OF h3(2), of n])
  obtain h5 where h5: "clear_registers p h4 = Inr h5" "only_vm p h4 h5"
    "vm_at h5 p (s\<lparr>ram_base := r, vm_pc := 0, running := 0, mem_size := n, registers := replicate 16 0\<rparr>)"
    by (rule clear_registers_at [OF h4(2)])
  have "s\<lparr>ram_base := r, vm_pc := 0, running := 0, mem_size := n, registers := replicate 16 0\<rparr> =
      \<lparr>registers = replicate 16 0, vm_pc = 0, running = 0, mem_size = n, ram_base = r\<rparr>" by (cases s) simp
  with h5(3) have v: "vm_at h5 p \<lparr>registers = replicate 16 0, vm_pc = 0, running = 0, mem_size = n, ram_base = r\<rparr>"
    by (simp only:)
  have "only_vm p h h5"
    using h1(3) h2(3) h3(3) h4(3) h5(2) by (meson only_vm_trans)
  then show thesis using h1(1) h2(1) h3(1) h4(1) h5(1) by (intro that [OF v]) simp_all
qed

lemma vm_create_kernel_machine:
  assumes "heap_ok h bs" "\<forall>b \<in> set bs. too_small 148 b" "span bs + 172 \<le> 65536"
  obtains h' where "vm_create VM_RAM_SIZE (k\<lparr>memory_heap := h\<rparr>) = Some (Inr (Some (of_nat (span bs + 8)), k\<lparr>memory_heap := h'\<rparr>))"
    "vm_at h' (of_nat (span bs + 8)) \<lparr>registers = replicate 16 0, vm_pc = 0, running = 0, mem_size = VM_RAM_SIZE,
       ram_base = of_nat (span bs + 164)\<rparr>"
    "length h' = 65536" "\<forall>i < 65536. span bs + 164 \<le> i \<longrightarrow> h' ! i = 0"
    "blocks h' 0 bs" "read32 h' (span bs) = Inr 148" "read32 h' (span bs + 156) = Inr VM_RAM_SIZE"
proof -
  let ?p = "of_nat (span bs + 8) :: u32" let ?bs = "bs @ [(148, True)]"
  have up: "unat ?p = span bs + 8" using assms(3) by (intro u32_nat) simp
  from malloc_extend [OF assms(1) _ _ assms(2)] assms(3) obtain h1 where h1:
    "whitex_malloc 148 h = Some (Inr (Some ?p, h1))" "heap_ok h1 ?bs" by auto
  have tw: "takeWhile (too_small 65536) ?bs = ?bs"
  proof -
    have "too_small 65536 b" if "b \<in> set ?bs" for b
      using that assms(2,3) by (auto simp: too_small_def)
    then show ?thesis by (simp only: takeWhile_eq_all_conv) blast
  qed
  have v: "(of_nat 65536 :: u32) = VM_RAM_SIZE" by (simp add: VM_RAM_SIZE_def)
  from malloc_writes [OF h1(2), of 65536] obtain h2 where h2:
    "whitex_malloc VM_RAM_SIZE h1 = Some (Inr (Some (of_nat (span bs + 164)), h2))" "length h2 = 65536"
    "read32 h2 (span bs + 156) = Inr VM_RAM_SIZE"
    "\<forall>i < 65536. i < span bs + 156 \<or> span bs + 161 \<le> i \<longrightarrow> h2 ! i = h1 ! i"
    unfolding tw v by (auto simp: add.assoc)
  obtain h' where h': "vm_at h' ?p \<lparr>registers = replicate 16 0, vm_pc = 0, running = 0, mem_size = VM_RAM_SIZE,
       ram_base = of_nat (span bs + 164)\<rparr>" "only_vm ?p h2 h'"
    "bindE (write32 h2 (RAM ?p) (of_nat (span bs + 164))) (\<lambda>h. bindE (write64 h (PC ?p) 0) (\<lambda>h. bindE (write32 h (RUNNING ?p) 0) (\<lambda>h.
       bindE (write32 h (MEM_SIZE ?p) VM_RAM_SIZE) (clear_registers ?p)))) = Inr h'"
    by (rule create_writes [of ?p h2]) (use up assms(3) h2(2) in simp)
  then obtain hr where hr: "write32 h2 (RAM ?p) (of_nat (span bs + 164)) = Inr hr"
    "bindE (write64 hr (PC ?p) 0) (\<lambda>h. bindE (write32 h (RUNNING ?p) 0) (\<lambda>h.
       bindE (write32 h (MEM_SIZE ?p) VM_RAM_SIZE) (clear_registers ?p))) = Inr h'" by (auto simp: bindE_eq_Inr)
  have c: "vm_create VM_RAM_SIZE (k\<lparr>memory_heap := h\<rparr>) = Some (Inr (Some ?p, k\<lparr>memory_heap := h'\<rparr>))"
    using h1(1) h2(1) hr by (simp add: vm_create_def VM_SIZE_def k_malloc_def heap_do_def)
  have len: "length h' = 65536" using h2(2) h'(2) by (simp add: only_vm_def)
  have same: "h' ! i = h1 ! i" if "i < 65536" "i < span bs + 8 \<or> span bs + 161 \<le> i" for i
    using that h2(2,4) h'(2) up by (auto simp: only_vm_def)
  note d = heap_okD [OF h1(2)]
  have "blocks h' 0 bs"
    by (rule blocks_cong [of h' h1]) (use len d same in \<open>auto simp: blocks_append\<close>)
  moreover have "read32 h' (span bs) = read32 h1 (span bs)" by (rule read32_cong) (use len d same in auto)
  moreover have "read32 h' (span bs + 156) = read32 h2 (span bs + 156)"
    by (rule read32_cong) (use h2(2) len h'(2) up in \<open>auto simp: only_vm_def\<close>)
  moreover have "read32 h1 (span bs) = Inr 148" using d(2) by (simp add: blocks_append)
  moreover have "\<forall>i < 65536. span bs + 164 \<le> i \<longrightarrow> h' ! i = 0" using same d(4) by auto
  ultimately show thesis using c h'(1) len h2(3) by (intro that) simp_all
qed

lemma zero_code_stops: "isa_run 1 (replicate 8 0) (regs, 0, k) = Some (regs, 8, k)"
proof -
  have "read64 (replicate 8 0) 0 = Inr 0" "isa_decode 0 = Isa_stop" by code_simp+
  then show ?thesis by simp
qed

lemma heap_id [simp]: "k\<lparr>memory_heap := memory_heap k\<rparr> = k"
  by simp

lemma destroy_machine:
  assumes "vm_at h p s" "8 \<le> unat (ram_base s)" "8 \<le> unat p" "unat (ram_base s) \<le> length h" "length h = 65536"
  shows "vm_destroy (Some p) (k\<lparr>memory_heap := h\<rparr>) =
     Some (Inr (k\<lparr>memory_heap := h[unat (ram_base s) - 4 := BLOCK_FREE, unat p - 4 := BLOCK_FREE]\<rparr>))"
proof -
  have u: "unat (a - HDR) + 4 = unat a - 4" if "8 \<le> unat a" for a :: u32
    using that by (simp add: HDR_def unat_sub_if')
  have "read32 h (RAM p) = Inr (ram_base s)" "unat p < length h" using assms(1) by (simp_all add: vm_at_def)
  moreover have "ram_base s \<noteq> 0" using assms(2) by auto
  ultimately show ?thesis
    using assms(2-5) u [OF assms(2)] u [OF assms(3)]
    by (simp add: vm_destroy_def heap_get_def k_lift_def heap_do_def whitex_free_def)
qed

lemma kernel_machine_needs_root:
  "env_ok k \<Longrightarrow> is_root (g_env k) = 0 \<and> isolation_active (g_env k) \<noteq> 0 \<Longrightarrow>
   sys_vm_init k = Some (Inr (emit [Print (ln ''SYS_ERR: Unauthorized virtualization request.'')] k))"
  by (simp add: sys_vm_init_def)

text \<open>
  \<open>sys_vm_init\<close> for root (or without isolation), on a sound environment and a sound heap with room for the
  state: it logs, starts a machine whose first instruction is zero and hence a stop, and returns with
  the environment and the console unchanged and both blocks released; the memory block that was given to
  the machine is recorded with its 65536 bytes although fewer are left in the heap.
\<close>
lemma kernel_machine_runs_one_instruction:
  assumes "env_ok k" and a: "\<not> (is_root (g_env k) = 0 \<and> isolation_active (g_env k) \<noteq> 0)" "heap_ok (memory_heap k) bs"
    "\<forall>b \<in> set bs. too_small 148 b" "span bs + 172 \<le> 65536"
  shows "\<exists>k'. sys_vm_init k = Some (Inr k') \<and> env_ok k' \<and> g_env k' = g_env k \<and> console k' = console k \<and>
        blocks (memory_heap k') 0 (bs @ [(148, False)]) \<and>
        read32 (memory_heap k') (span bs + 156) = Inr VM_RAM_SIZE \<and> memory_heap k' ! (span bs + 160) = BLOCK_FREE \<and>
        length (memory_heap k') < span bs + 164 + unat VM_RAM_SIZE"
proof -
  let ?p = "of_nat (span bs + 8) :: u32" let ?r = "of_nat (span bs + 164) :: u32"
  have up: "unat ?p = span bs + 8" "unat ?r = span bs + 164" using a(4) by (auto intro!: u32_nat simp del: of_nat_add)
  obtain h1 where h1: "vm_create VM_RAM_SIZE k = Some (Inr (Some ?p, k\<lparr>memory_heap := h1\<rparr>))"
    "vm_at h1 ?p \<lparr>registers = replicate 16 0, vm_pc = 0, running = 0, mem_size = VM_RAM_SIZE, ram_base = ?r\<rparr>"
    "length h1 = 65536" "\<forall>i < 65536. span bs + 164 \<le> i \<longrightarrow> h1 ! i = 0" "blocks h1 0 bs" "read32 h1 (span bs) = Inr 148"
    "read32 h1 (span bs + 156) = Inr VM_RAM_SIZE"
    using vm_create_kernel_machine [OF a(2-4), of k] unfolding heap_id by blast
  let ?s = "\<lparr>registers = replicate 16 0, vm_pc = 0, running = 0, mem_size = VM_RAM_SIZE, ram_base = ?r\<rparr>"
  let ?k = "k\<lparr>memory_heap := h1\<rparr>"
  have ok: "env_ok ?k" using assms(1) by (simp add: env_ok_def)
  obtain l where l: "k_log 1 (lit ''VM_ENVIRONMENT_STARTED'') ?k = Inr (?k\<lparr>g_sys_log := l\<rparr>)" "env_ok (?k\<lparr>g_sys_log := l\<rparr>)"
    by (rule k_log_ok [OF ok, of "lit ''VM_ENVIRONMENT_STARTED''" 1]) simp
  let ?k1 = "k\<lparr>g_sys_log := l\<rparr>"
  have k1: "?k\<lparr>g_sys_log := l\<rparr> = ?k1\<lparr>memory_heap := h1\<rparr>" by simp
  have "code_at h1 ?r (replicate 8 0)" using h1(3,4) a(4) up by (simp add: code_at_def)
  then have "\<exists>h2. vm_run (Some ?p) (?k1\<lparr>memory_heap := h1\<rparr>) = Some (Inr (?k1\<lparr>memory_heap := h2\<rparr>)) \<and>
      only_vm ?p h1 h2 \<and> vm_at h2 ?p (?s\<lparr>registers := replicate 16 0, vm_pc := 8, running := 0\<rparr>)"
  proof (intro vm_run_refines_interpreter [OF h1(2), of "replicate 8 0" 1])
    show "isa_run 1 (replicate 8 0) (registers ?s, vm_pc ?s, ?k1) = Some (replicate 16 0, 8, ?k1)"
      unfolding vm_state.simps by (rule zero_code_stops)
    show "ram_base ?s \<noteq> 0" using up by (metis add_is_0 unat_0 vm_state.select_convs(5) zero_neq_numeral)
  qed (use up h1(3) in \<open>simp_all add: apart_def del: of_nat_add\<close>)
  then obtain h2 where h2: "vm_run (Some ?p) (?k1\<lparr>memory_heap := h1\<rparr>) = Some (Inr (?k1\<lparr>memory_heap := h2\<rparr>))"
    "only_vm ?p h1 h2" "vm_at h2 ?p (?s\<lparr>registers := replicate 16 0, vm_pc := 8, running := 0\<rparr>)" by blast
  let ?h = "h2[span bs + 160 := BLOCK_FREE, span bs + 4 := BLOCK_FREE]"
  have len2: "length h2 = 65536" using h2(2) h1(3) by (simp add: only_vm_def)
  have dst: "vm_destroy (Some ?p) (?k1\<lparr>memory_heap := h2\<rparr>) = Some (Inr (?k1\<lparr>memory_heap := ?h\<rparr>))"
    using destroy_machine [OF h2(3) _ _ _ len2, of ?k1] up a(4) len2 by (simp add: add.commute del: of_nat_add)
  have run: "sys_vm_init k = Some (Inr (?k1\<lparr>memory_heap := ?h\<rparr>))"
    using h1(1) l(1) h2(1) dst unfolding k1 sys_vm_init_def verify_ok [OF assms(1)] bindP_simps if_not_P [OF a(1)] by simp
  have same: "?h ! i = h1 ! i" if "i < 65536" "i < span bs + 8 \<or> span bs + 156 \<le> i" "i \<noteq> span bs + 4" "i \<noteq> span bs + 160" for i
    using that h2(2) up h1(3) by (auto simp: only_vm_def)
  have "blocks ?h 0 bs" by (rule blocks_cong [OF _ _ h1(5)]) (use len2 h1(3) same a(4) in auto)
  moreover have "read32 ?h (span bs) = Inr 148"
    using read32_cong [of ?h h1 "span bs"] h1(3,6) len2 same a(4) by auto
  moreover have "read32 ?h (span bs + 156) = Inr VM_RAM_SIZE"
    using read32_cong [of ?h h1 "span bs + 156"] h1(3,7) len2 same a(4) by auto
  moreover have "?h ! (span bs + 4) = BLOCK_FREE" "?h ! (span bs + 160) = BLOCK_FREE" using len2 a(4) by auto
  ultimately show "\<exists>k'. sys_vm_init k = Some (Inr k') \<and> env_ok k' \<and> g_env k' = g_env k \<and> console k' = console k \<and>
        blocks (memory_heap k') 0 (bs @ [(148, False)]) \<and>
        read32 (memory_heap k') (span bs + 156) = Inr VM_RAM_SIZE \<and> memory_heap k' ! (span bs + 160) = BLOCK_FREE \<and>
        length (memory_heap k') < span bs + 164 + unat VM_RAM_SIZE"
    using run l(2) len2 by (intro exI [of _ "?k1\<lparr>memory_heap := ?h\<rparr>"]) (simp add: blocks_append VM_RAM_SIZE_def env_ok_def)
qed


definition rooted_heap :: heap_kernel where
  "rooted_heap = set_env (\<lambda>e. e\<lparr>is_root := 1\<rparr>) booted_heap"

lemma kernel_machine_runs_one_instruction_witness:
  "\<exists>k'. sys_vm_init rooted_heap = Some (Inr k') \<and> env_ok k' \<and> read32 (memory_heap k') 156 = Inr 65536"
proof -
  have h: "memory_heap rooted_heap = zero_heap" by (simp add: rooted_heap_def set_env_def booted_heap)
  have "env_ok rooted_heap" using booted_heap(1) by (simp add: rooted_heap_def env_ok_def)
  then have "\<exists>k'. sys_vm_init rooted_heap = Some (Inr k') \<and> env_ok k' \<and> g_env k' = g_env rooted_heap \<and>
      console k' = console rooted_heap \<and> blocks (memory_heap k') 0 ([] @ [(148, False)]) \<and>
      read32 (memory_heap k') (span [] + 156) = Inr VM_RAM_SIZE \<and> memory_heap k' ! (span [] + 160) = BLOCK_FREE \<and>
      length (memory_heap k') < span [] + 164 + unat VM_RAM_SIZE"
    by (rule kernel_machine_runs_one_instruction) (simp_all add: h zero_heap_ok, simp add: rooted_heap_def)
  then show ?thesis by (auto simp: VM_RAM_SIZE_def)
qed

theorem syscalls_keep_privileges_witness:
  "\<exists>k'. execute_syscall (Some 0) SYS_RAM booted_heap = Some (Inr k') \<and> priv_of k' = (False, True) \<and>
     console k' = console booted_heap @ ram_text []"
proof -
  have "fault_detected (g_env booted) = 0"
    by (simp add: booted_def sys_env_bootstrap_def Let_def k_log_def load_image_def split: sum.split)
  then have f: "fault_detected (g_env booted_heap) = 0" by (simp add: booted_heap)
  have p: "priv_of booted_heap = (False, True)" using booted(3) by (simp add: priv_of_def booted_heap(5))
  have "SYS_RAM \<noteq> SYS_HELP" by (simp add: SYS_RAM_def SYS_HELP_def)
  then show ?thesis
    using syscalls_keep_privileges [OF booted_heap(1) f _ booted_heap(4), of "[]" 0 SYS_RAM] p
    by (auto simp: booted_heap(3) zero_heap_ok syscall_text_def)
qed

text \<open>
  C32: a program that is loaded with \<open>vm_load_program\<close> into a machine's memory and started with \<open>vm_run\<close> runs
  exactly as the abstract interpreter: when the interpreter stops within some number of instructions, the
  two calls return with the same registers, program counter and kernel (log, console, cycle count of the
  system calls), and no byte of the heap outside the program and the machine's own 148 bytes has changed.
\<close>
theorem loaded_program_runs:
  assumes "vm_at h p s" "ram_base s \<noteq> 0" "apart p (ram_base s) (length prog)"
    "unat (ram_base s) + length prog \<le> length h" "length h \<le> 65536" "length prog \<le> unat (mem_size s)"
    "isa_run n prog (registers s, vm_pc s, k) = Some (regs', pc', k')"
  shows "\<exists>h'. bindP (vm_load_program (Some p) prog (of_nat (length prog)) (k\<lparr>memory_heap := h\<rparr>)) (vm_run (Some p)) =
        Some (Inr (k'\<lparr>memory_heap := h'\<rparr>)) \<and>
     vm_at h' p (s\<lparr>registers := regs', vm_pc := pc', running := 0\<rparr>) \<and> code_at h' (ram_base s) prog \<and>
     (\<forall>j < length h. (j < unat p \<or> unat p + 148 \<le> j) \<and> (j < unat (ram_base s) \<or> unat (ram_base s) + length prog \<le> j) \<longrightarrow>
        h' ! j = h ! j)"
proof -
  have u: "unat (of_nat (length prog) :: u32) = length prog" using assms(4,5) by (simp add: unat_of_nat)
  have le: "(of_nat (length prog) :: u32) \<le> mem_size s" using assms(6) u by (simp add: word_le_nat_alt)
  obtain h1 where h1: "vm_load_program (Some p) prog (of_nat (length prog)) (k\<lparr>memory_heap := h\<rparr>) = Some (Inr (k\<lparr>memory_heap := h1\<rparr>))"
    "vm_at h1 p s" "code_at h1 (ram_base s) prog" "length h1 = length h"
    "\<forall>j < length h. j < unat (ram_base s) \<or> unat (ram_base s) + length prog \<le> j \<longrightarrow> h1 ! j = h ! j"
    using vm_load_program_eq [OF assms(1,2) _ _ assms(5) _ le, of prog k thesis] assms(3,4) u by simp
  from vm_run_refines_interpreter [OF h1(2) assms(2) h1(3) assms(3) _ assms(7)] h1(4) assms(5) obtain h' where h':
    "vm_run (Some p) (k\<lparr>memory_heap := h1\<rparr>) = Some (Inr (k'\<lparr>memory_heap := h'\<rparr>))" "only_vm p h1 h'"
    "vm_at h' p (s\<lparr>registers := regs', vm_pc := pc', running := 0\<rparr>)" by auto
  have "code_at h' (ram_base s) prog" by (rule code_at_only_vm [OF h1(3) h'(2) assms(3)])
  moreover have "\<forall>j < length h. (j < unat p \<or> unat p + 148 \<le> j) \<and> (j < unat (ram_base s) \<or> unat (ram_base s) + length prog \<le> j) \<longrightarrow>
      h' ! j = h ! j" using h1(4,5) h'(2) by (auto simp: only_vm_def)
  ultimately show ?thesis using h1(1) h'(1,3) by (intro exI [of _ h']) simp
qed

theorem loaded_program_runs_witness:
  "\<forall>k :: heap_kernel. \<exists>h'. bindP (vm_load_program (Some 0) tiny_program 40 (k\<lparr>memory_heap := tiny_heap (replicate 40 0)\<rparr>)) (vm_run (Some 0)) =
     Some (Inr (k\<lparr>memory_heap := h'\<rparr>)) \<and> read64 h' (REG 0 1) = Inr 7 \<and> read64 h' (REG 0 2) = Inr 9"
proof
  fix k :: heap_kernel
  let ?s = "tiny_vm (length (replicate 40 (0 :: u8)))" let ?h = "tiny_heap (replicate 40 0)"
  have l: "length tiny_program = 40" by (simp add: tiny_program_def)
  have "\<exists>h'. bindP (vm_load_program (Some 0) tiny_program (of_nat (length tiny_program)) (k\<lparr>memory_heap := ?h\<rparr>)) (vm_run (Some 0)) =
      Some (Inr (k\<lparr>memory_heap := h'\<rparr>)) \<and>
     vm_at h' 0 (?s\<lparr>registers := (replicate 16 0)[1 := 7, 2 := 9], vm_pc := 40, running := 0\<rparr>) \<and> code_at h' (ram_base ?s) tiny_program \<and>
     (\<forall>j < length ?h. (j < unat (0 :: u32) \<or> unat (0 :: u32) + 148 \<le> j) \<and> (j < unat (ram_base ?s) \<or> unat (ram_base ?s) + length tiny_program \<le> j) \<longrightarrow>
        h' ! j = ?h ! j)"
  proof (rule loaded_program_runs [OF tiny_vm_at])
    show "isa_run (Suc (Suc (Suc (Suc 0)))) tiny_program (registers ?s, vm_pc ?s, k) = Some ((replicate 16 0)[1 := 7, 2 := 9], 40, k)"
      unfolding tiny_vm_def vm_state.simps by (rule tiny_run)
  qed (simp_all add: tiny_vm_def tiny_apart tiny_heap_def l)
  then obtain h' where h': "bindP (vm_load_program (Some 0) tiny_program 40 (k\<lparr>memory_heap := ?h\<rparr>)) (vm_run (Some 0)) =
      Some (Inr (k\<lparr>memory_heap := h'\<rparr>))"
    "vm_at h' 0 (?s\<lparr>registers := (replicate 16 0)[1 := 7, 2 := 9], vm_pc := 40, running := 0\<rparr>)" unfolding l by auto
  have "read64 h' (REG 0 i) = Inr ((replicate 16 0)[1 := 7, 2 := 9] ! i)" if "i < 16" for i
    using h'(2) that by (simp add: vm_at_def)
  from this [of 1] this [of 2] h'(1) show
    "\<exists>h'. bindP (vm_load_program (Some 0) tiny_program 40 (k\<lparr>memory_heap := ?h\<rparr>)) (vm_run (Some 0)) =
      Some (Inr (k\<lparr>memory_heap := h'\<rparr>)) \<and> read64 h' (REG 0 1) = Inr 7 \<and> read64 h' (REG 0 2) = Inr 9"
    by (intro exI [of _ h']) simp
qed

end
