(* ===== verification/WX_Shell.thy ===== *)
theory WX_Shell
  imports WX_Vm WX_Tools WX_Fs WX_Calc WX_Net
begin

text \<open>
  The command shell of \<open>Kernel.c\<close>: the dispatch table, the search for a command, the splitting of a line
  into command and arguments, the start-up sequence and the prompt loop.  The state \<open>system\<close> is the kernel
  with its heap and the states of the other components.  Commands that run a device or a dialogue of their
  own (\<open>top\<close>, \<open>notepad\<close>, \<open>internet\<close>, ...) are modelled in the theories of their components; here they are the
  parameter \<open>others\<close>, which works on the other components and the console but not on the kernel.
  \<open>None\<close> is a call that does not return (also one that waits for a line that is never typed).
\<close>

section \<open>State\<close>

text \<open>\<open>p_lines\<close> are the lines typed from now on, as the keyboard driver hands them over.\<close>

record parts =
  p_fs :: vfs
  p_sched :: scheduler_state
  p_oom :: sys_oom_ctrl
  p_net :: net
  p_life :: system_lifecycle_ctx
  p_dev :: storage_device
  p_lines :: "char list list"

record system = heap_kernel +
  sys_parts :: parts

type_synonym sys_res = "((fault \<times> system) + system) option"

text \<open>An operation of another component: its output goes to the console.\<close>

definition on_parts :: "(parts \<Rightarrow> fault + con list \<times> parts) \<Rightarrow> system \<Rightarrow> sys_res" where
  "on_parts f k =
     Some (case f (sys_parts k) of
             Inl e \<Rightarrow> Inl (e, k)
           | Inr (out, p) \<Rightarrow> Inr (emit out (k\<lparr>sys_parts := p\<rparr>)))"

definition on_fs :: "(vfs \<Rightarrow> fault + con list \<times> vfs) \<Rightarrow> parts \<Rightarrow> fault + con list \<times> parts" where
  "on_fs f p = map_sum id (\<lambda>(out, v). (out, p\<lparr>p_fs := v\<rparr>)) (f (p_fs p))"

definition on_sched :: "(scheduler_state \<Rightarrow> fault + con list \<times> scheduler_state) \<Rightarrow> parts \<Rightarrow> fault + con list \<times> parts" where
  "on_sched f p = map_sum id (\<lambda>(out, s). (out, p\<lparr>p_sched := s\<rparr>)) (f (p_sched p))"

definition on_net :: "(net \<Rightarrow> fault + con list \<times> net) \<Rightarrow> parts \<Rightarrow> fault + con list \<times> parts" where
  "on_net f p = map_sum id (\<lambda>(out, s). (out, p\<lparr>p_net := s\<rparr>)) (f (p_net p))"

definition only_text :: "(parts \<Rightarrow> fault + con list) \<Rightarrow> parts \<Rightarrow> fault + con list \<times> parts" where
  "only_text f p = map_sum id (\<lambda>out. (out, p)) (f p)"

definition with_line :: "(char list \<Rightarrow> system \<Rightarrow> sys_res) \<Rightarrow> system \<Rightarrow> sys_res" where
  "with_line f k =
     (case p_lines (sys_parts k) of
        [] \<Rightarrow> None
      | line # later \<Rightarrow> f line (k\<lparr>sys_parts := (sys_parts k)\<lparr>p_lines := later\<rparr>\<rparr>))"

section \<open>Small commands\<close>

definition logo :: "con list" where
  "logo = map (\<lambda>s. Print (ln s))
     [''            !=x* '',
      ''      ~x-+-x/x++-/!!--+-! '',
      ''      x----------------+--- '',
      ''     v+-------------------x '',
      ''    *---@@-----@@-------/ '',
      ''  =/+++----x----x!+++--+++! '',
      ''  !!-----+'' @ [CHR 0x5C] @ ''_____/--+-----++/'',
      ''    x--------------------+~ '',
      ''    ~+------------------++~ '',
      ''   xx-----------------+---+! '',
      ''  -x-----------------------+* '',
      '' *x-----xxxxxxxx------------+ '',
      '' !x---+xxxxxxxxxx+x-----+----**+--v '',
      '' v+----+xxxxxxx+x------+----+=v+--+ '',
      '' xx-++++-xxxxxxx+----++++----+! x--+ '',
      ''/xxx-+-x-xxxxxxxxxx-++++-------+v/---! '',
      ''++----------xxxxxxxxxx-++--+------+++--+! '',
      '' /+------++--xxxxxxx+----------++++-~ '',
      ''  *-+++++++++++++----++-------+= '',
      ''                 x++x! '']"

definition uname :: "con list" where
  "uname = [Print (ln '' WhiteX 0.0.5.'' @ '' ''), Print (ln ''software developer Burak Yakub Gucer''),
            Print (ln '' Type the logo into the terminal and be surprised!'')]"

definition ant :: "con list" where
  "ant = [Print (ln ''Burak Yakub Gucer: I Gev My Bad Kernel A Kis'')]"

text \<open>\<open>echo\<close> looks at the fifth character of what it is given and prints what follows it.\<close>

definition echo :: "char list \<Rightarrow> fault + con list" where
  "echo input =
     bindE (get input 4) (\<lambda>c.
     bindE (if c = CHR '' '' then bindE (get input 5) (\<lambda>d. Inr (d \<noteq> NUL)) else Inr False) (\<lambda>text.
       if text then
         (if terminated (drop 5 input) then Inr [Print (cstr (drop 5 input)), Print (ln [])] else Inl Out_of_bounds)
       else Inr [Print (ln [])]))"

definition cmd_echo_handler :: "char list \<Rightarrow> fault + con list" where
  "cmd_echo_handler arg_buffer =
     bindE (get arg_buffer 0) (\<lambda>c. if c = NUL then Inr [Print (ln [])] else echo arg_buffer)"

text \<open>
  \<open>sys_print_int\<close>: digits are stored from index 9 downwards, index 11 holds the terminator, and index 10 is
  never written: \<open>junk\<close> is the byte that the stack held there.
\<close>

fun print_int_loop :: "nat \<Rightarrow> int \<Rightarrow> char list \<Rightarrow> nat \<times> char list" where
  "print_int_loop 0 n buf = (0, buf)"
| "print_int_loop (Suc i) n buf =
     (if 0 < n then print_int_loop i (n div 10) (buf[i := digit (nat (n mod 10))]) else (Suc i, buf))"

definition sys_print_int :: "char \<Rightarrow> int \<Rightarrow> con list" where
  "sys_print_int junk n =
     (if n = 0 then [Print ''0'']
      else case print_int_loop 10 n (replicate 10 NUL @ [junk, NUL]) of
             (i, buf) \<Rightarrow> [Print (cstr (drop i buf))])"

definition g_fortunes :: "string list" where
  "g_fortunes =
     [''I'' @ [CHR 0x27] @ ''m a kernel, not a debugger!'',
      ''I'' @ [CHR 0x27] @ ''m a kernel, not a dishwasher. Stop asking me to scrub memory!'',
      ''I'' @ [CHR 0x27] @ ''m a kernel, not a magician. I can'' @ [CHR 0x27] @ ''t fix your segmentation fault.'',
      ''I'' @ [CHR 0x27] @ ''m a kernel, not a psychic. How should I know what the user wants?'',
      ''I'' @ [CHR 0x27] @ ''m a kernel, not an electrician. Stop trying to power cycle the CPU.'',
      ''I'' @ [CHR 0x27] @ ''m a kernel, not a therapist. Your code'' @ [CHR 0x27] @ ''s emotional issues are your own.'',
      ''I'' @ [CHR 0x27] @ ''m a kernel, not a librarian. I don'' @ [CHR 0x27] @ ''t know where you hid that pointer.'',
      ''What am I, a kernel or a garbage collector? Handle your own memory!'',
      ''I'' @ [CHR 0x27] @ ''m a kernel, not a coalminer. Don'' @ [CHR 0x27] @ ''t dig through my paging tables!'']"

definition FORTUNE_COUNT :: nat where "FORTUNE_COUNT = 9"

definition cmd_random_fortune :: "'z kernel_scheme \<Rightarrow> 'z kres" where
  "cmd_random_fortune k =
     bindE (k_lift k (get g_fortunes (fortune_index k))) (\<lambda>s.
       let i = fortune_index k + 1 in
       Inr (emit [Print s, Print (ln [])] (k\<lparr>fortune_index := (if FORTUNE_COUNT \<le> i then 0 else i)\<rparr>)))"

text \<open>The listing of the log; time stamps and levels are printed through \<open>int\<close>.\<close>

definition log_line :: "char \<Rightarrow> log_entry \<Rightarrow> con list" where
  "log_line junk e =
     [Print ''[T+''] @ sys_print_int junk (sint (ucast (timestamp e) :: u32)) @ [Print ''] LVL: ''] @
     sys_print_int junk (sint (log_level e)) @ [Print '' | MSG: '', Print (cstr (message e)), Print (ln [])]"

fun logs_loop :: "char \<Rightarrow> nat \<Rightarrow> u32 \<Rightarrow> 'z kernel_scheme \<Rightarrow> 'z kres" where
  "logs_loop junk 0 cur k = Inr k"
| "logs_loop junk (Suc n) cur k =
     bindE (k_lift k (get (entries (g_sys_log k)) (unat cur))) (\<lambda>e.
     bindE (k_lift k (sys_calculate_checksum (message e) 128)) (\<lambda>calculated.
     bindE (if calculated \<noteq> integrity_checksum e then sys_panic ''ERR_LOG_BUFFER_TAMPERED'' k else Inr k) (\<lambda>k.
       if terminated (message e)
       then logs_loop junk n ((cur + 1) mod SYS_LOG_CAPACITY) (emit (log_line junk e) k)
       else Inl (Out_of_bounds, k))))"

definition cmd_sys_logs :: "char \<Rightarrow> 'z kernel_scheme \<Rightarrow> 'z kres" where
  "cmd_sys_logs junk k0 =
     bindE (sys_verify_integrity k0) (\<lambda>k.
       if log_count (g_sys_log k) = 0 then Inr (emit [Print (ln ''Log buffer is empty.'')] k)
       else logs_loop junk (unat (log_count (g_sys_log k))) (log_head (g_sys_log k)) k)"

text \<open>\<open>sudo\<close> reads its second line only after a positive answer to the first.\<close>

definition positive_answer :: "char list \<Rightarrow> bool" where
  "positive_answer line =
     (bindE (read_line line) (\<lambda>b. bindE (equals b ''yes'') (\<lambda>yes. if yes then Inr True else equals b ''y'')) = Inr True)"

definition sudo :: "system \<Rightarrow> sys_res" where
  "sudo k = bindP (Some (sys_verify_integrity k)) (with_line (\<lambda>line1 k.
     if positive_answer line1 then with_line (\<lambda>line2 k. Some (cmd_sudo_handler line1 line2 k)) k
     else Some (cmd_sudo_handler line1 [NUL] k)))"

section \<open>The dispatch table\<close>

datatype routine =
    R_help | R_logo | R_cls | R_uname | R_reboot | R_shutdown | R_ls | R_mkdir | R_cd | R_pwd | R_hexdump
  | R_init_fs | R_cpuid | R_notepad | R_ant | R_time | R_internetmain | R_shellfs | R_ram | R_htop | R_melodi
  | R_cmd_echo_handler | R_new_task | R_ps | R_cmd_top | R_cmd_kill | R_cmd_msgsend | R_cmd_msgrecv
  | R_wx_pkg_cli_handler | R_cmd_calc_handler | R_cmd_lifecycle_telemetry | R_cmd_lifecycle_reset
  | R_faulthandler | R_cmd_sudo_handler | R_execute_nano_terminal_simulator | R_ping | R_cmd_random_fortune
  | R_batt

record dispatch_entry =
  signature :: string
  exec_ptr :: "routine option"
  exec_arg_ptr :: "routine option"
  requires_args :: bool
  min_privilege :: u8

definition plain_entry :: "string \<Rightarrow> routine \<Rightarrow> dispatch_entry" where
  "plain_entry s r = \<lparr>signature = s, exec_ptr = Some r, exec_arg_ptr = None, requires_args = False, min_privilege = 0\<rparr>"

definition args_entry :: "string \<Rightarrow> routine \<Rightarrow> dispatch_entry" where
  "args_entry s r = \<lparr>signature = s, exec_ptr = None, exec_arg_ptr = Some r, requires_args = True, min_privilege = 0\<rparr>"

text \<open>The entries of \<open>panic\<close> and \<open>nano\<close>: only the pointer for arguments is set, but no arguments are required.\<close>

definition dead_entry :: "string \<Rightarrow> routine \<Rightarrow> dispatch_entry" where
  "dead_entry s r = \<lparr>signature = s, exec_ptr = None, exec_arg_ptr = Some r, requires_args = False, min_privilege = 0\<rparr>"

definition g_dispatch_table :: "dispatch_entry list" where
  "g_dispatch_table =
     [plain_entry ''help'' R_help, plain_entry ''logo'' R_logo, plain_entry ''cls'' R_cls,
      plain_entry ''uname'' R_uname, plain_entry ''reboot'' R_reboot, plain_entry ''shutdown'' R_shutdown,
      plain_entry ''ls'' R_ls, plain_entry ''mkdir'' R_mkdir, plain_entry ''cd'' R_cd, plain_entry ''pwd'' R_pwd,
      plain_entry ''hexdump'' R_hexdump, plain_entry ''initfs'' R_init_fs, plain_entry ''cpuid'' R_cpuid,
      plain_entry ''notepad'' R_notepad, plain_entry ''kiskrnl'' R_ant, plain_entry ''time'' R_time,
      plain_entry ''internet'' R_internetmain, plain_entry ''sddshell'' R_shellfs, plain_entry ''ram'' R_ram,
      plain_entry ''htop'' R_htop, plain_entry ''song'' R_melodi, args_entry ''echo'' R_cmd_echo_handler,
      plain_entry ''ntask'' R_new_task, plain_entry ''ps'' R_ps, plain_entry ''top'' R_cmd_top,
      args_entry ''kill'' R_cmd_kill, args_entry ''msgsend'' R_cmd_msgsend, plain_entry ''msgrecv'' R_cmd_msgrecv,
      args_entry ''pkg'' R_wx_pkg_cli_handler, args_entry ''calc'' R_cmd_calc_handler,
      plain_entry ''telemetry'' R_cmd_lifecycle_telemetry, args_entry ''lcreset'' R_cmd_lifecycle_reset,
      dead_entry ''panic'' R_faulthandler, args_entry ''sudo'' R_cmd_sudo_handler,
      dead_entry ''nano'' R_execute_nano_terminal_simulator, plain_entry ''ping'' R_ping,
      plain_entry ''fortune'' R_cmd_random_fortune, plain_entry ''power'' R_batt]"

definition DISPATCH_TABLE_SIZE :: nat where "DISPATCH_TABLE_SIZE = 40"

definition SYS_CMD_MAX :: nat where "SYS_CMD_MAX = 64"
definition SYS_ARG_MAX :: nat where "SYS_ARG_MAX = 190"

text \<open>A routine of another component that is a dialogue or drives a device: \<open>others\<close>.\<close>

type_synonym other_routines = "routine \<Rightarrow> char list \<Rightarrow> parts \<Rightarrow> (fault + con list \<times> parts) option"

definition on_others :: "other_routines \<Rightarrow> routine \<Rightarrow> char list \<Rightarrow> system \<Rightarrow> sys_res" where
  "on_others others r args k =
     (case others r args (sys_parts k) of None \<Rightarrow> None | Some x \<Rightarrow> on_parts (\<lambda>_. x) k)"

text \<open>The call of a routine through the table.\<close>

fun run_routine :: "other_routines \<Rightarrow> routine \<Rightarrow> char list \<Rightarrow> system \<Rightarrow> sys_res" where
  "run_routine others R_help args k = Some (Inr (help_cmd k))"
| "run_routine others R_logo args k = Some (Inr (emit logo k))"
| "run_routine others R_cls args k = Some (Inr (emit [Cls] k))"
| "run_routine others R_uname args k = Some (Inr (emit uname k))"
| "run_routine others R_ant args k = Some (Inr (emit ant k))"
| "run_routine others R_ls args k = on_parts (only_text (\<lambda>p. Inr (ls (p_fs p)))) k"
| "run_routine others R_mkdir args k = with_line (\<lambda>line. on_parts (on_fs (mkdir line))) k"
| "run_routine others R_cd args k = with_line (\<lambda>line. on_parts (on_fs (cd line))) k"
| "run_routine others R_pwd args k = on_parts (only_text (\<lambda>p. pwd (p_fs p))) k"
| "run_routine others R_init_fs args k = on_parts (on_fs init_fs) k"
| "run_routine others R_hexdump args k =
     (case cpu_regs k of (eax, ebx, esp) \<Rightarrow>
        on_parts (only_text (\<lambda>p. hexdump eax ebx esp (replicate 11 NUL))) k)"
| "run_routine others R_ram args k = WX_Vm.ram k"
| "run_routine others R_cmd_echo_handler args k = on_parts (only_text (\<lambda>p. cmd_echo_handler args)) k"
| "run_routine others R_ps args k = on_parts (only_text (\<lambda>p. ps (p_sched p))) k"
| "run_routine others R_cmd_kill args k = on_parts (on_sched (cmd_kill args)) k"
| "run_routine others R_cmd_msgsend args k = on_parts (on_sched (cmd_msgsend args)) k"
| "run_routine others R_wx_pkg_cli_handler args k = on_parts (on_net (wx_pkg_cli_handler args)) k"
| "run_routine others R_ping args k = on_parts (on_net ping) k"
| "run_routine others R_cmd_calc_handler args k = on_parts (only_text (\<lambda>p. cmd_calc_handler args)) k"
| "run_routine others R_cmd_lifecycle_telemetry args k =
     on_parts (only_text (\<lambda>p. cmd_lifecycle_telemetry (p_life p))) k"
| "run_routine others R_cmd_sudo_handler args k = sudo k"
| "run_routine others R_cmd_random_fortune args k = Some (cmd_random_fortune k)"
| "run_routine others r args k = on_others others r args k"

section \<open>Executing a command\<close>

definition dispatch :: "other_routines \<Rightarrow> char list \<Rightarrow> char list \<Rightarrow> dispatch_entry \<Rightarrow> system \<Rightarrow> sys_res" where
  "dispatch others cmd_name args e k =
     (if 0 < min_privilege e \<and> is_root (g_env k) = 0 \<and> isolation_active (g_env k) \<noteq> 0 then
        bindP (Some (k_log 2 (lit ''UNAUTHORIZED_EXECUTION_ATTEMPT'') k)) (\<lambda>k. Some (Inr (emit
          [Print (ln ''Permission denied. System operation restricted to authorized context.'')] k)))
      else
        bindP (Some (k_log 0 cmd_name (count_cycle k))) (\<lambda>k.
          case (if requires_args e then exec_arg_ptr e else exec_ptr e) of
            None \<Rightarrow> Some (Inr k)
          | Some r \<Rightarrow> run_routine others r args k))"

text \<open>The search: \<open>n\<close> entries are left, the next one is \<open>i\<close>; an index past the table is an access out of bounds.\<close>

fun vector_loop :: "other_routines \<Rightarrow> char list \<Rightarrow> char list \<Rightarrow> nat \<Rightarrow> nat \<Rightarrow> system \<Rightarrow> sys_res" where
  "vector_loop others cmd_name args 0 i k =
     Some (if terminated cmd_name then Inr (emit [Print ''Unknown command -> '', Print (cstr cmd_name), Print (ln [])] k)
           else Inl (Out_of_bounds, k))"
| "vector_loop others cmd_name args (Suc n) i k =
     bindP (Some (k_lift k (get g_dispatch_table i))) (\<lambda>e.
     bindP (Some (k_lift k (sys_constant_time_compare (Some cmd_name) (Some (lit (signature e))) SYS_CMD_MAX))) (\<lambda>same.
       if same then dispatch others cmd_name args e k
       else vector_loop others cmd_name args n (i + 1) k))"

definition sys_execute_vector :: "other_routines \<Rightarrow> char list \<Rightarrow> char list \<Rightarrow> system \<Rightarrow> sys_res" where
  "sys_execute_vector others cmd_name args k0 =
     bindP (Some (sys_verify_integrity k0)) (\<lambda>k.
     bindP (Some (k_lift k (get cmd_name 0))) (\<lambda>c.
       if c = NUL then Some (Inr k)
       else vector_loop others cmd_name args DISPATCH_TABLE_SIZE 0 k))"

section \<open>Splitting a line\<close>

text \<open>The copy loops return what they copied and the rest of the line.\<close>

fun copy_command :: "nat \<Rightarrow> char list \<Rightarrow> fault + char list \<times> char list" where
  "copy_command left [] = Inl Out_of_bounds"
| "copy_command left (c # raw) =
     (if c \<noteq> NUL \<and> c \<noteq> CHR '' '' \<and> 0 < left
      then map_sum id (\<lambda>(w, r). (c # w, r)) (copy_command (left - 1) raw) else Inr ([], c # raw))"

fun skip_spaces :: "char list \<Rightarrow> fault + char list" where
  "skip_spaces [] = Inl Out_of_bounds"
| "skip_spaces (c # raw) = (if c = CHR '' '' then skip_spaces raw else Inr (c # raw))"

fun copy_args :: "nat \<Rightarrow> char list \<Rightarrow> fault + char list" where
  "copy_args left [] = Inl Out_of_bounds"
| "copy_args left (c # raw) =
     (if c \<noteq> NUL \<and> 0 < left then map_sum id (Cons c) (copy_args (left - 1) raw) else Inr [])"

text \<open>A zeroed buffer of \<open>n\<close> bytes into which a text was copied.\<close>

definition in_buffer :: "nat \<Rightarrow> char list \<Rightarrow> char list" where
  "in_buffer n w = w @ replicate (n - length w) NUL"

definition sys_parse_input :: "other_routines \<Rightarrow> char list \<Rightarrow> system \<Rightarrow> sys_res" where
  "sys_parse_input others raw_buffer k0 =
     bindP (Some (sys_verify_integrity k0)) (\<lambda>k.
     bindP (Some (k_lift k (get raw_buffer 0))) (\<lambda>c.
       if c = NUL \<or> c = CHR '' '' then Some (Inr k)
       else
         bindP (Some (k_lift k (copy_command (SYS_CMD_MAX - 1) raw_buffer))) (\<lambda>(cmd, raw).
         bindP (Some (k_lift k (skip_spaces raw))) (\<lambda>raw.
         bindP (Some (k_lift k (copy_args (SYS_ARG_MAX - 1) raw))) (\<lambda>args.
           sys_execute_vector others (in_buffer SYS_CMD_MAX cmd) (in_buffer SYS_ARG_MAX args) k)))))"

section \<open>The prompt\<close>

definition SYS_TICK_MAX :: u64 where "SYS_TICK_MAX = 3000"

text \<open>
  \<open>watch_stack\<close>: \<open>esp\<close> is the stack pointer of the loop.  The fault handler that it calls does not return.
\<close>

definition watch_stack :: "u32 \<Rightarrow> system \<Rightarrow> sys_res" where
  "watch_stack esp k = (if esp < 0x10000 then Some (Inl (Cpu_halted, k)) else Some (Inr k))"

definition oom_check :: "parts \<Rightarrow> fault + con list \<times> parts" where
  "oom_check p =
     (case sys_oom_monitor_check (p_oom p) of Inl (f, c) \<Rightarrow> Inl f | Inr c \<Rightarrow> Inr ([], p\<lparr>p_oom := c\<rparr>))"

definition tick :: "u32 \<Rightarrow> system \<Rightarrow> sys_res" where
  "tick esp k0 =
     (let k = k0\<lparr>g_tick_counter := g_tick_counter k0 + 1\<rparr> in
      bindP (if g_tick_counter k mod 500 = 0 then watch_stack esp k else Some (Inr k)) (\<lambda>k.
        if SYS_TICK_MAX \<le> g_tick_counter k then
          bindP (on_parts oom_check k) (\<lambda>k. Some (sys_verify_integrity (k\<lparr>g_tick_counter := 0\<rparr>)))
        else Some (Inr k)))"

definition prompt :: "'z kernel_scheme \<Rightarrow> 'z kernel_scheme" where
  "prompt k = emit [Print (newline # (if is_root (g_env k) = 1 then ''root@whitex~$ '' else ''whitex~$ ''))] k"

text \<open>One round of the loop of \<open>Kernel\<close>.\<close>

definition kernel_round :: "u32 \<Rightarrow> other_routines \<Rightarrow> system \<Rightarrow> sys_res" where
  "kernel_round esp others k0 =
     bindP (tick esp k0) (\<lambda>k.
       with_line (\<lambda>line k.
         bindP (Some (k_lift k (read_line line))) (\<lambda>local_io_buffer.
         bindP (Some (k_lift k (get local_io_buffer 0))) (\<lambda>c.
           if c \<noteq> NUL then sys_parse_input others local_io_buffer k else Some (Inr k)))) (prompt k))"

partial_function (option) kernel_loop :: "u32 \<Rightarrow> other_routines \<Rightarrow> system \<Rightarrow> sys_res" where
  "kernel_loop esp others k =
     (if system_state (g_env k) = 1 then
        (case kernel_round esp others k of
           None \<Rightarrow> None
         | Some r \<Rightarrow> (case r of Inl e \<Rightarrow> Some (Inl e) | Inr k \<Rightarrow> kernel_loop esp others k))
      else Some (Inr k))"

declare kernel_loop.simps [code]

section \<open>Start\<close>

text \<open>
  \<open>sys_execute_startup_routines\<close>: \<open>hardware\<close> gives what each of \<open>init_gdt\<close>, \<open>init_idt\<close>, \<open>pit_init\<close>, \<open>Sdd\<close>,
  \<open>melodi\<close>, \<open>cpuid\<close> and \<open>login\<close> does with the other components, in that order; \<open>init\<close> and \<open>cls\<close> clear the
  page.  The last but one call, \<open>wx_pkg_system_bootstrap\<close>, is empty.
\<close>

type_synonym hardware_step = "parts \<Rightarrow> (fault + con list \<times> parts) option"

definition hw :: "hardware_step \<Rightarrow> system \<Rightarrow> sys_res" where
  "hw f k = (case f (sys_parts k) of None \<Rightarrow> None | Some x \<Rightarrow> on_parts (\<lambda>_. x) k)"

fun then_all :: "(system \<Rightarrow> sys_res) list \<Rightarrow> system \<Rightarrow> sys_res" where
  "then_all [] k = Some (Inr k)"
| "then_all (f # fs) k = bindP (f k) (then_all fs)"

definition sys_execute_startup_routines ::
  "hardware_step list \<Rightarrow> u32 \<Rightarrow> sys_task \<Rightarrow> system \<Rightarrow> sys_res" where
  "sys_execute_startup_routines hardware task_at raw k =
     then_all
       [\<lambda>k. Some (sys_env_bootstrap k),
        \<lambda>k. Some (Inr (emit [Cls] k)),
        hw (hardware ! 0), hw (hardware ! 1),
        on_parts (on_fs init_fs),
        hw (hardware ! 2),
        WX_Vm.ram,
        hw (hardware ! 3), hw (hardware ! 4), hw (hardware ! 5),
        \<lambda>k. Some (Inr (emit [Cls] k)),
        hw (hardware ! 6),
        on_parts (\<lambda>p. Inr ([], p\<lparr>p_sched := scheduler_initialize (p_sched p)\<rparr>)),
        on_parts (\<lambda>p. case new_task task_at raw (p_oom p) of
                         Inl (f, c) \<Rightarrow> Inl f | Inr (u, c) \<Rightarrow> Inr ([], p\<lparr>p_oom := c\<rparr>)),
        \<lambda>k. Some (Inr (emit logo k))] k"

definition Kernel :: "hardware_step list \<Rightarrow> u32 \<Rightarrow> sys_task \<Rightarrow> u32 \<Rightarrow> other_routines \<Rightarrow> system \<Rightarrow> sys_res" where
  "Kernel hardware task_at raw esp others k =
     bindP (sys_execute_startup_routines hardware task_at raw k) (\<lambda>k.
     bindP (kernel_loop esp others (emit
       [Print (ln ''Welcome to WhiteX ''), Print (''Type '' @ [CHR 0x27] @ ''help'' @ [CHR 0x27] @
          '' for available system routines.'' @ [newline])] k)) (\<lambda>k.
       Some (sys_panic ''ERR_MAIN_LOOP_EXIT'' k)))"

end
