(* ===== verification/WX_Shell_Props.thy ===== *)
theory WX_Shell_Props
  imports WX_Shell
begin

text \<open>
  The shell: a typed line reaches exactly the table entry of its first word, an unknown word runs off the
  table, and no sequence of command lines from the start-up on gives root without the password, whatever
  the other components do.
\<close>

section \<open>What holds after an operation that returns\<close>

definition after :: "(('e + 'a) option) \<Rightarrow> ('a \<Rightarrow> bool) \<Rightarrow> bool" where
  "after r P \<longleftrightarrow> (\<forall>x. r = Some (Inr x) \<longrightarrow> P x)"

lemma after_simps [simp]:
  "after None P" "after (Some (Inl e)) P" "after (Some (Inr x)) P \<longleftrightarrow> P x"
  by (auto simp: after_def)

lemma after_bind: "after m (\<lambda>x. after (f x) P) \<Longrightarrow> after (bindP m f) P"
  by (cases m; cases "the m") (auto simp: after_def bindP_def)

lemma after_if: "after x P \<Longrightarrow> after y P \<Longrightarrow> after (if b then x else y) P"
  by simp

lemma after_mono: "after r P \<Longrightarrow> (\<And>x. P x \<Longrightarrow> Q x) \<Longrightarrow> after r Q"
  by (auto simp: after_def)

lemma after_some: "after (Some m) P \<longleftrightarrow> (\<forall>x. m = Inr x \<longrightarrow> P x)"
  by (auto simp: after_def)

text \<open>
  What every operation of the shell keeps: a sound environment, whether the system runs, the lines still
  to come (they can only be used up), and the privilege state of a console without root that is not
  given the password.
\<close>

definition lines_of :: "system \<Rightarrow> char list set" where
  "lines_of k = set (p_lines (sys_parts k))"

definition unprivileged :: "system \<Rightarrow> bool" where
  "unprivileged k \<longleftrightarrow> \<not> fst (priv_of k) \<and> (\<forall>line \<in> lines_of k. sanitized line \<noteq> ''root'')"

definition calm :: "system \<Rightarrow> system \<Rightarrow> bool" where
  "calm k k' \<longleftrightarrow> env_ok k' \<and> system_state (g_env k') = system_state (g_env k) \<and>
     lines_of k' \<subseteq> lines_of k \<and> (unprivileged k \<longrightarrow> priv_of k' = priv_of k)"

lemma unprivileged_mono: "unprivileged k \<Longrightarrow> priv_of k' = priv_of k \<Longrightarrow> lines_of k' \<subseteq> lines_of k \<Longrightarrow> unprivileged k'"
  by (auto simp: unprivileged_def)

lemma calm_refl: "env_ok k \<Longrightarrow> calm k k"
  by (simp add: calm_def)

lemma calm_trans: "calm k k' \<Longrightarrow> calm k' k'' \<Longrightarrow> calm k k''"
  using unprivileged_mono [of k k'] by (auto simp: calm_def)

lemma calm_ok: "calm k k' \<Longrightarrow> env_ok k'"
  by (simp add: calm_def)

lemma calm_bind:
  assumes "after m (calm k)" "\<And>k'. env_ok k' \<Longrightarrow> calm k k' \<Longrightarrow> after (f k') (calm k')"
  shows "after (bindP m f) (calm k)"
proof (rule after_bind, rule after_mono [OF assms(1)])
  fix k' assume c: "calm k k'"
  from assms(2) [OF calm_ok [OF c] c] show "after (f k') (calm k)"
    by (rule after_mono) (rule calm_trans [OF c])
qed

lemma calm_emit: "env_ok k \<Longrightarrow> calm k (emit out k)"
  by (simp add: calm_def priv_of_def lines_of_def emit_def env_ok_def)

lemma calm_log: "env_ok k \<Longrightarrow> loggable msg \<Longrightarrow> after (Some (k_log lvl msg k)) (calm k)"
  by (rule k_log_ok [of k msg lvl]) (auto simp: calm_def priv_of_def lines_of_def)

lemma calm_verify: "env_ok k \<Longrightarrow> after (Some (sys_verify_integrity k)) (calm k)"
  by (simp add: calm_refl)

lemma calm_lift:
  "env_ok k \<Longrightarrow> (\<And>x. after (f x) (calm k)) \<Longrightarrow> after (bindP (Some (k_lift k m)) f) (calm k)"
  by (rule after_bind) (cases m; simp add: k_lift_def)

lemma calm_count: "env_ok k \<Longrightarrow> calm k (count_cycle k)"
  by (simp add: calm_def count_cycle_def priv_of_def lines_of_def set_env_def env_ok_def)

text \<open>A routine of another component.\<close>

definition uses_lines :: "(parts \<Rightarrow> (fault + con list \<times> parts) option) \<Rightarrow> bool" where
  "uses_lines f \<longleftrightarrow> (\<forall>p out p'. f p = Some (Inr (out, p')) \<longrightarrow> set (p_lines p') \<subseteq> set (p_lines p))"

lemma calm_parts:
  assumes "env_ok k" "uses_lines (\<lambda>p. Some (f p))"
  shows "after (on_parts f k) (calm k)"
proof (cases "f (sys_parts k)")
  case (Inr r)
  obtain out p where r: "r = (out, p)" by (cases r)
  then have "set (p_lines p) \<subseteq> set (p_lines (sys_parts k))" using assms(2) Inr by (auto simp: uses_lines_def)
  then show ?thesis using assms(1) Inr r
    by (simp add: on_parts_def calm_def priv_of_def lines_of_def emit_def env_ok_def)
qed (simp add: on_parts_def)

lemma uses_lines_parts:
  "uses_lines (\<lambda>p. Some (on_fs f p))" "uses_lines (\<lambda>p. Some (on_sched g p))" "uses_lines (\<lambda>p. Some (on_net h p))"
  "uses_lines (\<lambda>p. Some (only_text t p))" "uses_lines (\<lambda>p. Some (oom_check p))"
  by (auto simp: uses_lines_def on_fs_def on_sched_def on_net_def only_text_def oom_check_def map_sum_def
      split: sum.splits prod.splits)

lemma calm_on_others:
  assumes "env_ok k" "uses_lines (others r args)"
  shows "after (on_others others r args k) (calm k)"
proof (cases "others r args (sys_parts k)")
  case (Some x)
  then have "after (on_parts (\<lambda>_. x) k) (calm k)"
  proof (cases x)
    case (Inr y)
    obtain out p where y: "y = (out, p)" by (cases y)
    then have "set (p_lines p) \<subseteq> set (p_lines (sys_parts k))" using assms(2) Inr Some by (auto simp: uses_lines_def)
    then show ?thesis using assms(1) Inr y
      by (simp add: on_parts_def calm_def priv_of_def lines_of_def emit_def env_ok_def)
  qed (simp add: on_parts_def)
  then show ?thesis using Some by (simp add: on_others_def)
qed (simp add: on_others_def)

lemma calm_line:
  assumes "env_ok k" "\<And>line k'. line \<in> lines_of k \<Longrightarrow> calm k k' \<Longrightarrow> after (f line k') (calm k)"
  shows "after (with_line f k) (calm k)"
proof (cases "p_lines (sys_parts k)")
  case (Cons line later)
  let ?k = "k\<lparr>sys_parts := (sys_parts k)\<lparr>p_lines := later\<rparr>\<rparr>"
  have "calm k ?k" using assms(1) Cons by (auto simp: calm_def priv_of_def lines_of_def env_ok_def)
  then have "after (f line ?k) (calm k)" using assms(2) [of line ?k] Cons by (simp add: lines_of_def)
  then show ?thesis using Cons by (simp add: with_line_def)
qed (simp add: with_line_def)

lemma after_calm: "calm k k' \<Longrightarrow> after r (calm k') \<Longrightarrow> after r (calm k)"
  by (auto simp: after_def intro: calm_trans)

lemma calm_ram:
  assumes "env_ok k"
  shows "after (WX_Vm.ram k) (calm k)"
proof (cases "ram_cmd (first_ram k) (memory_heap k)")
  case (Some r)
  show ?thesis
  proof (cases r)
    case (Inr x)
    obtain out f h where x: "x = (out, f, h)" by (cases x)
    have "calm k (emit out (k\<lparr>memory_heap := h, first_ram := f\<rparr>))"
      using assms by (simp add: calm_def priv_of_def lines_of_def emit_def env_ok_def)
    then show ?thesis using Some Inr x by (simp add: WX_Vm.ram_def)
  qed (use Some in \<open>simp add: WX_Vm.ram_def\<close>)
qed (simp add: WX_Vm.ram_def)

lemma calm_fortune: "env_ok k \<Longrightarrow> after (Some (cmd_random_fortune k)) (calm k)"
  by (cases "get g_fortunes (fortune_index k)")
    (simp_all add: cmd_random_fortune_def k_lift_def Let_def calm_def priv_of_def lines_of_def emit_def env_ok_def)

lemma calm_routine:
  assumes "env_ok k" "r \<noteq> R_cmd_sudo_handler" "\<And>r args. uses_lines (others r args)"
  shows "after (run_routine others r args k) (calm k)"
proof -
  note [simp] = calm_emit [OF assms(1)] calm_parts [OF assms(1) uses_lines_parts(1)] calm_parts [OF assms(1) uses_lines_parts(2)]
    calm_parts [OF assms(1) uses_lines_parts(3)] calm_parts [OF assms(1) uses_lines_parts(4)] calm_ram [OF assms(1)]
    calm_fortune [OF assms(1)] calm_on_others [OF assms(1,3)]
  have line: "after (with_line (\<lambda>line. on_parts (on_fs (f line))) k) (calm k)" for f
  proof (rule calm_line [OF assms(1)])
    fix line k' assume c: "calm k k'"
    show "after (on_parts (on_fs (f line)) k') (calm k)"
      by (rule after_calm [OF c calm_parts [OF calm_ok [OF c] uses_lines_parts(1)]])
  qed
  show ?thesis using assms(2) by (cases r) (simp_all add: line help_cmd_def split: prod.split)
qed

section \<open>Commands\<close>

lemma length_in_buffer: "length w \<le> n \<Longrightarrow> length (in_buffer n w) = n"
  by (simp add: in_buffer_def)

lemma in_buffer_cstr:
  assumes "nul_free w" "length w < n"
  shows "terminated (in_buffer n w)" "cstr (in_buffer n w) = w" "in_buffer n w ! 0 = (if w = [] then NUL else hd w)"
proof -
  obtain m where m: "n - length w = Suc m" using assms(2) by (cases "n - length w") auto
  then have "in_buffer n w = w @ NUL # replicate m NUL" by (simp add: in_buffer_def)
  then show "terminated (in_buffer n w)" "cstr (in_buffer n w) = w" "in_buffer n w ! 0 = (if w = [] then NUL else hd w)"
    using assms(1) by (auto simp: nth_append hd_conv_nth)
qed

text \<open>The comparison with a signature of the table is equality of the words.\<close>

lemma table_words:
  "length g_dispatch_table = 38" "\<forall>e \<in> set g_dispatch_table. nul_free (signature e) \<and> length (signature e) < 64 \<and> min_privilege e = 0"
  by (simp_all add: g_dispatch_table_def plain_entry_def args_entry_def dead_entry_def)

lemma compare_signature:
  assumes "nul_free w" "length w < 64" "e \<in> set g_dispatch_table"
  shows "sys_constant_time_compare (Some (in_buffer 64 w)) (Some (lit (signature e))) SYS_CMD_MAX = Inr (w = signature e)"
  using assms table_words(2) by (subst compare_eq) (auto simp: SYS_CMD_MAX_def in_buffer_cstr)

text \<open>The entry that a word selects: the first one with that signature.\<close>

definition entry_of :: "string \<Rightarrow> dispatch_entry option" where
  "entry_of w = List.find (\<lambda>e. signature e = w) g_dispatch_table"

lemma vector_loop_eq:
  assumes "nul_free w" "length w < 64" "i \<le> 38" "n = 40 - i" "\<forall>j < i. signature (g_dispatch_table ! j) \<noteq> w"
  shows "vector_loop others (in_buffer 64 w) args n i k =
     (case List.find (\<lambda>e. signature e = w) (drop i g_dispatch_table) of
        Some e \<Rightarrow> dispatch others (in_buffer 64 w) args e k | None \<Rightarrow> Some (Inl (Out_of_bounds, k)))"
  using assms(3-5)
proof (induction "38 - i" arbitrary: i n)
  case 0
  then have "i = 38" "n = Suc 1" by auto
  then show ?case using table_words(1) by (simp add: get_def k_lift_def)
next
  case (Suc m)
  then have i: "i < 38" and n: "n = Suc (40 - Suc i)" by auto
  let ?e = "g_dispatch_table ! i"
  have e: "?e \<in> set g_dispatch_table" using i table_words(1) by simp
  have d: "drop i g_dispatch_table = ?e # drop (Suc i) g_dispatch_table"
    using i table_words(1) by (simp add: Cons_nth_drop_Suc)
  have g: "get g_dispatch_table i = Inr ?e" using i table_words(1) by simp
  show ?case
  proof (cases "signature ?e = w")
    case True
    then have "sys_constant_time_compare (Some (in_buffer 64 w)) (Some (lit w)) SYS_CMD_MAX = Inr True"
      using compare_signature [OF assms(1,2) e] by simp
    then show ?thesis using True by (simp add: n d g k_lift_def)
  next
    case False
    have "vector_loop others (in_buffer 64 w) args (40 - Suc i) (Suc i) k =
      (case List.find (\<lambda>e. signature e = w) (drop (Suc i) g_dispatch_table) of
        Some e \<Rightarrow> dispatch others (in_buffer 64 w) args e k | None \<Rightarrow> Some (Inl (Out_of_bounds, k)))"
      using Suc.hyps(2) Suc.prems i False by (intro Suc.hyps(1)) (auto simp: less_Suc_eq)
    then show ?thesis using False by (simp add: n d g k_lift_def compare_signature [OF assms(1,2) e])
  qed
qed

lemma execute_vector_eq:
  assumes "env_ok k" "nul_free w" "w \<noteq> []" "length w < 64"
  shows "sys_execute_vector others (in_buffer 64 w) args k =
     (case entry_of w of Some e \<Rightarrow> dispatch others (in_buffer 64 w) args e k | None \<Rightarrow> Some (Inl (Out_of_bounds, k)))"
proof -
  have "get (in_buffer 64 w) 0 = Inr (hd w)" "hd w \<noteq> NUL"
    using assms(2-4) in_buffer_cstr(3) [OF assms(2,4)] by (auto simp: length_in_buffer nul_free_def dest: hd_in_set)
  then show ?thesis
    using vector_loop_eq [OF assms(2,4), of 0 40 others args k] assms(1)
    by (simp add: sys_execute_vector_def k_lift_def DISPATCH_TABLE_SIZE_def entry_of_def)
qed

section \<open>Command lines\<close>

abbreviation space :: char where "space \<equiv> CHR '' ''"

lemma copy_command_word:
  "nul_free w \<Longrightarrow> space \<notin> set w \<Longrightarrow> length w \<le> n \<Longrightarrow> c = NUL \<or> c = space \<Longrightarrow> copy_command n (w @ c # r) = Inr (w, c # r)"
  by (induction w arbitrary: n) auto

lemma skip_spaces_eq: "c \<noteq> space \<Longrightarrow> skip_spaces (replicate n space @ c # r) = Inr (c # r)"
  by (induction n) auto

lemma copy_args_eq: "nul_free a \<Longrightarrow> length a \<le> n \<Longrightarrow> copy_args n (a @ NUL # r) = Inr a"
  by (induction a arbitrary: n) auto

lemma command_line:
  assumes "env_ok k" "terminated raw" "cstr raw = w @ replicate n space @ a" "w \<noteq> []" "space \<notin> set w" "length w < 64"
    "n = 0 \<longrightarrow> a = []" "a \<noteq> [] \<longrightarrow> hd a \<noteq> space" "length a < 190"
  shows "sys_parse_input others raw k =
     (case List.find (\<lambda>e. signature e = w) g_dispatch_table of
        Some e \<Rightarrow> dispatch others (in_buffer 64 w) (in_buffer 190 a) e k
      | None \<Rightarrow> Some (Inl (Out_of_bounds, k)))"
proof -
  obtain r where raw: "raw = (w @ replicate n space @ a) @ NUL # r" using terminated_split [OF assms(2)] assms(3) by metis
  have "nul_free (cstr raw)" by simp
  then have nf: "nul_free w" "nul_free a" unfolding assms(3) by simp_all
  have c0: "get raw 0 = Inr (hd w)" "hd w \<noteq> NUL" "hd w \<noteq> space"
  proof -
    obtain c w' where w: "w = c # w'" using assms(4) by (cases w) auto
    show "get raw 0 = Inr (hd w)" unfolding raw w by (simp add: get_def)
    show "hd w \<noteq> NUL" "hd w \<noteq> space" using assms(5) nf(1) unfolding w by auto
  qed
  obtain c t where t: "replicate n space @ a @ NUL # r = c # t" "c = NUL \<or> c = space"
    using assms(7) by (cases n) auto
  have word: "copy_command 63 raw = Inr (w, replicate n space @ a @ NUL # r)"
    using copy_command_word [OF nf(1) assms(5) _ t(2), of 63 t] assms(6) unfolding raw by (simp add: t(1))
  have skip: "skip_spaces (replicate n space @ a @ NUL # r) = Inr (a @ NUL # r)"
    using assms(8) skip_spaces_eq by (cases a) auto
  have args: "copy_args 189 (a @ NUL # r) = Inr a" using nf(2) assms(9) by (intro copy_args_eq) simp_all
  have "sys_parse_input others raw k = sys_execute_vector others (in_buffer 64 w) (in_buffer 190 a) k"
    using assms(1) c0 word skip args
    by (simp add: sys_parse_input_def k_lift_def SYS_CMD_MAX_def SYS_ARG_MAX_def)
  then show ?thesis using execute_vector_eq [OF assms(1) nf(1) assms(4,6)] by (simp add: entry_of_def)
qed

text \<open>
  C35: a line that consists of a word of at most 63 characters, spaces, and at most 189 characters of arguments
  reaches the first entry of the table whose signature is that word, with exactly those arguments, both
  in zeroed buffers; when no signature is that word, the search reads past the 38 entries of the table,
  because \<open>DISPATCH_TABLE_SIZE\<close> is 40, and the unknown command is never reported.
\<close>
theorem command_line_reaches_its_entry:
  assumes "env_ok k" "terminated raw" "cstr raw = w @ replicate n space @ a" "w \<noteq> []" "space \<notin> set w" "length w < 64"
    "n = 0 \<longrightarrow> a = []" "a \<noteq> [] \<longrightarrow> hd a \<noteq> space" "length a < 190"
  shows "sys_parse_input others raw k =
     (case List.find (\<lambda>e. signature e = w) g_dispatch_table of
        Some e \<Rightarrow> dispatch others (in_buffer 64 w) (in_buffer 190 a) e k
      | None \<Rightarrow> Some (Inl (Out_of_bounds, k)))"
  using assms by (rule command_line)

text \<open>The system after the bootstrap, with any state of the other components.\<close>

definition booted_system :: "parts \<Rightarrow> system" where
  "booted_system p = heap_kernel.extend (kernel.extend booted (heap_kernel.fields zero_heap False)) (system.fields p)"

lemma booted_system:
  "env_ok (booted_system p)" "g_env (booted_system p) = g_env booted" "sys_parts (booted_system p) = p"
  "g_sys_log (booted_system p) = g_sys_log booted" "g_global_canary (booted_system p) = g_global_canary booted"
  using booted(2) by (simp_all add: booted_system_def kernel.defs heap_kernel.defs system.defs env_ok_def)

theorem command_line_reaches_its_entry_witness:
  "\<forall>others p. sys_parse_input others (lit ''kill   42'') (booted_system p) =
       dispatch others (in_buffer 64 ''kill'') (in_buffer 190 ''42'') (args_entry ''kill'' R_cmd_kill) (booted_system p) \<and>
     sys_parse_input others (lit ''kil 42'') (booted_system p) = Some (Inl (Out_of_bounds, booted_system p))"
proof (intro allI conjI)
  fix others p
  have f: "List.find (\<lambda>e. signature e = ''kill'') g_dispatch_table = Some (args_entry ''kill'' R_cmd_kill)"
    "List.find (\<lambda>e. signature e = ''kil'') g_dispatch_table = None"
    by (simp_all add: g_dispatch_table_def plain_entry_def args_entry_def dead_entry_def)
  have "sys_parse_input others (lit ''kill   42'') (booted_system p) =
     (case List.find (\<lambda>e. signature e = ''kill'') g_dispatch_table of
        Some e \<Rightarrow> dispatch others (in_buffer 64 ''kill'') (in_buffer 190 ''42'') e (booted_system p)
      | None \<Rightarrow> Some (Inl (Out_of_bounds, booted_system p)))"
    by (rule command_line_reaches_its_entry [OF booted_system(1), where n = 3]) (simp_all add: eval_nat_numeral)
  then show "sys_parse_input others (lit ''kill   42'') (booted_system p) =
       dispatch others (in_buffer 64 ''kill'') (in_buffer 190 ''42'') (args_entry ''kill'' R_cmd_kill) (booted_system p)"
    by (simp add: f)
  have "sys_parse_input others (lit ''kil 42'') (booted_system p) =
     (case List.find (\<lambda>e. signature e = ''kil'') g_dispatch_table of
        Some e \<Rightarrow> dispatch others (in_buffer 64 ''kil'') (in_buffer 190 ''42'') e (booted_system p)
      | None \<Rightarrow> Some (Inl (Out_of_bounds, booted_system p)))"
    by (rule command_line_reaches_its_entry [OF booted_system(1), where n = 1]) simp_all
  then show "sys_parse_input others (lit ''kil 42'') (booted_system p) = Some (Inl (Out_of_bounds, booted_system p))"
    by (simp add: f)
qed

section \<open>Sudo at the prompt\<close>

lemma k_log_keeps: "k_log lvl msg k = Inr k' \<Longrightarrow> \<exists>l. k' = k\<lparr>g_sys_log := l\<rparr>"
  by (auto simp: k_log_def split: sum.splits)

lemma positive_answer_eq: "typed line \<Longrightarrow> positive_answer line \<longleftrightarrow> sanitized line \<in> {''yes'', ''y''}"
  by (rule read_line_eq [of line]) (auto simp: positive_answer_def equals_eq)

lemma parts_simps [simp]:
  "sys_parts (emit out k) = sys_parts k" "sys_parts (set_env f k) = sys_parts k"
  by (simp_all add: emit_def set_env_def)

text \<open>What \<open>sudo\<close> leaves alone.\<close>

lemma sudo_handler_keeps:
  assumes "cmd_sudo_handler line1 line2 k = Inr k'" "env_ok k"
  shows "system_state (g_env k') = system_state (g_env k)" "sys_parts k' = sys_parts k"
  using assms
  by (auto simp: cmd_sudo_handler_def bindE_eq_Inr k_lift_def Let_def map_sum_def split: sum.splits if_splits
      dest!: k_log_keeps)

lemma sudo_calm:
  assumes "env_ok k" "\<forall>line \<in> lines_of k. typed line"
  shows "after (sudo k) (calm k)"
proof -
  have handler: "after (Some (cmd_sudo_handler line1 line2 k')) (calm k)"
    if "calm k k'" "typed line1" "typed line2" "unprivileged k \<longrightarrow> \<not> granted line1 line2" for line1 line2 k'
  proof -
    have k': "env_ok k'" using that(1) by (rule calm_ok)
    from sudo_step [OF k' that(2,3)] obtain k'' where k'': "cmd_sudo_handler line1 line2 k' = Inr k''" "env_ok k''"
      "priv_of k'' = priv_spec (Sudo line1 line2) (priv_of k')" by blast
    have "priv_of k'' = priv_of k" if "unprivileged k"
      using k''(3) \<open>calm k k'\<close> \<open>unprivileged k \<longrightarrow> \<not> granted line1 line2\<close> that
      by (cases "priv_of k") (simp add: calm_def unprivileged_def)
    then show ?thesis
      using sudo_handler_keeps [OF k''(1) k'] k''(1,2) that(1) by (simp add: calm_def lines_of_def)
  qed
  have nul: "typed [NUL]" "sanitized [NUL] = []" by (simp_all add: typed_def sanitized_def)
  have "after (with_line (\<lambda>line1 k. if positive_answer line1 then with_line (\<lambda>line2 k. Some (cmd_sudo_handler line1 line2 k)) k
      else Some (cmd_sudo_handler line1 [NUL] k)) k) (calm k)"
  proof (rule calm_line [OF assms(1)], rule after_if)
    fix line1 k1 assume l1: "line1 \<in> lines_of k" and c1: "calm k k1"
    have t1: "typed line1" using assms(2) l1 by blast
    have sub: "lines_of k1 \<subseteq> lines_of k" using c1 by (simp add: calm_def)
    show "after (with_line (\<lambda>line2 k. Some (cmd_sudo_handler line1 line2 k)) k1) (calm k)"
    proof (cases "p_lines (sys_parts k1)")
      case (Cons line2 later)
      let ?k = "k1\<lparr>sys_parts := (sys_parts k1)\<lparr>p_lines := later\<rparr>\<rparr>"
      have "calm k1 ?k" using calm_ok [OF c1] Cons by (auto simp: calm_def priv_of_def lines_of_def env_ok_def)
      then have c2: "calm k ?k" by (rule calm_trans [OF c1])
      have "line2 \<in> lines_of k" using sub Cons by (auto simp: lines_of_def)
      then have "typed line2" "unprivileged k \<longrightarrow> \<not> granted line1 line2"
        using assms(2) by (auto simp: unprivileged_def granted_def)
      then show ?thesis using handler [OF c2 t1, of line2] Cons by (simp add: with_line_def)
    qed (simp add: with_line_def)
    show "after (Some (cmd_sudo_handler line1 [NUL] k1)) (calm k)"
      using nul by (intro handler [OF c1 t1]) (auto simp: granted_def)
  qed
  then show ?thesis using assms(1) by (simp add: sudo_def)
qed

section \<open>Sessions\<close>

text \<open>A sound system whose lines are what the keyboard driver hands over.\<close>

definition harmless :: "system \<Rightarrow> bool" where
  "harmless k \<longleftrightarrow> env_ok k \<and> (\<forall>line \<in> lines_of k. typed line)"

lemma harmless_calm: "harmless k \<Longrightarrow> calm k k' \<Longrightarrow> harmless k'"
  by (auto simp: harmless_def calm_def)

lemma harmless_routine:
  assumes "harmless k" "\<And>r args. uses_lines (others r args)"
  shows "after (run_routine others r args k) (calm k)"
proof (cases "r = R_cmd_sudo_handler")
  case True
  then show ?thesis using assms(1) sudo_calm [of k] by (simp add: harmless_def)
next
  case False
  have "env_ok k" using assms(1) by (simp add: harmless_def)
  from calm_routine [OF this False assms(2)] show ?thesis .
qed

lemma harmless_bind:
  assumes "harmless k" "after m (calm k)" "\<And>k'. harmless k' \<Longrightarrow> calm k k' \<Longrightarrow> after (f k') (calm k')"
  shows "after (bindP m f) (calm k)"
  using assms(1,2)
proof (rule_tac calm_bind)
  fix k' assume "calm k k'"
  then show "after (f k') (calm k')" using assms(3) harmless_calm [OF assms(1)] by blast
qed

lemma harmless_lift:
  "harmless k \<Longrightarrow> (\<And>x. m = Inr x \<Longrightarrow> after (f x) (calm k)) \<Longrightarrow> after (bindP (Some (k_lift k m)) f) (calm k)"
  by (rule after_bind) (cases m; simp add: k_lift_def)

lemma harmless_verify: "harmless k \<Longrightarrow> after (Some (sys_verify_integrity k)) (calm k)"
  by (rule calm_verify) (simp add: harmless_def)

lemma harmless_dispatch:
  assumes "harmless k" "\<And>r args. uses_lines (others r args)" "loggable cmd"
  shows "after (dispatch others cmd args e k) (calm k)"
proof -
  have ok: "env_ok k" using assms(1) by (simp add: harmless_def)
  have denied: "after (bindP (Some (k_log 2 (lit ''UNAUTHORIZED_EXECUTION_ATTEMPT'') k)) (\<lambda>k. Some (Inr (emit
          [Print (ln ''Permission denied. System operation restricted to authorized context.'')] k)))) (calm k)"
    by (rule calm_bind) (simp_all add: calm_log [OF ok] calm_emit)
  have c: "calm k (count_cycle k)" "env_ok (count_cycle k)" using calm_count [OF ok] by (auto dest: calm_ok)
  have "after (bindP (Some (k_log 0 cmd (count_cycle k))) (\<lambda>k.
          case (if requires_args e then exec_arg_ptr e else exec_ptr e) of
            None \<Rightarrow> Some (Inr k) | Some r \<Rightarrow> run_routine others r args k)) (calm (count_cycle k))"
  proof (rule harmless_bind [OF harmless_calm [OF assms(1) c(1)] calm_log [OF c(2) assms(3)]])
    fix k' assume h: "harmless k'"
    then have "env_ok k'" by (simp add: harmless_def)
    then show "after (case (if requires_args e then exec_arg_ptr e else exec_ptr e) of
            None \<Rightarrow> Some (Inr k') | Some r \<Rightarrow> run_routine others r args k') (calm k')"
      using harmless_routine [OF h assms(2)] by (auto simp: calm_refl split: option.split)
  qed
  then have "after (bindP (Some (k_log 0 cmd (count_cycle k))) (\<lambda>k.
          case (if requires_args e then exec_arg_ptr e else exec_ptr e) of
            None \<Rightarrow> Some (Inr k) | Some r \<Rightarrow> run_routine others r args k)) (calm k)"
    by (rule after_mono) (rule calm_trans [OF c(1)])
  with denied show ?thesis unfolding dispatch_def by (rule after_if)
qed

lemma harmless_vector_loop:
  assumes "harmless k" "\<And>r args. uses_lines (others r args)" "loggable cmd"
  shows "after (vector_loop others cmd args n i k) (calm k)"
proof (induction n arbitrary: i)
  case 0
  have "env_ok k" using assms(1) by (simp add: harmless_def)
  then show ?case by (simp add: calm_emit)
next
  case (Suc n)
  show ?case unfolding vector_loop.simps
    by (intro harmless_lift [OF assms(1)]) (simp add: Suc harmless_dispatch [OF assms])
qed

lemma copy_command_length: "copy_command n raw = Inr (w, r) \<Longrightarrow> nul_free w \<and> length w \<le> n"
  by (induction n raw arbitrary: w r rule: copy_command.induct) (auto simp: map_sum_def split: if_splits sum.splits)

lemma harmless_parse:
  assumes "harmless k" "\<And>r args. uses_lines (others r args)"
  shows "after (sys_parse_input others raw k) (calm k)"
proof -
  have vec: "after (sys_execute_vector others (in_buffer SYS_CMD_MAX cmd) args k) (calm k)"
    if "harmless k" "nul_free cmd" "length cmd \<le> SYS_CMD_MAX - 1" for k cmd args
  proof -
    have l: "length cmd < 64" using that(3) by (simp add: SYS_CMD_MAX_def)
    have "loggable (in_buffer SYS_CMD_MAX cmd)"
      using in_buffer_cstr [OF that(2) l] l by (simp add: loggable_def SYS_CMD_MAX_def)
    then have v: "after (vector_loop others (in_buffer SYS_CMD_MAX cmd) args n i k') (calm k')" if "harmless k'" for n i k'
      using that assms(2) by (intro harmless_vector_loop)
    show ?thesis unfolding sys_execute_vector_def
      by (intro harmless_bind [OF that(1) harmless_verify [OF that(1)]] harmless_lift) (auto simp: v calm_refl harmless_def)
  qed
  show ?thesis unfolding sys_parse_input_def
  proof (intro harmless_bind [OF assms(1) harmless_verify [OF assms(1)]] harmless_lift, goal_cases)
    case (2 k' c)
    have "env_ok k'" using 2(1) by (simp add: harmless_def)
    moreover have "after (bindP (Some (k_lift k' (copy_command (SYS_CMD_MAX - 1) raw))) (\<lambda>(cmd, raw).
         bindP (Some (k_lift k' (skip_spaces raw))) (\<lambda>raw.
         bindP (Some (k_lift k' (copy_args (SYS_ARG_MAX - 1) raw))) (\<lambda>args.
           sys_execute_vector others (in_buffer SYS_CMD_MAX cmd) (in_buffer SYS_ARG_MAX args) k')))) (calm k')"
    proof (rule harmless_lift [OF 2(1)])
      fix x assume x: "copy_command (SYS_CMD_MAX - 1) raw = Inr x"
      obtain w r where w: "x = (w, r)" by (cases x)
      have "nul_free w" "length w \<le> SYS_CMD_MAX - 1" using copy_command_length [of "SYS_CMD_MAX - 1" raw w r] x w by auto
      then show "after (case x of (cmd, raw) \<Rightarrow> bindP (Some (k_lift k' (skip_spaces raw))) (\<lambda>raw.
         bindP (Some (k_lift k' (copy_args (SYS_ARG_MAX - 1) raw))) (\<lambda>args.
           sys_execute_vector others (in_buffer SYS_CMD_MAX cmd) (in_buffer SYS_ARG_MAX args) k'))) (calm k')"
        unfolding w prod.case by (intro harmless_lift [OF 2(1)] vec [OF 2(1)])
    qed
    ultimately show ?case by (simp add: calm_refl)
  qed
qed

lemma calm_tick_counter: "env_ok k \<Longrightarrow> calm k (k\<lparr>g_tick_counter := n\<rparr>)"
  by (simp add: calm_def priv_of_def lines_of_def env_ok_def)

lemma harmless_tick:
  assumes "harmless k"
  shows "after (tick esp k) (calm k)"
proof -
  have ok: "env_ok k" using assms by (simp add: harmless_def)
  let ?k = "k\<lparr>g_tick_counter := g_tick_counter k + 1\<rparr>"
  have c: "calm k ?k" by (rule calm_tick_counter [OF ok])
  have w: "after (if g_tick_counter ?k mod 500 = 0 then watch_stack esp ?k else Some (Inr ?k)) (calm ?k)"
    using calm_refl [OF calm_ok [OF c]] by (simp add: watch_stack_def)
  have "after (bindP (if g_tick_counter ?k mod 500 = 0 then watch_stack esp ?k else Some (Inr ?k)) (\<lambda>k.
        if SYS_TICK_MAX \<le> g_tick_counter k then
          bindP (on_parts oom_check k) (\<lambda>k. Some (sys_verify_integrity (k\<lparr>g_tick_counter := 0\<rparr>)))
        else Some (Inr k))) (calm ?k)"
  proof (rule calm_bind [OF w])
    fix k' assume k': "env_ok k'" "calm ?k k'"
    have "after (bindP (on_parts oom_check k') (\<lambda>k. Some (sys_verify_integrity (k\<lparr>g_tick_counter := 0\<rparr>)))) (calm k')"
      by (rule calm_bind [OF calm_parts [OF k'(1) uses_lines_parts(5)]])
        (simp add: calm_tick_counter verify_ok [OF calm_ok [OF calm_tick_counter]])
    then show "after (if SYS_TICK_MAX \<le> g_tick_counter k' then
          bindP (on_parts oom_check k') (\<lambda>k. Some (sys_verify_integrity (k\<lparr>g_tick_counter := 0\<rparr>)))
        else Some (Inr k')) (calm k')" using k'(1) by (simp add: calm_refl)
  qed
  then show ?thesis unfolding tick_def Let_def by (rule after_mono) (rule calm_trans [OF c])
qed

lemma harmless_round:
  assumes "harmless k" "\<And>r args. uses_lines (others r args)"
  shows "after (kernel_round esp others k) (calm k)"
  unfolding kernel_round_def
proof (rule harmless_bind [OF assms(1) harmless_tick [OF assms(1)]])
  fix k1 assume h1: "harmless k1"
  then have ok: "env_ok k1" by (simp add: harmless_def)
  have c: "calm k1 (prompt k1)" unfolding prompt_def by (rule calm_emit [OF ok])
  have "after (with_line (\<lambda>line k.
         bindP (Some (k_lift k (read_line line))) (\<lambda>local_io_buffer.
         bindP (Some (k_lift k (get local_io_buffer 0))) (\<lambda>c.
           if c \<noteq> NUL then sys_parse_input others local_io_buffer k else Some (Inr k)))) (prompt k1)) (calm (prompt k1))"
  proof (rule calm_line [OF calm_ok [OF c]])
    fix line k' assume cc: "calm (prompt k1) k'"
    then have h: "harmless k'" using harmless_calm [OF harmless_calm [OF h1 c]] by blast
    then have "env_ok k'" by (simp add: harmless_def)
    then show "after (bindP (Some (k_lift k' (read_line line))) (\<lambda>local_io_buffer.
         bindP (Some (k_lift k' (get local_io_buffer 0))) (\<lambda>c.
           if c \<noteq> NUL then sys_parse_input others local_io_buffer k' else Some (Inr k')))) (calm (prompt k1))"
      by (intro after_calm [OF cc] harmless_lift [OF h]) (simp add: harmless_parse [OF h assms(2)] calm_refl)
  qed
  then show "after (with_line (\<lambda>line k.
         bindP (Some (k_lift k (read_line line))) (\<lambda>local_io_buffer.
         bindP (Some (k_lift k (get local_io_buffer 0))) (\<lambda>c.
           if c \<noteq> NUL then sys_parse_input others local_io_buffer k else Some (Inr k)))) (prompt k1)) (calm k1)"
    by (rule after_mono) (rule calm_trans [OF c])
qed

section \<open>From the start\<close>

lemma then_all_calm:
  "(\<And>f (k :: system). f \<in> set fs \<Longrightarrow> env_ok k \<Longrightarrow> after (f k) (calm k)) \<Longrightarrow> env_ok k \<Longrightarrow> after (then_all fs k) (calm k)"
proof (induction fs arbitrary: k)
  case (Cons f fs)
  have "after (bindP (f k) (then_all fs)) (calm k)"
    by (rule calm_bind) (use Cons in auto)
  then show ?case by simp
qed (simp add: calm_refl)

lemma calm_hw:
  assumes "env_ok k" "uses_lines f"
  shows "after (hw f k) (calm k)"
  using calm_on_others [OF assms(1), of "\<lambda>_ _. f" undefined undefined] assms(2) by (simp add: hw_def on_others_def)

lemma startup_state:
  assumes "\<forall>f \<in> set hardware. uses_lines f" "7 \<le> length hardware"
    "sys_execute_startup_routines hardware task_at raw k0 = Some (Inr k)"
  obtains k1 where "calm k1 k" "priv_of k1 = (False, True)" "system_state (g_env k1) = 1" "lines_of k1 = lines_of k0"
proof -
  obtain k1 where k1: "sys_env_bootstrap k0 = Inr k1" "env_ok k1" "priv_of k1 = (False, True)" "system_state (g_env k1) = 1"
    using bootstrap_step [of k0] by blast
  have l: "lines_of k1 = lines_of k0"
    using k1(1) by (auto simp: sys_env_bootstrap_def Let_def lines_of_def dest!: k_log_keeps)
  have hw: "after (hw (hardware ! i) k) (calm k)" if "env_ok k" "i < 7" for i and k :: system
    using that assms(1,2) by (intro calm_hw) auto
  let ?rest = "[\<lambda>k. Some (Inr (emit [Cls] k)), hw (hardware ! 0), hw (hardware ! 1), on_parts (on_fs init_fs),
        hw (hardware ! 2), WX_Vm.ram, hw (hardware ! 3), hw (hardware ! 4), hw (hardware ! 5),
        \<lambda>k. Some (Inr (emit [Cls] k)), hw (hardware ! 6),
        on_parts (\<lambda>p. Inr ([], p\<lparr>p_sched := scheduler_initialize (p_sched p)\<rparr>)),
        on_parts (\<lambda>p. case new_task task_at raw (p_oom p) of
                         Inl (f, c) \<Rightarrow> Inl f | Inr (u, c) \<Rightarrow> Inr ([], p\<lparr>p_oom := c\<rparr>)),
        \<lambda>k. Some (Inr (emit logo k))]"
  have lines: "uses_lines (\<lambda>p. Some (Inr ([], p\<lparr>p_sched := scheduler_initialize (p_sched p)\<rparr>)))"
    "uses_lines (\<lambda>p. Some (case new_task task_at raw (p_oom p) of
        Inl (f, c) \<Rightarrow> Inl f | Inr (u, c) \<Rightarrow> Inr ([], p\<lparr>p_oom := c\<rparr>)))"
    by (auto simp: uses_lines_def split: sum.splits prod.splits)
  have "after (then_all ?rest k1) (calm k1)"
  proof (rule then_all_calm [OF _ k1(2)])
    fix f and k :: system assume "f \<in> set ?rest" "env_ok k"
    then show "after (f k) (calm k)"
      by (simp only: set_simps insert_iff empty_iff) (elim disjE; simp add: calm_emit hw calm_ram calm_parts lines uses_lines_parts(1))
  qed
  moreover have "then_all ?rest k1 = Some (Inr k)"
    using assms(3) k1(1) by (simp add: sys_execute_startup_routines_def)
  ultimately have "calm k1 k" by (simp add: after_def)
  with k1 l show thesis by (intro that)
qed

text \<open>The states in which the prompt waits for a line.\<close>

inductive session :: "hardware_step list \<Rightarrow> u32 \<Rightarrow> sys_task \<Rightarrow> u32 \<Rightarrow> other_routines \<Rightarrow> system \<Rightarrow> system \<Rightarrow> bool"
  for hardware task_at raw esp others k0
where
  started: "sys_execute_startup_routines hardware task_at raw k0 = Some (Inr k) \<Longrightarrow>
     session hardware task_at raw esp others k0 k"
| command: "session hardware task_at raw esp others k0 k \<Longrightarrow> system_state (g_env k) = 1 \<Longrightarrow>
     kernel_round esp others k = Some (Inr k') \<Longrightarrow> session hardware task_at raw esp others k0 k'"

lemma session_unprivileged:
  assumes "session hardware task_at raw esp others k0 k"
    "\<forall>f \<in> set hardware. uses_lines f" "7 \<le> length hardware" "\<forall>r args. uses_lines (others r args)"
    "\<forall>line \<in> lines_of k0. typed line \<and> sanitized line \<noteq> ''root''"
  shows "env_ok k \<and> system_state (g_env k) = 1 \<and> priv_of k = (False, True)"
proof -
  from assms have "env_ok k \<and> system_state (g_env k) = 1 \<and> priv_of k = (False, True) \<and> lines_of k \<subseteq> lines_of k0"
  proof (induction rule: session.induct)
    case (started k)
    show ?case
    proof (rule startup_state [OF started(2,3,1)])
      fix k1 assume k1: "calm k1 k" "priv_of k1 = (False, True)" "system_state (g_env k1) = 1" "lines_of k1 = lines_of k0"
      then have "unprivileged k1" using started(5) by (simp add: unprivileged_def)
      then show ?thesis using k1 by (simp add: calm_def)
    qed
  next
    case (command k k')
    then have k: "env_ok k" "system_state (g_env k) = 1" "priv_of k = (False, True)" "lines_of k \<subseteq> lines_of k0" by auto
    then have "harmless k" using command(8) by (auto simp: harmless_def)
    then have "after (kernel_round esp others k) (calm k)" using command(7) by (intro harmless_round) auto
    then have c: "calm k k'" using command(3) by (simp add: after_def)
    have "unprivileged k" using k(3,4) command(8) by (auto simp: unprivileged_def)
    then show ?case using c k by (auto simp: calm_def)
  qed
  then show ?thesis by blast
qed

text \<open>
  Whatever is typed from power-on, in the start-up and at the prompt, and whatever the devices and the
  other components do with their own state: as long as none of the lines is the password, every state in
  which the prompt waits has a sound environment, runs without root and under isolation.
\<close>
lemma no_root_without_the_password:
  assumes "session hardware task_at raw esp others k0 k"
    "\<forall>f \<in> set hardware. uses_lines f" "7 \<le> length hardware" "\<forall>r args. uses_lines (others r args)"
    "\<forall>line \<in> lines_of k0. typed line \<and> sanitized line \<noteq> ''root''"
  shows "env_ok k \<and> system_state (g_env k) = 1 \<and> priv_of k = (False, True)"
  using assms by (rule session_unprivileged)

text \<open>
  C36: the loop of the prompt never ends by itself: from a sound running state, whatever is typed, it either
  goes on for ever or stops in a fault; the panic \<open>ERR_MAIN_LOOP_EXIT\<close> that follows the loop is never
  reached, because the only writes of \<open>system_state\<close> after the start are in the panics.
\<close>
theorem prompt_loop_never_ends:
  assumes "env_ok k" "system_state (g_env k) = 1" "\<forall>line \<in> lines_of k. typed line" "\<forall>r args. uses_lines (others r args)"
  shows "kernel_loop esp others k \<noteq> Some (Inr k')"
proof -
  have "\<forall>k'. r = Inr k' \<longrightarrow> \<not> (harmless k \<and> system_state (g_env k) = 1)"
    if "kernel_loop esp' others' k = Some r" "others' = others" for esp' others' k r
  proof -
    have "others' = others \<longrightarrow> (\<forall>k'. r = Inr k' \<longrightarrow> \<not> (harmless k \<and> system_state (g_env k) = 1))"
      using that(1)
    proof (rule kernel_loop.raw_induct [rotated])
      fix loop esp others' and k :: system and r
      assume IH: "\<And>esp others' k r. loop esp others' k = Some r \<Longrightarrow>
          others' = others \<longrightarrow> (\<forall>k'. r = Inr k' \<longrightarrow> \<not> (harmless k \<and> system_state (g_env k) = 1))"
        and body: "(if system_state (g_env k) = 1 then (case kernel_round esp others' k of None \<Rightarrow> None
            | Some r \<Rightarrow> (case r of Inl e \<Rightarrow> Some (Inl e) | Inr k \<Rightarrow> loop esp others' k)) else Some (Inr k)) = Some r"
      show "others' = others \<longrightarrow> (\<forall>k'. r = Inr k' \<longrightarrow> \<not> (harmless k \<and> system_state (g_env k) = 1))"
      proof (intro impI allI notI)
        fix k' assume o: "others' = others" and r: "r = Inr k'" and h: "harmless k \<and> system_state (g_env k) = 1"
        from body h r obtain k2 where k2: "kernel_round esp others' k = Some (Inr k2)" "loop esp others' k2 = Some r"
          by (auto split: option.splits sum.splits)
        have "after (kernel_round esp others' k) (calm k)" using h o assms(4) by (intro harmless_round) auto
        then have c: "calm k k2" using k2(1) by (simp add: after_def)
        then have "harmless k2 \<and> system_state (g_env k2) = 1" using h harmless_calm [of k k2] by (simp add: calm_def)
        with IH [OF k2(2)] o r show False by blast
      qed
    qed
    with that(2) show ?thesis by blast
  qed
  moreover have "harmless k" using assms(1,3) by (simp add: harmless_def)
  ultimately show ?thesis using assms(2) by blast
qed

lemma booted_running: "system_state (g_env booted) = 1"
  using bootstrap_step [of load_image] booted(1) by auto

theorem prompt_loop_never_ends_witness:
  "\<forall>p k'. kernel_loop 0x100000 (\<lambda>_ _ _. None) (booted_system (p\<lparr>p_lines := [lit ''help'', lit ''sudo'', lit ''yes'', lit ''root'']\<rparr>))
     \<noteq> Some (Inr k')"
proof (intro allI)
  fix p k'
  show "kernel_loop 0x100000 (\<lambda>_ _ _. None) (booted_system (p\<lparr>p_lines := [lit ''help'', lit ''sudo'', lit ''yes'', lit ''root'']\<rparr>))
     \<noteq> Some (Inr k')"
    by (rule prompt_loop_never_ends [OF booted_system(1)])
      (simp_all add: booted_system booted_running lines_of_def uses_lines_def)
qed

text \<open>The memory at power-on: everything is zero but for the initial canary and the flag of \<open>ram\<close>.\<close>

definition zero_fs :: vfs where
  "zero_fs = \<lparr>storage = replicate 128 \<lparr>node_name = replicate 32 NUL, node_type = DIR_NODE, parent_idx = 0, is_used = False\<rparr>,
     current_dir = 0\<rparr>"

definition power_on :: "parts \<Rightarrow> system" where
  "power_on p = heap_kernel.extend (kernel.extend load_image (heap_kernel.fields zero_heap True))
     (system.fields (p\<lparr>p_fs := zero_fs, p_lines := [lit ''sudo'', lit ''yes'', lit ''toor'']\<rparr>))"

definition idle :: hardware_step where
  "idle p = Some (Inr ([], p))"

lemma zero_fs_starts: "\<exists>out v. init_fs zero_fs = Inr (out, v)"
proof -
  have "\<exists>name. fs_strcpy (replicate 32 NUL) (lit ''root'') = Inr name"
    by (simp add: fs_strcpy_def NAME_LEN_def lit_def eval_nat_numeral)
  then show ?thesis by (auto simp: init_fs_def zero_fs_def Let_def)
qed

lemma hw_idle: "hw idle k = Some (Inr k)"
  by (simp add: hw_def idle_def on_parts_def emit_def)

lemma power_on_starts: "\<exists>k. sys_execute_startup_routines (replicate 7 idle) 0 raw (power_on p) = Some (Inr k)"
proof -
  let ?k0 = "power_on p"
  obtain k1 where k1: "sys_env_bootstrap ?k0 = Inr k1" "env_ok k1" using bootstrap_step [of ?k0] by blast
  have keep: "sys_parts k1 = sys_parts ?k0" "memory_heap k1 = memory_heap ?k0" "first_ram k1 = first_ram ?k0"
    using k1(1) by (auto simp: sys_env_bootstrap_def Let_def dest!: k_log_keeps)
  have p0: "p_fs (sys_parts ?k0) = zero_fs" "first_ram ?k0" "memory_heap ?k0 = zero_heap"
    by (simp_all add: power_on_def kernel.defs heap_kernel.defs system.defs)
  obtain out v where v: "init_fs zero_fs = Inr (out, v)" using zero_fs_starts by blast
  have r: "\<exists>out f h. ram_cmd True zero_heap = Some (Inr (out, f, h))"
  proof -
    have "free_walk zero_heap 0 HEAP_SIZE = Some (Inr HEAP_SIZE)"
      by (subst free_walk.simps) (simp add: HEAP_SIZE_def read_header_def zero_heap_def read32_in)
    then show ?thesis by (simp add: ram_cmd_def Let_def get_free_ram_def zero_heap_def) blast
  qed
  then obtain out' f h where r': "ram_cmd True zero_heap = Some (Inr (out', f, h))" by blast
  have idle: "replicate 7 idle ! i = idle" if "i < 7" for i using that by simp
  show ?thesis
    by (simp add: sys_execute_startup_routines_def k1(1) idle hw_idle on_parts_def on_fs_def keep p0 v WX_Vm.ram_def
        r' new_task_def emit_def)
qed

lemma no_root_without_the_password_witness:
  "\<forall>raw p. \<exists>k. session (replicate 7 idle) 0 raw 0x100000 (\<lambda>_ _ _. None) (power_on p) k \<and> env_ok k \<and> priv_of k = (False, True)"
proof (intro allI)
  fix raw p
  obtain k where k: "sys_execute_startup_routines (replicate 7 idle) 0 raw (power_on p) = Some (Inr k)"
    using power_on_starts by blast
  then have s: "session (replicate 7 idle) 0 raw 0x100000 (\<lambda>_ _ _. None) (power_on p) k" by (rule session.started)
  have "env_ok k \<and> system_state (g_env k) = 1 \<and> priv_of k = (False, True)"
    by (rule no_root_without_the_password [OF s])
      (simp_all add: uses_lines_def idle_def power_on_def lines_of_def system.defs heap_kernel.defs kernel.defs sanitized_def bad_char_def)
  with s show "\<exists>k. session (replicate 7 idle) 0 raw 0x100000 (\<lambda>_ _ _. None) (power_on p) k \<and> env_ok k \<and> priv_of k = (False, True)"
    by blast
qed

end
