(* ===== verification/WX_Shell_Cmds.thy ===== *)
theory WX_Shell_Cmds
  imports WX_Shell
begin

text \<open>Small commands of the shell: printing of an \<open>int\<close>, the listing of the log, \<open>echo\<close>, \<open>fortune\<close>.\<close>

section \<open>Printing an int\<close>

lemma dec_str_step: "0 < n \<Longrightarrow> dec_str n = (if n div 10 = 0 then [] else dec_str (n div 10)) @ [digit (n mod 10)]"
  by (subst dec_str.simps) auto

lemma print_int_loop_eq:
  "nat n < 10 ^ i \<Longrightarrow> 0 \<le> n \<Longrightarrow>
   (case print_int_loop i n (replicate i NUL @ suf) of (j, buf) \<Rightarrow> drop j buf) =
     (if n = 0 then [] else dec_str (nat n)) @ suf"
proof (induction i arbitrary: n suf)
  case (Suc i)
  show ?case
  proof (cases "n = 0")
    case False
    then have n: "0 < n" using Suc.prems(2) by simp
    have u: "(replicate (Suc i) NUL @ suf)[i := c] = replicate i NUL @ c # suf" for c
    proof -
      have "replicate (Suc i) NUL = replicate i NUL @ [NUL]" by (simp add: replicate_append_same)
      then show ?thesis by (simp only: append_assoc) (simp add: list_update_append)
    qed
    have d: "nat (n div 10) = nat n div 10" "nat (n mod 10) = nat n mod 10"
      using n by (simp_all add: nat_div_distrib nat_mod_distrib)
    have "nat (n div 10) < 10 ^ i" unfolding d using Suc.prems(1) by (simp add: less_mult_imp_div_less mult.commute)
    then have "(case print_int_loop i (n div 10) (replicate i NUL @ digit (nat (n mod 10)) # suf) of (j, buf) \<Rightarrow> drop j buf) =
        (if n div 10 = 0 then [] else dec_str (nat (n div 10))) @ digit (nat (n mod 10)) # suf"
      using n by (intro Suc.IH) simp_all
    moreover have "n div 10 = 0 \<longleftrightarrow> nat n div 10 = 0" using n by (metis d(1) nat_0_iff int_nat_eq nat_int of_nat_0 pos_imp_zdiv_nonneg_iff order_antisym_conv zero_less_numeral less_imp_le)
    ultimately show ?thesis using n dec_str_step [of "nat n"] d by (simp add: u del: replicate_Suc)
  qed simp
qed simp

text \<open>
  A positive \<open>int\<close> is printed as its decimal digits followed by the byte of the buffer that was never
  written, unless that happens to be the terminator.
\<close>

lemma sys_print_int_shows_junk:
  assumes "0 < n" "n < 10 ^ 10"
  shows "sys_print_int junk n = [Print (dec_str (nat n) @ (if junk = NUL then [] else [junk]))]"
proof -
  obtain j buf where p: "print_int_loop 10 n (replicate 10 NUL @ [junk, NUL]) = (j, buf)" by (meson surj_pair)
  have "nat n < 10 ^ 10" using assms by (simp add: nat_less_iff)
  from print_int_loop_eq [OF this, of "[junk, NUL]"] p assms(1) have "drop j buf = dec_str (nat n) @ [junk, NUL]" by simp
  moreover have "cstr (dec_str (nat n) @ [junk, NUL]) = dec_str (nat n) @ (if junk = NUL then [] else [junk])"
    using cstr_append_NUL [of "dec_str (nat n)" "[NUL]"] cstr_append_NUL [of "dec_str (nat n) @ [junk]" "[]"] by simp
  ultimately show ?thesis using assms(1) p by (simp add: sys_print_int_def)
qed

section \<open>The listing of the log\<close>

lemma logs_loop_eq:
  assumes "length (entries (g_sys_log k)) = 128" "unat c < 128" "n \<le> 128"
    "list_all sound_entry (ring_list (entries (g_sys_log k)) (unat c) n)"
  shows "logs_loop junk n c k = Inr (emit (concat (map (log_line junk) (ring_list (entries (g_sys_log k)) (unat c) n))) k)"
  using assms
proof (induction n arbitrary: c k)
  case (Suc n)
  let ?es = "entries (g_sys_log k)"
  let ?r = "ring_list ?es (unat c) (Suc n)"
  let ?c = "(c + 1) mod SYS_LOG_CAPACITY"
  have hd: "hd ?r = ?es ! unat c" using Suc.prems by (simp add: ring_list_hd)
  have tl: "tl ?r = ring_list ?es (unat ?c) n"
    using ring_list_deq [of "Suc n" ?es "unat c"] Suc.prems by (simp add: unat_ring_succ)
  have r: "?r = ?es ! unat c # ring_list ?es (unat ?c) n"
    using hd tl by (metis length_ring_list list.collapse list.size(3) nat.distinct(1))
  have s: "sound_entry (?es ! unat c)" using Suc.prems(4) r by simp
  have c: "unat ?c < 128" using Suc.prems(2) by (simp add: unat_ring_succ)
  have "logs_loop junk n ?c (emit (log_line junk (?es ! unat c)) k) =
      Inr (emit (concat (map (log_line junk) (ring_list ?es (unat ?c) n))) (emit (log_line junk (?es ! unat c)) k))"
    using Suc.prems r c Suc.IH [of "emit (log_line junk (?es ! unat c)) k" ?c] by simp
  moreover have "sys_calculate_checksum (message (?es ! unat c)) 128 = Inr (integrity_checksum (?es ! unat c))"
    using s by (simp add: sound_entry_def sys_calculate_checksum_eq)
  ultimately show ?case
    using Suc.prems(1,2) s unfolding r by (simp add: k_lift_def sound_entry_def emit_def)
qed (simp add: emit_def)

text \<open>
  The listing of the log on a sound kernel never panics and changes nothing: it prints one line per
  entry, oldest first, with the time stamp, the level and the message of that entry.
\<close>
lemma log_listing_shows_the_log:
  assumes "env_ok k"
  shows "cmd_sys_logs junk k =
     Inr (emit (if log_list (g_sys_log k) = [] then [Print (ln ''Log buffer is empty.'')]
                else concat (map (log_line junk) (log_list (g_sys_log k)))) k)"
proof -
  have s: "log_sound (g_sys_log k)" using assms by (simp add: env_ok_def)
  then have i: "length (entries (g_sys_log k)) = 128" "unat (log_head (g_sys_log k)) < 128" "unat (log_count (g_sys_log k)) \<le> 128"
    "list_all sound_entry (ring_list (entries (g_sys_log k)) (unat (log_head (g_sys_log k))) (unat (log_count (g_sys_log k))))"
    by (auto simp: log_sound_def log_inv_def log_list_def)
  have e: "log_list (g_sys_log k) = [] \<longleftrightarrow> log_count (g_sys_log k) = 0"
    by (simp add: log_list_def ring_list_def unat_eq_zero)
  show ?thesis
    using logs_loop_eq [OF i, of junk] e assms by (simp add: cmd_sys_logs_def log_list_def)
qed

lemma log_listing_shows_the_log_witness:
  "cmd_sys_logs CHR ''#'' booted = Inr (emit (log_line CHR ''#'' (entries (g_sys_log booted) ! 0)) booted)"
proof -
  have l: "log_list (g_sys_log booted) = [entries (g_sys_log booted) ! 0]"
    by code_simp
  show ?thesis using log_listing_shows_the_log [OF booted(2), of "CHR ''#''"] by (simp add: l)
qed

section \<open>Echo and fortune\<close>

text \<open>The arguments reach \<open>echo\<close> without the command word, yet the first five characters are dropped.\<close>

lemma echo_drops_its_text: "cmd_echo_handler (lit ''hello world'') = Inr [Print (ln [])]"
  "cmd_echo_handler (lit ''echo hello'') = Inr [Print ''hello'', Print (ln [])]"
  by (simp_all add: cmd_echo_handler_def echo_def get_def lit_def)

lemma fortunes_cycle:
  "fortune_index k < 9 \<Longrightarrow> cmd_random_fortune k =
     Inr (emit [Print (g_fortunes ! fortune_index k), Print (ln [])] (k\<lparr>fortune_index := (fortune_index k + 1) mod 9\<rparr>))"
proof -
  assume h: "fortune_index k < 9"
  have "length g_fortunes = 9" by (simp add: g_fortunes_def)
  with h have "get g_fortunes (fortune_index k) = Inr (g_fortunes ! fortune_index k)" by simp
  moreover have "(if FORTUNE_COUNT \<le> fortune_index k + 1 then 0 else fortune_index k + 1) = (fortune_index k + 1) mod 9"
    using h by (cases "fortune_index k = 8") (auto simp: FORTUNE_COUNT_def)
  ultimately show ?thesis unfolding cmd_random_fortune_def k_lift_def Let_def by (simp only: map_sum.simps id_apply bindE_simps)
qed

end
