(* ===== verification/WX_Hw.thy ===== *)
theory WX_Hw
  imports WX_Vga WX_Hex
begin

text \<open>
  Code that drives the machine directly: port input and output (\<open>io.h\<close>), the descriptor tables of
  \<open>gdt.h\<close> and \<open>idt.h\<close>, the interrupt controller, the timer and the speaker, the clock of \<open>clock.h\<close>,
  \<open>reboot\<close> and \<open>shutdown\<close>.  What a device answers is a list of the values still to be read; a routine that waits for an answer that does not
  come is \<open>None\<close>.  The accesses made are listed in order.
\<close>

section \<open>Ports\<close>

datatype port_event = Out8 u16 u8 | Out16 u16 u16 | In8 u16 u8

type_synonym 'a pio = "u8 list \<Rightarrow> ('a \<times> port_event list \<times> u8 list) option"

definition outb :: "u16 \<Rightarrow> u8 \<Rightarrow> port_event list" where
  "outb port data = [Out8 port data]"

definition inb :: "u16 \<Rightarrow> u8 pio" where
  "inb port ins = (case ins of [] \<Rightarrow> None | v # ins \<Rightarrow> Some (v, [In8 port v], ins))"

text \<open>A wait: read the port as long as the value read keeps the routine waiting.\<close>

fun wait_while :: "(u8 \<Rightarrow> bool) \<Rightarrow> u16 \<Rightarrow> u8 pio" where
  "wait_while busy port [] = None"
| "wait_while busy port (v # ins) =
     (if busy v then map_option (\<lambda>(r, es, ins). (r, In8 port v # es, ins)) (wait_while busy port ins)
      else Some (v, [In8 port v], ins))"

lemma wait_while_eq:
  "\<forall>v \<in> set vs. busy v \<Longrightarrow> \<not> busy w \<Longrightarrow>
   wait_while busy port (vs @ w # ins) = Some (w, map (In8 port) (vs @ [w]), ins)"
  by (induction vs) auto

lemma wait_while_None: "wait_while busy port ins = None \<longleftrightarrow> (\<forall>v \<in> set ins. busy v)"
  by (induction ins) auto

section \<open>Descriptor tables\<close>

record gdt_entry =
  limit_low :: u16
  base_low :: u16
  base_middle :: u8
  gdt_access :: u8
  granularity :: u8
  base_high :: u8

record table_ptr =
  ptr_limit :: u16
  ptr_base :: u32

text \<open>An index outside the table is an access out of bounds.\<close>

definition gdt_set_gate :: "int \<Rightarrow> u32 \<Rightarrow> u32 \<Rightarrow> u8 \<Rightarrow> u8 \<Rightarrow> gdt_entry list \<Rightarrow> fault + gdt_entry list" where
  "gdt_set_gate num base limit access gran gdt =
     (if num < 0 then Inl Out_of_bounds
      else put gdt (nat num)
        \<lparr>limit_low = ucast (limit AND 0xFFFF), base_low = ucast (base AND 0xFFFF),
         base_middle = ucast (drop_bit 16 base AND 0xFF), gdt_access = access,
         granularity = ucast (drop_bit 16 limit AND 0x0F) OR (gran AND 0xF0),
         base_high = ucast (drop_bit 24 base AND 0xFF)\<rparr>)"

text \<open>\<open>gdt_at\<close> is the address of the table.\<close>

definition init_gdt :: "u32 \<Rightarrow> gdt_entry list \<Rightarrow> fault + gdt_entry list \<times> table_ptr" where
  "init_gdt gdt_at gdt =
     bindE (gdt_set_gate 0 0 0 0 0 gdt) (\<lambda>gdt.
     bindE (gdt_set_gate 1 0 0xFFFFFFFF 0x9A 0xCF gdt) (\<lambda>gdt.
     bindE (gdt_set_gate 2 0 0xFFFFFFFF 0x92 0xCF gdt) (\<lambda>gdt.
       Inr (gdt, \<lparr>ptr_limit = 8 * 3 - 1, ptr_base = gdt_at\<rparr>))))"

record idt_entry =
  base_lo :: u16
  sel :: u16
  always0 :: u8
  flags :: u8
  base_hi :: u16

definition idt_set_gate :: "u8 \<Rightarrow> u32 \<Rightarrow> u16 \<Rightarrow> u8 \<Rightarrow> idt_entry list \<Rightarrow> fault + idt_entry list" where
  "idt_set_gate num base sl fl idt =
     put idt (unat num)
       \<lparr>base_lo = ucast (base AND 0xFFFF), sel = sl, always0 = 0, flags = fl,
        base_hi = ucast (drop_bit 16 base AND 0xFFFF)\<rparr>"

definition pic_remap :: "port_event list" where
  "pic_remap = outb 0x20 0x11 @ outb 0xA0 0x11 @ outb 0x21 0x20 @ outb 0xA1 0x28 @ outb 0x21 0x04 @
     outb 0xA1 0x02 @ outb 0x21 0x01 @ outb 0xA1 0x01 @ outb 0x21 0 @ outb 0xA1 0"

definition init_idt :: "u32 \<Rightarrow> idt_entry list \<Rightarrow> fault + idt_entry list \<times> table_ptr \<times> port_event list" where
  "init_idt idt_at idt =
     bindE (foldE (\<lambda>i. idt_set_gate (of_nat i) 0 0 0) [0..<256] idt) (\<lambda>idt.
       Inr (idt, \<lparr>ptr_limit = 8 * 256 - 1, ptr_base = idt_at\<rparr>, pic_remap))"

section \<open>Timer and speaker\<close>

definition PIT_FREQ :: u32 where "PIT_FREQ = 1193182"
definition TARGET_FREQ :: u32 where "TARGET_FREQ = 100"

definition pit_init :: "port_event list" where
  "pit_init =
     (let divisor = PIT_FREQ div TARGET_FREQ
      in outb 0x43 0x36 @ outb 0x40 (ucast (divisor AND 0xFF)) @ outb 0x40 (ucast (drop_bit 8 divisor AND 0xFF)))"

text \<open>\<open>clockmain\<close> sets the timer and calls the handler for ever; its first \<open>n\<close> turns.\<close>

fun clock_turns :: "nat \<Rightarrow> wall_clock \<Rightarrow> wall_clock \<times> con list" where
  "clock_turns 0 c = (c, [])"
| "clock_turns (Suc n) c =
     (case timer_handler c of (c, out) \<Rightarrow> case clock_turns n c of (c, outs) \<Rightarrow> (c, out @ outs))"

definition clockmain :: "nat \<Rightarrow> wall_clock \<Rightarrow> port_event list \<times> wall_clock \<times> con list" where
  "clockmain n c = (pit_init, clock_turns n c)"

text \<open>\<open>gate\<close> is the byte at port 0x61: it is read, changed and written back.\<close>

definition play_tone :: "u32 \<Rightarrow> u8 \<Rightarrow> port_event list \<times> u8" where
  "play_tone frequency gate =
     (if frequency = 0 then ([In8 0x61 gate, Out8 0x61 (gate AND 0xFC)], gate AND 0xFC)
      else
        let divisor = 1193180 div frequency
        in (outb 0x43 0xB6 @ outb 0x42 (ucast (divisor AND 0xFF)) @
            outb 0x42 (ucast (drop_bit 8 divisor AND 0xFF)) @ [In8 0x61 gate, Out8 0x61 (gate OR 0x03)],
            gate OR 0x03))"

definition melody :: "u32 list" where
  "melody = [330, 392, 440, 523, 659, 659, 0, 659, 523, 523, 0, 587]"

text \<open>Each note is a tone and, after a delay, silence; the delays only pass time.\<close>

fun play_notes :: "u32 list \<Rightarrow> u8 \<Rightarrow> port_event list \<times> u8" where
  "play_notes [] gate = ([], gate)"
| "play_notes (f # fs) gate =
     (case play_tone f gate of (on, gate) \<Rightarrow>
      case play_tone 0 gate of (off, gate) \<Rightarrow>
      case play_notes fs gate of (es, gate) \<Rightarrow> (on @ off @ es, gate))"

definition melodi :: "u8 \<Rightarrow> port_event list \<times> u8" where
  "melodi gate = play_notes melody gate"

section \<open>Clock\<close>

definition get_rtc_reg :: "u8 \<Rightarrow> u8 pio" where
  "get_rtc_reg reg ins = map_option (\<lambda>(v, es, ins). (v, outb 0x70 reg @ es, ins)) (inb 0x71 ins)"

definition clock_text :: "u8 \<Rightarrow> u8 \<Rightarrow> u8 \<Rightarrow> char list" where
  "clock_text h m s =
     map (\<lambda>d. char_of (unat d + 48)) [h div 10, h mod 10] @ [CHR '':''] @
     map (\<lambda>d. char_of (unat d + 48)) [m div 10, m mod 10] @ [CHR '':''] @
     map (\<lambda>d. char_of (unat d + 48)) [s div 10, s mod 10]"

text \<open>The eight cells at the right end of the first row.  \<open>char\<close> is signed when it is widened.\<close>

definition show_clock :: "char list \<Rightarrow> u16 list \<Rightarrow> fault + u16 list" where
  "show_clock t vga = foldE (\<lambda>i b. bindE (get t i) (\<lambda>c. put b (72 + i) (word_of_int (char_int c) OR 0x0E00))) [0..<8] vga"

text \<open>
  One turn of the loop of \<open>time\<close>: the status register A of the clock, the three registers when no update
  is in progress, then the keyboard; \<open>True\<close> when the key 0x10 ends the loop.
\<close>

definition time_turn :: "u16 list \<Rightarrow> u8 list \<Rightarrow> (fault + (bool \<times> u16 list) \<times> u8 list) option" where
  "time_turn vga ins =
     (case get_rtc_reg 0x0A ins of
        None \<Rightarrow> None
      | Some (a, _, ins) \<Rightarrow>
          (case (if a AND 0x80 \<noteq> 0 then Some (Inr (vga, ins))
                 else case get_rtc_reg 0x00 ins of None \<Rightarrow> None | Some (s, _, ins) \<Rightarrow>
                      case get_rtc_reg 0x02 ins of None \<Rightarrow> None | Some (m, _, ins) \<Rightarrow>
                      case get_rtc_reg 0x04 ins of None \<Rightarrow> None | Some (h, _, ins) \<Rightarrow>
                        Some (map_sum id (\<lambda>b. (b, ins))
                          (show_clock (clock_text (bcd_to_bin h) (bcd_to_bin m) (bcd_to_bin s)) vga))) of
             None \<Rightarrow> None
           | Some (Inl f) \<Rightarrow> Some (Inl f)
           | Some (Inr (vga, ins)) \<Rightarrow>
               (case inb 0x64 ins of
                  None \<Rightarrow> None
                | Some (st, _, ins) \<Rightarrow>
                    if st AND 0x01 \<noteq> 0 then
                      (case inb 0x60 ins of None \<Rightarrow> None | Some (k, _, ins) \<Rightarrow> Some (Inr ((k = 0x10, vga), ins)))
                    else Some (Inr ((False, vga), ins)))))"

text \<open>Each turn reads at least one answer, so on a list of answers the loop ends, with the key or by waiting on.\<close>

lemma inb_rest: "inb port ins = Some (v, es, rest) \<Longrightarrow> ins = v # rest"
  by (auto simp: inb_def split: list.splits)

lemma rtc_rest: "get_rtc_reg reg ins = Some (v, es, rest) \<Longrightarrow> ins = v # rest"
  by (auto simp: get_rtc_reg_def dest!: inb_rest)

lemma time_turn_shorter:
  assumes "time_turn vga ins = Some (Inr (r, rest))"
  shows "length rest < length ins"
  using assms
  by (auto simp: time_turn_def map_sum_def dest!: rtc_rest inb_rest split: option.splits sum.splits if_splits)

function time_loop :: "u16 list \<Rightarrow> u8 list \<Rightarrow> (fault + u16 list \<times> u8 list) option" where
  "time_loop vga ins =
     (case time_turn vga ins of
        None \<Rightarrow> None
      | Some (Inl f) \<Rightarrow> Some (Inl f)
      | Some (Inr ((key, vga), ins)) \<Rightarrow> if key then Some (Inr (vga, ins)) else time_loop vga ins)"
  by pat_completeness auto

termination
  by (relation "measure (\<lambda>(_, ins). length ins)") (auto dest: time_turn_shorter)

declare time_loop.simps [simp del]

section \<open>Reboot and shutdown\<close>

definition reboot :: "u8 list \<Rightarrow> con list \<times> (port_event list \<times> u8 list) option" where
  "reboot ins =
     ([Print (ln ''System is rebooting...'')],
      map_option (\<lambda>(_, es, ins). (es @ outb 0x64 0xFE, ins)) (wait_while (\<lambda>good. good AND 0x02 \<noteq> 0) 0x64 ins))"

text \<open>\<open>quit\<close> of \<open>sdd.h\<close> is the same reset without the message.\<close>

definition quit :: "u8 list \<Rightarrow> (port_event list \<times> u8 list) option" where
  "quit ins = map_option (\<lambda>(_, es, ins). (es @ outb 0x64 0xFE, ins)) (wait_while (\<lambda>good. good AND 0x02 \<noteq> 0) 0x64 ins)"

text \<open>The second parameter of \<open>outb\<close> is an \<open>unsigned char\<close>, so the word \<open>0x2000\<close> arrives as its low byte.\<close>

definition shutdown :: "port_event list \<times> fault" where
  "shutdown = (outb 0x604 (ucast (0x2000 :: u32)) @ outb 0xB004 (ucast (0x2000 :: u32)), Cpu_halted)"


section \<open>What the processor reads from the tables\<close>

text \<open>The fields of a segment descriptor as the processor puts them together.\<close>

definition segment_base :: "gdt_entry \<Rightarrow> u32" where
  "segment_base e = ucast (base_low e) OR push_bit 16 (ucast (base_middle e)) OR push_bit 24 (ucast (base_high e))"

definition segment_limit :: "gdt_entry \<Rightarrow> u32" where
  "segment_limit e = ucast (limit_low e) OR push_bit 16 (ucast (granularity e AND 0x0F))"

text \<open>The last offset in the segment: bit 7 of the granularity counts the limit in pages.\<close>

definition last_offset :: "gdt_entry \<Rightarrow> u32" where
  "last_offset e = (if bit (granularity e) 7 then push_bit 12 (segment_limit e) OR 0xFFF else segment_limit e)"

definition handler_offset :: "idt_entry \<Rightarrow> u32" where
  "handler_offset e = ucast (base_lo e) OR push_bit 16 (ucast (base_hi e))"

lemma base_parts:
  "ucast (ucast (b AND 0xFFFF) :: u16) OR push_bit 16 (ucast (ucast (drop_bit 16 b AND 0xFF) :: u8)) OR
   push_bit 24 (ucast (ucast (drop_bit 24 b AND 0xFF) :: u8)) = b" (is "?l = b") for b :: u32
proof (rule bit_eqI)
  fix n assume "possible_bit TYPE(u32) n"
  then have "n < 16 \<or> 16 \<le> n \<and> n < 24 \<or> 24 \<le> n \<and> n < 32" by auto
  moreover have "b AND 0xFFFF = take_bit 16 b" "drop_bit 16 b AND 0xFF = take_bit 8 (drop_bit 16 b)"
    "drop_bit 24 b AND 0xFF = take_bit 8 (drop_bit 24 b)"
    by (simp_all add: take_bit_eq_mask mask_numeral)
  ultimately show "bit ?l n = bit b n"
    by (auto simp: bit_simps)
qed

lemma halves:
  "ucast (ucast (b AND 0xFFFF) :: u16) OR push_bit 16 (ucast (ucast (drop_bit 16 b AND 0xFFFF) :: u16)) = b" (is "?l = b") for b :: u32
proof (rule bit_eqI)
  fix n assume "possible_bit TYPE(u32) n"
  then have "n < 32" by simp
  moreover have "b AND 0xFFFF = take_bit 16 b" "drop_bit 16 b AND 0xFFFF = take_bit 16 (drop_bit 16 b)"
    by (simp_all add: take_bit_eq_mask mask_numeral)
  ultimately show "bit ?l n = bit b n"
    by (auto simp: bit_simps)
qed

lemma masks: "x AND 0x0F = take_bit 4 x" "x AND 0xF0 = push_bit 4 (take_bit 4 (drop_bit 4 x))" for x :: u8
proof -
  show "x AND 0x0F = take_bit 4 x" by (simp add: take_bit_eq_mask mask_numeral)
  show "x AND 0xF0 = push_bit 4 (take_bit 4 (drop_bit 4 x))"
  proof (rule bit_eqI)
    fix n assume "possible_bit TYPE(u8) n"
    then have "n = 0 \<or> n = 1 \<or> n = 2 \<or> n = 3 \<or> n = 4 \<or> n = 5 \<or> n = 6 \<or> n = 7" by auto
    then show "bit (x AND 0xF0) n = bit (push_bit 4 (take_bit 4 (drop_bit 4 x))) n"
      by (elim disjE) (simp_all add: bit_simps)
  qed
qed

lemma limit_mask: "drop_bit 16 l AND 0x0F = take_bit 4 (drop_bit 16 l)" for l :: u32
  by (simp add: take_bit_eq_mask mask_numeral)

lemma gate_flags: "(ucast (drop_bit 16 l AND 0x0F) OR (g AND 0xF0)) AND 0xF0 = g AND 0xF0" for l :: u32 and g :: u8
  by (rule bit_eqI) (auto simp: bit_simps masks limit_mask)

lemma gate_limit:
  "ucast (ucast (l AND 0xFFFF) :: u16) OR push_bit 16 (ucast ((ucast (drop_bit 16 l AND 0x0F) OR (g AND 0xF0)) AND 0x0F)) =
   take_bit 20 l" (is "?l = _") for l :: u32 and g :: u8
proof (rule bit_eqI)
  fix n assume "possible_bit TYPE(u32) n"
  then have "n < 32" by simp
  moreover have "l AND 0xFFFF = take_bit 16 l" by (simp add: take_bit_eq_mask mask_numeral)
  ultimately show "bit ?l n = bit (take_bit 20 l) n"
    by (auto simp: bit_simps masks limit_mask)
qed

lemma gdt_gate_fields:
  assumes "n < length gdt"
  shows "\<exists>e. gdt_set_gate (int n) base limit access gran gdt = Inr (gdt[n := e]) \<and> segment_base e = base \<and>
    segment_limit e = take_bit 20 limit \<and> gdt_access e = access \<and> granularity e AND 0xF0 = gran AND 0xF0"
proof -
  let ?e = "\<lparr>limit_low = ucast (limit AND 0xFFFF), base_low = ucast (base AND 0xFFFF),
         base_middle = ucast (drop_bit 16 base AND 0xFF), gdt_access = access,
         granularity = ucast (drop_bit 16 limit AND 0x0F) OR (gran AND 0xF0),
         base_high = ucast (drop_bit 24 base AND 0xFF)\<rparr>"
  have "segment_base ?e = base" by (simp only: segment_base_def gdt_entry.simps base_parts)
  moreover have "segment_limit ?e = take_bit 20 limit" by (simp only: segment_limit_def gdt_entry.simps gate_limit)
  moreover have "granularity ?e AND 0xF0 = gran AND 0xF0" by (simp only: gdt_entry.simps gate_flags)
  ultimately show ?thesis using assms by (intro exI [of _ ?e]) (simp add: gdt_set_gate_def)
qed

text \<open>
  A descriptor set by \<open>gdt_set_gate\<close> is read back by the processor as it was given: the whole base, the
  low twenty bits of the limit, the access byte and the four flags; the other descriptors stay.  An index
  beyond the table is caught by no check of the code.
\<close>
lemma segment_descriptor_round_trip:
  fixes gdt :: "gdt_entry list"
  shows "case gdt_set_gate (int n) base limit access gran gdt of
      Inl f \<Rightarrow> n \<ge> length gdt \<and> f = Out_of_bounds
    | Inr gdt' \<Rightarrow> n < length gdt \<and> length gdt' = length gdt \<and> (\<forall>i. i \<noteq> n \<longrightarrow> gdt' ! i = gdt ! i) \<and>
        (let e = gdt' ! n in segment_base e = base \<and> segment_limit e = take_bit 20 limit \<and> gdt_access e = access \<and>
           granularity e AND 0xF0 = gran AND 0xF0)"
proof (cases "n < length gdt")
  case True
  from gdt_gate_fields [OF this, of base limit access gran] obtain e where
    "gdt_set_gate (int n) base limit access gran gdt = Inr (gdt[n := e])" "segment_base e = base"
    "segment_limit e = take_bit 20 limit" "gdt_access e = access" "granularity e AND 0xF0 = gran AND 0xF0" by blast
  with True show ?thesis by simp
next
  case False
  then show ?thesis by (simp add: gdt_set_gate_def put_def)
qed

lemma segment_descriptor_round_trip_witness:
  "\<forall>z. case gdt_set_gate 1 0x12345678 0xABCDE 0x9A 0xCF [z, z, z] of
      Inl f \<Rightarrow> False | Inr gdt' \<Rightarrow> segment_base (gdt' ! 1) = 0x12345678 \<and> gdt' ! 2 = z"
proof
  fix z :: gdt_entry
  show "case gdt_set_gate 1 0x12345678 0xABCDE 0x9A 0xCF [z, z, z] of
      Inl f \<Rightarrow> False | Inr gdt' \<Rightarrow> segment_base (gdt' ! 1) = 0x12345678 \<and> gdt' ! 2 = z"
    using segment_descriptor_round_trip [where n = 1 and gdt = "[z, z, z]" and base = "0x12345678" and limit = "0xABCDE" and access = "0x9A" and gran = "0xCF"]
    by (simp add: Let_def split: sum.splits)
qed

text \<open>The set-up of the kernel: a null descriptor and two segments that cover the whole address space.\<close>

lemma init_gdt_flat:
  "\<exists>gdt. init_gdt gdt_at [x, y, z] = Inr (gdt, \<lparr>ptr_limit = 23, ptr_base = gdt_at\<rparr>) \<and> length gdt = 3 \<and>
     (\<forall>i \<in> {1, 2}. segment_base (gdt ! i) = 0 \<and> last_offset (gdt ! i) = 0xFFFFFFFF) \<and>
     gdt_access (gdt ! 0) = 0 \<and> gdt_access (gdt ! 1) = 0x9A \<and> gdt_access (gdt ! 2) = 0x92"
  by (simp add: init_gdt_def gdt_set_gate_def put_def segment_base_def last_offset_def segment_limit_def bit_simps)

lemma idt_gate_fields:
  assumes "unat n < length idt"
  shows "\<exists>e. idt_set_gate n base s fl idt = Inr (idt[unat n := e]) \<and> handler_offset e = base \<and> sel e = s \<and> flags e = fl"
proof -
  let ?e = "\<lparr>base_lo = ucast (base AND 0xFFFF), sel = s, always0 = 0, flags = fl,
        base_hi = ucast (drop_bit 16 base AND 0xFFFF)\<rparr>"
  have "handler_offset ?e = base" by (simp only: handler_offset_def idt_entry.simps halves)
  then show ?thesis using assms by (intro exI [of _ ?e]) (simp add: idt_set_gate_def)
qed

text \<open>The set-up of the interrupt table fills it with absent gates, and nothing else sets a gate.\<close>

lemma init_idt_absent:
  assumes "length idt = 256"
  shows "\<exists>idt'. init_idt idt_at idt = Inr (idt', \<lparr>ptr_limit = 2047, ptr_base = idt_at\<rparr>, pic_remap) \<and> length idt' = 256 \<and>
     (\<forall>i < 256. handler_offset (idt' ! i) = 0 \<and> \<not> bit (flags (idt' ! i)) 7)"
proof -
  let ?z = "\<lparr>base_lo = 0, sel = 0, always0 = 0, flags = 0, base_hi = 0\<rparr>"
  have "foldE (\<lambda>i. idt_set_gate (of_nat i) 0 0 0) [0..<n] idt = Inr (replicate n ?z @ drop n idt)" if "n \<le> 256" for n
    using that
  proof (induction n)
    case (Suc n)
    then have "unat (of_nat n :: u8) = n" by (simp add: unsigned_of_nat take_bit_nat_eq_self)
    then have "idt_set_gate (of_nat n) 0 0 0 (replicate n ?z @ drop n idt) = Inr ((replicate n ?z @ drop n idt)[n := ?z])"
      using Suc.prems assms by (simp add: idt_set_gate_def put_def)
    also have "(replicate n ?z @ drop n idt)[n := ?z] = replicate (Suc n) ?z @ drop (Suc n) idt"
      using Suc.prems assms by (simp add: list_update_append replicate_append_same Cons_nth_drop_Suc [symmetric])
    finally show ?case using Suc by (simp add: foldE_append)
  qed simp
  from this [of 256] assms show ?thesis by (simp add: init_idt_def handler_offset_def)
qed

text \<open>The counter value that \<open>pit_init\<close> and \<open>play_tone\<close> send byte by byte fits its sixteen bits.\<close>

lemma divisors_fit: "PIT_FREQ div TARGET_FREQ < 0x10000" "f \<in> set melody \<Longrightarrow> f \<noteq> 0 \<Longrightarrow> 1193180 div f < (0x10000 :: u32)"
  by (auto simp: PIT_FREQ_def TARGET_FREQ_def melody_def)

lemma gate_masks: "(g OR 3) AND 0xFC = g AND (0xFC :: u8)"
  by (simp add: bit.conj_disj_distrib2)

text \<open>The melody ends with the speaker off and the other bits of the port as they were.\<close>

lemma play_notes_step: "snd (play_notes (f # fs) gate) = snd (play_notes fs (snd (play_tone 0 (snd (play_tone f gate)))))"
  by (simp add: case_prod_beta)

lemma tone_then_silence: "snd (play_tone 0 (snd (play_tone f gate))) = gate AND 0xFC"
  by (simp add: play_tone_def Let_def gate_masks)

lemma notes_end_silent: "fs \<noteq> [] \<Longrightarrow> snd (play_notes fs gate) = gate AND 0xFC"
proof (induction fs arbitrary: gate)
  case (Cons f fs)
  show ?case
  proof (cases "fs = []")
    case True
    show ?thesis unfolding play_notes_step tone_then_silence using True by simp
  next
    case False
    then show ?thesis using Cons.IH [OF False, of "gate AND 0xFC"] by (simp only: play_notes_step tone_then_silence) simp
  qed
qed simp

lemma melody_ends_silent: "snd (melodi gate) = gate AND 0xFC"
proof -
  have "melody \<noteq> []" by (simp add: melody_def)
  then show ?thesis unfolding melodi_def by (rule notes_end_silent)
qed

end
