(* ===== verification/WX_Cpu.thy ===== *)
theory WX_Cpu
  imports Complex_Main WX_Hw WX_Shell
begin

text \<open>
  Processor identification, cycle counts and model-specific registers (\<open>cpuid.h\<close>, \<open>cpucritical.h\<close>,
  \<open>power.h\<close>), the process monitor of \<open>htop.h\<close> and the region record of \<open>mmio.h\<close>.  What the processor
  answers (\<open>cpuid\<close> leaves, the cycle counter, a model-specific register) is an argument.  The accessors of
  \<open>mmio.h\<close> and the joining of register pairs have round-trip lemmas.
\<close>

section \<open>Identification\<close>

definition print_cycles :: "u64 \<Rightarrow> fault + con list" where
  "print_cycles c =
     bindE (to_hex (ucast (drop_bit 32 c)) (replicate 11 NUL)) (\<lambda>hi.
     bindE (to_hex (ucast (c AND 0xFFFFFFFF)) hi) (\<lambda>lo.
       Inr [Print ''Cycle Count (High 32-bit): '', Print (cstr hi), Print (ln []),
            Print ''Cycle Count (Low 32-bit):  '', Print (cstr lo), Print (ln [])]))"

record cpu_features =
  has_sse :: u32
  has_sse2 :: u32
  has_sep :: u32
  cr4 :: u32

definition chars_of :: "u32 \<Rightarrow> char list" where
  "chars_of w = map (\<lambda>b. char_of (unat b)) (le32 w)"

definition vendor_text :: "u32 \<Rightarrow> u32 \<Rightarrow> u32 \<Rightarrow> char list" where
  "vendor_text ebx edx ecx = chars_of ebx @ chars_of edx @ chars_of ecx @ [NUL]"

definition print_if :: "bool \<Rightarrow> con list \<Rightarrow> con list" where
  "print_if b out = (if b then out else [])"

text \<open>\<open>leaf0\<close> is \<open>(ebx, ecx, edx)\<close>, \<open>leaf1\<close> is \<open>(ecx, edx)\<close>.\<close>

definition cpuid :: "u32 \<times> u32 \<times> u32 \<Rightarrow> u32 \<times> u32 \<Rightarrow> u64 \<Rightarrow> cpu_features \<Rightarrow> fault + con list \<times> cpu_features" where
  "cpuid leaf0 leaf1 tsc f =
     (case leaf0 of (ebx, ecx, edx) \<Rightarrow>
      let out = [Print ''Vendor: '', Print (cstr (vendor_text ebx edx ecx)), Print (ln [])] in
      case leaf1 of (ecx, edx) \<Rightarrow>
      let f = f\<lparr>has_sse := edx AND push_bit 25 1, has_sse2 := edx AND push_bit 26 1, has_sep := edx AND push_bit 11 1\<rparr>;
          out = out @ print_if (edx AND 1 \<noteq> 0) [Print (ln ''FPU: yes'')] @ print_if (has_sep f \<noteq> 0) [Print (ln ''SEP: yes'')] @
            print_if (has_sse f \<noteq> 0) [Print (ln ''SSE: yes'')] @ print_if (has_sse2 f \<noteq> 0) [Print (ln ''SSE2: yes'')] @
            print_if (ecx AND 1 \<noteq> 0) [Print (ln ''SSE3: yes'')];
          f = (if has_sse f \<noteq> 0 then f\<lparr>cr4 := cr4 f OR 0x200\<rparr> else f)
      in map_sum id (\<lambda>cycles. (out @ cycles, f)) (print_cycles tsc))"

section \<open>Thermal and power readings\<close>

text \<open>\<open>msr\<close> reads a model-specific register; \<open>show_int\<close> is \<open>print_int\<close>, which no file of the kernel defines.\<close>

definition MSR_IA32_TEMPERATURE_TARGET :: u32 where "MSR_IA32_TEMPERATURE_TARGET = 0x1A2"
definition MSR_IA32_PERF_STATUS :: u32 where "MSR_IA32_PERF_STATUS = 0x198"
definition MSR_IA32_PERF_CTL :: u32 where "MSR_IA32_PERF_CTL = 0x199"
definition MSR_PKG_ENERGY_STATUS :: u32 where "MSR_PKG_ENERGY_STATUS = 0x611"

definition get_thermal_data :: "(u32 \<Rightarrow> con list) \<Rightarrow> (u32 \<Rightarrow> u64) \<Rightarrow> con list" where
  "get_thermal_data show_int msr =
     (let tcc_offset = ucast (drop_bit 24 (msr MSR_IA32_TEMPERATURE_TARGET) AND 0xFF);
          current_vid = ucast (msr MSR_IA32_PERF_STATUS AND 0x3F)
      in [Print ''TCC Activation Offset: ''] @ show_int tcc_offset @ [Print (ln []), Print ''Voltage ID (VID):      ''] @
         show_int current_vid @ [Print (ln [])])"

definition apply_undervoltage :: "(u32 \<times> u64) list \<times> con list" where
  "apply_undervoltage = ([(MSR_IA32_PERF_CTL, 0x0800)], [Print (ln ''Voltage and Clock Dropped successfully.'')])"

definition INTERVAL :: u64 where "INTERVAL = 60000000000"

text \<open>Returns the registers written, the output and the new \<open>last_check\<close>; \<open>now\<close> is the cycle counter.\<close>

definition run_thermal_governor :: "(u32 \<Rightarrow> u64) \<Rightarrow> u64 \<Rightarrow> u64 \<Rightarrow> (u32 \<times> u64) list \<times> con list \<times> u64" where
  "run_thermal_governor msr now last_check =
     (if INTERVAL < now - last_check then
        let tcc_offset = ucast (drop_bit 24 (msr MSR_IA32_TEMPERATURE_TARGET) AND 0xFF) :: u32;
            out = [Print (ln ''Governor: Monitoring thermal headroom...'')]
        in if tcc_offset < 10 then
             (fst apply_undervoltage,
              out @ [Print (ln ''Governor: Thermal limit reached! Protection active.'')] @ snd apply_undervoltage, now)
           else ([], out @ [Print (ln ''Governor: Thermal status safe.'')], now)
      else ([], [], last_check))"

definition get_energy_raw :: "(u32 \<Rightarrow> u64) \<Rightarrow> u32" where
  "get_energy_raw msr = ucast (msr MSR_PKG_ENERGY_STATUS AND 0xFFFFFFFF)"

text \<open>The two static variables are the last energy and the last time; the time is stored and never used.\<close>

definition print_power_watt :: "(u32 \<Rightarrow> con list) \<Rightarrow> (u32 \<Rightarrow> u64) \<Rightarrow> u64 \<Rightarrow> u32 \<times> u64 \<Rightarrow> con list \<times> (u32 \<times> u64)" where
  "print_power_watt show_int msr now st =
     (let current_energy = get_energy_raw msr
      in (print_if (fst st \<noteq> 0)
            ([Print ''Power Usage (Relative Units): ''] @ show_int ((current_energy - fst st) div 1000) @ [Print (ln '' units'')]),
          (current_energy, now)))"

definition print_watt :: "(u32 \<Rightarrow> con list) \<Rightarrow> (u32 \<Rightarrow> u64) \<Rightarrow> con list" where
  "print_watt show_int msr = [Print ''Raw Energy Data: ''] @ show_int (get_energy_raw msr) @ [Print (ln [])]"

section \<open>Battery\<close>

text \<open>
  The \<open>double\<close> values of \<open>power.h\<close> are integers below \<open>2 ^ 40\<close> times a power of two, on which the operations
  used are exact, so they are rationals here; the conversion to \<open>int\<close> cuts the fraction off.
\<close>

definition MSR_PLATFORM_INFO :: u32 where "MSR_PLATFORM_INFO = 0xCE"
definition MSR_RAPL_POWER_UNIT :: u32 where "MSR_RAPL_POWER_UNIT = 0x606"
definition MSR_PKG_POWER_LIMIT :: u32 where "MSR_PKG_POWER_LIMIT = 0x610"
definition MSR_FEATURE_CONFIG :: u32 where "MSR_FEATURE_CONFIG = 0x13C"

definition is_run_on_battery :: "(u32 \<Rightarrow> u64) \<Rightarrow> bool" where
  "is_run_on_battery msr \<longleftrightarrow> msr MSR_PLATFORM_INFO AND push_bit 33 1 \<noteq> 0"

definition get_energy_units :: "(u32 \<Rightarrow> u64) \<Rightarrow> rat" where
  "get_energy_units msr =
     (let energy_unit = ucast (drop_bit 8 (msr MSR_RAPL_POWER_UNIT) AND 0x1F) :: u32
      in 1 / of_nat (unat (push_bit (unat energy_unit) 1 :: u64)))"

definition get_max_energy :: "(u32 \<Rightarrow> u64) \<Rightarrow> rat" where
  "get_max_energy msr =
     (let max_range = ucast (drop_bit 32 (msr MSR_PKG_POWER_LIMIT) AND 0x1F) :: u32
      in if max_range = 0 then 0
         else of_nat (unat (push_bit (unat max_range) 1 :: u64)) * get_energy_units msr)"

definition battery_percentage :: "(u32 \<Rightarrow> u64) \<Rightarrow> int" where
  "battery_percentage msr =
     (let current_energy = of_nat (unat (msr MSR_PKG_ENERGY_STATUS AND 0xFFFFFFFF)) * get_energy_units msr;
          max_energy = get_max_energy msr
      in if 0 < max_energy then
           let remaining = max_energy - current_energy;
               remaining = (if remaining < 0 then 0 else remaining);
               percentage = \<lfloor>remaining / max_energy * 100\<rfloor>
           in if 100 < percentage then 100 else percentage
         else 0)"

text \<open>The output and the register written, if any; \<open>junk\<close> is the byte that \<open>sys_print_int\<close> leaves unset.\<close>

definition batt :: "char \<Rightarrow> (u32 \<Rightarrow> u64) \<Rightarrow> con list \<times> (u32 \<times> u64) list" where
  "batt junk msr =
     (if \<not> is_run_on_battery msr then ([], [])
      else
        let percentage = battery_percentage msr
        in (sys_print_int junk percentage,
            if 100 \<le> percentage then [(MSR_FEATURE_CONFIG, msr MSR_FEATURE_CONFIG OR push_bit 0 1)] else []))"

text \<open>The percentage printed is between 0 and 100.\<close>

lemma battery_percentage_bounds: "0 \<le> battery_percentage msr" "battery_percentage msr \<le> 100"
proof -
  have "0 \<le> \<lfloor>r / m * 100\<rfloor>" if "0 \<le> r" "0 < m" for r m :: rat using that by simp
  then show "0 \<le> battery_percentage msr"
    by (simp add: battery_percentage_def Let_def)
  show "battery_percentage msr \<le> 100" by (simp add: battery_percentage_def Let_def)
qed

section \<open>The process monitor\<close>

fun htop_lines :: "process_control_block list \<Rightarrow> fault + con list" where
  "htop_lines [] = Inr []"
| "htop_lines (p # procs) =
     bindE (if execution_state p \<noteq> ST_DEAD then
              bindE (scheduler_integer_to_string (memory_footprint_pages p) (replicate 16 NUL)) (\<lambda>buf.
                Inr (map Putchar (ram_print_number (task_id p)) @ [Print '':'', Print (cstr buf), Print (ln ''pages'')]))
            else Inr []) (\<lambda>out.
       map_sum id (\<lambda>outs. out @ outs) (htop_lines procs))"

definition shown :: "string \<Rightarrow> u32 \<Rightarrow> con list" where
  "shown label n = [Print label] @ map Putchar (ram_print_number n) @ [Print (ln [])]"

text \<open>\<open>processor\<close> is the output of \<open>cpuid\<close>, \<open>uptime\<close> the tick counter of \<open>clk.h\<close>; the final \<open>scan\<close> only waits for a line.\<close>

definition htop :: "con list \<Rightarrow> u32 \<Rightarrow> u8 list \<Rightarrow> scheduler_state \<Rightarrow> sys_oom_ctrl \<Rightarrow> (fault + con list) option" where
  "htop processor uptime heap s c =
     map_option (\<lambda>free. bindE free (\<lambda>free_ram. bindE (get (zones c) ZONE_DMA) (\<lambda>dma.
       map_sum id (\<lambda>procs.
         [Cls] @ processor @ [Print ''Uptime:''] @ map Putchar (ram_print_number (uptime div 100)) @ [Print (ln ''s'')] @
         shown ''Kernel Ticks:'' (kernel_elapsed_ticks s) @ shown ''Scheduler Cycles:'' (scheduler_cycles s) @
         shown ''Heap Free:'' free_ram @ shown ''OOM Kills:'' (total_oom_kills c) @
         shown ''Zone DMA Free:'' (free_pages dma) @ shown ''Active Tasks:'' (active_process_count s) @ procs)
         (htop_lines (active s))))) (get_free_ram heap)"

section \<open>Memory-mapped regions\<close>

record mmio_region =
  base_phys :: u32
  base_virt :: u32
  region_size :: u32
  region_flags :: int

text \<open>\<open>None\<close> is the null pointer.\<close>

definition mmio_map_region :: "mmio_region option \<Rightarrow> u32 \<Rightarrow> u32 \<Rightarrow> u32 \<Rightarrow> int \<Rightarrow> int \<times> mmio_region option" where
  "mmio_map_region region phys_base virt len fl =
     (case region of
        None \<Rightarrow> (-1, None)
      | Some r \<Rightarrow> (0, Some \<lparr>base_phys = phys_base, base_virt = virt, region_size = len, region_flags = fl\<rparr>))"

text \<open>The accesses to a mapped region that behaves like memory: little-endian, one address per byte, addresses wrap.\<close>

definition mmio_read8 :: "u32 \<Rightarrow> (u32 \<Rightarrow> u8) \<Rightarrow> u8" where
  "mmio_read8 addr m = m addr"

definition mmio_write8 :: "u32 \<Rightarrow> u8 \<Rightarrow> (u32 \<Rightarrow> u8) \<Rightarrow> u32 \<Rightarrow> u8" where
  "mmio_write8 addr value m = m(addr := value)"

definition mmio_read16 :: "u32 \<Rightarrow> (u32 \<Rightarrow> u8) \<Rightarrow> u16" where
  "mmio_read16 addr m = ucast (m addr) OR push_bit 8 (ucast (m (addr + 1)))"

definition mmio_write16 :: "u32 \<Rightarrow> u16 \<Rightarrow> (u32 \<Rightarrow> u8) \<Rightarrow> u32 \<Rightarrow> u8" where
  "mmio_write16 addr value m = m(addr := ucast value, addr + 1 := ucast (drop_bit 8 value))"

definition mmio_read64 :: "u32 \<Rightarrow> (u32 \<Rightarrow> u8) \<Rightarrow> u64" where
  "mmio_read64 addr m =
     ucast (un32 (m addr) (m (addr + 1)) (m (addr + 2)) (m (addr + 3))) OR
     push_bit 32 (ucast (un32 (m (addr + 4)) (m (addr + 5)) (m (addr + 6)) (m (addr + 7))))"

definition mmio_write64 :: "u32 \<Rightarrow> u64 \<Rightarrow> (u32 \<Rightarrow> u8) \<Rightarrow> u32 \<Rightarrow> u8" where
  "mmio_write64 addr value m =
     (let lo = ucast value :: u32; hi = ucast (drop_bit 32 value) :: u32 in
      m(addr := ucast lo, addr + 1 := ucast (drop_bit 8 lo), addr + 2 := ucast (drop_bit 16 lo), addr + 3 := ucast (drop_bit 24 lo),
        addr + 4 := ucast hi, addr + 5 := ucast (drop_bit 8 hi), addr + 6 := ucast (drop_bit 16 hi), addr + 7 := ucast (drop_bit 24 hi)))"

section \<open>Register pairs\<close>

text \<open>\<open>rdmsr\<close>, \<open>wrmsr\<close> and \<open>get_cycles\<close> join and split the pair \<open>edx:eax\<close>.\<close>

definition join_pair :: "u32 \<times> u32 \<Rightarrow> u64" where
  "join_pair p = (case p of (lo, hi) \<Rightarrow> push_bit 32 (ucast hi) OR ucast lo)"

definition rdmsr :: "(u32 \<Rightarrow> u32 \<times> u32) \<Rightarrow> u32 \<Rightarrow> u64" where
  "rdmsr pairs msr = join_pair (pairs msr)"

definition wrmsr :: "u32 \<Rightarrow> u64 \<Rightarrow> (u32 \<Rightarrow> u32 \<times> u32) \<Rightarrow> u32 \<Rightarrow> u32 \<times> u32" where
  "wrmsr msr val pairs = pairs(msr := (ucast (val AND 0xFFFFFFFF), ucast (drop_bit 32 val)))"

definition get_cycles :: "u32 \<times> u32 \<Rightarrow> u64" where
  "get_cycles tsc = join_pair tsc"

lemma mask32: "(0xFFFFFFFF :: u64) = mask 32"
  by (simp add: mask_eq_exp_minus_1)

lemma rdmsr_wrmsr: "rdmsr (wrmsr r v pairs) q = (if q = r then v else rdmsr pairs q)"
proof -
  have "push_bit 32 (ucast (ucast (drop_bit 32 v) :: u32)) OR ucast (ucast (v AND mask 32) :: u32) = v"
    by (rule bit_eqI) (auto simp: bit_simps)
  then show ?thesis by (simp add: rdmsr_def wrmsr_def join_pair_def mask32)
qed

lemma mmio_round_trip:
  "mmio_read8 a (mmio_write8 a b m) = b" "mmio_read16 a (mmio_write16 a w m) = w" "mmio_read64 a (mmio_write64 a d m) = d"
proof -
  show "mmio_read8 a (mmio_write8 a b m) = b" by (simp add: mmio_read8_def mmio_write8_def)
  have "ucast (ucast w :: u8) OR push_bit 8 (ucast (ucast (drop_bit 8 w) :: u8)) = w"
    by (rule bit_eqI) (auto simp: bit_simps)
  then show "mmio_read16 a (mmio_write16 a w m) = w" by (simp add: mmio_read16_def mmio_write16_def)
  have "ucast (ucast d :: u32) OR push_bit 32 (ucast (ucast (drop_bit 32 d) :: u32)) = d"
    by (rule bit_eqI) (auto simp: bit_simps)
  then show "mmio_read64 a (mmio_write64 a d m) = d"
    by (simp add: mmio_read64_def mmio_write64_def Let_def un32_le32)
qed

end
