(* ===== verification/WX_Fault.thy ===== *)
theory WX_Fault
  imports WX_Hw WX_Disk WX_Paging
begin

text \<open>
  The fault handler of \<open>fault.h\<close>: it takes the write permission from every page, writes memory to the first
  nine sectors of the disk, shows its message on the page and waits for a key to reboot.  It works on the
  page tables at the addresses they contain, as the code does.
\<close>

section \<open>Memory protection\<close>

definition read_only :: "u32 \<Rightarrow> u32" where
  "read_only w = w AND NOT 0x02"

text \<open>\<open>x[i] &= ~0x02\<close> for a word whose bit 0 is set.\<close>

definition protect_entry :: "u32 \<Rightarrow> paging \<Rightarrow> paging" where
  "protect_entry a s = (if phys s a AND 0x01 \<noteq> 0 then poke a (read_only (phys s a)) s else s)"

definition protect_table :: "u32 \<Rightarrow> paging \<Rightarrow> paging" where
  "protect_table table s = fold (\<lambda>i. protect_entry (table + 4 * of_nat i)) [0..<1024] s"

definition protect_directory_entry :: "u32 \<Rightarrow> nat \<Rightarrow> paging \<Rightarrow> paging" where
  "protect_directory_entry dir i s =
     (let a = dir + 4 * of_nat i in
      if phys s a AND 0x01 \<noteq> 0 then
        let s = poke a (read_only (phys s a)) s
        in protect_table (phys s a AND 0xFFFFF000) s
      else s)"

definition enforce_strict_memory_protection :: "paging \<Rightarrow> paging" where
  "enforce_strict_memory_protection s =
     fold (protect_directory_entry (cr3 s AND 0xFFFFF000)) [0..<1024] s"

section \<open>Disk\<close>

text \<open>
  \<open>ata_pio_force_disk_flush\<close>: \<open>memory\<close> is the word at an address.  The first wait ends when the drive is not
  busy or requests data, the second when it is not busy.
\<close>

definition ata_pio_force_disk_flush :: "u32 \<Rightarrow> u8 \<Rightarrow> u32 \<Rightarrow> (u32 \<Rightarrow> u16) \<Rightarrow> unit pio" where
  "ata_pio_force_disk_flush start_lba sector_count source_address memory ins =
     (let setup = outb (0x1F0 + 6) (0xE0 OR ucast (drop_bit 24 start_lba AND 0x0F)) @
                  outb (0x1F0 + 2) sector_count @ outb (0x1F0 + 3) (ucast start_lba) @
                  outb (0x1F0 + 4) (ucast (drop_bit 8 start_lba)) @ outb (0x1F0 + 5) (ucast (drop_bit 16 start_lba)) @
                  outb (0x1F0 + 7) 0x30;
          total_words = unat sector_count * 512 div 2
      in case wait_while (\<lambda>status. status AND 0x80 \<noteq> 0 \<and> status AND 0x08 = 0) (0x1F0 + 7) ins of
           None \<Rightarrow> None
         | Some (_, polls, ins) \<Rightarrow>
             let words = map (\<lambda>i. Out16 0x1F0 (memory (source_address + 2 * of_nat i))) [0..<total_words]
             in map_option (\<lambda>(_, more, ins). ((), setup @ polls @ words @ outb (0x1F0 + 7) 0xE7 @ more, ins))
                  (wait_while (\<lambda>status. status AND 0x80 \<noteq> 0) (0x1F0 + 7) ins))"

section \<open>Message\<close>

text \<open>The red page, then the message cell by cell; a message with no end, or too long, leaves the buffer.\<close>

fun panic_text :: "nat \<Rightarrow> char list \<Rightarrow> u16 list \<Rightarrow> fault + u16 list" where
  "panic_text index [] vga = Inl Out_of_bounds"
| "panic_text index (c # msg) vga =
     (if c = NUL then Inr vga
      else bindE (put vga index (word_of_int (char_int c) OR 0x4F00)) (panic_text (index + 1) msg))"

definition secure_vga_print_panic :: "char list \<Rightarrow> u16 list \<Rightarrow> fault + u16 list" where
  "secure_vga_print_panic msg vga =
     bindE (foldE (\<lambda>i b. put b i 0x4F20) [0..<80 * 25] vga) (panic_text 0 msg)"

section \<open>The handler\<close>

fun drain_keyboard :: "unit pio" where
  "drain_keyboard [] = None"
| "drain_keyboard (status # ins) =
     (if status AND 0x01 \<noteq> 0 then
        (case ins of
           [] \<Rightarrow> None
         | key # ins \<Rightarrow>
             if status AND 0x02 \<noteq> 0
             then map_option (\<lambda>(u, es, ins). (u, In8 0x64 status # In8 0x60 key # es, ins)) (drain_keyboard ins)
             else Some ((), [In8 0x64 status, In8 0x60 key], ins))
      else if status AND 0x02 \<noteq> 0
           then map_option (\<lambda>(u, es, ins). (u, In8 0x64 status # es, ins)) (drain_keyboard ins)
           else Some ((), [In8 0x64 status], ins))"

text \<open>After the reset command the processor halts for ever; the result is the trace up to there.\<close>

definition system_reboot_sequence :: "unit pio" where
  "system_reboot_sequence ins = map_option (\<lambda>(u, es, ins). (u, es @ outb 0x64 0xFE, ins)) (drain_keyboard ins)"

text \<open>Waiting for the press of a key that differs from the code read first.\<close>

fun await_key :: "u8 \<Rightarrow> unit pio" where
  "await_key initial_scancode [] = None"
| "await_key initial_scancode (status # ins) =
     (if status AND 0x01 \<noteq> 0 then
        (case ins of
           [] \<Rightarrow> None
         | key # ins \<Rightarrow>
             if key \<noteq> initial_scancode \<and> key AND 0x80 = 0 then Some ((), [In8 0x64 status, In8 0x60 key], ins)
             else map_option (\<lambda>(u, es, ins). (u, In8 0x64 status # In8 0x60 key # es, ins)) (await_key initial_scancode ins))
      else map_option (\<lambda>(u, es, ins). (u, In8 0x64 status # es, ins)) (await_key initial_scancode ins))"

definition panic_message :: "char list" where
  "panic_message = lit (''CRITICAL SYSTEM FAILURE. MEMORY LOCKED. DISK FLUSHED. PRESS ANY KEY TO REBOOT.'')"

text \<open>
  \<open>faulthandler\<close>: it never returns; its result is the trace, the page and the page tables when it halts after
  the reset command.  \<open>memory\<close> gives the words of memory that are written to the disk.
\<close>

definition faulthandler :: "(u32 \<Rightarrow> u16) \<Rightarrow> u16 list \<Rightarrow> paging \<Rightarrow> u8 list \<Rightarrow>
    (fault + port_event list \<times> u16 list \<times> paging) option" where
  "faulthandler memory vga s ins =
     (let s = enforce_strict_memory_protection s in
      case ata_pio_force_disk_flush 0 1 0x00100000 memory ins of
        None \<Rightarrow> None
      | Some (_, es1, ins) \<Rightarrow>
     (case ata_pio_force_disk_flush 1 8 0x00100200 memory ins of
        None \<Rightarrow> None
      | Some (_, es2, ins) \<Rightarrow>
     (case secure_vga_print_panic panic_message vga of
        Inl f \<Rightarrow> Some (Inl f)
      | Inr vga \<Rightarrow>
     (case inb 0x60 ins of
        None \<Rightarrow> None
      | Some (initial_scancode, es3, ins) \<Rightarrow>
     (case await_key initial_scancode ins of
        None \<Rightarrow> None
      | Some (_, es4, ins) \<Rightarrow>
          map_option (\<lambda>(_, es5, ins). Inr (es1 @ es2 @ es3 @ es4 @ es5, vga, s)) (system_reboot_sequence ins))))))"

section \<open>No page stays writable\<close>

text \<open>A word is as before, or it was a present entry and lost bit 1.\<close>

definition only_protected :: "paging \<Rightarrow> paging \<Rightarrow> bool" where
  "only_protected s s' \<longleftrightarrow> cr3 s' = cr3 s \<and>
     (\<forall>a. phys s' a = phys s a \<or> bit (phys s a) 0 \<and> phys s' a = read_only (phys s a))"

lemma low_bit: "w AND 1 \<noteq> 0 \<longleftrightarrow> bit w 0" for w :: u32
  by (simp add: and_one_eq bit_0 odd_iff_mod_2_eq_one)

lemma bit_read_only: "bit (read_only w) n \<longleftrightarrow> bit w n \<and> n \<noteq> 1"
  by (auto simp: read_only_def bit_simps dest: bit_imp_le_length)

lemma read_only_idem [simp]: "read_only (read_only w) = read_only w"
  by (rule bit_eqI) (simp add: bit_read_only)

lemma table_base [simp]: "read_only w AND 0xFFFFF000 = w AND 0xFFFFF000"
proof -
  have "NOT 2 AND 0xFFFFF000 = (0xFFFFF000 :: u32)" by code_simp
  then show ?thesis by (simp only: read_only_def and.assoc)
qed

lemma only_protected_refl [simp]: "only_protected s s"
  by (simp add: only_protected_def)

lemma only_protected_trans:
  assumes "only_protected s t" "only_protected t u"
  shows "only_protected s u"
proof -
  have "phys u a = phys s a \<or> bit (phys s a) 0 \<and> phys u a = read_only (phys s a)" for a
  proof -
    have 1: "phys t a = phys s a \<or> bit (phys s a) 0 \<and> phys t a = read_only (phys s a)"
      and 2: "phys u a = phys t a \<or> bit (phys t a) 0 \<and> phys u a = read_only (phys t a)"
      using assms by (simp_all add: only_protected_def)
    from 1 2 show ?thesis by (elim disjE conjE) simp_all
  qed
  then show ?thesis using assms by (simp add: only_protected_def)
qed

text \<open>A present entry at \<open>a\<close> is not writable.\<close>

definition sealed :: "paging \<Rightarrow> u32 \<Rightarrow> bool" where
  "sealed s a \<longleftrightarrow> (bit (phys s a) 0 \<longrightarrow> \<not> bit (phys s a) 1)"

lemma only_protected_bits:
  assumes "only_protected s s'"
  shows "bit (phys s' a) 0 = bit (phys s a) 0" "sealed s a \<Longrightarrow> sealed s' a"
    "phys s' a AND 0xFFFFF000 = phys s a AND 0xFFFFF000"
proof -
  from assms have "phys s' a = phys s a \<or> bit (phys s a) 0 \<and> phys s' a = read_only (phys s a)" by (simp add: only_protected_def)
  then show "bit (phys s' a) 0 = bit (phys s a) 0" "sealed s a \<Longrightarrow> sealed s' a"
    "phys s' a AND 0xFFFFF000 = phys s a AND 0xFFFFF000"
    by (auto simp: sealed_def bit_read_only)
qed

lemma protect_entry_ok: "only_protected s (protect_entry a s)" "sealed (protect_entry a s) a"
  by (simp_all add: protect_entry_def only_protected_def sealed_def poke_def low_bit bit_read_only)

lemma protect_entries_ok:
  "only_protected s (fold (\<lambda>i. protect_entry (table + 4 * of_nat i)) [0..<n] s) \<and>
   (\<forall>i < n. sealed (fold (\<lambda>i. protect_entry (table + 4 * of_nat i)) [0..<n] s) (table + 4 * of_nat i))"
proof (induction n)
  case (Suc n)
  let ?s = "fold (\<lambda>i. protect_entry (table + 4 * of_nat i)) [0..<n] s"
  have p: "only_protected ?s (protect_entry (table + 4 * of_nat n) ?s)" by (rule protect_entry_ok)
  show ?case
    using Suc only_protected_trans [OF _ p] only_protected_bits(2) [OF p] protect_entry_ok(2) [of "table + 4 * of_nat n" ?s]
    by (auto simp: less_Suc_eq)
qed simp

text \<open>Everything that the directory entry at \<open>a\<close> reaches is sealed.\<close>

definition table_sealed :: "paging \<Rightarrow> u32 \<Rightarrow> bool" where
  "table_sealed s a \<longleftrightarrow> sealed s a \<and>
     (bit (phys s a) 0 \<longrightarrow> (\<forall>j < 1024. sealed s ((phys s a AND 0xFFFFF000) + 4 * of_nat j)))"

lemma table_sealed_mono: "only_protected s s' \<Longrightarrow> table_sealed s a \<Longrightarrow> table_sealed s' a"
  using only_protected_bits [of s s'] by (simp add: table_sealed_def)

lemma protect_directory_entry_ok:
  "only_protected s (protect_directory_entry dir i s)" "table_sealed (protect_directory_entry dir i s) (dir + 4 * of_nat i)"
proof -
  let ?a = "dir + 4 * of_nat i" let ?s = "poke ?a (read_only (phys s ?a)) s"
  have "only_protected s (protect_directory_entry dir i s) \<and> table_sealed (protect_directory_entry dir i s) ?a"
  proof (cases "bit (phys s ?a) 0")
    case True
    let ?t = "phys ?s ?a AND 0xFFFFF000"
    have p: "only_protected s ?s" "sealed ?s ?a" using True by (simp_all add: only_protected_def sealed_def poke_def bit_read_only)
    have e: "protect_directory_entry dir i s = protect_table ?t ?s"
      using True by (simp add: protect_directory_entry_def Let_def low_bit)
    have q: "only_protected ?s (protect_table ?t ?s)" "\<forall>j < 1024. sealed (protect_table ?t ?s) (?t + 4 * of_nat j)"
      using protect_entries_ok [of ?s ?t 1024] unfolding protect_table_def by simp_all
    have "table_sealed (protect_table ?t ?s) ?a"
      using only_protected_bits [OF q(1), of ?a] p(2) q(2) by (simp add: table_sealed_def)
    then show ?thesis using only_protected_trans [OF p(1) q(1)] by (simp add: e)
  next
    case False
    then show ?thesis by (simp add: protect_directory_entry_def Let_def low_bit table_sealed_def sealed_def)
  qed
  then show "only_protected s (protect_directory_entry dir i s)" "table_sealed (protect_directory_entry dir i s) ?a" by simp_all
qed

lemma protect_directory_ok:
  "only_protected s (fold (protect_directory_entry dir) [0..<n] s) \<and>
   (\<forall>i < n. table_sealed (fold (protect_directory_entry dir) [0..<n] s) (dir + 4 * of_nat i))"
proof (induction n)
  case (Suc n)
  let ?s = "fold (protect_directory_entry dir) [0..<n] s"
  have p: "only_protected ?s (protect_directory_entry dir n ?s)" by (rule protect_directory_entry_ok)
  show ?case
    using Suc only_protected_trans [OF _ p] table_sealed_mono [OF p] protect_directory_entry_ok(2) [of dir n ?s]
    by (auto simp: less_Suc_eq)
qed simp

text \<open>
  C37: after the memory protection of the fault handler no page is writable, whatever the directory and the
  tables contain and however they overlap: each present entry of the directory in \<open>cr3\<close>, and each present
  entry of the tables they name, has its write bit cleared; and no other bit of the memory has changed.
\<close>
theorem no_page_stays_writable:
  fixes s :: paging
  defines "s' \<equiv> enforce_strict_memory_protection s" and "dir \<equiv> cr3 s AND 0xFFFFF000"
  shows "(\<forall>i < 1024. let e = phys s' (dir + 4 * of_nat i) in
      bit e 0 \<longrightarrow> \<not> bit e 1 \<and>
        (\<forall>j < 1024. let w = phys s' ((e AND 0xFFFFF000) + 4 * of_nat j) in bit w 0 \<longrightarrow> \<not> bit w 1)) \<and>
    (\<forall>a n. bit (phys s' a) n \<noteq> bit (phys s a) n \<longrightarrow> n = 1 \<and> bit (phys s a) 0)"
proof
  have ok: "only_protected s s'" "\<forall>i < 1024. table_sealed s' (dir + 4 * of_nat i)"
    using protect_directory_ok [of s dir 1024] by (simp_all add: s'_def dir_def enforce_strict_memory_protection_def)
  then show "\<forall>i < 1024. let e = phys s' (dir + 4 * of_nat i) in
      bit e 0 \<longrightarrow> \<not> bit e 1 \<and>
        (\<forall>j < 1024. let w = phys s' ((e AND 0xFFFFF000) + 4 * of_nat j) in bit w 0 \<longrightarrow> \<not> bit w 1)"
    by (simp add: table_sealed_def sealed_def Let_def)
  show "\<forall>a n. bit (phys s' a) n \<noteq> bit (phys s a) n \<longrightarrow> n = 1 \<and> bit (phys s a) 0"
  proof (intro allI impI)
    fix a n assume d: "bit (phys s' a) n \<noteq> bit (phys s a) n"
    from ok(1) have "phys s' a = phys s a \<or> bit (phys s a) 0 \<and> phys s' a = read_only (phys s a)" by (simp add: only_protected_def)
    then show "n = 1 \<and> bit (phys s a) 0" using d by (auto simp: bit_read_only)
  qed
qed


theorem no_page_stays_writable_witness:
  "\<forall>s. let t = enforce_strict_memory_protection (s\<lparr>phys := \<lambda>_. 7, cr3 := 0\<rparr>) in bit (phys t 0) 0 \<and> \<not> bit (phys t 0) 1"
proof
  fix s :: paging
  let ?t = "s\<lparr>phys := \<lambda>_. 7, cr3 := 0\<rparr>"
  have b: "bit (phys ?t 0) 0" by simp
  have k: "bit (phys (enforce_strict_memory_protection ?t) 0) 0"
    using conjunct2 [OF no_page_stays_writable [of ?t]] b by (metis zero_neq_one)
  have "cr3 ?t AND 0xFFFFF000 = 0" by simp
  with conjunct1 [OF no_page_stays_writable [of ?t], rule_format, of 0] k
  show "let t = enforce_strict_memory_protection ?t in bit (phys t 0) 0 \<and> \<not> bit (phys t 0) 1" by (simp add: Let_def)
qed

section \<open>What the drive makes of a flush\<close>

text \<open>
  A drive that follows the accesses to its ports: the write command takes the address and the count from the
  registers (a count of 0 is 256), and then 256 words make a sector.
\<close>

record pio_drive =
  drive :: ata_drive
  reg_count :: u8
  left :: nat
  next_lba :: u32
  fill :: "u16 list"

definition pio_word :: "u16 \<Rightarrow> pio_drive \<Rightarrow> pio_drive" where
  "pio_word w d =
     (if left d = 0 then d
      else if length (fill d) < 255 then d\<lparr>fill := fill d @ [w]\<rparr>
      else d\<lparr>drive := (drive d)\<lparr>sectors := (sectors (drive d))(next_lba d := fill d @ [w])\<rparr>,
             left := left d - 1, next_lba := next_lba d + 1, fill := []\<rparr>)"

fun pio_event :: "port_event \<Rightarrow> pio_drive \<Rightarrow> pio_drive" where
  "pio_event (Out8 p v) d =
     (if p = 0x1F6 then d\<lparr>drive := (drive d)\<lparr>reg_select := v\<rparr>\<rparr>
      else if p = 0x1F2 then d\<lparr>reg_count := v\<rparr>
      else if p = 0x1F3 then d\<lparr>drive := (drive d)\<lparr>reg_lba_low := v\<rparr>\<rparr>
      else if p = 0x1F4 then d\<lparr>drive := (drive d)\<lparr>reg_lba_mid := v\<rparr>\<rparr>
      else if p = 0x1F5 then d\<lparr>drive := (drive d)\<lparr>reg_lba_high := v\<rparr>\<rparr>
      else if p = 0x1F7 \<and> v = 0x30
        then d\<lparr>left := (if reg_count d = 0 then 256 else unat (reg_count d)), next_lba := lba28 (drive d), fill := []\<rparr>
      else d)"
| "pio_event (Out16 p w) d = (if p = 0x1F0 then pio_word w d else d)"
| "pio_event (In8 p v) d = d"

lemma fold_pio_append: "fold pio_event (xs @ ys) d = fold pio_event ys (fold pio_event xs d)"
  by simp

lemma pio_words: "fold pio_event (map (Out16 0x1F0) ws) d = fold pio_word ws d"
  by (induction ws arbitrary: d) simp_all

lemma wait_while_reads: "wait_while b p ins = Some (v, es, ins') \<Longrightarrow> fold pio_event es d = d"
  by (induction ins arbitrary: es) (auto split: if_splits)

lemma await_key_reads: "await_key k ins = Some (v, es, ins') \<Longrightarrow> fold pio_event es d = d"
  by (induction k ins arbitrary: es rule: await_key.induct) (auto split: if_splits list.splits)

lemma drain_keyboard_reads: "drain_keyboard ins = Some (v, es, ins') \<Longrightarrow> fold pio_event es d = d"
  by (induction ins arbitrary: es rule: drain_keyboard.induct) (auto split: if_splits list.splits)

lemma reboot_sequence_reads: "system_reboot_sequence ins = Some (v, es, ins') \<Longrightarrow> fold pio_event es d = d"
  using drain_keyboard_reads by (fastforce simp: system_reboot_sequence_def outb_def)

lemma pio_words_part:
  "left d \<noteq> 0 \<Longrightarrow> length (fill d) + length ws < 256 \<Longrightarrow> fold pio_word ws d = d\<lparr>fill := fill d @ ws\<rparr>"
  by (induction ws arbitrary: d) (simp_all add: pio_word_def)

lemma pio_words_sector:
  assumes "left d \<noteq> 0" "fill d = []" "length ws = 256"
  shows "fold pio_word ws d = d\<lparr>drive := (drive d)\<lparr>sectors := (sectors (drive d))(next_lba d := ws)\<rparr>,
           left := left d - 1, next_lba := next_lba d + 1, fill := []\<rparr>"
proof -
  from assms(3) have ws: "ws \<noteq> []" by auto
  then have "fold pio_word ws d = pio_word (last ws) (fold pio_word (butlast ws) d)"
    using fold_append [of pio_word "butlast ws" "[last ws]"] by simp
  also have "\<dots> = pio_word (last ws) (d\<lparr>fill := butlast ws\<rparr>)"
    using pio_words_part [of d "butlast ws"] assms by simp
  finally show ?thesis using assms ws by (simp add: pio_word_def)
qed

lemma pio_words_sectors:
  assumes "left d = n" "fill d = []" "length ws = 256 * n" "unat (next_lba d) + n < 2 ^ 32"
  shows "sectors (drive (fold pio_word ws d)) a =
    (if unat (next_lba d) \<le> unat a \<and> unat a < unat (next_lba d) + n
     then take 256 (drop (256 * (unat a - unat (next_lba d))) ws) else sectors (drive d) a)"
  using assms
proof (induction n arbitrary: d ws)
  case (Suc n)
  let ?u = "take 256 ws" and ?v = "drop 256 ws"
  let ?d = "d\<lparr>drive := (drive d)\<lparr>sectors := (sectors (drive d))(next_lba d := ?u)\<rparr>,
           left := left d - 1, next_lba := next_lba d + 1, fill := []\<rparr>"
  have "fold pio_word ws d = fold pio_word ?v (fold pio_word ?u d)"
    using fold_append [of pio_word ?u ?v] by (simp del: fold_append)
  also have "fold pio_word ?u d = ?d" using Suc.prems by (intro pio_words_sector) auto
  finally have f: "fold pio_word ws d = fold pio_word ?v ?d" .
  have nx: "unat (next_lba d + 1) = unat (next_lba d) + 1"
    using Suc.prems(4) by (simp add: unat_word_ariths(1) take_bit_nat_eq_self)
  have "sectors (drive (fold pio_word ?v ?d)) a =
    (if unat (next_lba d) + 1 \<le> unat a \<and> unat a < unat (next_lba d) + 1 + n
     then take 256 (drop (256 * (unat a - (unat (next_lba d) + 1))) ?v) else sectors (drive ?d) a)"
    using Suc.IH [of ?d ?v] Suc.prems nx by simp
  moreover have "drop (256 * (unat a - (unat (next_lba d) + 1))) ?v = drop (256 * (unat a - unat (next_lba d))) ws"
    if "unat (next_lba d) + 1 \<le> unat a"
  proof -
    have "256 * (unat a - (unat (next_lba d) + 1)) + 256 = 256 * (unat a - unat (next_lba d))" using that by (simp add: algebra_simps)
    then show ?thesis by simp
  qed
  moreover have "a = next_lba d \<longleftrightarrow> unat a = unat (next_lba d)" by (simp add: word_unat_eq_iff)
  ultimately show ?case by (auto simp: f not_le le_less_Suc_eq)
qed auto

text \<open>The registers as \<open>ata_pio_force_disk_flush\<close> fills them.\<close>

lemma flush_address:
  fixes lba :: u32
  assumes "lba < 2 ^ 28" "reg_select d = 0xE0 OR ucast (drop_bit 24 lba AND 0x0F)" "reg_lba_low d = ucast lba"
    "reg_lba_mid d = ucast (drop_bit 8 lba)" "reg_lba_high d = ucast (drop_bit 16 lba)"
  shows "lba28 d = lba"
proof (rule bit_eqI)
  fix n assume "possible_bit TYPE(u32) n"
  then have n: "n < 32" by simp
  have "unat (take_bit 28 lba) = unat lba"
    using assms(1) by (simp add: unsigned_take_bit_eq take_bit_nat_eq_self word_less_nat_alt)
  then have "take_bit 28 lba = lba" by (simp only: word_unat_eq_iff)
  then have hi: "\<not> bit lba k" if "28 \<le> k" for k
    using that by (metis bit_take_bit_iff linorder_not_le)
  show "bit (lba28 d) n = bit lba n"
  proof (cases "n < 24")
    case True
    then have "n < 8 \<or> (8 \<le> n \<and> n < 16) \<or> (16 \<le> n \<and> n < 24)" by auto
    then show ?thesis by (elim disjE conjE; simp add: lba28_def assms(2-5) bit_simps; auto)
  next
    case False
    with n have "n = 24 \<or> n = 25 \<or> n = 26 \<or> n = 27 \<or> n = 28 \<or> n = 29 \<or> n = 30 \<or> n = 31" by auto
    then show ?thesis using hi [of n] by (elim disjE) (simp_all add: lba28_def assms(2-5) bit_simps)
  qed
qed

lemma flush_fills_sectors:
  assumes "ata_pio_force_disk_flush lba cnt src memory ins = Some (u, es, ins')" "cnt \<noteq> 0" "unat lba + unat cnt \<le> 2 ^ 28"
  shows "sectors (drive (fold pio_event es d)) a =
    (if unat lba \<le> unat a \<and> unat a < unat lba + unat cnt
     then map (\<lambda>i. memory (src + 512 * (a - lba) + 2 * of_nat i)) [0..<256] else sectors (drive d) a)"
proof -
  let ?busy = "\<lambda>status :: u8. status AND 0x80 \<noteq> 0 \<and> status AND 0x08 = 0" and ?busy' = "\<lambda>status :: u8. status AND 0x80 \<noteq> 0"
  define w where "w = map (\<lambda>i. memory (src + 2 * of_nat i)) [0..<256 * unat cnt]"
  obtain v1 polls i1 v2 rest where waits: "wait_while ?busy 0x1F7 ins = Some (v1, polls, i1)"
    "wait_while ?busy' 0x1F7 i1 = Some (v2, rest, ins')" and
    es: "es = (outb 0x1F6 (0xE0 OR ucast (drop_bit 24 lba AND 0x0F)) @ outb 0x1F2 cnt @ outb 0x1F3 (ucast lba) @
       outb 0x1F4 (ucast (drop_bit 8 lba)) @ outb 0x1F5 (ucast (drop_bit 16 lba)) @ outb 0x1F7 0x30) @ polls @
       map (Out16 0x1F0) w @ outb 0x1F7 0xE7 @ rest"
    using assms(1) by (auto simp: ata_pio_force_disk_flush_def Let_def w_def mult.commute comp_def split: option.splits)
  have w_len: "length w = 256 * unat cnt" by (simp add: w_def)
  let ?d1 = "(drive d)\<lparr>reg_select := 0xE0 OR ucast (drop_bit 24 lba AND 0x0F), reg_lba_low := ucast lba,
     reg_lba_mid := ucast (drop_bit 8 lba), reg_lba_high := ucast (drop_bit 16 lba)\<rparr>"
  let ?d = "d\<lparr>reg_count := cnt, drive := ?d1, left := unat cnt, next_lba := lba, fill := []\<rparr>"
  have "0 < unat cnt" using assms(2) by (simp add: unat_gt_0)
  with assms(3) have "lba28 ?d1 = lba" by (intro flush_address) (simp_all add: word_less_nat_alt)
  then have "fold pio_event es d = fold pio_word w ?d"
    using assms(2) by (simp add: es outb_def wait_while_reads [OF waits(1)] wait_while_reads [OF waits(2)] pio_words)
  moreover have "sectors (drive (fold pio_word w ?d)) a =
    (if unat lba \<le> unat a \<and> unat a < unat lba + unat cnt
     then take 256 (drop (256 * (unat a - unat lba)) w) else sectors (drive ?d) a)"
    using pio_words_sectors [of ?d "unat cnt" w a] assms(3) by (simp add: w_len)
  moreover have "take 256 (drop (256 * (unat a - unat lba)) w) = map (\<lambda>i. memory (src + 512 * (a - lba) + 2 * of_nat i)) [0..<256]"
    if h: "unat lba \<le> unat a" "unat a < unat lba + unat cnt"
  proof (rule nth_equalityI)
    have "256 * (unat a - unat lba) + 256 \<le> 256 * unat cnt" using h by linarith
    then show "length (take 256 (drop (256 * (unat a - unat lba)) w)) =
        length (map (\<lambda>i. memory (src + 512 * (a - lba) + 2 * of_nat i)) [0..<256])" by (simp add: w_def)
    fix i assume "i < length (take 256 (drop (256 * (unat a - unat lba)) w))"
    then have i: "i < 256" by (simp add: w_def)
    have "of_nat (unat a - unat lba) = a - lba" using h(1) by (simp add: of_nat_diff)
    moreover have "2 * of_nat (256 * k + i) = 512 * of_nat k + 2 * (of_nat i :: u32)" for k by (simp add: algebra_simps)
    ultimately have "2 * of_nat (256 * (unat a - unat lba) + i) = 512 * (a - lba) + 2 * (of_nat i :: u32)" by (simp only:)
    moreover have "256 * (unat a - unat lba) + i < 256 * unat cnt" using h i by linarith
    ultimately show "take 256 (drop (256 * (unat a - unat lba)) w) ! i =
        map (\<lambda>i. memory (src + 512 * (a - lba) + 2 * of_nat i)) [0..<256] ! i"
      using i by (simp add: w_def add.assoc)
  qed
  ultimately show ?thesis by simp
qed

section \<open>The message on the page\<close>

lemma panic_text_eq:
  assumes "terminated msg" "i + length (cstr msg) \<le> length vga"
  shows "panic_text i msg vga =
    Inr (take i vga @ map (\<lambda>c. word_of_int (char_int c) OR 0x4F00) (cstr msg) @ drop (i + length (cstr msg)) vga)"
  using assms
proof (induction i msg vga rule: panic_text.induct)
  case (2 i c msg vga)
  show ?case
  proof (cases "c = NUL")
    case False
    with 2 have i: "i < length vga" by simp
    have "take (Suc i) (vga[i := w]) = take i vga @ [w]" for w using i by (simp add: take_Suc_conv_app_nth)
    with 2 False i show ?thesis by (simp add: put_def)
  qed simp
qed simp

lemma red_page:
  "n \<le> length vga \<Longrightarrow> foldE (\<lambda>i b. put b i v) [0..<n] vga = Inr (replicate n v @ drop n vga)"
proof (induction n)
  case (Suc n)
  have "(replicate n v @ drop n vga)[n := v] = replicate (Suc n) v @ drop (Suc n) vga"
    using Suc.prems by (simp add: list_update_append replicate_append_same Cons_nth_drop_Suc [symmetric])
  with Suc show ?case by (simp add: foldE_append put_def)
qed simp

lemma panic_page:
  assumes "terminated msg" "length (cstr msg) \<le> 2000" "length vga = 2000"
  shows "secure_vga_print_panic msg vga =
    Inr (map (\<lambda>c. word_of_int (char_int c) OR 0x4F00) (cstr msg) @ replicate (2000 - length (cstr msg)) 0x4F20)"
  using assms by (simp add: secure_vga_print_panic_def red_page panic_text_eq)

section \<open>The fault handler destroys the start of the disk\<close>

text \<open>
  C38: whenever the fault handler gets as far as its reset, the first nine sectors of the drive, the boot
  sector among them, hold the 4608 bytes of memory from one megabyte on, and every other sector is as before.
\<close>
theorem fault_handler_overwrites_the_boot_sector:
  assumes "faulthandler memory vga s ins = Some (Inr (es, vga', s'))"
  shows "sectors (drive (fold pio_event es d)) a =
    (if a < 9 then map (\<lambda>i. memory (0x00100000 + 512 * a + 2 * of_nat i)) [0..<256] else sectors (drive d) a)"
proof -
  from assms obtain u1 es1 i1 u2 es2 i2 k es3 i3 u4 es4 i4 u5 es5 i5 where
    f: "ata_pio_force_disk_flush 0 1 0x00100000 memory ins = Some (u1, es1, i1)"
      "ata_pio_force_disk_flush 1 8 0x00100200 memory i1 = Some (u2, es2, i2)" and
    r: "inb 0x60 i2 = Some (k, es3, i3)" "await_key k i3 = Some (u4, es4, i4)" "system_reboot_sequence i4 = Some (u5, es5, i5)" and
    es: "es = es1 @ es2 @ es3 @ es4 @ es5"
    by (auto simp: faulthandler_def Let_def split: option.splits sum.splits)
  from r(1) have "fold pio_event es3 e = e" for e by (auto simp: inb_def split: list.splits)
  then have "fold pio_event es d = fold pio_event es2 (fold pio_event es1 d)"
    by (simp add: es await_key_reads [OF r(2)] reboot_sequence_reads [OF r(3)])
  moreover have "a = 0 \<longleftrightarrow> unat a = 0" "a < 9 \<longleftrightarrow> unat a < 9" by (simp_all add: word_less_nat_alt unat_eq_0)
  moreover have "0x100200 + 512 * (a - 1) = 0x100000 + 512 * a" by (simp add: algebra_simps)
  ultimately show ?thesis
    using flush_fills_sectors [OF f(1), of d a] flush_fills_sectors [OF f(2), of "fold pio_event es1 d" a]
    by auto
qed

theorem fault_handler_overwrites_the_boot_sector_witness:
  "\<forall>s d. \<exists>es vga' s'. faulthandler (\<lambda>_. 0x1234) (replicate 2000 0) s [0, 0, 0, 0, 0x9E, 1, 0x9E, 1, 0x30, 0] = Some (Inr (es, vga', s')) \<and>
    sectors (drive (fold pio_event es d)) 0 = replicate 256 0x1234 \<and> sectors (drive (fold pio_event es d)) 9 = sectors (drive d) 9"
proof (intro allI)
  fix s :: paging and d :: pio_drive
  have "length (cstr panic_message) \<le> 2000" "terminated panic_message" by (simp_all add: panic_message_def)
  from panic_page [OF this(2) this(1), of "replicate 2000 0"] obtain page where
    page: "secure_vga_print_panic panic_message (replicate 2000 0) = Inr page" by simp
  have "\<exists>es vga' s'. faulthandler (\<lambda>_. 0x1234) (replicate 2000 0) s [0, 0, 0, 0, 0x9E, 1, 0x9E, 1, 0x30, 0] = Some (Inr (es, vga', s'))"
    by (simp add: faulthandler_def ata_pio_force_disk_flush_def Let_def page inb_def system_reboot_sequence_def)
  then obtain es vga' s' where
    f: "faulthandler (\<lambda>_. 0x1234) (replicate 2000 0) s [0, 0, 0, 0, 0x9E, 1, 0x9E, 1, 0x30, 0] = Some (Inr (es, vga', s'))" by blast
  show "\<exists>es vga' s'. faulthandler (\<lambda>_. 0x1234) (replicate 2000 0) s [0, 0, 0, 0, 0x9E, 1, 0x9E, 1, 0x30, 0] = Some (Inr (es, vga', s')) \<and>
    sectors (drive (fold pio_event es d)) 0 = replicate 256 0x1234 \<and> sectors (drive (fold pio_event es d)) 9 = sectors (drive d) 9"
    using f fault_handler_overwrites_the_boot_sector [OF f, of d 0] fault_handler_overwrites_the_boot_sector [OF f, of d 9]
    by (intro exI [of _ es] exI [of _ vga'] exI [of _ s']) (simp add: map_replicate_const)
qed

end
