(* ===== verification/WX_Bot.thy ===== *)
theory WX_Bot
  imports WX_Hex WX_Bytes
begin

text \<open>
  The core test of \<open>bot.h\<close> and the three routines of \<open>multi.asm\<close> it exercises: filling, copying and the
  atomic exchange, on a memory of bytes whose addresses wrap.  The control registers are arguments.
\<close>

section \<open>Assembly routines\<close>

type_synonym bytes = "u32 \<Rightarrow> u8"

definition store32 :: "u32 \<Rightarrow> u32 \<Rightarrow> bytes \<Rightarrow> bytes" where
  "store32 a w m = m(a := ucast w, a + 1 := ucast (drop_bit 8 w), a + 2 := ucast (drop_bit 16 w), a + 3 := ucast (drop_bit 24 w))"

definition load32 :: "u32 \<Rightarrow> bytes \<Rightarrow> u32" where
  "load32 a m = ucast (m a) OR push_bit 8 (ucast (m (a + 1))) OR push_bit 16 (ucast (m (a + 2))) OR push_bit 24 (ucast (m (a + 3)))"

text \<open>The string instructions with \<open>ecx\<close> turns, upwards; the result is \<open>edi\<close> (and \<open>esi\<close>) and the memory.\<close>

primrec rep_stosd :: "nat \<Rightarrow> u32 \<Rightarrow> u32 \<Rightarrow> bytes \<Rightarrow> u32 \<times> bytes" where
  "rep_stosd 0 eax edi m = (edi, m)"
| "rep_stosd (Suc n) eax edi m = rep_stosd n eax (edi + 4) (store32 edi eax m)"

primrec rep_stosb :: "nat \<Rightarrow> u8 \<Rightarrow> u32 \<Rightarrow> bytes \<Rightarrow> u32 \<times> bytes" where
  "rep_stosb 0 al edi m = (edi, m)"
| "rep_stosb (Suc n) al edi m = rep_stosb n al (edi + 1) (m(edi := al))"

primrec rep_movsd :: "nat \<Rightarrow> u32 \<Rightarrow> u32 \<Rightarrow> bytes \<Rightarrow> u32 \<times> u32 \<times> bytes" where
  "rep_movsd 0 edi esi m = (edi, esi, m)"
| "rep_movsd (Suc n) edi esi m = rep_movsd n (edi + 4) (esi + 4) (store32 edi (load32 esi m) m)"

primrec rep_movsb :: "nat \<Rightarrow> u32 \<Rightarrow> u32 \<Rightarrow> bytes \<Rightarrow> u32 \<times> u32 \<times> bytes" where
  "rep_movsb 0 edi esi m = (edi, esi, m)"
| "rep_movsb (Suc n) edi esi m = rep_movsb n (edi + 1) (esi + 1) (m(edi := m esi))"

definition asm_fast_memset :: "u32 \<Rightarrow> u32 \<Rightarrow> u32 \<Rightarrow> bytes \<Rightarrow> bytes" where
  "asm_fast_memset dest val count m =
     (case rep_stosd (unat (drop_bit 2 count)) val dest m of
        (edi, m) \<Rightarrow> snd (rep_stosb (unat (count AND 3)) (ucast val) edi m))"

definition asm_fast_memcpy :: "u32 \<Rightarrow> u32 \<Rightarrow> u32 \<Rightarrow> bytes \<Rightarrow> bytes" where
  "asm_fast_memcpy dest src count m =
     (case rep_movsd (unat (drop_bit 2 count)) dest src m of
        (edi, esi, m) \<Rightarrow> snd (snd (rep_movsb (unat (count AND 3)) edi esi m)))"

definition asm_atomic_exchange :: "u32 \<Rightarrow> u32 \<Rightarrow> bytes \<Rightarrow> u32 \<times> bytes" where
  "asm_atomic_exchange addr val m = (load32 addr m, store32 addr val m)"

section \<open>The core test\<close>

definition verdict :: "bool \<Rightarrow> con list" where
  "verdict ok = [Print (if ok then ln ''[SUCCESS]'' else ln ''[FAILED]'')]"

text \<open>
  The variables of \<open>bot\<close> lie one after the other from \<open>frame\<close>: \<open>test_buffer\<close>, \<open>source_buffer\<close>,
  \<open>dest_buffer\<close>, each of four words, and \<open>lock_val\<close>.
\<close>

definition bot :: "u32 \<Rightarrow> u32 \<Rightarrow> u32 \<Rightarrow> bytes \<Rightarrow> fault + con list" where
  "bot cr0 cr3 frame m =
     (let test_buffer = frame; source_buffer = frame + 16; dest_buffer = frame + 32; lock_val = frame + 48;
          m1 = asm_fast_memset test_buffer 0xAA 16 m;
          set_ok = (load32 test_buffer m1 = 0xAAAAAAAA \<and> load32 (test_buffer + 12) m1 = 0xAAAAAAAA);
          m2 = store32 (source_buffer + 12) 0x44444444 (store32 (source_buffer + 8) 0x33333333
                 (store32 (source_buffer + 4) 0x22222222 (store32 source_buffer 0x11111111 m1)));
          m3 = store32 (dest_buffer + 12) 0 (store32 (dest_buffer + 8) 0 (store32 (dest_buffer + 4) 0 (store32 dest_buffer 0 m2)));
          m4 = asm_fast_memcpy dest_buffer source_buffer 16 m3;
          copy_ok = (load32 (dest_buffer + 4) m4 = 0x22222222 \<and> load32 (dest_buffer + 12) m4 = 0x44444444);
          m5 = store32 lock_val 0x55555555 m4
      in case asm_atomic_exchange lock_val 0x99999999 m5 of (old_val, m6) \<Rightarrow>
         bindE (print_hex_32 cr0 (replicate 9 NUL)) (\<lambda>hex0.
         bindE (print_hex_32 cr3 (replicate 9 NUL)) (\<lambda>hex3.
           Inr ([Print (ln [] @ ln ''--- WHITEX ASM CORE TEST START ---''), Print ''Testing CR0 Read... '', Print ''CR0: ''] @ hex0 @
             [Print (ln []), Print ''Testing CR3 Read... '', Print ''CR3 (Page Directory): ''] @ hex3 @
             [Print (ln []), Print ''Testing Fast Memset... ''] @ verdict set_ok @
             [Print ''Testing Fast Memcpy... ''] @ verdict copy_ok @
             [Print ''Testing Atomic Exchange... ''] @ verdict (old_val = 0x55555555 \<and> load32 lock_val m6 = 0x99999999) @
             [Print (ln ''--- WHITEX ASM CORE TEST END ---'')]))))"

section \<open>What the routines do\<close>

lemma load_store_same [simp]: "load32 a (store32 a w m) = w"
proof (rule bit_eqI)
  fix n assume "possible_bit TYPE(u32) n"
  then have "n < 8 \<or> 8 \<le> n \<and> n < 16 \<or> 16 \<le> n \<and> n < 24 \<or> 24 \<le> n \<and> n < 32" by auto
  then show "bit (load32 a (store32 a w m)) n = bit w n"
    by (elim disjE conjE; simp add: load32_def store32_def bit_simps; auto)
qed

text \<open>Byte \<open>i\<close> of a word in memory.\<close>

definition byte :: "u32 \<Rightarrow> nat \<Rightarrow> u8" where
  "byte w i = ucast (drop_bit (8 * i) w)"

lemma store32_at:
  "store32 a w m x = (if unat (x - a) < 4 then byte w (unat (x - a)) else m x)"
proof (cases "unat (x - a) < 4")
  case True
  then have "unat (x - a) = 0 \<or> unat (x - a) = 1 \<or> unat (x - a) = 2 \<or> unat (x - a) = 3" by auto
  moreover have "x = a + of_nat (unat (x - a))" by simp
  ultimately show ?thesis by (elim disjE) (simp_all add: store32_def byte_def)
next
  case False
  then have "x \<noteq> a" "x \<noteq> a + 1" "x \<noteq> a + 2" "x \<noteq> a + 3" by auto
  with False show ?thesis by (simp add: store32_def)
qed

text \<open>The distance from an address \<open>k\<close> further on, in an address space that wraps.\<close>

lemma distance_step:
  fixes x a k :: u32
  shows "unat (x - (a + k)) = (if unat k \<le> unat (x - a) then unat (x - a) - unat k else 2 ^ 32 + unat (x - a) - unat k)"
proof -
  have h: "unat ((x - a) - k) = (if unat k \<le> unat (x - a) then unat (x - a) - unat k else unat (x - a) + 2 ^ LENGTH(32) - unat k)"
    by (rule unat_sub_if')
  have "x - (a + k) = (x - a) - k" "LENGTH(32) = 32" by simp_all
  then show ?thesis by (simp only: h add.commute [of "unat (x - a)"])
qed

lemma rep_stosd_eq:
  "n \<le> 2 ^ 30 \<Longrightarrow> rep_stosd n w a m =
     (a + 4 * of_nat n, \<lambda>x. if unat (x - a) < 4 * n then byte w (unat (x - a) mod 4) else m x)"
proof (induction n arbitrary: a m)
  case (Suc n)
  have "rep_stosd (Suc n) w a m = rep_stosd n w (a + 4) (store32 a w m)" by simp
  also have "\<dots> = (a + 4 + 4 * of_nat n, \<lambda>x. if unat (x - (a + 4)) < 4 * n
      then byte w (unat (x - (a + 4)) mod 4) else store32 a w m x)"
    using Suc.prems by (intro Suc.IH) simp
  also have "\<dots> = (a + 4 * of_nat (Suc n), \<lambda>x. if unat (x - a) < 4 * Suc n then byte w (unat (x - a) mod 4) else m x)"
  proof -
    have "(if unat (x - (a + 4)) < 4 * n then byte w (unat (x - (a + 4)) mod 4) else store32 a w m x) =
        (if unat (x - a) < 4 * Suc n then byte w (unat (x - a) mod 4) else m x)" for x
    proof (cases "4 \<le> unat (x - a)")
      case True
      then have "unat (x - (a + 4)) = unat (x - a) - 4" by (simp add: distance_step)
      with True show ?thesis by (auto simp: store32_at le_mod_geq)
    next
      case False
      with Suc.prems have "\<not> unat (x - (a + 4)) < 4 * n" by (simp add: distance_step)
      with False show ?thesis by (simp add: store32_at)
    qed
    then show ?thesis by (simp add: algebra_simps)
  qed
  finally show ?case .
qed simp

lemma rep_stosb_eq:
  "n < 2 ^ 32 \<Longrightarrow> rep_stosb n b a m = (a + of_nat n, \<lambda>x. if unat (x - a) < n then b else m x)"
proof (induction n arbitrary: a m)
  case (Suc n)
  have "(if unat (x - (a + 1)) < n then b else (m(a := b)) x) = (if unat (x - a) < Suc n then b else m x)" for x
  proof (cases "x = a")
    case True
    then show ?thesis using Suc.prems by (simp add: distance_step)
  next
    case False
    then have "0 < unat (x - a)" by (simp add: unat_gt_0)
    with False show ?thesis by (auto simp: distance_step)
  qed
  with Suc show ?case by (simp add: algebra_simps)
qed simp

text \<open>Words first, then the remaining bytes; \<open>unat count\<close> bytes in all.\<close>

lemma count_parts: "4 * unat (drop_bit 2 c) + unat (c AND 3) = unat c" "unat (c AND 3) < 4" "unat (drop_bit 2 c) < 2 ^ 30" for c :: u32
proof -
  have "c AND 3 = take_bit 2 c" by (simp add: take_bit_eq_mask mask_numeral)
  then have "unat (c AND 3) = take_bit 2 (unat c)" by (simp only: unsigned_take_bit_eq)
  then have m: "unat (c AND 3) = unat c mod 4" by (simp only: take_bit_eq_mod) simp
  have "unat c < 2 ^ LENGTH(32)" by (rule unsigned_less)
  then have c32: "unat c < 2 ^ 32" by simp
  have d: "unat (drop_bit 2 c) = unat c div 4" by (simp add: drop_bit_eq_div unat_div_distrib)
  show "4 * unat (drop_bit 2 c) + unat (c AND 3) = unat c" "unat (c AND 3) < 4" by (simp_all add: m d)
  show "unat (drop_bit 2 c) < 2 ^ 30" using c32 by (simp add: d)
qed


lemma fast_memset_eq:
  "asm_fast_memset dest val count m x =
     (let i = unat (x - dest) in
      if i < 4 * (unat count div 4) then byte val (i mod 4) else if i < unat count then byte val 0 else m x)"
proof -
  let ?n = "unat (drop_bit 2 count)" and ?k = "unat (count AND 3)"
  let ?e = "dest + 4 * of_nat ?n :: u32"
  have "unat (4 * of_nat ?n :: u32) = 4 * ?n"
    using count_parts(3) [of count] by (simp add: unat_word_ariths unsigned_of_nat take_bit_nat_eq_self)
  then have e: "unat (x - ?e) = (if 4 * ?n \<le> unat (x - dest) then unat (x - dest) - 4 * ?n else 2 ^ 32 + unat (x - dest) - 4 * ?n)"
    by (simp only: distance_step)
  have n: "4 * ?n = 4 * (unat count div 4)"
    using count_parts(1,2) [of count] by presburger
  have b: "byte val 0 = ucast val" by (simp add: byte_def)
  have "asm_fast_memset dest val count m x =
      (if unat (x - ?e) < ?k then ucast val else if unat (x - dest) < 4 * ?n then byte val (unat (x - dest) mod 4) else m x)"
    using count_parts(2,3) [of count] by (simp add: asm_fast_memset_def rep_stosd_eq rep_stosb_eq)
  also have "\<dots> = (if unat (x - dest) < 4 * ?n then byte val (unat (x - dest) mod 4)
      else if unat (x - dest) < unat count then byte val 0 else m x)"
    using e b count_parts [of count] by auto
  finally show ?thesis by (simp only: n Let_def)
qed


text \<open>Two ranges of \<open>n\<close> bytes with no address in common.\<close>

definition apart :: "nat \<Rightarrow> u32 \<Rightarrow> u32 \<Rightarrow> bool" where
  "apart n a b \<longleftrightarrow> (\<forall>x. \<not> (unat (x - a) < n \<and> unat (x - b) < n))"

lemma byte_load32: "i < 4 \<Longrightarrow> byte (load32 a m) i = m (a + of_nat i)"
proof -
  assume "i < 4"
  then have "i = 0 \<or> i = 1 \<or> i = 2 \<or> i = 3" by auto
  then show ?thesis
  proof (elim disjE)
    assume "i = 0" then show ?thesis by (intro bit_eqI) (auto simp: byte_def load32_def bit_simps dest: bit_imp_le_length)
  next
    assume "i = 1" then show ?thesis by (intro bit_eqI) (auto simp: byte_def load32_def bit_simps dest: bit_imp_le_length)
  next
    assume "i = 2" then show ?thesis by (intro bit_eqI) (auto simp: byte_def load32_def bit_simps dest: bit_imp_le_length)
  next
    assume "i = 3" then show ?thesis by (intro bit_eqI) (auto simp: byte_def load32_def bit_simps dest: bit_imp_le_length)
  qed
qed

lemma apart_step: "apart (Suc n) a b \<Longrightarrow> Suc n \<le> 2 ^ 32 \<Longrightarrow> apart n (a + 1) (b + 1)"
  unfolding apart_def
proof (intro allI notI)
  fix x assume h: "\<forall>x. \<not> (unat (x - a) < Suc n \<and> unat (x - b) < Suc n)" "Suc n \<le> 2 ^ 32"
    "unat (x - (a + 1)) < n \<and> unat (x - (b + 1)) < n"
  then have "unat (x - a) < Suc n" "unat (x - b) < Suc n" by (auto simp: distance_step split: if_splits)
  with h(1) show False by blast
qed

lemma rep_movsd_eq:
  "n \<le> 2 ^ 30 \<Longrightarrow> apart (4 * n) a s \<Longrightarrow> rep_movsd n a s m =
     (a + 4 * of_nat n, s + 4 * of_nat n, \<lambda>x. if unat (x - a) < 4 * n then m (s + (x - a)) else m x)"
proof (induction n arbitrary: a s m)
  case (Suc n)
  let ?m = "store32 a (load32 s m) m"
  have ap: "apart (4 * n) (a + 4) (s + 4)"
  proof -
    have "4 * Suc n = Suc (Suc (Suc (Suc (4 * n))))" by simp
    then have "apart (Suc (Suc (Suc (Suc (4 * n))))) a s" using Suc.prems(2) by (simp only:)
    from apart_step [OF apart_step [OF apart_step [OF apart_step [OF this]]]] Suc.prems(1)
    show ?thesis by (simp add: add.assoc)
  qed
  have st: "?m x = (if unat (x - a) < 4 then m (s + (x - a)) else m x)" for x
    by (simp add: store32_at byte_load32)
  have "rep_movsd (Suc n) a s m = rep_movsd n (a + 4) (s + 4) ?m" by simp
  also have "\<dots> = (a + 4 + 4 * of_nat n, s + 4 + 4 * of_nat n,
      \<lambda>x. if unat (x - (a + 4)) < 4 * n then ?m (s + 4 + (x - (a + 4))) else ?m x)"
    using Suc.prems ap by (intro Suc.IH) simp
  also have "\<dots> = (a + 4 * of_nat (Suc n), s + 4 * of_nat (Suc n),
      \<lambda>x. if unat (x - a) < 4 * Suc n then m (s + (x - a)) else m x)"
  proof -
    have "(if unat (x - (a + 4)) < 4 * n then ?m (s + 4 + (x - (a + 4))) else ?m x) =
        (if unat (x - a) < 4 * Suc n then m (s + (x - a)) else m x)" for x
    proof (cases "4 \<le> unat (x - a)")
      case True
      then have d: "unat (x - (a + 4)) = unat (x - a) - 4" by (simp add: distance_step)
      have e: "s + 4 + (x - (a + 4)) = s + (x - a)" by simp
      have "\<not> unat (s + (x - a) - a) < 4" if "unat (x - a) < 4 * Suc n"
      proof
        assume "unat (s + (x - a) - a) < 4"
        then have "unat (s + (x - a) - a) < 4 * Suc n" by (rule order_less_le_trans) simp
        moreover have "unat (s + (x - a) - s) < 4 * Suc n" using that by simp
        ultimately show False using Suc.prems(2) unfolding apart_def by blast
      qed
      with True show ?thesis by (auto simp: d e st)
    next
      case False
      with Suc.prems have "\<not> unat (x - (a + 4)) < 4 * n" by (simp add: distance_step)
      with False show ?thesis by (simp add: st)
    qed
    then show ?thesis by (simp add: algebra_simps)
  qed
  finally show ?case .
qed simp

lemma rep_movsb_eq:
  "n < 2 ^ 32 \<Longrightarrow> apart n a s \<Longrightarrow> rep_movsb n a s m =
     (a + of_nat n, s + of_nat n, \<lambda>x. if unat (x - a) < n then m (s + (x - a)) else m x)"
proof (induction n arbitrary: a s m)
  case (Suc n)
  let ?m = "m(a := m s)"
  have eq: "(if unat (x - (a + 1)) < n then ?m (s + 1 + (x - (a + 1))) else ?m x) =
      (if unat (x - a) < Suc n then m (s + (x - a)) else m x)" for x
  proof (cases "x = a")
    case True
    then show ?thesis using Suc.prems by (simp add: distance_step)
  next
    case False
    then have g: "0 < unat (x - a)" by (simp add: unat_gt_0)
    then have d: "unat (x - (a + 1)) = unat (x - a) - 1" by (simp add: distance_step)
    have e: "s + 1 + (x - (a + 1)) = s + (x - a)" by simp
    have "s + (x - a) \<noteq> a" if "unat (x - a) < Suc n"
    proof
      assume "s + (x - a) = a"
      then have "a - s = x - a" by (metis add_diff_cancel_left')
      with that have "unat (a - s) < Suc n" by (simp only:)
      moreover have "unat (a - a) < Suc n" by simp
      ultimately show False using Suc.prems(2) unfolding apart_def by blast
    qed
    with False g show ?thesis by (auto simp: d e)
  qed
  have "rep_movsb (Suc n) a s m = rep_movsb n (a + 1) (s + 1) ?m" by simp
  also have "\<dots> = (a + 1 + of_nat n, s + 1 + of_nat n, \<lambda>x. if unat (x - (a + 1)) < n then ?m (s + 1 + (x - (a + 1))) else ?m x)"
    using Suc.prems apart_step [OF Suc.prems(2)] by (intro Suc.IH) simp_all
  finally show ?case by (simp only: eq) (simp add: algebra_simps)
qed simp


lemma apart_mono: "apart n a b \<Longrightarrow> k \<le> n \<Longrightarrow> apart k a b"
  unfolding apart_def by (meson order_less_le_trans)

lemma fast_memcpy_eq:
  assumes "apart (unat count) dest src"
  shows "asm_fast_memcpy dest src count m x = (if unat (x - dest) < unat count then m (src + (x - dest)) else m x)"
proof -
  let ?n = "unat (drop_bit 2 count)" and ?k = "unat (count AND 3)"
  define r :: u32 where "r = 4 * of_nat ?n"
  let ?m = "\<lambda>x. if unat (x - dest) < 4 * ?n then m (src + (x - dest)) else m x"
  have o: "unat r = 4 * ?n"
    using count_parts(3) [of count] by (simp add: r_def unat_word_ariths unsigned_of_nat take_bit_nat_eq_self)
  have d: "unat (x - (a + r)) = (if 4 * ?n \<le> unat (x - a) then unat (x - a) - 4 * ?n else 2 ^ 32 + unat (x - a) - 4 * ?n)" for x a
    by (simp only: distance_step o)
  have lt: "4 * ?n + ?k = unat count" "?k < 4" by (rule count_parts)+
  have "unat count < 2 ^ LENGTH(32)" by (rule unsigned_less)
  then have c32: "unat count < 2 ^ 32" by simp
  have ap: "apart ?k (dest + r) (src + r)"
    unfolding apart_def
  proof (intro allI notI)
    fix y assume "unat (y - (dest + r)) < ?k \<and> unat (y - (src + r)) < ?k"
    then have "unat (y - dest) < unat count" "unat (y - src) < unat count"
      using lt d [of y dest] d [of y src] c32 by (auto split: if_splits)
    with assms show False by (auto simp: apart_def)
  qed
  have mv: "rep_movsd ?n dest src m = (dest + r, src + r, ?m)"
    unfolding r_def using lt count_parts(3) [of count] by (intro rep_movsd_eq apart_mono [OF assms]) simp_all
  have mb: "rep_movsb ?k (dest + r) (src + r) ?m = (dest + r + of_nat ?k, src + r + of_nat ?k,
      \<lambda>x. if unat (x - (dest + r)) < ?k then ?m (src + r + (x - (dest + r))) else ?m x)"
    using lt(2) by (intro rep_movsb_eq ap) simp
  have "asm_fast_memcpy dest src count m x =
      (if unat (x - (dest + r)) < ?k then ?m (src + r + (x - (dest + r))) else ?m x)"
    by (simp only: asm_fast_memcpy_def mv mb prod.case snd_conv)
  also have "src + r + (x - (dest + r)) = src + (x - dest)" by simp
  also have "(if unat (x - (dest + r)) < ?k then ?m (src + (x - dest)) else ?m x) =
      (if unat (x - dest) < unat count then m (src + (x - dest)) else m x)"
  proof (cases "unat (x - dest) < unat count")
    case True
    have "\<not> unat (src + (x - dest) - dest) < unat count"
      using assms True by (auto simp: apart_def dest!: spec [of _ "src + (x - dest)"])
    with True lt show ?thesis by (auto simp: d)
  next
    case False
    with lt c32 d [of x dest] show ?thesis by auto
  qed
  finally show ?thesis .
qed

text \<open>
  \<open>asm_fast_memcpy\<close>, which moves words and then the bytes left over, is \<open>memcpy\<close>: for two ranges that
  do not meet, wherever they lie and whatever the count, each byte of the first becomes the byte of the
  second and no other byte changes.
\<close>
lemma fast_memcpy_is_memcpy:
  assumes "apart (unat count) dest src"
  shows "asm_fast_memcpy dest src count m x = (if unat (x - dest) < unat count then m (src + (x - dest)) else m x)"
  using assms by (rule fast_memcpy_eq)

lemma fast_memcpy_is_memcpy_witness:
  "asm_fast_memcpy 0x1000 0x2000 7 (\<lambda>a. ucast (a - 0x2000)) 0x1006 = 6 \<and>
   asm_fast_memcpy 0x1000 0x2000 7 (\<lambda>a. ucast (a - 0x2000)) 0x1007 = 7"
proof -
  have "apart (unat (7 :: u32)) 0x1000 0x2000"
    unfolding apart_def
  proof
    fix x :: u32
    show "\<not> (unat (x - 0x1000) < unat (7 :: u32) \<and> unat (x - 0x2000) < unat (7 :: u32))"
      using distance_step [of x "0x1000" "0x1000"] by auto
  qed
  from fast_memcpy_is_memcpy [OF this, of "\<lambda>a. ucast (a - 0x2000)"] show ?thesis by simp
qed

text \<open>
  The core test reports the copy and the exchange as working; the fill always fails, because
  \<open>asm_fast_memset\<close> stores the word 0xAA and not four bytes 0xAA.
\<close>

lemma set_word: "load32 f (asm_fast_memset f 0xAA 16 m) = 0xAA"
  by (simp add: load32_def fast_memset_eq byte_def Let_def)

lemma load_store_other:
  "apart 4 a b \<Longrightarrow> load32 a (store32 b w m) = load32 a m"
  by (simp add: load32_def store32_at apart_def)


lemma apart_4: "apart 4 a b" if "4 \<le> unat (b - a)" "4 \<le> unat (a - b)" for a b :: u32
  unfolding apart_def
proof (intro allI notI)
  fix x assume h: "unat (x - a) < 4 \<and> unat (x - b) < 4"
  have "unat (x - b) = unat (x - (a + (b - a)))" by simp
  with h that(1) have e: "unat (x - b) = 2 ^ 32 + unat (x - a) - unat (b - a)"
    by (simp only: distance_step split: if_splits) linarith
  have "unat (a - b) = unat (0 - (b - a))" by simp
  also have "\<dots> = 2 ^ 32 - unat (b - a)" using distance_step [of 0 0 "b - a"] that(1) by (simp split: if_splits)
  finally show False using e h that by linarith
qed

text \<open>Words of one block at offsets four or more apart do not meet.\<close>

lemma apart_offsets:
  "4 \<le> unat (j - i) \<Longrightarrow> 4 \<le> unat (i - j) \<Longrightarrow> apart 4 (f + i) (f + j)" for f i j :: u32
  by (intro apart_4) simp_all

lemma load_offset:
  "4 \<le> unat (j - i) \<Longrightarrow> 4 \<le> unat (i - j) \<Longrightarrow> load32 (f + i) (store32 (f + j) w m) = load32 (f + i) m"
  by (intro load_store_other apart_offsets)

lemma core_test_output:
  "bot cr0 cr3 f m = Inr
     ([Print (ln [] @ ln ''--- WHITEX ASM CORE TEST START ---''), Print ''Testing CR0 Read... '', Print ''CR0: '', Print ''0x'',
       Print (hex_str cr0), Print (ln []), Print ''Testing CR3 Read... '', Print ''CR3 (Page Directory): '', Print ''0x'',
       Print (hex_str cr3), Print (ln []), Print ''Testing Fast Memset... '', Print (ln ''[FAILED]''),
       Print ''Testing Fast Memcpy... '', Print (ln ''[SUCCESS]''),
       Print ''Testing Atomic Exchange... '', Print (ln ''[SUCCESS]''), Print (ln ''--- WHITEX ASM CORE TEST END ---'')])"
proof -
  let ?s = "\<lambda>m. store32 (f + 16 + 12) 0x44444444 (store32 (f + 16 + 8) 0x33333333
                 (store32 (f + 16 + 4) 0x22222222 (store32 (f + 16) 0x11111111 m)))"
  let ?z = "\<lambda>m. store32 (f + 32 + 12) 0 (store32 (f + 32 + 8) 0 (store32 (f + 32 + 4) 0 (store32 (f + 32) 0 m)))"
  have ap: "apart (unat (16 :: u32)) (f + 32) (f + 16)"
    unfolding apart_def
  proof
    fix x
    show "\<not> (unat (x - (f + 32)) < unat (16 :: u32) \<and> unat (x - (f + 16)) < unat (16 :: u32))"
      using distance_step [of x "f + 16" 16] by (auto simp: add.assoc)
  qed
  have cp: "load32 (f + 32 + k) (asm_fast_memcpy (f + 32) (f + 16) 16 m) = load32 (f + 16 + k) m" if "k \<in> {4, 12}" for k m
    using that by (auto simp: load32_def fast_memcpy_eq [OF ap])
  have sz: "load32 (f + 16 + 4) (?z (?s m)) = 0x22222222" "load32 (f + 16 + 12) (?z (?s m)) = 0x44444444" for m
    by (simp_all add: add.assoc load_offset)
  let ?m = "?z (?s (asm_fast_memset f 0xAA 16 m))"
  have "load32 f (asm_fast_memset f 0xAA 16 m) \<noteq> 0xAAAAAAAA" by (simp add: set_word)
  moreover have "load32 (f + 32 + 4) (asm_fast_memcpy (f + 32) (f + 16) 16 ?m) = 0x22222222"
    "load32 (f + 32 + 12) (asm_fast_memcpy (f + 32) (f + 16) 16 ?m) = 0x44444444"
    by (simp_all only: cp sz insert_iff simp_thms)
  ultimately show ?thesis
    by (simp add: bot_def Let_def asm_atomic_exchange_def print_hex_32_eq verdict_def del: replicate.simps)
qed

end
