(* ===== verification/WX_System.thy ===== *)
theory WX_System
  imports WX_Shell_Props WX_Fs_Props WX_Sched_Props WX_Keyboard_Props WX_Editors WX_Cpu
begin

text \<open>
  The components put together: the lines of the prompt are those the keyboard driver makes of the scan codes
  left by the login, and the routines that the shell leaves to other components are the models of those
  components.  An invariant of the components that their operations keep (the locale \<open>parts_invariant\<close>)
  holds whenever the prompt waits.
\<close>

section \<open>From scan codes to lines\<close>

lemma edit_loop_rest: "edit_loop codes st = Some (r, rest) \<Longrightarrow> length rest \<le> length codes"
  by (induction codes st rule: edit_loop.induct) (auto split: if_splits)

lemma edit_loop_shorter:
  assumes "edit_loop codes (sh, ca, ex, line, False) = Some (r, rest)"
  shows "length rest < length codes"
proof (cases codes)
  case (Cons code codes')
  obtain st where "edit_loop codes' st = Some (r, rest)" using assms Cons by auto
  from edit_loop_rest [OF this] Cons show ?thesis by simp
qed (use assms in simp)

text \<open>The lines that a line editor makes of a sequence of scan codes, one after the other.\<close>

function edited_lines :: "bool \<times> bool \<times> bool \<Rightarrow> u8 list \<Rightarrow> string list" where
  "edited_lines (sh, ca, ex) codes =
     (case edit_loop codes (sh, ca, ex, [], False) of
        None \<Rightarrow> []
      | Some ((sh, ca, ex, line), rest) \<Rightarrow> line # edited_lines (sh, ca, ex) rest)"
  by pat_completeness auto

termination
  by (relation "measure (\<lambda>(_, codes). length codes)") (auto dest: edit_loop_shorter)

declare edited_lines.simps [simp del]

lemma scan_shorter:
  assumes "scan buf codes k = Inr (Some (b, out, k', rest))"
  shows "length rest < length codes"
  using scan_edit [where codes = codes and k = k and buffer = buf] assms
  by (auto split: option.splits prod.splits if_splits dest: edit_loop_shorter)

text \<open>The lines that \<open>scan\<close> hands over to the prompt.\<close>

function scanned_lines :: "u8 list \<Rightarrow> keyboard \<Rightarrow> char list list" where
  "scanned_lines codes k =
     (case scan (replicate 256 NUL) codes k of
        Inr (Some (b, out, k, rest)) \<Rightarrow> b # scanned_lines rest k
      | _ \<Rightarrow> [])"
  by pat_completeness auto

termination
  by (relation "measure (\<lambda>(codes, _). length codes)") (auto dest: scan_shorter)

declare scanned_lines.simps [simp del]

lemma scanned_lines_eq:
  "scanned_lines codes k =
     map (\<lambda>l. l @ NUL # replicate (255 - length l) NUL) (edited_lines (shift_pressed k, caps_lock k, is_extended k) codes) \<and>
   (\<forall>l \<in> set (edited_lines (shift_pressed k, caps_lock k, is_extended k) codes). nul_free l \<and> length l \<le> 254)"
proof (induction codes k rule: scanned_lines.induct)
  case (1 codes k)
  show ?case
  proof (cases "edit_loop codes (shift_pressed k, caps_lock k, is_extended k, [], False)")
    case None
    then show ?thesis
      using scan_edit [where codes = codes and k = k and buffer = "replicate 256 NUL"] by (simp add: scanned_lines.simps edited_lines.simps)
  next
    case (Some r)
    obtain sh ca ex line rest where r: "r = ((sh, ca, ex, line), rest)" by (metis prod_cases4 prod.exhaust)
    from scan_edit [where codes = codes and k = k and buffer = "replicate 256 NUL"] Some r obtain out k' where
      s: "nul_free line" "length line \<le> 254"
        "scan (replicate 256 NUL) codes k = Inr (Some (line @ NUL # drop (Suc (length line)) (replicate 256 NUL), out, k', rest))"
        "shift_pressed k' = sh" "caps_lock k' = ca" "is_extended k' = ex"
      by (auto simp del: replicate.simps)
    have d: "drop (Suc (length line)) (replicate 256 NUL) = replicate (255 - length line) NUL" by simp
    from 1 [OF s(3) refl refl refl refl] s show ?thesis
      by (simp add: scanned_lines.simps [of codes k] edited_lines.simps [of _ _ _ codes] Some r d del: drop_replicate replicate.simps)
  qed
qed

lemma scanned_lines_typed:
  assumes "line \<in> set (scanned_lines codes k)"
  shows "typed line" "\<exists>l \<in> set (edited_lines (shift_pressed k, caps_lock k, is_extended k) codes). cstr line = l"
proof -
  from assms scanned_lines_eq [of codes k] obtain l where
    l: "l \<in> set (edited_lines (shift_pressed k, caps_lock k, is_extended k) codes)" "nul_free l" "length l \<le> 254"
      "line = l @ NUL # replicate (255 - length l) NUL" by auto
  then have "cstr line = l" by simp
  with l show "typed line" "\<exists>l \<in> set (edited_lines (shift_pressed k, caps_lock k, is_extended k) codes). cstr line = l"
    by (auto simp: typed_def)
qed


section \<open>Operations that return\<close>

text \<open>A name that does not fit its buffer, or has no end, is a fault, so an operation that returns had a name that fits.\<close>

lemma scan_copy_InrD: "scan_copy line b = Inr r \<Longrightarrow> fits (length b) line"
  by (induction line b arbitrary: r rule: scan_copy.induct) (auto simp: fits_def map_sum_def split: if_splits sum.splits)

lemma scan_into_InrD: "scan_into n line = Inr b \<Longrightarrow> fits n line"
  using scan_copy_InrD [of line "replicate n NUL" b] by (simp add: scan_into_def del: replicate.simps)

lemma needs_name: "bindE (scan_into n line) f = Inr x \<Longrightarrow> fits n line"
  by (auto simp: bindE_eq_Inr dest: scan_into_InrD)

lemma fs_keeps:
  assumes "vfs_inv v"
  shows "mkdir line v = Inr (out, v') \<Longrightarrow> vfs_inv v'" "touch line v = Inr (out, v') \<Longrightarrow> vfs_inv v'"
    "cd line v = Inr (out, v') \<Longrightarrow> vfs_inv v'" "rm line v = Inr (out, v') \<Longrightarrow> vfs_inv v'"
    "init_fs v = Inr (out, v') \<Longrightarrow> vfs_inv v'"
proof -
  have n: "fits 32 line" if "mkdir line v = Inr (out, v') \<or> touch line v = Inr (out, v') \<or> cd line v = Inr (out, v') \<or> rm line v = Inr (out, v')"
    using that needs_name [of 32 line] by (auto simp: mkdir_def touch_def cd_def rm_def NAME_LEN_def)
  show "vfs_inv v'" if "mkdir line v = Inr (out, v')" using mkdir_inv [OF assms, of line] n that by auto
  show "vfs_inv v'" if "touch line v = Inr (out, v')" using touch_inv [OF assms, of line] n that by auto
  show "vfs_inv v'" if "cd line v = Inr (out, v')" using cd_inv [OF assms, of line] n that by auto
  show "vfs_inv v'" if "rm line v = Inr (out, v')" using rm_inv [OF assms, of line] n that by auto
  have "length (storage v) = 128" "\<forall>x \<in> set (storage v). length (node_name x) = 32"
    using assms by (auto simp: vfs_inv_def node_ok_def)
  then show "vfs_inv v'" if "init_fs v = Inr (out, v')" using init_fs_inv [of v] that by auto
qed

lemma shellfs_keeps:
  "shellfs beyond inp (v, dev) = Inr (out, (v', dev'), w) \<Longrightarrow>
   (vfs_inv v \<longrightarrow> vfs_inv v') \<and> (\<forall>l. w = Some l \<longrightarrow> set l \<subseteq> set inp)"
proof (induction inp arbitrary: v dev out w rule: length_induct)
  case (1 inp)
  show ?case
  proof (cases inp)
    case (Cons line ls)
    have keep: "vfs_inv v2" if "shell_named c nm (v, dev) = Inr (o2, v2, d2)" "vfs_inv v" for c nm o2 v2 d2
      using that(1) fs_keeps [OF that(2)] by (auto simp: shell_named_def with_vfs_def map_sum_def split: if_splits sum.splits)
    have simple: "v2 = v" if "shell_simple beyond c (v, dev) = Inr (o2, v2, d2)" for c o2 v2 d2
      using that by (auto simp: shell_simple_def map_sum_def split: if_splits sum.splits prod.splits)
    have IH: "(vfs_inv v2 \<longrightarrow> vfs_inv v') \<and> (\<forall>l. w = Some l \<longrightarrow> set l \<subseteq> set inp)"
      if "length rest < length inp" "set rest \<subseteq> set inp" "shellfs beyond rest (v2, d2) = Inr (o2, (v', dev'), w)"
      for rest v2 d2 o2
      using 1(1) [rule_format, OF that(1,3)] that(2) by auto
    from 1(2) obtain n cmd where h: "get (storage v) (current_dir v) = Inr n" "scan_into 16 line = Inr cmd"
      by (auto simp: Cons bindE_eq_Inr)
    consider (quit) "cstr cmd = ''q''" | (named) "cstr cmd \<noteq> ''q''" "cstr cmd \<in> set [''mkdir'', ''cd'', ''touch'', ''rm'']"
      | (other) "cstr cmd \<noteq> ''q''" "cstr cmd \<notin> set [''mkdir'', ''cd'', ''touch'', ''rm'']" by blast
    then show ?thesis
    proof cases
      case quit
      then show ?thesis using 1(2) h by (auto simp: Cons Let_def)
    next
      case named
      show ?thesis
      proof (cases ls)
        case Nil
        then show ?thesis using 1(2) h named by (simp add: Cons Let_def del: set_simps)
      next
        case (Cons nm rest)
        from 1(2) h named obtain o1 v2 d2 o2 where "shell_named (cstr cmd) nm (v, dev) = Inr (o1, v2, d2)"
          "shellfs beyond rest (v2, d2) = Inr (o2, (v', dev'), w)"
          by (auto simp: \<open>inp = line # ls\<close> Cons Let_def bindE_eq_Inr map_sum_eq_Inr simp del: set_simps)
        with IH [of rest] keep show ?thesis using \<open>inp = line # ls\<close> Cons by fastforce
      qed
    next
      case other
      from 1(2) h other obtain o1 v2 d2 o2 where "shell_simple beyond (cstr cmd) (v, dev) = Inr (o1, v2, d2)"
        "shellfs beyond ls (v2, d2) = Inr (o2, (v', dev'), w)"
        by (auto simp: Cons Let_def bindE_eq_Inr map_sum_eq_Inr simp del: set_simps)
      with IH [of ls] simple Cons show ?thesis by fastforce
    qed
  qed (use 1 in auto)
qed


section \<open>Invariants of the components\<close>

text \<open>A step of a component that keeps \<open>I\<close> when it returns.\<close>

definition keeps_parts :: "(parts \<Rightarrow> bool) \<Rightarrow> (parts \<Rightarrow> (fault + con list \<times> parts) option) \<Rightarrow> bool" where
  "keeps_parts I f \<longleftrightarrow> (\<forall>p out p'. I p \<longrightarrow> f p = Some (Inr (out, p')) \<longrightarrow> I p')"

text \<open>
  The operations of the table that change a component directly, the check of the prompt loop and the
  routines left to the parameter: whatever they keep is kept by a round of the prompt.
\<close>

locale parts_invariant =
  fixes I :: "parts \<Rightarrow> bool" and others :: other_routines
  assumes lines: "I p \<Longrightarrow> I (p\<lparr>p_lines := later\<rparr>)"
    and fs: "keeps_parts I (\<lambda>p. Some (on_fs (mkdir line) p))" "keeps_parts I (\<lambda>p. Some (on_fs (cd line) p))"
      "keeps_parts I (\<lambda>p. Some (on_fs init_fs p))"
    and sched: "keeps_parts I (\<lambda>p. Some (on_sched (cmd_kill args) p))" "keeps_parts I (\<lambda>p. Some (on_sched (cmd_msgsend args) p))"
    and net: "keeps_parts I (\<lambda>p. Some (on_net f p))"
    and oom: "keeps_parts I (\<lambda>p. Some (oom_check p))"
    and routines: "keeps_parts I (others r args)"
begin

definition stays :: "system \<Rightarrow> system \<Rightarrow> bool" where
  "stays k k' \<longleftrightarrow> (I (sys_parts k) \<longrightarrow> I (sys_parts k'))"

lemma stays_same: "sys_parts k' = sys_parts k \<Longrightarrow> stays k k'"
  by (simp add: stays_def)

lemma stays_trans: "stays k k' \<Longrightarrow> stays k' k'' \<Longrightarrow> stays k k''"
  by (simp add: stays_def)

lemma stays_bind:
  assumes "after m (stays k)" "\<And>k'. stays k k' \<Longrightarrow> after (f k') (stays k')"
  shows "after (bindP m f) (stays k)"
  by (rule after_bind, rule after_mono [OF assms(1)])
    (use assms(2) stays_trans in \<open>blast intro: after_mono\<close>)

lemma stays_lift: "(\<And>x. after (f x) (stays k)) \<Longrightarrow> after (bindP (Some (k_lift k m)) f) (stays k)"
  by (rule after_bind) (cases m; simp add: k_lift_def)

lemma stays_log: "after (Some (k_log lvl msg k)) (stays k)"
  by (auto simp: after_some dest!: k_log_keeps intro!: stays_same)

lemma verify_same: "sys_verify_integrity k = Inr k' \<Longrightarrow> k' = k"
  by (auto simp: sys_verify_integrity_def Let_def sys_panic_def bindE_eq_Inr split: if_splits prod.splits sum.splits)

lemma stays_verify: "after (Some (sys_verify_integrity k)) (stays k)"
  by (auto simp: after_some dest!: verify_same intro!: stays_same)

lemma stays_emit: "stays k (emit out k)" "stays k (count_cycle k)"
  by (auto simp: count_cycle_def intro!: stays_same)

lemma stays_parts:
  assumes "keeps_parts I (\<lambda>p. Some (f p))"
  shows "after (on_parts f k) (stays k)"
  using assms by (auto simp: on_parts_def after_some stays_def keeps_parts_def split: sum.splits)

lemma stays_text: "after (on_parts (only_text t) k) (stays k)"
  by (rule stays_parts) (auto simp: keeps_parts_def only_text_def map_sum_eq_Inr)

lemma stays_line:
  assumes "\<And>line k'. after (f line k') (stays k')"
  shows "after (with_line f k) (stays k)"
proof (cases "p_lines (sys_parts k)")
  case (Cons line later)
  let ?k = "k\<lparr>sys_parts := (sys_parts k)\<lparr>p_lines := later\<rparr>\<rparr>"
  have "stays k ?k" by (simp add: stays_def lines)
  with assms [of line ?k] show ?thesis
    by (auto simp: with_line_def Cons intro: after_mono stays_trans)
qed (simp add: with_line_def)

lemma stays_handler: "after (Some (cmd_sudo_handler line1 line2 k)) (stays k)"
  by (auto simp: after_some cmd_sudo_handler_def bindE_eq_Inr k_lift_def Let_def map_sum_eq_Inr split: if_splits
      dest!: k_log_keeps verify_same intro!: stays_same)

lemma stays_sudo: "after (sudo k) (stays k)"
  unfolding sudo_def
  by (rule stays_bind [OF stays_verify], rule stays_line) (auto intro: stays_line stays_handler)

lemma stays_hw: "keeps_parts I f \<Longrightarrow> after (hw f k) (stays k)"
  by (auto simp: hw_def on_parts_def after_def stays_def keeps_parts_def split: option.splits sum.splits)

lemma stays_on_others: "after (on_others others r args k) (stays k)"
  using stays_hw [OF routines, of r args k] by (simp add: on_others_def hw_def)

lemma map_sum_Inr_iff: "map_sum f g m = Inr y \<longleftrightarrow> (\<exists>x. m = Inr x \<and> y = g x)" for m :: "'a + 'b"
  by (cases m) auto

lemma stays_ram: "after (WX_Vm.ram k) (stays k)"
  by (auto simp: WX_Vm.ram_def after_def stays_def emit_def map_sum_Inr_iff split: option.splits sum.splits prod.splits)

lemma stays_fortune: "after (Some (cmd_random_fortune k)) (stays k)"
  by (auto simp: after_some cmd_random_fortune_def bindE_eq_Inr k_lift_def Let_def map_sum_eq_Inr split: if_splits
      dest!: k_log_keeps verify_same intro!: stays_same)

lemma stays_routine: "after (run_routine others r args k) (stays k)"
proof -
  have named: "after (with_line (\<lambda>line. on_parts (on_fs (mkdir line))) k) (stays k)"
    "after (with_line (\<lambda>line. on_parts (on_fs (cd line))) k) (stays k)"
    by (intro stays_line stays_parts fs)+
  note [simp] = named stays_emit stays_text stays_parts [OF fs(3)] stays_parts [OF sched(1)] stays_parts [OF sched(2)]
    stays_parts [OF net] stays_sudo stays_on_others stays_ram stays_fortune
  show ?thesis by (cases r) (simp_all add: help_cmd_def split: prod.split)
qed

lemma stays_dispatch: "after (dispatch others cmd args e k) (stays k)"
proof -
  have "after (bindP (Some (k_log 0 cmd (count_cycle k))) (\<lambda>k.
      case (if requires_args e then exec_arg_ptr e else exec_ptr e) of
        None \<Rightarrow> Some (Inr k) | Some r \<Rightarrow> run_routine others r args k)) (stays (count_cycle k))"
    by (rule stays_bind [OF stays_log])
      (auto simp: stays_same stays_routine split: option.split)
  then have "after (bindP (Some (k_log 0 cmd (count_cycle k))) (\<lambda>k.
      case (if requires_args e then exec_arg_ptr e else exec_ptr e) of
        None \<Rightarrow> Some (Inr k) | Some r \<Rightarrow> run_routine others r args k)) (stays k)"
    by (rule after_mono) (rule stays_trans [OF stays_emit(2)])
  moreover have "after (bindP (Some (k_log 2 msg k)) (\<lambda>k. Some (Inr (emit out k)))) (stays k)" for msg out
    by (rule stays_bind [OF stays_log]) (simp add: stays_emit)
  ultimately show ?thesis unfolding dispatch_def by (intro after_if)
qed

lemma stays_vector: "after (vector_loop others cmd args n i k) (stays k)"
proof (induction n arbitrary: i)
  case 0
  then show ?case by (simp add: stays_emit)
next
  case (Suc n)
  show ?case unfolding vector_loop.simps
    by (intro stays_lift after_if stays_dispatch Suc)
qed

lemma stays_parse: "after (sys_parse_input others raw k) (stays k)"
proof -
  have exec: "after (sys_execute_vector others cmd args k) (stays k)" for cmd args k
    unfolding sys_execute_vector_def
    by (rule stays_bind [OF stays_verify], intro stays_lift after_if stays_vector) (simp add: stays_same)
  show ?thesis unfolding sys_parse_input_def
    by (rule stays_bind [OF stays_verify]) (auto intro!: stays_lift exec simp: stays_same split: prod.split)
qed

lemma stays_tick: "after (tick esp k) (stays k)"
proof -
  let ?k = "k\<lparr>g_tick_counter := g_tick_counter k + 1\<rparr>"
  have w: "after (if b then watch_stack esp k' else Some (Inr k')) (stays k')" for b k'
    by (simp add: watch_stack_def stays_same)
  have "after (tick esp k) (stays ?k)" unfolding tick_def Let_def
  proof (rule stays_bind [OF w])
    fix k'
    have "after (bindP (on_parts oom_check k') (\<lambda>k. Some (sys_verify_integrity (k\<lparr>g_tick_counter := 0\<rparr>)))) (stays k')"
    proof (rule stays_bind [OF stays_parts [OF oom]])
      fix k2
      show "after (Some (sys_verify_integrity (k2\<lparr>g_tick_counter := 0\<rparr>))) (stays k2)"
        by (rule after_mono [OF stays_verify]) (simp add: stays_def)
    qed
    then show "after (if SYS_TICK_MAX \<le> g_tick_counter k'
        then bindP (on_parts oom_check k') (\<lambda>k. Some (sys_verify_integrity (k\<lparr>g_tick_counter := 0\<rparr>)))
        else Some (Inr k')) (stays k')"
      by (simp add: stays_same)
  qed
  then show ?thesis by (rule after_mono) (simp add: stays_def)
qed

lemma stays_round: "after (kernel_round esp others k) (stays k)"
  unfolding kernel_round_def
proof (rule stays_bind [OF stays_tick])
  fix k'
  have "after (with_line (\<lambda>line k.
         bindP (Some (k_lift k (read_line line))) (\<lambda>local_io_buffer.
         bindP (Some (k_lift k (get local_io_buffer 0))) (\<lambda>c.
           if c \<noteq> NUL then sys_parse_input others local_io_buffer k else Some (Inr k)))) (prompt k')) (stays (prompt k'))"
    by (intro stays_line stays_lift after_if stays_parse) (simp add: stays_same)
  then show "after (with_line (\<lambda>line k.
         bindP (Some (k_lift k (read_line line))) (\<lambda>local_io_buffer.
         bindP (Some (k_lift k (get local_io_buffer 0))) (\<lambda>c.
           if c \<noteq> NUL then sys_parse_input others local_io_buffer k else Some (Inr k)))) (prompt k')) (stays k')"
    by (rule after_mono) (simp add: stays_def prompt_def)
qed

text \<open>An invariant of the state after the start-up holds whenever the prompt waits.\<close>

lemma session_invariant:
  assumes "session hardware task_at raw esp others k0 k"
    "\<And>k. sys_execute_startup_routines hardware task_at raw k0 = Some (Inr k) \<Longrightarrow> I (sys_parts k)"
  shows "I (sys_parts k)"
  using assms
proof (induction rule: session.induct)
  case (command k k')
  then show ?case using stays_round [of esp k] by (simp add: after_def stays_def)
qed

end


section \<open>The machine\<close>

text \<open>
  What the environment answers: the addresses of the tables and tasks, the disk, the processor, the ports,
  the card, what other processes do while one waits.
\<close>

record machine =
  gdt_at :: u32
  gdt_mem :: "gdt_entry list"
  idt_at :: u32
  idt_mem :: "idt_entry list"
  disk_status :: u8
  disk_drive :: ata_drive
  beyond_table :: "u8 list"
  leaf0 :: "u32 \<times> u32 \<times> u32"
  leaf1 :: "u32 \<times> u32"
  cycles :: u64
  features :: cpu_features
  msrs :: "u32 \<Rightarrow> u64"
  junk_byte :: char
  user_buf :: "char list"
  pass_buf :: "char list"
  boot_codes :: "u8 list"
  boot_kbd :: keyboard
  answers :: "u8 list"
  vga_page :: "u16 list"
  top_keys :: "u8 option list"
  world :: "scheduler_state \<Rightarrow> scheduler_state"
  recv_buf :: "char list"
  exit_at :: u32
  auditor_at :: u32
  worker_at :: u32
  task_addr :: u32
  fresh_task :: sys_task
  notes_mem :: "char list list"
  heap_now :: "u8 list"
  ticks_now :: u32
  rx_at :: u32
  tx_at :: u32
  card :: e1000_rx
  card_turns :: "((e1000_rx \<Rightarrow> e1000_rx) \<times> u8 option) list"

definition show_text :: "parts \<Rightarrow> fault + con list \<Rightarrow> fault + con list \<times> parts" where
  "show_text p = map_sum id (\<lambda>out. (out, p))"

definition processor_text :: "machine \<Rightarrow> fault + con list" where
  "processor_text m = map_sum id fst (cpuid (leaf0 m) (leaf1 m) (cycles m) (features m))"

text \<open>The seven calls of the start-up that drive the hardware, in their order.\<close>

definition kernel_hardware :: "machine \<Rightarrow> hardware_step list" where
  "kernel_hardware m =
     [\<lambda>p. Some (map_sum id (\<lambda>_. ([], p)) (init_gdt (gdt_at m) (gdt_mem m))),
      \<lambda>p. Some (map_sum id (\<lambda>_. ([], p)) (init_idt (idt_at m) (idt_mem m))),
      \<lambda>p. Some (Inr ([], p)),
      \<lambda>p. (case Sdd (disk_status m) (disk_drive m) of (out, dev) \<Rightarrow> Some (Inr (out, p\<lparr>p_dev := dev\<rparr>))),
      \<lambda>p. Some (Inr ([], p)),
      \<lambda>p. Some (show_text p (processor_text m)),
      \<lambda>p. (case login (user_buf m) (pass_buf m) (boot_codes m) (boot_kbd m) of
             Inl f \<Rightarrow> Some (Inl f)
           | Inr None \<Rightarrow> None
           | Inr (Some (_, out, _, _)) \<Rightarrow> Some (Inr (out, p)))]"

text \<open>The lines that \<open>notepad\<close> leaves: it reads on to \<open>/q\<close>, a name after \<open>/mkdir\<close> and \<open>/cd\<close>.\<close>

fun notepad_rest :: "char list list \<Rightarrow> char list list option" where
  "notepad_rest [] = None"
| "notepad_rest (line # inp) =
     (if cstr line = ''/q'' then Some inp
      else if cstr line \<in> set [''/mkdir'', ''/cd''] then (case inp of [] \<Rightarrow> None | nm # inp \<Rightarrow> notepad_rest inp)
      else notepad_rest inp)"

definition when_ended :: "bool \<Rightarrow> 'a \<Rightarrow> 'a option" where
  "when_ended b x = (if b then Some x else None)"

text \<open>
  The routines that the shell calls through the table and that are models of other theories.  The environment
  answers differently from call to call: \<open>env\<close> may depend on the state, in which the lines still to come grow
  fewer.  The entries of \<open>panic\<close> and \<open>nano\<close> are never called.
\<close>

definition kernel_routines :: "(parts \<Rightarrow> machine) \<Rightarrow> other_routines" where
  "kernel_routines env r args p =
     (let m = env p in
      case r of
        R_cpuid \<Rightarrow> Some (show_text p (processor_text m))
      | R_batt \<Rightarrow> Some (Inr (fst (batt (junk_byte m) (msrs m)), p))
      | R_melodi \<Rightarrow> Some (Inr ([], p))
      | R_htop \<Rightarrow>
          (case processor_text m of
             Inl f \<Rightarrow> Some (Inl f)
           | Inr text \<Rightarrow>
               (case htop text (ticks_now m) (heap_now m) (p_sched p) (p_oom p) of
                  None \<Rightarrow> None
                | Some (Inl f) \<Rightarrow> Some (Inl f)
                | Some (Inr out) \<Rightarrow>
                    (case p_lines p of [] \<Rightarrow> None | _ # later \<Rightarrow> Some (Inr (out, p\<lparr>p_lines := later\<rparr>)))))
      | R_reboot \<Rightarrow> (case reboot (answers m) of (out, r) \<Rightarrow> when_ended (r \<noteq> None) (Inr (out, p)))
      | R_shutdown \<Rightarrow> Some (Inl Cpu_halted)
      | R_time \<Rightarrow> map_option (map_sum id (\<lambda>_. ([], p))) (time_loop (vga_page m) (answers m))
      | R_new_task \<Rightarrow>
          Some (case new_task (task_addr m) (fresh_task m) (p_oom p) of
                  Inl (f, c) \<Rightarrow> Inl f | Inr (u, c) \<Rightarrow> Inr ([], p\<lparr>p_oom := c\<rparr>))
      | R_cmd_top \<Rightarrow>
          when_ended (Some 0x10 \<in> set (top_keys m) \<or> Some 0x01 \<in> set (top_keys m)) (on_sched (cmd_top (top_keys m)) p)
      | R_cmd_msgrecv \<Rightarrow>
          map_option (map_sum id (\<lambda>(out, s). (out, p\<lparr>p_sched := s\<rparr>))) (cmd_msgrecv (world m) (recv_buf m) (p_sched p))
      | R_cmd_lifecycle_reset \<Rightarrow>
          Some (case cmd_lifecycle_reset (exit_at m) (fresh_task m) (auditor_at m) (worker_at m) (p_life p, p_sched p, p_oom p) of
                  Inl (f, _) \<Rightarrow> Inl f
                | Inr (out, (l, s, c)) \<Rightarrow> Inr (out, p\<lparr>p_life := l, p_sched := s, p_oom := c\<rparr>))
      | R_shellfs \<Rightarrow>
          (case shellfs (beyond_table m) (p_lines p) (p_fs p, p_dev p) of
             Inl f \<Rightarrow> Some (Inl f)
           | Inr (out, (v, dev), w) \<Rightarrow>
               map_option (\<lambda>l. Inr (out, p\<lparr>p_fs := v, p_dev := dev, p_lines := l\<rparr>)) w)
      | R_notepad \<Rightarrow>
          (case run_notepad (p_lines p) (notes_mem m) (p_fs p) of
             Inl f \<Rightarrow> Some (Inl f)
           | Inr (out, (_, v)) \<Rightarrow> map_option (\<lambda>l. Inr (out, p\<lparr>p_fs := v, p_lines := l\<rparr>)) (notepad_rest (p_lines p)))
      | R_internetmain \<Rightarrow>
          when_ended (Some 0x10 \<in> snd ` set (card_turns m))
            (map_sum id (\<lambda>(_, s). ([], p\<lparr>p_net := s\<rparr>)) (internetmain (rx_at m) (tx_at m) (card_turns m) (card m) (p_net p)))
      | _ \<Rightarrow> None)"


section \<open>The routines keep the file tree and the process table\<close>

definition parts_ok :: "parts \<Rightarrow> bool" where
  "parts_ok p \<longleftrightarrow> vfs_inv (p_fs p) \<and> sched_inv (p_sched p)"

lemma yields_inv: "sched_inv s \<Longrightarrow> sched_inv ((scheduler_yield ^^ n) s)"
  by (induction n) (auto intro: yield_inv)

lemma top_loop_inv: "top_loop keys s = Inr (out, s') \<Longrightarrow> sched_inv s \<Longrightarrow> sched_inv s'"
  by (induction keys s arbitrary: out rule: top_loop.induct)
    (auto simp: bindE_eq_Inr map_sum_eq_Inr intro: yields_inv split: if_splits)

lemma c_strlen_less: "c_strlen msg = Inr n \<Longrightarrow> n < length msg"
  by (induction msg arbitrary: n) (auto simp: map_sum_eq_Inr split: if_splits)

lemma send_inv:
  assumes "bindE (parse_integer q) (\<lambda>dest. bindE (c_strlen msg) (\<lambda>len.
      bindE (scheduler_ipc_send dest msg (of_nat len + 1) 1 s) (\<lambda>(st, s). Inr ([Print (f st)], s)))) = Inr (out, s')"
    "sched_inv s"
  shows "sched_inv s'"
proof -
  from assms(1) obtain d where "parse_integer q = Inr d" by (cases "parse_integer q") simp_all
  with assms(1) obtain n where n1: "c_strlen msg = Inr n" by (cases "c_strlen msg") simp_all
  have "bindE (scheduler_ipc_send d msg (of_nat n + 1) 1 s) (\<lambda>(st, s). Inr ([Print (f st)], s)) = Inr (out, s')"
    using assms(1) by (simp only: \<open>parse_integer q = Inr d\<close> n1 bindE_simps)
  then obtain st where "scheduler_ipc_send d msg (of_nat n + 1) 1 s = Inr (st, s')"
    by (cases "scheduler_ipc_send d msg (of_nat n + 1) 1 s") (simp_all split: prod.splits)
  note n = n1 this
  have e: "of_nat n + 1 = (of_nat (Suc n) :: u32)" by simp
  have "unat (of_nat (Suc n) :: u32) \<le> Suc n" unfolding unat_of_nat by (rule mod_less_eq_dividend)
  then have "unat (of_nat n + 1 :: u32) \<le> length msg"
    unfolding e by (rule order.trans) (rule Suc_leI [OF c_strlen_less [OF n(1)]])
  from ipc_send_inv [OF assms(2) this n(2)] show ?thesis .
qed

lemma msgsend_inv:
  assumes "cmd_msgsend args s = Inr (out, s')" "sched_inv s"
  shows "sched_inv s'"
proof (cases "get args 0 = Inr NUL")
  case True
  then show ?thesis using assms by (simp add: cmd_msgsend_def)
next
  case False
  with assms(1) obtain c where c: "get args 0 = Inr c" "c \<noteq> NUL" by (cases "get args 0") (auto simp: cmd_msgsend_def)
  with assms(1) obtain a b where b: "copy_pid 15 args = Inr (a, b)" by (cases "copy_pid 15 args") (auto simp: cmd_msgsend_def)
  with assms(1) c obtain d where d: "get b 0 = Inr d" by (cases "get b 0") (auto simp: cmd_msgsend_def)
  show ?thesis
    by (rule send_inv [OF _ assms(2)], rule trans [OF _ assms(1)]) (simp only: cmd_msgsend_def c b d bindE_simps if_False prod.case Let_def)
qed

lemma receive_wait_inv:
  assumes "\<And>s. sched_inv s \<Longrightarrow> sched_inv (w s)"
  shows "receive_wait w cur s = Some t \<Longrightarrow> sched_inv s \<Longrightarrow>
     sched_inv t \<and> ch_count (communication_channel (process_table t ! cur)) \<noteq> 0"
proof -
  have "w' = w \<longrightarrow> sched_inv s \<longrightarrow> sched_inv t \<and> ch_count (communication_channel (process_table t ! cur)) \<noteq> 0"
    if "receive_wait w' cur s = Some t" for w' cur s t
  proof (rule receive_wait.raw_induct [OF _ that], intro impI)
    fix f w' cur s t
    assume IH: "\<And>w' cur s t. f w' cur s = Some t \<Longrightarrow> w' = w \<longrightarrow> sched_inv s \<longrightarrow>
        sched_inv t \<and> ch_count (communication_channel (process_table t ! cur)) \<noteq> 0"
      and body: "(if ch_count (communication_channel (process_table s ! cur)) = 0
        then f w' cur (w' (scheduler_yield (upd_pcb cur (\<lambda>p. p\<lparr>execution_state := ST_BLOCKED, waiting_on_pid := 0\<rparr>) s)))
        else Some s) = Some t"
      and h: "w' = w" "sched_inv s"
    have "sched_inv (w (scheduler_yield (upd_pcb cur (\<lambda>p. p\<lparr>execution_state := ST_BLOCKED, waiting_on_pid := 0\<rparr>) s)))"
      by (intro assms yield_inv block_inv h(2))
    with IH body h show "sched_inv t \<and> ch_count (communication_channel (process_table t ! cur)) \<noteq> 0"
      by (auto split: if_splits)
  qed
  then show "receive_wait w cur s = Some t \<Longrightarrow> sched_inv s \<Longrightarrow>
     sched_inv t \<and> ch_count (communication_channel (process_table t ! cur)) \<noteq> 0" by blast
qed

lemma ipc_receive_inv:
  assumes "scheduler_ipc_receive w buf mx s = Some (Inr (r, s'))" "sched_inv s" "128 \<le> length buf"
    "\<And>s. sched_inv s \<Longrightarrow> sched_inv (w s)"
  shows "sched_inv s'"
proof -
  from assms(1) obtain t c where t: "receive_wait w (running s) s = Some t"
    "channel_pop buf mx (communication_channel (process_table t ! running s)) = Inr (r, c)"
    "s' = upd_pcb (running s) (\<lambda>p. p\<lparr>communication_channel := c\<rparr>) t"
    by (auto simp: scheduler_ipc_receive_def Let_def bindE_eq_Inr split: prod.splits)
  from receive_wait_inv [OF assms(4) t(1) assms(2)] have
    i: "sched_inv t" "ch_count (communication_channel (process_table t ! running s)) \<noteq> 0" by auto
  have "running s < 1024" using sched_invD [OF assms(2)] by simp
  then have ci: "channel_inv (communication_channel (process_table t ! running s))"
    using sched_inv_pcb [OF i(1)] by (simp add: pcb_ok_def)
  from channel_pop_ok [OF ci _, of buf mx] i(2) assms(3) t(2) have "channel_inv c" by (auto simp: unat_gt_0)
  with i(1) show ?thesis unfolding t(3) by (intro sched_inv_upd channel_field_ok) auto
qed

lemma msgrecv_inv:
  assumes "cmd_msgrecv w buf s = Some (Inr (out, s'))" "sched_inv s" "128 \<le> length buf"
    "\<And>s. sched_inv s \<Longrightarrow> sched_inv (w s)"
  shows "sched_inv s'"
proof -
  from assms(1) obtain r where "scheduler_ipc_receive w buf 127 s = Some (Inr (r, s'))"
    by (auto simp: cmd_msgrecv_def bindE_eq_Inr split: if_splits)
  from ipc_receive_inv [OF this assms(2-4)] show ?thesis .
qed

lemma spawn_workers_inv:
  "spawn_workers stub raw w is (l, s, c) = Inr (l', s', c') \<Longrightarrow> sched_inv s \<Longrightarrow> sched_inv s'"
proof (induction "is" arbitrary: l s c)
  case (Cons i "is")
  from Cons.prems(1) obtain pid s1 c1 l1 where
    "scheduler_register_process stub raw w SCHED_DEFAULT_PRIORITY 512 0 s c = Inr (pid, s1, c1)"
    "spawn_workers stub raw w is (l1, s1, c1) = Inr (l', s', c')"
    by (auto simp: bindE_eq_Inr)
  with Cons show ?case using register_inv by blast
qed auto

lemma lifecycle_reset_inv:
  assumes "cmd_lifecycle_reset stub raw a w (l, s, c) = Inr (out, (l', s', c'))" "sched_inv s"
  shows "sched_inv s'"
proof -
  from assms(1) obtain pid s1 c1 l1 where
    "scheduler_register_process stub raw a SCHED_MAX_PRIORITY 2048 1 s c = Inr (pid, s1, c1)"
    "spawn_workers stub raw w [0..<16] (l1, s1, c1) = Inr (l', s', c')"
    by (auto simp: cmd_lifecycle_reset_def system_lifecycle_bootstrap_def bindE_eq_Inr map_sum_eq_Inr simp del: upt_conv_Cons upt_rec_numeral)
  then show ?thesis using register_inv [OF assms(2)] spawn_workers_inv by metis
qed


lemma notepad_loop_keeps: "notepad_loop inp (p, v) = Inr (out, (p', v')) \<Longrightarrow> vfs_inv v \<Longrightarrow> vfs_inv v'"
proof (induction inp arbitrary: p v out rule: length_induct)
  case (1 inp)
  show ?case
  proof (cases inp)
    case (Cons line rest)
    have IH: "vfs_inv v'" if "notepad_loop r (p2, v2) = Inr (o2, (p', v'))" "vfs_inv v2" "length r < length inp" for r p2 v2 o2
      using 1(1) that by blast
    have onward: "vfs_inv v'" if "then_out m (notepad_loop r) = Inr (out, (p', v'))" "length r < length inp"
      "\<And>o2 p2 v2. m = Inr (o2, (p2, v2)) \<Longrightarrow> vfs_inv v2" for m r
    proof -
      from that(1) obtain o2 p2 v2 o3 where "m = Inr (o2, (p2, v2))" "notepad_loop r (p2, v2) = Inr (o3, (p', v'))"
        by (auto simp: then_out_def bindE_eq_Inr map_sum_eq_Inr)
      with IH that show ?thesis by blast
    qed
    from 1(2) Cons obtain input where i: "scan_into LINE_LEN line = Inr input" by (cases "scan_into LINE_LEN line") auto
    let ?c = "cstr input"
    have r: "notepad_loop inp (p, v) =
       (if ?c = ''/q'' then Inr ([], (p, v))
        else if ?c = ''/v'' then then_out (map_sum id (\<lambda>out. (out, (p, v))) (refresh_screen p)) (notepad_loop rest)
        else if ?c = ''/ls'' then then_out (Inr (ls v, (p, v))) (notepad_loop rest)
        else if ?c = ''/pwd'' then then_out (map_sum id (\<lambda>out. (out, (p, v))) (pwd v)) (notepad_loop rest)
        else if ?c = ''/mkdir'' \<or> ?c = ''/cd'' then
          (case rest of
             [] \<Rightarrow> Inr ([], (p, v))
           | nm # inp \<Rightarrow>
               then_out (map_sum id (\<lambda>(out, v). (out, (p, v))) (if ?c = ''/mkdir'' then mkdir nm v else cd nm v))
                 (notepad_loop inp))
        else then_out (map_sum id (\<lambda>(out, p). (out, (p, v))) (store_line input p)) (notepad_loop rest))"
      by (simp only: Cons notepad_loop.simps i bindE_simps Let_def)
    have l: "length rest < length inp" by (simp add: Cons)
    have shorter: "length ds < length inp" if "rest = d # ds" for d ds using that by (simp add: Cons)
    note 2 = 1(2) [unfolded r]
    consider "?c = ''/q''" | "?c = ''/v''" | "?c = ''/ls''" | "?c = ''/pwd''" | (named) "?c = ''/mkdir'' \<or> ?c = ''/cd''"
      | (store) "?c \<noteq> ''/q''" "?c \<noteq> ''/v''" "?c \<noteq> ''/ls''" "?c \<noteq> ''/pwd''" "?c \<noteq> ''/mkdir''" "?c \<noteq> ''/cd''" by blast
    then show ?thesis
    proof cases
      case named
      show ?thesis
      proof (cases rest)
        case Nil
        with 2 named 1(3) show ?thesis by auto
      next
        case (Cons nm ds)
        show ?thesis
        proof (rule onward [where r = ds and m = "map_sum id (\<lambda>(out, v). (out, (p, v))) (if ?c = ''/mkdir'' then mkdir nm v else cd nm v)"])
          show "then_out (map_sum id (\<lambda>(out, v). (out, (p, v))) (if ?c = ''/mkdir'' then mkdir nm v else cd nm v)) (notepad_loop ds) = Inr (out, (p', v'))"
            using 2 named Cons by auto
        qed (use shorter [OF Cons] fs_keeps [OF 1(3)] in \<open>auto simp: map_sum_eq_Inr split: if_splits\<close>)
      qed
    next
      case store
      show ?thesis
        by (rule onward [where r = rest and m = "map_sum id (\<lambda>(out, p). (out, (p, v))) (store_line input p)"])
          (use 2 store l 1(3) in \<open>auto simp: map_sum_eq_Inr\<close>)
    qed (use 2 l 1(3) in \<open>auto simp: map_sum_eq_Inr elim!: onward\<close>)
  qed (use 1 in auto)
qed


lemma run_notepad_keeps:
  assumes "run_notepad inp st v = Inr (out, (p', v'))" "vfs_inv v"
  shows "vfs_inv v'"
proof -
  from assms(1) obtain p m out2 where "notepad_loop inp (p, v) = Inr (out2, (p', v'))"
    by (auto simp: run_notepad_def bindE_eq_Inr then_out_def map_sum_eq_Inr Let_def)
  from notepad_loop_keeps [OF this assms(2)] show ?thesis .
qed

lemma notepad_rest_lines: "notepad_rest inp = Some l \<Longrightarrow> set l \<subseteq> set inp"
  by (induction inp rule: notepad_rest.induct) (auto split: if_splits list.splits)

text \<open>What the routines keep of the lines, the file tree and the process table.\<close>

definition good_step :: "bool \<Rightarrow> parts \<Rightarrow> parts \<Rightarrow> bool" where
  "good_step b p p' \<longleftrightarrow> set (p_lines p') \<subseteq> set (p_lines p) \<and> (vfs_inv (p_fs p) \<longrightarrow> vfs_inv (p_fs p')) \<and>
     (b \<longrightarrow> sched_inv (p_sched p) \<longrightarrow> sched_inv (p_sched p'))"

definition sound_machine :: "machine \<Rightarrow> bool" where
  "sound_machine m \<longleftrightarrow> (\<forall>s. sched_inv s \<longrightarrow> sched_inv (world m s)) \<and> length (recv_buf m) = 128"

lemma good_step_same: "good_step b p p"
  by (simp add: good_step_def)

lemma show_text_same: "show_text p m = Inr (out, p') \<Longrightarrow> p' = p"
  by (auto simp: show_text_def map_sum_eq_Inr)

lemma kernel_routines_good:
  assumes "kernel_routines env r args p = Some (Inr (out, p'))"
  shows "good_step (sound_machine (env p)) p p'"
proof (cases r)
  case R_cpuid
  then show ?thesis using assms(1) by (auto simp: kernel_routines_def Let_def good_step_same dest: show_text_same)
next
  case R_batt
  then show ?thesis using assms(1) by (simp add: kernel_routines_def Let_def good_step_same)
next
  case R_melodi
  then show ?thesis using assms(1) by (simp add: kernel_routines_def Let_def good_step_same)
next
  case R_htop
  then show ?thesis using assms(1)
    by (auto simp: kernel_routines_def Let_def good_step_def split: sum.splits option.splits list.splits)
next
  case R_reboot
  then show ?thesis using assms(1) by (auto simp: kernel_routines_def Let_def when_ended_def good_step_same split: prod.splits if_splits)
next
  case R_shutdown
  then show ?thesis using assms(1) by (simp add: kernel_routines_def Let_def)
next
  case R_time
  then show ?thesis using assms(1) by (auto simp: kernel_routines_def Let_def map_sum_eq_Inr good_step_same)
next
  case R_new_task
  then show ?thesis using assms(1) by (auto simp: kernel_routines_def Let_def good_step_def split: sum.splits)
next
  case R_internetmain
  then show ?thesis using assms(1)
    by (auto simp: kernel_routines_def Let_def when_ended_def map_sum_eq_Inr good_step_def split: if_splits)
next
  case R_cmd_top
  then obtain s where s: "top_loop (top_keys (env p)) (p_sched p) = Inr s" "p' = p\<lparr>p_sched := snd s\<rparr>"
    using assms(1) by (auto simp: kernel_routines_def Let_def when_ended_def on_sched_def cmd_top_def map_sum_eq_Inr split: if_splits)
  have "sched_inv (snd s)" if "sched_inv (p_sched p)"
    using top_loop_inv [of "top_keys (env p)" "p_sched p" "fst s" "snd s"] s(1) that by simp
  then show ?thesis by (simp add: good_step_def s(2))
next
  case R_cmd_msgrecv
  from assms(1) obtain s where s: "cmd_msgrecv (world (env p)) (recv_buf (env p)) (p_sched p) = Some (Inr (out, s))" "p' = p\<lparr>p_sched := s\<rparr>"
    by (auto simp: R_cmd_msgrecv kernel_routines_def Let_def map_sum_eq_Inr)
  have "sched_inv s" if "sound_machine (env p)" "sched_inv (p_sched p)"
    using msgrecv_inv [OF s(1) that(2)] that(1) by (simp add: sound_machine_def)
  then show ?thesis by (simp add: good_step_def s(2))
next
  case R_cmd_lifecycle_reset
  from assms(1) obtain o2 l s c where
    s: "cmd_lifecycle_reset (exit_at (env p)) (fresh_task (env p)) (auditor_at (env p)) (worker_at (env p)) (p_life p, p_sched p, p_oom p) =
      Inr (o2, (l, s, c))" "p' = p\<lparr>p_life := l, p_sched := s, p_oom := c\<rparr>"
    by (auto simp: R_cmd_lifecycle_reset kernel_routines_def Let_def split: sum.splits prod.splits)
  have "sched_inv s" if "sched_inv (p_sched p)" by (rule lifecycle_reset_inv [OF s(1) that])
  then show ?thesis by (simp add: good_step_def s(2))
next
  case R_shellfs
  from assms(1) obtain v dev l where
    s: "shellfs (beyond_table (env p)) (p_lines p) (p_fs p, p_dev p) = Inr (out, (v, dev), Some l)"
      "p' = p\<lparr>p_fs := v, p_dev := dev, p_lines := l\<rparr>"
    by (auto simp: R_shellfs kernel_routines_def Let_def split: sum.splits prod.splits)
  then show ?thesis using shellfs_keeps [OF s(1)] by (simp add: good_step_def s(2))
next
  case R_notepad
  from assms(1) obtain n v l where
    s: "run_notepad (p_lines p) (notes_mem (env p)) (p_fs p) = Inr (out, (n, v))" "notepad_rest (p_lines p) = Some l"
      "p' = p\<lparr>p_fs := v, p_lines := l\<rparr>"
    by (auto simp: R_notepad kernel_routines_def Let_def split: sum.splits prod.splits)
  then show ?thesis using run_notepad_keeps [OF s(1)] notepad_rest_lines [OF s(2)] by (simp add: good_step_def)
qed (use assms(1) in \<open>simp_all add: kernel_routines_def Let_def\<close>)


lemma uses_lines_routines: "uses_lines (kernel_routines env r args)"
  using kernel_routines_good by (fastforce simp: uses_lines_def good_step_def)

lemma uses_lines_hardware: "f \<in> set (kernel_hardware m) \<Longrightarrow> uses_lines f"
  by (auto simp: kernel_hardware_def uses_lines_def show_text_def map_sum_eq_Inr split: sum.splits option.splits prod.splits)

lemma kill_inv:
  assumes "cmd_kill arg s = Inr (out, s')" "sched_inv s"
  shows "sched_inv s'"
proof (cases "get arg 0 = Inr NUL")
  case True
  then show ?thesis using assms by (simp add: cmd_kill_def)
next
  case False
  with assms(1) obtain c where c: "get arg 0 = Inr c" "c \<noteq> NUL" by (cases "get arg 0") (auto simp: cmd_kill_def)
  with assms(1) obtain t where "parse_integer arg = Inr t" by (cases "parse_integer arg") (simp_all add: cmd_kill_def)
  with assms(1) c have "s' = snd (scheduler_terminate_process t s)" by (simp add: cmd_kill_def Let_def split: prod.splits)
  then show ?thesis using terminate_inv [OF assms(2)] by simp
qed

lemma on_component:
  "on_fs f p = Inr (out, p') \<longleftrightarrow> (\<exists>v. f (p_fs p) = Inr (out, v) \<and> p' = p\<lparr>p_fs := v\<rparr>)"
  "on_sched g p = Inr (out, p') \<longleftrightarrow> (\<exists>s. g (p_sched p) = Inr (out, s) \<and> p' = p\<lparr>p_sched := s\<rparr>)"
  "on_net h p = Inr (out, p') \<longleftrightarrow> (\<exists>n. h (p_net p) = Inr (out, n) \<and> p' = p\<lparr>p_net := n\<rparr>)"
  by (auto simp: on_fs_def on_sched_def on_net_def map_sum_eq_Inr)

text \<open>With an environment that keeps the process table, the routines keep both invariants.\<close>

lemma prompt_invariant:
  assumes "\<And>p. sound_machine (env p)"
  shows "parts_invariant parts_ok (kernel_routines env)"
proof unfold_locales
  fix r args
  show "keeps_parts parts_ok (kernel_routines env r args)"
    using kernel_routines_good [of env r args] assms by (fastforce simp: keeps_parts_def parts_ok_def good_step_def)
next
  fix line
  show "keeps_parts parts_ok (\<lambda>p. Some (on_fs (mkdir line) p))" "keeps_parts parts_ok (\<lambda>p. Some (on_fs (cd line) p))"
    "keeps_parts parts_ok (\<lambda>p. Some (on_fs init_fs p))"
    by (auto simp: keeps_parts_def parts_ok_def on_component dest: fs_keeps)
next
  fix args
  show "keeps_parts parts_ok (\<lambda>p. Some (on_sched (cmd_kill args) p))" "keeps_parts parts_ok (\<lambda>p. Some (on_sched (cmd_msgsend args) p))"
    by (auto simp: keeps_parts_def parts_ok_def on_component dest: kill_inv msgsend_inv)
next
  fix f
  show "keeps_parts parts_ok (\<lambda>p. Some (on_net f p))" by (auto simp: keeps_parts_def parts_ok_def on_component)
next
  show "keeps_parts parts_ok (\<lambda>p. Some (oom_check p))"
    by (auto simp: keeps_parts_def parts_ok_def oom_check_def split: sum.splits)
qed (simp add: parts_ok_def)


text \<open>The file tree alone needs no assumption on the environment.\<close>

lemma files_invariant: "parts_invariant (\<lambda>p. vfs_inv (p_fs p)) (kernel_routines env)"
proof unfold_locales
  fix r args
  show "keeps_parts (\<lambda>p. vfs_inv (p_fs p)) (kernel_routines env r args)"
    using kernel_routines_good [of env r args] by (fastforce simp: keeps_parts_def good_step_def)
next
  fix line
  show "keeps_parts (\<lambda>p. vfs_inv (p_fs p)) (\<lambda>p. Some (on_fs (mkdir line) p))"
    "keeps_parts (\<lambda>p. vfs_inv (p_fs p)) (\<lambda>p. Some (on_fs (cd line) p))"
    "keeps_parts (\<lambda>p. vfs_inv (p_fs p)) (\<lambda>p. Some (on_fs init_fs p))"
    by (auto simp: keeps_parts_def on_component dest: fs_keeps)
qed (auto simp: keeps_parts_def on_component oom_check_def split: sum.splits)

interpretation files: parts_invariant "\<lambda>p. vfs_inv (p_fs p)" "kernel_routines env" for env
  by (rule files_invariant)


section \<open>The start-up\<close>

lemma then_all_append: "then_all (fs @ gs) k = bindP (then_all fs k) (then_all gs)"
  by (induction fs arbitrary: k) (auto simp: bindP_def split: option.splits sum.splits)

lemma then_all_keeps:
  "(\<And>f k. f \<in> set fs \<Longrightarrow> J k \<Longrightarrow> after (f k) J) \<Longrightarrow> J k \<Longrightarrow> after (then_all fs k) J"
proof (induction fs arbitrary: k)
  case (Cons f fs)
  have "after (f k) J" by (rule Cons.prems) (use Cons.prems in auto)
  then have "after (f k) (\<lambda>k. after (then_all fs k) J)"
    by (rule after_mono) (rule Cons.IH, use Cons.prems in auto)
  then show ?case by (simp add: after_bind)
qed simp

definition about_parts :: "(vfs \<Rightarrow> scheduler_state \<Rightarrow> bool) \<Rightarrow> system \<Rightarrow> bool" where
  "about_parts R k \<longleftrightarrow> R (p_fs (sys_parts k)) (p_sched (sys_parts k))"

lemmas about_all = then_all_keeps [where J = "about_parts R" for R]

lemma about_hardware: "f \<in> set (kernel_hardware m) \<Longrightarrow> about_parts R k \<Longrightarrow> after (hw f k) (about_parts R)"
  by (auto simp: kernel_hardware_def hw_def on_parts_def about_parts_def after_def emit_def show_text_def map_sum_eq_Inr
      split: sum.splits option.splits prod.splits)

lemma about_emit: "about_parts R k \<Longrightarrow> about_parts R (emit out k)"
  by (simp add: about_parts_def emit_def)

lemma about_ram: "about_parts R k \<Longrightarrow> after (WX_Vm.ram k) (about_parts R)"
  by (auto simp: WX_Vm.ram_def after_def about_parts_def emit_def files.map_sum_Inr_iff split: option.splits sum.splits prod.splits)

lemma about_on_parts:
  "(\<And>out p'. f (sys_parts k) = Inr (out, p') \<Longrightarrow> R (p_fs p') (p_sched p')) \<Longrightarrow> after (on_parts f k) (about_parts R)"
  by (auto simp: on_parts_def about_parts_def after_def emit_def split: sum.splits)

lemma startup_sound:
  assumes "length (storage (p_fs (sys_parts k0))) = 128" "\<forall>n \<in> set (storage (p_fs (sys_parts k0))). length (node_name n) = 32"
    "length (process_table (p_sched (sys_parts k0))) = 1024"
    "sys_execute_startup_routines (kernel_hardware m) ta raw k0 = Some (Inr k)"
  shows "parts_ok (sys_parts k)"
proof -
  define A where "A = (\<lambda>(v :: vfs) (s :: scheduler_state). length (storage v) = 128 \<and> (\<forall>n \<in> set (storage v). length (node_name n) = 32) \<and>
    length (process_table s) = 1024)"
  define B where "B = (\<lambda>(v :: vfs) (s :: scheduler_state). vfs_inv v \<and> length (process_table s) = 1024)"
  define C where "C = (\<lambda>(v :: vfs) (s :: scheduler_state). vfs_inv v \<and> sched_inv s)"
  let ?h = "\<lambda>i. hw (kernel_hardware m ! i)"
  let ?init = "on_parts (on_fs init_fs)"
  let ?sched = "on_parts (\<lambda>p. Inr ([], p\<lparr>p_sched := scheduler_initialize (p_sched p)\<rparr>))"
  let ?one = "[\<lambda>k. Some (sys_env_bootstrap k), \<lambda>k. Some (Inr (emit [Cls] k)), ?h 0, ?h 1]"
  let ?two = "[?h 2, WX_Vm.ram, ?h 3, ?h 4, ?h 5, \<lambda>k. Some (Inr (emit [Cls] k)), ?h 6]"
  let ?three = "[on_parts (\<lambda>p. case new_task ta raw (p_oom p) of
                         Inl (f, c) \<Rightarrow> Inl f | Inr (u, c) \<Rightarrow> Inr ([], p\<lparr>p_oom := c\<rparr>)),
        \<lambda>k. Some (Inr (emit logo k))]"
  have h: "after (hw (kernel_hardware m ! i) k) (about_parts R)" if "i < 7" "about_parts R k" for i k R
    by (rule about_hardware [OF nth_mem that(2)]) (use that(1) in \<open>simp add: kernel_hardware_def\<close>)
  have boot: "after (Some (sys_env_bootstrap k)) (about_parts R)" if "about_parts R k" for R k
    using that by (auto simp: after_some sys_env_bootstrap_def Let_def about_parts_def dest!: k_log_keeps)
  have task: "after (on_parts (\<lambda>p. case new_task ta raw (p_oom p) of
                         Inl (f, c) \<Rightarrow> Inl f | Inr (u, c) \<Rightarrow> Inr ([], p\<lparr>p_oom := c\<rparr>)) k) (about_parts R)"
    if "about_parts R k" for R k
    by (rule about_on_parts) (use that in \<open>auto simp: about_parts_def split: sum.splits\<close>)
  have k0: "about_parts A k0" using assms(1-3) by (simp add: about_parts_def A_def)
  have one: "after (then_all ?one k0) (about_parts A)"
    by (rule about_all [OF _ k0])
      (simp only: set_simps insert_iff empty_iff, elim disjE; simp add: boot about_emit h)
  have init: "after (?init k) (about_parts B)" if "about_parts A k" for k
    by (rule about_on_parts) (use that init_fs_inv [of "p_fs (sys_parts k)"] in \<open>auto simp: about_parts_def A_def B_def on_component\<close>)
  have two: "after (then_all ?two k) (about_parts B)" if "about_parts B k" for k
    by (rule about_all [OF _ that])
      (simp only: set_simps insert_iff empty_iff, elim disjE; simp add: about_emit about_ram h)
  have sched: "after (?sched k) (about_parts C)" if "about_parts B k" for k
    by (rule about_on_parts) (use that initialize_inv in \<open>auto simp: about_parts_def B_def C_def\<close>)
  have three: "after (then_all ?three k) (about_parts C)" if "about_parts C k" for k
    by (rule about_all [OF _ that])
      (simp only: set_simps insert_iff empty_iff, elim disjE; simp add: about_emit task)
  have all: "then_all (?one @ [?init] @ ?two @ [?sched] @ ?three) k0 = Some (Inr k)"
    using assms(4) by (simp add: sys_execute_startup_routines_def)
  have single: "after (then_all [f] k) P" if "after (f k) P" for f P and k :: system
    using that by (simp add: after_bind after_mono)
  have "after (then_all (?one @ [?init] @ ?two @ [?sched] @ ?three) k0) (about_parts C)"
    unfolding then_all_append
    by (intro after_bind, rule after_mono [OF one], intro after_bind, rule after_mono [OF single [OF init]], assumption,
        intro after_bind, rule after_mono [OF two], assumption, intro after_bind, rule after_mono [OF single [OF sched]], assumption,
        rule three)
  then show ?thesis unfolding all by (simp add: about_parts_def C_def parts_ok_def)
qed


text \<open>A machine that starts: the scan codes of the credentials, and then of one line.\<close>

definition login_codes :: "u8 list" where
  "login_codes = concat (map press ''nousr'') @ 0x1C # concat (map press ''root'') @ [0x1C]"

definition starting :: "u8 list \<Rightarrow> machine \<Rightarrow> machine" where
  "starting codes m = m\<lparr>
     gdt_mem := replicate 3 \<lparr>limit_low = 0, base_low = 0, base_middle = 0, gdt_access = 0, granularity = 0, base_high = 0\<rparr>,
     idt_mem := replicate 256 \<lparr>base_lo = 0, sel = 0, always0 = 0, flags = 0, base_hi = 0\<rparr>,
     user_buf := replicate 64 NUL, pass_buf := replicate 64 NUL, boot_codes := login_codes @ codes, boot_kbd := line_state [],
     world := (\<lambda>s. s), recv_buf := replicate 128 NUL\<rparr>"

lemma starting_logs_in:
  "\<exists>out k. login (user_buf (starting codes m)) (pass_buf (starting codes m)) (boot_codes (starting codes m)) (boot_kbd (starting codes m)) =
     Inr (Some ((), out, k, codes)) \<and> no_modifier k"
proof -
  let ?b = "replicate 64 NUL" and ?p = "concat (map press ''root'') @ 0x1C # codes"
  let ?codes = "concat (map press ''nousr'') @ 0x1C # ?p"
  have t: "\<forall>c \<in> set ''nousr''. typeable c" "\<forall>c \<in> set ''root''. typeable c" by (simp_all add: typeable_def kbd_us_def)
  have n: "no_modifier (line_state [])" "no_modifier (line_state ''nousr''\<lparr>input_complete := True\<rparr>)"
    "no_modifier (line_state ''root''\<lparr>input_complete := True\<rparr>)"
    by (simp_all add: no_modifier_def)
  have u: "scan ?b ?codes (line_state []) =
      Inr (Some (''nousr'' @ NUL # replicate 58 NUL, map Putchar ''nousr'' @ [Putchar newline], line_state ''nousr''\<lparr>input_complete := True\<rparr>, ?p))"
    unfolding scan_def using read_typed [OF keyboard_types t(1) _ n(1), of ?b ?p] by simp
  have w: "scan_password ?b ?p (line_state ''nousr''\<lparr>input_complete := True\<rparr>) =
      Inr (Some (''root'' @ NUL # replicate 59 NUL, map (\<lambda>_. Putchar (CHR ''*'')) ''root'' @ [Putchar newline],
        line_state ''root''\<lparr>input_complete := True\<rparr>, codes))"
    unfolding scan_password_def using read_typed [OF password_types t(2) _ n(2), of ?b codes] by simp
  have c: "credentials_ok (''nousr'' @ NUL # replicate 58 NUL) (''root'' @ NUL # replicate 59 NUL) = Inr True"
    by (subst credentials_ok_eq) (simp_all add: right_credentials_def)
  have codes: "boot_codes (starting codes m) = ?codes" by (simp add: starting_def login_codes_def)
  have "\<exists>out. login ?b ?b ?codes (line_state []) = Inr (Some ((), out, line_state ''root''\<lparr>input_complete := True\<rparr>, codes))"
    unfolding login_def numeral_3_eq_3 login_loop.simps read_credentials_def
    by (simp add: u [simplified] w [simplified] c [simplified] then_read_def with_output_def)
  with n(3) have "\<exists>out k. login ?b ?b (boot_codes (starting codes m)) (line_state []) = Inr (Some ((), out, k, codes)) \<and> no_modifier k"
    unfolding codes by blast
  then show ?thesis by (simp add: starting_def)
qed

lemma cpuid_returns: "\<exists>r. cpuid l0 l1 c f = Inr r"
proof -
  have "\<exists>out. print_cycles c = Inr out" by (simp add: print_cycles_def to_hex_eq)
  then show ?thesis by (auto simp: cpuid_def Let_def split: prod.split)
qed

lemma starting_machine_starts:
  assumes "p_fs (sys_parts k0) = zero_fs" "first_ram k0" "memory_heap k0 = zero_heap"
  shows "\<exists>k. sys_execute_startup_routines (kernel_hardware (starting codes m)) 0 raw k0 = Some (Inr k)"
proof -
  let ?m = "starting codes m"
  have steps: "\<exists>out p'. f p = Some (Inr (out, p')) \<and> p_fs p' = p_fs p" if "f \<in> set (kernel_hardware ?m)" for f p
  proof -
    have g: "\<exists>r. init_gdt (gdt_at ?m) (gdt_mem ?m) = Inr r"
      using init_gdt_flat by (simp add: starting_def numeral_3_eq_3) blast
    have i: "\<exists>r. init_idt (idt_at ?m) (idt_mem ?m) = Inr r"
      using init_idt_absent [of "idt_mem ?m" "idt_at ?m"] by (auto simp: starting_def)
    have c: "\<exists>r. processor_text ?m = Inr r"
      using cpuid_returns by (simp add: processor_text_def) (metis map_sum.simps(2))
    from g i c starting_logs_in [of codes m] that show ?thesis
      by (auto simp: kernel_hardware_def show_text_def split: prod.split)
  qed
  have hw: "\<exists>k2. hw (kernel_hardware ?m ! i) k1 = Some (Inr k2) \<and> p_fs (sys_parts k2) = p_fs (sys_parts k1) \<and>
      memory_heap k2 = memory_heap k1 \<and> first_ram k2 = first_ram k1" if "i < 7" for i k1
  proof -
    have "kernel_hardware ?m ! i \<in> set (kernel_hardware ?m)"
      by (rule nth_mem) (use that in \<open>simp add: kernel_hardware_def\<close>)
    from steps [OF this, of "sys_parts k1"] show ?thesis by (auto simp: hw_def on_parts_def emit_def)
  qed
  obtain k1 where k1: "sys_env_bootstrap k0 = Inr k1" using bootstrap_step [of k0] by blast
  have keep: "sys_parts k1 = sys_parts k0" "memory_heap k1 = memory_heap k0" "first_ram k1 = first_ram k0"
    using k1 by (auto simp: sys_env_bootstrap_def Let_def dest!: k_log_keeps)
  obtain out v where v: "init_fs zero_fs = Inr (out, v)" using zero_fs_starts by blast
  have "\<exists>out f h. ram_cmd True zero_heap = Some (Inr (out, f, h))"
  proof -
    have "free_walk zero_heap 0 HEAP_SIZE = Some (Inr HEAP_SIZE)"
      by (subst free_walk.simps) (simp add: HEAP_SIZE_def read_header_def zero_heap_def read32_in)
    then show ?thesis by (simp add: ram_cmd_def Let_def get_free_ram_def zero_heap_def) blast
  qed
  then obtain out' f h where r': "ram_cmd True zero_heap = Some (Inr (out', f, h))" by blast
  obtain a0 where a0: "hw (kernel_hardware ?m ! 0) (emit [Cls] k1) = Some (Inr a0)" "p_fs (sys_parts a0) = zero_fs"
    "memory_heap a0 = zero_heap" "first_ram a0"
    using hw [of 0 "emit [Cls] k1"] keep assms by (auto simp: emit_def)
  obtain a1 where a1: "hw (kernel_hardware ?m ! 1) a0 = Some (Inr a1)" "p_fs (sys_parts a1) = zero_fs"
    "memory_heap a1 = zero_heap" "first_ram a1"
    using hw [of 1 a0] a0 by auto
  obtain b where b: "on_parts (on_fs init_fs) a1 = Some (Inr b)" "memory_heap b = zero_heap" "first_ram b"
    using a1 v by (simp add: on_parts_def on_fs_def emit_def)
  obtain a2 where a2: "hw (kernel_hardware ?m ! 2) b = Some (Inr a2)" "memory_heap a2 = zero_heap" "first_ram a2"
    using hw [of 2 b] b by auto
  obtain a3 where a3: "WX_Vm.ram a2 = Some (Inr a3)" using a2 r' by (simp add: WX_Vm.ram_def)
  obtain a4 where a4: "hw (kernel_hardware ?m ! 3) a3 = Some (Inr a4)" using hw [of 3 a3] by auto
  obtain a5 where a5: "hw (kernel_hardware ?m ! 4) a4 = Some (Inr a5)" using hw [of 4 a4] by auto
  obtain a6 where a6: "hw (kernel_hardware ?m ! 5) a5 = Some (Inr a6)" using hw [of 5 a5] by auto
  obtain a7 where a7: "hw (kernel_hardware ?m ! 6) (emit [Cls] a6) = Some (Inr a7)" using hw [of 6 "emit [Cls] a6"] by auto
  show ?thesis
    by (simp add: sys_execute_startup_routines_def k1 a0(1) a1(1) [unfolded One_nat_def] b(1) a2(1) a3 a4 a5 a6 a7)
      (simp add: on_parts_def new_task_def)
qed

text \<open>
  C10: on a machine whose other processes keep the process table and whose receive buffer is the 128 bytes of
  the code, from the memory the loader leaves to every state in which the prompt waits: the file tree and the
  process table satisfy their invariants, whatever is typed and whatever the devices answer.
\<close>
theorem prompt_states_are_sound:
  assumes "session (kernel_hardware m) ta raw esp (kernel_routines env) k0 k" "\<forall>p. sound_machine (env p)"
    "length (storage (p_fs (sys_parts k0))) = 128" "\<forall>n \<in> set (storage (p_fs (sys_parts k0))). length (node_name n) = 32"
    "length (process_table (p_sched (sys_parts k0))) = 1024"
  shows "vfs_inv (p_fs (sys_parts k)) \<and> sched_inv (p_sched (sys_parts k))"
proof -
  have "parts_invariant parts_ok (kernel_routines env)" using assms(2) by (intro prompt_invariant) simp
  from parts_invariant.session_invariant [OF this assms(1) startup_sound [OF assms(3-5)]]
  show ?thesis by (simp add: parts_ok_def)
qed

theorem prompt_states_are_sound_witness:
  "\<forall>m p raw. \<exists>k. session (kernel_hardware (starting [] m)) 0 raw 0x100000 (kernel_routines (\<lambda>_. starting [] m))
     (power_on (p\<lparr>p_sched := empty_sched\<rparr>)) k \<and> vfs_inv (p_fs (sys_parts k)) \<and> sched_inv (p_sched (sys_parts k))"
proof (intro allI)
  fix m p raw
  let ?k0 = "power_on (p\<lparr>p_sched := empty_sched\<rparr>)" and ?m = "starting [] m"
  have k0: "p_fs (sys_parts ?k0) = zero_fs" "first_ram ?k0" "memory_heap ?k0 = zero_heap" "p_sched (sys_parts ?k0) = empty_sched"
    by (simp_all add: power_on_def kernel.defs heap_kernel.defs system.defs)
  obtain k where "sys_execute_startup_routines (kernel_hardware ?m) 0 raw ?k0 = Some (Inr k)"
    using starting_machine_starts [OF k0(1-3)] by blast
  then have s: "session (kernel_hardware ?m) 0 raw 0x100000 (kernel_routines (\<lambda>_. ?m)) ?k0 k" by (rule session.started)
  have "vfs_inv (p_fs (sys_parts k)) \<and> sched_inv (p_sched (sys_parts k))"
    by (rule prompt_states_are_sound [OF s], unfold k0)
      (simp_all add: sound_machine_def starting_def zero_fs_def empty_sched_def)
  with s show "\<exists>k. session (kernel_hardware ?m) 0 raw 0x100000 (kernel_routines (\<lambda>_. ?m)) ?k0 k \<and>
      vfs_inv (p_fs (sys_parts k)) \<and> sched_inv (p_sched (sys_parts k))" by blast
qed

text \<open>
  C7: as long as no line that the line editor makes of the scan codes read after the login is the password, up
  to its first character that sanitizing refuses, every state in which the prompt waits runs without root and under isolation.
\<close>
theorem no_root_unless_root_is_typed:
  assumes "session (kernel_hardware m) ta raw esp (kernel_routines env) k0 k"
    "login (user_buf m) (pass_buf m) (boot_codes m) (boot_kbd m) = Inr (Some ((), out, kbd, codes))"
    "p_lines (sys_parts k0) = scanned_lines codes kbd"
    "\<forall>l \<in> set (edited_lines (shift_pressed kbd, caps_lock kbd, is_extended kbd) codes). takeWhile (\<lambda>c. \<not> bad_char c) l \<noteq> ''root''"
  shows "env_ok k \<and> system_state (g_env k) = 1 \<and> priv_of k = (False, True)"
proof (rule session_unprivileged [OF assms(1)])
  show "\<forall>f \<in> set (kernel_hardware m). uses_lines f" using uses_lines_hardware by blast
  show "7 \<le> length (kernel_hardware m)" by (simp add: kernel_hardware_def)
  show "\<forall>r args. uses_lines (kernel_routines env r args)" using uses_lines_routines by blast
  show "\<forall>line \<in> lines_of k0. typed line \<and> sanitized line \<noteq> ''root''"
  proof
    fix line assume "line \<in> lines_of k0"
    then have l: "line \<in> set (scanned_lines codes kbd)" by (simp add: lines_of_def assms(3))
    with assms(4) scanned_lines_typed [OF l] show "typed line \<and> sanitized line \<noteq> ''root''"
      by (auto simp: sanitized_def)
  qed
qed

lemma help_typed:
  assumes "no_modifier k"
  shows "edited_lines (shift_pressed k, caps_lock k, is_extended k) (concat (map press ''help'') @ [0x1C]) = [''help'']"
proof -
  let ?codes = "concat (map press ''help'') @ [0x1C]"
  have t: "\<forall>c \<in> set ''help''. typeable c" by (simp add: typeable_def kbd_us_def)
  have s: "\<exists>out k'. scan (replicate 256 NUL) ?codes k = Inr (Some (''help'' @ NUL # replicate 251 NUL, out, k', []))"
    unfolding scan_def using read_typed [OF keyboard_types t _ assms, of "replicate 256 NUL" "[]"] by simp
  have none: "scanned_lines [] k' = []" for k'
    using scanned_lines_eq [of "[]" k'] by (simp add: edited_lines.simps)
  from s have "scanned_lines ?codes k = [''help'' @ NUL # replicate 251 NUL]"
    by (subst scanned_lines.simps) (auto simp: none simp del: replicate.simps)
  with scanned_lines_eq [of ?codes k] obtain l where
    l: "edited_lines (shift_pressed k, caps_lock k, is_extended k) ?codes = [l]" "nul_free l"
      "l @ NUL # replicate (255 - length l) NUL = ''help'' @ NUL # replicate 251 NUL"
    by (auto simp del: replicate.simps append_Cons)
  have "cstr (l @ NUL # replicate (255 - length l) NUL) = l" "cstr (''help'' @ NUL # replicate 251 NUL) = ''help''"
    using l(2) by simp_all
  with l(3) have "l = ''help''" by (metis)
  with l(1) show ?thesis by (simp only:)
qed

theorem no_root_unless_root_is_typed_witness:
  "\<forall>m p raw. \<exists>k0 k. session (kernel_hardware (starting (concat (map press ''help'') @ [0x1C]) m)) 0 raw 0x100000
     (kernel_routines (\<lambda>_. m)) k0 k \<and> p_lines (sys_parts k0) = [''help'' @ NUL # replicate 251 NUL] \<and> priv_of k = (False, True)"
proof (intro allI)
  fix m p raw
  let ?codes = "concat (map press ''help'') @ [0x1C]"
  let ?m = "starting ?codes m" and ?k = "power_on p"
  obtain out kbd where l: "login (user_buf ?m) (pass_buf ?m) (boot_codes ?m) (boot_kbd ?m) = Inr (Some ((), out, kbd, ?codes))"
    "no_modifier kbd"
    using starting_logs_in by blast
  let ?k0 = "?k\<lparr>sys_parts := (sys_parts ?k)\<lparr>p_lines := scanned_lines ?codes kbd\<rparr>\<rparr>"
  have k0: "p_fs (sys_parts ?k0) = zero_fs" "first_ram ?k0" "memory_heap ?k0 = zero_heap"
    by (simp_all add: power_on_def kernel.defs heap_kernel.defs system.defs)
  obtain k where "sys_execute_startup_routines (kernel_hardware ?m) 0 raw ?k0 = Some (Inr k)"
    using starting_machine_starts [OF k0] by blast
  then have s: "session (kernel_hardware ?m) 0 raw 0x100000 (kernel_routines (\<lambda>_. m)) ?k0 k" by (rule session.started)
  have "env_ok k \<and> system_state (g_env k) = 1 \<and> priv_of k = (False, True)"
  proof (rule no_root_unless_root_is_typed [OF s l(1)])
    show "\<forall>l \<in> set (edited_lines (shift_pressed kbd, caps_lock kbd, is_extended kbd) ?codes). takeWhile (\<lambda>c. \<not> bad_char c) l \<noteq> ''root''"
      unfolding help_typed [OF l(2)] by (simp add: bad_char_def)
  qed simp
  moreover have "p_lines (sys_parts ?k0) = [''help'' @ NUL # replicate 251 NUL]"
    using scanned_lines_eq [of ?codes kbd] unfolding help_typed [OF l(2)] by (simp del: replicate.simps)
  ultimately show "\<exists>k0 k. session (kernel_hardware ?m) 0 raw 0x100000 (kernel_routines (\<lambda>_. m)) k0 k \<and>
      p_lines (sys_parts k0) = [''help'' @ NUL # replicate 251 NUL] \<and> priv_of k = (False, True)" using s by blast
qed

end
