(* ===== verification/WX_Dialogue.thy ===== *)
theory WX_Dialogue
  imports WX_System
begin

text \<open>
  A dialogue at the prompt, from the keys to the screen: keys become lines, lines select routines, and the
  routines change the file tree and print.
\<close>

section \<open>Typed lines\<close>

text \<open>The scan codes of some lines, each ended by enter.\<close>

definition typed_lines :: "string list \<Rightarrow> u8 list" where
  "typed_lines xs = concat (map (\<lambda>l. concat (map press l) @ [0x1C]) xs)"

definition line_buffer :: "string \<Rightarrow> char list" where
  "line_buffer l = l @ NUL # replicate (255 - length l) NUL"

lemma scanned_typed_lines:
  "\<forall>l \<in> set xs. (\<forall>c \<in> set l. typeable c) \<and> length l \<le> 254 \<Longrightarrow> no_modifier k \<Longrightarrow>
   scanned_lines (typed_lines xs) k = map line_buffer xs"
proof (induction xs arbitrary: k)
  case Nil
  then show ?case using scanned_lines_eq [of "[]" k] by (simp add: typed_lines_def edited_lines.simps)
next
  case (Cons l xs)
  have l: "\<forall>c \<in> set l. typeable c" "length l \<le> 254" using Cons.prems by auto
  let ?k = "line_state l\<lparr>input_complete := True\<rparr>"
  have k: "no_modifier ?k" by (simp add: no_modifier_def line_state_def)
  have d: "drop (Suc (length l)) (replicate 256 NUL) = replicate (255 - length l) NUL" by simp
  have "scan (replicate 256 NUL) (typed_lines (l # xs)) k =
      Inr (Some (line_buffer l, map Putchar l @ [Putchar newline], ?k, typed_lines xs))"
    unfolding scan_def using read_typed [OF keyboard_types l Cons.prems(2), of "replicate 256 NUL" "typed_lines xs"] l(2) d
    by (simp add: typed_lines_def line_buffer_def del: replicate.simps drop_replicate)
  moreover have "scanned_lines (typed_lines xs) ?k = map line_buffer xs" using Cons k by auto
  ultimately show ?case by (subst scanned_lines.simps) simp
qed

lemma line_buffer_simps:
  assumes "\<forall>c \<in> set l. typeable c" "length l \<le> 254"
  shows "typed (line_buffer l)" "cstr (line_buffer l) = l"
  using assms typeable_nul_free [OF assms(1)] by (simp_all add: typed_def line_buffer_def)

section \<open>A round for a command without arguments\<close>

lemma find_entry: "entry_of w = Some e \<Longrightarrow> e \<in> set g_dispatch_table \<and> signature e = w"
  by (auto simp: entry_of_def find_Some_iff)

definition prompt_text :: "system \<Rightarrow> con" where
  "prompt_text k = Print (newline # (if is_root (g_env k) = 1 then ''root@whitex~$ '' else ''whitex~$ ''))"

lemma plain_round:
  assumes "env_ok k" "0x10000 \<le> esp" "g_tick_counter k < 2999" "p_lines (sys_parts k) = line # later" "typed line"
    "sanitized line = w" "w \<noteq> []" "space \<notin> set w" "length w < 64" "entry_of w = Some (plain_entry w r)"
  obtains k2 where "kernel_round esp others k = run_routine others r (in_buffer 190 []) k2" "env_ok k2"
    "sys_parts k2 = (sys_parts k)\<lparr>p_lines := later\<rparr>" "g_tick_counter k2 = g_tick_counter k + 1"
    "console k2 = console k @ [prompt_text k]" "is_root (g_env k2) = is_root (g_env k)"
proof -
  let ?k1 = "k\<lparr>g_tick_counter := g_tick_counter k + 1\<rparr>"
  let ?k2 = "(prompt ?k1)\<lparr>sys_parts := (sys_parts k)\<lparr>p_lines := later\<rparr>\<rparr>"
  have t: "g_tick_counter k + 1 < SYS_TICK_MAX" using assms(3) by (simp add: SYS_TICK_MAX_def word_less_nat_alt unat_word_ariths)
  have tick: "tick esp k = Some (Inr ?k1)"
    using assms(2) t by (simp add: tick_def Let_def watch_stack_def flip: not_less)
  obtain b where b: "read_line line = Inr b" "terminated b" "length b = 256" "cstr b = w"
    using read_line_eq [OF assms(5)] assms(6) by metis
  obtain c where c: "get b 0 = Inr c" "c \<noteq> NUL"
    using b(2,4) assms(7) by (cases b) (auto split: if_splits)
  have ok: "env_ok ?k2" using assms(1) by (simp add: prompt_def env_ok_def emit_def)
  have p: "sys_parse_input others b ?k2 = dispatch others (in_buffer 64 w) (in_buffer 190 []) (plain_entry w r) ?k2"
    using command_line [OF ok b(2), of w 0 "[]"] assms(7-10) b(4) by (simp add: entry_of_def)
  have nf: "nul_free w" using b(4) by (metis nul_free_cstr)
  have "loggable (in_buffer 64 w)"
    using in_buffer_cstr [OF nf assms(9)] assms(9) by (simp add: loggable_def)
  moreover have "env_ok (count_cycle ?k2)" using ok by (simp add: count_cycle_def set_env_def env_ok_def)
  ultimately obtain l where l: "k_log 0 (in_buffer 64 w) (count_cycle ?k2) = Inr (count_cycle ?k2\<lparr>g_sys_log := l\<rparr>)"
    "env_ok (count_cycle ?k2\<lparr>g_sys_log := l\<rparr>)"
    using k_log_ok by metis
  have r: "kernel_round esp others k = run_routine others r (in_buffer 190 []) (count_cycle ?k2\<lparr>g_sys_log := l\<rparr>)"
    using assms(4) b(1) c p l(1)
    by (simp add: kernel_round_def tick with_line_def prompt_def emit_def k_lift_def dispatch_def plain_entry_def)
  show thesis
    by (rule that [OF r l(2)]) (simp_all add: prompt_def emit_def count_cycle_def set_env_def prompt_text_def)
qed

section \<open>Making a directory, entering it and showing it\<close>

lemma words_at_prompt:
  "entry_of ''mkdir'' = Some (plain_entry ''mkdir'' R_mkdir)" "entry_of ''cd'' = Some (plain_entry ''cd'' R_cd)"
  "entry_of ''pwd'' = Some (plain_entry ''pwd'' R_pwd)"
  by (simp_all add: entry_of_def g_dispatch_table_def plain_entry_def args_entry_def)

lemma typeable_words: "\<forall>w \<in> {''mkdir'', ''cd'', ''pwd''}. \<forall>c \<in> set w. typeable c"
  by (simp add: typeable_def kbd_us_def)

lemma sanitized_word:
  assumes "w \<in> {''mkdir'', ''cd'', ''pwd''}"
  shows "typed (line_buffer w)" "sanitized (line_buffer w) = w"
proof -
  have t: "\<forall>c \<in> set w. typeable c" "length w \<le> 254" using assms typeable_words by (blast, auto)
  show "typed (line_buffer w)" by (rule line_buffer_simps [OF t])
  show "sanitized (line_buffer w) = w" unfolding sanitized_def line_buffer_simps(2) [OF t]
    using assms by (auto simp: bad_char_def)
qed

text \<open>A round for a command that reads a name and changes the file tree.\<close>

lemma named_round:
  assumes k: "env_ok k" "0x10000 \<le> esp" "g_tick_counter k < 2999"
    and word: "(w, r, f) \<in> {(''mkdir'', R_mkdir, mkdir), (''cd'', R_cd, cd)}"
    and lines: "p_lines (sys_parts k) = line_buffer w # nm # later"
    and f: "f nm (p_fs (sys_parts k)) = Inr (out, v)"
  obtains k' where "kernel_round esp others k = Some (Inr k')" "env_ok k'" "g_tick_counter k' = g_tick_counter k + 1"
    "prompt_text k' = prompt_text k" "console k' = console k @ prompt_text k # out"
    "sys_parts k' = (sys_parts k)\<lparr>p_lines := later, p_fs := v\<rparr>"
proof -
  have m: "w \<in> {''mkdir'', ''cd'', ''pwd''}" and w: "w \<noteq> []" "space \<notin> set w" "length w < 64"
    "entry_of w = Some (plain_entry w r)" using word words_at_prompt by auto
  obtain a where
    a: "kernel_round esp others k = run_routine others r (in_buffer 190 []) a" "env_ok a"
      "sys_parts a = (sys_parts k)\<lparr>p_lines := nm # later\<rparr>" "g_tick_counter a = g_tick_counter k + 1"
      "console a = console k @ [prompt_text k]" "is_root (g_env a) = is_root (g_env k)"
    by (rule plain_round [OF k lines sanitized_word [OF m] w, of others])
  let ?k = "emit out (a\<lparr>sys_parts := (sys_parts a)\<lparr>p_lines := later, p_fs := v\<rparr>\<rparr>)"
  have "kernel_round esp others k = Some (Inr ?k)"
    using word f by (auto simp: a(1,3) with_line_def on_parts_def on_fs_def)
  then show thesis
    by (rule that) (use a in \<open>simp_all add: emit_def prompt_text_def env_ok_def\<close>)
qed

lemma pwd_round:
  assumes k: "env_ok k" "0x10000 \<le> esp" "g_tick_counter k < 2999"
    and lines: "p_lines (sys_parts k) = line_buffer ''pwd'' # later" and shown: "pwd (p_fs (sys_parts k)) = Inr out"
  obtains k' where "kernel_round esp others k = Some (Inr k')" "console k' = console k @ prompt_text k # out"
    "sys_parts k' = (sys_parts k)\<lparr>p_lines := later\<rparr>"
proof -
  from plain_round [OF k lines sanitized_word [of "''pwd''"], of R_pwd others] words_at_prompt(3) obtain a where
    a: "kernel_round esp others k = run_routine others R_pwd (in_buffer 190 []) a"
      "sys_parts a = (sys_parts k)\<lparr>p_lines := later\<rparr>" "console a = console k @ [prompt_text k]" by auto
  have "kernel_round esp others k = Some (Inr (emit out (a\<lparr>sys_parts := sys_parts a\<rparr>)))"
    using shown by (simp add: a(1,2) on_parts_def only_text_def)
  then show thesis by (rule that) (simp_all add: a(2,3) emit_def)
qed

definition dialogue_text :: "system \<Rightarrow> string \<Rightarrow> con list" where
  "dialogue_text k name = [prompt_text k, Print ''Name: '', prompt_text k, Print ''To: '', prompt_text k,
     Print ''/'', Print name, Print (WX_Hex.ln [])]"

lemma dialogue:
  assumes ok: "env_ok k" "0x10000 \<le> esp" "g_tick_counter k < 2997"
    and name: "no_modifier kbd" "\<forall>c \<in> set name. typeable c" "length name < 32" "name \<noteq> ''..''"
    and input: "p_lines (sys_parts k) = scanned_lines (typed_lines [''mkdir'', name, ''cd'', name, ''pwd'']) kbd"
    and files: "vfs_inv (p_fs (sys_parts k))" "\<exists>n \<in> set (storage (p_fs (sys_parts k))). \<not> is_used n"
      "\<forall>n \<in> set (storage (p_fs (sys_parts k))). \<not> (is_used n \<and> node_type n = DIR_NODE \<and> cstr (node_name n) = name \<and>
         parent_idx n = current_dir (p_fs (sys_parts k)))"
  obtains k1 k2 k3 i where "kernel_round esp others k = Some (Inr k1)" "kernel_round esp others k1 = Some (Inr k2)"
    "kernel_round esp others k2 = Some (Inr k3)" "console k3 = console k @ dialogue_text k name"
    "p_lines (sys_parts k3) = []" "current_dir (p_fs (sys_parts k3)) = i" "\<not> is_used (storage (p_fs (sys_parts k)) ! i)"
    "cstr (node_name (storage (p_fs (sys_parts k3)) ! i)) = name"
    "parent_idx (storage (p_fs (sys_parts k3)) ! i) = current_dir (p_fs (sys_parts k))"
proof -
  let ?v = "p_fs (sys_parts k)"
  have l254: "\<forall>l \<in> set [''mkdir'', name, ''cd'', name, ''pwd'']. (\<forall>c \<in> set l. typeable c) \<and> length l \<le> 254"
    using name(2,3) typeable_words by simp
  have lines: "p_lines (sys_parts k) = [line_buffer ''mkdir'', line_buffer name, line_buffer ''cd'', line_buffer name, line_buffer ''pwd'']"
    unfolding input scanned_typed_lines [OF l254 name(1)] by simp
  have nm: "fits 32 (line_buffer name)" "cstr (line_buffer name) = name"
    using line_buffer_simps [OF name(2)] name(3) by (simp_all add: fits_def typed_def)
  obtain i where i: "first_ix (\<lambda>n. \<not> is_used n) (storage ?v) = Some i"
    using files(2) by (metis first_ix_None not_Some_eq)
  have "\<forall>n \<in> set (storage ?v). \<not> matches True (current_dir ?v) (cstr (line_buffer name)) n"
    using files(3) by (auto simp: matches_def nm(2))
  from cd_into_new [OF files(1) nm(1) _ i this] name(4) obtain v1 where
    v1: "mkdir (line_buffer name) ?v = Inr ([Print ''Name: ''], v1)" "vfs_inv v1" "i < 128"
      "cd (line_buffer name) v1 = Inr ([Print ''To: ''], v1\<lparr>current_dir := i\<rparr>)" "terminated (node_name (storage v1 ! i))"
      "cstr (node_name (storage v1 ! i)) = name" "parent_idx (storage v1 ! i) = current_dir ?v"
    by (auto simp: nm(2))
  have t: "g_tick_counter k < 2999" "g_tick_counter k + 1 < 2999" "g_tick_counter k + 1 + 1 < 2999"
    using ok(3) by (simp_all add: word_less_nat_alt unat_word_ariths)
  obtain k1 where k1: "kernel_round esp others k = Some (Inr k1)" "env_ok k1" "g_tick_counter k1 = g_tick_counter k + 1"
    "prompt_text k1 = prompt_text k" "console k1 = console k @ [prompt_text k, Print ''Name: '']"
    "sys_parts k1 = (sys_parts k)\<lparr>p_lines := [line_buffer ''cd'', line_buffer name, line_buffer ''pwd''], p_fs := v1\<rparr>"
    by (rule named_round [where r = R_mkdir and f = mkdir and others = others, OF ok(1,2) t(1) _ lines v1(1)]) simp
  have l1: "p_lines (sys_parts k1) = line_buffer ''cd'' # line_buffer name # [line_buffer ''pwd'']"
    "cd (line_buffer name) (p_fs (sys_parts k1)) = Inr ([Print ''To: ''], v1\<lparr>current_dir := i\<rparr>)"
    by (simp_all add: k1(6) v1(4))
  obtain k2 where k2: "kernel_round esp others k1 = Some (Inr k2)" "env_ok k2" "g_tick_counter k2 = g_tick_counter k1 + 1"
    "prompt_text k2 = prompt_text k1" "console k2 = console k1 @ [prompt_text k1, Print ''To: '']"
    "sys_parts k2 = (sys_parts k1)\<lparr>p_lines := [line_buffer ''pwd''], p_fs := v1\<lparr>current_dir := i\<rparr>\<rparr>"
    by (rule named_round [where r = R_cd and f = cd and others = others, OF k1(2) ok(2) t(2) [folded k1(3)] _ l1]) simp
  have l2: "p_lines (sys_parts k2) = line_buffer ''pwd'' # []"
    and shown: "pwd (p_fs (sys_parts k2)) = Inr [Print ''/'', Print name, Print (WX_Hex.ln [])]"
    using vfs_invD(1) [OF v1(2)] v1(3,5,6) by (simp_all add: k2(6) pwd_def)
  obtain k3 where k3: "kernel_round esp others k2 = Some (Inr k3)"
    "console k3 = console k2 @ [prompt_text k2, Print ''/'', Print name, Print (WX_Hex.ln [])]"
    "sys_parts k3 = (sys_parts k2)\<lparr>p_lines := []\<rparr>"
    by (rule pwd_round [OF k2(2) ok(2) t(3) [folded k1(3) k2(3)] l2 shown, where others = others])
  from that [OF k1(1) k2(1) k3(1), of i] show thesis
    using v1(6,7) first_ix_SomeD [OF i] by (simp add: dialogue_text_def k1(4-6) k2(4-6) k3(2,3))
qed


lemma bootstrap_keeps_ticks:
  fixes k :: kernel
  shows "sys_env_bootstrap k = Inr k' \<Longrightarrow> g_tick_counter k' = g_tick_counter k"
  by (auto simp: sys_env_bootstrap_def Let_def k_log_def split: sum.splits)

text \<open>
  C4: a user who types \<open>mkdir\<close>, a new name, \<open>cd\<close>, the name again and \<open>pwd\<close> on the keyboard of a sound kernel with
  room in the file table gets a directory of that name in the directory where he was, is in it, and sees the
  prompts, the two questions and the path on the console, three rounds of the main loop later.
\<close>
theorem typed_dialogue_makes_a_directory:
  assumes "env_ok k" "0x10000 \<le> esp" "g_tick_counter k < 2997"
    "no_modifier kbd" "\<forall>c \<in> set name. typeable c" "length name < 32" "name \<noteq> ''..''"
    "p_lines (sys_parts k) = scanned_lines (typed_lines [''mkdir'', name, ''cd'', name, ''pwd'']) kbd"
    "vfs_inv (p_fs (sys_parts k))" "\<exists>n \<in> set (storage (p_fs (sys_parts k))). \<not> is_used n"
    "\<forall>n \<in> set (storage (p_fs (sys_parts k))). \<not> (is_used n \<and> node_type n = DIR_NODE \<and> cstr (node_name n) = name \<and>
       parent_idx n = current_dir (p_fs (sys_parts k)))"
  shows "\<exists>k1 k2 k3. kernel_round esp others k = Some (Inr k1) \<and> kernel_round esp others k1 = Some (Inr k2) \<and>
     kernel_round esp others k2 = Some (Inr k3) \<and>
     console k3 = console k @ [prompt_text k, Print ''Name: '', prompt_text k, Print ''To: '', prompt_text k,
       Print ''/'', Print name, Print (WX_Hex.ln [])] \<and>
     p_lines (sys_parts k3) = [] \<and>
     (let here = current_dir (p_fs (sys_parts k3)); table = storage (p_fs (sys_parts k3)) in
        \<not> is_used (storage (p_fs (sys_parts k)) ! here) \<and> cstr (node_name (table ! here)) = name \<and>
        parent_idx (table ! here) = current_dir (p_fs (sys_parts k)))"
proof -
  obtain k1 k2 k3 i where "kernel_round esp others k = Some (Inr k1)" "kernel_round esp others k1 = Some (Inr k2)"
    "kernel_round esp others k2 = Some (Inr k3)" "console k3 = console k @ dialogue_text k name"
    "p_lines (sys_parts k3) = []" "current_dir (p_fs (sys_parts k3)) = i" "\<not> is_used (storage (p_fs (sys_parts k)) ! i)"
    "cstr (node_name (storage (p_fs (sys_parts k3)) ! i)) = name"
    "parent_idx (storage (p_fs (sys_parts k3)) ! i) = current_dir (p_fs (sys_parts k))"
    by (rule dialogue [OF assms])
  then show ?thesis unfolding dialogue_text_def by (intro exI [of _ k1] exI [of _ k2] exI [of _ k3]) simp
qed

theorem typed_dialogue_makes_a_directory_witness:
  "\<forall>p others. \<exists>k k1 k2 k3. kernel_round 0x100000 others k = Some (Inr k1) \<and> kernel_round 0x100000 others k1 = Some (Inr k2) \<and>
     kernel_round 0x100000 others k2 = Some (Inr k3) \<and>
     p_lines (sys_parts k) = map line_buffer [''mkdir'', ''docs'', ''cd'', ''docs'', ''pwd''] \<and> Print ''docs'' \<in> set (console k3)"
proof (intro allI)
  fix p others
  obtain v where v: "init_fs blank_fs = Inr ([Print (WX_Hex.ln ''FS Ready.'')], v)" "vfs_inv v" "current_dir v = 0"
    "cstr (node_name (storage v ! 0)) = ''root''" "\<forall>i < 128. is_used (storage v ! i) \<longleftrightarrow> i = 0"
    by (rule blank_fs_init)
  note l = vfs_invD(1) [OF v(2)]
  let ?words = "[''mkdir'', ''docs'', ''cd'', ''docs'', ''pwd'']"
  have n: "no_modifier (line_state [])" by (simp add: no_modifier_def line_state_def)
  have t: "\<forall>c \<in> set ''docs''. typeable c" by (simp add: typeable_def kbd_us_def)
  let ?k = "booted_system (p\<lparr>p_fs := v, p_lines := scanned_lines (typed_lines ?words) (line_state [])\<rparr>)"
  have free: "\<exists>n \<in> set (storage (p_fs (sys_parts ?k))). \<not> is_used n"
    using v(5) l by (intro bexI [of _ "storage v ! 1"]) (auto simp: booted_system)
  have fresh: "\<forall>n \<in> set (storage (p_fs (sys_parts ?k))). \<not> (is_used n \<and> node_type n = DIR_NODE \<and> cstr (node_name n) = ''docs'' \<and>
       parent_idx n = current_dir (p_fs (sys_parts ?k)))"
    using v(4,5) l by (auto simp: in_set_conv_nth booted_system)
  have "g_tick_counter booted = 0" using bootstrap_keeps_ticks [OF booted(1)] by (simp add: load_image_def)
  then have tick: "g_tick_counter ?k < 2997" by (simp add: booted_system_def kernel.defs heap_kernel.defs system.defs)
  have "p_lines (sys_parts ?k) = map line_buffer ?words"
    using scanned_typed_lines [OF _ n, of ?words] t typeable_words by (simp add: booted_system)
  moreover obtain k1 k2 k3 where "kernel_round 0x100000 others ?k = Some (Inr k1)" "kernel_round 0x100000 others k1 = Some (Inr k2)"
    "kernel_round 0x100000 others k2 = Some (Inr k3)" "Print ''docs'' \<in> set (console k3)"
  proof -
    have "\<exists>k1 k2 k3. kernel_round 0x100000 others ?k = Some (Inr k1) \<and> kernel_round 0x100000 others k1 = Some (Inr k2) \<and>
     kernel_round 0x100000 others k2 = Some (Inr k3) \<and>
     console k3 = console ?k @ [prompt_text ?k, Print ''Name: '', prompt_text ?k, Print ''To: '', prompt_text ?k,
       Print ''/'', Print ''docs'', Print (WX_Hex.ln [])] \<and>
     p_lines (sys_parts k3) = [] \<and>
     (let here = current_dir (p_fs (sys_parts k3)); table = storage (p_fs (sys_parts k3)) in
        \<not> is_used (storage (p_fs (sys_parts ?k)) ! here) \<and> cstr (node_name (table ! here)) = ''docs'' \<and>
        parent_idx (table ! here) = current_dir (p_fs (sys_parts ?k)))"
    by (rule typed_dialogue_makes_a_directory [OF booted_system(1) _ tick n t _ _ _ _ free fresh]) (simp_all add: booted_system v(2))
    then obtain k1 k2 k3 where k: "kernel_round 0x100000 others ?k = Some (Inr k1)" "kernel_round 0x100000 others k1 = Some (Inr k2)"
      "kernel_round 0x100000 others k2 = Some (Inr k3)" and "console k3 = console ?k @ [prompt_text ?k, Print ''Name: '', prompt_text ?k,
        Print ''To: '', prompt_text ?k, Print ''/'', Print ''docs'', Print (WX_Hex.ln [])]" by blast
    then have "Print ''docs'' \<in> set (console k3)" by simp
    with k show thesis by (rule that)
  qed
  ultimately show "\<exists>k k1 k2 k3. kernel_round 0x100000 others k = Some (Inr k1) \<and> kernel_round 0x100000 others k1 = Some (Inr k2) \<and>
     kernel_round 0x100000 others k2 = Some (Inr k3) \<and>
     p_lines (sys_parts k) = map line_buffer ?words \<and> Print ''docs'' \<in> set (console k3)" by blast
qed

end
