(* ===== verification/WX_Asm.thy ===== *)
theory WX_Asm
  imports WX_Vm WX_Hw
begin

text \<open>
  The assembly files on a small model of the processor: general registers, flags, segment and control
  registers, and memory as words.  The routines of \<open>multi.asm\<close> (context switch, system-call gate, control
  registers, stack pointer, user mode), the interrupt stubs of \<open>interrupt.asm\<close>, the entry of \<open>boot.asm\<close> and
  the loop of \<open>cpu_stress.asm\<close> are lists of instructions, with the jumps between them in HOL.
\<close>

section \<open>The processor\<close>

datatype reg = EAX | EBX | ECX | EDX | ESI | EDI | EBP | ESP

datatype seg = DS | ES | FS | GS

datatype operand = Reg reg | Imm u32

datatype alu = Add | Sub | Xor | Or_bits | Rol | Ror

text \<open>\<open>Load r b d\<close> is \<open>mov r, [b + d]\<close>, \<open>Store b d v\<close> is \<open>mov [b + d], v\<close>; the moves from and to a segment register go through \<open>ax\<close>.\<close>

datatype instr =
    Mov reg operand | Load reg reg u32 | Store reg u32 operand
  | Mov_ax u16 | Mov_al u8 | Mov_ax_seg seg | Mov_seg_ax seg
  | Push operand | Pop reg | Pushf | Popf | Pusha | Popa | Push_seg seg | Pop_seg seg
  | Alu alu reg operand | Not_reg reg | Bswap_reg reg | Dec_reg reg
  | Cli | Sti | Out_al u16 | Mov_from_cr reg nat | Mov_to_cr nat reg

record processor =
  gpr :: "reg \<Rightarrow> u32"
  eflags :: u32
  segs :: "seg \<Rightarrow> u16"
  crs :: "nat \<Rightarrow> u32"
  words :: "u32 \<Rightarrow> u32"
  ports_out :: "port_event list"

text \<open>A word of memory belongs to the address of its lowest byte; the code only accesses aligned stack words and its own records.\<close>

fun val :: "(reg \<Rightarrow> u32) \<Rightarrow> operand \<Rightarrow> u32" where
  "val f (Reg r) = f r"
| "val f (Imm n) = n"

fun alu_result :: "alu \<Rightarrow> u32 \<Rightarrow> u32 \<Rightarrow> u32" where
  "alu_result Add x y = x + y"
| "alu_result Sub x y = x - y"
| "alu_result Xor x y = x XOR y"
| "alu_result Or_bits x y = x OR y"
| "alu_result Rol x y = word_rotl (unat y) x"
| "alu_result Ror x y = word_rotr (unat y) x"

definition bswap :: "u32 \<Rightarrow> u32" where
  "bswap w = un32 (ucast (drop_bit 24 w)) (ucast (drop_bit 16 w)) (ucast (drop_bit 8 w)) (ucast w)"

text \<open>The arithmetic instructions on the registers; all others are in \<open>exec\<close>.\<close>

fun compute :: "instr \<Rightarrow> (reg \<Rightarrow> u32) \<Rightarrow> reg \<Rightarrow> u32" where
  "compute (Alu op r v) f = f(r := alu_result op (f r) (val f v))"
| "compute (Not_reg r) f = f(r := NOT (f r))"
| "compute (Bswap_reg r) f = f(r := bswap (f r))"
| "compute (Dec_reg r) f = f(r := f r - 1)"
| "compute (Mov r v) f = f(r := val f v)"
| "compute i f = f"

text \<open>The flag \<open>IF\<close>.\<close>

definition IF :: u32 where "IF = 0x200"

definition push_word :: "u32 \<Rightarrow> processor \<Rightarrow> processor" where
  "push_word w s = (let sp = gpr s ESP - 4 in s\<lparr>gpr := (gpr s)(ESP := sp), words := (words s)(sp := w)\<rparr>)"

definition pop_word :: "processor \<Rightarrow> u32 \<times> processor" where
  "pop_word s = (words s (gpr s ESP), s\<lparr>gpr := (gpr s)(ESP := gpr s ESP + 4)\<rparr>)"

definition set_reg :: "reg \<Rightarrow> u32 \<Rightarrow> processor \<Rightarrow> processor" where
  "set_reg r w s = s\<lparr>gpr := (gpr s)(r := w)\<rparr>"

definition pusha :: "processor \<Rightarrow> processor" where
  "pusha s = fold push_word [gpr s EAX, gpr s ECX, gpr s EDX, gpr s EBX, gpr s ESP, gpr s EBP, gpr s ESI, gpr s EDI] s"

text \<open>The slot of \<open>esp\<close> is skipped.\<close>

definition popa :: "processor \<Rightarrow> processor" where
  "popa s = (let sp = gpr s ESP; m = words s in
     s\<lparr>gpr := (gpr s)(EDI := m sp, ESI := m (sp + 4), EBP := m (sp + 8), EBX := m (sp + 16), EDX := m (sp + 20),
         ECX := m (sp + 24), EAX := m (sp + 28), ESP := sp + 32)\<rparr>)"

text \<open>
  \<open>fl\<close> gives the flags that an arithmetic instruction leaves, from its result and the flags before; what is
  proved does not depend on it.
\<close>

fun exec :: "(u32 \<Rightarrow> u32 \<Rightarrow> u32) \<Rightarrow> instr \<Rightarrow> processor \<Rightarrow> processor" where
  "exec fl (Mov r v) s = set_reg r (val (gpr s) v) s"
| "exec fl (Load r b d) s = set_reg r (words s (d + gpr s b)) s"
| "exec fl (Store b d v) s = s\<lparr>words := (words s)(d + gpr s b := val (gpr s) v)\<rparr>"
| "exec fl (Mov_ax w) s = set_reg EAX ((gpr s EAX AND 0xFFFF0000) OR ucast w) s"
| "exec fl (Mov_al b) s = set_reg EAX ((gpr s EAX AND 0xFFFFFF00) OR ucast b) s"
| "exec fl (Mov_ax_seg x) s = set_reg EAX ((gpr s EAX AND 0xFFFF0000) OR ucast (segs s x)) s"
| "exec fl (Mov_seg_ax x) s = s\<lparr>segs := (segs s)(x := ucast (gpr s EAX))\<rparr>"
| "exec fl (Push v) s = push_word (val (gpr s) v) s"
| "exec fl (Pop r) s = (case pop_word s of (w, s) \<Rightarrow> set_reg r w s)"
| "exec fl Pushf s = push_word (eflags s) s"
| "exec fl Popf s = (case pop_word s of (w, s) \<Rightarrow> s\<lparr>eflags := w\<rparr>)"
| "exec fl Pusha s = pusha s"
| "exec fl Popa s = popa s"
| "exec fl (Push_seg x) s = push_word (ucast (segs s x)) s"
| "exec fl (Pop_seg x) s = (case pop_word s of (w, s) \<Rightarrow> s\<lparr>segs := (segs s)(x := ucast w)\<rparr>)"
| "exec fl Cli s = s\<lparr>eflags := eflags s AND NOT IF\<rparr>"
| "exec fl Sti s = s\<lparr>eflags := eflags s OR IF\<rparr>"
| "exec fl (Out_al p) s = s\<lparr>ports_out := ports_out s @ [Out8 p (ucast (gpr s EAX))]\<rparr>"
| "exec fl (Mov_from_cr r n) s = set_reg r (crs s n) s"
| "exec fl (Mov_to_cr n r) s = s\<lparr>crs := (crs s)(n := gpr s r)\<rparr>"
| "exec fl (Alu op r v) s =
     s\<lparr>gpr := compute (Alu op r v) (gpr s), eflags := fl (alu_result op (gpr s r) (val (gpr s) v)) (eflags s)\<rparr>"
| "exec fl (Not_reg r) s = s\<lparr>gpr := compute (Not_reg r) (gpr s)\<rparr>"
| "exec fl (Bswap_reg r) s = s\<lparr>gpr := compute (Bswap_reg r) (gpr s)\<rparr>"
| "exec fl (Dec_reg r) s = s\<lparr>gpr := compute (Dec_reg r) (gpr s), eflags := fl (gpr s r - 1) (eflags s)\<rparr>"

definition run :: "(u32 \<Rightarrow> u32 \<Rightarrow> u32) \<Rightarrow> instr list \<Rightarrow> processor \<Rightarrow> processor" where
  "run fl = fold (exec fl)"

lemma run_simps [simp]: "run fl [] s = s" "run fl (i # is) s = run fl is (exec fl i s)"
  by (simp_all add: run_def)

lemmas steps = push_word_def pop_word_def set_reg_def pusha_def popa_def Let_def

section \<open>The context switch\<close>

text \<open>
  The result is the address at which the processor goes on, and its state; \<open>None\<close> is the halt when there is no
  next task.  \<open>restore_point\<close> is the address of the label \<open>.restore_point\<close>.
\<close>

definition asm_switch_context :: "(u32 \<Rightarrow> u32 \<Rightarrow> u32) \<Rightarrow> u32 \<Rightarrow> processor \<Rightarrow> (u32 \<times> processor) option" where
  "asm_switch_context fl restore_point s =
     (let s = run fl [Push (Reg EBP), Mov EBP (Reg ESP), Pushf, Pusha, Load EAX EBP 8] s;
          s = (if gpr s EAX = 0 then s
               else run fl [Store EAX 0 (Reg ESP), Store EAX 4 (Imm restore_point)] s);
          s = run fl [Load EBX EBP 12] s
      in if gpr s EBX = 0 then None
         else let s = run fl [Load ESP EBX 0, Load ECX EBX 4] s in Some (gpr s ECX, s))"

text \<open>The code at the label: where it returns to, and the state.\<close>

definition restore_point_code :: "(u32 \<Rightarrow> u32 \<Rightarrow> u32) \<Rightarrow> processor \<Rightarrow> u32 \<times> processor" where
  "restore_point_code fl s = pop_word (run fl [Popa, Popf, Pop EBP] s)"

section \<open>The system-call gate\<close>

definition asm_syscall_entry :: "instr list" where
  "asm_syscall_entry =
     [Cli, Push (Reg EAX), Push (Reg ECX), Push (Reg EDX), Push (Reg EBX), Push (Reg ESP), Push (Reg EBP),
      Push (Reg ESI), Push (Reg EDI), Push_seg DS, Push_seg ES, Push_seg FS, Push_seg GS,
      Mov_ax 0x10, Mov_seg_ax DS, Mov_seg_ax ES, Mov_seg_ax FS, Mov_seg_ax GS,
      Mov EAX (Reg ESP), Push (Reg EAX), Push (Reg EDX), Push (Reg ECX)]"

text \<open>The arguments of \<open>execute_syscall (VMState *vm, uint64_t syscall_id)\<close> on the stack at the call.\<close>

definition syscall_args :: "processor \<Rightarrow> u32 \<times> u64" where
  "syscall_args s =
     (let sp = gpr s ESP in (words s sp, ucast (words s (sp + 4)) OR push_bit 32 (ucast (words s (sp + 8)))))"

text \<open>After the call, up to \<open>sysexit\<close>, which goes on at \<open>edx\<close> with the stack \<open>ecx\<close>.\<close>

definition asm_syscall_exit :: "instr list" where
  "asm_syscall_exit =
     [Alu Add ESP (Imm 12), Pop_seg GS, Pop_seg FS, Pop_seg ES, Pop_seg DS, Pop EDI, Pop ESI, Pop EBP, Pop ESP,
      Pop EBX, Pop EDX, Pop ECX, Pop EAX, Sti]"

section \<open>Control registers, stack pointer and user mode\<close>

text \<open>The value returned is in \<open>eax\<close>; the \<open>ret\<close> that follows each of these lists is \<open>pop_word\<close>.\<close>

definition asm_read_cr :: "nat \<Rightarrow> instr list" where
  "asm_read_cr n = [Mov_from_cr EAX n]"

definition asm_write_cr :: "nat \<Rightarrow> instr list" where
  "asm_write_cr n = [Push (Reg EBP), Mov EBP (Reg ESP), Load EAX EBP 8, Mov_to_cr n EAX, Pop EBP]"

definition asm_get_stack_pointer :: "instr list" where
  "asm_get_stack_pointer = [Mov EAX (Reg ESP)]"

definition asm_set_stack_pointer :: "instr list" where
  "asm_set_stack_pointer = [Push (Reg EBP), Mov EBP (Reg ESP), Load EAX EBP 8, Mov ESP (Reg EAX), Pop EBP]"

text \<open>Up to \<open>iret\<close>, which takes \<open>eip\<close>, \<open>cs\<close>, \<open>eflags\<close>, \<open>esp\<close> and \<open>ss\<close> from the stack.\<close>

definition asm_enter_usermode :: "instr list" where
  "asm_enter_usermode =
     [Push (Reg EBP), Mov EBP (Reg ESP), Load EBX EBP 8, Load ECX EBP 12, Cli,
      Mov_ax 0x23, Mov_seg_ax DS, Mov_seg_ax ES, Mov_seg_ax FS, Mov_seg_ax GS,
      Push (Imm 0x23), Push (Reg ECX), Pushf, Pop EAX, Alu Or_bits EAX (Imm 0x200), Push (Reg EAX),
      Push (Imm 0x1B), Push (Reg EBX)]"

section \<open>Interrupt stubs\<close>

text \<open>\<open>ISR_NOERRCODE n\<close> and \<open>ISR_ERRCODE n\<close>: the processor has pushed \<open>eflags\<close>, \<open>cs\<close>, \<open>eip\<close> and, for the latter, an error code.\<close>

definition isr_noerrcode :: "u32 \<Rightarrow> instr list" where
  "isr_noerrcode n = [Cli, Push (Imm 0), Push (Imm n)]"

definition isr_errcode :: "u32 \<Rightarrow> instr list" where
  "isr_errcode n = [Cli, Push (Imm n)]"

definition error_code_vectors :: "u32 list" where
  "error_code_vectors = [8, 10, 11, 12, 13, 14, 17]"

definition isr :: "u32 \<Rightarrow> instr list" where
  "isr n = (if n \<in> set error_code_vectors then isr_errcode n else isr_noerrcode n)"

text \<open>\<open>common_stub\<close> up to its \<open>iret\<close>.\<close>

definition common_stub :: "instr list" where
  "common_stub =
     [Pusha, Mov_ax_seg DS, Push (Reg EAX), Mov_ax 0x10, Mov_seg_ax DS, Mov_seg_ax ES, Mov_seg_ax FS, Mov_seg_ax GS,
      Mov EAX (Reg ESP), Push (Reg EAX), Mov_al 0x20, Out_al 0x20, Out_al 0xA0, Pop EAX, Pop EAX,
      Mov_seg_ax DS, Mov_seg_ax ES, Mov_seg_ax FS, Mov_seg_ax GS, Popa, Alu Add ESP (Imm 8), Sti]"

section \<open>The entry\<close>

text \<open>\<open>_start\<close> up to the call of \<open>Kernel\<close>, which never returns to the halt loop; the multiboot header.\<close>

definition boot_start :: "u32 \<Rightarrow> instr list" where
  "boot_start stack_top = [Cli, Mov ESP (Imm stack_top), Push (Reg EBX), Push (Reg EAX)]"

definition multiboot_header :: "u32 list" where
  "multiboot_header = [0x1BADB002, 0x01, - (0x1BADB002 + 0x01)]"

section \<open>The stress loop\<close>

definition stress_body :: "instr list" where
  "stress_body =
     [
      Alu Xor EAX (Reg EBX), Alu Add EAX (Imm 0x55555555), Alu Rol EAX (Imm 5), Alu Xor EBX (Reg ECX),
      Alu Sub EBX (Imm 0xAAAAAAAA), Alu Ror EBX (Imm 3), Alu Xor ECX (Reg EDX), Alu Add ECX (Imm 0x33333333),
      Alu Rol ECX (Imm 7), Alu Xor EDX (Reg ESI), Alu Sub EDX (Imm 0xCCCCCCCC), Alu Ror EDX (Imm 11),
      Alu Xor ESI (Reg EDI), Alu Add ESI (Imm 0x0F0F0F0F), Alu Rol ESI (Imm 13), Alu Xor EDI (Reg EAX),
      Alu Sub EDI (Imm 0xF0F0F0F0), Alu Ror EDI (Imm 17), Bswap_reg EAX, Not_reg EBX, Bswap_reg ECX, Not_reg EDX,
      Bswap_reg ESI, Not_reg EDI, Alu Add EAX (Reg EBX), Alu Xor EBX (Reg ECX), Alu Sub ECX (Reg EDX),
      Alu Xor EDX (Reg ESI), Alu Add ESI (Reg EDI), Alu Xor EDI (Reg EAX), Alu Rol EAX (Imm 19),
      Alu Ror EBX (Imm 23), Alu Rol ECX (Imm 29), Alu Ror EDX (Imm 31), Alu Rol ESI (Imm 3), Alu Ror EDI (Imm 5),
      Alu Xor EAX (Imm 0x12345678), Alu Xor EBX (Imm 0x87654321), Alu Xor ECX (Imm 0x9ABCDEF0),
      Alu Xor EDX (Imm 0x0FEDCBA9), Alu Xor ESI (Imm 0x13579BDF), Alu Xor EDI (Imm 0x2468ACE0),
      Alu Add EAX (Reg EBX), Alu Rol EAX (Imm 7), Alu Sub EBX (Reg ECX), Alu Ror EBX (Imm 9), Alu Add ECX (Reg EDX),
      Alu Rol ECX (Imm 11), Alu Sub EDX (Reg ESI), Alu Ror EDX (Imm 13), Alu Add ESI (Reg EDI), Alu Rol ESI (Imm 15),
      Alu Sub EDI (Reg EAX), Alu Ror EDI (Imm 17), Bswap_reg EAX, Bswap_reg EBX, Bswap_reg ECX, Bswap_reg EDX,
      Bswap_reg ESI, Bswap_reg EDI, Alu Xor EAX (Reg EBX), Alu Add EAX (Imm 0x11111111), Alu Rol EAX (Imm 2),
      Alu Xor EBX (Reg ECX), Alu Sub EBX (Imm 0x22222222), Alu Ror EBX (Imm 4), Alu Xor ECX (Reg EDX),
      Alu Add ECX (Imm 0x33333333), Alu Rol ECX (Imm 6), Alu Xor EDX (Reg ESI), Alu Sub EDX (Imm 0x44444444),
      Alu Ror EDX (Imm 8), Alu Xor ESI (Reg EDI), Alu Add ESI (Imm 0x55555555), Alu Rol ESI (Imm 10),
      Alu Xor EDI (Reg EAX), Alu Sub EDI (Imm 0x66666666), Alu Ror EDI (Imm 12), Not_reg EAX, Not_reg ECX,
      Not_reg ESI, Alu Add EAX (Imm 0x77777777), Alu Sub EBX (Imm 0x88888888), Alu Add ECX (Imm 0x99999999),
      Alu Sub EDX (Imm 0xAAAAAAAA), Alu Add ESI (Imm 0xBBBBBBBB), Alu Sub EDI (Imm 0xCCCCCCCC), Alu Rol EAX (Imm 1),
      Alu Ror EBX (Imm 2), Alu Rol ECX (Imm 3), Alu Ror EDX (Imm 4), Alu Rol ESI (Imm 5), Alu Ror EDI (Imm 6),
      Alu Xor EAX (Reg EDX), Alu Xor EBX (Reg ESI), Alu Xor ECX (Reg EDI), Bswap_reg EAX, Not_reg EBX, Bswap_reg ECX,
      Not_reg EDX, Bswap_reg ESI, Not_reg EDI, Alu Add EAX (Reg EBX), Alu Xor EBX (Reg ECX), Alu Sub ECX (Reg EDX),
      Alu Xor EDX (Reg ESI), Alu Add ESI (Reg EDI), Alu Xor EDI (Reg EAX), Alu Rol EAX (Imm 19),
      Alu Ror EBX (Imm 23), Alu Rol ECX (Imm 29), Alu Ror EDX (Imm 31), Alu Rol ESI (Imm 3), Alu Ror EDI (Imm 5),
      Alu Xor EAX (Imm 0x12345678), Alu Xor EBX (Imm 0x87654321), Alu Xor ECX (Imm 0x9ABCDEF0),
      Alu Xor EDX (Imm 0x0FEDCBA9), Alu Xor ESI (Imm 0x13579BDF), Alu Xor EDI (Imm 0x2468ACE0),
      Alu Add EAX (Reg EBX), Alu Rol EAX (Imm 7), Alu Sub EBX (Reg ECX), Alu Ror EBX (Imm 9), Alu Add ECX (Reg EDX),
      Alu Rol ECX (Imm 11), Alu Sub EDX (Reg ESI), Alu Ror EDX (Imm 13), Alu Add ESI (Reg EDI), Alu Rol ESI (Imm 15),
      Alu Sub EDI (Reg EAX), Alu Ror EDI (Imm 17), Bswap_reg EAX, Bswap_reg EBX, Bswap_reg ECX, Bswap_reg EDX,
      Bswap_reg ESI, Bswap_reg EDI, Alu Xor EAX (Reg EBX), Alu Add EAX (Imm 0x11111111), Alu Rol EAX (Imm 2),
      Alu Xor EBX (Reg ECX), Alu Sub EBX (Imm 0x22222222), Alu Ror EBX (Imm 4), Alu Xor ECX (Reg EDX),
      Alu Add ECX (Imm 0x33333333), Alu Rol ECX (Imm 6), Alu Xor EDX (Reg ESI), Alu Sub EDX (Imm 0x44444444),
      Alu Ror EDX (Imm 8), Alu Xor ESI (Reg EDI), Alu Add ESI (Imm 0x55555555), Alu Rol ESI (Imm 10),
      Alu Xor EDI (Reg EAX), Alu Sub EDI (Imm 0x66666666), Alu Ror EDI (Imm 12), Not_reg EAX, Not_reg ECX,
      Not_reg ESI, Alu Add EAX (Imm 0x77777777), Alu Sub EBX (Imm 0x88888888), Alu Add ECX (Imm 0x99999999),
      Alu Sub EDX (Imm 0xAAAAAAAA), Alu Add ESI (Imm 0xBBBBBBBB), Alu Sub EDI (Imm 0xCCCCCCCC), Alu Rol EAX (Imm 1),
      Alu Ror EBX (Imm 2), Alu Rol ECX (Imm 3), Alu Ror EDX (Imm 4), Alu Rol ESI (Imm 5), Alu Ror EDI (Imm 6),
      Alu Xor EAX (Reg EDX), Alu Xor EBX (Reg ESI), Alu Xor ECX (Reg EDI), Dec_reg ECX]"

partial_function (option) stress_loop :: "(u32 \<Rightarrow> u32 \<Rightarrow> u32) \<Rightarrow> processor \<Rightarrow> processor option" where
  "stress_loop fl s = (let s = run fl stress_body s in if gpr s ECX \<noteq> 0 then stress_loop fl s else Some s)"

definition stress_seed :: "instr list" where
  "stress_seed =
     [Mov EAX (Imm 0x13579BDF), Mov EBX (Imm 0x2468ACE0), Mov ECX (Imm 0x000FFFFF), Mov EDX (Imm 0xDEADBEEF),
      Mov ESI (Imm 0xCAFEBABE), Mov EDI (Imm 0x8BADF00D)]"

definition execute_cpu_stress_entropy :: "(u32 \<Rightarrow> u32 \<Rightarrow> u32) \<Rightarrow> processor \<Rightarrow> (u32 \<times> processor) option" where
  "execute_cpu_stress_entropy fl s =
     map_option (\<lambda>s. pop_word (run fl [Popf, Popa] s)) (stress_loop fl (run fl (Pusha # Pushf # stress_seed) s))"


section \<open>What the routines do\<close>

text \<open>
  The context switch.  The first switch leaves ten words below the return address on the task's stack, and its
  stack pointer in its record.
\<close>

definition switch_frame :: "u32 \<Rightarrow> processor \<Rightarrow> u32 \<Rightarrow> u32" where
  "switch_frame sp s = (words s)(36 + sp := gpr s EBP, 32 + sp := eflags s, 28 + sp := gpr s EAX, 24 + sp := gpr s ECX,
     20 + sp := gpr s EDX, 16 + sp := gpr s EBX, 12 + sp := 32 + sp, 8 + sp := 36 + sp, 4 + sp := gpr s ESI, sp := gpr s EDI)"

definition switch_record :: "u32 \<Rightarrow> u32 \<Rightarrow> u32 \<Rightarrow> (u32 \<Rightarrow> u32) \<Rightarrow> u32 \<Rightarrow> u32" where
  "switch_record a sp rp m = (if a = 0 then m else m(a := sp, 4 + a := rp))"

lemma pusha_eq:
  assumes "gpr s ESP = 32 + sp"
  shows "pusha s = s\<lparr>gpr := (gpr s)(ESP := sp), words := (words s)(28 + sp := gpr s EAX, 24 + sp := gpr s ECX,
     20 + sp := gpr s EDX, 16 + sp := gpr s EBX, 12 + sp := 32 + sp, 8 + sp := gpr s EBP, 4 + sp := gpr s ESI, sp := gpr s EDI)\<rparr>"
  using assms by (simp add: pusha_def push_word_def Let_def)

lemma saved:
  assumes "gpr s ESP = 40 + sp"
  shows "run fl [Push (Reg EBP), Mov EBP (Reg ESP), Pushf, Pusha, Load EAX EBP 8] s =
    s\<lparr>gpr := (gpr s)(EBP := 36 + sp, ESP := sp, EAX := words s (44 + sp)), words := switch_frame sp s\<rparr>"
proof -
  let ?t = "s\<lparr>gpr := (gpr s)(EBP := 36 + sp, ESP := 32 + sp), words := (words s)(36 + sp := gpr s EBP, 32 + sp := eflags s)\<rparr>"
  have "run fl [Push (Reg EBP), Mov EBP (Reg ESP), Pushf] s = ?t"
    using assms by (simp add: push_word_def set_reg_def Let_def fun_upd_twist)
  then have "run fl [Push (Reg EBP), Mov EBP (Reg ESP), Pushf, Pusha, Load EAX EBP 8] s = exec fl (Load EAX EBP 8) (pusha ?t)"
    by simp
  also have "\<dots> = s\<lparr>gpr := (gpr s)(EBP := 36 + sp, ESP := sp, EAX := words s (44 + sp)), words := switch_frame sp s\<rparr>"
    by (subst pusha_eq [where sp = sp]) (simp_all add: set_reg_def switch_frame_def)
  finally show ?thesis .
qed

lemma switch_eq:
  fixes rp :: u32
  assumes "gpr s ESP = 40 + sp"
  defines "m \<equiv> switch_record (words s (44 + sp)) sp rp (switch_frame sp s)"
  shows "asm_switch_context fl rp s =
    (if m (48 + sp) = 0 then None
     else Some (m (4 + m (48 + sp)), s\<lparr>gpr := (gpr s)(EBP := 36 + sp, EAX := words s (44 + sp), EBX := m (48 + sp),
            ESP := m (m (48 + sp)), ECX := m (4 + m (48 + sp))), words := m\<rparr>))"
  unfolding asm_switch_context_def saved [OF assms(1)] m_def
  by (simp add: Let_def set_reg_def switch_record_def fun_upd_twist)

text \<open>The ten saved words, the return address and the record of a task.\<close>

definition task_words :: "u32 \<Rightarrow> u32 \<Rightarrow> u32 set" where
  "task_words a sp = {a, 4 + a} \<union> (\<lambda>k. 4 * k + sp) ` {0, 1, 2, 3, 4, 5, 6, 7, 8, 9, 10}"

lemma restore_eq:
  "restore_point_code fl s = (let sp = gpr s ESP; m = words s in
     (m (40 + sp), s\<lparr>gpr := (gpr s)(EDI := m sp, ESI := m (4 + sp), EBX := m (16 + sp), EDX := m (20 + sp), ECX := m (24 + sp),
        EAX := m (28 + sp), EBP := m (36 + sp), ESP := 44 + sp), eflags := m (32 + sp)\<rparr>))"
  by (simp add: restore_point_code_def popa_def pop_word_def set_reg_def Let_def add.commute fun_upd_twist)

lemma switch_back:
  assumes s: "gpr s ESP = 40 + sp" "words s (44 + sp) = a" "a \<noteq> 0" "asm_switch_context fl rp s = Some (x, s1)"
    and disjoint: "a \<notin> (\<lambda>k. 4 * k + sp) ` {0, 1, 2, 3, 4, 5, 6, 7, 8, 9, 10}" "4 + a \<notin> (\<lambda>k. 4 * k + sp) ` {0, 1, 2, 3, 4, 5, 6, 7, 8, 9, 10}"
    and t: "asm_switch_context fl rp t = Some (y, t1)" "words t1 (8 + gpr t ESP) = a"
    and kept: "\<forall>p \<in> task_words a sp. words t1 p = words s1 p"
  shows "y = rp" "restore_point_code fl t1 =
    (words s (gpr s ESP), t1\<lparr>gpr := (gpr s)(ESP := 4 + gpr s ESP), eflags := eflags s\<rparr>)"
proof -
  obtain tp where tp: "gpr t ESP = 40 + tp" by (metis add_diff_cancel_left' diff_add_cancel add.commute)
  have m1: "words s1 = (switch_frame sp s)(a := sp, 4 + a := rp)"
    using s(4) unfolding switch_eq [OF s(1)] by (auto simp: s(2,3) switch_record_def split: if_splits)
  note tq = t(1) [unfolded switch_eq [OF tp]]
  define m where "m = switch_record (words t (44 + tp)) tp rp (switch_frame tp t)"
  have t1: "t1 = t\<lparr>gpr := (gpr t)(EBP := 36 + tp, EAX := words t (44 + tp), EBX := m (48 + tp),
            ESP := m (m (48 + tp)), ECX := m (4 + m (48 + tp))), words := m\<rparr>" "y = m (4 + m (48 + tp))"
    using tq by (auto simp: m_def [symmetric] split: if_splits)
  have ma: "m (48 + tp) = a" using t(2) t1(1) tp by simp
  have kept: "\<And>p. p \<in> task_words a sp \<Longrightarrow> m p = ((switch_frame sp s)(a := sp, 4 + a := rp)) p"
    using kept t1(1) m1 by simp
  have ne: "4 + a \<noteq> a" by simp
  show "y = rp" using kept [of "4 + a"] by (simp add: t1(2) ma task_words_def)
  have sp1: "m a = sp" using kept [of a] ne by (simp add: task_words_def)
  have at: "m (4 * k + sp) = switch_frame sp s (4 * k + sp)" if "k \<in> {0, 1, 2, 3, 4, 5, 6, 7, 8, 9, 10}" for k
  proof -
    have "4 * k + sp \<noteq> a" "4 * k + sp \<noteq> 4 + a" using disjoint that by auto
    moreover have "4 * k + sp \<in> task_words a sp" unfolding task_words_def by (intro UnI2 imageI that)
    ultimately show ?thesis using kept [of "4 * k + sp"] by simp
  qed
  have f: "m sp = gpr s EDI" "m (4 + sp) = gpr s ESI" "m (16 + sp) = gpr s EBX" "m (20 + sp) = gpr s EDX"
    "m (24 + sp) = gpr s ECX" "m (28 + sp) = gpr s EAX" "m (32 + sp) = eflags s" "m (36 + sp) = gpr s EBP" "m (40 + sp) = words s (40 + sp)"
    using at [of 0] at [of 1] at [of 4] at [of 5] at [of 6] at [of 7] at [of 8] at [of 9] at [of 10]
    by (simp_all add: switch_frame_def)
  have e: "gpr t1 ESP = sp" "words t1 = m" by (simp_all add: t1(1) ma sp1)
  have g: "gpr t1 = (gpr t)(EBP := 36 + tp, EAX := words t (44 + tp), EBX := a, ESP := sp, ECX := rp)"
    using \<open>y = rp\<close> by (simp add: t1(1) ma sp1 t1(2))
  have "(gpr t1)(EDI := gpr s EDI, ESI := gpr s ESI, EBX := gpr s EBX, EDX := gpr s EDX, ECX := gpr s ECX,
        EAX := gpr s EAX, EBP := gpr s EBP, ESP := 44 + sp) = (gpr s)(ESP := 44 + sp)"
  proof
    fix r show "((gpr t1)(EDI := gpr s EDI, ESI := gpr s ESI, EBX := gpr s EBX, EDX := gpr s EDX, ECX := gpr s ECX,
        EAX := gpr s EAX, EBP := gpr s EBP, ESP := 44 + sp)) r = ((gpr s)(ESP := 44 + sp)) r"
      by (cases r) simp_all
  qed
  then show "restore_point_code fl t1 = (words s (gpr s ESP), t1\<lparr>gpr := (gpr s)(ESP := 4 + gpr s ESP), eflags := eflags s\<rparr>)"
    unfolding restore_eq e Let_def f by (simp add: s(1) add.commute)
qed

subsection \<open>The gate\<close>

definition gate_saves :: "instr list" where
  "gate_saves = [Cli, Push (Reg EAX), Push (Reg ECX), Push (Reg EDX), Push (Reg EBX), Push (Reg ESP), Push (Reg EBP),
      Push (Reg ESI), Push (Reg EDI), Push_seg DS, Push_seg ES, Push_seg FS, Push_seg GS]"

definition flat_segments :: "instr list" where
  "flat_segments = [Mov_ax 0x10, Mov_seg_ax DS, Mov_seg_ax ES, Mov_seg_ax FS, Mov_seg_ax GS]"

lemma run_append [simp]: "run fl (is @ js) s = run fl js (run fl is s)"
  by (simp add: run_def)

lemma ax_low: "ucast ((w AND 0xFFFF0000) OR v :: u32) = (ucast v :: u16)"
proof -
  have m: "(0xFFFF0000 :: u32) = NOT (mask 16)" by (simp add: mask_eq_exp_minus_1)
  show ?thesis unfolding m by (rule bit_eqI) (simp add: bit_simps)
qed

lemma seg_word: "ucast (ucast (x :: u16) :: u32) = x"
  by (rule bit_eqI) (simp add: bit_simps)

lemma all_segs: "f(DS := w, ES := w, FS := w, GS := w) = (\<lambda>_. w)"
proof
  fix x show "(f(DS := w, ES := w, FS := w, GS := w)) x = w" by (cases x) simp_all
qed

lemma flat_segments: "run fl flat_segments s =
    s\<lparr>gpr := (gpr s)(EAX := gpr s EAX AND 0xFFFF0000 OR 0x10), segs := (\<lambda>_. 0x10)\<rparr>"
  by (simp add: flat_segments_def set_reg_def ax_low all_segs)

lemma gate_saves:
  assumes "gpr s ESP = 60 + sp"
  shows "run fl gate_saves s = s\<lparr>gpr := (gpr s)(ESP := 12 + sp), eflags := eflags s AND NOT IF, words := (words s)(56 + sp := gpr s EAX,
     52 + sp := gpr s ECX, 48 + sp := gpr s EDX, 44 + sp := gpr s EBX, 40 + sp := 44 + sp, 36 + sp := gpr s EBP,
     32 + sp := gpr s ESI, 28 + sp := gpr s EDI, 24 + sp := ucast (segs s DS), 20 + sp := ucast (segs s ES),
     16 + sp := ucast (segs s FS), 12 + sp := ucast (segs s GS))\<rparr>"
  using assms by (simp add: gate_saves_def push_word_def Let_def)

lemma gate_call:
  assumes "gpr s ESP = 60 + sp"
  shows "run fl asm_syscall_entry s =
    (let t = run fl gate_saves s in
     t\<lparr>gpr := (gpr s)(EAX := 12 + sp, ESP := sp), segs := (\<lambda>_. 0x10),
       words := (words t)(8 + sp := 12 + sp, 4 + sp := gpr s EDX, sp := gpr s ECX)\<rparr>)"
proof -
  have eq: "asm_syscall_entry = gate_saves @ flat_segments @ [Mov EAX (Reg ESP), Push (Reg EAX), Push (Reg EDX), Push (Reg ECX)]"
    by (simp add: asm_syscall_entry_def gate_saves_def flat_segments_def)
  have e: "run fl asm_syscall_entry s =
      run fl [Mov EAX (Reg ESP), Push (Reg EAX), Push (Reg EDX), Push (Reg ECX)] (run fl flat_segments (run fl gate_saves s))"
    unfolding eq by (simp only: run_append)
  show ?thesis unfolding e flat_segments gate_saves [OF assms] by (simp add: push_word_def set_reg_def Let_def)
qed

lemma gate_arguments:
  assumes "gpr s ESP = 60 + sp"
  shows "syscall_args (run fl asm_syscall_entry s) = (gpr s ECX, ucast (gpr s EDX) OR push_bit 32 (ucast (12 + sp)))"
  by (simp add: gate_call [OF assms] syscall_args_def Let_def)

lemma hi32: fixes w :: u32 and a :: u32 assumes "w \<noteq> 0" "n < 2 ^ 32"
  shows "(ucast a OR push_bit 32 (ucast w) :: u64) \<noteq> n"
proof -
  have "drop_bit 32 (ucast a OR push_bit 32 (ucast w) :: u64) = ucast w"
    by (rule bit_word_eqI) (auto simp: bit_simps dest: bit_imp_le_length)
  moreover have "drop_bit 32 n = 0"
    using less_mask_eq [OF assms(2)] by (simp add: take_bit_eq_mask flip: take_bit_eq_self_iff_drop_bit_eq_0)
  moreover have "(ucast w :: u64) \<noteq> 0"
  proof
    assume "(ucast w :: u64) = 0"
    then have "(ucast (ucast w :: u64) :: u32) = 0" by simp
    moreover have "(ucast (ucast w :: u64) :: u32) = w" by (rule bit_eqI) (simp add: bit_simps)
    ultimately show False using assms(1) by simp
  qed
  ultimately show ?thesis by metis
qed
text \<open>
  The gate pushes \<open>eax\<close>, which holds the stack pointer, where the high half of the 64-bit number is read: no
  number below \<open>2 ^ 32\<close> ever arrives, unless the stack pointer is at the single value for which that half is 0.
\<close>

lemma gate_number_large:
  assumes "gpr s ESP \<noteq> 48" "n < 2 ^ 32"
  shows "snd (syscall_args (run fl asm_syscall_entry s)) \<noteq> n"
proof -
  define sp where "sp = gpr s ESP - 60"
  then have sp: "gpr s ESP = 60 + sp" by simp
  have e: "12 + sp = gpr s ESP - 48" by (simp add: sp_def)
  have "12 + sp \<noteq> 0" unfolding e using assms(1) by simp
  from hi32 [OF this assms(2)] show ?thesis unfolding gate_arguments [OF sp] by simp
qed

text \<open>When the C function has kept the stack, everything but the flags is given back.\<close>

lemma gate_returns:
  assumes "gpr s ESP = 60 + sp" "gpr t ESP = sp" "\<forall>k \<in> {3, 4, 5, 6, 7, 8, 9, 10, 11, 12, 13, 14}. words t (4 * k + sp) = words (run fl asm_syscall_entry s) (4 * k + sp)"
  shows "gpr (run fl asm_syscall_exit t) = gpr s" "segs (run fl asm_syscall_exit t) = segs s"
proof -
  have w: "words t (12 + sp) = ucast (segs s GS)" "words t (16 + sp) = ucast (segs s FS)" "words t (20 + sp) = ucast (segs s ES)"
    "words t (24 + sp) = ucast (segs s DS)" "words t (28 + sp) = gpr s EDI" "words t (32 + sp) = gpr s ESI" "words t (36 + sp) = gpr s EBP"
    "words t (40 + sp) = 44 + sp" "words t (44 + sp) = gpr s EBX" "words t (48 + sp) = gpr s EDX" "words t (52 + sp) = gpr s ECX"
    "words t (56 + sp) = gpr s EAX"
    using assms(3) by (simp_all add: gate_call [OF assms(1)] gate_saves [OF assms(1)] Let_def)
  have "gpr (run fl asm_syscall_exit t) = (gpr t)(EDI := gpr s EDI, ESI := gpr s ESI, EBP := gpr s EBP, EBX := gpr s EBX,
      EDX := gpr s EDX, ECX := gpr s ECX, EAX := gpr s EAX, ESP := 60 + sp)"
    using assms(2) by (simp add: asm_syscall_exit_def pop_word_def set_reg_def w add.commute [of sp 12] fun_upd_twist)
  also have "\<dots> = gpr s"
  proof
    fix r show "((gpr t)(EDI := gpr s EDI, ESI := gpr s ESI, EBP := gpr s EBP, EBX := gpr s EBX,
      EDX := gpr s EDX, ECX := gpr s ECX, EAX := gpr s EAX, ESP := 60 + sp)) r = gpr s r"
      using assms(1) by (cases r) simp_all
  qed
  finally show "gpr (run fl asm_syscall_exit t) = gpr s" .
  have "segs (run fl asm_syscall_exit t) = (segs t)(GS := segs s GS, FS := segs s FS, ES := segs s ES, DS := segs s DS)"
    using assms(2) by (simp add: asm_syscall_exit_def pop_word_def set_reg_def w add.commute [of sp 12] seg_word)
  also have "\<dots> = segs s"
  proof
    fix r show "((segs t)(GS := segs s GS, FS := segs s FS, ES := segs s ES, DS := segs s DS)) r = segs s r" by (cases r) simp_all
  qed
  finally show "segs (run fl asm_syscall_exit t) = segs s" .
qed

text \<open>
  So a call through the gate never serves anything: after the integrity check it does nothing, panics or logs an
  invalid call, whatever number the caller asks for.
\<close>

lemma gate_serves_nothing:
  assumes "gpr s ESP \<noteq> 48"
  shows "execute_syscall vm (snd (syscall_args (run fl asm_syscall_entry s))) k =
    bindP (Some (sys_verify_integrity k)) (\<lambda>k.
      Some (if memory_guard (g_env k) = 0 \<or> isolation_active (g_env k) = 0 then Inr k
            else if vm = None \<or> fault_detected (g_env k) \<noteq> 0 then sys_panic ''ERR_SYSCALL_VIOLATION_INVALID_CONTEXT'' k
            else bindE (k_log 2 (lit ''INVALID_SYSCALL_EXECUTION_ATTEMPT'') k) (\<lambda>k.
              Inr (emit [Print (ln ''Invalid system call.'')] k))))"
proof -
  let ?n = "snd (syscall_args (run fl asm_syscall_entry s))"
  have "?n \<noteq> SYS_HELP" "?n \<noteq> SYS_RAM"
    by (rule gate_number_large [OF assms], simp add: SYS_HELP_def SYS_RAM_def)+
  then show ?thesis by (simp add: execute_syscall_def if_distrib [of Some] cong: if_cong)
qed

subsection \<open>The interrupt stubs\<close>

text \<open>
  A stub acknowledges the interrupt at both controllers and gives every register back, with the stack pointer
  at the frame that \<open>iret\<close> takes; it calls nothing, so a fault is dismissed and raised again.  The extra
  segment registers come back as the data segment.
\<close>

lemma low_byte: "ucast ((w AND 0xFFFFFF00) OR v :: u32) = (ucast v :: u8)"
proof -
  have m: "(0xFFFFFF00 :: u32) = NOT (mask 8)" by (simp add: mask_eq_exp_minus_1)
  show ?thesis unfolding m by (rule bit_eqI) (simp add: bit_simps)
qed

lemma popa_pusha:
  assumes "gpr s ESP = 32 + sp" "gpr t ESP = sp" "\<forall>k \<in> {0, 1, 2, 4, 5, 6, 7}. words t (4 * k + sp) = words (pusha s) (4 * k + sp)"
  shows "popa t = t\<lparr>gpr := gpr s\<rparr>"
proof -
  have w: "words t sp = gpr s EDI" "words t (sp + 4) = gpr s ESI" "words t (sp + 8) = gpr s EBP" "words t (sp + 16) = gpr s EBX"
    "words t (sp + 20) = gpr s EDX" "words t (sp + 24) = gpr s ECX" "words t (sp + 28) = gpr s EAX"
    using assms(3) by (simp_all add: pusha_eq [OF assms(1)] add.commute [of sp])
  have "(gpr t)(EDI := gpr s EDI, ESI := gpr s ESI, EBP := gpr s EBP, EBX := gpr s EBX, EDX := gpr s EDX,
         ECX := gpr s ECX, EAX := gpr s EAX, ESP := sp + 32) = gpr s"
  proof
    fix r show "((gpr t)(EDI := gpr s EDI, ESI := gpr s ESI, EBP := gpr s EBP, EBX := gpr s EBX, EDX := gpr s EDX,
         ECX := gpr s ECX, EAX := gpr s EAX, ESP := sp + 32)) r = gpr s r"
      using assms(1) by (cases r) (simp_all add: add.commute)
  qed
  then show ?thesis by (simp add: popa_def Let_def assms(2) w)
qed

definition acknowledge :: "instr list" where
  "acknowledge = [Mov EAX (Reg ESP), Push (Reg EAX), Mov_al 0x20, Out_al 0x20, Out_al 0xA0, Pop EAX, Pop EAX,
     Mov_seg_ax DS, Mov_seg_ax ES, Mov_seg_ax FS, Mov_seg_ax GS]"

lemma acknowledge_eq:
  assumes "gpr s ESP = 4 + sp"
  shows "run fl acknowledge s = s\<lparr>gpr := (gpr s)(ESP := 8 + sp, EAX := words s (4 + sp)), segs := (\<lambda>_. ucast (words s (4 + sp))),
     words := (words s)(sp := 4 + sp), ports_out := ports_out s @ [Out8 0x20 0x20, Out8 0xA0 0x20]\<rparr>"
  using assms by (simp add: acknowledge_def push_word_def pop_word_def set_reg_def Let_def low_byte all_segs add.commute [of sp 4])

lemma common_stub_eq:
  assumes "gpr s ESP = 40 + sp"
  shows "gpr (run fl common_stub s) = (gpr s)(ESP := 48 + sp)" "segs (run fl common_stub s) = (\<lambda>_. segs s DS)"
    "ports_out (run fl common_stub s) = ports_out s @ [Out8 0x20 0x20, Out8 0xA0 0x20]"
    "p \<notin> {sp, 4 + sp} \<union> (\<lambda>k. 8 + (4 * k + sp)) ` {0, 1, 2, 3, 4, 5, 6, 7} \<Longrightarrow> words (run fl common_stub s) p = words s p"
proof -
  have c: "common_stub = [Pusha] @ ([Mov_ax_seg DS, Push (Reg EAX)] @ (flat_segments @ (acknowledge @ [Popa, Alu Add ESP (Imm 8), Sti])))"
    by (simp add: common_stub_def flat_segments_def acknowledge_def)
  let ?w = "gpr s EAX AND 0xFFFF0000 OR ucast (segs s DS)"
  have e: "gpr s ESP = 32 + (8 + sp)" by (simp add: assms)
  define t where "t = run fl acknowledge (run fl flat_segments (run fl [Mov_ax_seg DS, Push (Reg EAX)] (pusha s)))"
  have t: "t = s\<lparr>gpr := (gpr s)(ESP := 8 + sp, EAX := ?w), segs := (\<lambda>_. segs s DS),
      words := (words (pusha s))(4 + sp := ?w, sp := 4 + sp), ports_out := ports_out s @ [Out8 0x20 0x20, Out8 0xA0 0x20]\<rparr>"
    unfolding t_def flat_segments
    by (subst acknowledge_eq [where sp = sp])
      (simp_all add: pusha_eq [OF e] push_word_def set_reg_def Let_def ax_low seg_word)
  have p: "popa t = t\<lparr>gpr := gpr s\<rparr>"
    by (rule popa_pusha [OF e]) (simp_all add: t)
  have "run fl common_stub s = run fl [Popa, Alu Add ESP (Imm 8), Sti] t"
    unfolding c run_append t_def by (simp only: run_simps exec.simps)
  then have r: "run fl common_stub s = exec fl Sti (exec fl (Alu Add ESP (Imm 8)) (t\<lparr>gpr := gpr s\<rparr>))"
    by (simp only: run_simps exec.simps(12,13) p)
  show "gpr (run fl common_stub s) = (gpr s)(ESP := 48 + sp)" "segs (run fl common_stub s) = (\<lambda>_. segs s DS)"
    "ports_out (run fl common_stub s) = ports_out s @ [Out8 0x20 0x20, Out8 0xA0 0x20]"
    by (simp_all add: r t assms)
  show "words (run fl common_stub s) p = words s p" if "p \<notin> {sp, 4 + sp} \<union> (\<lambda>k. 8 + (4 * k + sp)) ` {0, 1, 2, 3, 4, 5, 6, 7}"
    using that by (simp add: r t pusha_eq [OF e])
qed

lemma interrupt_stub_returns:
  "gpr (run fl (isr n @ common_stub) s) = (gpr s)(ESP := gpr s ESP + (if n \<in> set error_code_vectors then 4 else 0)) \<and>
   segs (run fl (isr n @ common_stub) s) = (\<lambda>_. segs s DS) \<and>
   ports_out (run fl (isr n @ common_stub) s) = ports_out s @ [Out8 0x20 0x20, Out8 0xA0 0x20] \<and>
   (\<forall>p. p \<notin> (\<lambda>k. gpr s ESP - 4 * k) ` {1, 2, 3, 4, 5, 6, 7, 8, 9, 10, 11, 12} \<longrightarrow>
      words (run fl (isr n @ common_stub) s) p = words s p)"
proof (cases "n \<in> set error_code_vectors")
  case True
  define sp where "sp = gpr s ESP - 44"
  then have sp: "gpr s ESP = 44 + sp" by simp
  define t where "t = run fl (isr n) s"
  have t: "t = s\<lparr>eflags := eflags s AND NOT IF, gpr := (gpr s)(ESP := 40 + sp), words := (words s)(40 + sp := n)\<rparr>"
    using True sp by (simp add: t_def isr_def isr_errcode_def push_word_def Let_def)
  then have "gpr t ESP = 40 + sp" by simp
  note c = common_stub_eq [OF this, where fl = fl]
  have "words (run fl common_stub t) p = words s p"
    if p: "p \<notin> (\<lambda>k. gpr s ESP - 4 * k) ` {1, 2, 3, 4, 5, 6, 7, 8, 9, 10, 11, 12}" for p
  proof -
    have "p \<notin> {sp, 4 + sp} \<union> (\<lambda>k. 8 + (4 * k + sp)) ` {0, 1, 2, 3, 4, 5, 6, 7}" "p \<noteq> 40 + sp"
      using p by (auto simp: sp)
    then show ?thesis using c(4) [where p = p] t by simp
  qed
  then show ?thesis using True c(1-3) sp t by (simp flip: t_def)
next
  case False
  define sp where "sp = gpr s ESP - 48"
  then have sp: "gpr s ESP = 48 + sp" by simp
  define t where "t = run fl (isr n) s"
  have t: "t = s\<lparr>eflags := eflags s AND NOT IF, gpr := (gpr s)(ESP := 40 + sp), words := (words s)(44 + sp := 0, 40 + sp := n)\<rparr>"
    using False sp by (simp add: t_def isr_def isr_noerrcode_def push_word_def Let_def)
  then have "gpr t ESP = 40 + sp" by simp
  note c = common_stub_eq [OF this, where fl = fl]
  have "words (run fl common_stub t) p = words s p"
    if p: "p \<notin> (\<lambda>k. gpr s ESP - 4 * k) ` {1, 2, 3, 4, 5, 6, 7, 8, 9, 10, 11, 12}" for p
  proof -
    have "p \<notin> {sp, 4 + sp} \<union> (\<lambda>k. 8 + (4 * k + sp)) ` {0, 1, 2, 3, 4, 5, 6, 7}" "p \<noteq> 40 + sp" "p \<noteq> 44 + sp"
      using p by (auto simp: sp)
    then show ?thesis using c(4) [where p = p] t by simp
  qed
  then show ?thesis using False c(1-3) sp t by (auto simp flip: t_def)
qed

subsection \<open>User mode and the stack pointer\<close>

text \<open>
  A selector is loaded when its descriptor lies within the table.  The table that \<open>init_gdt\<close> installs has three
  entries, so none of the user selectors of \<open>asm_enter_usermode\<close> can be loaded.
\<close>

definition in_table :: "u16 \<Rightarrow> table_ptr \<Rightarrow> bool" where
  "in_table selector p \<longleftrightarrow> unat (selector AND 0xFFF8) + 7 \<le> unat (ptr_limit p)"

lemma user_selectors_missing:
  "\<exists>g p. init_gdt a [x, y, z] = Inr (g, p) \<and> in_table 0x10 p \<and> \<not> in_table 0x1B p \<and> \<not> in_table 0x23 p"
  using init_gdt_flat [of a x y z] by (auto simp: in_table_def)

lemma usermode_selectors:
  assumes "gpr s ESP = 28 + sp"
  shows "segs (run fl asm_enter_usermode s) = (\<lambda>_. 0x23)"
    "words (run fl asm_enter_usermode s) (gpr (run fl asm_enter_usermode s) ESP + 4) = 0x1B"
  using assms by (simp_all add: asm_enter_usermode_def push_word_def pop_word_def set_reg_def Let_def ax_low all_segs)

text \<open>\<open>asm_set_stack_pointer\<close> pops \<open>ebp\<close> and the return address from the new stack, not from the caller's.\<close>

lemma set_stack_pointer_loses_caller:
  assumes "gpr s ESP = 4 + sp"
  shows "pop_word (run fl asm_set_stack_pointer s) =
    (let new = words s (8 + sp); m = (words s)(sp := gpr s EBP) in
     (m (new + 4), s\<lparr>gpr := (gpr s)(EAX := new, EBP := m new, ESP := 8 + new), words := m\<rparr>))"
  using assms by (simp add: asm_set_stack_pointer_def push_word_def pop_word_def set_reg_def Let_def fun_upd_twist)

lemma multiboot_checksum: "sum_list multiboot_header = 0"
  by (simp add: multiboot_header_def)

subsection \<open>The stress loop\<close>

text \<open>Every instruction of the loop can be undone, so a turn is a permutation of the registers.\<close>

fun reversible :: "instr \<Rightarrow> bool" where
  "reversible (Alu op r (Imm n)) \<longleftrightarrow> op \<noteq> Or_bits"
| "reversible (Alu op r (Reg q)) \<longleftrightarrow> op \<in> {Add, Sub, Xor} \<and> r \<noteq> q"
| "reversible (Not_reg r) \<longleftrightarrow> True"
| "reversible (Bswap_reg r) \<longleftrightarrow> True"
| "reversible (Dec_reg r) \<longleftrightarrow> True"
| "reversible _ \<longleftrightarrow> False"

lemma un32_inj:
  assumes "un32 a b c d = un32 a' b' c' d'"
  shows "a = a' \<and> b = b' \<and> c = c' \<and> d = d'"
proof -
  have e: "bit (un32 a b c d) n = bit (un32 a' b' c' d') n" for n using assms by simp
  have at: "bit (un32 a b c d) n = bit a n" "bit (un32 a b c d) (8 + n) = bit b n" "bit (un32 a b c d) (16 + n) = bit c n"
    "bit (un32 a b c d) (24 + n) = bit d n" if "n < 8" for a b c d n
    using that bit_imp_le_length [of a "8 + n"] bit_imp_le_length [of a "16 + n"] bit_imp_le_length [of a "24 + n"]
      bit_imp_le_length [of b "8 + n"] bit_imp_le_length [of b "16 + n"] bit_imp_le_length [of c "8 + n"]
    by (simp_all add: un32_def bit_simps) auto
  have "bit a n = bit a' n \<and> bit b n = bit b' n \<and> bit c n = bit c' n \<and> bit d n = bit d' n" if "n < 8" for n
    using e [of n] e [of "8 + n"] e [of "16 + n"] e [of "24 + n"] unfolding at [OF that] by simp
  then show ?thesis by (intro conjI bit_word_eqI) simp_all
qed

lemma bswap_inj:
  assumes "bswap x = bswap y"
  shows "x = y"
proof -
  note h = un32_inj [OF assms [unfolded bswap_def]]
  have "un32 (ucast x) (ucast (drop_bit 8 x)) (ucast (drop_bit 16 x)) (ucast (drop_bit 24 x)) =
        un32 (ucast y) (ucast (drop_bit 8 y)) (ucast (drop_bit 16 y)) (ucast (drop_bit 24 y))"
    by (simp only: h)
  then show ?thesis by (simp only: un32_le32)
qed

lemma alu_inj:
  assumes "alu_result op x n = alu_result op y n" "op \<noteq> Or_bits"
  shows "x = y"
proof (cases op)
  case Xor
  then have "(x XOR n) XOR n = (y XOR n) XOR n" using assms(1) by (simp only: alu_result.simps)
  then show ?thesis by (simp only: xor.assoc xor_self_eq xor.right_neutral)
next
  case Rol
  then have "word_rotr (unat n) (word_rotl (unat n) x) = word_rotr (unat n) (word_rotl (unat n) y)"
    using assms(1) by (simp only: alu_result.simps)
  then show ?thesis by (simp only: word_rot_lr)
next
  case Ror
  then have "word_rotl (unat n) (word_rotr (unat n) x) = word_rotl (unat n) (word_rotr (unat n) y)"
    using assms(1) by (simp only: alu_result.simps)
  then show ?thesis by (simp only: word_rot_rl)
qed (use assms in simp_all)

lemma compute_inj:
  assumes "reversible i" "compute i f = compute i g"
  shows "f = g"
proof -
  have one: "f = g" if "f(r := a) = g(r := b)" "a = b \<Longrightarrow> f r = g r" for r a b
  proof
    fix q show "f q = g q" using that by (metis fun_upd_apply)
  qed
  show ?thesis
  proof (cases i)
    case (Alu op r v)
    have v: "val f v = val g v"
    proof (cases v)
      case (Reg q)
      with assms(1) Alu have "q \<noteq> r" by auto
      then have "compute i f q = f q" "compute i g q = g q" by (simp_all add: Alu)
      with assms(2) Reg show ?thesis by simp
    qed simp
    show ?thesis
      by (rule one [of r "alu_result op (f r) (val f v)" "alu_result op (g r) (val g v)"])
        (use assms Alu v in simp, rule alu_inj, simp add: v, use assms Alu in \<open>cases v; auto\<close>)
  next
    case (Not_reg r)
    with assms show ?thesis by (intro one [of r "NOT (f r)" "NOT (g r)"]) auto
  next
    case (Bswap_reg r)
    then show ?thesis by (intro one [of r "bswap (f r)" "bswap (g r)"]) (use assms bswap_inj in auto)
  next
    case (Dec_reg r)
    with assms show ?thesis by (intro one [of r "f r - 1" "g r - 1"]) auto
  qed (use assms in auto)
qed

lemma run_compute:
  "list_all reversible is \<Longrightarrow> gpr (run fl is s) = fold compute is (gpr s) \<and> words (run fl is s) = words s \<and> segs (run fl is s) = segs s"
proof (induction "is" arbitrary: s)
  case (Cons i "is")
  have "gpr (exec fl i s) = compute i (gpr s) \<and> words (exec fl i s) = words s \<and> segs (exec fl i s) = segs s"
    using Cons.prems by (cases i) auto
  with Cons show ?case by simp
qed simp

lemma fold_compute_inj: "list_all reversible is \<Longrightarrow> fold compute is f = fold compute is g \<Longrightarrow> f = g"
  by (induction "is" arbitrary: f g) (auto dest: compute_inj)

lemma stress_reversible: "list_all reversible stress_body"
  by (simp add: stress_body_def)

lemma stress_turn_permutes:
  assumes "gpr (run fl stress_body s) = gpr (run fl stress_body t)"
  shows "gpr s = gpr t"
  using assms run_compute [OF stress_reversible] fold_compute_inj [OF stress_reversible] by metis

text \<open>If the loop ends, the routine gives the registers and the flags back.\<close>

fun scratch :: "instr \<Rightarrow> bool" where
  "scratch (Mov r v) \<longleftrightarrow> r \<noteq> ESP"
| "scratch (Alu op r v) \<longleftrightarrow> r \<noteq> ESP"
| "scratch (Not_reg r) \<longleftrightarrow> r \<noteq> ESP"
| "scratch (Bswap_reg r) \<longleftrightarrow> r \<noteq> ESP"
| "scratch (Dec_reg r) \<longleftrightarrow> r \<noteq> ESP"
| "scratch _ \<longleftrightarrow> False"

lemma run_scratch: "list_all scratch is \<Longrightarrow> gpr (run fl is s) ESP = gpr s ESP \<and> words (run fl is s) = words s"
proof (induction "is" arbitrary: s)
  case (Cons i "is")
  have "gpr (exec fl i s) ESP = gpr s ESP \<and> words (exec fl i s) = words s"
    using Cons.prems by (cases i) (auto simp: set_reg_def)
  with Cons show ?case by simp
qed simp

lemma stress_scratch: "list_all scratch stress_body" "list_all scratch stress_seed"
  by (simp_all add: stress_body_def stress_seed_def)

lemma stress_loop_scratch:
  assumes "stress_loop fl s = Some t"
  shows "gpr t ESP = gpr s ESP \<and> words t = words s"
proof (rule stress_loop.raw_induct [OF _ assms])
  fix loop fl s t
  assume IH: "\<And>fl s t. loop fl s = Some t \<Longrightarrow> gpr t ESP = gpr s ESP \<and> words t = words s"
    and body: "(let s = run fl stress_body s in if gpr s ECX \<noteq> 0 then loop fl s else Some s) = Some t"
  show "gpr t ESP = gpr s ESP \<and> words t = words s"
  proof (cases "gpr (run fl stress_body s) ECX \<noteq> 0")
    case True
    with body have "loop fl (run fl stress_body s) = Some t" by (simp add: Let_def)
    from IH [OF this] show ?thesis by (simp add: run_scratch [OF stress_scratch(1)])
  next
    case False
    with body have "t = run fl stress_body s" by (simp add: Let_def)
    then show ?thesis by (simp add: run_scratch [OF stress_scratch(1)])
  qed
qed

lemma stress_keeps_registers:
  assumes "execute_cpu_stress_entropy fl s = Some (ret, t)"
  shows "ret = words s (gpr s ESP)" "gpr t = (gpr s)(ESP := gpr s ESP + 4)" "eflags t = eflags s"
proof -
  define sp where "sp = gpr s ESP - 32"
  then have sp: "gpr s ESP = 32 + sp" by simp
  define u where "u = run fl stress_seed (exec fl Pushf (pusha s))"
  obtain v where v: "stress_loop fl u = Some v" "(ret, t) = pop_word (run fl [Popf, Popa] v)"
    using assms unfolding execute_cpu_stress_entropy_def run_simps exec.simps(12) u_def by auto
  have u: "gpr u ESP = sp - 4" "words u = (words (pusha s))(sp - 4 := eflags s)"
    using run_scratch [OF stress_scratch(2), of fl "exec fl Pushf (pusha s)"]
    unfolding u_def by (simp_all add: pusha_eq [OF sp] push_word_def Let_def)
  have w: "gpr v ESP = sp - 4" "words v = (words (pusha s))(sp - 4 := eflags s)"
    using stress_loop_scratch [OF v(1)] u by auto
  let ?x = "v\<lparr>gpr := (gpr v)(ESP := sp), eflags := eflags s\<rparr>"
  have p: "popa ?x = ?x\<lparr>gpr := gpr s\<rparr>"
    by (rule popa_pusha [OF sp]) (auto simp: w)
  have "exec fl Popf v = ?x" by (simp add: pop_word_def w)
  then have "(ret, t) = pop_word (?x\<lparr>gpr := gpr s\<rparr>)" using v(2) by (simp add: p)
  moreover have "words v (gpr s ESP) = words s (gpr s ESP)"
    unfolding w by (simp add: pusha_eq [OF sp] sp)
  ultimately show "ret = words s (gpr s ESP)" "gpr t = (gpr s)(ESP := gpr s ESP + 4)" "eflags t = eflags s"
    by (simp_all add: pop_word_def)
qed

section \<open>The claims\<close>

text \<open>
  C39: two tasks that switch to each other with \<open>asm_switch_context\<close>: when another task switches back to the
  record that a task left, and its ten saved words, its return address and its record are as the first switch
  left them, the code at the label returns to the task's caller with every register and the flags as they were.
\<close>
theorem switching_back_resumes_the_caller:
  assumes "gpr s ESP = 40 + sp" "words s (44 + sp) = a" "a \<noteq> 0" "asm_switch_context fl rp s = Some (x, s1)"
    "a \<notin> (\<lambda>k. 4 * k + sp) ` {0, 1, 2, 3, 4, 5, 6, 7, 8, 9, 10}" "4 + a \<notin> (\<lambda>k. 4 * k + sp) ` {0, 1, 2, 3, 4, 5, 6, 7, 8, 9, 10}"
    "asm_switch_context fl rp t = Some (y, t1)" "words t1 (8 + gpr t ESP) = a"
    "\<forall>p \<in> task_words a sp. words t1 p = words s1 p"
  shows "y = rp \<and> restore_point_code fl t1 =
    (words s (gpr s ESP), t1\<lparr>gpr := (gpr s)(ESP := 4 + gpr s ESP), eflags := eflags s\<rparr>)"
  using switch_back [OF assms] by (rule conjI)

text \<open>Two tasks with records at 0x2000 and 0x3000: the first switches to the second and the second back.\<close>

definition two_tasks :: processor where
  "two_tasks = \<lparr>gpr = (\<lambda>_. 7)(ESP := 0x1028), eflags = 0x202, segs = (\<lambda>_. 0x10), crs = (\<lambda>_. 0),
     words = (\<lambda>_. 0)(0x1028 := 0x700, 0x102C := 0x2000, 0x1030 := 0x3000, 0x3000 := 0x5000, 0x3004 := 0x600,
       0x5028 := 0x800, 0x502C := 0x3000, 0x5030 := 0x2000), ports_out = []\<rparr>"

theorem switching_back_resumes_the_caller_witness:
  "\<exists>x s1 y t1. asm_switch_context (\<lambda>_ f. f) 0x500 two_tasks = Some (x, s1) \<and>
     asm_switch_context (\<lambda>_ f. f) 0x500 (s1\<lparr>gpr := (\<lambda>_. 9)(ESP := 0x5028)\<rparr>) = Some (y, t1) \<and> y = 0x500 \<and>
     restore_point_code (\<lambda>_ f. f) t1 = (0x700, t1\<lparr>gpr := (\<lambda>_. 7)(ESP := 0x102C), eflags := 0x202\<rparr>)"
proof -
  have s: "gpr two_tasks ESP = 40 + 0x1000" by (simp add: two_tasks_def)
  obtain x s1 where s1: "asm_switch_context (\<lambda>_ f. f) 0x500 two_tasks = Some (x, s1)"
    "words s1 = (switch_frame 0x1000 two_tasks)(0x2000 := 0x1000, 0x2004 := 0x500)"
    unfolding switch_eq [OF s] by (simp add: switch_record_def switch_frame_def two_tasks_def)
  let ?t = "s1\<lparr>gpr := (\<lambda>_. 9)(ESP := 0x5028)\<rparr>"
  have t: "gpr ?t ESP = 40 + 0x5000" by simp
  obtain y t1 where t1: "asm_switch_context (\<lambda>_ f. f) 0x500 ?t = Some (y, t1)"
    "words t1 = (switch_frame 0x5000 ?t)(0x3000 := 0x5000, 0x3004 := 0x500)"
    unfolding switch_eq [OF t] by (simp add: switch_record_def switch_frame_def s1(2) two_tasks_def)
  have "y = 0x500 \<and> restore_point_code (\<lambda>_ f. f) t1 =
      (words two_tasks (gpr two_tasks ESP), t1\<lparr>gpr := (gpr two_tasks)(ESP := 4 + gpr two_tasks ESP), eflags := eflags two_tasks\<rparr>)"
  proof (rule switching_back_resumes_the_caller [OF s _ _ s1(1) _ _ t1(1)])
    show "words two_tasks (44 + 0x1000) = 0x2000" by (simp add: two_tasks_def)
    show "words t1 (8 + gpr ?t ESP) = 0x2000" by (simp add: t1(2) switch_frame_def s1(2) two_tasks_def)
    show "\<forall>p \<in> task_words 0x2000 0x1000. words t1 p = words s1 p"
      by (simp add: task_words_def t1(2) s1(2) switch_frame_def)
  qed simp_all
  with s1(1) t1(1) show ?thesis by (auto simp: two_tasks_def)
qed

text \<open>
  C40: a system call made through \<open>asm_syscall_entry\<close> is never served: the high half of the number that
  \<open>execute_syscall\<close> receives is the stack pointer, so whatever the caller asks for, the kernel checks its integrity
  and then does nothing (without isolation), panics, or logs and prints an invalid call.
\<close>
theorem gate_never_serves_a_call:
  assumes "gpr s ESP \<noteq> 48"
  shows "execute_syscall vm (snd (syscall_args (run fl asm_syscall_entry s))) k =
    bindP (Some (sys_verify_integrity k)) (\<lambda>k.
      Some (if memory_guard (g_env k) = 0 \<or> isolation_active (g_env k) = 0 then Inr k
            else if vm = None \<or> fault_detected (g_env k) \<noteq> 0 then sys_panic ''ERR_SYSCALL_VIOLATION_INVALID_CONTEXT'' k
            else bindE (k_log 2 (lit ''INVALID_SYSCALL_EXECUTION_ATTEMPT'') k) (\<lambda>k.
              Inr (emit [Print (ln ''Invalid system call.'')] k))))"
  by (rule gate_serves_nothing [OF assms])

theorem gate_never_serves_a_call_witness:
  "\<forall>vm (k :: heap_kernel). let s = two_tasks\<lparr>gpr := (gpr two_tasks)(EDX := 18)\<rparr> in
     execute_syscall vm (snd (syscall_args (run (\<lambda>_ f. f) asm_syscall_entry s))) k \<noteq> None"
proof -
  have "gpr (two_tasks\<lparr>gpr := (gpr two_tasks)(EDX := 18)\<rparr>) ESP \<noteq> 48" by (simp add: two_tasks_def)
  then show ?thesis unfolding Let_def
    by (intro allI, subst gate_never_serves_a_call) (simp_all add: bindP_def split: sum.split)
qed

end
