(* ===== verification/Spec2Isabelle.thy ===== *)
theory Spec2Isabelle
  imports WX_Vga WX_Syslog WX_Hex WX_Kernel WX_Oom WX_Ipc WX_Sched WX_Sched_Inv WX_Sched_Props WX_Bytes WX_Malloc WX_Tools WX_Ipc_Props
    WX_Disk WX_Fs WX_Fs_Props WX_Calc WX_Paging WX_Paging_Props WX_Net_Props WX_Keyboard_Props WX_Editors_Props
    WX_Vm WX_Vm_Props WX_Shell WX_Shell_Props WX_Shell_Cmds
    WX_Hw WX_Cpu WX_Fault WX_Bot WX_System WX_Dialogue WX_Asm
begin

text \<open>
  A verification development for the WHITEX kernel, the 32-bit x86 kernel under \<open>src/i386/whitex\<close>.

  \<^bold>\<open>The program.\<close>  One translation unit, \<open>Kernel.c\<close>, includes all others.  \<open>Kernel\<close> sets the machine up, lets
  the user log in and then reads lines for ever; each line is split into a command and its arguments, looked up
  in a table and dispatched to a routine.  The routines work on the heap, the file system and the disk, the
  process table with its message channels, the page accounts, the network card, the screen and the keyboard.
  There are no interrupts: every device is polled, and processes switch only when they yield.

  \<^bold>\<open>Conventions\<close> (\<open>WX_Prelude\<close>).  A machine word keeps its width (\<open>u8\<close> to \<open>u64\<close>), an \<open>int\<close> of the code is an
  \<open>int\<close> with the wrap-around written out.  A buffer is the list of its bytes; reading or writing outside it is
  the value \<open>Out_of_bounds\<close>, as are a divide error, a panic and a halt: the error values of a sum type, chained
  by \<open>bindE\<close>.  A routine that may not return is an option, and its loop a \<open>partial_function\<close>; its result \<open>None\<close>
  is non-termination, and where a claim says that the code returns, it says so.  No fuel is used.  Output is the
  list of console actions in order.  What the environment decides (typed lines, scan codes, frames on the wire,
  register contents, what other processes do while one waits) is an argument.

  \<^bold>\<open>Theories.\<close>
    \<^item> \<open>WX_Prelude\<close>, \<open>WX_Strings\<close>, \<open>WX_Bytes\<close>: errors, strings in buffers, rings, decimal numbers, words in bytes;
      the string helpers of \<open>Kernel.c\<close>, \<open>strcmp.h\<close>, \<open>multitasking.h\<close>, \<open>malloc.h\<close>.
    \<^item> \<open>WX_Vga\<close>, \<open>WX_Hex\<close>: the text console of \<open>vga.h\<close> (cursor and page stay in bounds), hexadecimal output
      and the tick counter (\<open>hexdump.h\<close>, \<open>bot.h\<close>, \<open>clk.h\<close>, \<open>clock.h\<close>).
    \<^item> \<open>WX_Syslog\<close>, \<open>WX_Kernel\<close>: the log ring (a window over the last 128 writes), the environment with its
      canaries, panic, \<open>sudo\<close>, \<open>kill_protect\<close>, \<open>open_safe\<close> (they refine a two-bit machine) of \<open>Kernel.c\<close>.
    \<^item> \<open>WX_Oom\<close>: zones, reclaim, the choice of a victim and page allocation of \<open>oomk.h\<close>.
    \<^item> \<open>WX_Ipc\<close>, \<open>WX_Sched\<close>, \<open>WX_Sched_Inv\<close>, \<open>WX_Sched_Props\<close>, \<open>WX_Tools\<close>, \<open>WX_Ipc_Props\<close>: message channels (the
      locale of bounded queues, interpreted on the sends and receives of processes), process table, aging, selection, the switch of stacks on registers and
      stack words, signals, waiting, termination (\<open>multitasking.h\<close>); the commands on them (\<open>sys_tools.h\<close>) and
      the daemons (\<open>tasks.h\<close>).  The step relation over all operations carries the table invariant
      (a signal handler is a function pointer, and none is registered in the code: one that runs is assumed to keep it).
    \<^item> \<open>WX_Malloc\<close>: the allocator of \<open>malloc.h\<close> on the bytes of its heap.
    \<^item> \<open>WX_Disk\<close>, \<open>WX_Fs\<close>, \<open>WX_Fs_Props\<close>: the ATA driver (\<open>sdd.h\<close>; a locale of block devices and its
      interpretation), the node table, the file commands, the two file shells and the sync (\<open>fs.h\<close>, \<open>fssdd.h\<close>).
    \<^item> \<open>WX_Calc\<close>: the two-stack calculator of \<open>calc.h\<close> against the evaluation of expression trees.
    \<^item> \<open>WX_Paging\<close>, \<open>WX_Paging_Props\<close>: frames, directories and tables in physical memory (\<open>paging.h\<close>), next to
      the table walk of the processor.
    \<^item> \<open>WX_Netbuf\<close>, \<open>WX_Net\<close>, \<open>WX_Net_Props\<close>: buffers and checksums, ARP, IPv4, ICMP, TCP, UDP, the card and its
      rings, sockets (\<open>internet.h\<close>), \<open>ping.h\<close>, \<open>pkg.h\<close>.
    \<^item> \<open>WX_Keyboard\<close>, \<open>WX_Keyboard_Props\<close>: the scan-code machine, line input and the login (\<open>keyboard.h\<close>,
      \<open>login.h\<close>), refining a plain line editor.
    \<^item> \<open>WX_Editors\<close>, \<open>WX_Editors_Props\<close>: \<open>nano.h\<close>, refining an append-only text, and \<open>notepad.h\<close>.
    \<^item> \<open>WX_Vm\<close>, \<open>WX_Vm_Props\<close>: the byte-code machine in the heap and the system calls (\<open>vm.h\<close>, \<open>esysc.h\<close>,
      \<open>syscall.h\<close>), refining an abstract interpreter.
    \<^item> \<open>WX_Shell\<close>, \<open>WX_Shell_Props\<close>, \<open>WX_Shell_Cmds\<close>: dispatch table, search, splitting of lines, prompt loop and
      start-up of \<open>Kernel.c\<close> on the composed state, with the small commands.
    \<^item> \<open>WX_Hw\<close>, \<open>WX_Cpu\<close>, \<open>WX_Fault\<close>, \<open>WX_Bot\<close>: port accesses, descriptor tables, timer, clock, speaker and reset
      (\<open>io.h\<close>, \<open>gdt.h\<close>, \<open>idt.h\<close>, \<open>clk.h\<close>, \<open>clock.h\<close>, \<open>melodi.h\<close>, \<open>reboot.h\<close>, \<open>shutdown.h\<close>), the monitors
      (\<open>cpuid.h\<close>, \<open>cpucritical.h\<close>, \<open>power.h\<close>, \<open>htop.h\<close>, \<open>mmio.h\<close>), the fault handler of \<open>fault.h\<close>, and the
      assembly routines for filling, copying and exchange with their test \<open>bot.h\<close>.
    \<^item> \<open>WX_Asm\<close>: a small model of the processor on which the routines of \<open>multi.asm\<close> (context switch, system-call
      gate, control registers, stack pointer, user mode), the stubs of \<open>interrupt.asm\<close>, the entry of \<open>boot.asm\<close>
      and the loop of \<open>cpu_stress.asm\<close> are lists of instructions.
    \<^item> \<open>WX_System\<close>: the parts composed.  The start-up drives the models of the devices, the routines of the
      dispatch table are those of their own theories, and the lines at the prompt are what the keyboard driver makes
      of scan codes; the locale \<open>parts_invariant\<close> carries an invariant of the parts from the start-up to every state
      in which the prompt waits.  \<open>WX_Dialogue\<close>: a dialogue from the keys to the screen.

  \<^bold>\<open>What is shown.\<close>  Invariants that every operation keeps: the page and cursor, the log, the process table and
  its channels, the node table and the path of the current directory, the frame bitmap, the buffer pool, the well-formed machine.
  Refinement of abstract machines: queue, log window, privileges, line editor, editor text, interpreter, table on
  disk.  Functional results on every branch: selection and context switch, victim and reserve of the page
  accounts, first fit, termination of processes, dispatch, mapping, replies and the handshake of the network.
  Round trips: context frames and switches, names and paths, frames, checksums, typed text, descriptors.  Liveness: a waiting
  process runs within a bound.  Several theorems state what the code does where it does not do what it means to:
  the set-up of paging unmaps the kernel, an unknown command reads past the table, the fault handler overwrites
  the boot sector, the system-call gate never serves a call; the lemmas named in the texts show others.

  \<^bold>\<open>Not modelled.\<close>  The stubs of \<open>multi.asm\<close> that save and restore the FPU state and invalidate a page, and the
  effects of \<open>sysexit\<close> and \<open>iret\<close>, which end the instruction lists; the layout of the image (\<open>linker.ld\<close>); the
  loads of descriptor-table registers; the translation caches of the processor; delays; \<open>multiboot.h\<close>, which
  declares a record that is never read, the codes of \<open>errnu.h\<close> that are never used and \<open>headerlist.h\<close>, a list of
  includes; build and test scripts.  The keys that \<open>top\<close>, \<open>time\<close>, \<open>reboot\<close> and the network monitor poll are
  arguments of those routines, apart from the scan codes that become lines.
\<close>

end
